(* ===== verification/JSC_Prelude.thy ===== *)
theory JSC_Prelude
  imports Main "HOL-Library.Word" "HOL-Library.Monad_Syntax"
begin

text \<open>
  Shared vocabulary of the development: names for the machine integers of the engine's Rust
  sources, checked access to vectors, the two halves of a 64-bit word, powers of two and the
  triangular probe sequence of the hash tables.

  An operation of the code that can panic (an index out of range, an \<open>expect\<close> on \<open>None\<close>) or
  that can loop for ever has a result of type \<open>'a option\<close> in the model: \<open>None\<close> says that the
  Rust function does not return.  Assertions of the code that are compiled out of a release
  build (\<open>debug_assert!\<close>) are not part of the model; where they state an invariant the
  invariant is proved.
\<close>

unbundle bit_operations_syntax

type_synonym u8 = "8 word"
type_synonym u16 = "16 word"
type_synonym u32 = "32 word"
type_synonym u64 = "64 word"
type_synonym u128 = "128 word"

named_theorems checked_simps \<open>rewrite rules for checked vector access\<close>

section \<open>Checked access to vectors\<close>

definition vec_get :: "'a list \<Rightarrow> nat \<Rightarrow> 'a option" where
  "vec_get xs i = (if i < length xs then Some (xs ! i) else None)"

definition vec_set :: "'a list \<Rightarrow> nat \<Rightarrow> 'a \<Rightarrow> 'a list option" where
  "vec_set xs i v = (if i < length xs then Some (xs[i := v]) else None)"

lemma vec_get_in [checked_simps]: "i < length xs \<Longrightarrow> vec_get xs i = Some (xs ! i)"
  by (simp add: vec_get_def)

lemma vec_set_in [checked_simps]: "i < length xs \<Longrightarrow> vec_set xs i v = Some (xs[i := v])"
  by (simp add: vec_set_def)

lemma vec_get_Some_iff: "vec_get xs i = Some v \<longleftrightarrow> i < length xs \<and> xs ! i = v"
  by (auto simp: vec_get_def)

lemma vec_set_Some_iff: "vec_set xs i v = Some ys \<longleftrightarrow> i < length xs \<and> ys = xs[i := v]"
  by (auto simp: vec_set_def)

section \<open>Words\<close>

lemma unat_drop_bit_div: "unat (drop_bit n w) = unat w div 2 ^ n" for w :: "'a::len word"
  using unat_drop_bit_eq [of n w] by (simp only: drop_bit_eq_div [of n "unat w"])

lemma unat_ucast_mod: "unat (ucast w :: 'b::len word) = unat w mod 2 ^ LENGTH('b)"
  for w :: "'a::len word"
  by (simp add: unsigned_ucast_eq take_bit_eq_mod)

lemma unat_ucast_u32_u64 [simp]: "unat (ucast (w :: u32) :: u64) = unat w"
proof -
  have "unat w < 2 ^ 32" using unsigned_less [of w] by simp
  then show ?thesis by (simp add: unat_ucast_mod)
qed

lemma unat_u32_less [simp]: "unat (w :: u32) < 4294967296"
  using unsigned_less [of w] by simp

lemma mult_plus_less:
  assumes "(a :: nat) < b" and "c < m" shows "a * m + c < b * m"
proof -
  have "Suc a * m \<le> b * m" using assms(1) by (intro mult_le_mono) simp_all
  with assms(2) show ?thesis unfolding mult_Suc by linarith
qed

lemma mod_low_digit: "(x :: nat) < b \<Longrightarrow> (x + b * y) mod (b * m) = x + b * (y mod m)"
  by (simp add: mod_mult2_eq)

lemma unat_u32_le [simp]: "unat (w :: u32) \<le> 4294967295"
  using unat_u32_less [of w] by (simp del: unat_u32_less)

lemma int_unat_of_int_u32:
  "0 \<le> v \<Longrightarrow> v < 4294967296 \<Longrightarrow> int (unat (word_of_int v :: u32)) = v"
  by (simp add: uint_word_of_int)

lemma unat_add_no_overflow:
  "unat a + unat b < 2 ^ LENGTH('a) \<Longrightarrow> unat (a + b) = unat a + unat b" for a b :: "'a::len word"
  by (simp add: unat_word_ariths)

lemma unat_mult_no_overflow:
  "unat a * unat b < 2 ^ LENGTH('a) \<Longrightarrow> unat (a * b) = unat a * unat b" for a b :: "'a::len word"
  by (simp add: unat_word_ariths)

lemma unat_take_bit_mod: "unat (take_bit n w) = unat w mod 2 ^ n" for w :: "'a::len word"
proof -
  have "unat (take_bit n w) = take_bit n (unat w)" by (rule unsigned_take_bit_eq)
  also have "\<dots> = unat w mod 2 ^ n" by (rule take_bit_eq_mod)
  finally show ?thesis .
qed

lemma take_bit_self_word: "unat (c :: 'a::len word) < 2 ^ s \<Longrightarrow> take_bit s c = c"
  by (rule word_unat_eq_iff [THEN iffD2]) (simp add: unsigned_take_bit_eq take_bit_nat_eq_self)

lemma bit_below:
  assumes "unat (c :: 'a::len word) < 2 ^ s" and "bit c n" shows "n < s"
proof -
  have "bit (take_bit s c) n" using assms by (simp add: take_bit_self_word)
  then show ?thesis by (simp add: bit_take_bit_iff)
qed

lemma push_or_eq_add:
  assumes "unat (c :: 'a::len word) < 2 ^ s"
  shows "push_bit s a OR c = push_bit s a + c"
proof -
  have "push_bit s a AND c = 0"
    by (rule bit_eqI) (auto simp: bit_simps dest: bit_below [OF assms])
  then show ?thesis by (simp add: disjunctive_add_eq_or)
qed

text \<open>The low half of a 64-bit word and what is left above it make up the word.\<close>

lemma lo_hi_u64: "unat (ucast (v :: u64) :: u32) + 4294967296 * unat (drop_bit 32 v) = unat v"
  by (simp add: unat_ucast_mod unat_drop_bit_div)

lemma hi_u64_less: "unat (drop_bit 32 (v :: u64)) < 4294967296"
proof -
  have "unat v < 2 ^ 64" using unsigned_less [of v] by simp
  then show ?thesis by (simp add: unat_drop_bit_div less_mult_imp_div_less)
qed

section \<open>Bytes of a word\<close>

definition le_byte :: "u64 \<Rightarrow> nat \<Rightarrow> u8" where
  "le_byte v k = ucast (drop_bit (8 * k) v AND 0xff)"

lemma and_ff: "x AND 0xff = take_bit 8 x" for x :: u64
  using take_bit_eq_mask [of 8 x] by (simp add: mask_eq_exp_minus_1)

lemma or_byte: "take_bit (8 * k) v OR push_bit (8 * k) (ucast (le_byte v k)) = take_bit (8 * k + 8) v"
proof (rule bit_eqI)
  fix n
  show "bit (take_bit (8 * k) v OR push_bit (8 * k) (ucast (le_byte v k))) n =
      bit (take_bit (8 * k + 8) v) n"
    using bit_imp_le_length [of v n] by (auto simp: le_byte_def and_ff bit_simps)
qed

section \<open>Lists with at most one matching element\<close>

text \<open>
  Facts on the elements a predicate selects when a key function is injective on them, as the live
  entries of a table are by their keys.
\<close>

lemma distinct_filter_nth_eq:
  assumes "distinct (map f (filter P xs))" and "i < length xs" and "j < length xs"
    and "P (xs ! i)" and "P (xs ! j)" and "f (xs ! i) = f (xs ! j)"
  shows "i = j"
  using assms
proof (induction xs arbitrary: i j)
  case Nil
  then show ?case by simp
next
  case (Cons x xs)
  have mem: "n < length xs \<Longrightarrow> P (xs ! n) \<Longrightarrow> f (xs ! n) \<in> f ` {y \<in> set xs. P y}" for n
    by auto
  show ?case
    using Cons.prems Cons.IH [of "i - 1" "j - 1"] mem [of "i - 1"] mem [of "j - 1"]
    by (cases i; cases j) (auto split: if_splits)
qed

lemma filter_update_drop:
  assumes "distinct (map f (filter P xs))" and "i < length xs" and "P (xs ! i)" and "\<not> P y"
  shows "filter P (xs[i := y]) = filter (\<lambda>x. f x \<noteq> f (xs ! i)) (filter P xs)"
  using assms
proof (induction xs arbitrary: i)
  case Nil
  then show ?case by simp
next
  case (Cons x xs)
  show ?case
  proof (cases i)
    case 0
    with Cons.prems have "filter (\<lambda>z. f z \<noteq> f x) (filter P xs) = filter P xs"
      by (intro filter_True) (auto simp: image_iff)
    with 0 Cons.prems show ?thesis by simp
  next
    case (Suc i')
    with Cons.prems have "f (xs ! i') \<in> f ` {z \<in> set xs. P z}" by auto
    with Suc Cons show ?thesis by (auto split: if_splits)
  qed
qed

lemma length_filter_update_drop:
  "i < length xs \<Longrightarrow> P (xs ! i) \<Longrightarrow> \<not> P y \<Longrightarrow>
     length (filter P xs) = Suc (length (filter P (xs[i := y])))"
proof (induction xs arbitrary: i)
  case Nil
  then show ?case by simp
next
  case (Cons x xs)
  then show ?case by (cases i) auto
qed

lemma filter_update_map:
  assumes "distinct (map f (filter P xs))" and "i < length xs" and "P (xs ! i)" and "P y"
    and "y = g (xs ! i)"
  shows "filter P (xs[i := y]) = map (\<lambda>x. if f x = f (xs ! i) then g x else x) (filter P xs)"
  using assms
proof (induction xs arbitrary: i)
  case Nil
  then show ?case by simp
next
  case (Cons x xs)
  show ?case
  proof (cases i)
    case 0
    with Cons.prems have "map (\<lambda>z. if f z = f x then g z else z) (filter P xs) = filter P xs"
      by (intro map_idI) (auto simp: image_iff)
    with 0 Cons.prems show ?thesis by simp
  next
    case (Suc i')
    with Cons.prems have "f (xs ! i') \<in> f ` {z \<in> set xs. P z}" by auto
    with Suc Cons show ?thesis by (auto split: if_splits)
  qed
qed

section \<open>Data refinement\<close>

text \<open>
  The contract several components promise: every admissible operation on a state that satisfies
  the invariant returns, keeps the invariant, and does to the abstract value what the
  specification says.  Sequences of operations then do so as well.
\<close>

fun run_steps :: "('op \<Rightarrow> 's \<Rightarrow> 's option) \<Rightarrow> 'op list \<Rightarrow> 's \<Rightarrow> 's option" where
  "run_steps step [] s = Some s"
| "run_steps step (x # xs) s = do { s' \<leftarrow> step x s; run_steps step xs s' }"

locale data_refinement =
  fixes invar :: "'s \<Rightarrow> bool"
    and abs :: "'s \<Rightarrow> 'a"
    and step :: "'op \<Rightarrow> 's \<Rightarrow> 's option"
    and spec :: "'op \<Rightarrow> 'a \<Rightarrow> 'a"
    and ok :: "'op \<Rightarrow> 'a \<Rightarrow> bool"
  assumes step_refines:
    "invar s \<Longrightarrow> ok x (abs s) \<Longrightarrow> \<exists>s'. step x s = Some s' \<and> invar s' \<and> abs s' = spec x (abs s)"
begin

fun all_ok :: "'op list \<Rightarrow> 'a \<Rightarrow> bool" where
  "all_ok [] a = True"
| "all_ok (x # xs) a = (ok x a \<and> all_ok xs (spec x a))"

lemma run_refines:
  "invar s \<Longrightarrow> all_ok xs (abs s) \<Longrightarrow>
     \<exists>s'. run_steps step xs s = Some s' \<and> invar s' \<and> abs s' = fold spec xs (abs s)"
proof (induction xs arbitrary: s)
  case Nil
  then show ?case by simp
next
  case (Cons x xs)
  then obtain s' where "step x s = Some s'" "invar s'" "abs s' = spec x (abs s)"
    using step_refines by fastforce
  with Cons.IH [of s'] Cons.prems show ?case by simp
qed

lemma all_ok_state_independent:
  "(\<And>x a. x \<in> set xs \<Longrightarrow> ok x a) \<Longrightarrow> all_ok xs a"
  by (induction xs arbitrary: a) auto

end

section \<open>Powers of two\<close>

text \<open>
  \<open>u32::next_power_of_two\<close> of the standard library: the smallest power of two that is at
  least the argument.
\<close>

function next_pow2_from :: "nat \<Rightarrow> nat \<Rightarrow> nat" where
  "next_pow2_from p n = (if n \<le> p \<or> p = 0 then p else next_pow2_from (2 * p) n)"
  by pat_completeness auto
termination
  by (relation "measure (\<lambda>(p, n). n - p)") auto

declare next_pow2_from.simps [simp del]

definition next_power_of_two :: "nat \<Rightarrow> nat" where
  "next_power_of_two n = next_pow2_from 1 n"

lemma next_pow2_from_ge: "0 < p \<Longrightarrow> n \<le> next_pow2_from p n"
proof (induction p n rule: next_pow2_from.induct)
  case (1 p n)
  then show ?case by (subst next_pow2_from.simps) auto
qed

lemma next_pow2_from_power: "\<exists>k. next_pow2_from p n = p * 2 ^ k"
proof (induction p n rule: next_pow2_from.induct)
  case (1 p n)
  show ?case
  proof (cases "n \<le> p \<or> p = 0")
    case True
    then show ?thesis by (subst next_pow2_from.simps) (auto intro: exI [of _ 0])
  next
    case False
    with "1.IH" obtain k where "next_pow2_from (2 * p) n = (2 * p) * 2 ^ k" by blast
    with False show ?thesis
      by (subst next_pow2_from.simps) (auto intro!: exI [of _ "Suc k"])
  qed
qed

lemma next_pow2_from_less: "0 < p \<Longrightarrow> p < 2 * n \<Longrightarrow> next_pow2_from p n < 2 * n"
proof (induction p n rule: next_pow2_from.induct)
  case (1 p n)
  then show ?case by (subst next_pow2_from.simps) auto
qed

lemma next_power_of_two_ge: "n \<le> next_power_of_two n"
  by (simp add: next_power_of_two_def next_pow2_from_ge)

lemma next_power_of_two_power: "\<exists>k. next_power_of_two n = 2 ^ k"
  using next_pow2_from_power [of 1 n] by (simp add: next_power_of_two_def)

lemma next_power_of_two_less: "0 < n \<Longrightarrow> next_power_of_two n < 2 * n"
  by (simp add: next_power_of_two_def next_pow2_from_less)

lemma next_power_of_two_least:
  assumes "n \<le> 2 ^ j" shows "next_power_of_two n \<le> 2 ^ j"
proof (cases "n = 0")
  case True
  then show ?thesis
    by (simp add: next_power_of_two_def next_pow2_from.simps)
next
  case False
  obtain k where k: "next_power_of_two n = 2 ^ k" using next_power_of_two_power by blast
  from False assms next_power_of_two_less [of n] k have "(2::nat) ^ k < 2 ^ Suc j"
    by simp
  then have "k < Suc j" using power_less_imp_less_exp [of 2 k "Suc j"] by simp
  with k show ?thesis by simp
qed

section \<open>Triangular probing\<close>

text \<open>
  The probe sequence of the property tables starts at a hash and grows its stride by one at
  every step, so after \<open>k\<close> steps it has moved by the \<open>k\<close>-th triangular number.  Modulo a
  power of two those are all distinct, hence a probe of \<open>2 ^ n\<close> steps visits every slot.
\<close>

definition triangle :: "nat \<Rightarrow> nat" where
  "triangle k = k * (k + 1) div 2"

lemma triangle_0 [simp]: "triangle 0 = 0"
  by (simp add: triangle_def)

lemma double_triangle: "2 * triangle k = k * (k + 1)"
  by (simp add: triangle_def)

lemma triangle_Suc [simp]: "triangle (Suc k) = triangle k + Suc k"
proof -
  have "2 * triangle (Suc k) = 2 * (triangle k + Suc k)"
    unfolding distrib_left double_triangle by (simp add: algebra_simps)
  then show ?thesis by simp
qed

lemma triangle_diff_dvd:
  assumes "j \<le> i" and "2 ^ n dvd triangle i - triangle j"
  shows "2 ^ Suc n dvd (i - j) * (i + j + 1)"
proof -
  from assms(1) have "2 * (triangle i - triangle j) = (i - j) * (i + j + 1)"
    unfolding diff_mult_distrib2 double_triangle
    by (auto simp: algebra_simps dest!: le_Suc_ex)
  moreover from assms(2) have "2 * 2 ^ n dvd 2 * (triangle i - triangle j)"
    by (rule mult_dvd_mono [OF dvd_refl])
  ultimately show ?thesis by simp
qed

lemma pow2_dvd_prod:
  fixes a b :: nat
  assumes "2 ^ n dvd a * b" and "odd a \<or> odd b"
  shows "2 ^ n dvd a \<or> 2 ^ n dvd b"
proof (cases "odd a")
  case True
  then have "coprime (2 ^ n) a" by simp
  with assms(1) show ?thesis by (auto simp: coprime_dvd_mult_right_iff)
next
  case False
  with assms(2) have "coprime (2 ^ n) b" by simp
  with assms(1) show ?thesis by (auto simp: coprime_dvd_mult_left_iff)
qed

lemma triangle_mono: "j \<le> i \<Longrightarrow> triangle j \<le> triangle i"
  by (rule lift_Suc_mono_le [of triangle]) auto

lemma triangle_inj_aux:
  assumes "j < i" and "i < 2 ^ n" and "(c + triangle i) mod 2 ^ n = (c + triangle j) mod 2 ^ n"
  shows False
proof -
  have "c + triangle j \<le> c + triangle i" using triangle_mono assms(1) by simp
  with assms(3) have "2 ^ n dvd (c + triangle i) - (c + triangle j)"
    by (rule mod_eq_dvd_iff_nat [THEN iffD1, rotated])
  then have "2 ^ Suc n dvd (i - j) * (i + j + 1)"
    using assms(1) by (intro triangle_diff_dvd) auto
  moreover have "odd (i - j) \<or> odd (i + j + 1)" using assms(1) by auto
  ultimately have "2 ^ Suc n dvd (i - j) \<or> 2 ^ Suc n dvd (i + j + 1)"
    by (rule pow2_dvd_prod)
  then have "2 ^ Suc n \<le> i - j \<or> 2 ^ Suc n \<le> i + j + 1"
    using assms(1) by (auto dest: dvd_imp_le)
  with assms(1,2) show False by auto
qed

lemma triangle_inj_on: "inj_on (\<lambda>k. (c + triangle k) mod 2 ^ n) {..<2 ^ n}"
proof (rule inj_onI)
  fix i j :: nat
  assume "i \<in> {..<2 ^ n}" and "j \<in> {..<2 ^ n}"
    and eq: "(c + triangle i) mod 2 ^ n = (c + triangle j) mod 2 ^ n"
  then show "i = j"
    using triangle_inj_aux [of i j n c] triangle_inj_aux [of j i n c]
    by (cases i j rule: linorder_cases) auto
qed

lemma triangle_surj:
  assumes "s < 2 ^ n" obtains k where "k < 2 ^ n" "(c + triangle k) mod 2 ^ n = s"
proof -
  let ?f = "\<lambda>k. (c + triangle k) mod 2 ^ n"
  have "?f ` {..<2 ^ n} \<subseteq> {..<2 ^ n}" by auto
  moreover have "card (?f ` {..<2 ^ n}) = card {..<(2::nat) ^ n}"
    by (rule card_image [OF triangle_inj_on])
  ultimately have "?f ` {..<2 ^ n} = {..<2 ^ n}"
    by (intro card_subset_eq) auto
  with assms have "s \<in> ?f ` {..<2 ^ n}" by simp
  then show ?thesis using that by (elim imageE) simp
qed

end
