(* ===== verification/Property_Offset.thy ===== *)
theory Property_Offset
  imports JSC_Prelude
begin

text \<open>
  Property offsets (\<open>src/src/object/property_offset.rs\<close>): one signed number per property,
  split into an inline band below 64 that indexes an object's inline slots and an out-of-line
  band from 64 on that indexes the butterfly downwards.  An \<open>i32\<close> is an \<open>int\<close> here; the
  offsets the engine hands out are far from the ends of the range, and the bounds the arithmetic
  needs are hypotheses of the lemmas.
\<close>

type_synonym property_offset = int

definition INVALID_OFFSET :: property_offset where
  "INVALID_OFFSET = -1"

definition FIRST_OUT_OF_LINE_OFFSET :: property_offset where
  "FIRST_OUT_OF_LINE_OFFSET = 64"

definition is_valid_offset :: "property_offset \<Rightarrow> bool" where
  "is_valid_offset offset \<longleftrightarrow> offset \<noteq> INVALID_OFFSET"

definition is_inline_offset :: "property_offset \<Rightarrow> bool" where
  "is_inline_offset offset \<longleftrightarrow> offset < FIRST_OUT_OF_LINE_OFFSET"

definition is_out_of_line_offset :: "property_offset \<Rightarrow> bool" where
  "is_out_of_line_offset offset \<longleftrightarrow> \<not> is_inline_offset offset"

definition offset_in_inline_storage :: "property_offset \<Rightarrow> int" where
  "offset_in_inline_storage offset = offset"

definition offset_in_out_of_line_storage :: "property_offset \<Rightarrow> int" where
  "offset_in_out_of_line_storage offset = - (offset - FIRST_OUT_OF_LINE_OFFSET) - 1"

definition offset_in_respective_storage :: "property_offset \<Rightarrow> int" where
  "offset_in_respective_storage offset =
     (if is_inline_offset offset then offset_in_inline_storage offset
      else offset_in_out_of_line_storage offset)"

definition number_of_out_of_line_slots_for_max_offset :: "property_offset \<Rightarrow> nat" where
  "number_of_out_of_line_slots_for_max_offset offset =
     (if offset < FIRST_OUT_OF_LINE_OFFSET then 0
      else nat (offset - FIRST_OUT_OF_LINE_OFFSET + 1))"

definition number_of_slots_for_max_offset :: "property_offset \<Rightarrow> int \<Rightarrow> nat" where
  "number_of_slots_for_max_offset offset inline_capacity =
     (if offset < inline_capacity then nat (offset + 1)
      else nat inline_capacity + number_of_out_of_line_slots_for_max_offset offset)"

definition offset_for_property_number :: "int \<Rightarrow> int \<Rightarrow> property_offset" where
  "offset_for_property_number property_number inline_capacity =
     (if property_number \<ge> inline_capacity
      then property_number + FIRST_OUT_OF_LINE_OFFSET - inline_capacity
      else property_number)"

lemmas property_offset_defs =
  INVALID_OFFSET_def FIRST_OUT_OF_LINE_OFFSET_def is_valid_offset_def is_inline_offset_def
  is_out_of_line_offset_def offset_in_inline_storage_def offset_in_out_of_line_storage_def
  offset_in_respective_storage_def number_of_out_of_line_slots_for_max_offset_def
  number_of_slots_for_max_offset_def offset_for_property_number_def

text \<open>Distinct property numbers get distinct offsets.\<close>

lemma offset_for_property_number_inj:
  "cap \<le> 64 \<Longrightarrow> offset_for_property_number m cap = offset_for_property_number n cap \<longleftrightarrow> m = n"
  by (auto simp: property_offset_defs)

lemma offset_for_property_number_valid:
  "0 \<le> n \<Longrightarrow> 0 \<le> cap \<Longrightarrow> 0 \<le> offset_for_property_number n cap"
  by (auto simp: property_offset_defs)

text \<open>
  The storage for all offsets up to the one of property number \<open>n\<close> has exactly \<open>n + 1\<close> slots,
  so offsets are handed out densely across the jump between the two bands.
\<close>

lemma number_of_slots_offset_for_property_number:
  "0 \<le> n \<Longrightarrow> 0 \<le> cap \<Longrightarrow> cap \<le> 64 \<Longrightarrow>
     number_of_slots_for_max_offset (offset_for_property_number n cap) cap = nat (n + 1)"
  by (auto simp: property_offset_defs nat_add_distrib)

text \<open>Inline offsets use non-negative storage indices, out-of-line offsets negative ones.\<close>

lemma offset_in_respective_storage_sign:
  "0 \<le> offset \<Longrightarrow>
     0 \<le> offset_in_respective_storage offset \<longleftrightarrow> is_inline_offset offset"
  by (auto simp: property_offset_defs)

lemma offset_in_respective_storage_inj:
  "0 \<le> a \<Longrightarrow> 0 \<le> b \<Longrightarrow>
     offset_in_respective_storage a = offset_in_respective_storage b \<longleftrightarrow> a = b"
  by (auto simp: property_offset_defs)

lemma out_of_line_storage_bounds:
  "is_out_of_line_offset offset \<Longrightarrow> offset \<le> max_offset \<Longrightarrow>
     - int (number_of_out_of_line_slots_for_max_offset max_offset)
       \<le> offset_in_respective_storage offset \<and> offset_in_respective_storage offset < 0"
  by (auto simp: property_offset_defs)

end
