(* ===== verification/Property_Table.thy ===== *)
theory Property_Table
  imports Property_Offset "HOL-Library.Multiset"
begin

text \<open>
  The property table (\<open>src/src/object/property_table.rs\<close>): the insertion-ordered hash table a
  structure uses to find its named properties.  An open-addressing index of 1-based positions,
  probed with triangular strides, lies over an append-only array of entries; removal leaves
  tombstones that a rehash drops; freed offsets are recycled from a stack.

  The \<open>u32\<close> counters and sizes are natural numbers here; \<open>pt_inv_bounds\<close> shows that they stay
  far below \<open>2 ^ 32\<close> as long as the table holds fewer than \<open>2 ^ 28\<close> entries.
\<close>

section \<open>The model\<close>

type_synonym atom_id = u32

datatype entry_key = Empty | Deleted | Key atom_id

record property_table_entry =
  pe_key :: entry_key
  pe_offset :: property_offset
  pe_attributes :: nat

definition entry_new :: "atom_id \<Rightarrow> property_offset \<Rightarrow> nat \<Rightarrow> property_table_entry" where
  "entry_new key offset attributes =
     \<lparr>pe_key = Key key, pe_offset = offset, pe_attributes = attributes\<rparr>"

definition entry_empty :: property_table_entry where
  "entry_empty = \<lparr>pe_key = Empty, pe_offset = 0, pe_attributes = 0\<rparr>"

definition entry_key_opt :: "property_table_entry \<Rightarrow> atom_id option" where
  "entry_key_opt e = (case pe_key e of Key atom \<Rightarrow> Some atom | Empty \<Rightarrow> None | Deleted \<Rightarrow> None)"

text \<open>\<open>require_key\<close> is \<open>unreachable!\<close> on an entry without a live key.\<close>

definition require_key :: "property_table_entry \<Rightarrow> atom_id option" where
  "require_key e = (case pe_key e of Key atom \<Rightarrow> Some atom | Empty \<Rightarrow> None | Deleted \<Rightarrow> None)"

definition set_deleted :: "property_table_entry \<Rightarrow> property_table_entry" where
  "set_deleted e = e\<lparr>pe_key := Deleted\<rparr>"

definition set_attributes :: "nat \<Rightarrow> property_table_entry \<Rightarrow> property_table_entry" where
  "set_attributes attributes e = e\<lparr>pe_attributes := attributes\<rparr>"

record find_result =
  fr_entry_index :: nat
  fr_index :: nat
  fr_offset :: property_offset
  fr_attributes :: nat

record property_table =
  pt_index_size :: nat
  pt_index_mask :: nat
  pt_index :: "nat list"
  pt_table :: "property_table_entry list"
  pt_key_count :: nat
  pt_deleted_count :: nat
  pt_deleted_offsets :: "property_offset list option"

definition EMPTY_ENTRY_INDEX :: nat where
  "EMPTY_ENTRY_INDEX = 0"

definition MINIMUM_TABLE_SIZE :: nat where
  "MINIMUM_TABLE_SIZE = 16"

definition size_for_capacity :: "nat \<Rightarrow> nat" where
  "size_for_capacity capacity =
     (if capacity < MINIMUM_TABLE_SIZE div 2 then MINIMUM_TABLE_SIZE
      else next_power_of_two (capacity + 1) * 2)"

definition with_capacity :: "nat \<Rightarrow> property_table" where
  "with_capacity initial_capacity =
     (let index_size = size_for_capacity initial_capacity;
          table_capacity = index_size div 2
      in \<lparr>pt_index_size = index_size, pt_index_mask = index_size - 1,
          pt_index = replicate index_size EMPTY_ENTRY_INDEX,
          pt_table = replicate (table_capacity + 1) entry_empty,
          pt_key_count = 0, pt_deleted_count = 0, pt_deleted_offsets = None\<rparr>)"

definition table_capacity :: "property_table \<Rightarrow> nat" where
  "table_capacity t = pt_index_size t div 2"

definition deleted_entry_index :: "property_table \<Rightarrow> nat" where
  "deleted_entry_index t = table_capacity t + 1"

definition used_count :: "property_table \<Rightarrow> nat" where
  "used_count t = pt_key_count t + pt_deleted_count t"

definition pt_size :: "property_table \<Rightarrow> nat" where
  "pt_size t = pt_key_count t"

definition pt_is_empty :: "property_table \<Rightarrow> bool" where
  "pt_is_empty t \<longleftrightarrow> pt_key_count t = 0"

definition property_storage_size :: "property_table \<Rightarrow> nat" where
  "property_storage_size t =
     pt_size t + (case pt_deleted_offsets t of None \<Rightarrow> 0 | Some v \<Rightarrow> length v)"

definition can_insert :: "property_table \<Rightarrow> bool" where
  "can_insert t \<longleftrightarrow> used_count t < table_capacity t"

text \<open>The 128-bit product of \<open>int_hash_u64\<close>, folded to 64 bits and cut to 32.\<close>

definition int_hash_u64 :: "u64 \<Rightarrow> u32" where
  "int_hash_u64 key =
     (let product = (ucast (key XOR 0x2d358dccaa6c78a5) :: u128)
                      * ucast (key XOR 0x8bb84b93962eacc9);
          folded = (ucast product :: u64) XOR ucast (drop_bit 64 product)
      in ucast folded)"

definition rep_hash :: "atom_id \<Rightarrow> u32" where
  "rep_hash key = int_hash_u64 (ucast key)"

text \<open>
  The probe loop of \<open>find\<close>.  It leaves the loop only at an empty slot or at the key, so it is a
  partial function: \<open>None\<close> stands for a probe that never ends or reads out of range.
\<close>

partial_function (option) find_loop ::
  "property_table \<Rightarrow> atom_id \<Rightarrow> nat \<Rightarrow> nat \<Rightarrow> find_result option" where
  "find_loop t key probe_count index = do {
     entry_index \<leftarrow> vec_get (pt_index t) index;
     if entry_index = EMPTY_ENTRY_INDEX
     then Some \<lparr>fr_entry_index = entry_index, fr_index = index,
                 fr_offset = INVALID_OFFSET, fr_attributes = 0\<rparr>
     else do {
       entry \<leftarrow> vec_get (pt_table t) (entry_index - 1);
       if pe_key entry = Key key
       then Some \<lparr>fr_entry_index = entry_index, fr_index = index,
                   fr_offset = pe_offset entry, fr_attributes = pe_attributes entry\<rparr>
       else find_loop t key (probe_count + 1) ((index + (probe_count + 1)) AND pt_index_mask t)
     }
   }"

definition find_entry :: "property_table \<Rightarrow> atom_id \<Rightarrow> find_result option" where
  "find_entry t key = find_loop t key 0 (unat (rep_hash key) AND pt_index_mask t)"

definition pt_get :: "property_table \<Rightarrow> atom_id \<Rightarrow> (property_offset \<times> nat) option" where
  "pt_get t key =
     (if pt_key_count t = 0 then Some (INVALID_OFFSET, 0)
      else do { result \<leftarrow> find_entry t key; Some (fr_offset result, fr_attributes result) })"

partial_function (option) reinsert_loop :: "property_table \<Rightarrow> nat \<Rightarrow> nat \<Rightarrow> nat option" where
  "reinsert_loop t probe_count index = do {
     entry_index \<leftarrow> vec_get (pt_index t) index;
     if entry_index = EMPTY_ENTRY_INDEX then Some index
     else reinsert_loop t (probe_count + 1) ((index + (probe_count + 1)) AND pt_index_mask t)
   }"

text \<open>Both insertions end by claiming an index slot and appending the entry.\<close>

definition append_entry ::
  "property_table \<Rightarrow> nat \<Rightarrow> property_table_entry \<Rightarrow> property_table option" where
  "append_entry t index entry = do {
     let entry_index = used_count t + 1;
     new_index \<leftarrow> vec_set (pt_index t) index entry_index;
     new_table \<leftarrow> vec_set (pt_table t) (entry_index - 1) entry;
     Some (t\<lparr>pt_index := new_index, pt_table := new_table, pt_key_count := pt_key_count t + 1\<rparr>)
   }"

definition reinsert :: "property_table_entry \<Rightarrow> property_table \<Rightarrow> property_table option" where
  "reinsert entry t = do {
     key \<leftarrow> require_key entry;
     index \<leftarrow> reinsert_loop t 0 (unat (rep_hash key) AND pt_index_mask t);
     append_entry t index entry
   }"

fun reinsert_all ::
  "property_table_entry list \<Rightarrow> property_table \<Rightarrow> property_table option" where
  "reinsert_all [] t = Some t"
| "reinsert_all (entry # entries) t =
     (if pe_key entry = Deleted then reinsert_all entries t
      else do { t' \<leftarrow> reinsert entry t; reinsert_all entries t' })"

definition rehash :: "nat \<Rightarrow> property_table \<Rightarrow> property_table option" where
  "rehash new_capacity t =
     (let old_table = pt_table t; old_used_count = used_count t;
          index_size = size_for_capacity new_capacity;
          table_capacity = index_size div 2
      in reinsert_all (take old_used_count old_table)
           (t\<lparr>pt_index_size := index_size, pt_index_mask := index_size - 1,
              pt_key_count := 0, pt_deleted_count := 0,
              pt_index := replicate index_size EMPTY_ENTRY_INDEX,
              pt_table := replicate (table_capacity + 1) entry_empty\<rparr>))"

definition add_after_find ::
  "property_table_entry \<Rightarrow> find_result \<Rightarrow> property_table
     \<Rightarrow> ((property_offset \<times> nat \<times> bool) \<times> property_table) option" where
  "add_after_find entry result t = do {
     (t1, result1) \<leftarrow>
       (if can_insert t then Some (t, result)
        else do {
          t1 \<leftarrow> rehash (pt_key_count t + 1) t;
          key \<leftarrow> require_key entry;
          result1 \<leftarrow> find_entry t1 key;
          Some (t1, result1)
        });
     t2 \<leftarrow> append_entry t1 (fr_index result1) entry;
     Some ((pe_offset entry, pe_attributes entry, True), t2)
   }"

definition pt_add ::
  "property_table_entry \<Rightarrow> property_table
     \<Rightarrow> ((property_offset \<times> nat \<times> bool) \<times> property_table) option" where
  "pt_add entry t = do {
     key \<leftarrow> require_key entry;
     result \<leftarrow> find_entry t key;
     if fr_offset result \<noteq> INVALID_OFFSET
     then Some ((fr_offset result, fr_attributes result, False), t)
     else add_after_find entry result t
   }"

definition pt_remove :: "nat \<Rightarrow> nat \<Rightarrow> property_table \<Rightarrow> property_table option" where
  "pt_remove entry_index index t = do {
     new_index \<leftarrow> vec_set (pt_index t) index (deleted_entry_index t);
     entry \<leftarrow> vec_get (pt_table t) (entry_index - 1);
     new_table \<leftarrow> vec_set (pt_table t) (entry_index - 1) (set_deleted entry);
     let t1 = t\<lparr>pt_index := new_index, pt_table := new_table,
                pt_key_count := pt_key_count t - 1,
                pt_deleted_count := pt_deleted_count t + 1\<rparr>;
     if pt_deleted_count t1 * 4 \<ge> pt_index_size t1 then rehash (pt_key_count t1) t1 else Some t1
   }"

definition pt_take ::
  "atom_id \<Rightarrow> property_table \<Rightarrow> ((property_offset \<times> nat) \<times> property_table) option" where
  "pt_take key t = do {
     result \<leftarrow> find_entry t key;
     t1 \<leftarrow> (if fr_offset result \<noteq> INVALID_OFFSET
            then pt_remove (fr_entry_index result) (fr_index result) t else Some t);
     Some ((fr_offset result, fr_attributes result), t1)
   }"

definition update_attribute_if_exists ::
  "atom_id \<Rightarrow> nat \<Rightarrow> property_table \<Rightarrow> (property_offset \<times> property_table) option" where
  "update_attribute_if_exists key attributes t = do {
     result \<leftarrow> find_entry t key;
     if fr_offset result = INVALID_OFFSET then Some (INVALID_OFFSET, t)
     else do {
       entry \<leftarrow> vec_get (pt_table t) (fr_entry_index result - 1);
       new_table \<leftarrow> vec_set (pt_table t) (fr_entry_index result - 1) (set_attributes attributes entry);
       Some (fr_offset result, t\<lparr>pt_table := new_table\<rparr>)
     }
   }"

definition clear_deleted_offsets :: "property_table \<Rightarrow> property_table" where
  "clear_deleted_offsets t = t\<lparr>pt_deleted_offsets := None\<rparr>"

definition has_deleted_offset :: "property_table \<Rightarrow> bool" where
  "has_deleted_offset t =
     (case pt_deleted_offsets t of None \<Rightarrow> False | Some v \<Rightarrow> v \<noteq> [])"

text \<open>The stack grows at the end of the vector, so \<open>pop\<close> takes the last element.\<close>

definition take_deleted_offset :: "property_table \<Rightarrow> (property_offset \<times> property_table) option" where
  "take_deleted_offset t =
     (case pt_deleted_offsets t of
        None \<Rightarrow> None
      | Some v \<Rightarrow> (if v = [] then None
                   else Some (last v, t\<lparr>pt_deleted_offsets := Some (butlast v)\<rparr>)))"

definition add_deleted_offset :: "property_offset \<Rightarrow> property_table \<Rightarrow> property_table" where
  "add_deleted_offset offset t =
     t\<lparr>pt_deleted_offsets :=
         Some ((case pt_deleted_offsets t of None \<Rightarrow> [] | Some v \<Rightarrow> v) @ [offset])\<rparr>"

definition next_offset :: "int \<Rightarrow> property_table \<Rightarrow> (property_offset \<times> property_table) option" where
  "next_offset inline_capacity t =
     (if has_deleted_offset t then take_deleted_offset t
      else Some (offset_for_property_number (int (pt_size t)) inline_capacity, t))"

text \<open>The entries \<open>for_each_property\<close> passes to its functor, in order.\<close>

definition for_each_property :: "property_table \<Rightarrow> property_table_entry list" where
  "for_each_property t = filter (\<lambda>e. pe_key e \<noteq> Deleted) (take (used_count t) (pt_table t))"

section \<open>The invariant\<close>

text \<open>\<open>probe t key k\<close> is the slot the \<open>k\<close>-th step of a probe for \<open>key\<close> looks at.\<close>

definition probe :: "property_table \<Rightarrow> atom_id \<Rightarrow> nat \<Rightarrow> nat" where
  "probe t key k = (unat (rep_hash key) + triangle k) mod pt_index_size t"

definition pt_shape :: "property_table \<Rightarrow> bool" where
  "pt_shape t \<longleftrightarrow>
     (\<exists>n\<ge>4. pt_index_size t = 2 ^ n) \<and> pt_index_mask t = pt_index_size t - 1 \<and>
     length (pt_index t) = pt_index_size t \<and> length (pt_table t) = table_capacity t + 1 \<and>
     used_count t \<le> table_capacity t"

text \<open>The used part of the value array holds live entries and tombstones, the rest is empty.\<close>

definition pt_values :: "property_table \<Rightarrow> bool" where
  "pt_values t \<longleftrightarrow>
     (\<forall>i<used_count t. pe_key (pt_table t ! i) \<noteq> Empty) \<and>
     (\<forall>i. used_count t \<le> i \<and> i \<le> table_capacity t \<longrightarrow> pe_key (pt_table t ! i) = Empty) \<and>
     pt_key_count t = length (for_each_property t) \<and>
     distinct (map pe_key (for_each_property t)) \<and>
     (\<forall>e\<in>set (for_each_property t). pe_offset e \<noteq> INVALID_OFFSET)"

text \<open>
  Every index slot is empty, marks a removal, or refers to a live entry, no two slots to the
  same one; there are as many occupied slots as used entries, so an empty slot always remains.
\<close>

definition pt_slots :: "property_table \<Rightarrow> bool" where
  "pt_slots t \<longleftrightarrow>
     (\<forall>j<pt_index_size t. pt_index t ! j = EMPTY_ENTRY_INDEX \<or>
        pt_index t ! j = deleted_entry_index t \<or>
        (\<exists>i<used_count t. pt_index t ! j = i + 1 \<and> pe_key (pt_table t ! i) \<noteq> Deleted)) \<and>
     (\<forall>j<pt_index_size t. \<forall>j'<pt_index_size t. \<forall>i<used_count t.
        pt_index t ! j = i + 1 \<longrightarrow> pt_index t ! j' = i + 1 \<longrightarrow> j = j') \<and>
     card {j. j < pt_index_size t \<and> pt_index t ! j \<noteq> EMPTY_ENTRY_INDEX} \<le> used_count t"

text \<open>Every live entry is on the probe path of its key, with no empty slot before it.\<close>

definition reaches :: "property_table \<Rightarrow> atom_id \<Rightarrow> nat \<Rightarrow> bool" where
  "reaches t key j \<longleftrightarrow>
     (\<exists>p<pt_index_size t. j = probe t key p \<and>
        (\<forall>q<p. pt_index t ! probe t key q \<noteq> EMPTY_ENTRY_INDEX))"

definition pt_reach :: "property_table \<Rightarrow> bool" where
  "pt_reach t \<longleftrightarrow>
     (\<forall>i<used_count t. \<forall>key. pe_key (pt_table t ! i) = Key key \<longrightarrow>
        (\<exists>j. reaches t key j \<and> pt_index t ! j = i + 1))"

definition pt_inv :: "property_table \<Rightarrow> bool" where
  "pt_inv t \<longleftrightarrow> pt_shape t \<and> pt_values t \<and> pt_slots t \<and> pt_reach t"

lemma pt_invD:
  assumes "pt_inv t"
  shows "pt_shape t" "pt_values t" "pt_slots t" "pt_reach t"
  using assms by (auto simp: pt_inv_def)

lemmas pt_pred_defs = pt_shape_def pt_values_def pt_slots_def pt_reach_def

subsection \<open>Slots and probes\<close>

lemma pt_shape_pos: "pt_shape t \<Longrightarrow> 0 < pt_index_size t \<and> table_capacity t < pt_index_size t"
  by (auto simp: pt_shape_def table_capacity_def)

lemma nat_and_mask: "x AND ((2::nat) ^ n - Suc 0) = x mod 2 ^ n"
  using take_bit_eq_mask [of n x] by (simp add: mask_eq_exp_minus_1 take_bit_eq_mod)

lemma and_index_mask: "pt_shape t \<Longrightarrow> x AND pt_index_mask t = x mod pt_index_size t"
  by (auto simp: pt_shape_def nat_and_mask)

lemma probe_less: "pt_shape t \<Longrightarrow> probe t key k < pt_index_size t"
  using pt_shape_pos by (simp add: probe_def)

lemma probe_0: "pt_shape t \<Longrightarrow> unat (rep_hash key) AND pt_index_mask t = probe t key 0"
  by (simp add: probe_def and_index_mask)

lemma probe_Suc:
  "pt_shape t \<Longrightarrow> (probe t key k + (k + 1)) AND pt_index_mask t = probe t key (Suc k)"
  using mod_add_left_eq [of "unat (rep_hash key) + triangle k" "pt_index_size t" "k + 1"]
  by (simp add: probe_def and_index_mask add.assoc)

lemma probe_surj:
  assumes "pt_shape t" and "j < pt_index_size t"
  shows "\<exists>p<pt_index_size t. probe t key p = j"
proof -
  from assms(1) obtain n where n: "pt_index_size t = 2 ^ n" by (auto simp: pt_shape_def)
  from assms(2) show ?thesis unfolding probe_def n
    using triangle_surj [of j n "unat (rep_hash key)"] by blast
qed

text \<open>An empty slot exists, and so the probe of any key comes to one.\<close>

lemma empty_slot_exists:
  assumes "pt_shape t" and "pt_slots t"
  shows "\<exists>j<pt_index_size t. pt_index t ! j = EMPTY_ENTRY_INDEX"
proof (rule ccontr)
  assume "\<not> ?thesis"
  then have "{j. j < pt_index_size t \<and> pt_index t ! j \<noteq> EMPTY_ENTRY_INDEX} = {..<pt_index_size t}"
    by auto
  with assms have "pt_index_size t \<le> used_count t" by (simp add: pt_slots_def)
  with assms(1) pt_shape_pos show False by (fastforce simp: pt_shape_def)
qed

lemma first_stop:
  assumes "pt_shape t" and "pt_slots t"
    and "\<And>j. j < pt_index_size t \<Longrightarrow> pt_index t ! j = EMPTY_ENTRY_INDEX \<Longrightarrow> stop j"
  obtains p where "p < pt_index_size t" and "stop (probe t key p)"
    and "\<And>q. q < p \<Longrightarrow> \<not> stop (probe t key q)"
proof -
  from empty_slot_exists [OF assms(1,2)] probe_surj [OF assms(1)]
  obtain p0 where p0: "p0 < pt_index_size t" "stop (probe t key p0)" using assms(3) by metis
  let ?p = "LEAST p. stop (probe t key p)"
  from p0 have "stop (probe t key ?p)" by (intro LeastI) auto
  moreover from p0 have "?p < pt_index_size t"
    using Least_le [of "\<lambda>p. stop (probe t key p)" p0] by simp
  ultimately show ?thesis using that not_less_Least by blast
qed

lemma slot_entry_in_range:
  assumes "pt_inv t" and "j < pt_index_size t" and "pt_index t ! j \<noteq> EMPTY_ENTRY_INDEX"
  shows "pt_index t ! j - 1 < length (pt_table t)"
  using assms by (auto simp: pt_inv_def pt_shape_def pt_slots_def deleted_entry_index_def)

section \<open>Lookup\<close>

definition stop_find :: "property_table \<Rightarrow> atom_id \<Rightarrow> nat \<Rightarrow> bool" where
  "stop_find t key j \<longleftrightarrow> pt_index t ! j = EMPTY_ENTRY_INDEX \<or>
     pe_key (pt_table t ! (pt_index t ! j - 1)) = Key key"

definition result_at :: "property_table \<Rightarrow> nat \<Rightarrow> find_result" where
  "result_at t j =
     (if pt_index t ! j = EMPTY_ENTRY_INDEX
      then \<lparr>fr_entry_index = 0, fr_index = j, fr_offset = INVALID_OFFSET, fr_attributes = 0\<rparr>
      else let e = pt_table t ! (pt_index t ! j - 1)
           in \<lparr>fr_entry_index = pt_index t ! j, fr_index = j,
               fr_offset = pe_offset e, fr_attributes = pe_attributes e\<rparr>)"

lemma find_loop_stops:
  assumes "pt_inv t" and "stop_find t key (probe t key (k + d))"
    and "\<And>q. q < d \<Longrightarrow> \<not> stop_find t key (probe t key (k + q))"
  shows "find_loop t key k (probe t key k) = Some (result_at t (probe t key (k + d)))"
  using assms(2,3)
proof (induction d arbitrary: k)
  note shape = pt_invD(1) [OF assms(1)]
  have len: "probe t key k < length (pt_index t)" for k
    using probe_less [OF shape] shape by (simp add: pt_shape_def)
  {
    case 0
    then show ?case
      using slot_entry_in_range [OF assms(1) probe_less [OF shape], of key k] len [of k]
      by (subst find_loop.simps)
        (auto simp: checked_simps stop_find_def result_at_def EMPTY_ENTRY_INDEX_def Let_def)
  next
    case (Suc d)
    from Suc.prems(2) [of 0] have "\<not> stop_find t key (probe t key k)" by simp
    moreover have "find_loop t key (Suc k) (probe t key (Suc k))
        = Some (result_at t (probe t key (Suc k + d)))"
      using Suc.prems(1) Suc.prems(2) [of "Suc _"] by (intro Suc.IH) auto
    ultimately show ?case
      using slot_entry_in_range [OF assms(1) probe_less [OF shape], of key k] len [of k]
        probe_Suc [OF shape, of key k]
      by (subst find_loop.simps)
        (auto simp: checked_simps stop_find_def)
  }
qed

lemma find_entry_stops:
  assumes "pt_inv t"
  obtains p where "p < pt_index_size t" and "stop_find t key (probe t key p)"
    and "\<And>q. q < p \<Longrightarrow> \<not> stop_find t key (probe t key q)"
    and "find_entry t key = Some (result_at t (probe t key p))"
proof -
  note inv = pt_invD [OF assms]
  obtain p where p: "p < pt_index_size t" "stop_find t key (probe t key p)"
      "\<And>q. q < p \<Longrightarrow> \<not> stop_find t key (probe t key q)"
    by (rule first_stop [OF inv(1,3), of "stop_find t key" key]) (auto simp: stop_find_def)
  from find_loop_stops [OF assms, of key 0 p] p(2,3)
  have "find_entry t key = Some (result_at t (probe t key p))"
    by (simp add: find_entry_def probe_0 [OF inv(1)])
  with p that show ?thesis by blast
qed

text \<open>The specification of a lookup: the entry of the insertion-ordered list with the key.\<close>

definition entry_for :: "atom_id \<Rightarrow> property_table_entry list \<Rightarrow> property_table_entry option" where
  "entry_for key es = find (\<lambda>e. pe_key e = Key key) es"

lemma entry_for_None: "entry_for key es = None \<longleftrightarrow> (\<forall>e\<in>set es. pe_key e \<noteq> Key key)"
  by (auto simp: entry_for_def find_None_iff)

lemma entry_for_Some:
  "entry_for key es = Some e \<Longrightarrow> e \<in> set es \<and> pe_key e = Key key"
  by (auto simp: entry_for_def find_Some_iff)

lemma entry_for_append:
  "entry_for key (es @ es') =
     (case entry_for key es of None \<Rightarrow> entry_for key es' | Some e \<Rightarrow> Some e)"
  by (induction es) (auto simp: entry_for_def)

lemma entry_for_single:
  "pe_key e = Key key \<Longrightarrow> entry_for k [e] = (if k = key then Some e else None)"
  by (simp add: entry_for_def)

lemma entry_for_filter:
  "entry_for k (filter (\<lambda>e. pe_key e \<noteq> Key key) es) = (if k = key then None else entry_for k es)"
  by (induction es) (auto simp: entry_for_def)

lemma entry_for_unique:
  assumes "distinct (map pe_key es)" and "e \<in> set es" and "pe_key e = Key key"
  shows "entry_for key es = Some e"
proof -
  from assms(2,3) obtain e' where e': "entry_for key es = Some e'"
    using entry_for_None [of key es] by fastforce
  with assms entry_for_Some [OF e'] have "e' = e"
    by (metis distinct_map inj_on_eq_iff)
  with e' show ?thesis by simp
qed

lemma used_less_table: "pt_inv t \<Longrightarrow> i < used_count t \<Longrightarrow> i < length (pt_table t)"
  by (auto simp: pt_inv_def pt_shape_def)

lemma set_for_each_iff:
  assumes "pt_inv t"
  shows "e \<in> set (for_each_property t) \<longleftrightarrow>
    (\<exists>i<used_count t. pt_table t ! i = e \<and> pe_key e \<noteq> Deleted)"
  using used_less_table [OF assms]
  by (auto simp: for_each_property_def in_set_conv_nth) (metis nth_take)

lemma live_entry_unique:
  assumes "pt_inv t" and "i < used_count t" and "i' < used_count t"
    and "pe_key (pt_table t ! i) = Key key" and "pe_key (pt_table t ! i') = Key key"
  shows "i = i'"
  using assms used_less_table [OF assms(1)]
  by (intro distinct_filter_nth_eq [of pe_key "\<lambda>e. pe_key e \<noteq> Deleted" "take (used_count t) (pt_table t)"])
    (auto simp: pt_inv_def pt_values_def for_each_property_def)

text \<open>A slot whose entry has a live key refers to that entry.\<close>

lemma slot_of_key:
  assumes "pt_inv t" and "j < pt_index_size t" and "pt_index t ! j \<noteq> EMPTY_ENTRY_INDEX"
    and "pe_key (pt_table t ! (pt_index t ! j - 1)) = Key key"
  obtains i where "i < used_count t" and "pt_index t ! j = i + 1"
    and "pe_key (pt_table t ! i) = Key key"
proof -
  from assms(1) have "pe_key (pt_table t ! table_capacity t) = Empty"
    by (auto simp: pt_inv_def pt_values_def pt_shape_def)
  with assms have "pt_index t ! j \<noteq> deleted_entry_index t"
    by (auto simp: deleted_entry_index_def)
  with assms(1-3) obtain i where i: "i < used_count t" "pt_index t ! j = i + 1"
    by (auto simp: pt_inv_def pt_slots_def)
  with assms(4) show ?thesis by (intro that [OF i]) simp
qed

lemma find_entry_present:
  assumes inv: "pt_inv t" and i: "i < used_count t" and key: "pe_key (pt_table t ! i) = Key key"
  obtains j where "j < pt_index_size t" and "pt_index t ! j = i + 1"
    and "find_entry t key = Some \<lparr>fr_entry_index = i + 1, fr_index = j,
           fr_offset = pe_offset (pt_table t ! i), fr_attributes = pe_attributes (pt_table t ! i)\<rparr>"
proof -
  obtain p where p: "stop_find t key (probe t key p)"
      "\<And>q. q < p \<Longrightarrow> \<not> stop_find t key (probe t key q)"
      "find_entry t key = Some (result_at t (probe t key p))"
    using find_entry_stops [OF inv] by blast
  from pt_invD(4) [OF inv] i key obtain p0 where p0: "pt_index t ! probe t key p0 = i + 1"
      "\<And>q. q < p0 \<Longrightarrow> pt_index t ! probe t key q \<noteq> EMPTY_ENTRY_INDEX"
    unfolding pt_reach_def reaches_def by blast
  then have "stop_find t key (probe t key p0)" using key by (simp add: stop_find_def)
  with p(2) have "p \<le> p0" using not_less by blast
  then have ne: "pt_index t ! probe t key p \<noteq> EMPTY_ENTRY_INDEX"
    using p0 by (cases "p = p0") (auto simp: EMPTY_ENTRY_INDEX_def)
  have less: "probe t key p < pt_index_size t" by (rule probe_less [OF pt_invD(1) [OF inv]])
  from p(1) ne obtain i' where i': "i' < used_count t" "pt_index t ! probe t key p = i' + 1"
      "pe_key (pt_table t ! i') = Key key"
    using slot_of_key [OF inv less] by (auto simp: stop_find_def)
  then have "i' = i" using live_entry_unique [OF inv] i key by blast
  with i' p(3) less that [of "probe t key p"] show ?thesis
    by (simp add: result_at_def EMPTY_ENTRY_INDEX_def Let_def)
qed

lemma find_entry_absent:
  assumes inv: "pt_inv t" and "\<And>e. e \<in> set (for_each_property t) \<Longrightarrow> pe_key e \<noteq> Key key"
  obtains j where "j < pt_index_size t" and "pt_index t ! j = EMPTY_ENTRY_INDEX"
    and "reaches t key j"
    and "find_entry t key = Some \<lparr>fr_entry_index = 0, fr_index = j,
           fr_offset = INVALID_OFFSET, fr_attributes = 0\<rparr>"
proof -
  obtain p where p: "p < pt_index_size t" "stop_find t key (probe t key p)"
      "\<And>q. q < p \<Longrightarrow> \<not> stop_find t key (probe t key q)"
      "find_entry t key = Some (result_at t (probe t key p))"
    using find_entry_stops [OF inv] by blast
  have less: "probe t key p < pt_index_size t" by (rule probe_less [OF pt_invD(1) [OF inv]])
  have empty: "pt_index t ! probe t key p = EMPTY_ENTRY_INDEX"
  proof (rule ccontr)
    assume ne: "\<not> ?thesis"
    with p(2) obtain i where "i < used_count t" "pe_key (pt_table t ! i) = Key key"
      using slot_of_key [OF inv less ne] by (auto simp: stop_find_def)
    then show False using assms(2) set_for_each_iff [OF inv] by force
  qed
  moreover from p(1,3) have "reaches t key (probe t key p)"
    by (auto simp: reaches_def stop_find_def)
  ultimately show ?thesis using that [OF less] p(4) by (simp add: result_at_def)
qed

text \<open>What a lookup returns, in terms of the insertion-ordered list.\<close>

definition spec_get :: "atom_id \<Rightarrow> property_table_entry list \<Rightarrow> property_offset \<times> nat" where
  "spec_get key es = (case entry_for key es of
     None \<Rightarrow> (INVALID_OFFSET, 0) | Some e \<Rightarrow> (pe_offset e, pe_attributes e))"

lemma find_entry_spec:
  assumes "pt_inv t"
  obtains r where "find_entry t key = Some r"
    and "(fr_offset r, fr_attributes r) = spec_get key (for_each_property t)"
proof (cases "entry_for key (for_each_property t)")
  case None
  then have "\<And>e. e \<in> set (for_each_property t) \<Longrightarrow> pe_key e \<noteq> Key key"
    by (simp add: entry_for_None)
  from find_entry_absent [OF assms this] obtain j where
    "find_entry t key = Some \<lparr>fr_entry_index = 0, fr_index = j,
           fr_offset = INVALID_OFFSET, fr_attributes = 0\<rparr>" by blast
  from that [OF this] None show ?thesis by (simp add: spec_get_def)
next
  case (Some e)
  then obtain i where "i < used_count t" "pt_table t ! i = e" "pe_key e = Key key"
    using entry_for_Some set_for_each_iff [OF assms] by metis
  from find_entry_present [OF assms this(1)] this obtain j where
    "find_entry t key = Some \<lparr>fr_entry_index = i + 1, fr_index = j,
           fr_offset = pe_offset e, fr_attributes = pe_attributes e\<rparr>" by blast
  from that [OF this] Some show ?thesis by (simp add: spec_get_def)
qed

lemma pt_get_spec:
  assumes "pt_inv t"
  shows "pt_get t key = Some (spec_get key (for_each_property t))"
proof (cases "pt_key_count t = 0")
  case True
  with assms have "for_each_property t = []" by (simp add: pt_inv_def pt_values_def)
  with True show ?thesis by (simp add: pt_get_def spec_get_def entry_for_def)
next
  case False
  obtain r where "find_entry t key = Some r"
    "(fr_offset r, fr_attributes r) = spec_get key (for_each_property t)"
    by (rule find_entry_spec [OF assms])
  with False show ?thesis by (simp add: pt_get_def)
qed

section \<open>Insertion\<close>

lemma reaches_mono:
  assumes "reaches t key j" and "pt_shape t" and "pt_index_size t' = pt_index_size t"
    and "\<And>q. q < pt_index_size t \<Longrightarrow> pt_index t ! q \<noteq> EMPTY_ENTRY_INDEX \<Longrightarrow>
           pt_index t' ! q \<noteq> EMPTY_ENTRY_INDEX"
  shows "reaches t' key j"
proof -
  have eq: "probe t' key q = probe t key q" for q by (simp add: probe_def assms(3))
  show ?thesis
    using assms(1,4) probe_less [OF assms(2)] unfolding reaches_def eq assms(3) by blast
qed

lemma append_entry_eq:
  assumes "pt_inv t" and "can_insert t" and "j < pt_index_size t"
  shows "append_entry t j e = Some (t\<lparr>pt_index := (pt_index t)[j := used_count t + 1],
    pt_table := (pt_table t)[used_count t := e], pt_key_count := pt_key_count t + 1\<rparr>)"
  using assms by (auto simp: append_entry_def checked_simps pt_inv_def pt_shape_def can_insert_def)

lemma used_count_append [simp]:
  "used_count (t\<lparr>pt_index := x, pt_table := y, pt_key_count := pt_key_count t + 1\<rparr>)
     = used_count t + 1"
  by (simp add: used_count_def)

lemma table_capacity_update [simp]:
  "table_capacity (t\<lparr>pt_index := x, pt_table := y, pt_key_count := n\<rparr>) = table_capacity t"
  "table_capacity (t\<lparr>pt_index := x, pt_table := y, pt_key_count := n, pt_deleted_count := m\<rparr>)
     = table_capacity t"
  "table_capacity (t\<lparr>pt_table := y\<rparr>) = table_capacity t"
  by (simp_all add: table_capacity_def)

text \<open>
  The state after an append, named so that each part of the invariant is a lemma of its own.
\<close>

definition appended :: "property_table \<Rightarrow> nat \<Rightarrow> property_table_entry \<Rightarrow> property_table" where
  "appended t j e = t\<lparr>pt_index := (pt_index t)[j := used_count t + 1],
     pt_table := (pt_table t)[used_count t := e], pt_key_count := pt_key_count t + 1\<rparr>"

lemma appended_simps [simp]:
  "pt_index_size (appended t j e) = pt_index_size t"
  "pt_index_mask (appended t j e) = pt_index_mask t"
  "pt_index (appended t j e) = (pt_index t)[j := used_count t + 1]"
  "pt_table (appended t j e) = (pt_table t)[used_count t := e]"
  "pt_key_count (appended t j e) = pt_key_count t + 1"
  "pt_deleted_count (appended t j e) = pt_deleted_count t"
  "pt_deleted_offsets (appended t j e) = pt_deleted_offsets t"
  "used_count (appended t j e) = used_count t + 1"
  "table_capacity (appended t j e) = table_capacity t"
  "deleted_entry_index (appended t j e) = deleted_entry_index t"
  by (simp_all add: appended_def used_count_def table_capacity_def deleted_entry_index_def)

lemma for_each_appended:
  assumes "pt_shape t" and "can_insert t" and "pe_key e \<noteq> Deleted"
  shows "for_each_property (appended t j e) = for_each_property t @ [e]"
  using assms
  by (simp add: for_each_property_def pt_shape_def can_insert_def take_Suc_conv_app_nth)

lemma append_shape: "pt_shape t \<Longrightarrow> can_insert t \<Longrightarrow> pt_shape (appended t j e)"
  by (auto simp: pt_shape_def can_insert_def)

lemma append_values:
  assumes "pt_shape t" "pt_values t" "can_insert t" "pe_key e = Key key"
    and "pe_offset e \<noteq> INVALID_OFFSET"
    and "\<And>e'. e' \<in> set (for_each_property t) \<Longrightarrow> pe_key e' \<noteq> Key key"
  shows "pt_values (appended t j e)"
proof -
  have len: "used_count t < length (pt_table t)"
    using assms(1,3) by (simp add: pt_shape_def can_insert_def)
  have each: "for_each_property (appended t j e) = for_each_property t @ [e]"
    using for_each_appended [OF assms(1,3)] assms(4) by simp
  have "pe_key e \<notin> pe_key ` set (for_each_property t)" using assms(4,6) by force
  with assms(2,4,5) len show ?thesis
    unfolding pt_values_def each by (auto simp: nth_list_update less_Suc_eq)
qed

lemma append_slots:
  assumes "pt_shape t" "pt_slots t" "can_insert t" "pe_key e = Key key"
    and "j < pt_index_size t" "pt_index t ! j = EMPTY_ENTRY_INDEX"
  shows "pt_slots (appended t j e)"
proof -
  let ?t = "appended t j e"
  have len: "length (pt_index t) = pt_index_size t" "length (pt_table t) = table_capacity t + 1"
    "used_count t < table_capacity t"
    using assms(1,3) by (auto simp: pt_shape_def can_insert_def)
  from assms(2) have slot0: "pt_index t ! k = 0 \<or> pt_index t ! k = table_capacity t + 1 \<or>
      (\<exists>i<used_count t. pt_index t ! k = i + 1 \<and> pe_key (pt_table t ! i) \<noteq> Deleted)"
    if "k < pt_index_size t" for k
    using that by (simp add: pt_slots_def deleted_entry_index_def EMPTY_ENTRY_INDEX_def)
  from assms(2) have uniq0: "k = k'"
    if "k < pt_index_size t" "k' < pt_index_size t" "i < used_count t"
      "pt_index t ! k = i + 1" "pt_index t ! k' = i + 1" for k k' i
    using that unfolding pt_slots_def by blast
  have occ: "{k. k < pt_index_size ?t \<and> pt_index ?t ! k \<noteq> EMPTY_ENTRY_INDEX}
      \<subseteq> insert j {k. k < pt_index_size t \<and> pt_index t ! k \<noteq> EMPTY_ENTRY_INDEX}"
    using len by (auto simp: nth_list_update)
  from assms(2) have "card {k. k < pt_index_size t \<and> pt_index t ! k \<noteq> EMPTY_ENTRY_INDEX}
      \<le> used_count t" by (simp add: pt_slots_def)
  then have card: "card {k. k < pt_index_size ?t \<and> pt_index ?t ! k \<noteq> EMPTY_ENTRY_INDEX}
      \<le> used_count ?t"
    using card_mono [OF _ occ] by (simp add: card_insert_if split: if_splits)
  have uniq: "k = k'"
    if "k < pt_index_size t" "k' < pt_index_size t" "i \<le> used_count t"
      "pt_index ?t ! k = i + 1" "pt_index ?t ! k' = i + 1" for k k' i
  proof (cases "i = used_count t")
    case True
    have "pt_index t ! m \<noteq> used_count t + 1" if "m < pt_index_size t" for m
      using slot0 [OF that] len(3) by auto
    with True that assms(5) len(1) show ?thesis by (auto simp: nth_list_update split: if_splits)
  next
    case False
    then have "i < used_count t" using that(3) by simp
    with False that uniq0 [of k k' i] assms(5) len(1) show ?thesis
      by (auto simp: nth_list_update split: if_splits)
  qed
  have slot: "pt_index ?t ! k = EMPTY_ENTRY_INDEX \<or> pt_index ?t ! k = deleted_entry_index ?t \<or>
      (\<exists>i<used_count ?t. pt_index ?t ! k = i + 1 \<and> pe_key (pt_table ?t ! i) \<noteq> Deleted)"
    if "k < pt_index_size t" for k
    using assms(4) slot0 [OF that] that len
    by (cases "k = j")
      (auto simp: nth_list_update deleted_entry_index_def EMPTY_ENTRY_INDEX_def less_Suc_eq)
  from card uniq slot show ?thesis unfolding pt_slots_def by (simp add: less_Suc_eq_le)
qed

lemma append_reach:
  assumes "pt_shape t" "pt_reach t" "can_insert t" "pe_key e = Key key"
    and "j < pt_index_size t" "pt_index t ! j = EMPTY_ENTRY_INDEX" "reaches t key j"
  shows "pt_reach (appended t j e)"
proof -
  let ?t = "appended t j e"
  have len: "length (pt_index t) = pt_index_size t" "length (pt_table t) = table_capacity t + 1"
    "used_count t < table_capacity t"
    using assms(1,3) by (auto simp: pt_shape_def can_insert_def)
  have mono: "reaches ?t k m" if "reaches t k m" for k m
    using that assms(1) by (rule reaches_mono) (use len assms(5) in \<open>auto simp: nth_list_update EMPTY_ENTRY_INDEX_def\<close>)
  have less: "m < pt_index_size t" if "reaches t k m" for k m
    using that probe_less [OF assms(1)] by (auto simp: reaches_def)
  show ?thesis unfolding pt_reach_def
  proof (intro allI impI)
    fix i k assume i: "i < used_count ?t" and k: "pe_key (pt_table ?t ! i) = Key k"
    show "\<exists>m. reaches ?t k m \<and> pt_index ?t ! m = i + 1"
    proof (cases "i = used_count t")
      case True
      with k assms(4) len have "k = key" by simp
      with True mono [OF assms(7)] len assms(5) show ?thesis by auto
    next
      case False
      with i k have "i < used_count t" "pe_key (pt_table t ! i) = Key k" by auto
      with assms(2) obtain m where "reaches t k m" "pt_index t ! m = i + 1"
        unfolding pt_reach_def by blast
      moreover from this assms(6) have "m \<noteq> j" by (auto simp: EMPTY_ENTRY_INDEX_def)
      ultimately show ?thesis using mono by (intro exI [of _ m]) simp
    qed
  qed
qed

lemma append_entry_correct:
  assumes "pt_inv t" "can_insert t" "pe_key e = Key key" "pe_offset e \<noteq> INVALID_OFFSET"
    and "\<And>e'. e' \<in> set (for_each_property t) \<Longrightarrow> pe_key e' \<noteq> Key key"
    and "j < pt_index_size t" "pt_index t ! j = EMPTY_ENTRY_INDEX" "reaches t key j"
  shows "append_entry t j e = Some (appended t j e)"
    and "pt_inv (appended t j e)"
    and "for_each_property (appended t j e) = for_each_property t @ [e]"
proof -
  note inv = pt_invD [OF assms(1)]
  show "append_entry t j e = Some (appended t j e)"
    using append_entry_eq [OF assms(1,2,6)] by (simp add: appended_def)
  show "pt_inv (appended t j e)"
    unfolding pt_inv_def
    using append_shape [OF inv(1) assms(2)] append_values [OF inv(1,2) assms(2-5)]
      append_slots [OF inv(1,3) assms(2,3,6,7)] append_reach [OF inv(1,4) assms(2,3,6-8)]
    by blast
  show "for_each_property (appended t j e) = for_each_property t @ [e]"
    using for_each_appended [OF inv(1) assms(2)] assms(3) by simp
qed

section \<open>Rehashing\<close>

lemma size_for_capacity_power: "\<exists>n\<ge>4. size_for_capacity capacity = 2 ^ n"
proof (cases "capacity < 8")
  case True
  then show ?thesis by (auto simp: size_for_capacity_def MINIMUM_TABLE_SIZE_def intro!: exI [of _ 4])
next
  case False
  obtain k where k: "next_power_of_two (capacity + 1) = 2 ^ k" using next_power_of_two_power by blast
  with False next_power_of_two_ge [of "capacity + 1"] have "(2::nat) ^ 3 < 2 ^ k" by simp
  then have "3 < k" using power_less_imp_less_exp [of "2::nat" 3 k] by simp
  with False k show ?thesis
    by (auto simp: size_for_capacity_def MINIMUM_TABLE_SIZE_def intro!: exI [of _ "Suc k"])
qed

lemma size_for_capacity_room: "capacity < size_for_capacity capacity div 2"
  using next_power_of_two_ge [of "capacity + 1"]
  by (simp add: size_for_capacity_def MINIMUM_TABLE_SIZE_def)

lemma size_for_capacity_bound: "size_for_capacity capacity \<le> 16 + 4 * capacity"
  using next_power_of_two_less [of "capacity + 1"]
  by (simp add: size_for_capacity_def MINIMUM_TABLE_SIZE_def)

text \<open>An empty table of any admissible size, as \<open>with_capacity\<close> and \<open>rehash\<close> build it.\<close>

lemma pt_inv_empty:
  assumes "pt_index_size t = 2 ^ n" "4 \<le> n" "pt_index_mask t = pt_index_size t - 1"
    and "pt_index t = replicate (pt_index_size t) EMPTY_ENTRY_INDEX"
    and "pt_table t = replicate (pt_index_size t div 2 + 1) entry_empty"
    and "pt_key_count t = 0" "pt_deleted_count t = 0"
  shows "pt_inv t" and "for_each_property t = []"
proof -
  have used: "used_count t = 0" using assms(6,7) by (simp add: used_count_def)
  then show each: "for_each_property t = []" by (simp add: for_each_property_def)
  have "pt_shape t" using assms used by (auto simp: pt_shape_def table_capacity_def)
  moreover have "pt_table t ! i = entry_empty" if "i \<le> table_capacity t" for i
    using that nth_replicate [of i "pt_index_size t div 2 + 1" entry_empty]
    unfolding assms(5) table_capacity_def by simp
  then have "pt_values t" using assms(6) used each by (simp add: pt_values_def entry_empty_def)
  moreover have occ: "{j. j < pt_index_size t \<and> pt_index t ! j \<noteq> EMPTY_ENTRY_INDEX} = {}"
    using assms(4) by auto
  have "pt_slots t" unfolding pt_slots_def occ using assms(4) used by auto
  moreover have "pt_reach t" using used by (simp add: pt_reach_def)
  ultimately show "pt_inv t" by (simp add: pt_inv_def)
qed

lemma with_capacity_correct:
  "pt_inv (with_capacity c)" "for_each_property (with_capacity c) = []"
proof -
  obtain n where n: "4 \<le> n" "size_for_capacity c = 2 ^ n" using size_for_capacity_power by blast
  have "pt_index_size (with_capacity c) = 2 ^ n" using n by (simp add: with_capacity_def Let_def)
  from pt_inv_empty [OF this n(1)]
  show "pt_inv (with_capacity c)" "for_each_property (with_capacity c) = []"
    by (simp_all add: with_capacity_def Let_def)
qed

lemma reinsert_loop_stops:
  assumes "pt_inv t" and "pt_index t ! probe t key (k + d) = EMPTY_ENTRY_INDEX"
    and "\<And>q. q < d \<Longrightarrow> pt_index t ! probe t key (k + q) \<noteq> EMPTY_ENTRY_INDEX"
  shows "reinsert_loop t k (probe t key k) = Some (probe t key (k + d))"
  using assms(2,3)
proof (induction d arbitrary: k)
  note shape = pt_invD(1) [OF assms(1)]
  have len: "probe t key k < length (pt_index t)" for k
    using probe_less [OF shape] shape by (simp add: pt_shape_def)
  {
    case 0
    then show ?case using len [of k] by (subst reinsert_loop.simps) (simp add: checked_simps)
  next
    case (Suc d)
    have "reinsert_loop t (Suc k) (probe t key (Suc k)) = Some (probe t key (Suc k + d))"
      using Suc.prems(1) Suc.prems(2) [of "Suc _"] by (intro Suc.IH) auto
    then show ?case
      using Suc.prems(2) [of 0] len [of k] probe_Suc [OF shape, of key k]
      by (subst reinsert_loop.simps) (simp add: checked_simps)
  }
qed

lemma reinsert_correct:
  assumes "pt_inv t" "can_insert t" "pe_key e = Key key" "pe_offset e \<noteq> INVALID_OFFSET"
    and "\<And>e'. e' \<in> set (for_each_property t) \<Longrightarrow> pe_key e' \<noteq> Key key"
  obtains j where "reinsert e t = Some (appended t j e)" and "pt_inv (appended t j e)"
    and "for_each_property (appended t j e) = for_each_property t @ [e]"
proof -
  note inv = pt_invD [OF assms(1)]
  obtain p where p: "p < pt_index_size t" "pt_index t ! probe t key p = EMPTY_ENTRY_INDEX"
      "\<And>q. q < p \<Longrightarrow> pt_index t ! probe t key q \<noteq> EMPTY_ENTRY_INDEX"
    by (rule first_stop [OF inv(1,3), of "\<lambda>j. pt_index t ! j = EMPTY_ENTRY_INDEX" key]) auto
  let ?j = "probe t key p"
  have loop: "reinsert_loop t 0 (probe t key 0) = Some ?j"
    using reinsert_loop_stops [OF assms(1), of key 0 p] p(2,3) by simp
  have "reaches t key ?j" using p by (auto simp: reaches_def)
  note app = append_entry_correct [OF assms probe_less [OF inv(1)] p(2) this]
  have "reinsert e t = Some (appended t ?j e)"
    using loop app(1) assms(3) by (simp add: reinsert_def require_key_def probe_0 [OF inv(1)])
  from that [OF this app(2,3)] show ?thesis .
qed

lemma reinsert_all_correct:
  assumes "pt_inv t" "distinct (map pe_key (filter (\<lambda>e. pe_key e \<noteq> Deleted) es))"
    and "\<And>e. e \<in> set es \<Longrightarrow> pe_key e \<noteq> Empty"
    and "\<And>e. e \<in> set es \<Longrightarrow> pe_key e \<noteq> Deleted \<Longrightarrow> pe_offset e \<noteq> INVALID_OFFSET"
    and "\<And>e e'. e \<in> set es \<Longrightarrow> pe_key e \<noteq> Deleted \<Longrightarrow> e' \<in> set (for_each_property t) \<Longrightarrow>
           pe_key e' \<noteq> pe_key e"
    and "used_count t + length (filter (\<lambda>e. pe_key e \<noteq> Deleted) es) \<le> table_capacity t"
  shows "\<exists>t'. reinsert_all es t = Some t' \<and> pt_inv t' \<and>
     for_each_property t' = for_each_property t @ filter (\<lambda>e. pe_key e \<noteq> Deleted) es \<and>
     pt_index_size t' = pt_index_size t \<and> pt_deleted_count t' = pt_deleted_count t \<and>
     pt_deleted_offsets t' = pt_deleted_offsets t"
  using assms
proof (induction es arbitrary: t)
  case Nil
  then show ?case by simp
next
  case (Cons e es)
  show ?case
  proof (cases "pe_key e")
    case Deleted
    with Cons.prems show ?thesis using Cons.IH [of t] by simp
  next
    case Empty
    with Cons.prems(3) show ?thesis by simp
  next
    case (Key key)
    have ins: "can_insert t" using Cons.prems(6) Key by (simp add: can_insert_def)
    obtain j where j: "reinsert e t = Some (appended t j e)" "pt_inv (appended t j e)"
        "for_each_property (appended t j e) = for_each_property t @ [e]"
      using reinsert_correct [OF Cons.prems(1) ins Key] Cons.prems(4,5) Key by (metis entry_key.distinct(5) list.set_intros(1))
    have "\<exists>t'. reinsert_all es (appended t j e) = Some t' \<and> pt_inv t' \<and>
       for_each_property t' = for_each_property (appended t j e) @ filter (\<lambda>e. pe_key e \<noteq> Deleted) es \<and>
       pt_index_size t' = pt_index_size (appended t j e) \<and>
       pt_deleted_count t' = pt_deleted_count (appended t j e) \<and>
       pt_deleted_offsets t' = pt_deleted_offsets (appended t j e)"
      by (rule Cons.IH) (use j Cons.prems Key in \<open>auto simp: image_iff\<close>)
    with j Key show ?thesis by simp
  qed
qed

lemma rehash_correct:
  assumes "pt_inv t" and "pt_key_count t \<le> c"
  shows "\<exists>t'. rehash c t = Some t' \<and> pt_inv t' \<and>
     for_each_property t' = for_each_property t \<and> pt_deleted_count t' = 0 \<and>
     pt_index_size t' = size_for_capacity c \<and>
     pt_deleted_offsets t' = pt_deleted_offsets t"
proof -
  define t0 where "t0 = t\<lparr>pt_index_size := size_for_capacity c, pt_index_mask := size_for_capacity c - 1,
              pt_key_count := 0, pt_deleted_count := 0,
              pt_index := replicate (size_for_capacity c) EMPTY_ENTRY_INDEX,
              pt_table := replicate (size_for_capacity c div 2 + 1) entry_empty\<rparr>"
  let ?es = "take (used_count t) (pt_table t)"
  obtain n where n: "4 \<le> n" "size_for_capacity c = 2 ^ n" using size_for_capacity_power by blast
  have init: "pt_inv t0" "for_each_property t0 = []"
    by (rule pt_inv_empty [of _ n]; simp add: n t0_def)+
  have vals: "pt_values t" "length (pt_table t) = table_capacity t + 1" "used_count t \<le> table_capacity t"
    using assms(1) by (auto simp: pt_inv_def pt_shape_def)
  have live: "filter (\<lambda>e. pe_key e \<noteq> Deleted) ?es = for_each_property t"
    by (simp add: for_each_property_def)
  have room: "used_count t0 + length (for_each_property t) \<le> table_capacity t0"
    using vals(1) assms(2) size_for_capacity_room [of c]
    by (simp add: used_count_def table_capacity_def pt_values_def t0_def)
  have nonempty: "pe_key e \<noteq> Empty" if "e \<in> set ?es" for e
    using that vals by (auto simp: in_set_conv_nth pt_values_def)
  have off: "pe_offset e \<noteq> INVALID_OFFSET" if "e \<in> set ?es" "pe_key e \<noteq> Deleted" for e
    using that vals(1) by (auto simp: pt_values_def for_each_property_def)
  have dist: "distinct (map pe_key (filter (\<lambda>e. pe_key e \<noteq> Deleted) ?es))"
    unfolding live using vals(1) by (simp add: pt_values_def)
  have "\<exists>t'. reinsert_all ?es t0 = Some t' \<and> pt_inv t' \<and>
     for_each_property t' = for_each_property t0 @ filter (\<lambda>e. pe_key e \<noteq> Deleted) ?es \<and>
     pt_index_size t' = pt_index_size t0 \<and> pt_deleted_count t' = pt_deleted_count t0 \<and>
     pt_deleted_offsets t' = pt_deleted_offsets t0"
    by (rule reinsert_all_correct [OF init(1) dist nonempty off])
      (simp_all add: init(2) live room)
  moreover have "rehash c t = reinsert_all ?es t0" by (simp add: rehash_def Let_def t0_def)
  moreover have "pt_index_size t0 = size_for_capacity c" "pt_deleted_count t0 = 0"
    "pt_deleted_offsets t0 = pt_deleted_offsets t" by (simp_all add: t0_def)
  ultimately show ?thesis by (auto simp: init(2) live)
qed

section \<open>Adding a property\<close>

lemma pt_add_existing:
  assumes "pt_inv t" "pe_key e = Key key" "entry_for key (for_each_property t) = Some e'"
  shows "pt_add e t = Some ((pe_offset e', pe_attributes e', False), t)"
proof -
  obtain r where r: "find_entry t key = Some r"
      "(fr_offset r, fr_attributes r) = spec_get key (for_each_property t)"
    by (rule find_entry_spec [OF assms(1)])
  from entry_for_Some [OF assms(3)] assms(1) have "pe_offset e' \<noteq> INVALID_OFFSET"
    by (auto simp: pt_inv_def pt_values_def)
  with r assms(2,3) show ?thesis by (simp add: pt_add_def require_key_def spec_get_def)
qed

lemma add_after_find_correct:
  assumes inv: "pt_inv t" and e: "pe_key e = Key key" "pe_offset e \<noteq> INVALID_OFFSET"
    and absent: "\<And>e'. e' \<in> set (for_each_property t) \<Longrightarrow> pe_key e' \<noteq> Key key"
    and r: "find_entry t key = Some r"
  shows "\<exists>t'. add_after_find e r t = Some ((pe_offset e, pe_attributes e, True), t') \<and> pt_inv t' \<and>
     for_each_property t' = for_each_property t @ [e] \<and>
     pt_deleted_offsets t' = pt_deleted_offsets t"
proof (cases "can_insert t")
  case True
  obtain j where "j < pt_index_size t" "pt_index t ! j = EMPTY_ENTRY_INDEX" "reaches t key j"
      "r = \<lparr>fr_entry_index = 0, fr_index = j, fr_offset = INVALID_OFFSET, fr_attributes = 0\<rparr>"
    using find_entry_absent [OF inv absent] r by (metis option.inject)
  with append_entry_correct [OF inv True e absent] True show ?thesis
    by (simp add: add_after_find_def)
next
  case False
  obtain t1 where t1: "rehash (pt_key_count t + 1) t = Some t1" "pt_inv t1"
      "for_each_property t1 = for_each_property t" "pt_deleted_count t1 = 0"
      "pt_index_size t1 = size_for_capacity (pt_key_count t + 1)"
      "pt_deleted_offsets t1 = pt_deleted_offsets t"
    using rehash_correct [OF inv, of "pt_key_count t + 1"] by auto
  have "pt_key_count t1 = pt_key_count t" using inv t1(2,3) by (simp add: pt_inv_def pt_values_def)
  with t1(4,5) size_for_capacity_room [of "pt_key_count t + 1"] have ins: "can_insert t1"
    by (simp add: can_insert_def used_count_def table_capacity_def)
  have absent1: "\<And>e'. e' \<in> set (for_each_property t1) \<Longrightarrow> pe_key e' \<noteq> Key key"
    using absent t1(3) by simp
  obtain j where "j < pt_index_size t1" "pt_index t1 ! j = EMPTY_ENTRY_INDEX" "reaches t1 key j"
      "find_entry t1 key = Some \<lparr>fr_entry_index = 0, fr_index = j,
         fr_offset = INVALID_OFFSET, fr_attributes = 0\<rparr>"
    using find_entry_absent [OF t1(2) absent1] by metis
  with append_entry_correct [OF t1(2) ins e absent1] False t1 e(1) show ?thesis
    by (simp add: add_after_find_def require_key_def)
qed

lemma pt_add_new:
  assumes "pt_inv t" "pe_key e = Key key" "pe_offset e \<noteq> INVALID_OFFSET"
    and "entry_for key (for_each_property t) = None"
  shows "\<exists>t'. pt_add e t = Some ((pe_offset e, pe_attributes e, True), t') \<and> pt_inv t' \<and>
     for_each_property t' = for_each_property t @ [e] \<and>
     pt_deleted_offsets t' = pt_deleted_offsets t"
proof -
  have absent: "\<And>e'. e' \<in> set (for_each_property t) \<Longrightarrow> pe_key e' \<noteq> Key key"
    using assms(4) by (simp add: entry_for_None)
  obtain r where r: "find_entry t key = Some r"
      "(fr_offset r, fr_attributes r) = spec_get key (for_each_property t)"
    by (rule find_entry_spec [OF assms(1)])
  with assms(2,4) add_after_find_correct [OF assms(1-3) absent r(1)] show ?thesis
    by (simp add: pt_add_def require_key_def spec_get_def)
qed

section \<open>Removing a property\<close>

definition removed :: "property_table \<Rightarrow> nat \<Rightarrow> nat \<Rightarrow> property_table" where
  "removed t i j = t\<lparr>pt_index := (pt_index t)[j := deleted_entry_index t],
     pt_table := (pt_table t)[i := set_deleted (pt_table t ! i)],
     pt_key_count := pt_key_count t - 1, pt_deleted_count := pt_deleted_count t + 1\<rparr>"

lemma removed_simps [simp]:
  "pt_index_size (removed t i j) = pt_index_size t"
  "pt_index_mask (removed t i j) = pt_index_mask t"
  "pt_index (removed t i j) = (pt_index t)[j := deleted_entry_index t]"
  "pt_table (removed t i j) = (pt_table t)[i := set_deleted (pt_table t ! i)]"
  "pt_key_count (removed t i j) = pt_key_count t - 1"
  "pt_deleted_count (removed t i j) = pt_deleted_count t + 1"
  "pt_deleted_offsets (removed t i j) = pt_deleted_offsets t"
  "table_capacity (removed t i j) = table_capacity t"
  "deleted_entry_index (removed t i j) = deleted_entry_index t"
  by (simp_all add: removed_def table_capacity_def deleted_entry_index_def)

lemma pe_key_set_deleted [simp]: "pe_key (set_deleted e) = Deleted"
  by (simp add: set_deleted_def)

lemma used_count_removed: "0 < pt_key_count t \<Longrightarrow> used_count (removed t i j) = used_count t"
  by (simp add: used_count_def)

lemma key_count_pos:
  assumes "pt_inv t" "i < used_count t" "pe_key (pt_table t ! i) = Key key"
  shows "0 < pt_key_count t"
  using assms set_for_each_iff [OF assms(1), of "pt_table t ! i"]
  by (fastforce simp: pt_inv_def pt_values_def)

lemma for_each_removed:
  assumes "pt_inv t" "i < used_count t" "pe_key (pt_table t ! i) = Key key"
  shows "for_each_property (removed t i j)
           = filter (\<lambda>e. pe_key e \<noteq> Key key) (for_each_property t)"
    and "length (for_each_property t) = Suc (length (for_each_property (removed t i j)))"
proof -
  let ?xs = "take (used_count t) (pt_table t)" and ?live = "\<lambda>e. pe_key e \<noteq> Deleted"
  have used: "used_count (removed t i j) = used_count t"
    by (rule used_count_removed [OF key_count_pos [OF assms]])
  have upd: "take (used_count t) ((pt_table t)[i := set_deleted (pt_table t ! i)])
      = ?xs[i := set_deleted (pt_table t ! i)]"
    by (simp add: take_update_swap)
  have i: "i < length ?xs" "?xs ! i = pt_table t ! i"
    using used_less_table [OF assms(1,2)] assms(2) by auto
  have dist: "distinct (map pe_key (filter ?live ?xs))"
    using assms(1) by (simp add: pt_inv_def pt_values_def for_each_property_def)
  have "filter ?live (?xs[i := set_deleted (pt_table t ! i)])
      = filter (\<lambda>x. pe_key x \<noteq> pe_key (?xs ! i)) (filter ?live ?xs)"
    by (rule filter_update_drop [OF dist i(1)]) (use i(2) assms(3) in simp_all)
  then show "for_each_property (removed t i j)
      = filter (\<lambda>e. pe_key e \<noteq> Key key) (for_each_property t)"
    unfolding for_each_property_def used using i(2) assms(3) by (simp add: upd)
  have "length (filter ?live ?xs) = Suc (length (filter ?live (?xs[i := set_deleted (pt_table t ! i)])))"
    by (rule length_filter_update_drop [OF i(1)]) (use i(2) assms(3) in simp_all)
  then show "length (for_each_property t) = Suc (length (for_each_property (removed t i j)))"
    unfolding for_each_property_def used by (simp add: upd)
qed

lemma removed_shape:
  assumes "pt_inv t" "i < used_count t" "pe_key (pt_table t ! i) = Key key"
  shows "pt_shape (removed t i j)"
  using pt_invD(1) [OF assms(1)] used_count_removed [OF key_count_pos [OF assms]]
  by (simp add: pt_shape_def)

lemma removed_values:
  assumes "pt_inv t" "i < used_count t" "pe_key (pt_table t ! i) = Key key"
  shows "pt_values (removed t i j)"
proof -
  note each = for_each_removed [OF assms, of j]
  note used = used_count_removed [OF key_count_pos [OF assms], of i j]
  have v: "pt_values t" by (rule pt_invD(2) [OF assms(1)])
  have len: "i < length (pt_table t)" by (rule used_less_table [OF assms(1,2)])
  have cnt: "pt_key_count (removed t i j) = length (for_each_property (removed t i j))"
    using each(2) v by (simp add: pt_values_def)
  have dist: "distinct (map pe_key (for_each_property (removed t i j)))"
    using v unfolding each(1) by (simp add: pt_values_def distinct_map_filter)
  have off: "\<forall>e\<in>set (for_each_property (removed t i j)). pe_offset e \<noteq> INVALID_OFFSET"
    using v unfolding each(1) by (simp add: pt_values_def)
  show ?thesis unfolding pt_values_def used
    using v len assms(2) cnt dist off
    by (simp add: pt_values_def nth_list_update)
qed

lemma removed_slots:
  assumes "pt_inv t" "i < used_count t" "pe_key (pt_table t ! i) = Key key"
    and "j < pt_index_size t" "pt_index t ! j = i + 1"
  shows "pt_slots (removed t i j)"
proof -
  let ?t = "removed t i j"
  note used = used_count_removed [OF key_count_pos [OF assms(1-3)], of i j]
  have s: "pt_slots t" and len: "length (pt_index t) = pt_index_size t"
      "i < length (pt_table t)" "used_count t \<le> table_capacity t"
    using pt_invD [OF assms(1)] used_less_table [OF assms(1,2)] by (auto simp: pt_shape_def)
  from s have slot0: "pt_index t ! k = 0 \<or> pt_index t ! k = table_capacity t + 1 \<or>
      (\<exists>m<used_count t. pt_index t ! k = m + 1 \<and> pe_key (pt_table t ! m) \<noteq> Deleted)"
    if "k < pt_index_size t" for k
    using that by (simp add: pt_slots_def deleted_entry_index_def EMPTY_ENTRY_INDEX_def)
  from s have uniq0: "k = k'"
    if "k < pt_index_size t" "k' < pt_index_size t" "m < used_count t"
      "pt_index t ! k = m + 1" "pt_index t ! k' = m + 1" for k k' m
    using that unfolding pt_slots_def by blast
  have occ: "{k. k < pt_index_size ?t \<and> pt_index ?t ! k \<noteq> EMPTY_ENTRY_INDEX}
      = {k. k < pt_index_size t \<and> pt_index t ! k \<noteq> EMPTY_ENTRY_INDEX}"
    using len(1) assms(4,5) by (auto simp: nth_list_update deleted_entry_index_def EMPTY_ENTRY_INDEX_def)
  have card: "card {k. k < pt_index_size ?t \<and> pt_index ?t ! k \<noteq> EMPTY_ENTRY_INDEX} \<le> used_count ?t"
    unfolding occ used using s by (simp add: pt_slots_def)
  have uniq: "k = k'"
    if "k < pt_index_size t" "k' < pt_index_size t" "m < used_count t"
      "pt_index ?t ! k = m + 1" "pt_index ?t ! k' = m + 1" for k k' m
    using that uniq0 [of k k' m] len assms(4)
    by (auto simp: nth_list_update deleted_entry_index_def split: if_splits)
  have slot: "pt_index ?t ! k = 0 \<or> pt_index ?t ! k = table_capacity t + 1 \<or>
      (\<exists>m<used_count t. pt_index ?t ! k = m + 1 \<and> pe_key (pt_table ?t ! m) \<noteq> Deleted)"
    if "k < pt_index_size t" for k
  proof (cases "k = j")
    case True
    then show ?thesis using assms(4) len(1) by (simp add: deleted_entry_index_def)
  next
    case False
    then have "pt_index t ! k \<noteq> i + 1" using uniq0 [of k j i] that assms(2,4,5) by blast
    then show ?thesis using slot0 [OF that] False len(2) by (auto simp: nth_list_update)
  qed
  from card uniq slot used show ?thesis
    unfolding pt_slots_def by (simp add: deleted_entry_index_def EMPTY_ENTRY_INDEX_def)
qed

lemma removed_reach:
  assumes "pt_inv t" "i < used_count t" "pe_key (pt_table t ! i) = Key key"
    and "j < pt_index_size t" "pt_index t ! j = i + 1"
  shows "pt_reach (removed t i j)"
  unfolding pt_reach_def
proof (intro allI impI)
  let ?t = "removed t i j"
  note used = used_count_removed [OF key_count_pos [OF assms(1-3)], of i j]
  have shape: "pt_shape t" and reach: "pt_reach t" using pt_invD [OF assms(1)] by blast+
  then have len: "length (pt_index t) = pt_index_size t" by (simp add: pt_shape_def)
  have mono: "reaches ?t k m" if "reaches t k m" for k m
    using that shape by (rule reaches_mono)
      (use len assms(4) in \<open>auto simp: nth_list_update EMPTY_ENTRY_INDEX_def deleted_entry_index_def\<close>)
  fix m k assume m: "m < used_count ?t" and k: "pe_key (pt_table ?t ! m) = Key k"
  have ne: "m \<noteq> i" using k used_less_table [OF assms(1,2)] by auto
  with m k used have "m < used_count t" "pe_key (pt_table t ! m) = Key k" by auto
  with reach obtain l where l: "reaches t k l" "pt_index t ! l = m + 1"
    unfolding pt_reach_def by blast
  with ne assms(5) have "l \<noteq> j" by auto
  with l mono show "\<exists>l. reaches ?t k l \<and> pt_index ?t ! l = m + 1" by (intro exI [of _ l]) simp
qed

lemma removed_inv:
  assumes "pt_inv t" "i < used_count t" "pe_key (pt_table t ! i) = Key key"
    and "j < pt_index_size t" "pt_index t ! j = i + 1"
  shows "pt_inv (removed t i j)"
  unfolding pt_inv_def
  using removed_shape removed_values removed_slots removed_reach assms by blast

lemma pt_remove_correct:
  assumes "pt_inv t" "i < used_count t" "pe_key (pt_table t ! i) = Key key"
    and "j < pt_index_size t" "pt_index t ! j = i + 1"
  shows "\<exists>t'. pt_remove (i + 1) j t = Some t' \<and> pt_inv t' \<and>
     for_each_property t' = filter (\<lambda>e. pe_key e \<noteq> Key key) (for_each_property t) \<and>
     pt_deleted_offsets t' = pt_deleted_offsets t"
proof -
  have "j < length (pt_index t)" "i < length (pt_table t)"
    using assms used_less_table [OF assms(1,2)] by (auto simp: pt_inv_def pt_shape_def)
  then have eq: "pt_remove (i + 1) j t =
      (if pt_index_size t \<le> pt_deleted_count (removed t i j) * 4
       then rehash (pt_key_count (removed t i j)) (removed t i j) else Some (removed t i j))"
    by (simp add: pt_remove_def checked_simps Let_def removed_def)
  show ?thesis
    using rehash_correct [OF removed_inv [OF assms] order_refl] removed_inv [OF assms]
    unfolding eq by (auto simp: for_each_removed(1) [OF assms(1-3)])
qed

text \<open>\<open>take\<close> returns the old entry of the key and removes exactly that entry.\<close>

lemma pt_take_correct:
  assumes "pt_inv t"
  shows "\<exists>t'. pt_take key t = Some (spec_get key (for_each_property t), t') \<and> pt_inv t' \<and>
     for_each_property t' = filter (\<lambda>e. pe_key e \<noteq> Key key) (for_each_property t) \<and>
     pt_deleted_offsets t' = pt_deleted_offsets t"
proof (cases "entry_for key (for_each_property t)")
  case None
  obtain r where "find_entry t key = Some r"
      "(fr_offset r, fr_attributes r) = spec_get key (for_each_property t)"
    by (rule find_entry_spec [OF assms])
  moreover from None have "filter (\<lambda>e. pe_key e \<noteq> Key key) (for_each_property t) = for_each_property t"
    by (simp add: entry_for_None)
  ultimately show ?thesis using None assms by (simp add: pt_take_def spec_get_def)
next
  case (Some e)
  then obtain i where i: "i < used_count t" "pt_table t ! i = e" "pe_key e = Key key"
    using entry_for_Some set_for_each_iff [OF assms] by metis
  from entry_for_Some [OF Some] assms have off: "pe_offset e \<noteq> INVALID_OFFSET"
    by (auto simp: pt_inv_def pt_values_def)
  obtain j where j: "j < pt_index_size t" "pt_index t ! j = i + 1"
      "find_entry t key = Some \<lparr>fr_entry_index = i + 1, fr_index = j,
         fr_offset = pe_offset e, fr_attributes = pe_attributes e\<rparr>"
    using find_entry_present [OF assms i(1)] i by metis
  from pt_remove_correct [OF assms i(1) _ j(1,2)] i j(3) off Some show ?thesis
    by (auto simp: pt_take_def spec_get_def)
qed

section \<open>Changing attributes\<close>

lemma for_each_attributes:
  fixes a :: nat
  assumes "pt_inv t" "i < used_count t" "pe_key (pt_table t ! i) = Key key"
  defines "t' \<equiv> t\<lparr>pt_table := (pt_table t)[i := set_attributes a (pt_table t ! i)]\<rparr>"
  shows "for_each_property t'
    = map (\<lambda>e. if pe_key e = Key key then set_attributes a e else e) (for_each_property t)"
proof -
  let ?xs = "take (used_count t) (pt_table t)" and ?live = "\<lambda>e. pe_key e \<noteq> Deleted"
  have i: "i < length ?xs" "?xs ! i = pt_table t ! i"
    using used_less_table [OF assms(1,2)] assms(2) by auto
  have dist: "distinct (map pe_key (filter ?live ?xs))"
    using assms(1) by (simp add: pt_inv_def pt_values_def for_each_property_def)
  have "filter ?live (?xs[i := set_attributes a (pt_table t ! i)])
      = map (\<lambda>x. if pe_key x = pe_key (?xs ! i) then set_attributes a x else x) (filter ?live ?xs)"
    by (rule filter_update_map [OF dist i(1)]) (use i(2) assms(3) in \<open>simp_all add: set_attributes_def\<close>)
  with i(2) assms(3) show ?thesis
    by (simp add: for_each_property_def t'_def used_count_def take_update_swap)
qed

lemma attributes_inv:
  fixes a :: nat
  assumes "pt_inv t" "i < used_count t" "pe_key (pt_table t ! i) = Key key"
  defines "t' \<equiv> t\<lparr>pt_table := (pt_table t)[i := set_attributes a (pt_table t ! i)]\<rparr>"
  shows "pt_inv t'"
proof -
  have len: "i < length (pt_table t)" by (rule used_less_table [OF assms(1,2)])
  have key: "pe_key (pt_table t' ! m) = pe_key (pt_table t ! m)" for m
    using len by (cases "m = i") (auto simp: t'_def set_attributes_def)
  have same: "pt_index_size t' = pt_index_size t" "pt_index t' = pt_index t"
    "used_count t' = used_count t" "table_capacity t' = table_capacity t"
    "deleted_entry_index t' = deleted_entry_index t" "pt_key_count t' = pt_key_count t"
    "length (pt_table t') = length (pt_table t)" "pt_index_mask t' = pt_index_mask t"
    by (simp_all add: t'_def used_count_def deleted_entry_index_def)
  have each: "for_each_property t'
      = map (\<lambda>e. if pe_key e = Key key then set_attributes a e else e) (for_each_property t)"
    unfolding t'_def by (rule for_each_attributes [OF assms(1-3)])
  have keys: "map pe_key (for_each_property t') = map pe_key (for_each_property t)"
    unfolding each by (simp add: set_attributes_def)
  have "reaches t' k j = reaches t k j" for k j
    by (simp add: reaches_def probe_def same)
  then have "pt_reach t'" "pt_slots t'" "pt_shape t'"
    using pt_invD [OF assms(1)] by (simp_all add: pt_reach_def pt_slots_def pt_shape_def same key)
  moreover have "pt_values t'"
    unfolding pt_values_def keys
    using pt_invD(2) [OF assms(1)] each by (auto simp: pt_values_def same key set_attributes_def)
  ultimately show ?thesis by (simp add: pt_inv_def)
qed

lemma update_attribute_correct:
  assumes "pt_inv t"
  shows "\<exists>t'. update_attribute_if_exists key a t
       = Some (fst (spec_get key (for_each_property t)), t') \<and> pt_inv t' \<and>
     for_each_property t'
       = map (\<lambda>e. if pe_key e = Key key then set_attributes a e else e) (for_each_property t)"
proof (cases "entry_for key (for_each_property t)")
  case None
  obtain r where "find_entry t key = Some r"
      "(fr_offset r, fr_attributes r) = spec_get key (for_each_property t)"
    by (rule find_entry_spec [OF assms])
  moreover from None have "map (\<lambda>e. if pe_key e = Key key then set_attributes a e else e)
      (for_each_property t) = for_each_property t"
    by (intro map_idI) (simp add: entry_for_None)
  ultimately show ?thesis using None assms
    by (simp add: update_attribute_if_exists_def spec_get_def)
next
  case (Some e)
  then obtain i where i: "i < used_count t" "pt_table t ! i = e" "pe_key e = Key key"
    using entry_for_Some set_for_each_iff [OF assms] by metis
  from entry_for_Some [OF Some] assms have off: "pe_offset e \<noteq> INVALID_OFFSET"
    by (auto simp: pt_inv_def pt_values_def)
  obtain j where j: "find_entry t key = Some \<lparr>fr_entry_index = i + 1, fr_index = j,
         fr_offset = pe_offset e, fr_attributes = pe_attributes e\<rparr>"
    using find_entry_present [OF assms i(1)] i by metis
  with i off Some used_less_table [OF assms i(1)] show ?thesis
    using attributes_inv [OF assms i(1), of key a] for_each_attributes [OF assms i(1), of key a]
    by (simp add: update_attribute_if_exists_def spec_get_def checked_simps)
qed

section \<open>Operation sequences\<close>

text \<open>
  The table as an abstract data type: an insertion-ordered list of entries with distinct keys,
  changed by three operations.
\<close>

datatype pt_op = OpAdd property_table_entry | OpTake atom_id | OpSetAttributes atom_id nat

fun pt_step :: "pt_op \<Rightarrow> property_table \<Rightarrow> property_table option" where
  "pt_step (OpAdd e) t = map_option snd (pt_add e t)"
| "pt_step (OpTake key) t = map_option snd (pt_take key t)"
| "pt_step (OpSetAttributes key a) t = map_option snd (update_attribute_if_exists key a t)"

fun spec_step :: "pt_op \<Rightarrow> property_table_entry list \<Rightarrow> property_table_entry list" where
  "spec_step (OpAdd e) es = (if pe_key e \<in> pe_key ` set es then es else es @ [e])"
| "spec_step (OpTake key) es = filter (\<lambda>e. pe_key e \<noteq> Key key) es"
| "spec_step (OpSetAttributes key a) es =
     map (\<lambda>e. if pe_key e = Key key then set_attributes a e else e) es"

text \<open>An entry to be added has a live key and a valid offset.\<close>

fun op_ok :: "pt_op \<Rightarrow> bool" where
  "op_ok (OpAdd e) = ((\<exists>key. pe_key e = Key key) \<and> pe_offset e \<noteq> INVALID_OFFSET)"
| "op_ok (OpTake key) = True"
| "op_ok (OpSetAttributes key a) = True"

lemma entry_for_None_image:
  "pe_key e = Key key \<Longrightarrow> entry_for key es = None \<longleftrightarrow> pe_key e \<notin> pe_key ` set es"
  by (auto simp: entry_for_None image_iff)

lemma pt_step_refines:
  assumes "pt_inv t" and "op_ok x"
  shows "\<exists>t'. pt_step x t = Some t' \<and> pt_inv t' \<and>
    for_each_property t' = spec_step x (for_each_property t)"
proof (cases x)
  case (OpAdd e)
  with assms(2) obtain key where e: "pe_key e = Key key" "pe_offset e \<noteq> INVALID_OFFSET" by auto
  show ?thesis
  proof (cases "entry_for key (for_each_property t)")
    case None
    with pt_add_new [OF assms(1) e None] OpAdd e show ?thesis
      by (auto simp: entry_for_None_image [OF e(1)])
  next
    case (Some e')
    with pt_add_existing [OF assms(1) e(1) Some] OpAdd assms(1) show ?thesis
      using entry_for_None_image [OF e(1), of "for_each_property t"] by auto
  qed
next
  case (OpTake key)
  with pt_take_correct [OF assms(1), of key] show ?thesis by auto
next
  case (OpSetAttributes key a)
  with update_attribute_correct [OF assms(1), of key a] show ?thesis by auto
qed

interpretation pt: data_refinement pt_inv for_each_property pt_step spec_step "\<lambda>x _. op_ok x"
  by unfold_locales (rule pt_step_refines)

section \<open>The map interface\<close>

text \<open>
  What the structures rely on: a lookup after an insertion, a removal or another insertion.  The
  laws speak of the insertion-ordered list; the client facts follow from them alone.
\<close>

locale ordered_property_map =
  fixes invar :: "'t \<Rightarrow> bool"
    and entries :: "'t \<Rightarrow> property_table_entry list"
    and get :: "'t \<Rightarrow> atom_id \<Rightarrow> (property_offset \<times> nat) option"
    and add :: "property_table_entry \<Rightarrow> 't \<Rightarrow> ((property_offset \<times> nat \<times> bool) \<times> 't) option"
    and take_key :: "atom_id \<Rightarrow> 't \<Rightarrow> ((property_offset \<times> nat) \<times> 't) option"
  assumes entries_distinct: "invar t \<Longrightarrow> distinct (map pe_key (entries t))"
    and get_law: "invar t \<Longrightarrow> get t key = Some (spec_get key (entries t))"
    and add_new_law: "invar t \<Longrightarrow> pe_key e = Key key \<Longrightarrow> pe_offset e \<noteq> INVALID_OFFSET \<Longrightarrow>
       entry_for key (entries t) = None \<Longrightarrow>
       \<exists>t'. add e t = Some ((pe_offset e, pe_attributes e, True), t') \<and> invar t' \<and>
         entries t' = entries t @ [e]"
    and add_old_law: "invar t \<Longrightarrow> pe_key e = Key key \<Longrightarrow> entry_for key (entries t) = Some e' \<Longrightarrow>
       add e t = Some ((pe_offset e', pe_attributes e', False), t)"
    and take_law: "invar t \<Longrightarrow>
       \<exists>t'. take_key key t = Some (spec_get key (entries t), t') \<and> invar t' \<and>
         entries t' = filter (\<lambda>e. pe_key e \<noteq> Key key) (entries t)"
begin

lemma get_after_add:
  assumes "invar t" "pe_key e = Key key" "pe_offset e \<noteq> INVALID_OFFSET" "add e t = Some (r, t')"
  shows "get t' k = (if k = key then Some (fst r, fst (snd r)) else get t k)"
proof (cases "entry_for key (entries t)")
  case None
  with add_new_law [OF assms(1-3) None] assms(4) have
    "invar t'" "entries t' = entries t @ [e]" "r = (pe_offset e, pe_attributes e, True)" by auto
  with None assms(1,2) show ?thesis
    by (simp add: get_law spec_get_def entry_for_append entry_for_single split: option.splits)
next
  case (Some e')
  with add_old_law [OF assms(1,2) Some] assms(4) have
    "t' = t" "r = (pe_offset e', pe_attributes e', False)" by auto
  with Some assms(1) show ?thesis by (simp add: get_law spec_get_def)
qed

lemma get_after_take:
  assumes "invar t" "take_key key t = Some (r, t')"
  shows "get t key = Some r" and "get t' k = (if k = key then Some (INVALID_OFFSET, 0) else get t k)"
proof -
  from take_law [OF assms(1), of key] assms(2) have
    t': "r = spec_get key (entries t)" "invar t'"
      "entries t' = filter (\<lambda>e. pe_key e \<noteq> Key key) (entries t)" by auto
  then show "get t key = Some r" using assms(1) by (simp add: get_law)
  show "get t' k = (if k = key then Some (INVALID_OFFSET, 0) else get t k)"
    using t' assms(1) by (simp add: get_law spec_get_def entry_for_filter)
qed

end

interpretation pm: ordered_property_map pt_inv for_each_property pt_get pt_add pt_take
proof unfold_locales
  fix t assume "pt_inv t"
  then show "distinct (map pe_key (for_each_property t))" by (simp add: pt_inv_def pt_values_def)
qed (use pt_get_spec pt_add_new pt_add_existing pt_take_correct in blast)+

section \<open>Offsets are dense and never shared\<close>

text \<open>
  The engine takes the offset of a new property from \<open>next_offset\<close> and gives the offset of a
  removed one to \<open>add_deleted_offset\<close>.  Under that discipline the offsets of the live entries
  together with the parked ones are exactly the offsets of the property numbers below the
  storage size, each once.
\<close>

definition parked :: "property_table \<Rightarrow> property_offset list" where
  "parked t = (case pt_deleted_offsets t of None \<Rightarrow> [] | Some v \<Rightarrow> v)"

definition offsets_dense :: "int \<Rightarrow> property_table \<Rightarrow> bool" where
  "offsets_dense inline_capacity t \<longleftrightarrow>
     mset (map pe_offset (for_each_property t)) + mset (parked t)
       = mset (map (\<lambda>n. offset_for_property_number (int n) inline_capacity)
                 [0..<property_storage_size t])"

lemma property_storage_size_eq:
  "pt_inv t \<Longrightarrow> property_storage_size t = length (for_each_property t) + length (parked t)"
  by (simp add: property_storage_size_def pt_size_def pt_inv_def pt_values_def parked_def
      split: option.splits)

lemma offsets_dense_distinct:
  assumes "offsets_dense cap t" and "cap \<le> 64"
  shows "distinct (map pe_offset (for_each_property t) @ parked t)"
proof -
  have "distinct (map (\<lambda>n. offset_for_property_number (int n) cap) [0..<property_storage_size t])"
    using assms(2) by (simp add: distinct_map inj_on_def offset_for_property_number_inj)
  moreover have "mset (map pe_offset (for_each_property t) @ parked t)
      = mset (map (\<lambda>n. offset_for_property_number (int n) cap) [0..<property_storage_size t])"
    using assms(1) by (simp add: offsets_dense_def)
  ultimately show ?thesis using mset_eq_imp_distinct_iff by blast
qed

lemma next_offset_cases:
  assumes "next_offset cap t = Some (off, t')"
  shows "(parked t = [] \<and> t' = t \<and> off = offset_for_property_number (int (pt_size t)) cap) \<or>
     (\<exists>v. pt_deleted_offsets t = Some v \<and> v \<noteq> [] \<and> off = last v \<and>
        t' = t\<lparr>pt_deleted_offsets := Some (butlast v)\<rparr>)"
  using assms
  by (auto simp: next_offset_def has_deleted_offset_def take_deleted_offset_def parked_def
      split: option.splits if_splits)

lemma next_offset_returns: "\<exists>off t'. next_offset cap t = Some (off, t')"
  by (auto simp: next_offset_def has_deleted_offset_def take_deleted_offset_def split: option.splits)

lemma deleted_offsets_frame:
  "pt_inv (t\<lparr>pt_deleted_offsets := v\<rparr>) = pt_inv t"
  "for_each_property (t\<lparr>pt_deleted_offsets := v\<rparr>) = for_each_property t"
  by (simp_all add: pt_inv_def pt_pred_defs for_each_property_def used_count_def
      table_capacity_def deleted_entry_index_def reaches_def probe_def)

lemma offsets_dense_cong:
  assumes "pt_inv t" "offsets_dense cap t" "pt_inv t'"
    and "mset (map pe_offset (for_each_property t')) + mset (parked t')
       = mset (map pe_offset (for_each_property t)) + mset (parked t)"
  shows "offsets_dense cap t'"
proof -
  from arg_cong [OF assms(4), of size] have "property_storage_size t' = property_storage_size t"
    using assms(1,3) by (simp add: property_storage_size_eq)
  with assms(2,4) show ?thesis by (simp add: offsets_dense_def)
qed

lemma next_offset_fresh_aux:
  assumes "pt_inv t" "offsets_dense cap t" "0 \<le> cap" "cap \<le> 64"
    and "next_offset cap t = Some (off, t1)"
  shows "off \<notin> pe_offset ` set (for_each_property t)" and "0 \<le> off"
proof -
  let ?offs = "\<lambda>n. map (\<lambda>n. offset_for_property_number (int n) cap) [0..<n]"
  have mset: "mset (map pe_offset (for_each_property t) @ parked t)
      = mset (?offs (property_storage_size t))"
    using assms(2) by (simp add: offsets_dense_def)
  note sets = mset_eq_setD [OF mset]
  have "off \<notin> pe_offset ` set (for_each_property t) \<and> 0 \<le> off"
    using next_offset_cases [OF assms(5)]
  proof (elim disjE exE conjE)
    assume c: "parked t = []" "off = offset_for_property_number (int (pt_size t)) cap"
    have "property_storage_size t = pt_size t"
      using c(1) assms(1) property_storage_size_eq [OF assms(1)]
      by (simp add: pt_size_def pt_inv_def pt_values_def)
    with sets c assms(3,4) show ?thesis
      by (auto simp: offset_for_property_number_inj offset_for_property_number_valid)
  next
    fix v assume v: "pt_deleted_offsets t = Some v" "v \<noteq> []" "off = last v"
    then have "off \<in> set (parked t)" by (simp add: parked_def)
    moreover from this sets have "off \<in> set (?offs (property_storage_size t))" by auto
    then have "0 \<le> off" using assms(3) by (auto simp: offset_for_property_number_valid)
    ultimately show ?thesis using offsets_dense_distinct [OF assms(2,4)] by auto
  qed
  then show "off \<notin> pe_offset ` set (for_each_property t)" and "0 \<le> off" by auto
qed

text \<open>Inserting under the offset that \<open>next_offset\<close> hands out.\<close>

lemma offsets_dense_insert:
  assumes "pt_inv t" "offsets_dense cap t" "next_offset cap t = Some (off, t1)"
    and "pt_inv t'" "for_each_property t' = for_each_property t1 @ [e]" "pe_offset e = off"
    and "pt_deleted_offsets t' = pt_deleted_offsets t1"
  shows "offsets_dense cap t'"
  using next_offset_cases [OF assms(3)]
proof (elim disjE exE conjE)
  assume t1: "parked t = []" "t1 = t" "off = offset_for_property_number (int (pt_size t)) cap"
  have "parked t' = []" using t1 assms(7) by (simp add: parked_def)
  moreover from this have "property_storage_size t' = Suc (property_storage_size t)"
    using assms(1,4,5) t1 by (simp add: property_storage_size_eq)
  moreover have "property_storage_size t = pt_size t"
    using t1(1) assms(1) property_storage_size_eq [OF assms(1)]
    by (simp add: pt_size_def pt_inv_def pt_values_def)
  ultimately show ?thesis using assms(2,5,6) t1 by (simp add: offsets_dense_def)
next
  fix v assume v: "pt_deleted_offsets t = Some v" "v \<noteq> []" "off = last v"
    "t1 = t\<lparr>pt_deleted_offsets := Some (butlast v)\<rparr>"
  have "add_mset (last v) (mset (butlast v)) = mset v"
    using v(2) by (cases v rule: rev_cases) auto
  with assms(5,6,7) v show ?thesis
    by (intro offsets_dense_cong [OF assms(1,2,4)]) (simp add: parked_def deleted_offsets_frame)
qed

text \<open>Removing a property and parking its offset.\<close>

lemma offsets_dense_remove:
  assumes "pt_inv t" "offsets_dense cap t" "pt_take key t = Some ((off, a), t1)"
    and "off \<noteq> INVALID_OFFSET"
  shows "pt_inv (add_deleted_offset off t1)" "offsets_dense cap (add_deleted_offset off t1)"
proof -
  let ?es = "for_each_property t"
  from pt_take_correct [OF assms(1), of key] assms(3) have
    t1: "spec_get key ?es = (off, a)" "pt_inv t1"
      "for_each_property t1 = filter (\<lambda>e. pe_key e \<noteq> Key key) ?es"
      "pt_deleted_offsets t1 = pt_deleted_offsets t" by auto
  then show inv: "pt_inv (add_deleted_offset off t1)"
    by (simp add: add_deleted_offset_def deleted_offsets_frame)
  from t1(1) assms(4) obtain e where e: "entry_for key ?es = Some e" "pe_offset e = off"
    by (auto simp: spec_get_def split: option.splits)
  have dist: "distinct (map pe_key ?es)" using assms(1) by (simp add: pt_inv_def pt_values_def)
  have "mset ?es = mset (filter (\<lambda>e. pe_key e \<noteq> Key key) ?es) + mset (filter (\<lambda>e. pe_key e = Key key) ?es)"
    using multiset_partition [of "mset ?es" "\<lambda>e. pe_key e \<noteq> Key key"] by simp
  moreover have "mset (filter (\<lambda>e. pe_key e = Key key) ?es) = {#e#}"
  proof -
    have "e \<in> set ?es" "pe_key e = Key key" using entry_for_Some [OF e(1)] by auto
    moreover have "e' = e" if "e' \<in> set ?es" "pe_key e' = Key key" for e'
      using entry_for_unique [OF dist that] e(1) by simp
    ultimately have set: "set (filter (\<lambda>e. pe_key e = Key key) ?es) = {e}"
      unfolding set_filter by blast
    have "distinct (filter (\<lambda>e. pe_key e = Key key) ?es)"
      using dist by (simp add: distinct_map)
    from mset_set_set [OF this] show ?thesis unfolding set by simp
  qed
  ultimately have "mset ?es = mset (filter (\<lambda>e. pe_key e \<noteq> Key key) ?es) + {#e#}" by metis
  from arg_cong [OF this, of "image_mset pe_offset"] have "mset (map pe_offset ?es)
      = mset (map pe_offset (filter (\<lambda>e. pe_key e \<noteq> Key key) ?es)) + {#off#}"
    by (simp add: e(2))
  then show "offsets_dense cap (add_deleted_offset off t1)"
    by (intro offsets_dense_cong [OF assms(1,2) inv])
      (simp add: add_deleted_offset_def deleted_offsets_frame t1 parked_def split: option.splits)
qed

section \<open>Bounds\<close>

text \<open>
  The counters of the code are \<open>u32\<close>.  The index never grows beyond a constant times the number
  of entries it was sized for, so none of the sums and products the operations form overflows.
\<close>

lemma pt_inv_bounds:
  assumes "pt_inv t" and "pt_key_count t < 2 ^ 28" and "pt_index_size t < 2 ^ 30"
  shows "used_count t + 1 < 2 ^ 30" and "(pt_deleted_count t + 1) * 4 < 2 ^ 32"
    and "size_for_capacity (pt_key_count t + 1) < 2 ^ 31"
    and "j < pt_index_size t \<Longrightarrow> k \<le> pt_index_size t \<Longrightarrow> j + k < 2 ^ 32"
  using assms size_for_capacity_bound [of "pt_key_count t + 1"]
  by (auto simp: pt_inv_def pt_shape_def table_capacity_def used_count_def)

section \<open>Properties\<close>



text \<open>
  The probe loop of a lookup always ends: within \<open>pt_index_size t\<close> steps it comes to the key
  or to an empty slot, and the result it returns is the entry with that key of the
  insertion-ordered list, or the absent result when there is none.
\<close>

lemma pt_find_total:
  assumes "pt_inv t"
  shows "\<exists>r p. find_entry t key = Some r \<and> p < pt_index_size t \<and> fr_index r = probe t key p \<and>
    (fr_offset r, fr_attributes r) = spec_get key (for_each_property t)"
proof -
  obtain r where r: "find_entry t key = Some r"
      "(fr_offset r, fr_attributes r) = spec_get key (for_each_property t)"
    by (rule find_entry_spec [OF assms])
  obtain p where "p < pt_index_size t" "find_entry t key = Some (result_at t (probe t key p))"
    using find_entry_stops [OF assms] by blast
  with r show ?thesis by (auto simp: result_at_def Let_def split: if_splits)
qed

text \<open>
  Insertion is a map update that never overwrites: after \<open>add\<close> a lookup of the added key gives
  what \<open>add\<close> returned (the new entry, or the one that was there), and every other lookup is
  unchanged.
\<close>

lemma pt_get_after_add:
  assumes "pt_inv t" "pe_key e = Key key" "pe_offset e \<noteq> INVALID_OFFSET" "pt_add e t = Some (r, t')"
  shows "pt_get t' k = (if k = key then Some (fst r, fst (snd r)) else pt_get t k)"
  using assms by (rule pm.get_after_add)

text \<open>
  Removal returns what a lookup would have returned and afterwards the key is absent, whether or
  not the removal triggered a rehash; every other key keeps its offset and attributes.
\<close>

lemma pt_get_after_take:
  assumes "pt_inv t" "pt_take key t = Some (r, t')"
  shows "pt_get t key = Some r \<and>
    pt_get t' k = (if k = key then Some (INVALID_OFFSET, 0) else pt_get t k)"
  using pm.get_after_take [OF assms] by simp

text \<open>
  Rehashing into any capacity that holds the live entries returns a table that satisfies the
  invariant with the same entries in the same order, no tombstones, and the same parked offsets.
\<close>

lemma pt_rehash_preserves:
  assumes "pt_inv t" "pt_key_count t \<le> c"
  shows "\<exists>t'. rehash c t = Some t' \<and> pt_inv t' \<and> for_each_property t' = for_each_property t \<and>
    pt_deleted_count t' = 0 \<and> pt_deleted_offsets t' = pt_deleted_offsets t"
  using rehash_correct [OF assms] by auto

text \<open>
  Under the engine's discipline for offsets, \<open>next_offset\<close> always returns an offset that no
  live property uses, recycled or fresh, and inserting a new property under it keeps the offsets
  dense: they are exactly those of the first \<open>property_storage_size\<close> property numbers.
\<close>

lemma pt_next_offset_fresh:
  assumes "pt_inv t" "offsets_dense cap t" "0 \<le> cap" "cap \<le> 64"
    and "entry_for key (for_each_property t) = None"
  shows "\<exists>off t1 t'. next_offset cap t = Some (off, t1) \<and>
    off \<notin> pe_offset ` set (for_each_property t) \<and>
    pt_add (entry_new key off a) t1 = Some ((off, a, True), t') \<and>
    pt_inv t' \<and> offsets_dense cap t' \<and>
    for_each_property t' = for_each_property t @ [entry_new key off a]"
proof -
  obtain off t1 where n: "next_offset cap t = Some (off, t1)" using next_offset_returns by blast
  from next_offset_cases [OF n] have t1: "pt_inv t1" "for_each_property t1 = for_each_property t"
    using assms(1) by (auto simp: deleted_offsets_frame)
  have fresh: "off \<notin> pe_offset ` set (for_each_property t)" and "0 \<le> off"
    using next_offset_fresh_aux [OF assms(1-4) n] by auto
  then have e: "pe_key (entry_new key off a) = Key key"
      "pe_offset (entry_new key off a) \<noteq> INVALID_OFFSET" "entry_for key (for_each_property t1) = None"
    using assms(5) t1(2) by (auto simp: entry_new_def INVALID_OFFSET_def)
  obtain t' where t': "pt_add (entry_new key off a) t1 = Some ((off, a, True), t')" "pt_inv t'"
      "for_each_property t' = for_each_property t1 @ [entry_new key off a]"
      "pt_deleted_offsets t' = pt_deleted_offsets t1"
    using pt_add_new [OF t1(1) e] by (auto simp: entry_new_def)
  moreover have "offsets_dense cap t'"
    by (rule offsets_dense_insert [OF assms(1,2) n t'(2,3) _ t'(4)]) (simp add: entry_new_def)
  ultimately show ?thesis using n fresh t1(2) by auto
qed

end
