(* ===== verification/Big_Int.thy ===== *)
theory Big_Int
  imports JSC_Prelude
begin

text \<open>
  Arbitrary-precision integers (\<open>CoreBigIntValue\<close> in \<open>src/src/interpreter/bigint_store.rs\<close>):
  a sign and a little-endian vector of 32-bit limbs, with schoolbook arithmetic that keeps its
  carries in 64-bit words.  The words of the code are words here, so the absence of overflow in
  the intermediate sums is part of what is proved.
\<close>

section \<open>The model\<close>

datatype ordering = Less | Equal | Greater

definition cmp_of :: "'a::linorder \<Rightarrow> 'a \<Rightarrow> ordering" where
  "cmp_of a b = (if a < b then Less else if a = b then Equal else Greater)"

text \<open>\<open>sign\<close> is an \<open>i8\<close> that only takes the values -1, 0 and 1.\<close>

record big_int =
  bi_sign :: int
  bi_limbs :: "u32 list"

definition bi_zero :: big_int where
  "bi_zero = \<lparr>bi_sign = 0, bi_limbs = []\<rparr>"

definition bi_one :: big_int where
  "bi_one = \<lparr>bi_sign = 1, bi_limbs = [1]\<rparr>"

function pop_zeros :: "u32 list \<Rightarrow> u32 list" where
  "pop_zeros limbs = (if limbs \<noteq> [] \<and> last limbs = 0 then pop_zeros (butlast limbs) else limbs)"
  by pat_completeness auto
termination
  by (relation "measure length") auto

declare pop_zeros.simps [simp del]

definition normalized :: "int \<Rightarrow> u32 list \<Rightarrow> big_int" where
  "normalized sign limbs =
     (let limbs = pop_zeros limbs in
      if limbs = [] then bi_zero
      else \<lparr>bi_sign = (if sign < 0 then -1 else 1), bi_limbs = limbs\<rparr>)"

function magnitude_limbs :: "nat \<Rightarrow> u32 list" where
  "magnitude_limbs m = (if m \<noteq> 0 then of_nat m # magnitude_limbs (m div 2 ^ 32) else [])"
  by pat_completeness auto
termination
  by (relation "measure id") auto

declare magnitude_limbs.simps [simp del]

definition bi_from_i128 :: "int \<Rightarrow> big_int" where
  "bi_from_i128 value =
     (if value = 0 then bi_zero
      else normalized (if value < 0 then -1 else 1) (magnitude_limbs (nat \<bar>value\<bar>)))"

definition bi_is_zero :: "big_int \<Rightarrow> bool" where
  "bi_is_zero b \<longleftrightarrow> bi_sign b = 0"

definition bi_is_negative :: "big_int \<Rightarrow> bool" where
  "bi_is_negative b \<longleftrightarrow> bi_sign b < 0"

definition bi_abs :: "big_int \<Rightarrow> big_int" where
  "bi_abs b = (if bi_is_zero b then bi_zero else \<lparr>bi_sign = 1, bi_limbs = bi_limbs b\<rparr>)"

definition bi_neg :: "big_int \<Rightarrow> big_int" where
  "bi_neg b = (if bi_is_zero b then bi_zero else \<lparr>bi_sign = - bi_sign b, bi_limbs = bi_limbs b\<rparr>)"

text \<open>\<open>Iterator::cmp\<close> on the limbs from the most significant one down.\<close>

fun iter_cmp :: "u32 list \<Rightarrow> u32 list \<Rightarrow> ordering" where
  "iter_cmp [] [] = Equal"
| "iter_cmp [] (b # bs) = Less"
| "iter_cmp (a # as) [] = Greater"
| "iter_cmp (a # as) (b # bs) = (case cmp_of a b of Equal \<Rightarrow> iter_cmp as bs | r \<Rightarrow> r)"

definition cmp_abs :: "big_int \<Rightarrow> big_int \<Rightarrow> ordering" where
  "cmp_abs a b =
     (case cmp_of (length (bi_limbs a)) (length (bi_limbs b)) of
        Equal \<Rightarrow> iter_cmp (rev (bi_limbs a)) (rev (bi_limbs b))
      | r \<Rightarrow> r)"

definition bi_cmp :: "big_int \<Rightarrow> big_int \<Rightarrow> ordering" where
  "bi_cmp a b =
     (case cmp_of (bi_sign a) (bi_sign b) of
        Equal \<Rightarrow> if bi_sign a < 0 then cmp_abs b a else cmp_abs a b
      | r \<Rightarrow> r)"

definition get_or_0 :: "u32 list \<Rightarrow> nat \<Rightarrow> u32" where
  "get_or_0 xs i = (if i < length xs then xs ! i else 0)"

text \<open>One pass over the indices \<open>i, \<dots>, i + n - 1\<close>, carrying into the next limb.\<close>

fun add_limbs_loop :: "u32 list \<Rightarrow> u32 list \<Rightarrow> nat \<Rightarrow> nat \<Rightarrow> u64 \<Rightarrow> u32 list \<times> u64" where
  "add_limbs_loop left right i 0 carry = ([], carry)"
| "add_limbs_loop left right i (Suc n) carry =
     (let value = (ucast (get_or_0 left i) :: u64) + ucast (get_or_0 right i) + carry;
          (limbs, c) = add_limbs_loop left right (Suc i) n (drop_bit 32 value)
      in (ucast value # limbs, c))"

definition add_abs_limbs :: "u32 list \<Rightarrow> u32 list \<Rightarrow> u32 list" where
  "add_abs_limbs left right =
     (let (limbs, carry) = add_limbs_loop left right 0 (max (length left) (length right)) 0
      in if carry \<noteq> 0 then limbs @ [ucast carry] else limbs)"

text \<open>The borrow is an \<open>i64\<close>; its values stay within \<open>2 ^ 33\<close>, so they are integers here.\<close>

fun sub_limbs_loop :: "u32 list \<Rightarrow> u32 list \<Rightarrow> nat \<Rightarrow> int \<Rightarrow> u32 list" where
  "sub_limbs_loop [] right i borrow = []"
| "sub_limbs_loop (l # left) right i borrow =
     (let value = uint l - uint (get_or_0 right i) - borrow
      in if value < 0
         then word_of_int (value + 2 ^ 32) # sub_limbs_loop left right (Suc i) 1
         else word_of_int value # sub_limbs_loop left right (Suc i) 0)"

definition sub_abs_limbs :: "u32 list \<Rightarrow> u32 list \<Rightarrow> u32 list" where
  "sub_abs_limbs left right = sub_limbs_loop left right 0 0"

definition sub_abs :: "big_int \<Rightarrow> big_int \<Rightarrow> big_int" where
  "sub_abs a b = normalized 1 (sub_abs_limbs (bi_limbs a) (bi_limbs b))"

definition bi_add :: "big_int \<Rightarrow> big_int \<Rightarrow> big_int" where
  "bi_add a b =
     (if bi_sign a = 0 then b
      else if bi_sign b = 0 then a
      else if bi_sign a = bi_sign b
      then normalized (bi_sign a) (add_abs_limbs (bi_limbs a) (bi_limbs b))
      else case cmp_abs a b of
             Greater \<Rightarrow> normalized (bi_sign a) (sub_abs_limbs (bi_limbs a) (bi_limbs b))
           | Less \<Rightarrow> normalized (bi_sign b) (sub_abs_limbs (bi_limbs b) (bi_limbs a))
           | Equal \<Rightarrow> bi_zero)"

definition bi_sub :: "big_int \<Rightarrow> big_int \<Rightarrow> big_int" where
  "bi_sub a b = bi_add a (bi_neg b)"

text \<open>
  Multiplication accumulates into a vector; \<open>None\<close> is an index out of range.  The inner loop
  adds one row, the carry loop continues into the limbs above it and may grow the vector.
\<close>

fun mul_row :: "u32 \<Rightarrow> u32 list \<Rightarrow> nat \<Rightarrow> u32 list \<Rightarrow> u64 \<Rightarrow> (u32 list \<times> u64) option" where
  "mul_row left [] index result carry = Some (result, carry)"
| "mul_row left (right # rights) index result carry = do {
     r \<leftarrow> vec_get result index;
     let value = (ucast r :: u64) + ucast left * ucast right + carry;
     mul_row left rights (index + 1) (result[index := ucast value]) (drop_bit 32 value)
   }"

function mul_carry :: "u32 list \<Rightarrow> nat \<Rightarrow> u64 \<Rightarrow> u32 list option" where
  "mul_carry result index carry =
     (if carry = 0 then Some result
      else let result1 = (if index = length result then result @ [0] else result)
           in case vec_get result1 index of
                None \<Rightarrow> None
              | Some r \<Rightarrow>
                  let value = (ucast r :: u64) + carry
                  in mul_carry (result1[index := ucast value]) (index + 1) (drop_bit 32 value))"
  by pat_completeness auto
termination
proof (relation "measures [\<lambda>(r, i, c). length r - i, \<lambda>(r, i, c). unat c]", goal_cases)
  case 1
  then show ?case by simp
next
  case (2 result index carry result1 r v)
  show ?case
  proof (cases "index = length result")
    case True
    with 2 have "v = carry" by (simp add: vec_get_def)
    moreover have "unat carry div 2 ^ 32 < unat carry"
      using 2(1) by (simp add: unat_gt_0 word_neq_0_conv)
    ultimately show ?thesis
      using True 2 by (simp add: unat_drop_bit_div)
  next
    case False
    with 2 show ?thesis by (auto simp: vec_get_def split: if_splits)
  qed
qed

declare mul_carry.simps [simp del]

fun mul_loop :: "u32 list \<Rightarrow> u32 list \<Rightarrow> nat \<Rightarrow> u32 list \<Rightarrow> u32 list option" where
  "mul_loop [] right left_index result = Some result"
| "mul_loop (l # left) right left_index result = do {
     (result1, carry) \<leftarrow> mul_row l right left_index result 0;
     result2 \<leftarrow> mul_carry result1 (left_index + length right) carry;
     mul_loop left right (left_index + 1) result2
   }"

definition bi_mul :: "big_int \<Rightarrow> big_int \<Rightarrow> big_int option" where
  "bi_mul a b =
     (if bi_is_zero a \<or> bi_is_zero b then Some bi_zero
      else do {
        result \<leftarrow> mul_loop (bi_limbs a) (bi_limbs b) 0
                   (replicate (length (bi_limbs a) + length (bi_limbs b)) 0);
        Some (normalized (bi_sign a * bi_sign b) result)
      })"

function pow_loop :: "big_int \<Rightarrow> nat \<Rightarrow> big_int \<Rightarrow> big_int option" where
  "pow_loop base exponent result =
     (if exponent = 0 then Some result
      else do {
        result1 \<leftarrow> (if exponent mod 2 = 1 then bi_mul result base else Some result);
        base1 \<leftarrow> (if exponent div 2 \<noteq> 0 then bi_mul base base else Some base);
        pow_loop base1 (exponent div 2) result1
      })"
  by pat_completeness auto
termination
  by (relation "measure (\<lambda>(b, e, r). e)") auto

declare pow_loop.simps [simp del]

definition bi_pow_u32 :: "big_int \<Rightarrow> u32 \<Rightarrow> big_int option" where
  "bi_pow_u32 b exponent = pow_loop b (unat exponent) bi_one"

fun shift_left_loop :: "nat \<Rightarrow> u32 list \<Rightarrow> u64 \<Rightarrow> u32 list \<times> u64" where
  "shift_left_loop bit_shift [] carry = ([], carry)"
| "shift_left_loop bit_shift (limb # limbs) carry =
     (let value = push_bit bit_shift (ucast limb :: u64) OR carry;
          (out, c) = shift_left_loop bit_shift limbs (drop_bit 32 value)
      in (ucast value # out, c))"

definition shift_left_bits :: "big_int \<Rightarrow> nat \<Rightarrow> big_int" where
  "shift_left_bits b bits =
     (if bi_is_zero b \<or> bits = 0 then b
      else let limb_shift = bits div 32; bit_shift = bits mod 32;
               (out, carry) = shift_left_loop bit_shift (bi_limbs b) 0;
               limbs = replicate limb_shift 0 @ out
           in normalized (bi_sign b) (if carry \<noteq> 0 then limbs @ [ucast carry] else limbs))"

text \<open>The loop runs over the limbs from the most significant one down and the result is reversed.\<close>

fun shift_right_loop :: "nat \<Rightarrow> u32 list \<Rightarrow> u32 \<Rightarrow> u32 list" where
  "shift_right_loop bit_shift [] carry = []"
| "shift_right_loop bit_shift (limb # limbs) carry =
     (drop_bit bit_shift limb OR carry)
       # shift_right_loop bit_shift limbs (push_bit (32 - bit_shift) limb)"

definition shift_right_abs_bits :: "big_int \<Rightarrow> nat \<Rightarrow> big_int" where
  "shift_right_abs_bits b bits =
     (if bi_is_zero b then bi_zero
      else let limb_shift = bits div 32 in
           if limb_shift \<ge> length (bi_limbs b) then bi_zero
           else let bit_shift = bits mod 32;
                    slice = drop limb_shift (bi_limbs b);
                    limbs = (if bit_shift = 0 then slice
                             else rev (shift_right_loop bit_shift (rev slice) 0))
                in normalized 1 limbs)"

definition shift_right_bits :: "big_int \<Rightarrow> nat \<Rightarrow> big_int" where
  "shift_right_bits b bits =
     (if bi_is_zero b \<or> bits = 0 then b
      else if bi_is_negative b
      then let round = bi_sub (shift_left_bits bi_one bits) bi_one
           in bi_neg (shift_right_abs_bits (bi_add (bi_abs b) round) bits)
      else shift_right_abs_bits b bits)"

definition bi_to_u32 :: "big_int \<Rightarrow> u32 option" where
  "bi_to_u32 b =
     (if bi_sign b < 0 \<or> length (bi_limbs b) > 1 then None
      else Some (case bi_limbs b of [] \<Rightarrow> 0 | w # _ \<Rightarrow> w))"

text \<open>
  \<open>usize\<close> has 64 bits.  \<open>checked_shl\<close> fails only when the shift amount reaches the width, which
  32 never does, and otherwise shifts high bits out; \<open>checked_add\<close> fails on overflow.
\<close>

definition checked_shl_usize :: "u64 \<Rightarrow> nat \<Rightarrow> u64 option" where
  "checked_shl_usize v n = (if n < 64 then Some (push_bit n v) else None)"

definition checked_add_usize :: "u64 \<Rightarrow> u64 \<Rightarrow> u64 option" where
  "checked_add_usize a b = (if unat a + unat b < 2 ^ 64 then Some (a + b) else None)"

fun to_usize_loop :: "u32 list \<Rightarrow> u64 \<Rightarrow> u64 option" where
  "to_usize_loop [] value = Some value"
| "to_usize_loop (limb # limbs) value = do {
     shifted \<leftarrow> checked_shl_usize value 32;
     sum \<leftarrow> checked_add_usize shifted (ucast limb);
     to_usize_loop limbs sum
   }"

definition bi_to_usize :: "big_int \<Rightarrow> u64 option" where
  "bi_to_usize b = (if bi_sign b < 0 then None else to_usize_loop (rev (bi_limbs b)) 0)"

definition shift_left_by_bigint :: "big_int \<Rightarrow> big_int \<Rightarrow> big_int option" where
  "shift_left_by_bigint b shift =
     (if bi_is_negative shift
      then do { count \<leftarrow> bi_to_usize (bi_neg shift); Some (shift_right_bits b (unat count)) }
      else do { count \<leftarrow> bi_to_usize shift; Some (shift_left_bits b (unat count)) })"

definition shift_right_by_bigint :: "big_int \<Rightarrow> big_int \<Rightarrow> big_int option" where
  "shift_right_by_bigint b shift =
     (if bi_is_negative shift
      then do { count \<leftarrow> bi_to_usize (bi_neg shift); Some (shift_left_bits b (unat count)) }
      else do { count \<leftarrow> bi_to_usize shift; Some (shift_right_bits b (unat count)) })"

fun mul_small_loop :: "u32 list \<Rightarrow> u32 \<Rightarrow> u64 \<Rightarrow> u32 list \<times> u64" where
  "mul_small_loop [] factor carry = ([], carry)"
| "mul_small_loop (limb # limbs) factor carry =
     (let value = (ucast limb :: u64) * ucast factor + carry;
          (out, c) = mul_small_loop limbs factor (drop_bit 32 value)
      in (ucast value # out, c))"

definition mul_small :: "big_int \<Rightarrow> u32 \<Rightarrow> big_int" where
  "mul_small b factor =
     (if bi_is_zero b \<or> factor = 0 then bi_zero
      else let (limbs, carry) = mul_small_loop (bi_limbs b) factor 0
           in normalized (bi_sign b) (if carry \<noteq> 0 then limbs @ [ucast carry] else limbs))"

definition add_small :: "big_int \<Rightarrow> u32 \<Rightarrow> big_int" where
  "add_small b addend = (if addend = 0 then b else bi_add b (normalized 1 [addend]))"

text \<open>A \<open>u64\<close> division by zero panics; the code only divides by ten.\<close>

fun div_rem_small_loop :: "u32 list \<Rightarrow> u32 \<Rightarrow> u64 \<Rightarrow> u32 list \<times> u64" where
  "div_rem_small_loop [] divisor remainder = ([], remainder)"
| "div_rem_small_loop (limb # limbs) divisor remainder =
     (let value = push_bit 32 remainder OR ucast limb;
          (out, r) = div_rem_small_loop limbs divisor (value mod ucast divisor)
      in (ucast (value div ucast divisor) # out, r))"

definition div_rem_small :: "big_int \<Rightarrow> u32 \<Rightarrow> (big_int \<times> u32) option" where
  "div_rem_small b divisor =
     (if divisor = 0 \<and> bi_limbs b \<noteq> [] then None
      else let (limbs, r) = div_rem_small_loop (rev (bi_limbs b)) divisor 0
           in Some (normalized 1 (rev limbs), ucast r))"

text \<open>
  \<open>char::to_digit\<close>: the digits 0 to 9 and the letters in either case.  Characters are bytes here;
  no character beyond ASCII is a digit of any radix.
\<close>

definition to_digit :: "nat \<Rightarrow> char \<Rightarrow> nat option" where
  "to_digit radix c =
     (let n = of_char c :: nat;
          d = (if 48 \<le> n \<and> n \<le> 57 then Some (n - 48)
               else if 97 \<le> n \<and> n \<le> 122 then Some (n - 87)
               else if 65 \<le> n \<and> n \<le> 90 then Some (n - 55) else None)
      in case d of None \<Rightarrow> None | Some v \<Rightarrow> if v < radix then Some v else None)"

datatype execution_error = ExpectedInt32

fun from_digits_loop ::
  "nat \<Rightarrow> string \<Rightarrow> big_int \<Rightarrow> bool \<Rightarrow> execution_error + (big_int \<times> bool)" where
  "from_digits_loop radix [] value saw_digit = Inr (value, saw_digit)"
| "from_digits_loop radix (c # cs) value saw_digit =
     (if c = CHR ''_'' then from_digits_loop radix cs value saw_digit
      else case to_digit radix c of
             None \<Rightarrow> Inl ExpectedInt32
           | Some digit \<Rightarrow>
               from_digits_loop radix cs
                 (add_small (mul_small value (of_nat radix)) (of_nat digit)) True)"

definition from_digits :: "nat \<Rightarrow> string \<Rightarrow> bool \<Rightarrow> execution_error + big_int" where
  "from_digits radix digits negative =
     (case from_digits_loop radix digits bi_zero False of
        Inl e \<Rightarrow> Inl e
      | Inr (value, saw_digit) \<Rightarrow>
          if \<not> saw_digit then Inl ExpectedInt32
          else if negative then Inr (bi_neg value) else Inr value)"

text \<open>The digits are pushed least significant first; \<open>None\<close> is a loop that never ends.\<close>

partial_function (option) decimal_loop :: "big_int \<Rightarrow> string \<Rightarrow> string option" where
  "decimal_loop value digits =
     (if bi_is_zero value then Some digits
      else do {
        (quot, remainder) \<leftarrow> div_rem_small value 10;
        let digit = (if unat remainder < 256 then unat remainder else 0);
        decimal_loop quot (digits @ [char_of (48 + digit)])
      })"

definition to_decimal_string :: "big_int \<Rightarrow> string option" where
  "to_decimal_string b =
     (if bi_is_zero b then Some ''0''
      else do {
        digits \<leftarrow> decimal_loop (bi_abs b) [];
        Some (rev (if bi_is_negative b then digits @ ''-'' else digits))
      })"

fun bit_width :: "nat \<Rightarrow> nat" where
  "bit_width n = (if n = 0 then 0 else Suc (bit_width (n div 2)))"

declare bit_width.simps [simp del]

text \<open>\<open>u32::leading_zeros\<close>.\<close>

definition leading_zeros :: "u32 \<Rightarrow> nat" where
  "leading_zeros w = 32 - bit_width (unat w)"

definition bi_bit_len :: "big_int \<Rightarrow> nat" where
  "bi_bit_len b =
     (if bi_limbs b = [] then 0
      else (length (bi_limbs b) - 1) * 32 + (32 - leading_zeros (last (bi_limbs b))))"

definition bi_bit :: "big_int \<Rightarrow> nat \<Rightarrow> bool" where
  "bi_bit b n =
     (let limb = n div 32; offset = n mod 32
      in limb < length (bi_limbs b) \<and> (bi_limbs b ! limb) AND push_bit offset 1 \<noteq> 0)"

definition bi_set_bit :: "big_int \<Rightarrow> nat \<Rightarrow> big_int" where
  "bi_set_bit b n =
     (let limb = n div 32; offset = n mod 32;
          limbs = (if length (bi_limbs b) \<le> limb
                   then bi_limbs b @ replicate (limb + 1 - length (bi_limbs b)) 0
                   else bi_limbs b)
      in \<lparr>bi_sign = (if bi_sign b = 0 then 1 else bi_sign b),
          bi_limbs = limbs[limb := (limbs ! limb) OR push_bit offset 1]\<rparr>)"

text \<open>The long division goes over the bits of the numerator from the highest one down.\<close>

fun div_rem_loop :: "big_int \<Rightarrow> big_int \<Rightarrow> nat \<Rightarrow> big_int \<Rightarrow> big_int \<Rightarrow> big_int \<times> big_int" where
  "div_rem_loop numerator denominator 0 quot remainder = (quot, remainder)"
| "div_rem_loop numerator denominator (Suc n) quot remainder =
     (let r1 = shift_left_bits remainder 1;
          r2 = (if bi_bit numerator n then add_small r1 1 else r1)
      in if cmp_abs r2 denominator \<noteq> Less
         then div_rem_loop numerator denominator n (bi_set_bit quot n) (sub_abs r2 denominator)
         else div_rem_loop numerator denominator n quot r2)"

definition div_rem_abs :: "big_int \<Rightarrow> big_int \<Rightarrow> big_int \<times> big_int" where
  "div_rem_abs numerator denominator =
     (if cmp_abs numerator denominator = Less then (bi_zero, numerator)
      else div_rem_loop numerator denominator (bi_bit_len numerator) bi_zero bi_zero)"

definition div_rem :: "big_int \<Rightarrow> big_int \<Rightarrow> (big_int \<times> big_int) option" where
  "div_rem a b =
     (if bi_is_zero b then None
      else let (quot, remainder) = div_rem_abs (bi_abs a) (bi_abs b)
           in Some (normalized (bi_sign a * bi_sign b) (bi_limbs quot),
                    normalized (bi_sign a) (bi_limbs remainder)))"

definition bi_div :: "big_int \<Rightarrow> big_int \<Rightarrow> big_int option" where
  "bi_div a b = map_option fst (div_rem a b)"

definition bi_rem :: "big_int \<Rightarrow> big_int \<Rightarrow> big_int option" where
  "bi_rem a b = map_option snd (div_rem a b)"

fun add_one_loop :: "u32 list \<Rightarrow> u64 \<Rightarrow> u32 list" where
  "add_one_loop [] carry = []"
| "add_one_loop (word # words) carry =
     (let value = (ucast word :: u64) + carry; carry1 = drop_bit 32 value
      in ucast value # (if carry1 = 0 then words else add_one_loop words carry1))"

definition add_one_to_words :: "u32 list \<Rightarrow> u32 list" where
  "add_one_to_words words = add_one_loop words 1"

text \<open>\<open>Vec::resize\<close> with zeroes: cut off or pad at the end.\<close>

definition resize0 :: "u32 list \<Rightarrow> nat \<Rightarrow> u32 list" where
  "resize0 xs n = take n xs @ replicate (n - length xs) 0"

definition to_twos_complement_words :: "big_int \<Rightarrow> nat \<Rightarrow> u32 list" where
  "to_twos_complement_words b len =
     (let words = resize0 (bi_limbs b) len
      in if bi_sign b \<ge> 0 then words else add_one_to_words (map (\<lambda>w. NOT w) words))"

definition from_twos_complement_words :: "u32 list \<Rightarrow> big_int" where
  "from_twos_complement_words words =
     (if words \<noteq> [] \<and> last words AND 0x80000000 \<noteq> 0
      then normalized (-1) (add_one_to_words (map (\<lambda>w. NOT w) words))
      else normalized 1 words)"

definition bi_bit_not :: "big_int \<Rightarrow> big_int" where
  "bi_bit_not b =
     (let len = max (length (bi_limbs b)) 1 + 1
      in from_twos_complement_words (map (\<lambda>w. NOT w) (to_twos_complement_words b len)))"

definition bitwise_with :: "(u32 \<Rightarrow> u32 \<Rightarrow> u32) \<Rightarrow> big_int \<Rightarrow> big_int \<Rightarrow> big_int" where
  "bitwise_with op a b =
     (let len = max (max (length (bi_limbs a)) (length (bi_limbs b))) 1 + 1;
          left = to_twos_complement_words a len;
          right = to_twos_complement_words b len
      in from_twos_complement_words (map2 op left right))"

subsection \<open>BigInt text\<close>

text \<open>
  Text is a list of characters below 256, read as code points.  \<open>str::trim\<close> strips the white
  space of that range; \<open>strip_prefix\<close> and \<open>strip_suffix\<close> are those of the standard library.
\<close>

definition is_whitespace :: "char \<Rightarrow> bool" where
  "is_whitespace c \<longleftrightarrow>
     (let n = of_char c :: nat in 9 \<le> n \<and> n \<le> 13 \<or> n = 32 \<or> n = 133 \<or> n = 160)"

definition str_trim :: "string \<Rightarrow> string" where
  "str_trim text = rev (dropWhile is_whitespace (rev (dropWhile is_whitespace text)))"

definition strip_suffix_char :: "char \<Rightarrow> string \<Rightarrow> string option" where
  "strip_suffix_char c text = (if text \<noteq> [] \<and> last text = c then Some (butlast text) else None)"

definition strip_prefix :: "string \<Rightarrow> string \<Rightarrow> string option" where
  "strip_prefix p text =
     (if take (length p) text = p then Some (drop (length p) text) else None)"

definition or_else :: "'a option \<Rightarrow> 'a option \<Rightarrow> 'a option" where
  "or_else a b = (case a of None \<Rightarrow> b | Some x \<Rightarrow> Some x)"

definition radix_and_digits :: "string \<Rightarrow> nat \<times> string" where
  "radix_and_digits text =
     (case or_else (strip_prefix ''0x'' text) (strip_prefix ''0X'' text) of
        Some rest \<Rightarrow> (16, rest)
      | None \<Rightarrow>
     (case or_else (strip_prefix ''0b'' text) (strip_prefix ''0B'' text) of
        Some rest \<Rightarrow> (2, rest)
      | None \<Rightarrow>
     (case or_else (strip_prefix ''0o'' text) (strip_prefix ''0O'' text) of
        Some rest \<Rightarrow> (8, rest)
      | None \<Rightarrow> (10, text))))"

definition parse_bigint_text :: "string \<Rightarrow> bool \<Rightarrow> execution_error + big_int" where
  "parse_bigint_text text allow_suffix =
     (let text = str_trim text in
      case (if allow_suffix then strip_suffix_char (CHR ''n'') text else Some text) of
        None \<Rightarrow> Inl ExpectedInt32
      | Some text \<Rightarrow>
          let negative = (text \<noteq> [] \<and> hd text = CHR ''-'');
              text = (if text \<noteq> [] \<and> (hd text = CHR ''+'' \<or> hd text = CHR ''-'')
                      then tl text else text);
              (radix, digits) = radix_and_digits text;
              digits = filter (\<lambda>c. c \<noteq> CHR ''_'') digits
          in if digits = [] then Inl ExpectedInt32
             else from_digits radix digits negative)"

definition parse_bigint_literal :: "string \<Rightarrow> execution_error + big_int" where
  "parse_bigint_literal text = parse_bigint_text text True"

definition parse_bigint_constructor_text :: "string \<Rightarrow> execution_error + big_int" where
  "parse_bigint_constructor_text text = parse_bigint_text (str_trim text) False"

definition string_to_bigint :: "string \<Rightarrow> big_int option" where
  "string_to_bigint text =
     (if str_trim text = [] then Some bi_zero
      else case parse_bigint_constructor_text text of Inl _ \<Rightarrow> None | Inr v \<Rightarrow> Some v)"

end
