(* ===== verification/Big_Int_Arith.thy ===== *)
theory Big_Int_Arith
  imports Big_Int
begin

text \<open>
  Correctness of the arithmetic of \<open>CoreBigIntValue\<close>: the limbs stand for a natural number in
  base \<open>2 ^ 32\<close>, a value with its sign for an integer, and every operation on values computes the
  operation of the integers and keeps the representation canonical.
\<close>

section \<open>The number a limb vector stands for\<close>

primrec lval :: "u32 list \<Rightarrow> nat" where
  "lval [] = 0"
| "lval (w # ws) = unat w + 4294967296 * lval ws"

definition bi_val :: "big_int \<Rightarrow> int" where
  "bi_val b = bi_sign b * int (lval (bi_limbs b))"

definition bi_wf :: "big_int \<Rightarrow> bool" where
  "bi_wf b \<longleftrightarrow>
     bi_sign b \<in> {-1, 0, 1} \<and> (bi_sign b = 0 \<longleftrightarrow> bi_limbs b = []) \<and>
     (bi_limbs b \<noteq> [] \<longrightarrow> last (bi_limbs b) \<noteq> 0)"

lemma lval_append: "lval (xs @ ys) = lval xs + 4294967296 ^ length xs * lval ys"
  by (induction xs) (simp_all add: algebra_simps)

lemma lval_less: "lval xs < 4294967296 ^ length xs"
proof (induction xs)
  case Nil
  then show ?case by simp
next
  case (Cons w ws)
  have "unat w < 4294967296" by simp
  moreover have "4294967296 * Suc (lval ws) \<le> 4294967296 * 4294967296 ^ length ws"
    using Cons by (intro mult_le_mono) simp_all
  ultimately have "unat w + 4294967296 * lval ws < 4294967296 * 4294967296 ^ length ws"
    unfolding mult_Suc_right by linarith
  then show ?case by simp
qed

lemma lval_snoc:
  "xs \<noteq> [] \<Longrightarrow> lval xs = lval (butlast xs) + 4294967296 ^ (length xs - 1) * unat (last xs)"
  using lval_append [of "butlast xs" "[last xs]"] by simp

lemma lval_replicate_0 [simp]: "lval (replicate n 0) = 0"
  by (induction n) simp_all

lemma lval_pop_zeros [simp]: "lval (pop_zeros xs) = lval xs"
proof (induction xs rule: pop_zeros.induct)
  case (1 xs)
  show ?case
  proof (cases "xs \<noteq> [] \<and> last xs = 0")
    case True
    then have "lval xs = lval (butlast xs)" by (simp add: lval_snoc)
    with True 1 show ?thesis by (subst pop_zeros.simps) simp
  next
    case False
    then show ?thesis by (subst pop_zeros.simps) auto
  qed
qed

lemma last_pop_zeros: "pop_zeros xs \<noteq> [] \<Longrightarrow> last (pop_zeros xs) \<noteq> 0"
proof (induction xs rule: pop_zeros.induct)
  case (1 xs)
  then show ?case by (cases "xs \<noteq> [] \<and> last xs = 0") (simp_all add: pop_zeros.simps [of xs])
qed

lemma lval_ge:
  assumes "xs \<noteq> []" and "last xs \<noteq> 0"
  shows "4294967296 ^ (length xs - 1) \<le> lval xs"
proof -
  have "0 < unat (last xs)" using assms(2) by (simp add: unat_gt_0)
  moreover note lval_snoc [OF assms(1)]
  ultimately show ?thesis by (cases "unat (last xs)") auto
qed

lemma lval_0_iff: "lval xs = 0 \<longleftrightarrow> set xs \<subseteq> {0}"
  by (induction xs) (auto simp: unat_eq_0)

lemma lval_pos: "xs \<noteq> [] \<Longrightarrow> last xs \<noteq> 0 \<Longrightarrow> 0 < lval xs"
  using lval_ge [of xs] by (metis gr0I le_zero_eq power_not_zero zero_neq_numeral)

subsection \<open>Canonical values\<close>

lemma normalized_wf [simp, intro]: "bi_wf (normalized s limbs)"
  using last_pop_zeros [of limbs] by (simp add: normalized_def bi_zero_def bi_wf_def Let_def)

lemma normalized_val [simp]:
  "bi_val (normalized s limbs) = (if s < 0 then - int (lval limbs) else int (lval limbs))"
proof -
  have "pop_zeros limbs = [] \<Longrightarrow> lval limbs = 0"
    using lval_pop_zeros [of limbs] by simp
  then show ?thesis by (simp add: normalized_def bi_zero_def bi_val_def Let_def)
qed

lemma bi_zero_wf [simp]: "bi_wf bi_zero" and bi_one_wf [simp]: "bi_wf bi_one"
  by (simp_all add: bi_wf_def bi_zero_def bi_one_def)

lemma bi_zero_limbs [simp]: "bi_limbs bi_zero = []"
  by (simp add: bi_zero_def)

lemma bi_zero_val [simp]: "bi_val bi_zero = 0" and bi_one_val [simp]: "bi_val bi_one = 1"
  by (simp_all add: bi_val_def bi_zero_def bi_one_def)

lemma sign_val:
  assumes "bi_wf b" shows "bi_sign b = sgn (bi_val b)"
  using assms lval_pos [of "bi_limbs b"] by (auto simp: bi_wf_def bi_val_def sgn_mult)

lemma lval_val: "bi_wf b \<Longrightarrow> int (lval (bi_limbs b)) = \<bar>bi_val b\<bar>"
  by (auto simp: bi_wf_def bi_val_def)

lemma nat_abs_val: "bi_wf b \<Longrightarrow> nat \<bar>bi_val b\<bar> = lval (bi_limbs b)"
  using lval_val [of b] by simp

lemma bi_is_zero_val: "bi_wf b \<Longrightarrow> bi_is_zero b \<longleftrightarrow> bi_val b = 0"
  by (simp add: bi_is_zero_def sign_val sgn_0_0)

lemma bi_is_negative_val: "bi_wf b \<Longrightarrow> bi_is_negative b \<longleftrightarrow> bi_val b < 0"
  by (simp add: bi_is_negative_def sign_val sgn_if)

lemma bi_abs_wf [simp]: "bi_wf b \<Longrightarrow> bi_wf (bi_abs b)"
  by (auto simp: bi_abs_def bi_wf_def bi_is_zero_def bi_zero_def)

lemma bi_abs_val [simp]: "bi_wf b \<Longrightarrow> bi_val (bi_abs b) = \<bar>bi_val b\<bar>"
  by (auto simp: bi_abs_def bi_is_zero_def bi_wf_def bi_zero_def bi_val_def)

lemma bi_neg_wf [simp]: "bi_wf b \<Longrightarrow> bi_wf (bi_neg b)"
  by (auto simp: bi_neg_def bi_wf_def bi_is_zero_def bi_zero_def)

lemma bi_neg_val [simp]: "bi_wf b \<Longrightarrow> bi_val (bi_neg b) = - bi_val b"
  by (auto simp: bi_neg_def bi_is_zero_def bi_wf_def bi_zero_def bi_val_def)

subsection \<open>Comparison\<close>

lemma iter_cmp_lval:
  "length as = length bs \<Longrightarrow> iter_cmp as bs = cmp_of (lval (rev as)) (lval (rev bs))"
proof (induction as bs rule: list_induct2)
  case Nil
  then show ?case by (simp add: cmp_of_def)
next
  case (Cons a as b bs)
  define m where "m = (4294967296 :: nat) ^ length bs"
  have bounds: "lval (rev as) < m" "lval (rev bs) < m"
    using lval_less [of "rev as"] lval_less [of "rev bs"] Cons.hyps by (simp_all add: m_def)
  have less: "lval x + m * unat u < lval y + m * unat v"
    if "lval x < m" and "u < v" for x y :: "u32 list" and u v :: u32
  proof -
    have "m * Suc (unat u) \<le> m * unat v"
      using that(2) by (intro mult_le_mono) (simp_all add: word_less_nat_alt)
    with that(1) show ?thesis by (simp add: algebra_simps)
  qed
  show ?case
    using Cons less [of "rev as" a b "rev bs"] less [of "rev bs" b a "rev as"] bounds
    by (cases a b rule: linorder_cases)
      (auto simp: cmp_of_def lval_append m_def [symmetric])
qed

lemma lval_less_length:
  assumes "length xs < length ys" and "ys \<noteq> [] \<longrightarrow> last ys \<noteq> 0"
  shows "lval xs < lval ys"
proof -
  have "lval xs < 4294967296 ^ length xs" by (rule lval_less)
  also have "\<dots> \<le> 4294967296 ^ (length ys - 1)"
    using assms(1) by (intro power_increasing) simp_all
  also have "\<dots> \<le> lval ys" using assms by (intro lval_ge) auto
  finally show ?thesis .
qed

lemma cmp_abs_val:
  assumes "bi_wf a" and "bi_wf b"
  shows "cmp_abs a b = cmp_of \<bar>bi_val a\<bar> \<bar>bi_val b\<bar>"
proof -
  have "cmp_abs a b = cmp_of (lval (bi_limbs a)) (lval (bi_limbs b))"
    using assms lval_less_length [of "bi_limbs a" "bi_limbs b"]
      lval_less_length [of "bi_limbs b" "bi_limbs a"]
      iter_cmp_lval [of "rev (bi_limbs a)" "rev (bi_limbs b)"]
    by (auto simp: cmp_abs_def cmp_of_def bi_wf_def)
  also have "\<dots> = cmp_of \<bar>bi_val a\<bar> \<bar>bi_val b\<bar>"
    by (simp add: cmp_of_def flip: lval_val [OF assms(1)] lval_val [OF assms(2)])
  finally show ?thesis .
qed

lemma bi_cmp_val:
  assumes "bi_wf a" and "bi_wf b"
  shows "bi_cmp a b = cmp_of (bi_val a) (bi_val b)"
  using assms by (auto simp: bi_cmp_def cmp_abs_val sign_val cmp_of_def sgn_if)

subsection \<open>Addition and subtraction\<close>

text \<open>The limbs \<open>i, \<dots>, i + n - 1\<close> of a vector that is padded with zeroes.\<close>

definition window :: "u32 list \<Rightarrow> nat \<Rightarrow> nat \<Rightarrow> u32 list" where
  "window xs i n = map (get_or_0 xs) [i..<i + n]"

lemma window_0 [simp]: "window xs i 0 = []"
  by (simp add: window_def)

lemma window_Suc [simp]: "window xs i (Suc n) = get_or_0 xs i # window xs (Suc i) n"
  by (simp add: window_def upt_conv_Cons del: upt_Suc)

lemma window_all:
  assumes "length xs \<le> n" shows "window xs 0 n = xs @ replicate (n - length xs) 0"
  by (rule nth_equalityI) (use assms in \<open>auto simp: window_def get_or_0_def nth_append\<close>)

lemma lval_window_all [simp]: "length xs \<le> n \<Longrightarrow> lval (window xs 0 n) = lval xs"
  by (simp add: window_all lval_append)

lemma unat_add3_u64:
  assumes "unat c \<le> 4294967295"
  shows "unat ((ucast (a :: u32) :: u64) + ucast (b :: u32) + c) = unat a + unat b + unat c"
proof -
  have "unat a < 4294967296" "unat b < 4294967296" by simp_all
  with assms show ?thesis by (simp add: unat_word_ariths del: unat_u32_less)
qed

lemma add_limbs_loop_val:
  assumes "add_limbs_loop left right i n carry = (limbs, c)" and "unat carry \<le> 1"
  shows "lval limbs + 4294967296 ^ n * unat c =
           lval (window left i n) + lval (window right i n) + unat carry \<and>
         length limbs = n \<and> unat c \<le> 1"
  using assms
proof (induction n arbitrary: i carry limbs c)
  case 0
  then show ?case by simp
next
  case (Suc n)
  define v where "v = (ucast (get_or_0 left i) :: u64) + ucast (get_or_0 right i) + carry"
  obtain ls where rest: "add_limbs_loop left right (Suc i) n (drop_bit 32 v) = (ls, c)"
    and limbs: "limbs = ucast v # ls"
    using Suc.prems(1) by (auto simp: v_def Let_def split: prod.splits)
  have v: "unat v = unat (get_or_0 left i) + unat (get_or_0 right i) + unat carry"
    using Suc.prems(2) by (simp add: v_def unat_add3_u64)
  have "unat (get_or_0 left i) < 4294967296" "unat (get_or_0 right i) < 4294967296"
    by simp_all
  with v Suc.prems(2) have "unat v < 2 * 4294967296" by linarith
  then have "unat (drop_bit 32 v) \<le> 1" by (simp add: unat_drop_bit_div)
  note IH = Suc.IH [OF rest this]
  have "lval limbs + 4294967296 ^ Suc n * unat c =
          unat (ucast v :: u32) + 4294967296 * (lval ls + 4294967296 ^ n * unat c)"
    by (simp add: limbs algebra_simps)
  also have "\<dots> = unat (ucast v :: u32) + 4294967296 * unat (drop_bit 32 v) +
      4294967296 * (lval (window left (Suc i) n) + lval (window right (Suc i) n))"
    using IH by (simp add: algebra_simps)
  also have "\<dots> = lval (window left i (Suc n)) + lval (window right i (Suc n)) + unat carry"
    unfolding lo_hi_u64 v by (simp add: algebra_simps)
  finally show ?case using IH limbs by simp
qed

text \<open>A final carry is pushed when it is not zero.\<close>

lemma lval_push_carry:
  assumes "unat (c :: u64) < 4294967296"
  shows "lval (if c \<noteq> 0 then limbs @ [ucast c] else limbs) =
           lval limbs + 4294967296 ^ length limbs * unat c"
  using assms by (simp add: lval_append unat_ucast_mod)

lemma add_abs_limbs_val: "lval (add_abs_limbs left right) = lval left + lval right"
proof -
  let ?n = "max (length left) (length right)"
  obtain limbs c where loop: "add_limbs_loop left right 0 ?n 0 = (limbs, c)" by fastforce
  from add_limbs_loop_val [OF this]
  have sum: "lval limbs + 4294967296 ^ length limbs * unat c = lval left + lval right"
    and "unat c \<le> 1" by simp_all
  then have "lval (if c \<noteq> 0 then limbs @ [ucast c] else limbs) = lval left + lval right"
    using lval_push_carry [of c limbs] by simp
  with loop show ?thesis by (simp add: add_abs_limbs_def)
qed

lemma sub_limbs_loop_val:
  assumes "borrow \<in> {0, 1}" and "int (lval (window right i (length left))) + borrow \<le> int (lval left)"
  shows "int (lval (sub_limbs_loop left right i borrow)) =
           int (lval left) - int (lval (window right i (length left))) - borrow"
  using assms
proof (induction left arbitrary: i borrow)
  case Nil
  then show ?case by simp
next
  case (Cons l left)
  define x y where "x = uint l" and "y = uint (get_or_0 right i)"
  define v where "v = x - y - borrow"
  define b where "b = (if v < 0 then 1 else 0 :: int)"
  have bounds: "0 \<le> x" "x < 4294967296" "0 \<le> y" "y < 4294967296"
    using uint_bounded [of l] uint_bounded [of "get_or_0 right i"] by (simp_all add: x_def y_def)
  have limb: "int (unat (word_of_int (v + 4294967296 * b) :: u32)) = v + 4294967296 * b"
  proof -
    have "0 \<le> v + 4294967296 * b" "v + 4294967296 * b < 4294967296"
      using Cons.prems(1) bounds by (auto simp: v_def b_def)
    then show ?thesis by (rule int_unat_of_int_u32)
  qed
  have loop: "sub_limbs_loop (l # left) right i borrow =
      word_of_int (v + 4294967296 * b) # sub_limbs_loop left right (Suc i) b"
    by (simp add: v_def b_def x_def y_def Let_def)
  have "int (lval (window right (Suc i) (length left))) + b \<le> int (lval left)"
    using Cons.prems bounds by (auto simp: v_def b_def x_def [symmetric] y_def [symmetric])
  then have IH: "int (lval (sub_limbs_loop left right (Suc i) b)) =
      int (lval left) - int (lval (window right (Suc i) (length left))) - b"
    by (intro Cons.IH) (simp_all add: b_def)
  show ?case
    unfolding loop lval.simps of_nat_add of_nat_mult limb IH
    by (simp add: v_def x_def y_def algebra_simps)
qed

lemma window_prefix:
  "n \<le> length xs \<Longrightarrow> window xs 0 n = take n xs"
  by (rule nth_equalityI) (auto simp: window_def get_or_0_def)

lemma lval_take_le: "lval (take n xs) \<le> lval xs"
  using lval_append [of "take n xs" "drop n xs"] by simp

lemma lval_take_eq:
  assumes "lval xs < 4294967296 ^ n" shows "lval (take n xs) = lval xs"
proof (cases "n \<le> length xs")
  case True
  have eq: "lval xs = lval (take n xs) + 4294967296 ^ n * lval (drop n xs)"
    using lval_append [of "take n xs" "drop n xs"] True by simp
  have "lval (drop n xs) = 0"
  proof (rule ccontr)
    assume "lval (drop n xs) \<noteq> 0"
    then have "4294967296 ^ n * 1 \<le> (4294967296 ^ n * lval (drop n xs) :: nat)"
      by (intro mult_le_mono) simp_all
    with eq assms show False by simp
  qed
  with eq show ?thesis by simp
qed simp

lemma lval_window_eq:
  assumes "lval xs < 4294967296 ^ n" shows "lval (window xs 0 n) = lval xs"
proof (cases "length xs \<le> n")
  case False
  with assms lval_take_eq show ?thesis by (simp add: window_prefix)
qed simp

lemma sub_abs_limbs_val:
  assumes "lval right \<le> lval left"
  shows "lval (sub_abs_limbs left right) = lval left - lval right"
proof -
  have "lval right < 4294967296 ^ length left" using assms lval_less [of left] by simp
  with sub_limbs_loop_val [of 0 right 0 left] assms show ?thesis
    by (simp add: sub_abs_limbs_def lval_window_eq)
qed

lemma bi_add_wf [simp]: "bi_wf a \<Longrightarrow> bi_wf b \<Longrightarrow> bi_wf (bi_add a b)"
  by (auto simp: bi_add_def split: ordering.split)

lemma bi_add_val [simp]:
  assumes "bi_wf a" and "bi_wf b"
  shows "bi_val (bi_add a b) = bi_val a + bi_val b"
proof -
  have abs: "int (lval (bi_limbs a)) = \<bar>bi_val a\<bar>" "int (lval (bi_limbs b)) = \<bar>bi_val b\<bar>"
    using assms by (simp_all add: lval_val)
  have sub: "int (lval (sub_abs_limbs x y)) = int (lval x) - int (lval y)"
    if "int (lval y) \<le> int (lval x)" for x y
    using that by (simp add: sub_abs_limbs_val of_nat_diff)
  show ?thesis
    using assms abs
    by (auto simp: bi_add_def sign_val cmp_abs_val cmp_of_def add_abs_limbs_val sub sgn_if
        split: if_splits)
qed

lemma bi_sub_wf [simp]: "bi_wf a \<Longrightarrow> bi_wf b \<Longrightarrow> bi_wf (bi_sub a b)"
  by (simp add: bi_sub_def)

lemma bi_sub_val [simp]: "bi_wf a \<Longrightarrow> bi_wf b \<Longrightarrow> bi_val (bi_sub a b) = bi_val a - bi_val b"
  by (simp add: bi_sub_def)

lemma sub_abs_wf [simp]: "bi_wf (sub_abs a b)"
  by (simp add: sub_abs_def)

lemma sub_abs_val:
  assumes "bi_wf a" and "bi_wf b" and "\<bar>bi_val b\<bar> \<le> \<bar>bi_val a\<bar>"
  shows "bi_val (sub_abs a b) = \<bar>bi_val a\<bar> - \<bar>bi_val b\<bar>"
proof -
  have "lval (bi_limbs b) \<le> lval (bi_limbs a)"
    using assms by (simp flip: lval_val [OF assms(1)] lval_val [OF assms(2)])
  then show ?thesis
    by (simp add: sub_abs_def sub_abs_limbs_val of_nat_diff
        flip: lval_val [OF assms(1)] lval_val [OF assms(2)])
qed

subsection \<open>Multiplication and powers\<close>

lemma lval_update:
  "i < length xs \<Longrightarrow>
     lval (xs[i := w]) + 4294967296 ^ i * unat (xs ! i) = lval xs + 4294967296 ^ i * unat w"
proof (induction xs arbitrary: i)
  case Nil
  then show ?case by simp
next
  case (Cons x xs)
  show ?case
  proof (cases i)
    case (Suc j)
    have "lval ((x # xs)[i := w]) + 4294967296 ^ i * unat ((x # xs) ! i) =
        unat x + 4294967296 * (lval (xs[j := w]) + 4294967296 ^ j * unat (xs ! j))"
      using Suc by (simp add: algebra_simps)
    also have "\<dots> = unat x + 4294967296 * (lval xs + 4294967296 ^ j * unat w)"
      using Cons Suc by simp
    finally show ?thesis using Suc by (simp add: algebra_simps)
  qed simp
qed

lemma mult_add_bound:
  assumes "a < (4294967296::nat)" "b < 4294967296" "c < 4294967296" "d < 4294967296"
  shows "a + b * c + d < 18446744073709551616"
proof -
  have "b * c \<le> 4294967295 * 4294967295" using assms by (intro mult_le_mono) simp_all
  with assms show ?thesis by simp
qed

lemma unat_mul_step:
  assumes "unat carry < 4294967296"
  shows "unat ((ucast (r :: u32) :: u64) + ucast (l :: u32) * ucast (x :: u32) + carry) =
           unat r + unat l * unat x + unat carry"
proof -
  have "unat r + unat l * unat x + unat carry < 18446744073709551616"
    using assms by (intro mult_add_bound) simp_all
  then show ?thesis by (simp add: unat_word_ariths)
qed

text \<open>Replacing a limb by the low half of a 64-bit sum keeps the number once the high half is
  carried into the next limb.\<close>

lemma lval_put:
  assumes "index < length result" and "unat (v :: u64) = unat (result ! index) + s"
  shows "lval (result[index := ucast v]) + 4294967296 ^ Suc index * unat (drop_bit 32 v) =
           lval result + 4294967296 ^ index * s"
proof -
  have "lval (result[index := ucast v]) + 4294967296 ^ index * unat (result ! index) =
      lval result + 4294967296 ^ index * unat (ucast v :: u32)"
    by (rule lval_update [OF assms(1)])
  moreover have "4294967296 ^ index * (unat (ucast v :: u32) + 4294967296 * unat (drop_bit 32 v)) =
      4294967296 ^ index * (unat (result ! index) + s)"
    unfolding lo_hi_u64 assms(2) ..
  ultimately show ?thesis by (simp add: algebra_simps)
qed

lemma mul_row_val:
  assumes "index + length rights \<le> length result" and "unat carry < 4294967296"
  shows "\<exists>result' c. mul_row l rights index result carry = Some (result', c) \<and>
           length result' = length result \<and> unat c < 4294967296 \<and>
           lval result' + 4294967296 ^ (index + length rights) * unat c =
             lval result + 4294967296 ^ index * (unat l * lval rights + unat carry)"
  using assms
proof (induction rights arbitrary: index result carry)
  case Nil
  then show ?case by simp
next
  case (Cons x rights)
  define v where "v = (ucast (result ! index) :: u64) + ucast l * ucast x + carry"
  have "unat v = unat (result ! index) + (unat l * unat x + unat carry)"
    unfolding v_def using Cons.prems(2) by (simp add: unat_mul_step)
  then have put: "lval (result[index := ucast v]) + 4294967296 ^ Suc index * unat (drop_bit 32 v) =
      lval result + 4294967296 ^ index * (unat l * unat x + unat carry)"
    using Cons.prems(1) by (intro lval_put) simp_all
  obtain result' c where
    row: "mul_row l rights (index + 1) (result[index := ucast v]) (drop_bit 32 v) = Some (result', c)"
    and *: "length result' = length result" "unat c < 4294967296"
      "lval result' + 4294967296 ^ (index + 1 + length rights) * unat c =
         lval (result[index := ucast v]) +
         4294967296 ^ (index + 1) * (unat l * lval rights + unat (drop_bit 32 v))"
    using Cons.IH [of "index + 1" "result[index := ucast v]" "drop_bit 32 v"] Cons.prems hi_u64_less
    by auto
  have "mul_row l (x # rights) index result carry = Some (result', c)"
    using row Cons.prems(1) by (simp add: vec_get_in v_def)
  moreover have "lval result' + 4294967296 ^ (index + length (x # rights)) * unat c =
      lval result + 4294967296 ^ index * (unat l * lval (x # rights) + unat carry)"
    using *(3) put by (simp add: algebra_simps)
  ultimately show ?case using * by blast
qed

lemma mul_carry_val:
  assumes "index \<le> length result" and "unat carry < 4294967296"
  shows "\<exists>result'. mul_carry result index carry = Some result' \<and>
           length result \<le> length result' \<and>
           lval result' = lval result + 4294967296 ^ index * unat carry"
  using assms
proof (induction result index carry rule: mul_carry.induct)
  case (1 result index carry)
  show ?case
  proof (cases "carry = 0")
    case True
    then show ?thesis by (simp add: mul_carry.simps)
  next
    case False
    define result1 where "result1 = (if index = length result then result @ [0] else result)"
    define v where "v = (ucast (result1 ! index) :: u64) + carry"
    have len: "index < length result1" "length result \<le> length result1"
      and val: "lval result1 = lval result"
      using "1.prems"(1) by (auto simp: result1_def lval_append)
    have "unat (result1 ! index) < 4294967296" by simp
    with "1.prems"(2) have "unat v = unat (result1 ! index) + unat carry"
      by (simp add: v_def unat_word_ariths del: unat_u32_less)
    with len have put: "lval (result1[index := ucast v]) +
        4294967296 ^ Suc index * unat (drop_bit 32 v) = lval result + 4294967296 ^ index * unat carry"
      unfolding val [symmetric] by (intro lval_put)
    have "\<exists>result'. mul_carry (result1[index := ucast v]) (index + 1) (drop_bit 32 v) = Some result' \<and>
        length result1 \<le> length result' \<and>
        lval result' = lval (result1[index := ucast v]) + 4294967296 ^ (index + 1) * unat (drop_bit 32 v)"
      using "1.IH" [OF False result1_def vec_get_in [OF len(1)] v_def] len(1) hi_u64_less by simp
    then show ?thesis
      using put len False by (subst mul_carry.simps)
        (auto simp: result1_def [symmetric] vec_get_in v_def [symmetric] Let_def)
  qed
qed

lemma mul_loop_val:
  assumes "left_index + length left + length right \<le> length result"
  shows "\<exists>result'. mul_loop left right left_index result = Some result' \<and>
           lval result' = lval result + 4294967296 ^ left_index * (lval left * lval right)"
  using assms
proof (induction left arbitrary: left_index result)
  case Nil
  then show ?case by simp
next
  case (Cons l left)
  have "left_index + length right \<le> length result" using Cons.prems by simp
  from mul_row_val [OF this, of 0 l] obtain r1 c where
    row: "mul_row l right left_index result 0 = Some (r1, c)" "length r1 = length result"
      "unat c < 4294967296"
      "lval r1 + 4294967296 ^ (left_index + length right) * unat c =
         lval result + 4294967296 ^ left_index * (unat l * lval right)"
    by auto
  have "left_index + length right \<le> length r1" using Cons.prems row(2) by simp
  from mul_carry_val [OF this row(3)] obtain r2 where
    carry: "mul_carry r1 (left_index + length right) c = Some r2" "length r1 \<le> length r2"
      "lval r2 = lval r1 + 4294967296 ^ (left_index + length right) * unat c"
    by auto
  obtain r3 where "mul_loop left right (left_index + 1) r2 = Some r3"
      "lval r3 = lval r2 + 4294967296 ^ (left_index + 1) * (lval left * lval right)"
    using Cons.IH [of "left_index + 1" r2] Cons.prems row(2) carry(2) by auto
  then show ?case using row carry by (simp add: algebra_simps)
qed

lemma bi_mul_val:
  assumes "bi_wf a" and "bi_wf b"
  shows "\<exists>c. bi_mul a b = Some c \<and> bi_wf c \<and> bi_val c = bi_val a * bi_val b"
proof (cases "bi_is_zero a \<or> bi_is_zero b")
  case True
  then show ?thesis using assms by (auto simp: bi_mul_def bi_is_zero_val)
next
  case False
  obtain result where loop: "mul_loop (bi_limbs a) (bi_limbs b) 0
      (replicate (length (bi_limbs a) + length (bi_limbs b)) 0) = Some result"
    and val: "lval result = lval (bi_limbs a) * lval (bi_limbs b)"
    using mul_loop_val [of 0 "bi_limbs a" "bi_limbs b"
        "replicate (length (bi_limbs a) + length (bi_limbs b)) 0"] by auto
  have "int (lval result) = \<bar>bi_val a\<bar> * \<bar>bi_val b\<bar>"
    using val assms by (simp add: lval_val)
  then show ?thesis
    using loop False assms
    by (auto simp: bi_mul_def bi_is_zero_val sign_val sgn_if mult_less_0_iff abs_if)
qed

lemma pow_loop_val:
  "bi_wf base \<Longrightarrow> bi_wf result \<Longrightarrow>
     \<exists>c. pow_loop base exponent result = Some c \<and> bi_wf c \<and>
         bi_val c = bi_val result * bi_val base ^ exponent"
proof (induction base exponent result rule: pow_loop.induct)
  case (1 base exponent result)
  show ?case
  proof (cases "exponent = 0")
    case True
    with "1.prems" show ?thesis by (simp add: pow_loop.simps)
  next
    case False
    let ?step = "if exponent mod 2 = 1 then bi_mul result base else Some result"
    let ?square = "if exponent div 2 \<noteq> 0 then bi_mul base base else Some base"
    obtain r where r: "?step = Some r" "bi_wf r"
        "bi_val r = bi_val result * bi_val base ^ (exponent mod 2)"
      using bi_mul_val [of result base] "1.prems" by (cases "exponent mod 2 = 1") auto
    obtain s where s: "?square = Some s" "bi_wf s" "exponent div 2 = 0 \<or> bi_val s = (bi_val base)\<^sup>2"
      using bi_mul_val [of base base] "1.prems"
      by (cases "exponent div 2 = 0") (auto simp: power2_eq_square)
    obtain c where c: "pow_loop s (exponent div 2) r = Some c" "bi_wf c"
        "bi_val c = bi_val r * bi_val s ^ (exponent div 2)"
      using "1.IH" [OF False r(1) s(1) s(2) r(2)] by blast
    have "bi_val s ^ (exponent div 2) = bi_val base ^ (2 * (exponent div 2))"
      using s(3) by (auto simp: power_mult)
    then have "bi_val c = bi_val result * bi_val base ^ (exponent mod 2 + 2 * (exponent div 2))"
      unfolding power_add using c(3) r(3) by (simp only: mult.assoc)
    then have "bi_val c = bi_val result * bi_val base ^ exponent" by simp
    moreover have "pow_loop base exponent result = Some c"
      using False r(1) s(1) c(1) by (subst pow_loop.simps) simp
    ultimately show ?thesis using c(2) by blast
  qed
qed

end
