(* ===== verification/Big_Int_Ops.thy ===== *)
theory Big_Int_Ops
  imports Big_Int_Arith "HOL-Library.Signed_Division"
begin

text \<open>
  Shifts, division, conversion to and from text and machine words, and the bitwise operations of
  \<open>CoreBigIntValue\<close>, each against the operation of the integers it implements.
\<close>

section \<open>Shifts\<close>

lemma unat_push_u32_u64:
  assumes "s \<le> 32" shows "unat (push_bit s (ucast (w :: u32) :: u64)) = unat w * 2 ^ s"
proof -
  have "(2 :: nat) ^ s \<le> 2 ^ 32" using assms by (rule power_increasing) simp
  then have "unat w * 2 ^ s < 2 ^ 32 * 2 ^ 32" by (intro mult_less_le_imp_less) simp_all
  then show ?thesis
    by (simp add: unsigned_push_bit_eq push_bit_nat_def take_bit_nat_eq_self)
qed

lemma unat_shift_step:
  assumes "s \<le> 32" and "unat (c :: u64) < 2 ^ s"
  shows "unat (push_bit s (ucast (w :: u32)) OR c) = unat w * 2 ^ s + unat c"
proof -
  have "unat w * 2 ^ s + unat c < 4294967296 * 2 ^ s"
    using assms(2) by (intro mult_plus_less) simp_all
  also have "\<dots> \<le> 4294967296 * 2 ^ 32"
    using assms(1) by (intro mult_le_mono power_increasing) simp_all
  finally have "unat w * 2 ^ s + unat c < 2 ^ 64" by simp
  then show ?thesis
    using assms by (simp add: push_or_eq_add unat_word_ariths unat_push_u32_u64)
qed

lemma shift_left_loop_val:
  assumes "shift_left_loop s limbs carry = (out, c)" and "s < 32" and "unat carry < 2 ^ s"
  shows "lval out + 4294967296 ^ length limbs * unat c = lval limbs * 2 ^ s + unat carry \<and>
         length out = length limbs \<and> unat c < 2 ^ s"
  using assms
proof (induction limbs arbitrary: carry out c)
  case Nil
  then show ?case by simp
next
  case (Cons w ws)
  define v where "v = push_bit s (ucast w :: u64) OR carry"
  obtain out' where rest: "shift_left_loop s ws (drop_bit 32 v) = (out', c)"
    and out: "out = ucast v # out'"
    using Cons.prems(1) by (auto simp: v_def Let_def split: prod.splits)
  have v: "unat v = unat w * 2 ^ s + unat carry"
    using Cons.prems by (simp add: v_def unat_shift_step)
  have "unat v < 4294967296 * 2 ^ s"
    unfolding v using Cons.prems(3) by (intro mult_plus_less) simp_all
  then have "unat (drop_bit 32 v) < 2 ^ s"
    by (simp add: unat_drop_bit_div less_mult_imp_div_less mult.commute)
  note IH = Cons.IH [OF rest Cons.prems(2) this]
  have "lval out + 4294967296 ^ length (w # ws) * unat c =
      unat (ucast v :: u32) + 4294967296 * (lval out' + 4294967296 ^ length ws * unat c)"
    by (simp add: out algebra_simps)
  also have "\<dots> = unat (ucast v :: u32) + 4294967296 * unat (drop_bit 32 v) +
      4294967296 * (lval ws * 2 ^ s)"
    using IH by (simp add: algebra_simps)
  also have "\<dots> = lval (w # ws) * 2 ^ s + unat carry"
    unfolding lo_hi_u64 v by (simp add: algebra_simps)
  finally show ?case using IH out by simp
qed

lemma base_pow: "(4294967296 :: nat) ^ n = 2 ^ (32 * n)"
  by (simp add: power_mult)

lemma shift_left_bits_wf [simp]: "bi_wf b \<Longrightarrow> bi_wf (shift_left_bits b n)"
  by (simp add: shift_left_bits_def Let_def split: prod.split)

lemma shift_left_bits_val [simp]:
  assumes "bi_wf b" shows "bi_val (shift_left_bits b n) = bi_val b * 2 ^ n"
proof (cases "bi_is_zero b \<or> n = 0")
  case True
  then show ?thesis using assms by (auto simp: shift_left_bits_def bi_is_zero_val)
next
  case False
  obtain out c where loop: "shift_left_loop (n mod 32) (bi_limbs b) 0 = (out, c)" by fastforce
  have loop_val: "lval out + 4294967296 ^ length out * unat c = lval (bi_limbs b) * 2 ^ (n mod 32)"
    and "unat c < 2 ^ (n mod 32)"
    using shift_left_loop_val [OF loop] by simp_all
  have "(2 :: nat) ^ (n mod 32) \<le> 2 ^ 32" by (rule power_increasing) simp_all
  with \<open>unat c < 2 ^ (n mod 32)\<close> have "unat c < 4294967296" by simp
  define limbs where "limbs = replicate (n div 32) (0 :: u32) @ out"
  have "lval (if c \<noteq> 0 then limbs @ [ucast c] else limbs) =
      4294967296 ^ (n div 32) * (lval out + 4294967296 ^ length out * unat c)"
    unfolding lval_push_carry [OF \<open>unat c < 4294967296\<close>]
    by (simp add: limbs_def lval_append power_add algebra_simps)
  also have "\<dots> = lval (bi_limbs b) * 2 ^ (32 * (n div 32) + n mod 32)"
    by (subst loop_val) (simp only: base_pow power_add mult_ac)
  finally have "int (lval (if c \<noteq> 0 then limbs @ [ucast c] else limbs)) = \<bar>bi_val b\<bar> * 2 ^ n"
    using assms by (simp add: lval_val)
  moreover have "shift_left_bits b n =
      normalized (bi_sign b) (if c \<noteq> 0 then limbs @ [ucast c] else limbs)"
    using False loop by (simp add: shift_left_bits_def limbs_def Let_def)
  ultimately show ?thesis using assms by (simp only: normalized_val) (simp add: sign_val sgn_if)
qed

lemma lval_drop: "lval (drop k xs) = lval xs div 4294967296 ^ k"
proof (induction xs arbitrary: k)
  case Nil
  then show ?case by simp
next
  case (Cons w ws)
  show ?case
  proof (cases k)
    case (Suc j)
    have "(unat w + 4294967296 * lval ws) div 4294967296 = lval ws" by simp
    then show ?thesis using Suc Cons by (simp add: div_mult2_eq)
  qed simp
qed

lemma unat_push_lo:
  assumes "s \<le> 32"
  shows "unat (push_bit (32 - s) (p :: u32)) = (unat p mod 2 ^ s) * 2 ^ (32 - s)"
proof -
  have "(2 :: nat) ^ 32 = 2 ^ s * 2 ^ (32 - s)"
    using assms by (simp flip: power_add)
  then show ?thesis
    by (simp add: unsigned_push_bit_eq push_bit_nat_def take_bit_eq_mod mult_mod_left)
qed

lemma unat_shift_right_step:
  assumes "s \<le> 32"
  shows "unat (drop_bit s (x :: u32) OR push_bit (32 - s) p) =
           unat x div 2 ^ s + (unat p mod 2 ^ s) * 2 ^ (32 - s)"
proof -
  have pow: "(2 :: nat) ^ 32 = 2 ^ s * 2 ^ (32 - s)" using assms by (simp flip: power_add)
  have lo: "unat (drop_bit s x) < 2 ^ (32 - s)"
  proof -
    have "unat x < 2 ^ (32 - s) * 2 ^ s" using pow unat_u32_less [of x] by (simp add: mult.commute)
    then show ?thesis by (simp add: unat_drop_bit_div less_mult_imp_div_less)
  qed
  have "Suc (unat p mod 2 ^ s) * 2 ^ (32 - s) \<le> 2 ^ s * 2 ^ (32 - s)"
    by (intro mult_le_mono) (simp_all add: Suc_leI)
  with lo pow have "unat (drop_bit s x) + (unat p mod 2 ^ s) * 2 ^ (32 - s) < 2 ^ 32" by simp
  then have "unat (push_bit (32 - s) p + drop_bit s x) =
      unat x div 2 ^ s + (unat p mod 2 ^ s) * 2 ^ (32 - s)"
    by (subst unat_add_no_overflow) (simp_all add: assms unat_push_lo unat_drop_bit_div)
  then show ?thesis
    unfolding push_or_eq_add [OF lo, symmetric] by (subst or.commute)
qed

lemma shift_right_loop_val:
  assumes "0 < s" and "s < 32"
  shows "lval (rev (shift_right_loop s xs (push_bit (32 - s) p))) =
           (lval (rev xs) + 4294967296 ^ length xs * (unat p mod 2 ^ s)) div 2 ^ s"
    and "length (shift_right_loop s xs c) = length xs"
proof (induction xs arbitrary: p c)
  case Nil
  {
    case 1
    then show ?case by simp
  next
    case 2
    then show ?case by simp
  }
next
  case (Cons x xs)
  {
    case 1
    define m where "m = (4294967296 :: nat) ^ length xs"
    define u where "u = unat x div 2 ^ s + (unat p mod 2 ^ s) * 2 ^ (32 - s)"
    have "(2 :: nat) ^ 32 = 2 ^ s * 2 ^ (32 - s)" using assms by (simp flip: power_add)
    then have "2 ^ s * u + unat x mod 2 ^ s = unat x + 4294967296 * (unat p mod 2 ^ s)"
      by (simp add: u_def algebra_simps)
    then have "lval (rev xs) + m * unat x + m * 4294967296 * (unat p mod 2 ^ s) =
        lval (rev xs) + m * (2 ^ s * u + unat x mod 2 ^ s)"
      by (simp add: algebra_simps)
    also have "\<dots> div 2 ^ s = (lval (rev xs) + m * (unat x mod 2 ^ s)) div 2 ^ s + m * u"
      by (simp add: algebra_simps flip: div_mult_self4)
    finally show ?case
      using Cons.IH assms
      by (simp add: lval_append m_def u_def unat_shift_right_step algebra_simps)
  next
    case 2
    then show ?case using Cons.IH(2) by simp
  }
qed

lemma shift_right_abs_bits_wf [simp]: "bi_wf (shift_right_abs_bits b n)"
  by (simp add: shift_right_abs_bits_def Let_def)

lemma shift_right_abs_bits_val:
  assumes "bi_wf b" shows "bi_val (shift_right_abs_bits b n) = \<bar>bi_val b\<bar> div 2 ^ n"
proof -
  let ?k = "n div 32" and ?s = "n mod 32" and ?l = "lval (bi_limbs b)"
  let ?slice = "drop ?k (bi_limbs b)"
  have pow: "(2 :: nat) ^ n = 4294967296 ^ ?k * 2 ^ ?s"
    unfolding base_pow power_add [symmetric] by simp
  have zero: "?l div 2 ^ n = 0" if "length (bi_limbs b) \<le> ?k"
  proof -
    have "?l < 4294967296 ^ length (bi_limbs b)" by (rule lval_less)
    also have "\<dots> \<le> 4294967296 ^ ?k" using that by (intro power_increasing) simp_all
    finally show ?thesis unfolding pow div_mult2_eq by simp
  qed
  have loop: "lval (rev (shift_right_loop ?s (rev ?slice) 0)) = lval ?slice div 2 ^ ?s" if "?s \<noteq> 0"
    using shift_right_loop_val(1) [of ?s "rev ?slice" 0] that by simp
  have "bi_val (shift_right_abs_bits b n) = int (?l div 2 ^ n)"
    using assms zero loop
    by (auto simp: shift_right_abs_bits_def Let_def lval_drop pow div_mult2_eq bi_is_zero_def
        bi_wf_def)
  also have "\<dots> = \<bar>bi_val b\<bar> div 2 ^ n" using assms by (simp add: zdiv_int lval_val)
  finally show ?thesis .
qed

lemma shift_right_bits_wf [simp]: "bi_wf b \<Longrightarrow> bi_wf (shift_right_bits b n)"
  by (simp add: shift_right_bits_def Let_def)

text \<open>Rounding the magnitude up before the division and negating is rounding down.\<close>

lemma neg_ceiling_div:
  fixes x d :: int
  assumes "0 < d" shows "- ((x + (d - 1)) div d) = (- x) div d"
proof -
  have "x + (d - 1) = d * (- ((- x) div d)) + (d - 1 - (- x) mod d)"
    using mult_div_mod_eq [of d "- x"] unfolding mult_minus_right by linarith
  moreover have "0 \<le> d - 1 - (- x) mod d" "d - 1 - (- x) mod d < d"
    using assms pos_mod_bound [of d "- x"] pos_mod_sign [of d "- x"] by linarith+
  ultimately have "(x + (d - 1)) div d = - ((- x) div d)" by (rule int_div_pos_eq)
  then show ?thesis by simp
qed

lemma shift_right_bits_val [simp]:
  assumes "bi_wf b" shows "bi_val (shift_right_bits b n) = bi_val b div 2 ^ n"
proof (cases "bi_is_zero b \<or> n = 0")
  case True
  then show ?thesis using assms by (auto simp: shift_right_bits_def bi_is_zero_val)
next
  case False
  have "\<bar>- bi_val b + (2 ^ n - 1)\<bar> = - bi_val b + (2 ^ n - 1)" if "bi_val b < 0"
  proof -
    have "(1 :: int) \<le> 2 ^ n" by simp
    with that show ?thesis by linarith
  qed
  with False assms show ?thesis
    using neg_ceiling_div [of "2 ^ n" "- bi_val b"]
    by (auto simp: shift_right_bits_def Let_def bi_is_negative_val shift_right_abs_bits_val)
qed

section \<open>Arithmetic with one limb\<close>

lemma mul_small_loop_val:
  assumes "mul_small_loop limbs factor carry = (out, c)" and "unat carry < 4294967296"
  shows "lval out + 4294967296 ^ length limbs * unat c = lval limbs * unat factor + unat carry \<and>
         length out = length limbs \<and> unat c < 4294967296"
  using assms
proof (induction limbs arbitrary: carry out c)
  case Nil
  then show ?case by simp
next
  case (Cons w ws)
  define v where "v = (ucast w :: u64) * ucast factor + carry"
  obtain out' where rest: "mul_small_loop ws factor (drop_bit 32 v) = (out', c)"
    and out: "out = ucast v # out'"
    using Cons.prems(1) by (auto simp: v_def Let_def split: prod.splits)
  have v: "unat v = unat w * unat factor + unat carry"
    using unat_mul_step [OF Cons.prems(2), of 0 w factor] by (simp add: v_def)
  note IH = Cons.IH [OF rest hi_u64_less]
  have "lval out + 4294967296 ^ length (w # ws) * unat c =
      unat (ucast v :: u32) + 4294967296 * (lval out' + 4294967296 ^ length ws * unat c)"
    by (simp add: out algebra_simps)
  also have "\<dots> = unat (ucast v :: u32) + 4294967296 * unat (drop_bit 32 v) +
      4294967296 * (lval ws * unat factor)"
    using IH by (simp add: algebra_simps)
  also have "\<dots> = lval (w # ws) * unat factor + unat carry"
    unfolding lo_hi_u64 v by (simp add: algebra_simps)
  finally show ?case using IH out by simp
qed

lemma mul_small_wf [simp]: "bi_wf (mul_small b factor)"
  by (simp add: mul_small_def split: prod.split)

lemma mul_small_val [simp]:
  assumes "bi_wf b" shows "bi_val (mul_small b factor) = bi_val b * int (unat factor)"
proof (cases "bi_is_zero b \<or> factor = 0")
  case True
  then show ?thesis using assms by (auto simp: mul_small_def bi_is_zero_val)
next
  case False
  obtain limbs c where loop: "mul_small_loop (bi_limbs b) factor 0 = (limbs, c)" by fastforce
  have len: "length limbs = length (bi_limbs b)" and "unat c < 4294967296"
    and val: "lval limbs + 4294967296 ^ length (bi_limbs b) * unat c = lval (bi_limbs b) * unat factor"
    using mul_small_loop_val [OF loop] by simp_all
  then have "lval (if c \<noteq> 0 then limbs @ [ucast c] else limbs) = lval (bi_limbs b) * unat factor"
    using lval_push_carry [of c limbs] by simp
  moreover have "mul_small b factor =
      normalized (bi_sign b) (if c \<noteq> 0 then limbs @ [ucast c] else limbs)"
    using False loop by (simp add: mul_small_def)
  ultimately show ?thesis
    using assms by (simp only: normalized_val) (auto simp: sign_val sgn_if lval_val)
qed

lemma add_small_wf [simp]: "bi_wf b \<Longrightarrow> bi_wf (add_small b addend)"
  by (simp add: add_small_def)

lemma add_small_val [simp]: "bi_wf b \<Longrightarrow> bi_val (add_small b addend) = bi_val b + int (unat addend)"
  by (simp add: add_small_def)

lemma div_rem_small_loop_val:
  assumes "div_rem_small_loop xs d r = (out, r')" and "d \<noteq> 0" and "unat r < unat d"
  shows "lval (rev out) * unat d + unat r' = unat r * 4294967296 ^ length xs + lval (rev xs) \<and>
         unat r' < unat d \<and> length out = length xs"
  using assms
proof (induction xs arbitrary: r out r')
  case Nil
  then show ?case by simp
next
  case (Cons w ws)
  define v where "v = push_bit 32 r OR ucast w"
  obtain out' where rest: "div_rem_small_loop ws d (v mod ucast d) = (out', r')"
    and out: "out = ucast (v div ucast d) # out'"
    using Cons.prems(1) by (auto simp: v_def Let_def split: prod.splits)
  have r: "unat r < 4294967296" using Cons.prems(3) unat_u32_less [of d] by linarith
  then have "r = ucast (ucast r :: u32)"
    by (simp add: word_unat_eq_iff unat_ucast_mod)
  then have v: "unat v = unat r * 4294967296 + unat w"
    using unat_shift_step [of 32 "ucast w" "ucast r"] r by (simp add: v_def unat_ucast_mod)
  have d: "0 < unat d" using Cons.prems(2) by (simp add: unat_gt_0)
  have mod: "unat (v mod ucast d) = unat v mod unat d"
    and div: "unat (v div ucast d) = unat v div unat d"
    by (simp_all add: unat_mod unat_div)
  have "unat v < unat d * 4294967296"
    unfolding v using Cons.prems(3) by (intro mult_plus_less) simp_all
  then have "unat (ucast (v div ucast d) :: u32) = unat v div unat d"
    by (simp add: unat_ucast_mod div less_mult_imp_div_less mult.commute)
  moreover have "unat (v mod ucast d) < unat d" using d by (simp add: mod)
  note IH = Cons.IH [OF rest Cons.prems(2) this]
  ultimately have "lval (rev out) * unat d + unat r' =
      (lval (rev out') * unat d + unat r') + unat v div unat d * unat d * 4294967296 ^ length ws"
    using IH by (simp add: out lval_append algebra_simps)
  also have "\<dots> = (unat v div unat d * unat d + unat v mod unat d) * 4294967296 ^ length ws
      + lval (rev ws)"
    using IH by (simp only: mod add_mult_distrib ac_simps)
  also have "\<dots> = unat r * 4294967296 ^ length (w # ws) + lval (rev (w # ws))"
    unfolding div_mult_mod_eq by (simp add: v lval_append algebra_simps)
  finally show ?case using IH out by simp
qed

lemma div_rem_small_val:
  assumes "bi_wf b" and "0 \<le> bi_val b" and "d \<noteq> 0"
  shows "\<exists>q r. div_rem_small b d = Some (q, r) \<and> bi_wf q \<and>
           bi_val q = bi_val b div int (unat d) \<and> int (unat r) = bi_val b mod int (unat d)"
proof -
  obtain out r where loop: "div_rem_small_loop (rev (bi_limbs b)) d 0 = (out, r)" by fastforce
  have d: "0 < unat d" using assms(3) by (simp add: unat_gt_0)
  have val: "lval (rev out) * unat d + unat r = lval (bi_limbs b)" and r: "unat r < unat d"
    using div_rem_small_loop_val [OF loop assms(3)] d by simp_all
  have "unat (ucast r :: u32) = unat r"
    using r unat_u32_less [of d] by (simp add: unat_ucast_mod del: unat_u32_less)
  moreover have b: "int (lval (bi_limbs b)) = bi_val b" using assms by (simp add: lval_val)
  moreover have "lval (rev out) = lval (bi_limbs b) div unat d" "unat r = lval (bi_limbs b) mod unat d"
    using r by (simp_all flip: val)
  ultimately have "int (lval (rev out)) = bi_val b div int (unat d)"
    "int (unat (ucast r :: u32)) = bi_val b mod int (unat d)"
    by (simp_all only: zdiv_int zmod_int)
  then show ?thesis
    using loop assms(3) by (simp add: div_rem_small_def)
qed

section \<open>Division\<close>

lemma bit_unat_u32: "bit (unat (w :: u32)) n \<longleftrightarrow> n < 32 \<and> bit w n"
  using bit_imp_le_length [of w n] by (auto simp: bit_unsigned_iff)

lemma bit_lval:
  "bit (lval xs) n \<longleftrightarrow> n div 32 < length xs \<and> bit (xs ! (n div 32)) (n mod 32)"
proof (induction xs arbitrary: n)
  case Nil
  then show ?case by simp
next
  case (Cons w ws)
  have "lval (w # ws) = unat w + push_bit 32 (lval ws)" by (simp add: push_bit_nat_def)
  also have "\<dots> = unat w OR push_bit 32 (lval ws)"
    by (rule disjunctive_add_eq_or) (auto intro!: bit_eqI simp: bit_and_iff bit_push_bit_iff bit_unat_u32)
  finally have split: "bit (lval (w # ws)) n \<longleftrightarrow>
      (n < 32 \<and> bit w n) \<or> (32 \<le> n \<and> bit (lval ws) (n - 32))"
    by (simp only:) (auto simp: bit_or_iff bit_push_bit_iff bit_unat_u32)
  show ?case
  proof (cases "n < 32")
    case True
    then show ?thesis using split by simp
  next
    case False
    then have "n div 32 = Suc ((n - 32) div 32)" "n mod 32 = (n - 32) mod 32"
      by (simp_all add: le_div_geq le_mod_geq)
    then show ?thesis using split Cons False by simp
  qed
qed

lemma bi_bit_val: "bi_bit b n \<longleftrightarrow> bit (lval (bi_limbs b)) n"
proof -
  have "w AND push_bit k 1 \<noteq> 0 \<longleftrightarrow> bit w k" for w :: u32 and k
    by (simp add: bit_iff_and_push_bit_not_eq_0)
  then show ?thesis by (simp only: bi_bit_def bit_lval Let_def)
qed

lemma or_bit_unat:
  assumes "\<not> bit (w :: u32) k" and "k < 32"
  shows "unat (w OR push_bit k 1) = unat w + 2 ^ k"
proof -
  have "w AND push_bit k 1 = 0" using assms(1) by (auto intro!: bit_eqI simp: bit_simps)
  then have "unat w AND unat (push_bit k 1 :: u32) = 0" by (simp flip: unsigned_and_eq)
  moreover have "unat (push_bit k 1 :: u32) = 2 ^ k"
    using assms(2) unfolding unsigned_push_bit_eq
    by (simp add: push_bit_nat_def take_bit_nat_eq_self)
  ultimately show ?thesis by (simp add: unsigned_or_eq flip: disjunctive_add_eq_or)
qed

lemma set_bit_lval:
  assumes "\<not> bi_bit b n"
  shows "lval (bi_limbs (bi_set_bit b n)) = lval (bi_limbs b) + 2 ^ n"
proof -
  let ?i = "n div 32" and ?k = "n mod 32" and ?l = "bi_limbs b"
  define limbs where "limbs = (if length ?l \<le> ?i then ?l @ replicate (?i + 1 - length ?l) 0 else ?l)"
  have len: "?i < length limbs" and val: "lval limbs = lval ?l"
    by (auto simp: limbs_def lval_append)
  have "\<not> bit (limbs ! ?i) ?k"
    using assms len val bit_lval [of limbs n] by (simp add: bi_bit_val)
  then have "unat (limbs ! ?i OR push_bit ?k 1) = unat (limbs ! ?i) + 2 ^ ?k"
    by (rule or_bit_unat) simp
  with lval_update [OF len, of "limbs ! ?i OR push_bit ?k 1"] val
  have "lval (limbs[?i := limbs ! ?i OR push_bit ?k 1]) = lval ?l + 4294967296 ^ ?i * 2 ^ ?k"
    by (simp add: algebra_simps)
  moreover have "(4294967296 :: nat) ^ ?i * 2 ^ ?k = 2 ^ n"
    unfolding base_pow power_add [symmetric] by simp
  moreover have "bi_limbs (bi_set_bit b n) = limbs[?i := limbs ! ?i OR push_bit ?k 1]"
    by (simp add: bi_set_bit_def limbs_def Let_def)
  ultimately show ?thesis by simp
qed

lemma bit_width_less: "n < 2 ^ bit_width n"
proof (induction n rule: bit_width.induct)
  case (1 n)
  then show ?case by (cases "n = 0") (simp_all add: bit_width.simps [of n])
qed

lemma bit_width_le: "n < 2 ^ k \<Longrightarrow> bit_width n \<le> k"
proof (induction n arbitrary: k rule: bit_width.induct)
  case (1 n)
  show ?case
  proof (cases "n = 0")
    case True
    then show ?thesis by (simp add: bit_width.simps)
  next
    case False
    with "1.prems" obtain j where "k = Suc j" by (cases k) auto
    with 1 False show ?thesis by (simp add: bit_width.simps [of n])
  qed
qed

lemma bit_len_bound: "lval (bi_limbs b) < 2 ^ bi_bit_len b"
proof (cases "bi_limbs b = []")
  case False
  let ?top = "last (bi_limbs b)" and ?m = "(4294967296 :: nat) ^ (length (bi_limbs b) - 1)"
  have "bit_width (unat ?top) \<le> 32" by (rule bit_width_le) simp
  then have "bi_bit_len b = 32 * (length (bi_limbs b) - 1) + bit_width (unat ?top)"
    using False by (simp add: bi_bit_len_def leading_zeros_def)
  then have "(2 :: nat) ^ bi_bit_len b = 2 ^ bit_width (unat ?top) * ?m"
    by (simp add: power_add base_pow)
  moreover have "unat ?top * ?m + lval (butlast (bi_limbs b)) < 2 ^ bit_width (unat ?top) * ?m"
    using lval_less [of "butlast (bi_limbs b)"] by (intro mult_plus_less bit_width_less) simp
  ultimately show ?thesis using lval_snoc [OF False] by (simp add: algebra_simps)
qed (simp add: bi_bit_len_def)

text \<open>
  One step of the long division: \<open>q\<close> are the quotient bits found so far, which all lie above
  bit \<open>n\<close>, and the remainder is what is left of the numerator's bits from \<open>n\<close> upwards.
\<close>

lemma div_bit_step: "(m :: nat) div 2 ^ n = 2 * (m div 2 ^ Suc n) + of_bool (bit m n)"
proof -
  have "m div 2 ^ Suc n = m div 2 ^ n div 2" by (simp only: power_Suc2 div_mult2_eq)
  moreover have "of_bool (bit m n) = m div 2 ^ n mod 2" by (simp add: bit_iff_odd mod_2_eq_odd)
  ultimately show ?thesis by simp
qed

lemma div_rem_loop_val:
  assumes "bi_wf numerator" "bi_wf denominator" "0 < bi_val denominator" "bi_wf remainder"
    and "2 ^ n dvd lval (bi_limbs quot)"
    and "int (lval (bi_limbs numerator) div 2 ^ n) =
           int (lval (bi_limbs quot) div 2 ^ n) * bi_val denominator + bi_val remainder"
    and "0 \<le> bi_val remainder" "bi_val remainder < bi_val denominator"
    and "div_rem_loop numerator denominator n quot remainder = (quot', remainder')"
  shows "int (lval (bi_limbs numerator)) =
           int (lval (bi_limbs quot')) * bi_val denominator + bi_val remainder' \<and>
         0 \<le> bi_val remainder' \<and> bi_val remainder' < bi_val denominator \<and> bi_wf remainder'"
  using assms(4-)
proof (induction n arbitrary: quot remainder)
  case 0
  then show ?case by simp
next
  case (Suc n)
  let ?m = "lval (bi_limbs numerator)" and ?d = "bi_val denominator"
  define r where "r = (let r1 = shift_left_bits remainder 1
                       in if bi_bit numerator n then add_small r1 1 else r1)"
  obtain q where q: "lval (bi_limbs quot) = 2 ^ Suc n * q" using Suc.prems(2) by (rule dvdE)
  have qn: "lval (bi_limbs quot) div 2 ^ n = 2 * q" "lval (bi_limbs quot) div 2 ^ Suc n = q"
    by (simp_all add: q)
  have r_wf: "bi_wf r" using Suc.prems(1) by (simp add: r_def Let_def)
  have r_val: "bi_val r = 2 * bi_val remainder + of_bool (bit ?m n)"
    using Suc.prems(1) by (simp add: r_def Let_def bi_bit_val)
  have r_pos: "0 \<le> bi_val r" and r_less: "bi_val r < 2 * ?d"
    using Suc.prems(4,5) by (auto simp: r_val)
  have num: "int (?m div 2 ^ n) = int (2 * q) * ?d + bi_val r"
    using Suc.prems(3) unfolding div_bit_step [of ?m n] qn(2) r_val by simp
  show ?case
  proof (cases "bi_val r < ?d")
    case True
    have "div_rem_loop numerator denominator n quot r = (quot', remainder')"
      using Suc.prems(6) True r_wf r_pos assms(2,3)
      by (simp add: r_def Let_def cmp_abs_val cmp_of_def split: if_splits)
    with Suc.IH [of r quot] show ?thesis
      using r_wf r_pos True num by (simp add: q qn(1))
  next
    case False
    have no_bit: "\<not> bi_bit quot n" by (simp add: bi_bit_val q bit_iff_odd)
    have set: "lval (bi_limbs (bi_set_bit quot n)) = 2 ^ n * (2 * q + 1)"
      by (simp add: set_bit_lval [OF no_bit] q)
    have sub: "bi_val (sub_abs r denominator) = bi_val r - ?d"
      using sub_abs_val [OF r_wf assms(2)] r_pos False assms(3) by simp
    have "div_rem_loop numerator denominator n (bi_set_bit quot n) (sub_abs r denominator) =
        (quot', remainder')"
      using Suc.prems(6) False r_wf r_pos assms(2,3)
      by (simp add: r_def Let_def cmp_abs_val cmp_of_def split: if_splits)
    with Suc.IH [of "sub_abs r denominator" "bi_set_bit quot n"] show ?thesis
      using False r_less num by (simp add: set sub algebra_simps)
  qed
qed

lemma div_rem_abs_val:
  assumes "bi_wf a" "bi_wf b" "0 \<le> bi_val a" "0 < bi_val b" and "div_rem_abs a b = (q, r)"
  shows "int (lval (bi_limbs q)) = bi_val a div bi_val b \<and>
         int (lval (bi_limbs r)) = bi_val a mod bi_val b"
proof (cases "bi_val a < bi_val b")
  case True
  then have "q = bi_zero" "r = a"
    using assms by (simp_all add: div_rem_abs_def cmp_abs_val cmp_of_def)
  with True assms show ?thesis by (simp add: bi_zero_def lval_val)
next
  case False
  then have loop: "div_rem_loop a b (bi_bit_len a) bi_zero bi_zero = (q, r)"
    using assms by (simp add: div_rem_abs_def cmp_abs_val cmp_of_def split: if_splits)
  have eq: "bi_val a = bi_val b * int (lval (bi_limbs q)) + bi_val r"
    and r: "0 \<le> bi_val r" "bi_val r < bi_val b" "bi_wf r"
    using div_rem_loop_val [OF assms(1,2,4) bi_zero_wf _ _ _ _ loop] assms bit_len_bound [of a]
    by (simp_all add: lval_val mult.commute)
  then show ?thesis
    using int_div_pos_eq [OF eq r(1,2)] int_mod_pos_eq [OF eq r(1,2)] by (simp add: lval_val)
qed

lemma div_rem_val:
  assumes "bi_wf a" and "bi_wf b" and "bi_val b \<noteq> 0"
  shows "\<exists>q r. div_rem a b = Some (q, r) \<and> bi_wf q \<and> bi_wf r \<and>
           bi_val q = bi_val a sdiv bi_val b \<and> bi_val r = bi_val a smod bi_val b"
proof -
  obtain q r where qr: "div_rem_abs (bi_abs a) (bi_abs b) = (q, r)" by fastforce
  have "int (lval (bi_limbs q)) = \<bar>bi_val a\<bar> div \<bar>bi_val b\<bar>"
    "int (lval (bi_limbs r)) = \<bar>bi_val a\<bar> mod \<bar>bi_val b\<bar>"
    using div_rem_abs_val [OF _ _ _ _ qr] assms by simp_all
  then show ?thesis
    using qr assms
    by (auto simp: div_rem_def bi_is_zero_val signed_divide_int_def signed_modulo_int_def sign_val
        sgn_if mult_less_0_iff)
qed

section \<open>Two's complement\<close>

lemma lval_not: "lval (map (\<lambda>w. NOT w) ws) + lval ws + 1 = 4294967296 ^ length ws"
proof (induction ws)
  case Nil
  then show ?case by simp
next
  case (Cons w ws)
  have "w AND NOT w = 0" "w OR NOT w = -1" by (simp_all add: bit_eq_iff bit_simps)
  then have "unat w AND unat (NOT w) = 0" "unat w OR unat (NOT w) = 4294967295"
    by (simp_all flip: unsigned_and_eq unsigned_or_eq) (simp add: unsigned_minus_1_eq_mask mask_eq_exp_minus_1)
  then have "unat (NOT w) + unat w = 4294967295"
    using disjunctive_add_eq_or [of "unat w" "unat (NOT w)"] by simp
  moreover have "lval (map (\<lambda>w. NOT w) (w # ws)) + lval (w # ws) + 1 =
      (unat (NOT w) + unat w + 1) + 4294967296 * (lval (map (\<lambda>w. NOT w) ws) + lval ws)"
    by (simp add: algebra_simps)
  ultimately have "lval (map (\<lambda>w. NOT w) (w # ws)) + lval (w # ws) + 1 =
      4294967296 * (lval (map (\<lambda>w. NOT w) ws) + lval ws + 1)"
    by simp
  then show ?case unfolding Cons by simp
qed

lemma add_one_loop_val:
  "unat c \<le> 1 \<Longrightarrow> lval (add_one_loop ws c) = (lval ws + unat c) mod 4294967296 ^ length ws"
proof (induction ws arbitrary: c)
  case Nil
  then show ?case by simp
next
  case (Cons w ws)
  define v where "v = (ucast w :: u64) + c"
  let ?c = "drop_bit 32 v" and ?m = "(4294967296 :: nat) ^ length ws"
  have v: "unat v = unat w + unat c"
    using Cons.prems unat_add3_u64 [of c w 0] by (simp add: v_def)
  have "unat v < 2 * 4294967296" using v Cons.prems unat_u32_less [of w] by linarith
  then have c: "unat ?c \<le> 1" by (simp add: unat_drop_bit_div)
  have rest: "lval (if ?c = 0 then ws else add_one_loop ws ?c) = (lval ws + unat ?c) mod ?m"
    using Cons.IH [OF c] lval_less [of ws] by simp
  have "lval (w # ws) + unat c = unat (ucast v :: u32) + 4294967296 * (lval ws + unat ?c)"
    using lo_hi_u64 [of v] v by simp
  also have "\<dots> mod (4294967296 * ?m) =
      unat (ucast v :: u32) + 4294967296 * ((lval ws + unat ?c) mod ?m)"
    by (rule mod_low_digit) simp
  finally show ?case
    using rest by (simp only: add_one_loop.simps Let_def v_def [symmetric] lval.simps list.size) simp
qed

lemma length_add_one_loop [simp]: "length (add_one_loop ws c) = length ws"
  by (induction ws arbitrary: c) (simp_all add: Let_def)

lemma length_to_twos [simp]:
  "length (bi_limbs b) \<le> len \<Longrightarrow> length (to_twos_complement_words b len) = len"
  by (simp add: to_twos_complement_words_def resize0_def add_one_to_words_def Let_def)

lemma negate_words:
  "int (lval (add_one_to_words (map (\<lambda>w. NOT w) ws))) = (- int (lval ws)) mod 2 ^ (32 * length ws)"
proof -
  have "int (lval (map (\<lambda>w. NOT w) ws) + 1) = 2 ^ (32 * length ws) - int (lval ws)"
    using arg_cong [OF lval_not [of ws], of int] by (simp add: base_pow)
  then show ?thesis
    using add_one_loop_val [of 1 "map (\<lambda>w. NOT w) ws"]
    by (simp add: add_one_to_words_def base_pow zmod_int mod_diff_left_eq [symmetric])
qed

lemma to_twos_complement_val:
  assumes "bi_wf b" and "length (bi_limbs b) \<le> len"
  shows "int (lval (to_twos_complement_words b len)) = take_bit (32 * len) (bi_val b)"
proof -
  let ?ws = "resize0 (bi_limbs b) len"
  have ws: "lval ?ws = lval (bi_limbs b)" "length ?ws = len"
    using assms(2) by (simp_all add: resize0_def lval_append)
  have less: "int (lval (bi_limbs b)) < 2 ^ (32 * len)"
    using lval_less [of ?ws] ws by (simp add: base_pow flip: of_nat_less_iff)
  show ?thesis
    using assms less negate_words [of ?ws] ws
    by (auto simp: to_twos_complement_words_def Let_def sign_val sgn_if lval_val take_bit_eq_mod
        split: if_splits)
qed

lemma sign_bit_words:
  assumes "ws \<noteq> []"
  shows "last ws AND 0x80000000 \<noteq> 0 \<longleftrightarrow> bit (int (lval ws)) (32 * length ws - 1)"
proof -
  have "last ws AND 0x80000000 \<noteq> 0 \<longleftrightarrow> bit (last ws) 31"
    using bit_iff_and_push_bit_not_eq_0 [of "last ws" 31] by simp
  moreover from assms obtain n where n: "length ws = Suc n" by (cases ws) auto
  then have "(32 * length ws - 1) div 32 = n" "(32 * length ws - 1) mod 32 = 31" by auto
  ultimately show ?thesis
    using assms n by (simp add: bit_of_nat_iff_bit bit_lval last_conv_nth)
qed

lemma from_twos_complement_wf [simp]: "bi_wf (from_twos_complement_words ws)"
  by (simp add: from_twos_complement_words_def)

lemma from_twos_complement_val:
  assumes "ws \<noteq> []"
  shows "bi_val (from_twos_complement_words ws) =
           signed_take_bit (32 * length ws - 1) (int (lval ws))"
proof -
  let ?n = "32 * length ws - 1" and ?l = "int (lval ws)"
  have n: "Suc ?n = 32 * length ws" using assms by (cases ws) auto
  have less: "?l < 2 ^ (32 * length ws)"
    using lval_less [of ws] by (simp add: base_pow flip: of_nat_less_iff)
  then have "signed_take_bit ?n ?l = ?l - 2 ^ (32 * length ws) * of_bool (bit ?l ?n)"
    unfolding signed_take_bit_eq_take_bit_minus n by (simp add: take_bit_int_eq_self)
  moreover have "(- ?l) mod 2 ^ (32 * length ws) = 2 ^ (32 * length ws) - ?l" if "bit ?l ?n"
  proof -
    have "?l \<noteq> 0" using that by (intro notI) simp
    then have "0 < ?l" by simp
    with less show ?thesis by (simp add: zmod_zminus1_eq_if)
  qed
  ultimately show ?thesis
    using assms by (simp add: from_twos_complement_words_def sign_bit_words negate_words)
qed

lemma signed_take_bit_val:
  assumes "bi_wf b" and "length (bi_limbs b) < len"
  shows "signed_take_bit (32 * len - 1) (bi_val b) = bi_val b"
proof -
  have "\<bar>bi_val b\<bar> < 2 ^ (32 * length (bi_limbs b))"
    using lval_less [of "bi_limbs b"] assms(1) by (simp add: base_pow flip: lval_val of_nat_less_iff)
  also have "\<dots> \<le> (2 :: int) ^ (32 * len - 1)"
    using assms(2) by (intro power_increasing) simp_all
  finally show ?thesis by (intro signed_take_bit_int_eq_self) linarith+
qed

text \<open>
  The contract of the closures that \<open>bitwise_with\<close> takes: the operation on limbs and the one on
  integers act bit by bit with the same truth table, and two clear bits give a clear bit.
\<close>

locale limbwise_op =
  fixes op :: "u32 \<Rightarrow> u32 \<Rightarrow> u32"
    and iop :: "int \<Rightarrow> int \<Rightarrow> int"
    and table :: "bool \<Rightarrow> bool \<Rightarrow> bool"
  assumes bit_op: "n < 32 \<Longrightarrow> bit (op x y) n = table (bit x n) (bit y n)"
    and bit_iop: "bit (iop i j) n = table (bit i n) (bit j n)"
    and table_clear: "\<not> table False False"
begin

lemma lval_map2:
  assumes "length xs = length ys"
  shows "int (lval (map2 op xs ys)) = iop (int (lval xs)) (int (lval ys))"
proof (rule bit_eqI)
  fix n
  show "bit (int (lval (map2 op xs ys))) n = bit (iop (int (lval xs)) (int (lval ys))) n"
    using assms table_clear
    by (cases "n div 32 < length xs") (simp_all add: bit_of_nat_iff_bit bit_lval bit_op bit_iop)
qed

lemma signed_take_bit_iop:
  "signed_take_bit n (iop (take_bit (Suc n) i) (take_bit (Suc n) j)) =
     iop (signed_take_bit n i) (signed_take_bit n j)"
  by (rule bit_eqI) (simp add: bit_signed_take_bit_iff bit_iop bit_take_bit_iff min_def)

lemma bitwise_with_val:
  assumes "bi_wf a" and "bi_wf b"
  shows "bi_val (bitwise_with op a b) = iop (bi_val a) (bi_val b)"
proof -
  define len where "len = max (max (length (bi_limbs a)) (length (bi_limbs b))) 1 + 1"
  let ?l = "to_twos_complement_words a len" and ?r = "to_twos_complement_words b len"
  have len: "length (bi_limbs a) < len" "length (bi_limbs b) < len" "Suc (32 * len - 1) = 32 * len"
    by (simp_all add: len_def)
  have lengths: "length ?l = len" "length ?r = len" using len by simp_all
  then have "0 < length (map2 op ?l ?r)" using len(1) by simp
  then have "map2 op ?l ?r \<noteq> []" by blast
  then have "bi_val (bitwise_with op a b) =
      signed_take_bit (32 * len - 1) (int (lval (map2 op ?l ?r)))"
    using lengths by (simp add: bitwise_with_def Let_def from_twos_complement_val
        del: One_nat_def flip: len_def)
  also have "int (lval (map2 op ?l ?r)) =
      iop (take_bit (32 * len) (bi_val a)) (take_bit (32 * len) (bi_val b))"
    using assms len lengths by (simp add: lval_map2 to_twos_complement_val)
  also have "signed_take_bit (32 * len - 1) \<dots> =
      iop (signed_take_bit (32 * len - 1) (bi_val a)) (signed_take_bit (32 * len - 1) (bi_val b))"
    using signed_take_bit_iop [of "32 * len - 1"] unfolding len(3) .
  also have "\<dots> = iop (bi_val a) (bi_val b)"
    using assms len by (simp only: signed_take_bit_val)
  finally show ?thesis .
qed

end

interpretation limb_and: limbwise_op "(AND)" "(AND)" "(\<and>)"
  by unfold_locales (simp_all add: bit_and_iff)

interpretation limb_or: limbwise_op "(OR)" "(OR)" "(\<or>)"
  by unfold_locales (simp_all add: bit_or_iff)

interpretation limb_xor: limbwise_op "(XOR)" "(XOR)" "(\<noteq>)"
  by unfold_locales (simp_all add: bit_xor_iff)

lemma bitwise_with_wf [simp]: "bi_wf (bitwise_with op a b)"
  by (simp add: bitwise_with_def Let_def)

lemma bi_bit_not_wf [simp]: "bi_wf (bi_bit_not b)"
  by (simp add: bi_bit_not_def Let_def)

lemma bi_bit_not_val:
  assumes "bi_wf b" shows "bi_val (bi_bit_not b) = NOT (bi_val b)"
proof -
  define len where "len = max (length (bi_limbs b)) 1 + 1"
  let ?ws = "to_twos_complement_words b len"
  have len: "length (bi_limbs b) < len" "Suc (32 * len - 1) = 32 * len" by (simp_all add: len_def)
  have ws: "length ?ws = len" using len by simp
  have drop_top: "signed_take_bit (32 * len - 1) (take_bit (32 * len) x) =
      signed_take_bit (32 * len - 1) x" for x :: int
  proof -
    have "\<not> 32 * len \<le> 32 * len - 1" using len(2) by linarith
    then show ?thesis by (simp only: signed_take_bit_take_bit if_False)
  qed
  have "int (lval (map (\<lambda>w. NOT w) ?ws)) = 2 ^ (32 * len) - 1 - int (lval ?ws)"
    using arg_cong [OF lval_not [of ?ws], of int] ws by (simp add: base_pow)
  also have "\<dots> = NOT (take_bit (32 * len) (bi_val b)) + 2 ^ (32 * len)"
    using assms len by (simp add: to_twos_complement_val not_int_def)
  finally have "signed_take_bit (32 * len - 1) (int (lval (map (\<lambda>w. NOT w) ?ws))) =
      signed_take_bit (32 * len - 1)
        (take_bit (32 * len) (NOT (take_bit (32 * len) (bi_val b)) + 2 ^ (32 * len)))"
    by (simp only: drop_top)
  also have "take_bit (32 * len) (NOT (take_bit (32 * len) (bi_val b)) + 2 ^ (32 * len)) =
      take_bit (32 * len) (NOT (bi_val b))"
    by (simp add: take_bit_eq_mod [of _ "_ + _"]) (simp flip: take_bit_eq_mod add: take_bit_not_take_bit)
  also have "signed_take_bit (32 * len - 1) (take_bit (32 * len) (NOT (bi_val b))) =
      NOT (signed_take_bit (32 * len - 1) (bi_val b))"
    unfolding drop_top
    by (rule bit_eqI) (simp add: bit_signed_take_bit_iff bit_not_iff)
  also have "\<dots> = NOT (bi_val b)" using assms len by (simp only: signed_take_bit_val)
  finally have "signed_take_bit (32 * len - 1) (int (lval (map (\<lambda>w. NOT w) ?ws))) = NOT (bi_val b)" .
  moreover have "0 < length (map (\<lambda>w. NOT w) ?ws)" using ws len(1) by simp
  then have "map (\<lambda>w. NOT w) ?ws \<noteq> []" by blast
  note from_twos_complement_val [OF this]
  ultimately show ?thesis
    unfolding bi_bit_not_def Let_def len_def [symmetric] by (simp add: ws)
qed

section \<open>Machine integers\<close>

lemma magnitude_limbs_val [simp]: "lval (magnitude_limbs m) = m"
proof (induction m rule: magnitude_limbs.induct)
  case (1 m)
  then show ?case
    by (subst magnitude_limbs.simps) (simp add: unat_of_nat take_bit_eq_mod)
qed

lemma bi_from_i128_wf [simp]: "bi_wf (bi_from_i128 v)"
  by (simp add: bi_from_i128_def)

lemma bi_from_i128_val [simp]: "bi_val (bi_from_i128 v) = v"
  by (simp add: bi_from_i128_def)

lemma lval_inject:
  "length xs = length ys \<Longrightarrow> lval xs = lval ys \<Longrightarrow> xs = ys"
proof (induction xs ys rule: list_induct2)
  case Nil
  then show ?case by simp
next
  case (Cons x xs y ys)
  have "unat x = unat y" "lval xs = lval ys"
    using arg_cong [OF Cons.prems, of "\<lambda>n. n mod 4294967296"]
      arg_cong [OF Cons.prems, of "\<lambda>n. n div 4294967296"] by simp_all
  with Cons.IH show ?case by (simp add: word_unat_eq_iff)
qed

text \<open>Canonical values are unique: two of them that stand for the same integer are equal.\<close>

lemma bi_val_inject:
  assumes "bi_wf a" and "bi_wf b" and "bi_val a = bi_val b"
  shows "a = b"
proof -
  have "lval (bi_limbs a) = lval (bi_limbs b)"
    using assms lval_val [of a] lval_val [of b] by simp
  moreover from this have "length (bi_limbs a) = length (bi_limbs b)"
    using assms(1,2) lval_less_length [of "bi_limbs a" "bi_limbs b"]
      lval_less_length [of "bi_limbs b" "bi_limbs a"]
    by (cases "length (bi_limbs a)" "length (bi_limbs b)" rule: linorder_cases)
      (auto simp: bi_wf_def)
  ultimately have "bi_limbs a = bi_limbs b" by (intro lval_inject)
  moreover have "bi_sign a = bi_sign b" using assms by (simp add: sign_val)
  ultimately show ?thesis by simp
qed

lemma bi_to_u32_val:
  assumes "bi_wf b"
  shows "bi_to_u32 b =
           (if 0 \<le> bi_val b \<and> bi_val b < 2 ^ 32 then Some (word_of_int (bi_val b)) else None)"
proof (cases "bi_limbs b")
  case Nil
  then have "bi_sign b = 0" using assms by (simp add: bi_wf_def)
  with Nil show ?thesis by (simp add: bi_to_u32_def bi_val_def)
next
  case (Cons w ws)
  show ?thesis
  proof (cases ws)
    case Nil
    have "uint w < 4294967296" using uint_bounded [of w] by simp
    then show ?thesis
      using Nil Cons assms
      by (auto simp: bi_to_u32_def bi_val_def bi_wf_def) (simp add: word_neq_0_conv uint_0_iff)
  next
    case (Cons w' ws')
    have "4294967296 ^ (length (bi_limbs b) - 1) \<le> lval (bi_limbs b)"
      using assms \<open>bi_limbs b = w # ws\<close> by (intro lval_ge) (auto simp: bi_wf_def)
    moreover have "(4294967296 :: nat) ^ 1 \<le> 4294967296 ^ (length (bi_limbs b) - 1)"
      using Cons \<open>bi_limbs b = w # ws\<close> by (intro power_increasing) simp_all
    ultimately have "4294967296 \<le> int (lval (bi_limbs b))" by simp
    then have "4294967296 \<le> \<bar>bi_val b\<bar>" using assms by (simp only: lval_val)
    then show ?thesis
      using Cons \<open>bi_limbs b = w # ws\<close> by (auto simp: bi_to_u32_def)
  qed
qed

text \<open>
  \<open>to_usize\<close> never fails on a non-negative value: the checked shift cannot fail and the checked
  addition adds below a word whose low half is clear, so the result is the value modulo \<open>2 ^ 64\<close>.
\<close>

lemma to_usize_step:
  "checked_shl_usize v 32 = Some (push_bit 32 v)"
  "checked_add_usize (push_bit 32 v) (ucast (w :: u32)) = Some (push_bit 32 v + ucast w)"
proof -
  have "unat (push_bit 32 v) = 4294967296 * (unat v mod 4294967296)"
    using mult_mod_right [of 4294967296 "unat v" 4294967296]
    by (simp add: unsigned_push_bit_eq push_bit_nat_def take_bit_eq_mod mult.commute)
  moreover have "unat v mod 4294967296 < 4294967296" by simp
  then have "(unat v mod 4294967296) * 4294967296 + unat w < 4294967296 * 4294967296"
    by (rule mult_plus_less) simp
  ultimately show "checked_add_usize (push_bit 32 v) (ucast w) = Some (push_bit 32 v + ucast w)"
    by (simp add: checked_add_usize_def mult.commute)
qed (simp add: checked_shl_usize_def)

lemma to_usize_loop_val:
  "to_usize_loop xs v = Some (v * 4294967296 ^ length xs + of_nat (lval (rev xs)))"
proof (induction xs arbitrary: v)
  case Nil
  then show ?case by simp
next
  case (Cons w ws)
  have "(ucast w :: u64) = of_nat (unat w)" by (simp add: word_unat_eq_iff unat_of_nat take_bit_eq_mod)
  then have "push_bit 32 v + ucast w = v * 4294967296 + of_nat (unat w)"
    by (simp add: push_bit_eq_mult)
  moreover have "to_usize_loop (w # ws) v = to_usize_loop ws (push_bit 32 v + ucast w)"
    by (simp only: to_usize_loop.simps to_usize_step bind.bind_lunit)
  ultimately show ?case
    by (simp add: Cons lval_append algebra_simps)
qed

lemma bi_to_usize_val:
  assumes "bi_wf b"
  shows "bi_to_usize b = (if bi_val b < 0 then None else Some (word_of_int (bi_val b)))"
proof -
  have "(word_of_int (int n) :: u64) = of_nat n" for n by simp
  from this [of "lval (bi_limbs b)"] have "(of_nat (lval (bi_limbs b)) :: u64) = word_of_int \<bar>bi_val b\<bar>"
    using assms by (simp only: lval_val)
  then show ?thesis
    using assms by (simp add: bi_to_usize_def to_usize_loop_val sign_val sgn_if)
qed

section \<open>Text\<close>

lemma from_digits_loop_val:
  assumes "bi_wf v" and "radix < 4294967296"
  shows "case those (map (to_digit radix) (filter (\<lambda>c. c \<noteq> CHR ''_'') cs)) of
           None \<Rightarrow> from_digits_loop radix cs v saw = Inl ExpectedInt32
         | Some ds \<Rightarrow> \<exists>b. from_digits_loop radix cs v saw = Inr (b, saw \<or> ds \<noteq> []) \<and> bi_wf b \<and>
             bi_val b = foldl (\<lambda>a d. a * int radix + int d) (bi_val v) ds"
  using assms(1)
proof (induction cs arbitrary: v saw)
  case Nil
  then show ?case by simp
next
  case (Cons c cs)
  show ?case
  proof (cases "c = CHR ''_'' \<or> to_digit radix c = None")
    case True
    then show ?thesis
      using Cons.IH [OF Cons.prems, of saw] by (cases "c = CHR ''_''") (simp_all split: option.splits)
  next
    case False
    then obtain d where d: "to_digit radix c = Some d" "c \<noteq> CHR ''_''" by auto
    then have "d < radix" by (auto simp: to_digit_def Let_def split: if_splits)
    define v' where "v' = add_small (mul_small v (of_nat radix)) (of_nat d)"
    have wf: "bi_wf v'" by (simp add: v'_def)
    have val: "bi_val v' = bi_val v * int radix + int d"
      unfolding v'_def using Cons.prems assms(2) \<open>d < radix\<close>
      by (simp add: unat_of_nat take_bit_eq_mod zmod_int)
    show ?thesis
      using Cons.IH [OF wf, of True] d
      by (auto simp: v'_def [symmetric] val split: option.splits)
  qed
qed

text \<open>The digits of a number from the least significant one up.\<close>

fun decimal_digits :: "nat \<Rightarrow> nat list" where
  "decimal_digits n = (if n = 0 then [] else n mod 10 # decimal_digits (n div 10))"

declare decimal_digits.simps [simp del]

lemma decimal_digits_val: "foldr (\<lambda>d a. a * 10 + int d) (decimal_digits n) 0 = int n"
proof (induction n rule: decimal_digits.induct)
  case (1 n)
  show ?case
  proof (cases "n = 0")
    case True
    then show ?thesis by (simp add: decimal_digits.simps)
  next
    case False
    then have "foldr (\<lambda>d a. a * 10 + int d) (decimal_digits n) 0 = int (n div 10) * 10 + int (n mod 10)"
      using 1 by (subst decimal_digits.simps) simp
    also have "\<dots> = int (n div 10 * 10 + n mod 10)"
      by (simp only: of_nat_add of_nat_mult of_nat_numeral)
    also have "\<dots> = int n" by (simp only: div_mult_mod_eq)
    finally show ?thesis .
  qed
qed

lemma decimal_digits_less: "d \<in> set (decimal_digits n) \<Longrightarrow> d < 10"
proof (induction n rule: decimal_digits.induct)
  case (1 n)
  then show ?case by (subst (asm) (2) decimal_digits.simps) (auto split: if_splits)
qed

lemma decimal_digits_empty: "decimal_digits n = [] \<longleftrightarrow> n = 0"
  by (simp add: decimal_digits.simps [of n])

definition digit_char :: "nat \<Rightarrow> char" where
  "digit_char d = char_of (48 + d)"

text \<open>The loop ends on every non-negative value, because the division by ten makes it smaller.\<close>

lemma decimal_loop_val:
  assumes "bi_wf b" and "bi_val b = int n"
  shows "decimal_loop b ds = Some (ds @ map digit_char (decimal_digits n))"
  using assms
proof (induction n arbitrary: b ds rule: decimal_digits.induct)
  case (1 n)
  show ?case
  proof (cases "n = 0")
    case True
    then show ?thesis
      using "1.prems" by (subst decimal_loop.simps) (simp add: bi_is_zero_val decimal_digits.simps)
  next
    case False
    obtain q r where qr: "div_rem_small b 10 = Some (q, r)" "bi_wf q"
        "bi_val q = bi_val b div int (unat (10 :: u32))" "int (unat r) = bi_val b mod int (unat (10 :: u32))"
      using div_rem_small_val [of b 10] "1.prems" by auto
    have ten: "int (unat (10 :: u32)) = 10" by simp
    have q: "bi_val q = int (n div 10)"
      using qr(3) unfolding ten "1.prems"(2) by (simp add: zdiv_int)
    have "int (unat r) = int (n mod 10)"
      using qr(4) unfolding ten "1.prems"(2) by (simp only: zmod_int of_nat_numeral)
    then have r: "unat r = n mod 10" by (simp only: of_nat_eq_iff)
    have "unat r < 256" unfolding r by (rule less_trans [of _ 10]) simp_all
    then have "decimal_loop b ds = decimal_loop q (ds @ [digit_char (n mod 10)])"
      using False "1.prems" qr(1) r
      by (subst decimal_loop.simps) (simp add: bi_is_zero_val digit_char_def)
    also have "\<dots> = Some (ds @ map digit_char (decimal_digits n))"
      using "1.IH" [OF False qr(2) q] False by (simp add: decimal_digits.simps [of n])
    finally show ?thesis .
  qed
qed

lemma to_decimal_string_val:
  assumes "bi_wf b"
  shows "to_decimal_string b =
           Some (if bi_val b = 0 then ''0''
                 else (if bi_val b < 0 then ''-'' else []) @
                      map digit_char (rev (decimal_digits (nat \<bar>bi_val b\<bar>))))"
  using assms decimal_loop_val [of "bi_abs b" "nat \<bar>bi_val b\<bar>" "[]"]
  by (simp add: to_decimal_string_def bi_is_zero_val bi_is_negative_val rev_map)

text \<open>A run of decimal digits passes through the text parser unchanged.\<close>

lemma of_char_digit: "d < 10 \<Longrightarrow> (of_char (digit_char d) :: nat) = 48 + d"
  by (simp add: digit_char_def)

lemma digit_char_eq_iff:
  "d < 10 \<Longrightarrow> digit_char d = c \<longleftrightarrow> (of_char c :: nat) = 48 + d"
  using of_char_digit [of d] by (metis of_char_eq_iff)

lemma to_digit_digit_char: "d < 10 \<Longrightarrow> to_digit 10 (digit_char d) = Some d"
  by (simp add: to_digit_def of_char_digit)

lemma those_digit_chars:
  "(\<And>d. d \<in> set ds \<Longrightarrow> d < 10) \<Longrightarrow> those (map (to_digit 10) (map digit_char ds)) = Some ds"
  by (induction ds) (simp_all add: to_digit_digit_char)

definition digit_text :: "string \<Rightarrow> bool" where
  "digit_text s \<longleftrightarrow> (\<forall>c\<in>set s. 48 \<le> (of_char c :: nat) \<and> (of_char c :: nat) < 58)"

lemma digit_text_map: "(\<And>d. d \<in> set ds \<Longrightarrow> d < 10) \<Longrightarrow> digit_text (map digit_char ds)"
  by (auto simp: digit_text_def of_char_digit)

lemma digit_text_no_prefix:
  assumes "digit_text s" and "\<not> digit_text [c]" shows "strip_prefix [b, c] s = None"
proof (rule ccontr)
  assume "strip_prefix [b, c] s \<noteq> None"
  then have "take 2 s = [b, c]" by (simp add: strip_prefix_def numeral_2_eq_2 split: if_splits)
  then have "c \<in> set (take 2 s)" by simp
  then have "c \<in> set s" by (rule in_set_takeD)
  with assms show False by (simp add: digit_text_def)
qed

lemma digit_text_radix: "digit_text s \<Longrightarrow> radix_and_digits s = (10, s)"
  by (simp add: radix_and_digits_def or_else_def digit_text_no_prefix digit_text_def [of "[_]"])

lemma dropWhile_none: "(\<And>c. c \<in> set s \<Longrightarrow> \<not> P c) \<Longrightarrow> dropWhile P s = s"
  by (cases s) simp_all

lemma str_trim_none: "(\<And>c. c \<in> set s \<Longrightarrow> \<not> is_whitespace c) \<Longrightarrow> str_trim s = s"
  using dropWhile_none [of s is_whitespace] dropWhile_none [of "rev s" is_whitespace]
  by (simp add: str_trim_def)

lemma parse_digit_text:
  assumes "digit_text s" and "s \<noteq> []" and "sign = [] \<or> sign = ''-''"
  shows "parse_bigint_text (sign @ s) False = from_digits 10 s (sign = ''-'')"
proof -
  have "\<not> is_whitespace c" if "c \<in> set (sign @ s)" for c
    using that assms by (auto simp: digit_text_def is_whitespace_def Let_def)
  then have trim: "str_trim (sign @ s) = sign @ s" by (rule str_trim_none)
  have hd: "hd s \<noteq> CHR ''-''" "hd s \<noteq> CHR ''+''"
    using assms(1,2) by (auto simp: digit_text_def dest!: bspec [OF _ hd_in_set])
  have "filter (\<lambda>c. c \<noteq> CHR ''_'') s = s"
    using assms(1) by (auto simp: digit_text_def filter_id_conv)
  note hd = hd this
  show ?thesis
    using assms hd by (auto simp: parse_bigint_text_def trim digit_text_radix Let_def)
qed

lemma foldl_rev_foldr: "foldl (\<lambda>a d. f a d) z (rev ds) = foldr (\<lambda>d a. f a d) ds z"
  by (simp add: foldl_conv_foldr)

lemma from_digits_decimal:
  assumes "n \<noteq> 0"
  shows "\<exists>b. from_digits 10 (map digit_char (rev (decimal_digits n))) neg = Inr b \<and> bi_wf b \<and>
           bi_val b = (if neg then - int n else int n)"
proof -
  let ?ds = "rev (decimal_digits n)"
  have less: "d \<in> set ?ds \<Longrightarrow> d < 10" for d using decimal_digits_less by simp
  then have "filter (\<lambda>c. c \<noteq> CHR ''_'') (map digit_char ?ds) = map digit_char ?ds"
    by (fastforce simp: filter_id_conv digit_char_eq_iff)
  then have "those (map (to_digit 10) (filter (\<lambda>c. c \<noteq> CHR ''_'') (map digit_char ?ds))) = Some ?ds"
    using those_digit_chars [of ?ds] less by simp
  then show ?thesis
    using from_digits_loop_val [of bi_zero 10 "map digit_char ?ds" False] assms
      decimal_digits_val [of n]
    by (auto simp: from_digits_def decimal_digits_empty foldl_rev_foldr)
qed

lemma from_digits_some:
  assumes "those (map (to_digit radix) (filter (\<lambda>c. c \<noteq> CHR ''_'') cs)) = Some ds" and "ds \<noteq> []"
    and "radix < 4294967296"
  shows "\<exists>b. from_digits radix cs negative = Inr b \<and> bi_wf b \<and>
           bi_val b = (if negative then -1 else 1) * foldl (\<lambda>a d. a * int radix + int d) 0 ds"
  using from_digits_loop_val [of bi_zero radix cs False] assms by (auto simp: from_digits_def)

section \<open>Properties\<close>

text \<open>C25: Addition, subtraction, negation and absolute value of canonical values return canonical
  values that stand for the sum, difference, negation and absolute value of the integers, whatever
  the signs and lengths.\<close>

theorem bigint_add_sub_correct:
  assumes "bi_wf a" and "bi_wf b"
  shows "bi_wf (bi_add a b) \<and> bi_val (bi_add a b) = bi_val a + bi_val b \<and>
         bi_wf (bi_sub a b) \<and> bi_val (bi_sub a b) = bi_val a - bi_val b \<and>
         bi_wf (bi_neg a) \<and> bi_val (bi_neg a) = - bi_val a \<and>
         bi_wf (bi_abs a) \<and> bi_val (bi_abs a) = \<bar>bi_val a\<bar>"
  using assms by simp

theorem bigint_add_sub_correct_witness:
  "bi_val (bi_add \<lparr>bi_sign = -1, bi_limbs = [0, 1]\<rparr> \<lparr>bi_sign = 1, bi_limbs = [1]\<rparr>) = -4294967295"
  using bigint_add_sub_correct
    [of "\<lparr>bi_sign = -1, bi_limbs = [0, 1]\<rparr>" "\<lparr>bi_sign = 1, bi_limbs = [1]\<rparr>"]
  by (simp add: bi_wf_def bi_val_def)

text \<open>C24: Multiplication never indexes out of range and its 64-bit intermediate sums never
  overflow: it returns a canonical value that stands for the product.  Exponentiation by squaring
  returns the power for every 32-bit exponent.\<close>

theorem bigint_mul_pow_correct:
  assumes "bi_wf a" and "bi_wf b"
  shows "(\<exists>c. bi_mul a b = Some c \<and> bi_wf c \<and> bi_val c = bi_val a * bi_val b) \<and>
         (\<exists>c. bi_pow_u32 a e = Some c \<and> bi_wf c \<and> bi_val c = bi_val a ^ unat e)"
  using assms bi_mul_val [of a b] pow_loop_val [of a bi_one "unat e"] by (simp add: bi_pow_u32_def)

theorem bigint_mul_pow_correct_witness:
  "\<exists>c. bi_pow_u32 (bi_from_i128 (-3)) 5 = Some c \<and> bi_val c = -243"
  using bigint_mul_pow_correct [of "bi_from_i128 (-3)" "bi_from_i128 7" 5] by auto

text \<open>C26: Division by a non-zero value returns the quotient truncated towards zero and the
  remainder with the sign of the dividend; division by zero is the error \<open>None\<close>.\<close>

theorem bigint_div_rem_correct:
  assumes "bi_wf a" and "bi_wf b"
  shows "if bi_val b = 0 then bi_div a b = None \<and> bi_rem a b = None
         else \<exists>q r. bi_div a b = Some q \<and> bi_rem a b = Some r \<and> bi_wf q \<and> bi_wf r \<and>
                bi_val q = bi_val a sdiv bi_val b \<and> bi_val r = bi_val a smod bi_val b"
  using assms div_rem_val [of a b] by (auto simp: bi_div_def bi_rem_def div_rem_def bi_is_zero_val)

theorem bigint_div_rem_correct_witness:
  "\<exists>q r. bi_div (bi_from_i128 (-7)) (bi_from_i128 2) = Some q \<and>
         bi_rem (bi_from_i128 (-7)) (bi_from_i128 2) = Some r \<and> bi_val q = -3 \<and> bi_val r = -1"
  using bigint_div_rem_correct [of "bi_from_i128 (-7)" "bi_from_i128 2"]
  by (auto simp: signed_divide_int_def signed_modulo_int_def)

text \<open>
  The comparison of canonical values is the order of the integers, and structural equality,
  which the engine uses for strict equality and as a hash key, is equality of the integers.\<close>

lemma bigint_cmp_correct:
  assumes "bi_wf a" and "bi_wf b"
  shows "bi_cmp a b = cmp_of (bi_val a) (bi_val b) \<and> (a = b \<longleftrightarrow> bi_val a = bi_val b)"
  using assms bi_cmp_val bi_val_inject by blast

text \<open>C29: A left shift multiplies by a power of two and a right shift divides by it rounding
  towards minus infinity, also for negative values.\<close>

theorem bigint_shift_correct:
  assumes "bi_wf b"
  shows "bi_wf (shift_left_bits b n) \<and> bi_val (shift_left_bits b n) = bi_val b * 2 ^ n \<and>
         bi_wf (shift_right_bits b n) \<and> bi_val (shift_right_bits b n) = bi_val b div 2 ^ n"
  using assms by simp

theorem bigint_shift_correct_witness: "bi_val (shift_right_bits (bi_from_i128 (-5)) 1) = -3"
  using bigint_shift_correct [of "bi_from_i128 (-5)" 1] by simp

text \<open>C28: The bitwise operations work on the two's complement expansion: complement, conjunction,
  disjunction and exclusive disjunction of values are those of the integers.\<close>

theorem bigint_bitwise_correct:
  assumes "bi_wf a" and "bi_wf b"
  shows "bi_val (bi_bit_not a) = NOT (bi_val a) \<and>
         bi_val (bitwise_with (AND) a b) = bi_val a AND bi_val b \<and>
         bi_val (bitwise_with (OR) a b) = bi_val a OR bi_val b \<and>
         bi_val (bitwise_with (XOR) a b) = bi_val a XOR bi_val b \<and>
         bi_wf (bi_bit_not a) \<and> bi_wf (bitwise_with (AND) a b) \<and>
         bi_wf (bitwise_with (OR) a b) \<and> bi_wf (bitwise_with (XOR) a b)"
  using assms bi_bit_not_val limb_and.bitwise_with_val limb_or.bitwise_with_val
    limb_xor.bitwise_with_val by simp

theorem bigint_bitwise_correct_witness:
  "bi_val (bitwise_with (AND) (bi_from_i128 (-2)) (bi_from_i128 5)) = 4"
  using bigint_bitwise_correct [of "bi_from_i128 (-2)" "bi_from_i128 5"] by simp

text \<open>C33: Printing a value in decimal always ends, and parsing what it prints gives the value
  back.\<close>

theorem bigint_decimal_roundtrip:
  assumes "bi_wf b"
  shows "\<exists>s. to_decimal_string b = Some s \<and> parse_bigint_text s False = Inr b"
proof (cases "bi_val b = 0")
  case True
  then have "b = bi_zero" using assms bi_val_inject by simp
  moreover have "parse_bigint_text ''0'' False = Inr bi_zero"
    by code_simp
  ultimately show ?thesis using assms True by (simp add: to_decimal_string_val)
next
  case False
  let ?n = "nat \<bar>bi_val b\<bar>" and ?sign = "if bi_val b < 0 then ''-'' else []"
  let ?s = "map digit_char (rev (decimal_digits ?n))"
  have "digit_text ?s" by (rule digit_text_map) (use decimal_digits_less in auto)
  then have "parse_bigint_text (?sign @ ?s) False = from_digits 10 ?s (bi_val b < 0)"
    using parse_digit_text [of ?s ?sign] False by (simp add: decimal_digits_empty)
  moreover obtain b' where "from_digits 10 ?s (bi_val b < 0) = Inr b'" "bi_wf b'" "bi_val b' = bi_val b"
    using from_digits_decimal [of ?n "bi_val b < 0"] False by (auto split: if_splits)
  moreover from this have "b' = b" using assms bi_val_inject by simp
  ultimately show ?thesis using assms False by (simp add: to_decimal_string_val)
qed

theorem bigint_decimal_roundtrip_witness:
  "\<exists>s. to_decimal_string (bi_from_i128 (-40)) = Some s \<and>
       parse_bigint_text s False = Inr (bi_from_i128 (-40))"
  using bigint_decimal_roundtrip [of "bi_from_i128 (-40)"] by simp

text \<open>
  A shift by a BigInt whose magnitude is below \<open>2 ^ 64\<close> is the shift by that number of
  bits, in the opposite direction when the count is negative.\<close>

lemma bigint_shift_by_bigint_correct:
  assumes "bi_wf b" and "bi_wf s" and "\<bar>bi_val s\<bar> < 2 ^ 64"
  shows "(\<exists>c. shift_left_by_bigint b s = Some c \<and> bi_wf c \<and>
            bi_val c = (if bi_val s < 0 then bi_val b div 2 ^ nat (- bi_val s)
                        else bi_val b * 2 ^ nat (bi_val s))) \<and>
         (\<exists>c. shift_right_by_bigint b s = Some c \<and> bi_wf c \<and>
            bi_val c = (if bi_val s < 0 then bi_val b * 2 ^ nat (- bi_val s)
                        else bi_val b div 2 ^ nat (bi_val s)))"
proof -
  have "unat (word_of_int \<bar>bi_val s\<bar> :: u64) = nat \<bar>bi_val s\<bar>"
    using assms(3) by (simp add: unsigned_of_int take_bit_int_eq_self)
  then show ?thesis
    using assms
    by (auto simp: shift_left_by_bigint_def shift_right_by_bigint_def bi_is_negative_val
        bi_to_usize_val abs_if split: if_splits)
qed

text \<open>C34: A shift count of \<open>2 ^ 64\<close> or more is not rejected: the conversion of the count to a
  machine word drops its high limbs, so every non-negative count acts as its residue modulo
  \<open>2 ^ 64\<close>, and \<open>1n << 2n ** 64n\<close> is \<open>1n\<close>.\<close>

theorem bigint_shift_count_wraps:
  assumes "bi_wf b" and "bi_wf s" and "0 \<le> bi_val s"
  shows "shift_left_by_bigint b s = Some (shift_left_bits b (nat (bi_val s mod 2 ^ 64))) \<and>
         shift_right_by_bigint b s = Some (shift_right_bits b (nat (bi_val s mod 2 ^ 64)))"
proof -
  have "unat (word_of_int (bi_val s) :: u64) = nat (bi_val s mod 2 ^ 64)"
    by (simp add: unsigned_of_int take_bit_eq_mod)
  then show ?thesis
    using assms by (simp add: shift_left_by_bigint_def shift_right_by_bigint_def
        bi_is_negative_val bi_to_usize_val)
qed

theorem bigint_shift_count_wraps_witness:
  "shift_left_by_bigint bi_one \<lparr>bi_sign = 1, bi_limbs = [0, 0, 1]\<rparr> = Some bi_one"
  using bigint_shift_count_wraps [of bi_one "\<lparr>bi_sign = 1, bi_limbs = [0, 0, 1]\<rparr>"]
  by (simp add: bi_wf_def [of "\<lparr>bi_sign = _, bi_limbs = _\<rparr>"] bi_val_def shift_left_bits_def)

text \<open>
  Reading digits in a radix ignores underscores, fails exactly when some other character is
  not a digit of the radix or when there is no digit, and otherwise returns the canonical value of
  the digits with the sign asked for.\<close>

lemma bigint_from_digits_correct:
  assumes "radix < 2 ^ 32"
  shows "case those (map (to_digit radix) (filter (\<lambda>c. c \<noteq> CHR ''_'') cs)) of
           None \<Rightarrow> from_digits radix cs negative = Inl ExpectedInt32
         | Some [] \<Rightarrow> from_digits radix cs negative = Inl ExpectedInt32
         | Some (d # ds) \<Rightarrow> \<exists>b. from_digits radix cs negative = Inr b \<and> bi_wf b \<and>
             bi_val b = (if negative then -1 else 1) *
               foldl (\<lambda>a d. a * int radix + int d) 0 (d # ds)"
  using from_digits_loop_val [of bi_zero radix cs False] assms
  by (auto simp: from_digits_def split: option.splits list.splits)

text \<open>
  The conversion of text used for comparisons accepts separators and a sign before a radix
  prefix, which the language's string-to-BigInt conversion rejects.\<close>

lemma bigint_text_accepts_separators:
  "map_option bi_val (string_to_bigint '' 1_0 '') = Some 10 \<and>
   map_option bi_val (string_to_bigint ''-0x1f'') = Some (-31) \<and>
   string_to_bigint ''  '' = Some bi_zero"
proof -
  have "string_to_bigint '' 1_0 '' = (case from_digits 10 ''10'' False of Inl _ \<Rightarrow> None | Inr v \<Rightarrow> Some v)"
    "string_to_bigint ''-0x1f'' = (case from_digits 16 ''1f'' True of Inl _ \<Rightarrow> None | Inr v \<Rightarrow> Some v)"
    by (simp_all add: string_to_bigint_def parse_bigint_constructor_text_def parse_bigint_text_def
        str_trim_def is_whitespace_def radix_and_digits_def or_else_def strip_prefix_def Let_def)
  moreover have "those (map (to_digit 10) (filter (\<lambda>c. c \<noteq> CHR ''_'') ''10'')) = Some [1, 0]"
    "those (map (to_digit 16) (filter (\<lambda>c. c \<noteq> CHR ''_'') ''1f'')) = Some [1, 15]"
    by code_simp+
  note from_digits_some [OF this(1), of False] from_digits_some [OF this(2), of True]
  moreover have "string_to_bigint ''  '' = Some bi_zero"
    by (simp add: string_to_bigint_def str_trim_def is_whitespace_def)
  ultimately show ?thesis by auto
qed

end
