(* ===== verification/Opcode_Table.thy ===== *)
theory Opcode_Table
  imports JSC_Prelude
begin

text \<open>
  The generated table of the 193 opcodes (\<open>src/src/bytecode/generated/opcode_table.rs\<close>) and the
  descriptors built from it (\<open>OpcodeDescriptor\<close>, \<open>descriptor_for\<close> and the named ids of
  \<open>src/src/bytecode/instruction_stream.rs\<close>).
\<close>

datatype operand_kind =
    K_VirtualRegister
  | K_UnsignedImmediate
  | K_SignedImmediate
  | K_Bool
  | K_OperandTypes
  | K_BoundLabel
  | K_ECMAMode
  | K_IndexingType
  | K_SymbolTableOrScopeDepth
  | K_ResolveType
  | K_GetPutInfo
  | K_PutByIdFlags
  | K_ProfileTypeBytecodeFlag
  | K_PrivateFieldPutKind
  | K_ErrorTypeWithExtension
  | K_DebugHookType
  | K_ResultType
  | K_JSType

definition is_signed :: "operand_kind \<Rightarrow> bool" where
  "is_signed k \<longleftrightarrow> k = K_VirtualRegister \<or> k = K_SignedImmediate \<or> k = K_BoundLabel"

record generated_opcode_row =
  row_id :: u8
  row_name :: string
  row_operands :: "operand_kind list"
  row_has_metadata :: bool
  row_num_checkpoints :: u8

definition gen_row ::
  "u8 \<Rightarrow> string \<Rightarrow> operand_kind list \<Rightarrow> bool \<Rightarrow> u8 \<Rightarrow> generated_opcode_row" where
  "gen_row i name operands has_metadata num_checkpoints =
     \<lparr>row_id = i, row_name = name, row_operands = operands, row_has_metadata = has_metadata,
      row_num_checkpoints = num_checkpoints\<rparr>"

definition NUMBER_OF_BYTECODE_IDS :: nat where
  "NUMBER_OF_BYTECODE_IDS = 193"

definition MAX_LENGTH_OF_BYTECODE_IDS :: nat where
  "MAX_LENGTH_OF_BYTECODE_IDS = 10"

definition NUMBER_OF_BYTECODE_WITH_METADATA :: nat where
  "NUMBER_OF_BYTECODE_WITH_METADATA = 49"

definition GENERATED_OPCODE_TABLE :: "generated_opcode_row list" where
  "GENERATED_OPCODE_TABLE =
    [gen_row 0 ''tail_call_varargs'' [K_VirtualRegister, K_VirtualRegister,
         K_VirtualRegister, K_VirtualRegister, K_VirtualRegister, K_SignedImmediate] True 2,
     gen_row 1 ''call_varargs'' [K_VirtualRegister, K_VirtualRegister,
         K_VirtualRegister, K_VirtualRegister, K_VirtualRegister,
         K_SignedImmediate, K_UnsignedImmediate] True 2,
     gen_row 2 ''iterator_next'' [K_VirtualRegister, K_VirtualRegister,
         K_VirtualRegister, K_VirtualRegister, K_VirtualRegister,
         K_UnsignedImmediate, K_UnsignedImmediate, K_UnsignedImmediate,
         K_UnsignedImmediate] True 3,
     gen_row 3 ''construct_varargs'' [K_VirtualRegister, K_VirtualRegister,
         K_VirtualRegister, K_VirtualRegister, K_VirtualRegister,
         K_SignedImmediate, K_UnsignedImmediate] True 2,
     gen_row 4 ''super_construct_varargs'' [K_VirtualRegister, K_VirtualRegister,
         K_VirtualRegister, K_VirtualRegister, K_VirtualRegister,
         K_SignedImmediate, K_UnsignedImmediate] True 2,
     gen_row 5 ''iterator_open'' [K_VirtualRegister, K_VirtualRegister,
         K_VirtualRegister, K_VirtualRegister, K_UnsignedImmediate,
         K_UnsignedImmediate, K_UnsignedImmediate, K_UnsignedImmediate] True 2,
     gen_row 6 ''instanceof'' [K_VirtualRegister, K_VirtualRegister, K_VirtualRegister,
         K_VirtualRegister, K_UnsignedImmediate, K_UnsignedImmediate] True 3,
     gen_row 7 ''set_private_brand'' [K_VirtualRegister, K_VirtualRegister] True 0,
     gen_row 8 ''check_private_brand'' [K_VirtualRegister, K_VirtualRegister] True 0,
     gen_row 9 ''put_by_id'' [K_VirtualRegister, K_UnsignedImmediate, K_VirtualRegister,
         K_PutByIdFlags] True 0,
     gen_row 10 ''construct'' [K_VirtualRegister, K_VirtualRegister,
         K_UnsignedImmediate, K_UnsignedImmediate, K_UnsignedImmediate] True 0,
     gen_row 11 ''super_construct'' [K_VirtualRegister, K_VirtualRegister,
         K_UnsignedImmediate, K_UnsignedImmediate, K_UnsignedImmediate] True 0,
     gen_row 12 ''tail_call'' [K_VirtualRegister, K_VirtualRegister,
         K_UnsignedImmediate, K_UnsignedImmediate] True 0,
     gen_row 13 ''call_direct_eval'' [K_VirtualRegister, K_VirtualRegister,
         K_UnsignedImmediate, K_UnsignedImmediate, K_VirtualRegister,
         K_VirtualRegister, K_UnsignedImmediate, K_UnsignedImmediate] True 0,
     gen_row 14 ''create_generator'' [K_VirtualRegister, K_VirtualRegister] True 0,
     gen_row 15 ''create_async_generator'' [K_VirtualRegister, K_VirtualRegister] True 0,
     gen_row 16 ''create_promise'' [K_VirtualRegister, K_VirtualRegister] True 0,
     gen_row 17 ''catch'' [K_VirtualRegister, K_VirtualRegister] True 0,
     gen_row 18 ''new_array_with_size'' [K_VirtualRegister, K_VirtualRegister] True 0,
     gen_row 19 ''new_array_buffer'' [K_VirtualRegister, K_VirtualRegister,
         K_IndexingType] True 0,
     gen_row 20 ''get_by_id'' [K_VirtualRegister, K_VirtualRegister,
         K_UnsignedImmediate, K_UnsignedImmediate] True 0,
     gen_row 21 ''get_length'' [K_VirtualRegister, K_VirtualRegister, K_UnsignedImmediate] True 0,
     gen_row 22 ''profile_type'' [K_VirtualRegister, K_SymbolTableOrScopeDepth,
         K_ProfileTypeBytecodeFlag, K_UnsignedImmediate, K_ResolveType] True 0,
     gen_row 23 ''profile_control_flow'' [K_SignedImmediate] True 0,
     gen_row 24 ''new_array_with_species'' [K_VirtualRegister, K_VirtualRegister,
         K_VirtualRegister, K_UnsignedImmediate] True 0,
     gen_row 25 ''call'' [K_VirtualRegister, K_VirtualRegister, K_UnsignedImmediate,
         K_UnsignedImmediate, K_UnsignedImmediate] True 0,
     gen_row 26 ''call_ignore_result'' [K_VirtualRegister, K_UnsignedImmediate,
         K_UnsignedImmediate] True 0,
     gen_row 27 ''resolve_scope'' [K_VirtualRegister, K_VirtualRegister,
         K_UnsignedImmediate, K_ResolveType, K_UnsignedImmediate] True 0,
     gen_row 28 ''get_from_scope'' [K_VirtualRegister, K_VirtualRegister,
         K_UnsignedImmediate, K_GetPutInfo, K_UnsignedImmediate,
         K_UnsignedImmediate, K_UnsignedImmediate] True 0,
     gen_row 29 ''put_to_scope'' [K_VirtualRegister, K_UnsignedImmediate,
         K_VirtualRegister, K_GetPutInfo, K_SymbolTableOrScopeDepth,
         K_UnsignedImmediate] True 0,
     gen_row 30 ''create_this'' [K_VirtualRegister, K_VirtualRegister,
         K_UnsignedImmediate] True 0,
     gen_row 31 ''new_object'' [K_VirtualRegister, K_UnsignedImmediate] True 0,
     gen_row 32 ''new_array'' [K_VirtualRegister, K_VirtualRegister,
         K_UnsignedImmediate, K_IndexingType] True 0,
     gen_row 33 ''put_private_name'' [K_VirtualRegister, K_VirtualRegister,
         K_VirtualRegister, K_PrivateFieldPutKind] True 0,
     gen_row 34 ''get_private_name'' [K_VirtualRegister, K_VirtualRegister,
         K_VirtualRegister, K_UnsignedImmediate] True 0,
     gen_row 35 ''get_by_val_with_this'' [K_VirtualRegister, K_VirtualRegister,
         K_VirtualRegister, K_VirtualRegister, K_UnsignedImmediate] True 0,
     gen_row 36 ''get_by_val'' [K_VirtualRegister, K_VirtualRegister, K_VirtualRegister,
         K_UnsignedImmediate] True 0,
     gen_row 37 ''put_by_val'' [K_VirtualRegister, K_VirtualRegister, K_VirtualRegister,
         K_ECMAMode] True 0,
     gen_row 38 ''put_by_val_direct'' [K_VirtualRegister, K_VirtualRegister,
         K_VirtualRegister, K_ECMAMode] True 0,
     gen_row 39 ''in_by_val'' [K_VirtualRegister, K_VirtualRegister, K_VirtualRegister] True 0,
     gen_row 40 ''enumerator_next'' [K_VirtualRegister, K_VirtualRegister,
         K_VirtualRegister, K_VirtualRegister, K_VirtualRegister] True 0,
     gen_row 41 ''enumerator_in_by_val'' [K_VirtualRegister, K_VirtualRegister,
         K_VirtualRegister, K_VirtualRegister, K_VirtualRegister, K_VirtualRegister] True 0,
     gen_row 42 ''enumerator_has_own_property'' [K_VirtualRegister, K_VirtualRegister,
         K_VirtualRegister, K_VirtualRegister, K_VirtualRegister, K_VirtualRegister] True 0,
     gen_row 43 ''enumerator_put_by_val'' [K_VirtualRegister, K_VirtualRegister,
         K_VirtualRegister, K_VirtualRegister, K_VirtualRegister,
         K_VirtualRegister, K_ECMAMode] True 0,
     gen_row 44 ''to_this'' [K_VirtualRegister, K_ECMAMode, K_UnsignedImmediate] True 0,
     gen_row 45 ''enumerator_get_by_val'' [K_VirtualRegister, K_VirtualRegister,
         K_VirtualRegister, K_VirtualRegister, K_VirtualRegister,
         K_VirtualRegister, K_UnsignedImmediate] True 0,
     gen_row 46 ''get_by_id_direct'' [K_VirtualRegister, K_VirtualRegister,
         K_UnsignedImmediate, K_UnsignedImmediate] True 0,
     gen_row 47 ''try_get_by_id'' [K_VirtualRegister, K_VirtualRegister,
         K_UnsignedImmediate, K_UnsignedImmediate] True 0,
     gen_row 48 ''jneq_ptr'' [K_VirtualRegister, K_VirtualRegister, K_BoundLabel] True 0,
     gen_row 49 ''get_argument'' [K_VirtualRegister, K_SignedImmediate,
         K_UnsignedImmediate] False 0,
     gen_row 50 ''get_from_arguments'' [K_VirtualRegister, K_VirtualRegister,
         K_UnsignedImmediate, K_UnsignedImmediate] False 0,
     gen_row 51 ''get_prototype_of'' [K_VirtualRegister, K_VirtualRegister,
         K_UnsignedImmediate] False 0,
     gen_row 52 ''get_internal_field'' [K_VirtualRegister, K_VirtualRegister,
         K_UnsignedImmediate, K_UnsignedImmediate] False 0,
     gen_row 53 ''get_by_id_with_this'' [K_VirtualRegister, K_VirtualRegister,
         K_VirtualRegister, K_UnsignedImmediate, K_UnsignedImmediate] False 0,
     gen_row 54 ''to_object'' [K_VirtualRegister, K_VirtualRegister,
         K_UnsignedImmediate, K_UnsignedImmediate] False 0,
     gen_row 55 ''in_by_id'' [K_VirtualRegister, K_VirtualRegister, K_UnsignedImmediate] False 0,
     gen_row 56 ''has_private_name'' [K_VirtualRegister, K_VirtualRegister,
         K_VirtualRegister] False 0,
     gen_row 57 ''has_private_brand'' [K_VirtualRegister, K_VirtualRegister,
         K_VirtualRegister] False 0,
     gen_row 58 ''put_by_id_with_this'' [K_VirtualRegister, K_VirtualRegister,
         K_UnsignedImmediate, K_VirtualRegister, K_ECMAMode] False 0,
     gen_row 59 ''del_by_id'' [K_VirtualRegister, K_VirtualRegister,
         K_UnsignedImmediate, K_ECMAMode] False 0,
     gen_row 60 ''put_by_val_with_this'' [K_VirtualRegister, K_VirtualRegister,
         K_VirtualRegister, K_VirtualRegister, K_ECMAMode] False 0,
     gen_row 61 ''del_by_val'' [K_VirtualRegister, K_VirtualRegister, K_VirtualRegister,
         K_ECMAMode] False 0,
     gen_row 62 ''put_getter_by_id'' [K_VirtualRegister, K_UnsignedImmediate,
         K_UnsignedImmediate, K_VirtualRegister] False 0,
     gen_row 63 ''put_setter_by_id'' [K_VirtualRegister, K_UnsignedImmediate,
         K_UnsignedImmediate, K_VirtualRegister] False 0,
     gen_row 64 ''put_getter_setter_by_id'' [K_VirtualRegister, K_UnsignedImmediate,
         K_UnsignedImmediate, K_VirtualRegister, K_VirtualRegister] False 0,
     gen_row 65 ''put_getter_by_val'' [K_VirtualRegister, K_VirtualRegister,
         K_UnsignedImmediate, K_VirtualRegister] False 0,
     gen_row 66 ''put_setter_by_val'' [K_VirtualRegister, K_VirtualRegister,
         K_UnsignedImmediate, K_VirtualRegister] False 0,
     gen_row 67 ''define_data_property'' [K_VirtualRegister, K_VirtualRegister,
         K_VirtualRegister, K_VirtualRegister] False 0,
     gen_row 68 ''define_accessor_property'' [K_VirtualRegister, K_VirtualRegister,
         K_VirtualRegister, K_VirtualRegister, K_VirtualRegister] False 0,
     gen_row 69 ''jmp'' [K_BoundLabel] False 0,
     gen_row 70 ''jtrue'' [K_VirtualRegister, K_BoundLabel] False 0,
     gen_row 71 ''jfalse'' [K_VirtualRegister, K_BoundLabel] False 0,
     gen_row 72 ''jeq_null'' [K_VirtualRegister, K_BoundLabel] False 0,
     gen_row 73 ''jneq_null'' [K_VirtualRegister, K_BoundLabel] False 0,
     gen_row 74 ''jundefined_or_null'' [K_VirtualRegister, K_BoundLabel] False 0,
     gen_row 75 ''jnundefined_or_null'' [K_VirtualRegister, K_BoundLabel] False 0,
     gen_row 76 ''jeq_ptr'' [K_VirtualRegister, K_VirtualRegister, K_BoundLabel] False 0,
     gen_row 77 ''jeq'' [K_VirtualRegister, K_VirtualRegister, K_BoundLabel] False 0,
     gen_row 78 ''jstricteq'' [K_VirtualRegister, K_VirtualRegister, K_BoundLabel] False 0,
     gen_row 79 ''jneq'' [K_VirtualRegister, K_VirtualRegister, K_BoundLabel] False 0,
     gen_row 80 ''jnstricteq'' [K_VirtualRegister, K_VirtualRegister, K_BoundLabel] False 0,
     gen_row 81 ''jless'' [K_VirtualRegister, K_VirtualRegister, K_BoundLabel] False 0,
     gen_row 82 ''jlesseq'' [K_VirtualRegister, K_VirtualRegister, K_BoundLabel] False 0,
     gen_row 83 ''jgreater'' [K_VirtualRegister, K_VirtualRegister, K_BoundLabel] False 0,
     gen_row 84 ''jgreatereq'' [K_VirtualRegister, K_VirtualRegister, K_BoundLabel] False 0,
     gen_row 85 ''jnless'' [K_VirtualRegister, K_VirtualRegister, K_BoundLabel] False 0,
     gen_row 86 ''jnlesseq'' [K_VirtualRegister, K_VirtualRegister, K_BoundLabel] False 0,
     gen_row 87 ''jngreater'' [K_VirtualRegister, K_VirtualRegister, K_BoundLabel] False 0,
     gen_row 88 ''jngreatereq'' [K_VirtualRegister, K_VirtualRegister, K_BoundLabel] False 0,
     gen_row 89 ''jbelow'' [K_VirtualRegister, K_VirtualRegister, K_BoundLabel] False 0,
     gen_row 90 ''jbeloweq'' [K_VirtualRegister, K_VirtualRegister, K_BoundLabel] False 0,
     gen_row 91 ''loop_hint'' [] False 0,
     gen_row 92 ''switch_imm'' [K_UnsignedImmediate, K_VirtualRegister] False 0,
     gen_row 93 ''switch_char'' [K_UnsignedImmediate, K_VirtualRegister] False 0,
     gen_row 94 ''switch_string'' [K_UnsignedImmediate, K_VirtualRegister] False 0,
     gen_row 95 ''new_func'' [K_VirtualRegister, K_VirtualRegister, K_UnsignedImmediate] False 0,
     gen_row 96 ''new_func_exp'' [K_VirtualRegister, K_VirtualRegister,
         K_UnsignedImmediate] False 0,
     gen_row 97 ''new_generator_func'' [K_VirtualRegister, K_VirtualRegister,
         K_UnsignedImmediate] False 0,
     gen_row 98 ''new_generator_func_exp'' [K_VirtualRegister, K_VirtualRegister,
         K_UnsignedImmediate] False 0,
     gen_row 99 ''new_async_func'' [K_VirtualRegister, K_VirtualRegister,
         K_UnsignedImmediate] False 0,
     gen_row 100 ''new_async_func_exp'' [K_VirtualRegister, K_VirtualRegister,
         K_UnsignedImmediate] False 0,
     gen_row 101 ''new_async_generator_func'' [K_VirtualRegister, K_VirtualRegister,
         K_UnsignedImmediate] False 0,
     gen_row 102 ''new_async_generator_func_exp'' [K_VirtualRegister, K_VirtualRegister,
         K_UnsignedImmediate] False 0,
     gen_row 103 ''set_function_name'' [K_VirtualRegister, K_VirtualRegister] False 0,
     gen_row 104 ''ret'' [K_VirtualRegister] False 0,
     gen_row 105 ''strcat'' [K_VirtualRegister, K_VirtualRegister, K_SignedImmediate] False 0,
     gen_row 106 ''to_primitive'' [K_VirtualRegister, K_VirtualRegister] False 0,
     gen_row 107 ''to_property_key'' [K_VirtualRegister, K_VirtualRegister] False 0,
     gen_row 108 ''to_property_key_or_number'' [K_VirtualRegister, K_VirtualRegister] False 0,
     gen_row 109 ''put_to_arguments'' [K_VirtualRegister, K_UnsignedImmediate,
         K_VirtualRegister] False 0,
     gen_row 110 ''push_with_scope'' [K_VirtualRegister, K_VirtualRegister,
         K_VirtualRegister] False 0,
     gen_row 111 ''create_lexical_environment'' [K_VirtualRegister, K_VirtualRegister,
         K_VirtualRegister, K_VirtualRegister] False 0,
     gen_row 112 ''create_generator_frame_environment'' [K_VirtualRegister,
         K_VirtualRegister, K_VirtualRegister, K_VirtualRegister] False 0,
     gen_row 113 ''get_parent_scope'' [K_VirtualRegister, K_VirtualRegister] False 0,
     gen_row 114 ''throw'' [K_VirtualRegister] False 0,
     gen_row 115 ''throw_static_error'' [K_VirtualRegister, K_ErrorTypeWithExtension] False 0,
     gen_row 116 ''debug'' [K_DebugHookType, K_VirtualRegister] False 0,
     gen_row 117 ''get_property_enumerator'' [K_VirtualRegister, K_VirtualRegister] False 0,
     gen_row 118 ''unreachable'' [] False 0,
     gen_row 119 ''create_rest'' [K_VirtualRegister, K_UnsignedImmediate] False 0,
     gen_row 120 ''yield'' [K_UnsignedImmediate, K_VirtualRegister] False 0,
     gen_row 121 ''check_traps'' [] False 0,
     gen_row 122 ''log_shadow_chicken_prologue'' [K_VirtualRegister] False 0,
     gen_row 123 ''log_shadow_chicken_tail'' [K_VirtualRegister, K_VirtualRegister] False 0,
     gen_row 124 ''resolve_scope_for_hoisting_func_decl_in_eval'' [K_VirtualRegister,
         K_VirtualRegister, K_UnsignedImmediate] False 0,
     gen_row 125 ''put_internal_field'' [K_VirtualRegister, K_UnsignedImmediate,
         K_VirtualRegister] False 0,
     gen_row 126 ''nop'' [] False 0,
     gen_row 127 ''super_sampler_begin'' [] False 0,
     gen_row 128 ''wide16'' [] False 0,
     gen_row 129 ''super_sampler_end'' [] False 0,
     gen_row 130 ''wide32'' [] False 0,
     gen_row 131 ''enter'' [] False 0,
     gen_row 132 ''get_scope'' [K_VirtualRegister] False 0,
     gen_row 133 ''create_direct_arguments'' [K_VirtualRegister] False 0,
     gen_row 134 ''create_scoped_arguments'' [K_VirtualRegister, K_VirtualRegister] False 0,
     gen_row 135 ''create_cloned_arguments'' [K_VirtualRegister] False 0,
     gen_row 136 ''new_promise'' [K_VirtualRegister] False 0,
     gen_row 137 ''new_generator'' [K_VirtualRegister] False 0,
     gen_row 138 ''new_async_function_generator'' [K_VirtualRegister] False 0,
     gen_row 139 ''argument_count'' [K_VirtualRegister] False 0,
     gen_row 140 ''check_tdz'' [K_VirtualRegister] False 0,
     gen_row 141 ''new_array_with_spread'' [K_VirtualRegister, K_VirtualRegister,
         K_UnsignedImmediate, K_UnsignedImmediate] False 0,
     gen_row 142 ''spread'' [K_VirtualRegister, K_VirtualRegister] False 0,
     gen_row 143 ''new_reg_exp'' [K_VirtualRegister, K_VirtualRegister] False 0,
     gen_row 144 ''mov'' [K_VirtualRegister, K_VirtualRegister] False 0,
     gen_row 145 ''eq'' [K_VirtualRegister, K_VirtualRegister, K_VirtualRegister] False 0,
     gen_row 146 ''neq'' [K_VirtualRegister, K_VirtualRegister, K_VirtualRegister] False 0,
     gen_row 147 ''stricteq'' [K_VirtualRegister, K_VirtualRegister, K_VirtualRegister] False 0,
     gen_row 148 ''nstricteq'' [K_VirtualRegister, K_VirtualRegister, K_VirtualRegister] False 0,
     gen_row 149 ''less'' [K_VirtualRegister, K_VirtualRegister, K_VirtualRegister] False 0,
     gen_row 150 ''lesseq'' [K_VirtualRegister, K_VirtualRegister, K_VirtualRegister] False 0,
     gen_row 151 ''greater'' [K_VirtualRegister, K_VirtualRegister, K_VirtualRegister] False 0,
     gen_row 152 ''greatereq'' [K_VirtualRegister, K_VirtualRegister, K_VirtualRegister] False 0,
     gen_row 153 ''below'' [K_VirtualRegister, K_VirtualRegister, K_VirtualRegister] False 0,
     gen_row 154 ''beloweq'' [K_VirtualRegister, K_VirtualRegister, K_VirtualRegister] False 0,
     gen_row 155 ''mod'' [K_VirtualRegister, K_VirtualRegister, K_VirtualRegister] False 0,
     gen_row 156 ''pow'' [K_VirtualRegister, K_VirtualRegister, K_VirtualRegister] False 0,
     gen_row 157 ''urshift'' [K_VirtualRegister, K_VirtualRegister, K_VirtualRegister] False 0,
     gen_row 158 ''add'' [K_VirtualRegister, K_VirtualRegister, K_VirtualRegister,
         K_UnsignedImmediate, K_OperandTypes] False 0,
     gen_row 159 ''mul'' [K_VirtualRegister, K_VirtualRegister, K_VirtualRegister,
         K_UnsignedImmediate, K_OperandTypes] False 0,
     gen_row 160 ''div'' [K_VirtualRegister, K_VirtualRegister, K_VirtualRegister,
         K_UnsignedImmediate, K_OperandTypes] False 0,
     gen_row 161 ''sub'' [K_VirtualRegister, K_VirtualRegister, K_VirtualRegister,
         K_UnsignedImmediate, K_OperandTypes] False 0,
     gen_row 162 ''bitand'' [K_VirtualRegister, K_VirtualRegister, K_VirtualRegister,
         K_UnsignedImmediate, K_OperandTypes] False 0,
     gen_row 163 ''bitor'' [K_VirtualRegister, K_VirtualRegister, K_VirtualRegister,
         K_UnsignedImmediate, K_OperandTypes] False 0,
     gen_row 164 ''bitxor'' [K_VirtualRegister, K_VirtualRegister, K_VirtualRegister,
         K_UnsignedImmediate, K_OperandTypes] False 0,
     gen_row 165 ''lshift'' [K_VirtualRegister, K_VirtualRegister, K_VirtualRegister,
         K_UnsignedImmediate] False 0,
     gen_row 166 ''rshift'' [K_VirtualRegister, K_VirtualRegister, K_VirtualRegister,
         K_UnsignedImmediate] False 0,
     gen_row 167 ''eq_null'' [K_VirtualRegister, K_VirtualRegister] False 0,
     gen_row 168 ''neq_null'' [K_VirtualRegister, K_VirtualRegister] False 0,
     gen_row 169 ''to_string'' [K_VirtualRegister, K_VirtualRegister] False 0,
     gen_row 170 ''unsigned'' [K_VirtualRegister, K_VirtualRegister] False 0,
     gen_row 171 ''is_empty'' [K_VirtualRegister, K_VirtualRegister] False 0,
     gen_row 172 ''typeof_is_undefined'' [K_VirtualRegister, K_VirtualRegister] False 0,
     gen_row 173 ''typeof_is_object'' [K_VirtualRegister, K_VirtualRegister] False 0,
     gen_row 174 ''typeof_is_function'' [K_VirtualRegister, K_VirtualRegister] False 0,
     gen_row 175 ''is_undefined_or_null'' [K_VirtualRegister, K_VirtualRegister] False 0,
     gen_row 176 ''is_boolean'' [K_VirtualRegister, K_VirtualRegister] False 0,
     gen_row 177 ''is_number'' [K_VirtualRegister, K_VirtualRegister] False 0,
     gen_row 178 ''is_big_int'' [K_VirtualRegister, K_VirtualRegister] False 0,
     gen_row 179 ''is_object'' [K_VirtualRegister, K_VirtualRegister] False 0,
     gen_row 180 ''is_callable'' [K_VirtualRegister, K_VirtualRegister] False 0,
     gen_row 181 ''is_constructor'' [K_VirtualRegister, K_VirtualRegister] False 0,
     gen_row 182 ''inc'' [K_VirtualRegister, K_UnsignedImmediate] False 0,
     gen_row 183 ''dec'' [K_VirtualRegister, K_UnsignedImmediate] False 0,
     gen_row 184 ''negate'' [K_VirtualRegister, K_VirtualRegister, K_UnsignedImmediate,
         K_ResultType] False 0,
     gen_row 185 ''not'' [K_VirtualRegister, K_VirtualRegister] False 0,
     gen_row 186 ''identity_with_profile'' [K_VirtualRegister, K_UnsignedImmediate,
         K_UnsignedImmediate] False 0,
     gen_row 187 ''typeof'' [K_VirtualRegister, K_VirtualRegister] False 0,
     gen_row 188 ''is_cell_with_type'' [K_VirtualRegister, K_VirtualRegister, K_JSType] False 0,
     gen_row 189 ''has_structure_with_flags'' [K_VirtualRegister, K_VirtualRegister,
         K_UnsignedImmediate] False 0,
     gen_row 190 ''to_number'' [K_VirtualRegister, K_VirtualRegister, K_UnsignedImmediate] False 0,
     gen_row 191 ''to_numeric'' [K_VirtualRegister, K_VirtualRegister,
         K_UnsignedImmediate] False 0,
     gen_row 192 ''bitnot'' [K_VirtualRegister, K_VirtualRegister, K_UnsignedImmediate] False 0]"

text \<open>
  \<open>generated_id\<close> looks an id up by name at compile time; a name that is missing fails the build,
  which is \<open>None\<close> here.
\<close>

definition generated_id :: "string \<Rightarrow> u8 option" where
  "generated_id name =
     map_option row_id (find (\<lambda>row. row_name row = name) GENERATED_OPCODE_TABLE)"

definition id_or_0 :: "u8 option \<Rightarrow> u8" where
  "id_or_0 i = (case i of Some w \<Rightarrow> w | None \<Rightarrow> 0)"

definition op_RET :: u8 where "op_RET = id_or_0 (generated_id ''ret'')"
definition op_WIDE16 :: u8 where "op_WIDE16 = id_or_0 (generated_id ''wide16'')"
definition op_WIDE32 :: u8 where "op_WIDE32 = id_or_0 (generated_id ''wide32'')"
definition op_MOV :: u8 where "op_MOV = id_or_0 (generated_id ''mov'')"

text \<open>The bridge to the interpreter's opcodes admits two of them.\<close>

datatype core_opcode = Core_Move | Core_Return

record opcode_descriptor =
  od_id :: u8
  od_name :: string
  od_operands :: "operand_kind list"
  od_has_metadata :: bool
  od_num_checkpoints :: u8
  od_is_wide_prefix :: bool
  od_core :: "core_opcode option"

definition opcode_length :: "opcode_descriptor \<Rightarrow> nat" where
  "opcode_length d = length (od_operands d) + (if od_has_metadata d then 1 else 0)"

text \<open>A panic of the code on an index out of range is \<open>None\<close>.\<close>

definition operand_kind_at :: "opcode_descriptor \<Rightarrow> nat \<Rightarrow> operand_kind option" where
  "operand_kind_at d index =
     (if index < length (od_operands d) then Some (od_operands d ! index)
      else if od_has_metadata d \<and> index = length (od_operands d) then Some K_UnsignedImmediate
      else None)"

definition overlay_generated_row :: "generated_opcode_row \<Rightarrow> opcode_descriptor" where
  "overlay_generated_row row =
     \<lparr>od_id = row_id row, od_name = row_name row, od_operands = row_operands row,
      od_has_metadata = row_has_metadata row, od_num_checkpoints = row_num_checkpoints row,
      od_is_wide_prefix = (row_id row = op_WIDE16 \<or> row_id row = op_WIDE32),
      od_core = (if row_id row = op_MOV then Some Core_Move
                 else if row_id row = op_RET then Some Core_Return else None)\<rparr>"

definition OPCODE_TABLE :: "opcode_descriptor list" where
  "OPCODE_TABLE = map overlay_generated_row GENERATED_OPCODE_TABLE"

definition descriptor_for :: "u8 \<Rightarrow> opcode_descriptor option" where
  "descriptor_for i = vec_get OPCODE_TABLE (unat i)"

section \<open>Facts checked on the table\<close>

lemma table_length: "length GENERATED_OPCODE_TABLE = 193"
  by (simp add: GENERATED_OPCODE_TABLE_def)

lemma table_ids: "map row_id GENERATED_OPCODE_TABLE = map of_nat [0..<193]"
  by code_simp

lemma generated_ids:
  "generated_id ''ret'' = Some 104" "generated_id ''wide16'' = Some 128"
  "generated_id ''wide32'' = Some 130" "generated_id ''mov'' = Some 144"
  by code_simp+

lemma named_ids [simp]:
  "op_RET = 104" "op_WIDE16 = 128" "op_WIDE32 = 130" "op_MOV = 144"
  by (simp_all add: op_RET_def op_WIDE16_def op_WIDE32_def op_MOV_def generated_ids id_or_0_def)

lemma table_lengths:
  "list_all (\<lambda>row. length (row_operands row) + (if row_has_metadata row then 1 else 0)
     \<le> MAX_LENGTH_OF_BYTECODE_IDS) GENERATED_OPCODE_TABLE"
  by code_simp

lemma table_metadata:
  "map row_has_metadata GENERATED_OPCODE_TABLE = map (\<lambda>i. i < 49) [0..<193]"
  by code_simp

lemma descriptor_for_Some_iff:
  "descriptor_for i = Some d \<longleftrightarrow>
     unat i < 193 \<and> d = overlay_generated_row (GENERATED_OPCODE_TABLE ! unat i)"
  by (auto simp: descriptor_for_def OPCODE_TABLE_def vec_get_def table_length)

lemma row_id_nth:
  assumes "n < 193" shows "row_id (GENERATED_OPCODE_TABLE ! n) = of_nat n"
proof -
  have "map row_id GENERATED_OPCODE_TABLE ! n = of_nat n"
    unfolding table_ids using assms by simp
  then show ?thesis using assms by (simp add: table_length)
qed

lemma descriptor_for_id: "descriptor_for i = Some d \<Longrightarrow> od_id d = i"
  by (auto simp: descriptor_for_Some_iff overlay_generated_row_def row_id_nth)

lemma descriptor_for_prefix:
  "descriptor_for i = Some d \<Longrightarrow> od_is_wide_prefix d \<longleftrightarrow> i = op_WIDE16 \<or> i = op_WIDE32"
  by (auto simp: descriptor_for_Some_iff overlay_generated_row_def row_id_nth)

lemma opcode_length_max:
  assumes "descriptor_for i = Some d" shows "opcode_length d \<le> MAX_LENGTH_OF_BYTECODE_IDS"
proof -
  have "unat i < 193" and d: "d = overlay_generated_row (GENERATED_OPCODE_TABLE ! unat i)"
    using assms by (simp_all add: descriptor_for_Some_iff)
  then have "GENERATED_OPCODE_TABLE ! unat i \<in> set GENERATED_OPCODE_TABLE"
    by (simp add: table_length)
  with table_lengths show ?thesis
    unfolding list_all_iff d by (auto simp: opcode_length_def overlay_generated_row_def)
qed

lemma rows_mov_ret:
  "GENERATED_OPCODE_TABLE ! 144 = gen_row 144 ''mov'' [K_VirtualRegister, K_VirtualRegister] False 0"
  "GENERATED_OPCODE_TABLE ! 104 = gen_row 104 ''ret'' [K_VirtualRegister] False 0"
  by (simp_all add: GENERATED_OPCODE_TABLE_def)

lemma descriptor_mov:
  "descriptor_for 144 =
     Some \<lparr>od_id = 144, od_name = ''mov'', od_operands = [K_VirtualRegister, K_VirtualRegister],
       od_has_metadata = False, od_num_checkpoints = 0, od_is_wide_prefix = False,
       od_core = Some Core_Move\<rparr>"
  by (simp add: descriptor_for_Some_iff rows_mov_ret overlay_generated_row_def gen_row_def)

lemma descriptor_ret:
  "descriptor_for 104 =
     Some \<lparr>od_id = 104, od_name = ''ret'', od_operands = [K_VirtualRegister],
       od_has_metadata = False, od_num_checkpoints = 0, od_is_wide_prefix = False,
       od_core = Some Core_Return\<rparr>"
  by (simp add: descriptor_for_Some_iff rows_mov_ret overlay_generated_row_def gen_row_def)

text \<open>
  The table is indexed by opcode id: a lookup succeeds exactly for the ids below 193 and
  returns the row with that id; every instruction has at most ten operand slots, the opcodes with
  metadata are exactly those below 49, and only the two width prefixes are marked as such.\<close>

lemma opcode_table_indexed:
  "case descriptor_for i of
     None \<Rightarrow> NUMBER_OF_BYTECODE_IDS \<le> unat i
   | Some d \<Rightarrow> unat i < NUMBER_OF_BYTECODE_IDS \<and> od_id d = i \<and>
       opcode_length d \<le> MAX_LENGTH_OF_BYTECODE_IDS \<and>
       (od_has_metadata d \<longleftrightarrow> unat i < NUMBER_OF_BYTECODE_WITH_METADATA) \<and>
       (od_is_wide_prefix d \<longleftrightarrow> i = op_WIDE16 \<or> i = op_WIDE32)"
proof (cases "descriptor_for i")
  case None
  then show ?thesis
    by (simp add: descriptor_for_def OPCODE_TABLE_def vec_get_def table_length
        NUMBER_OF_BYTECODE_IDS_def split: if_splits)
next
  case (Some d)
  then have i: "unat i < 193" "d = overlay_generated_row (GENERATED_OPCODE_TABLE ! unat i)"
    by (simp_all add: descriptor_for_Some_iff)
  have "map row_has_metadata GENERATED_OPCODE_TABLE ! unat i \<longleftrightarrow> unat i < 49"
    unfolding table_metadata using i(1) by simp
  then have "od_has_metadata d \<longleftrightarrow> unat i < 49"
    using i by (simp add: table_length overlay_generated_row_def)
  then show ?thesis
    using Some i(1) descriptor_for_id opcode_length_max descriptor_for_prefix
    by (simp add: NUMBER_OF_BYTECODE_IDS_def NUMBER_OF_BYTECODE_WITH_METADATA_def)
qed

end
