(* ===== verification/Virtual_Register.thy ===== *)
theory Virtual_Register
  imports JSC_Prelude
begin

text \<open>
  The virtual-register namespace (\<open>src/src/bytecode/register.rs\<close>): locals, call-frame header slots,
  arguments and constants share one signed 32-bit number.  An \<open>i32\<close> is an integer here; the casts
  between \<open>i32\<close> and \<open>u32\<close> of the code are written out as wrap-around, and \<open>in_i32\<close> is the range of
  the type.
\<close>

definition in_i32 :: "int \<Rightarrow> bool" where
  "in_i32 i \<longleftrightarrow> - (2 ^ 31) \<le> i \<and> i < 2 ^ 31"

text \<open>\<open>as i32\<close>: the two's complement reading of the low 32 bits.\<close>

definition as_i32 :: "int \<Rightarrow> int" where
  "as_i32 i = signed_take_bit 31 i"

text \<open>\<open>as u32\<close>.\<close>

definition as_u32 :: "int \<Rightarrow> u32" where
  "as_u32 i = word_of_int i"

definition FIRST_CONSTANT_REGISTER_INDEX :: int where
  "FIRST_CONSTANT_REGISTER_INDEX = 0x40000000"

definition FIRST_CONSTANT_REGISTER_INDEX8 :: int where
  "FIRST_CONSTANT_REGISTER_INDEX8 = 16"

definition FIRST_CONSTANT_REGISTER_INDEX16 :: int where
  "FIRST_CONSTANT_REGISTER_INDEX16 = 64"

definition INVALID_VIRTUAL_REGISTER :: int where
  "INVALID_VIRTUAL_REGISTER = 0x3fffffff"

lemmas register_consts =
  FIRST_CONSTANT_REGISTER_INDEX_def FIRST_CONSTANT_REGISTER_INDEX8_def
  FIRST_CONSTANT_REGISTER_INDEX16_def INVALID_VIRTUAL_REGISTER_def

type_synonym virtual_register = int

definition vr_is_valid :: "virtual_register \<Rightarrow> bool" where
  "vr_is_valid r \<longleftrightarrow> r \<noteq> INVALID_VIRTUAL_REGISTER"

definition vr_is_local :: "virtual_register \<Rightarrow> bool" where
  "vr_is_local r \<longleftrightarrow> r < 0"

definition vr_is_argument_or_header :: "virtual_register \<Rightarrow> bool" where
  "vr_is_argument_or_header r \<longleftrightarrow> 0 \<le> r \<and> r < FIRST_CONSTANT_REGISTER_INDEX"

definition vr_is_constant :: "virtual_register \<Rightarrow> bool" where
  "vr_is_constant r \<longleftrightarrow> FIRST_CONSTANT_REGISTER_INDEX \<le> r"

definition vr_local :: "u32 \<Rightarrow> virtual_register" where
  "vr_local index = as_i32 (- (as_i32 (as_i32 (uint index) + 1)))"

definition vr_argument_or_header :: "u32 \<Rightarrow> virtual_register" where
  "vr_argument_or_header raw_slot = as_i32 (uint raw_slot)"

definition vr_argument_including_this :: "u32 \<Rightarrow> int \<Rightarrow> virtual_register" where
  "vr_argument_including_this argument_index this_offset =
     as_i32 (this_offset + as_i32 (uint argument_index))"

definition vr_constant :: "u32 \<Rightarrow> virtual_register" where
  "vr_constant index = as_i32 (FIRST_CONSTANT_REGISTER_INDEX + as_i32 (uint index))"

definition vr_to_local_index :: "virtual_register \<Rightarrow> u32 option" where
  "vr_to_local_index r = (if vr_is_local r then Some (as_u32 (-1 - r)) else None)"

definition vr_to_constant_index :: "virtual_register \<Rightarrow> u32 option" where
  "vr_to_constant_index r =
     (if vr_is_constant r then Some (as_u32 (r - FIRST_CONSTANT_REGISTER_INDEX)) else None)"

record call_frame_slot_layout =
  header_slot_count :: u32
  this_argument_offset :: int

definition layout_JSC_RUST :: call_frame_slot_layout where
  "layout_JSC_RUST = \<lparr>header_slot_count = 5, this_argument_offset = 5\<rparr>"

definition is_header_register :: "call_frame_slot_layout \<Rightarrow> virtual_register \<Rightarrow> bool" where
  "is_header_register l r \<longleftrightarrow> vr_is_argument_or_header r \<and> r < this_argument_offset l"

definition is_argument_register :: "call_frame_slot_layout \<Rightarrow> virtual_register \<Rightarrow> bool" where
  "is_argument_register l r \<longleftrightarrow> vr_is_argument_or_header r \<and> this_argument_offset l \<le> r"

datatype register_class =
    RC_Invalid
  | RC_Local u32
  | RC_CallFrameHeader u32
  | RC_ArgumentIncludingThis u32
  | RC_Constant u32

definition vr_classify :: "virtual_register \<Rightarrow> int \<Rightarrow> register_class" where
  "vr_classify r this_offset =
     (let layout = \<lparr>header_slot_count = as_u32 this_offset, this_argument_offset = this_offset\<rparr> in
      if \<not> vr_is_valid r then RC_Invalid
      else case vr_to_local_index r of
             Some index \<Rightarrow> RC_Local index
           | None \<Rightarrow>
      (case vr_to_constant_index r of
         Some index \<Rightarrow> RC_Constant index
       | None \<Rightarrow>
           if is_header_register layout r then RC_CallFrameHeader (as_u32 r)
           else if is_argument_register layout r
           then RC_ArgumentIncludingThis (as_u32 (r - this_offset))
           else RC_Invalid))"

section \<open>The namespace is partitioned\<close>

lemma as_i32_id [simp]: "in_i32 i \<Longrightarrow> as_i32 i = i"
  by (simp add: as_i32_def in_i32_def signed_take_bit_int_eq_self)

lemma uint_as_u32 [simp]: "0 \<le> i \<Longrightarrow> i < 4294967296 \<Longrightarrow> uint (as_u32 i) = i"
  by (simp add: as_u32_def uint_word_of_int)

definition class_register :: "int \<Rightarrow> register_class \<Rightarrow> virtual_register" where
  "class_register this_offset c =
     (case c of
        RC_Invalid \<Rightarrow> INVALID_VIRTUAL_REGISTER
      | RC_Local i \<Rightarrow> vr_local i
      | RC_CallFrameHeader s \<Rightarrow> vr_argument_or_header s
      | RC_ArgumentIncludingThis i \<Rightarrow> vr_argument_including_this i this_offset
      | RC_Constant i \<Rightarrow> vr_constant i)"

text \<open>
  Classifying a register with a call frame whose header lies below the constants loses
  nothing: the constructor of the class, applied to the index found, gives the register back, and
  only the sentinel is invalid.\<close>

lemma register_classify_roundtrip:
  assumes "in_i32 r" and "0 \<le> this_offset" and "this_offset \<le> FIRST_CONSTANT_REGISTER_INDEX"
  shows "class_register this_offset (vr_classify r this_offset) = r \<and>
         (vr_classify r this_offset = RC_Invalid \<longleftrightarrow> r = INVALID_VIRTUAL_REGISTER)"
proof -
  consider (local) "r < 0" | (frame) "0 \<le> r" "r < 0x40000000" | (const) "0x40000000 \<le> r"
    by linarith
  then show ?thesis
  proof cases
    case local
    have "vr_local (as_u32 (- 1 - r)) = r"
    proof (cases "r = - 2147483648")
      case True
      then show ?thesis by (simp add: vr_local_def as_i32_def)
    next
      case False
      with local assms(1) show ?thesis by (simp add: vr_local_def in_i32_def)
    qed
    then show ?thesis
      using local
      by (simp add: vr_classify_def class_register_def vr_to_local_index_def vr_is_local_def
          vr_is_valid_def register_consts)
  next
    case frame
    then have "in_i32 r" "this_offset \<le> r \<Longrightarrow> in_i32 (r - this_offset)"
      using assms by (simp_all add: in_i32_def)
    then show ?thesis
      using frame assms
      by (auto simp: vr_classify_def class_register_def vr_to_local_index_def vr_is_local_def
          vr_is_valid_def vr_to_constant_index_def vr_is_constant_def is_header_register_def
          is_argument_register_def vr_is_argument_or_header_def vr_argument_or_header_def
          vr_argument_including_this_def register_consts Let_def)
  next
    case const
    then have "in_i32 (r - 0x40000000)" "r - 0x40000000 < 4294967296"
      using assms by (simp_all add: in_i32_def)
    then show ?thesis
      using const assms(1)
      by (simp add: vr_classify_def class_register_def vr_to_local_index_def vr_is_local_def
          vr_is_valid_def vr_to_constant_index_def vr_is_constant_def vr_constant_def
          register_consts)
  qed
qed

end
