(* ===== verification/Instruction_Stream.thy ===== *)
theory Instruction_Stream
  imports Opcode_Table Virtual_Register
begin

text \<open>
  The packed instruction stream (\<open>src/src/bytecode/instruction_stream.rs\<close>): operand values and
  their width-dependent encodings, the writer that chooses the width of an instruction, the checked
  and unchecked decoders and the cursor that walks a stream.  A \<open>usize\<close> offset is a natural
  number: the length of a vector is below \<open>2 ^ 63\<close>, so the sums of the code do not saturate.
  An \<open>i32\<close> or \<open>i64\<close> is an integer, the unsigned types are words.
\<close>

section \<open>Widths and operand values\<close>

datatype opcode_size = Narrow | Wide16 | Wide32

definition OPCODE_ID_BYTES :: nat where
  "OPCODE_ID_BYTES = 1"

fun operand_bytes :: "opcode_size \<Rightarrow> nat" where
  "operand_bytes Narrow = 1"
| "operand_bytes Wide16 = 2"
| "operand_bytes Wide32 = 4"

fun size_shift_amount :: "opcode_size \<Rightarrow> nat" where
  "size_shift_amount Narrow = 0"
| "size_shift_amount Wide16 = 1"
| "size_shift_amount Wide32 = 2"

fun prefix_bytes :: "opcode_size \<Rightarrow> nat" where
  "prefix_bytes Narrow = 0"
| "prefix_bytes Wide16 = 1"
| "prefix_bytes Wide32 = 1"

definition signed_min :: "opcode_size \<Rightarrow> int" where
  "signed_min w = - (2 ^ (8 * operand_bytes w - 1))"

definition signed_max :: "opcode_size \<Rightarrow> int" where
  "signed_max w = 2 ^ (8 * operand_bytes w - 1) - 1"

definition unsigned_max :: "opcode_size \<Rightarrow> u64" where
  "unsigned_max w = push_bit (8 * operand_bytes w) 1 - 1"

datatype operand_value =
    VirtualRegister int
  | UnsignedImmediate u32
  | SignedImmediate int
  | Bool bool
  | OperandTypes u16
  | BoundLabel int
  | ECMAMode u8
  | IndexingType u8
  | SymbolTableOrScopeDepth u32
  | ResolveType u32
  | GetPutInfo u32
  | PutByIdFlags u8
  | ProfileTypeBytecodeFlag u32
  | PrivateFieldPutKind u8
  | ErrorTypeWithExtension u8
  | DebugHookType u32
  | ResultType u8
  | JSType u8

fun ov_kind :: "operand_value \<Rightarrow> operand_kind" where
  "ov_kind (VirtualRegister _) = K_VirtualRegister"
| "ov_kind (UnsignedImmediate _) = K_UnsignedImmediate"
| "ov_kind (SignedImmediate _) = K_SignedImmediate"
| "ov_kind (Bool _) = K_Bool"
| "ov_kind (OperandTypes _) = K_OperandTypes"
| "ov_kind (BoundLabel _) = K_BoundLabel"
| "ov_kind (ECMAMode _) = K_ECMAMode"
| "ov_kind (IndexingType _) = K_IndexingType"
| "ov_kind (SymbolTableOrScopeDepth _) = K_SymbolTableOrScopeDepth"
| "ov_kind (ResolveType _) = K_ResolveType"
| "ov_kind (GetPutInfo _) = K_GetPutInfo"
| "ov_kind (PutByIdFlags _) = K_PutByIdFlags"
| "ov_kind (ProfileTypeBytecodeFlag _) = K_ProfileTypeBytecodeFlag"
| "ov_kind (PrivateFieldPutKind _) = K_PrivateFieldPutKind"
| "ov_kind (ErrorTypeWithExtension _) = K_ErrorTypeWithExtension"
| "ov_kind (DebugHookType _) = K_DebugHookType"
| "ov_kind (ResultType _) = K_ResultType"
| "ov_kind (JSType _) = K_JSType"

fun as_i64 :: "operand_value \<Rightarrow> int" where
  "as_i64 (VirtualRegister v) = v"
| "as_i64 (UnsignedImmediate v) = uint v"
| "as_i64 (SignedImmediate v) = v"
| "as_i64 (Bool v) = (if v then 1 else 0)"
| "as_i64 (OperandTypes v) = uint v"
| "as_i64 (BoundLabel v) = v"
| "as_i64 (ECMAMode v) = uint v"
| "as_i64 (IndexingType v) = uint v"
| "as_i64 (SymbolTableOrScopeDepth v) = uint v"
| "as_i64 (ResolveType v) = uint v"
| "as_i64 (GetPutInfo v) = uint v"
| "as_i64 (PutByIdFlags v) = uint v"
| "as_i64 (ProfileTypeBytecodeFlag v) = uint v"
| "as_i64 (PrivateFieldPutKind v) = uint v"
| "as_i64 (ErrorTypeWithExtension v) = uint v"
| "as_i64 (DebugHookType v) = uint v"
| "as_i64 (ResultType v) = uint v"
| "as_i64 (JSType v) = uint v"

subsection \<open>Registers\<close>

fun first_constant_for_width :: "opcode_size \<Rightarrow> int option" where
  "first_constant_for_width Narrow = Some FIRST_CONSTANT_REGISTER_INDEX8"
| "first_constant_for_width Wide16 = Some FIRST_CONSTANT_REGISTER_INDEX16"
| "first_constant_for_width Wide32 = None"

text \<open>\<open>i32::saturating_add\<close>.\<close>

definition saturating_add_i32 :: "int \<Rightarrow> int \<Rightarrow> int" where
  "saturating_add_i32 a b = min (2 ^ 31 - 1) (max (- (2 ^ 31)) (a + b))"

definition virtual_register_fits_check :: "int \<Rightarrow> opcode_size \<Rightarrow> bool" where
  "virtual_register_fits_check r w =
     (case first_constant_for_width w of
        Some first_constant \<Rightarrow>
          (case vr_to_constant_index r of
             Some constant_index \<Rightarrow>
               saturating_add_i32 first_constant (as_i32 (uint constant_index)) \<le> as_i32 (signed_max w)
           | None \<Rightarrow> signed_min w \<le> r \<and> r < first_constant)
      | None \<Rightarrow> signed_min w \<le> r \<and> r \<le> signed_max w)"

definition virtual_register_fits_convert :: "int \<Rightarrow> opcode_size \<Rightarrow> int" where
  "virtual_register_fits_convert r w =
     (case first_constant_for_width w of
        Some first_constant \<Rightarrow>
          (case vr_to_constant_index r of
             Some constant_index \<Rightarrow> as_i32 (first_constant + as_i32 (uint constant_index))
           | None \<Rightarrow> r)
      | None \<Rightarrow> r)"

definition virtual_register_fits_decode :: "int \<Rightarrow> opcode_size \<Rightarrow> int" where
  "virtual_register_fits_decode encoded w =
     (case first_constant_for_width w of
        Some first_constant \<Rightarrow>
          let encoded = as_i32 encoded in
          if encoded \<ge> first_constant then vr_constant (as_u32 (encoded - first_constant)) else encoded
      | None \<Rightarrow> as_i32 encoded)"

subsection \<open>\<open>GetPutInfo\<close>\<close>

definition get_put_info_fields :: "u32 \<Rightarrow> u32 \<times> u32 \<times> u32 \<times> u32" where
  "get_put_info_fields operand =
     (operand AND 0x3ff, drop_bit 10 operand AND 0x3ff, drop_bit 20 operand AND 0x3ff,
      drop_bit 30 operand AND 1)"

definition get_put_info_fits_check :: "u32 \<Rightarrow> opcode_size \<Rightarrow> bool" where
  "get_put_info_fits_check operand w =
     (if w = Wide32 then True
      else let (resolve_type, initialization_mode, resolve_mode, _) = get_put_info_fields operand
           in resolve_type < 16 \<and> initialization_mode < 4 \<and> resolve_mode < 2)"

definition get_put_info_fits_convert :: "u32 \<Rightarrow> opcode_size \<Rightarrow> u64" where
  "get_put_info_fits_convert operand w =
     (if w = Wide32 then ucast operand
      else let (resolve_type, initialization_mode, resolve_mode, is_strict) =
                 get_put_info_fields operand
           in ucast (((push_bit 7 is_strict OR push_bit 3 resolve_type)
                OR push_bit 1 initialization_mode) OR resolve_mode))"

definition get_put_info_fits_decode :: "u64 \<Rightarrow> opcode_size \<Rightarrow> u32" where
  "get_put_info_fits_decode raw w =
     (if w = Wide32 then ucast raw
      else let resolve_type = ucast (drop_bit 3 raw AND 0xf) :: u32;
               initialization_mode = ucast (drop_bit 1 raw AND 0x3);
               resolve_mode = ucast (raw AND 0x1);
               is_strict = ucast (drop_bit 7 raw AND 0x1)
           in ((push_bit 30 is_strict OR push_bit 20 resolve_mode)
                OR push_bit 10 initialization_mode) OR resolve_type)"

subsection \<open>\<open>OperandTypes\<close>\<close>

definition RESULT_TYPE_UNKNOWN_BITS :: u16 where
  "RESULT_TYPE_UNKNOWN_BITS = 0x7e"

definition UNKNOWN_OPERAND_TYPES_BITS :: u16 where
  "UNKNOWN_OPERAND_TYPES_BITS = RESULT_TYPE_UNKNOWN_BITS OR push_bit 8 RESULT_TYPE_UNKNOWN_BITS"

definition OPERAND_TYPES_MAX_TYPE :: u16 where
  "OPERAND_TYPES_MAX_TYPE = 15"

definition operand_types_first_second :: "u16 \<Rightarrow> u16 \<times> u16" where
  "operand_types_first_second bits = (bits AND 0xff, drop_bit 8 bits)"

definition operand_types_narrow_remap :: "u16 \<Rightarrow> u16" where
  "operand_types_narrow_remap type_bits =
     (if type_bits = RESULT_TYPE_UNKNOWN_BITS then 0 else type_bits)"

definition operand_types_fits_check :: "u16 \<Rightarrow> opcode_size \<Rightarrow> bool" where
  "operand_types_fits_check bits w =
     (if w \<noteq> Narrow then True
      else let (first, second) = operand_types_first_second bits
           in operand_types_narrow_remap first \<le> OPERAND_TYPES_MAX_TYPE \<and>
              operand_types_narrow_remap second \<le> OPERAND_TYPES_MAX_TYPE)"

definition operand_types_fits_convert :: "u16 \<Rightarrow> opcode_size \<Rightarrow> u64" where
  "operand_types_fits_convert bits w =
     (if w \<noteq> Narrow then ucast bits
      else let (first, second) = operand_types_first_second bits
           in ucast (push_bit 4 (operand_types_narrow_remap first)
                OR operand_types_narrow_remap second))"

definition operand_types_fits_decode :: "u64 \<Rightarrow> opcode_size \<Rightarrow> u16" where
  "operand_types_fits_decode raw w =
     (if w \<noteq> Narrow then ucast raw
      else let first = ucast (drop_bit 4 raw AND ucast OPERAND_TYPES_MAX_TYPE) :: u16;
               second = ucast (raw AND ucast OPERAND_TYPES_MAX_TYPE) :: u16;
               first = (if first = 0 then RESULT_TYPE_UNKNOWN_BITS else first);
               second = (if second = 0 then RESULT_TYPE_UNKNOWN_BITS else second)
           in first OR push_bit 8 second)"

subsection \<open>All kinds\<close>

definition fits_check :: "operand_value \<Rightarrow> opcode_size \<Rightarrow> bool" where
  "fits_check v w =
     (case v of
        VirtualRegister r \<Rightarrow> virtual_register_fits_check r w
      | GetPutInfo operand \<Rightarrow> get_put_info_fits_check operand w
      | OperandTypes bits \<Rightarrow> operand_types_fits_check bits w
      | _ \<Rightarrow> if is_signed (ov_kind v) then signed_min w \<le> as_i64 v \<and> as_i64 v \<le> signed_max w
             else (word_of_int (as_i64 v) :: u64) \<le> unsigned_max w)"

definition fits_convert :: "operand_value \<Rightarrow> opcode_size \<Rightarrow> u64" where
  "fits_convert v w =
     (case v of
        VirtualRegister r \<Rightarrow> word_of_int (virtual_register_fits_convert r w)
      | GetPutInfo operand \<Rightarrow> get_put_info_fits_convert operand w
      | OperandTypes bits \<Rightarrow> operand_types_fits_convert bits w
      | _ \<Rightarrow> word_of_int (as_i64 v)) AND unsigned_max w"

text \<open>Sign extension shifts the field to the top of the word and back down arithmetically.\<close>

definition sign_extend :: "u64 \<Rightarrow> nat \<Rightarrow> int" where
  "sign_extend v width = drop_bit (64 - width * 8) (sint (push_bit (64 - width * 8) v))"

definition fits_decode :: "operand_kind \<Rightarrow> u64 \<Rightarrow> opcode_size \<Rightarrow> int" where
  "fits_decode kind raw w =
     (case kind of
        K_VirtualRegister \<Rightarrow> virtual_register_fits_decode (sign_extend raw (operand_bytes w)) w
      | K_GetPutInfo \<Rightarrow> uint (get_put_info_fits_decode raw w)
      | K_OperandTypes \<Rightarrow> uint (operand_types_fits_decode raw w)
      | _ \<Rightarrow> if is_signed kind then sign_extend raw (operand_bytes w) else sint raw)"

fun read_le_loop :: "u8 list \<Rightarrow> nat \<Rightarrow> nat \<Rightarrow> nat \<Rightarrow> u64 \<Rightarrow> u64 option" where
  "read_le_loop bytes start k 0 v = Some v"
| "read_le_loop bytes start k (Suc n) v = do {
     b \<leftarrow> vec_get bytes (start + k);
     read_le_loop bytes start (k + 1) n (v OR push_bit (8 * k) (ucast b))
   }"

definition read_unsigned_le :: "u8 list \<Rightarrow> nat \<Rightarrow> nat \<Rightarrow> u64 option" where
  "read_unsigned_le bytes start width = read_le_loop bytes start 0 width 0"

section \<open>Decoding\<close>

record raw_decoded_instruction =
  rd_offset :: nat
  rd_opcode_id :: u8
  rd_name :: string
  rd_width :: opcode_size
  rd_size :: nat
  rd_operands :: "int list"

datatype decode_error =
    OffsetOutOfBounds nat nat
  | MissingWideOpcode nat nat
  | UnknownOpcode nat u8
  | TruncatedInstruction nat nat nat

definition try_decode_header ::
  "u8 list \<Rightarrow> nat \<Rightarrow> decode_error + (opcode_size \<times> opcode_descriptor \<times> nat)" where
  "try_decode_header bytes offset =
     (case vec_get bytes offset of
        None \<Rightarrow> Inl (OffsetOutOfBounds offset (length bytes))
      | Some first \<Rightarrow>
          let (width, opcode_byte_index) =
                (if first = op_WIDE32 then (Wide32, offset + 1)
                 else if first = op_WIDE16 then (Wide16, offset + 1) else (Narrow, offset))
          in case vec_get bytes opcode_byte_index of
               None \<Rightarrow> Inl (MissingWideOpcode offset (length bytes))
             | Some i \<Rightarrow>
                 (case descriptor_for i of
                    None \<Rightarrow> Inl (UnknownOpcode offset i)
                  | Some descriptor \<Rightarrow>
                      Inr (width, descriptor, opcode_byte_index + OPCODE_ID_BYTES)))"

text \<open>\<open>expect\<close> on the checked header: \<open>None\<close> is the panic.\<close>

definition decode_header ::
  "u8 list \<Rightarrow> nat \<Rightarrow> (opcode_size \<times> opcode_descriptor \<times> nat) option" where
  "decode_header bytes offset =
     (case try_decode_header bytes offset of Inl _ \<Rightarrow> None | Inr h \<Rightarrow> Some h)"

definition instruction_size :: "opcode_size \<Rightarrow> opcode_descriptor \<Rightarrow> nat" where
  "instruction_size width descriptor =
     OPCODE_ID_BYTES + opcode_length descriptor * operand_bytes width + prefix_bytes width"

definition raw_instruction_size :: "u8 list \<Rightarrow> nat \<Rightarrow> decode_error + nat" where
  "raw_instruction_size bytes offset =
     (case try_decode_header bytes offset of
        Inl e \<Rightarrow> Inl e
      | Inr (width, descriptor, _) \<Rightarrow>
          let sz = instruction_size width descriptor
          in if offset + sz > length bytes
             then Inl (TruncatedInstruction offset sz (length bytes)) else Inr sz)"

lemma raw_instruction_size_pos: "raw_instruction_size bytes offset = Inr n \<Longrightarrow> 0 < n"
  by (auto simp: raw_instruction_size_def instruction_size_def OPCODE_ID_BYTES_def Let_def
      split: sum.splits if_splits)

function start_walk :: "u8 list \<Rightarrow> nat \<Rightarrow> nat \<Rightarrow> decode_error + nat" where
  "start_walk bytes offset walk =
     (if walk < offset
      then case raw_instruction_size bytes walk of
             Inl e \<Rightarrow> Inl e
           | Inr n \<Rightarrow> start_walk bytes offset (walk + n)
      else Inr walk)"
  by pat_completeness auto
termination
  by (relation "measure (\<lambda>(bytes, offset, walk). offset - walk)")
    (auto dest: raw_instruction_size_pos)

declare start_walk.simps [simp del]

definition is_instruction_start :: "u8 list \<Rightarrow> nat \<Rightarrow> decode_error + bool" where
  "is_instruction_start bytes offset =
     (if offset \<ge> length bytes then Inr False
      else case start_walk bytes offset 0 of
             Inl e \<Rightarrow> Inl e
           | Inr walk \<Rightarrow> Inr (walk = offset))"

text \<open>The operands \<open>i, \<dots>, i + n - 1\<close>; \<open>None\<close> is a read out of range.\<close>

fun decode_operands ::
  "u8 list \<Rightarrow> opcode_size \<Rightarrow> opcode_descriptor \<Rightarrow> nat \<Rightarrow> nat \<Rightarrow> nat \<Rightarrow> int list option" where
  "decode_operands bytes width descriptor operands_start i 0 = Some []"
| "decode_operands bytes width descriptor operands_start i (Suc n) = do {
     raw \<leftarrow> read_unsigned_le bytes (operands_start + i * operand_bytes width) (operand_bytes width);
     kind \<leftarrow> operand_kind_at descriptor i;
     rest \<leftarrow> decode_operands bytes width descriptor operands_start (i + 1) n;
     Some (fits_decode kind raw width # rest)
   }"

definition decode_raw_instruction ::
  "u8 list \<Rightarrow> nat \<Rightarrow> (decode_error + raw_decoded_instruction) option" where
  "decode_raw_instruction bytes offset =
     (case try_decode_header bytes offset of
        Inl e \<Rightarrow> Some (Inl e)
      | Inr (width, descriptor, operands_start) \<Rightarrow>
          let sz = instruction_size width descriptor
          in if offset + sz > length bytes
             then Some (Inl (TruncatedInstruction offset sz (length bytes)))
             else do {
               operands \<leftarrow>
                 decode_operands bytes width descriptor operands_start 0 (opcode_length descriptor);
               Some (Inr \<lparr>rd_offset = offset, rd_opcode_id = od_id descriptor,
                          rd_name = od_name descriptor, rd_width = width, rd_size = sz,
                          rd_operands = operands\<rparr>)
             })"

section \<open>Writing\<close>

record stream_writer =
  iw_instructions :: "u8 list"
  iw_position :: nat
  iw_finalized :: bool

definition writer_new :: stream_writer where
  "writer_new = \<lparr>iw_instructions = [], iw_position = 0, iw_finalized = False\<rparr>"

definition writer_seek :: "nat \<Rightarrow> stream_writer \<Rightarrow> stream_writer" where
  "writer_seek position w = w\<lparr>iw_position := position\<rparr>"

definition writer_reserve :: "nat \<Rightarrow> stream_writer \<Rightarrow> nat \<times> stream_writer" where
  "writer_reserve sz w =
     (let n = iw_position w + sz;
          bytes = (if n > length (iw_instructions w)
                   then iw_instructions w @ replicate (n - length (iw_instructions w)) 0
                   else iw_instructions w)
      in (iw_position w, w\<lparr>iw_instructions := bytes, iw_position := n\<rparr>))"

text \<open>The store loop shared by \<open>write_int\<close> and \<open>set_operand\<close>.\<close>

fun store_le_loop :: "u8 list \<Rightarrow> nat \<Rightarrow> u64 \<Rightarrow> nat \<Rightarrow> nat \<Rightarrow> u8 list option" where
  "store_le_loop bytes start v k 0 = Some bytes"
| "store_le_loop bytes start v k (Suc n) = do {
     bytes' \<leftarrow> vec_set bytes (start + k) (ucast (drop_bit (8 * k) v AND 0xff));
     store_le_loop bytes' start v (k + 1) n
   }"

definition write_int :: "u64 \<Rightarrow> nat \<Rightarrow> stream_writer \<Rightarrow> stream_writer option" where
  "write_int v width w =
     (let (start, w') = writer_reserve width w
      in do {
        bytes \<leftarrow> store_le_loop (iw_instructions w') start v 0 width;
        Some (w'\<lparr>iw_instructions := bytes\<rparr>)
      })"

definition write_u8 :: "u8 \<Rightarrow> stream_writer \<Rightarrow> stream_writer option" where
  "write_u8 v w = write_int (ucast v) 1 w"

definition select_width :: "operand_value list \<Rightarrow> opcode_size" where
  "select_width operands =
     (if list_all (\<lambda>v. fits_check v Narrow) operands then Narrow
      else if list_all (\<lambda>v. fits_check v Wide16) operands then Wide16
      else if list_all (\<lambda>v. fits_check v Wide32) operands then Wide32
      else Wide32)"

fun write_operands :: "opcode_size \<Rightarrow> operand_value list \<Rightarrow> stream_writer \<Rightarrow> stream_writer option" where
  "write_operands width [] w = Some w"
| "write_operands width (v # vs) w = do {
     w' \<leftarrow> write_int (fits_convert v width) (operand_bytes width) w;
     write_operands width vs w'
   }"

definition emit :: "u8 \<Rightarrow> operand_value list \<Rightarrow> stream_writer \<Rightarrow> (nat \<times> stream_writer) option" where
  "emit i operands w =
     (case descriptor_for i of
        None \<Rightarrow> None
      | Some descriptor \<Rightarrow>
          if length operands \<noteq> opcode_length descriptor then None
          else let width = select_width operands; start = iw_position w
               in do {
                 w1 \<leftarrow> (case width of
                          Narrow \<Rightarrow> Some w
                        | Wide16 \<Rightarrow> write_u8 op_WIDE16 w
                        | Wide32 \<Rightarrow> write_u8 op_WIDE32 w);
                 w2 \<leftarrow> write_u8 i w1;
                 w3 \<leftarrow> write_operands width operands w2;
                 Some (start, w3)
               })"

definition set_operand :: "nat \<Rightarrow> nat \<Rightarrow> operand_value \<Rightarrow> stream_writer \<Rightarrow> stream_writer option" where
  "set_operand instruction_offset operand_index v w = do {
     (width, descriptor, operands_start) \<leftarrow> decode_header (iw_instructions w) instruction_offset;
     if operand_index < opcode_length descriptor
     then do {
       bytes \<leftarrow> store_le_loop (iw_instructions w)
                 (operands_start + operand_index * operand_bytes width)
                 (fits_convert v width) 0 (operand_bytes width);
       Some (w\<lparr>iw_instructions := bytes\<rparr>)
     }
     else None
   }"

text \<open>A finished stream is its bytes.\<close>

definition writer_finalize :: "stream_writer \<Rightarrow> u8 list" where
  "writer_finalize w = take (iw_position w) (iw_instructions w)"

section \<open>Reading through a reference\<close>

text \<open>A \<open>Ref\<close> is a byte offset into the stream; an invalid header panics.\<close>

definition ref_is_valid :: "u8 list \<Rightarrow> nat \<Rightarrow> bool" where
  "ref_is_valid bytes index \<longleftrightarrow> index < length bytes"

definition ref_width :: "u8 list \<Rightarrow> nat \<Rightarrow> opcode_size option" where
  "ref_width bytes index = map_option fst (decode_header bytes index)"

definition ref_opcode_id :: "u8 list \<Rightarrow> nat \<Rightarrow> u8 option" where
  "ref_opcode_id bytes index = map_option (\<lambda>(_, d, _). od_id d) (decode_header bytes index)"

definition ref_size :: "u8 list \<Rightarrow> nat \<Rightarrow> nat option" where
  "ref_size bytes index =
     map_option (\<lambda>(width, d, _). instruction_size width d) (decode_header bytes index)"

definition ref_next :: "u8 list \<Rightarrow> nat \<Rightarrow> nat option" where
  "ref_next bytes index = map_option (\<lambda>n. index + n) (ref_size bytes index)"

definition ref_operand :: "u8 list \<Rightarrow> nat \<Rightarrow> nat \<Rightarrow> int option" where
  "ref_operand bytes index i = do {
     (width, descriptor, operands_start) \<leftarrow> decode_header bytes index;
     if i < opcode_length descriptor
     then do {
       raw \<leftarrow> read_unsigned_le bytes (operands_start + i * operand_bytes width) (operand_bytes width);
       kind \<leftarrow> operand_kind_at descriptor i;
       Some (fits_decode kind raw width)
     }
     else None
   }"

text \<open>\<open>(index as i64 + delta) as usize\<close>.\<close>

definition jump_target :: "u8 list \<Rightarrow> nat \<Rightarrow> nat \<Rightarrow> nat option" where
  "jump_target bytes index operand_index = do {
     delta \<leftarrow> ref_operand bytes index operand_index;
     Some (unat (word_of_int (int index + delta) :: u64))
   }"

lemma ref_size_pos: "ref_size bytes index = Some n \<Longrightarrow> 0 < n"
  by (auto simp: ref_size_def instruction_size_def OPCODE_ID_BYTES_def)

text \<open>The offsets that the cursor yields.\<close>

function cursor_from :: "u8 list \<Rightarrow> nat \<Rightarrow> nat list option" where
  "cursor_from bytes index =
     (if index \<ge> length bytes then Some []
      else case ref_size bytes index of
             None \<Rightarrow> None
           | Some n \<Rightarrow> map_option (\<lambda>rest. index # rest) (cursor_from bytes (index + n)))"
  by pat_completeness auto
termination
  by (relation "measure (\<lambda>(bytes, index). length bytes - index)") (auto dest: ref_size_pos)

declare cursor_from.simps [simp del]

definition stream_cursor :: "u8 list \<Rightarrow> nat list option" where
  "stream_cursor bytes = cursor_from bytes 0"

section \<open>Bytecode indices\<close>

definition bi_new :: "u32 \<Rightarrow> u8 \<Rightarrow> u32" where
  "bi_new offset checkpoint = push_bit 2 offset OR (ucast checkpoint AND 3)"

definition bi_from_offset :: "u32 \<Rightarrow> u32" where
  "bi_from_offset offset = bi_new offset 0"

definition bi_offset :: "u32 \<Rightarrow> u32" where
  "bi_offset bits = drop_bit 2 bits"

definition bi_checkpoint :: "u32 \<Rightarrow> u8" where
  "bi_checkpoint bits = ucast (bits AND 3)"

definition bi_with_checkpoint :: "u32 \<Rightarrow> u8 \<Rightarrow> u32" where
  "bi_with_checkpoint bits checkpoint = bi_new (bi_offset bits) checkpoint"

definition bi_is_valid :: "u32 \<Rightarrow> bool" where
  "bi_is_valid bits \<longleftrightarrow> bits \<noteq> 0xffffffff"

end
