(* ===== verification/Instruction_Codec.thy ===== *)
theory Instruction_Codec
  imports Instruction_Stream
begin

text \<open>
  Operands survive encoding: for every kind and width, a value that fits is read back from its
  field, and the width the writer selects fits every operand of the instruction.
\<close>

section \<open>Fields\<close>

text \<open>
  Values of the Rust types.  An \<open>OperandTypes\<close> with an empty type is not canonical: the narrow
  encoding uses the empty nibble for the unknown type.  The top bit of a \<open>GetPutInfo\<close> is unused.
\<close>

fun ov_canonical :: "operand_value \<Rightarrow> bool" where
  "ov_canonical (VirtualRegister r) \<longleftrightarrow> in_i32 r"
| "ov_canonical (SignedImmediate i) \<longleftrightarrow> in_i32 i"
| "ov_canonical (BoundLabel i) \<longleftrightarrow> in_i32 i"
| "ov_canonical (OperandTypes bits) \<longleftrightarrow> bits AND 0xff \<noteq> 0 \<and> drop_bit 8 bits \<noteq> 0"
| "ov_canonical (GetPutInfo operand) \<longleftrightarrow> \<not> bit operand 31"
| "ov_canonical _ \<longleftrightarrow> True"

definition field_bits :: "opcode_size \<Rightarrow> nat" where
  "field_bits w = 8 * operand_bytes w"

lemma field_bits_simps [simp]: "field_bits Narrow = 8" "field_bits Wide16 = 16" "field_bits Wide32 = 32"
  by (simp_all add: field_bits_def)

lemma unsigned_max_mask: "unsigned_max w = mask (field_bits w)"
  by (cases w) (simp_all add: unsigned_max_def mask_eq_exp_minus_1)

lemma and_unsigned_max: "x AND unsigned_max w = take_bit (field_bits w) x"
  by (simp add: unsigned_max_mask take_bit_eq_mask)

lemma uint_take_bit_of_int:
  "n \<le> 64 \<Longrightarrow> uint (take_bit n (word_of_int i :: u64)) = take_bit n i"
  by (simp add: unsigned_take_bit_eq unsigned_of_int min_def)

lemma sign_extend_field:
  "sign_extend (take_bit (field_bits w) (word_of_int i)) (operand_bytes w) =
     signed_take_bit (field_bits w - 1) i"
proof (rule bit_eqI)
  fix n
  show "bit (sign_extend (take_bit (field_bits w) (word_of_int i)) (operand_bytes w)) n =
      bit (signed_take_bit (field_bits w - 1) i) n"
    by (cases w) (auto simp: sign_extend_def bit_simps min_def)
qed

lemma unsigned_field:
  assumes "0 \<le> i" and "(word_of_int i :: u64) \<le> unsigned_max w" and "i < 2 ^ 64"
  shows "sint (take_bit (field_bits w) (word_of_int i :: u64)) = i"
proof -
  have "uint (word_of_int i :: u64) = i"
    using assms(1,3) by (simp add: uint_word_of_int)
  moreover have "uint (unsigned_max w) = 2 ^ field_bits w - 1"
    by (cases w) (simp_all add: unsigned_max_def)
  ultimately have "i < 2 ^ field_bits w" using assms(2) by (simp add: word_le_def)
  moreover from this have "i < 2 ^ 32" by (cases w) simp_all
  ultimately show ?thesis
    using assms(1) by (cases w) (simp_all add: sint_uint uint_take_bit_of_int
        take_bit_int_eq_self signed_take_bit_int_eq_self)
qed

lemma signed_field:
  "signed_min w \<le> i \<Longrightarrow> i \<le> signed_max w \<Longrightarrow> signed_take_bit (field_bits w - 1) i = i"
  by (cases w) (simp_all add: signed_min_def signed_max_def signed_take_bit_int_eq_self)

subsection \<open>Registers\<close>

lemma signed_bounds [simp]:
  "signed_min Narrow = -128" "signed_max Narrow = 127"
  "signed_min Wide16 = -32768" "signed_max Wide16 = 32767"
  "signed_min Wide32 = -2147483648" "signed_max Wide32 = 2147483647"
  by (simp_all add: signed_min_def signed_max_def)

lemma constant_index_uint:
  assumes "in_i32 r" and "vr_to_constant_index r = Some c"
  shows "uint c = r - 0x40000000 \<and> 0x40000000 \<le> r"
  using assms by (auto simp: vr_to_constant_index_def vr_is_constant_def register_consts in_i32_def
      split: if_splits)

lemma register_roundtrip:
  assumes "in_i32 r" and "virtual_register_fits_check r w"
  shows "virtual_register_fits_decode
           (signed_take_bit (field_bits w - 1) (virtual_register_fits_convert r w)) w = r"
proof (cases "first_constant_for_width w")
  case None
  then have "w = Wide32" by (cases w) simp_all
  with assms show ?thesis
    by (simp add: virtual_register_fits_decode_def virtual_register_fits_convert_def
        signed_take_bit_int_eq_self in_i32_def as_i32_def)
next
  case (Some f)
  have w: "w = Narrow \<and> f = 16 \<or> w = Wide16 \<and> f = 64"
    using Some by (cases w) (simp_all add: register_consts)
  show ?thesis
  proof (cases "vr_to_constant_index r")
    case None
    then have "r < 0x40000000"
      by (simp add: vr_to_constant_index_def vr_is_constant_def register_consts split: if_splits)
    with None Some assms w show ?thesis
      by (auto simp: virtual_register_fits_check_def virtual_register_fits_decode_def
          virtual_register_fits_convert_def signed_take_bit_int_eq_self)
  next
    case (Some c)
    have c: "uint c = r - 0x40000000" "0x40000000 \<le> r"
      using constant_index_uint [OF assms(1) Some] by auto
    have c_i32: "as_i32 (uint c) = uint c" and sum: "in_i32 (f + uint c)"
      using c assms(1) w by (auto simp: in_i32_def intro!: as_i32_id)
    have "f + uint c \<le> signed_max w"
      using assms(2) \<open>first_constant_for_width w = Some f\<close> Some c_i32 w sum
      by (auto simp: virtual_register_fits_check_def saturating_add_i32_def in_i32_def min_def max_def
          as_i32_def split: if_splits)
    moreover have "signed_min w \<le> f + uint c" using w by auto
    ultimately have "signed_take_bit (field_bits w - 1) (f + uint c) = f + uint c"
      by (intro signed_field)
    moreover have "vr_constant c = r"
      using c_i32 assms(1) by (simp add: vr_constant_def register_consts c(1))
    moreover have "as_u32 (uint c) = c" by (simp add: as_u32_def)
    ultimately show ?thesis
      using \<open>first_constant_for_width w = Some f\<close> Some c_i32 sum
      by (simp add: virtual_register_fits_decode_def virtual_register_fits_convert_def)
  qed
qed

subsection \<open>\<open>OperandTypes\<close> and \<open>GetPutInfo\<close>\<close>

lemma and_mask_unat: "unat (x AND 0xff) = unat x mod 256" "unat (x AND 0xf) = unat x mod 16"
  "unat (x AND 0x3ff) = unat x mod 1024" "unat (x AND 0x3) = unat x mod 4"
  "unat (x AND 0x1) = unat x mod 2" for x :: "'a::len word"
proof -
  have *: "unat (x AND mask n) = unat x mod 2 ^ n" for n
    by (simp add: unat_take_bit_mod flip: take_bit_eq_mask)
  show "unat (x AND 0xff) = unat x mod 256" "unat (x AND 0xf) = unat x mod 16"
    "unat (x AND 0x3ff) = unat x mod 1024" "unat (x AND 0x3) = unat x mod 4"
    "unat (x AND 0x1) = unat x mod 2"
    using * [of 8] * [of 4] * [of 10] * [of 2] * [of 1] by (simp_all add: mask_eq_exp_minus_1)
qed

lemma unat_or_push:
  assumes "unat c < 2 ^ s" and "unat a * 2 ^ s + unat c < 2 ^ LENGTH('a)"
  shows "unat (push_bit s a OR c) = unat a * 2 ^ s + unat (c :: 'a::len word)"
proof -
  have "unat (push_bit s a) = unat a * 2 ^ s"
    using assms(2) by (simp add: unsigned_push_bit_eq push_bit_nat_def take_bit_nat_eq_self)
  then show ?thesis
    using assms by (simp add: push_or_eq_add unat_add_no_overflow)
qed

lemma operand_types_roundtrip:
  assumes "bits AND 0xff \<noteq> 0" and "drop_bit 8 bits \<noteq> 0" and "operand_types_fits_check bits w"
  shows "operand_types_fits_decode (take_bit (field_bits w) (operand_types_fits_convert bits w)) w = bits"
proof (cases "w = Narrow")
  case False
  have "unat bits < 65536" using unsigned_less [of bits] by simp
  then show ?thesis
    using False by (cases w) (simp_all add: operand_types_fits_decode_def
        operand_types_fits_convert_def word_unat_eq_iff unat_ucast_mod unat_take_bit_mod)
next
  case True
  define first second where "first = bits AND 0xff" and "second = drop_bit 8 bits"
  define rf rs where "rf = operand_types_narrow_remap first" and "rs = operand_types_narrow_remap second"
  define raw where "raw = take_bit 8 (ucast (push_bit 4 rf OR rs) :: u64)"
  have le: "unat rf \<le> 15" "unat rs \<le> 15"
    using assms(3) True
    by (simp_all add: operand_types_fits_check_def operand_types_first_second_def rf_def rs_def
        first_def second_def OPERAND_TYPES_MAX_TYPE_def word_le_nat_alt)
  then have "unat (push_bit 4 rf OR rs) = unat rf * 16 + unat rs"
    using unat_or_push [of rs 4 rf] by simp
  then have raw: "unat raw = unat rf * 16 + unat rs"
    using le by (simp add: raw_def unat_take_bit_mod unat_ucast_mod)
  have "(ucast (drop_bit 4 raw AND 0xf) :: u16) = rf" "(ucast (raw AND 0xf) :: u16) = rs"
    using le by (simp_all add: word_unat_eq_iff unat_ucast_mod and_mask_unat unat_drop_bit_div raw)
  moreover have "ucast OPERAND_TYPES_MAX_TYPE = (0xf :: u64)"
    by (simp add: OPERAND_TYPES_MAX_TYPE_def)
  moreover have "(if rf = 0 then RESULT_TYPE_UNKNOWN_BITS else rf) = first"
    "(if rs = 0 then RESULT_TYPE_UNKNOWN_BITS else rs) = second"
    using assms(1,2) by (auto simp: rf_def rs_def first_def second_def operand_types_narrow_remap_def)
  moreover have "first OR push_bit 8 second = bits"
  proof -
    have fs: "unat first = unat bits mod 256" "unat second = unat bits div 256"
      by (simp_all add: first_def second_def and_mask_unat unat_drop_bit_div)
    have "unat bits < 65536" using unsigned_less [of bits] by simp
    then have "unat (push_bit 8 second OR first) = unat bits"
      using unat_or_push [of first 8 second] by (simp add: fs)
    then show ?thesis by (simp only: word_unat_eq_iff or.commute)
  qed
  ultimately have "operand_types_fits_decode raw Narrow = bits"
    by (simp add: operand_types_fits_decode_def Let_def)
  then show ?thesis
    using True by (simp add: raw_def operand_types_fits_convert_def operand_types_first_second_def
        rf_def rs_def first_def second_def)
qed

lemma packed_fields:
  assumes "(t :: nat) < 16" and "i < 4" and "m < 2" and "s < 2"
  defines "x \<equiv> s * 128 + (t * 8 + (i * 2 + m))"
  shows "x div 8 mod 16 = t" "x div 2 mod 4 = i" "x mod 2 = m" "x div 128 mod 2 = s" "x < 256"
proof -
  have "x div 8 = s * 16 + t" "x div 2 = (s * 16 + t) * 4 + i" "x div 128 = s"
    using assms(1-4) by (auto simp: x_def intro!: div_nat_eqI)
  moreover have "x = ((s * 16 + t) * 4 + i) * 2 + m" by (simp add: x_def)
  moreover have "x < 256" using assms(1-4) by (simp add: x_def)
  moreover have "((s * 16 + t) * 4 + i) mod 4 = i" "(((s * 16 + t) * 4 + i) * 2 + m) mod 2 = m"
    using assms(2,3) by (simp_all only: mod_mult_self3 mod_less)
  ultimately show "x div 8 mod 16 = t" "x div 2 mod 4 = i" "x mod 2 = m" "x div 128 mod 2 = s"
    "x < 256"
    using assms(1,4) by simp_all
qed

lemma get_put_info_roundtrip:
  assumes "\<not> bit operand 31" and "get_put_info_fits_check operand w"
  shows "get_put_info_fits_decode (take_bit (field_bits w) (get_put_info_fits_convert operand w)) w =
           operand"
proof (cases "w = Wide32")
  case True
  then show ?thesis
    by (simp add: get_put_info_fits_decode_def get_put_info_fits_convert_def
        word_unat_eq_iff unat_ucast_mod unat_take_bit_mod)
next
  case False
  define t i m s where "t = operand AND 0x3ff" and "i = drop_bit 10 operand AND 0x3ff"
    and "m = drop_bit 20 operand AND 0x3ff" and "s = drop_bit 30 operand AND 1"
  define c where "c = ((push_bit 7 s OR push_bit 3 t) OR push_bit 1 i) OR m"
  define raw where "raw = take_bit (field_bits w) (ucast c :: u64)"
  have le: "unat t < 16" "unat i < 4" "unat m < 2" "unat s < 2"
    using assms(2) False
    by (simp_all add: get_put_info_fits_check_def get_put_info_fields_def t_def i_def m_def s_def
        word_less_nat_alt and_mask_unat [of "drop_bit 30 operand"])
  have 1: "unat (push_bit 1 i OR m) = unat i * 2 + unat m"
    using le unat_or_push [of m 1 i] by simp
  have 2: "unat (push_bit 3 t OR (push_bit 1 i OR m)) = unat t * 8 + (unat i * 2 + unat m)"
    using le 1 unat_or_push [of "push_bit 1 i OR m" 3 t] by simp
  have "unat (push_bit 7 s OR (push_bit 3 t OR (push_bit 1 i OR m))) =
      unat s * 128 + (unat t * 8 + (unat i * 2 + unat m))"
    using le 2 unat_or_push [of "push_bit 3 t OR (push_bit 1 i OR m)" 7 s] by simp
  then have "unat c = unat s * 128 + (unat t * 8 + (unat i * 2 + unat m))"
    by (simp only: c_def or.assoc)
  then have raw: "unat raw = unat s * 128 + (unat t * 8 + (unat i * 2 + unat m))"
    using le False by (cases w) (simp_all add: raw_def unat_take_bit_mod unat_ucast_mod)
  have "(ucast (drop_bit 3 raw AND 0xf) :: u32) = t" "(ucast (drop_bit 1 raw AND 0x3) :: u32) = i"
    "(ucast (raw AND 0x1) :: u32) = m" "(ucast (drop_bit 7 raw AND 0x1) :: u32) = s"
    using le packed_fields [OF le] by (simp_all add: word_unat_eq_iff unat_ucast_mod and_mask_unat
        unat_drop_bit_div raw)
  moreover have "((push_bit 30 s OR push_bit 20 m) OR push_bit 10 i) OR t = operand"
  proof -
    define u where "u = unat operand"
    have "take_bit 31 operand = operand"
    proof (rule bit_eqI)
      fix n
      show "bit (take_bit 31 operand) n = bit operand n"
        using assms(1) bit_imp_le_length [of operand n]
        by (cases "n = 31") (auto simp: bit_take_bit_iff)
    qed
    then have "u < 2 ^ 31"
      using unat_take_bit_mod [of 31 operand] by (simp add: u_def)
    have f: "unat t = u mod 1024" "unat i = u div 1024 mod 1024" "unat m = u div 1048576 mod 1024"
      "unat s = u div 1073741824"
      using \<open>u < 2 ^ 31\<close> and_mask_unat(5) [of "drop_bit 30 operand"]
      by (simp_all add: t_def i_def m_def s_def u_def and_mask_unat unat_drop_bit_div
          less_mult_imp_div_less)
    have 1: "unat (push_bit 10 i OR t) = unat i * 1024 + unat t"
      using le unat_or_push [of t 10 i] by simp
    have 2: "unat (push_bit 20 m OR (push_bit 10 i OR t)) = unat m * 1048576 + (unat i * 1024 + unat t)"
      using le 1 unat_or_push [of "push_bit 10 i OR t" 20 m] by simp
    have "unat (push_bit 30 s OR (push_bit 20 m OR (push_bit 10 i OR t))) =
        unat s * 1073741824 + (unat m * 1048576 + (unat i * 1024 + unat t))"
      using le 2 unat_or_push [of "push_bit 20 m OR (push_bit 10 i OR t)" 30 s] by simp
    also have "\<dots> = u"
    proof -
      define p q where "p = u div 1024" and "q = p div 1024"
      have "u div 1048576 = q" "u div 1073741824 = q div 1024"
        using div_mult2_eq [of u 1024 1024] div_mult2_eq [of u 1048576 1024]
        by (simp_all add: p_def q_def)
      then have "unat m = q mod 1024" "unat s = q div 1024" using f by simp_all
      with f(1,2) div_mult_mod_eq [of u 1024] div_mult_mod_eq [of p 1024] div_mult_mod_eq [of q 1024]
      show ?thesis unfolding p_def [symmetric] q_def [symmetric] by linarith
    qed
    finally show ?thesis by (simp only: word_unat_eq_iff or.assoc u_def)
  qed
  ultimately have "get_put_info_fits_decode raw w = operand"
    using False by (simp add: get_put_info_fits_decode_def Let_def)
  moreover have "get_put_info_fits_convert operand w = ucast c"
    using False by (simp only: get_put_info_fits_convert_def get_put_info_fields_def if_False
        Let_def prod.case c_def t_def i_def m_def s_def)
  ultimately show ?thesis by (simp only: raw_def)
qed

section \<open>Every kind\<close>

lemma i32_u64_bounds: "0 \<le> uint (v :: u32)" "uint (v :: u32) < 2 ^ 64" "uint (b :: u8) < 2 ^ 64"
  using uint_bounded [of v] uint_bounded [of b] by simp_all

lemma operand_roundtrip:
  assumes "ov_canonical v" and "fits_check v w"
  shows "fits_decode (ov_kind v) (fits_convert v w) w = as_i64 v"
proof -
  have unsigned: "sint (take_bit (field_bits w) (word_of_int i :: u64)) = i"
    if "(word_of_int i :: u64) \<le> unsigned_max w" "0 \<le> i" "i < 2 ^ 64" for i
    using unsigned_field that by blast
  have signed: "sign_extend (take_bit (field_bits w) (word_of_int i)) (operand_bytes w) = i"
    if "signed_min w \<le> i" "i \<le> signed_max w" for i
    using that by (simp only: sign_extend_field signed_field)
  show ?thesis
  proof (cases v)
    case (VirtualRegister r)
    then show ?thesis
      using assms register_roundtrip [of r w]
      by (simp add: fits_decode_def fits_convert_def fits_check_def and_unsigned_max
          sign_extend_field)
  next
    case (GetPutInfo operand)
    then show ?thesis
      using assms get_put_info_roundtrip [of operand w]
      by (simp add: fits_decode_def fits_convert_def fits_check_def and_unsigned_max)
  next
    case (OperandTypes bits)
    then show ?thesis
      using assms operand_types_roundtrip [of bits w]
      by (simp add: fits_decode_def fits_convert_def fits_check_def and_unsigned_max)
  qed (use assms signed unsigned i32_u64_bounds in \<open>simp_all add: fits_decode_def fits_convert_def
      fits_check_def and_unsigned_max is_signed_def del: of_int_uint\<close>)
qed

lemma wide32_fits: "ov_canonical v \<Longrightarrow> fits_check v Wide32"
proof -
  have "(word_of_int (uint x) :: u64) \<le> unsigned_max Wide32" for x :: u32
    using uint_bounded [of x] by (simp add: word_le_def unsigned_max_def uint_word_of_int
        take_bit_int_eq_self del: of_int_uint)
  moreover have "(word_of_int (uint x) :: u64) \<le> unsigned_max Wide32" for x :: u8
    using uint_bounded [of x] by (simp add: word_le_def unsigned_max_def uint_word_of_int
        take_bit_int_eq_self del: of_int_uint)
  moreover assume "ov_canonical v"
  ultimately show ?thesis
    by (cases v) (simp_all add: fits_check_def is_signed_def virtual_register_fits_check_def
        get_put_info_fits_check_def operand_types_fits_check_def in_i32_def unsigned_max_def
        del: of_int_uint)
qed

lemma select_width_fits:
  assumes "list_all ov_canonical vs" shows "list_all (\<lambda>v. fits_check v (select_width vs)) vs"
proof -
  have "list_all (\<lambda>v. fits_check v Wide32) vs"
    using assms by (auto simp: list_all_iff wide32_fits)
  then show ?thesis by (simp add: select_width_def)
qed

text \<open>
  An operand of any of the eighteen kinds that fits a width is read back unchanged from its
  field of that width, whether it is stored sign-extended, remapped into the constant band, packed
  or truncated.\<close>

lemma operand_encode_decode:
  assumes "ov_canonical v" and "fits_check v w"
  shows "fits_decode (ov_kind v) (fits_convert v w) w = as_i64 v \<and>
         uint (fits_convert v w) < 2 ^ (8 * operand_bytes w)"
proof -
  have "uint (take_bit n x) < 2 ^ n" for n and x :: u64
    by (simp add: unsigned_take_bit_eq take_bit_int_less_exp)
  then have "uint (fits_convert v w) < 2 ^ field_bits w"
    unfolding fits_convert_def and_unsigned_max by blast
  then show ?thesis using operand_roundtrip [OF assms] by (simp only: field_bits_def)
qed

text \<open>
  The width selected for an instruction fits every operand, and no narrower width does.\<close>

lemma select_width_minimal:
  assumes "list_all ov_canonical vs"
  shows "list_all (\<lambda>v. fits_check v (select_width vs)) vs \<and>
         (operand_bytes w < operand_bytes (select_width vs) \<longrightarrow> \<not> list_all (\<lambda>v. fits_check v w) vs)"
  using select_width_fits [OF assms]
  by (cases w) (auto simp: select_width_def split: if_splits)

text \<open>
  The narrow encoding of a pair of operand types stores the unknown type as zero, so an
  empty type does not survive it: it fits, and comes back as unknown.\<close>

lemma operand_types_narrow_lossy:
  "fits_check (OperandTypes 0) Narrow \<and>
   fits_decode K_OperandTypes (fits_convert (OperandTypes 0) Narrow) Narrow =
     uint UNKNOWN_OPERAND_TYPES_BITS"
  by code_simp

end
