(* ===== verification/Stream_Roundtrip.thy ===== *)
theory Stream_Roundtrip
  imports Instruction_Codec
begin

text \<open>
  What the writer emits is what the readers see: the layout of an emitted instruction, the decoded
  view of a whole stream, the cursor and the check of jump targets, and patching an operand in place.
\<close>

section \<open>Bytes of a word\<close>

definition le_bytes :: "u64 \<Rightarrow> nat \<Rightarrow> u8 list" where
  "le_bytes v n = map (le_byte v) [0..<n]"

lemma length_le_bytes [simp]: "length (le_bytes v n) = n"
  by (simp add: le_bytes_def)

lemma store_le_loop_eq:
  assumes "start + k + n \<le> length bytes"
  shows "store_le_loop bytes start v k n =
           Some (take (start + k) bytes @ map (le_byte v) [k..<k + n] @ drop (start + k + n) bytes)"
  using assms
proof (induction n arbitrary: k bytes)
  case 0
  then show ?case by simp
next
  case (Suc n)
  let ?b = "bytes[start + k := le_byte v k]"
  have "take (start + Suc k) ?b = take (start + k) bytes @ [le_byte v k]"
    using Suc.prems by (simp add: take_Suc_conv_app_nth)
  moreover have "drop (start + Suc k + n) ?b = drop (start + k + Suc n) bytes" by simp
  moreover have "[k..<k + Suc n] = k # [Suc k..<Suc k + n]" by (simp add: upt_conv_Cons del: upt_Suc)
  ultimately show ?case
    using Suc.IH [of "Suc k" ?b] Suc.prems by (simp add: vec_set_in le_byte_def del: upt_Suc)
qed

lemma read_le_loop_eq:
  assumes "take n (drop (start + k) bytes) = map (le_byte v) [k..<k + n]"
  shows "read_le_loop bytes start k n (take_bit (8 * k) v) = Some (take_bit (8 * (k + n)) v)"
  using assms
proof (induction n arbitrary: k)
  case 0
  then show ?case by simp
next
  case (Suc n)
  have upt: "[k..<k + Suc n] = k # [Suc k..<Suc k + n]" by (simp add: upt_conv_Cons del: upt_Suc)
  have "start + k < length bytes"
    using arg_cong [OF Suc.prems, of length] by (simp add: min_def split: if_splits)
  then have split: "drop (start + k) bytes = bytes ! (start + k) # drop (start + Suc k) bytes"
    by (simp add: Cons_nth_drop_Suc)
  have "bytes ! (start + k) = le_byte v k"
    and rest: "take n (drop (start + Suc k) bytes) = map (le_byte v) [Suc k..<Suc k + n]"
    using Suc.prems unfolding split upt by (simp_all del: upt_Suc)
  then have "read_le_loop bytes start k (Suc n) (take_bit (8 * k) v) =
      read_le_loop bytes start (Suc k) n (take_bit (8 * Suc k) v)"
    using \<open>start + k < length bytes\<close> by (simp add: vec_get_in or_byte add.commute)
  then show ?case using Suc.IH [OF rest] by simp
qed

lemma read_le_bytes:
  assumes "take n (drop start bytes) = le_bytes v n"
  shows "read_unsigned_le bytes start n = Some (take_bit (8 * n) v)"
  using read_le_loop_eq [of n start 0 bytes v] assms by (simp add: read_unsigned_le_def le_bytes_def)

section \<open>Emitted instructions\<close>

definition width_prefix :: "opcode_size \<Rightarrow> u8 list" where
  "width_prefix w = (case w of Narrow \<Rightarrow> [] | Wide16 \<Rightarrow> [op_WIDE16] | Wide32 \<Rightarrow> [op_WIDE32])"

definition enc_fields :: "opcode_size \<Rightarrow> operand_value list \<Rightarrow> u8 list" where
  "enc_fields w vs = concat (map (\<lambda>v. le_bytes (fits_convert v w) (operand_bytes w)) vs)"

definition enc_at :: "opcode_size \<Rightarrow> u8 \<Rightarrow> operand_value list \<Rightarrow> u8 list" where
  "enc_at w i vs = width_prefix w @ [i] @ enc_fields w vs"

text \<open>An instruction the generator may emit: a real opcode with operands of its kinds.\<close>

definition stream_kinds :: "opcode_descriptor \<Rightarrow> operand_kind list" where
  "stream_kinds d = od_operands d @ (if od_has_metadata d then [K_UnsignedImmediate] else [])"

definition instr_ok :: "u8 \<Rightarrow> operand_value list \<Rightarrow> bool" where
  "instr_ok i vs =
     (case descriptor_for i of
        None \<Rightarrow> False
      | Some d \<Rightarrow> \<not> od_is_wide_prefix d \<and> map ov_kind vs = stream_kinds d \<and> list_all ov_canonical vs)"

lemma stream_kinds_length: "length (stream_kinds d) = opcode_length d"
  by (simp add: stream_kinds_def opcode_length_def)

lemma stream_kinds_nth: "j < opcode_length d \<Longrightarrow> operand_kind_at d j = Some (stream_kinds d ! j)"
  by (auto simp: operand_kind_at_def stream_kinds_def opcode_length_def nth_append split: if_splits)

lemma length_enc_fields: "length (enc_fields w vs) = length vs * operand_bytes w"
  by (induction vs) (simp_all add: enc_fields_def)

lemma length_width_prefix: "length (width_prefix w) = prefix_bytes w"
  by (cases w) (simp_all add: width_prefix_def)

lemma length_enc_at:
  "length (enc_at w i vs) = OPCODE_ID_BYTES + length vs * operand_bytes w + prefix_bytes w"
  by (simp add: enc_at_def length_enc_fields length_width_prefix OPCODE_ID_BYTES_def)

subsection \<open>Writing at the end\<close>

definition at_end :: "stream_writer \<Rightarrow> bool" where
  "at_end w \<longleftrightarrow> iw_position w = length (iw_instructions w)"

definition append_bytes :: "u8 list \<Rightarrow> stream_writer \<Rightarrow> stream_writer" where
  "append_bytes bs w =
     w\<lparr>iw_instructions := iw_instructions w @ bs, iw_position := iw_position w + length bs\<rparr>"

lemma at_end_append [simp]: "at_end w \<Longrightarrow> at_end (append_bytes bs w)"
  by (simp add: at_end_def append_bytes_def)

lemma append_append [simp]: "append_bytes cs (append_bytes bs w) = append_bytes (bs @ cs) w"
  by (simp add: append_bytes_def)

lemma append_Nil [simp]: "append_bytes [] w = w"
  by (simp add: append_bytes_def)

lemma write_int_append: "at_end w \<Longrightarrow> write_int v n w = Some (append_bytes (le_bytes v n) w)"
  by (auto simp: at_end_def write_int_def writer_reserve_def append_bytes_def Let_def
      store_le_loop_eq le_bytes_def)

lemma write_u8_append: "at_end w \<Longrightarrow> write_u8 b w = Some (append_bytes [b] w)"
proof -
  have "le_byte (ucast b) 0 = b"
    by (rule bit_eqI) (auto simp: le_byte_def and_ff bit_simps)
  moreover assume "at_end w"
  ultimately show ?thesis by (simp add: write_u8_def write_int_append le_bytes_def)
qed

lemma write_operands_append:
  "at_end w \<Longrightarrow> write_operands width vs w = Some (append_bytes (enc_fields width vs) w)"
  by (induction vs arbitrary: w) (simp_all add: enc_fields_def write_int_append)

lemma emit_append:
  assumes "at_end w" and "instr_ok i vs"
  shows "emit i vs w = Some (iw_position w, append_bytes (enc_at (select_width vs) i vs) w)"
proof -
  obtain d where d: "descriptor_for i = Some d" and kinds: "map ov_kind vs = stream_kinds d"
    using assms(2) by (auto simp: instr_ok_def split: option.splits)
  have "length vs = opcode_length d"
    using arg_cong [OF kinds, of length] by (simp add: stream_kinds_length)
  with d assms(1) show ?thesis
    by (cases "select_width vs")
      (simp_all add: emit_def Let_def write_u8_append write_operands_append enc_at_def
        width_prefix_def)
qed

subsection \<open>Decoding what was written\<close>

lemma enc_field:
  "j < length vs \<Longrightarrow>
     take (operand_bytes w) (drop (j * operand_bytes w) (enc_fields w vs)) =
       le_bytes (fits_convert (vs ! j) w) (operand_bytes w)"
proof (induction vs arbitrary: j)
  case Nil
  then show ?case by simp
next
  case (Cons v vs)
  then show ?case by (cases j) (simp_all add: enc_fields_def)
qed

lemma fits_convert_field: "take_bit (8 * operand_bytes w) (fits_convert v w) = fits_convert v w"
  by (simp add: fits_convert_def and_unsigned_max flip: field_bits_def)

lemma header_at:
  assumes "descriptor_for i = Some d" and "\<not> od_is_wide_prefix d"
  shows "try_decode_header (pre @ enc_at w i vs @ post) (length pre) =
           Inr (w, d, length pre + prefix_bytes w + 1)"
proof -
  have "i \<noteq> 128" "i \<noteq> 130" using descriptor_for_prefix [OF assms(1)] assms(2) by simp_all
  with assms(1) show ?thesis
    by (cases w) (simp_all add: try_decode_header_def enc_at_def width_prefix_def vec_get_def
        nth_append OPCODE_ID_BYTES_def)
qed

lemma field_at:
  assumes "j < length vs"
  shows "read_unsigned_le (pre @ enc_at w i vs @ post)
           (length pre + prefix_bytes w + 1 + j * operand_bytes w) (operand_bytes w) =
         Some (fits_convert (vs ! j) w)"
proof -
  have "operand_bytes w \<le> length (drop (j * operand_bytes w) (enc_fields w vs))"
  proof -
    have "Suc j * operand_bytes w \<le> length vs * operand_bytes w"
      using assms by (intro mult_le_mono) simp_all
    then show ?thesis by (simp add: length_enc_fields)
  qed
  then have "take (operand_bytes w) (drop (length pre + prefix_bytes w + 1 + j * operand_bytes w)
      (pre @ enc_at w i vs @ post)) = le_bytes (fits_convert (vs ! j) w) (operand_bytes w)"
    using enc_field [OF assms, of w]
    by (simp add: enc_at_def length_width_prefix)
  then show ?thesis by (simp add: read_le_bytes fits_convert_field)
qed

lemma operand_at:
  assumes "j < length vs" and "map ov_kind vs = stream_kinds d"
    and "ov_canonical (vs ! j)" and "fits_check (vs ! j) w"
  shows "operand_kind_at d j = Some (ov_kind (vs ! j)) \<and>
         fits_decode (ov_kind (vs ! j)) (fits_convert (vs ! j) w) w = as_i64 (vs ! j)"
proof -
  have "j < opcode_length d"
    using assms(1) arg_cong [OF assms(2), of length] by (simp add: stream_kinds_length)
  then show ?thesis
    using assms(1,3,4) by (simp add: stream_kinds_nth operand_roundtrip flip: assms(2))
qed

lemma decode_operands_at:
  assumes "j + n \<le> length vs" and "map ov_kind vs = stream_kinds d"
    and "list_all ov_canonical vs" and "list_all (\<lambda>v. fits_check v w) vs"
  shows "decode_operands (pre @ enc_at w i vs @ post) w d (length pre + prefix_bytes w + 1) j n =
           Some (map as_i64 (take n (drop j vs)))"
  using assms(1)
proof (induction n arbitrary: j)
  case 0
  then show ?case by simp
next
  case (Suc n)
  then have j: "j < length vs" by simp
  have "operand_kind_at d j = Some (ov_kind (vs ! j))"
    "fits_decode (ov_kind (vs ! j)) (fits_convert (vs ! j) w) w = as_i64 (vs ! j)"
    using operand_at [OF j assms(2), of w] assms(3,4) j by (simp_all add: list_all_length)
  moreover have "drop j vs = vs ! j # drop (Suc j) vs" using j by (simp add: Cons_nth_drop_Suc)
  ultimately show ?case
    using Suc.IH [of "Suc j"] Suc.prems field_at [OF j, of pre w i post] by simp
qed

text \<open>The decoded view of an instruction.\<close>

definition decoded_view :: "nat \<Rightarrow> opcode_size \<Rightarrow> u8 \<Rightarrow> operand_value list \<Rightarrow> raw_decoded_instruction" where
  "decoded_view offset w i vs =
     \<lparr>rd_offset = offset, rd_opcode_id = i,
      rd_name = (case descriptor_for i of None \<Rightarrow> [] | Some d \<Rightarrow> od_name d), rd_width = w,
      rd_size = length (enc_at w i vs), rd_operands = map as_i64 vs\<rparr>"

lemma decode_at:
  assumes "instr_ok i vs" and "list_all (\<lambda>v. fits_check v w) vs"
  shows "decode_raw_instruction (pre @ enc_at w i vs @ post) (length pre) =
           Some (Inr (decoded_view (length pre) w i vs))"
proof -
  obtain d where d: "descriptor_for i = Some d" "\<not> od_is_wide_prefix d"
    and kinds: "map ov_kind vs = stream_kinds d" and canon: "list_all ov_canonical vs"
    using assms(1) by (auto simp: instr_ok_def split: option.splits)
  have len: "length vs = opcode_length d"
    using arg_cong [OF kinds, of length] by (simp add: stream_kinds_length)
  have "instruction_size w d = length (enc_at w i vs)"
    by (simp add: instruction_size_def length_enc_at len)
  then show ?thesis
    using d decode_operands_at [OF _ kinds canon assms(2), of 0 "length vs" pre i post] len
    by (simp add: decode_raw_instruction_def header_at Let_def decoded_view_def descriptor_for_id)
qed

lemma size_at:
  assumes "instr_ok i vs"
  shows "raw_instruction_size (pre @ enc_at w i vs @ post) (length pre) = Inr (length (enc_at w i vs))"
    and "ref_size (pre @ enc_at w i vs @ post) (length pre) = Some (length (enc_at w i vs))"
proof -
  obtain d where d: "descriptor_for i = Some d" "\<not> od_is_wide_prefix d"
    and kinds: "map ov_kind vs = stream_kinds d"
    using assms by (auto simp: instr_ok_def split: option.splits)
  have "length vs = opcode_length d"
    using arg_cong [OF kinds, of length] by (simp add: stream_kinds_length)
  then have "instruction_size w d = length (enc_at w i vs)"
    by (simp add: instruction_size_def length_enc_at)
  then show "raw_instruction_size (pre @ enc_at w i vs @ post) (length pre) =
      Inr (length (enc_at w i vs))"
    "ref_size (pre @ enc_at w i vs @ post) (length pre) = Some (length (enc_at w i vs))"
    using d by (simp_all add: raw_instruction_size_def ref_size_def decode_header_def header_at Let_def)
qed

section \<open>Whole streams\<close>

text \<open>
  The contract between an encoding and a walk over a stream: records are not empty, and the size
  of a record is found from its first byte wherever it stands.
\<close>

definition stream_of :: "('a \<Rightarrow> u8 list) \<Rightarrow> 'a list \<Rightarrow> u8 list" where
  "stream_of enc xs = concat (map enc xs)"

fun starts_from :: "('a \<Rightarrow> u8 list) \<Rightarrow> nat \<Rightarrow> 'a list \<Rightarrow> nat list" where
  "starts_from enc off [] = []"
| "starts_from enc off (x # xs) = off # starts_from enc (off + length (enc x)) xs"

locale self_delimiting =
  fixes enc :: "'a \<Rightarrow> u8 list"
    and ok :: "'a \<Rightarrow> bool"
    and size_of :: "u8 list \<Rightarrow> nat \<Rightarrow> nat option"
  assumes enc_nonempty: "enc x \<noteq> []"
    and size_of_enc: "ok x \<Longrightarrow> size_of (pre @ enc x @ post) (length pre) = Some (length (enc x))"
begin

lemma size_of_stream:
  assumes "ok x"
  shows "size_of (stream_of enc (ys @ x # zs)) (length (stream_of enc ys)) = Some (length (enc x))"
  using size_of_enc [OF assms, of "stream_of enc ys" "stream_of enc zs"] by (simp add: stream_of_def)

lemma stream_snoc: "length (stream_of enc (ys @ [x])) = length (stream_of enc ys) + length (enc x)"
  by (simp add: stream_of_def)

lemma starts_bounds:
  "o' \<in> set (starts_from enc off xs) \<Longrightarrow> off \<le> o' \<and> o' < off + length (stream_of enc xs)"
proof (induction xs arbitrary: off)
  case Nil
  then show ?case by simp
next
  case (Cons x xs)
  have "0 < length (enc x)" using enc_nonempty by simp
  with Cons show ?case by (fastforce simp: stream_of_def)
qed

end

definition encode_instr :: "u8 \<times> operand_value list \<Rightarrow> u8 list" where
  "encode_instr x = (case x of (i, vs) \<Rightarrow> enc_at (select_width vs) i vs)"

definition program_ok :: "(u8 \<times> operand_value list) list \<Rightarrow> bool" where
  "program_ok prog = list_all (\<lambda>(i, vs). instr_ok i vs) prog"

definition checked_size :: "u8 list \<Rightarrow> nat \<Rightarrow> nat option" where
  "checked_size bytes offset =
     (case raw_instruction_size bytes offset of Inl _ \<Rightarrow> None | Inr n \<Rightarrow> Some n)"

interpretation by_ref: self_delimiting encode_instr "\<lambda>(i, vs). instr_ok i vs" ref_size
proof unfold_locales
  show "encode_instr x \<noteq> []" for x
    by (cases x) (simp add: encode_instr_def enc_at_def)
  show "ref_size (pre @ encode_instr x @ post) (length pre) = Some (length (encode_instr x))"
    if "case x of (i, vs) \<Rightarrow> instr_ok i vs" for x pre post
    using that by (cases x) (simp add: encode_instr_def size_at)
qed

interpretation by_size: self_delimiting encode_instr "\<lambda>(i, vs). instr_ok i vs" checked_size
proof unfold_locales
  show "encode_instr x \<noteq> []" for x
    by (cases x) (simp add: encode_instr_def enc_at_def)
  show "checked_size (pre @ encode_instr x @ post) (length pre) = Some (length (encode_instr x))"
    if "case x of (i, vs) \<Rightarrow> instr_ok i vs" for x pre post
    using that by (cases x) (simp add: encode_instr_def checked_size_def size_at)
qed

lemma cursor_from_stream:
  assumes "program_ok (ys @ zs)"
  shows "cursor_from (stream_of encode_instr (ys @ zs)) (length (stream_of encode_instr ys)) =
           Some (starts_from encode_instr (length (stream_of encode_instr ys)) zs)"
  using assms
proof (induction zs arbitrary: ys)
  case Nil
  then show ?case by (subst cursor_from.simps) simp
next
  case (Cons z zs)
  let ?s = "stream_of encode_instr (ys @ z # zs)" and ?i = "length (stream_of encode_instr ys)"
  have size: "ref_size ?s ?i = Some (length (encode_instr z))"
    using Cons.prems by (intro by_ref.size_of_stream) (auto simp: program_ok_def)
  have "?i < length ?s"
    using by_ref.enc_nonempty [of z] by (simp add: stream_of_def)
  with size Cons.IH [of "ys @ [z]"] Cons.prems show ?case
    by (subst cursor_from.simps) (simp add: by_ref.stream_snoc)
qed

lemma start_walk_stream:
  assumes "program_ok (ys @ zs)" and "o' < length (stream_of encode_instr (ys @ zs))"
  shows "\<exists>walk. start_walk (stream_of encode_instr (ys @ zs)) o' (length (stream_of encode_instr ys)) =
           Inr walk \<and> (walk = o' \<longleftrightarrow>
             o' \<in> set (starts_from encode_instr (length (stream_of encode_instr ys)) zs))"
  using assms
proof (induction zs arbitrary: ys)
  case Nil
  then show ?case by (subst start_walk.simps) simp
next
  case (Cons z zs)
  let ?s = "stream_of encode_instr (ys @ z # zs)" and ?i = "length (stream_of encode_instr ys)"
  show ?case
  proof (cases "?i < o'")
    case False
    then show ?thesis
      using by_size.starts_bounds [of o' ?i "z # zs"] by (subst start_walk.simps) auto
  next
    case True
    have "checked_size ?s ?i = Some (length (encode_instr z))"
      using Cons.prems by (intro by_size.size_of_stream) (auto simp: program_ok_def)
    then have "raw_instruction_size ?s ?i = Inr (length (encode_instr z))"
      by (simp add: checked_size_def split: sum.splits)
    with True Cons.IH [of "ys @ [z]"] Cons.prems show ?thesis
      by (subst start_walk.simps) (simp add: by_size.stream_snoc)
  qed
qed

lemma decode_stream:
  assumes "program_ok (ys @ (i, vs) # zs)"
  shows "decode_raw_instruction (stream_of encode_instr (ys @ (i, vs) # zs))
           (length (stream_of encode_instr ys)) =
         Some (Inr (decoded_view (length (stream_of encode_instr ys)) (select_width vs) i vs))"
proof -
  have ok: "instr_ok i vs" using assms by (simp add: program_ok_def)
  then have "list_all (\<lambda>v. fits_check v (select_width vs)) vs"
    by (intro select_width_fits) (auto simp: instr_ok_def split: option.splits)
  from decode_at [OF ok this, of "stream_of encode_instr ys" "stream_of encode_instr zs"]
  show ?thesis by (simp add: stream_of_def encode_instr_def)
qed

section \<open>Properties\<close>

fun emit_all :: "(u8 \<times> operand_value list) list \<Rightarrow> stream_writer \<Rightarrow> (nat list \<times> stream_writer) option" where
  "emit_all [] w = Some ([], w)"
| "emit_all ((i, vs) # prog) w = do {
     (start, w1) \<leftarrow> emit i vs w;
     (starts, w2) \<leftarrow> emit_all prog w1;
     Some (start # starts, w2)
   }"

lemma emit_all_append:
  assumes "at_end w" and "program_ok prog"
  shows "emit_all prog w =
           Some (starts_from encode_instr (iw_position w) prog,
                 append_bytes (stream_of encode_instr prog) w)"
  using assms
proof (induction prog arbitrary: w)
  case Nil
  then show ?case by (simp add: stream_of_def)
next
  case (Cons x prog)
  obtain i vs where x: "x = (i, vs)" by (cases x)
  have ok: "instr_ok i vs" "program_ok prog" using Cons.prems(2) x by (simp_all add: program_ok_def)
  have "emit i vs w = Some (iw_position w, append_bytes (encode_instr x) w)"
    using emit_append [OF Cons.prems(1) ok(1)] by (simp add: x encode_instr_def)
  moreover have "iw_position (append_bytes (encode_instr x) w) = iw_position w + length (encode_instr x)"
    by (simp add: append_bytes_def)
  ultimately show ?case
    using Cons.IH [of "append_bytes (encode_instr x) w"] Cons.prems(1) ok(2)
    by (simp add: x stream_of_def)
qed

lemma map2_starts:
  assumes "program_ok (ys @ zs)"
  shows "map (decode_raw_instruction (stream_of encode_instr (ys @ zs)))
           (starts_from encode_instr (length (stream_of encode_instr ys)) zs) =
         map2 (\<lambda>off (i, vs). Some (Inr (decoded_view off (select_width vs) i vs)))
           (starts_from encode_instr (length (stream_of encode_instr ys)) zs) zs"
  using assms
proof (induction zs arbitrary: ys)
  case Nil
  then show ?case by simp
next
  case (Cons z zs)
  obtain i vs where z: "z = (i, vs)" by (cases z)
  show ?case
    using Cons.IH [of "ys @ [z]"] Cons.prems decode_stream [of ys i vs zs] z
    by (simp add: by_ref.stream_snoc)
qed

text \<open>C8: Emitting a program and finishing the stream gives bytes in which the cursor visits exactly
  the offsets that \<open>emit\<close> returned, in order, and decoding at each of them gives back the opcode,
  the operands, the selected width and the size of the instruction emitted there.\<close>

theorem stream_emit_decode_roundtrip:
  assumes "program_ok prog"
  shows "\<exists>offsets w. emit_all prog writer_new = Some (offsets, w) \<and>
           length offsets = length prog \<and>
           stream_cursor (writer_finalize w) = Some offsets \<and>
           map (decode_raw_instruction (writer_finalize w)) offsets =
             map2 (\<lambda>off (i, vs). Some (Inr (decoded_view off (select_width vs) i vs))) offsets prog"
proof -
  let ?offsets = "starts_from encode_instr 0 prog"
  let ?w = "append_bytes (stream_of encode_instr prog) writer_new"
  have "emit_all prog writer_new = Some (?offsets, ?w)"
    using emit_all_append [OF _ assms, of writer_new] by (simp add: at_end_def writer_new_def)
  moreover have "writer_finalize ?w = stream_of encode_instr prog"
    by (simp add: writer_finalize_def append_bytes_def writer_new_def)
  moreover have "length (starts_from encode_instr off prog) = length prog" for off
    by (induction prog arbitrary: off) simp_all
  ultimately show ?thesis
    using cursor_from_stream [of "[]" prog] map2_starts [of "[]" prog] assms
    by (simp add: stream_cursor_def stream_of_def [of _ "[]"])
qed

definition sample_program :: "(u8 \<times> operand_value list) list" where
  "sample_program = [(144, [VirtualRegister (-1), VirtualRegister 0x40000000]),
                     (104, [VirtualRegister (-1000)])]"

lemma sample_program_ok: "program_ok sample_program"
  by (simp add: program_ok_def sample_program_def instr_ok_def descriptor_mov descriptor_ret
      stream_kinds_def in_i32_def)

theorem stream_emit_decode_roundtrip_witness:
  "\<exists>offsets w. emit_all sample_program writer_new = Some (offsets, w) \<and>
     stream_cursor (writer_finalize w) = Some offsets"
  using stream_emit_decode_roundtrip [OF sample_program_ok] by blast

text \<open>C27: On an emitted stream the check of a jump target never reports an error, and it accepts
  exactly the offsets at which an instruction was emitted.\<close>

theorem instruction_start_exact:
  assumes "program_ok prog" and "emit_all prog writer_new = Some (offsets, w)"
  shows "is_instruction_start (writer_finalize w) o' = Inr (o' \<in> set offsets)"
proof -
  have w: "offsets = starts_from encode_instr 0 prog"
    "writer_finalize w = stream_of encode_instr prog"
    using assms(2) emit_all_append [OF _ assms(1), of writer_new]
    by (auto simp: at_end_def writer_new_def writer_finalize_def append_bytes_def)
  show ?thesis
  proof (cases "o' < length (stream_of encode_instr prog)")
    case True
    then show ?thesis
      using start_walk_stream [of "[]" prog o'] assms(1)
      by (auto simp: w is_instruction_start_def stream_of_def [of _ "[]"])
  next
    case False
    then show ?thesis
      using by_size.starts_bounds [of o' 0 prog] by (auto simp: w is_instruction_start_def)
  qed
qed

theorem instruction_start_exact_witness:
  "\<exists>offsets w. emit_all sample_program writer_new = Some (offsets, w) \<and>
     is_instruction_start (writer_finalize w) 1 = Inr (1 \<in> set offsets)"
proof -
  obtain offsets w where "emit_all sample_program writer_new = Some (offsets, w)"
    using emit_all_append [of writer_new sample_program] sample_program_ok
    by (auto simp: at_end_def writer_new_def)
  then show ?thesis using instruction_start_exact [OF sample_program_ok] by blast
qed

lemma drop_fields: "drop (j * operand_bytes w) (enc_fields w vs) = enc_fields w (drop j vs)"
proof (induction vs arbitrary: j)
  case Nil
  then show ?case by (simp add: enc_fields_def)
next
  case (Cons v vs)
  then show ?case by (cases j) (simp_all add: enc_fields_def)
qed

lemma take_fields: "take (j * operand_bytes w) (enc_fields w vs) = enc_fields w (take j vs)"
proof (induction vs arbitrary: j)
  case Nil
  then show ?case by (simp add: enc_fields_def)
next
  case (Cons v vs)
  then show ?case by (cases j) (simp_all add: enc_fields_def)
qed

lemma enc_at_update:
  assumes "j < length vs"
  shows "take (prefix_bytes w + 1 + j * operand_bytes w) (enc_at w i vs) @
           le_bytes (fits_convert v w) (operand_bytes w) @
           drop (prefix_bytes w + 1 + j * operand_bytes w + operand_bytes w) (enc_at w i vs) =
         enc_at w i (vs[j := v])"
proof -
  have "take (prefix_bytes w + 1 + j * operand_bytes w) (enc_at w i vs) =
      width_prefix w @ [i] @ enc_fields w (take j vs)"
    by (simp add: enc_at_def length_width_prefix take_fields)
  moreover have "drop (prefix_bytes w + 1 + j * operand_bytes w + operand_bytes w) (enc_at w i vs) =
      enc_fields w (drop (Suc j) vs)"
    using drop_fields [of "Suc j" w vs] by (simp add: enc_at_def length_width_prefix add.commute)
  moreover have "enc_fields w (vs[j := v]) = enc_fields w (take j vs) @
      le_bytes (fits_convert v w) (operand_bytes w) @ enc_fields w (drop (Suc j) vs)"
    using assms by (simp add: upd_conv_take_nth_drop enc_fields_def)
  ultimately show ?thesis by (simp add: enc_at_def)
qed

lemma set_operand_bytes:
  assumes "instr_ok i vs" and "iw_instructions wr = pre @ enc_at w i vs @ post" and "j < length vs"
  shows "set_operand (length pre) j v wr =
           Some (wr\<lparr>iw_instructions := pre @ enc_at w i (vs[j := v]) @ post\<rparr>)"
proof -
  obtain d where d: "descriptor_for i = Some d" "\<not> od_is_wide_prefix d"
    and kinds: "map ov_kind vs = stream_kinds d"
    using assms(1) by (auto simp: instr_ok_def split: option.splits)
  have len: "length vs = opcode_length d"
    using arg_cong [OF kinds, of length] by (simp add: stream_kinds_length)
  let ?o = "prefix_bytes w + 1 + j * operand_bytes w" and ?n = "operand_bytes w"
  have "Suc j * ?n \<le> length vs * ?n" using assms(3) by (intro mult_le_mono) simp_all
  then have fit: "?o + ?n \<le> length (enc_at w i vs)"
    by (simp add: length_enc_at OPCODE_ID_BYTES_def)
  let ?bytes = "pre @ enc_at w i vs @ post" and ?v = "fits_convert v w"
  have "store_le_loop ?bytes (length pre + ?o) ?v 0 ?n =
      Some (take (length pre + ?o) ?bytes @ le_bytes ?v ?n @ drop (length pre + ?o + ?n) ?bytes)"
    using fit by (subst store_le_loop_eq) (simp_all add: le_bytes_def)
  also have "take (length pre + ?o) ?bytes @ le_bytes ?v ?n @ drop (length pre + ?o + ?n) ?bytes =
      pre @ (take ?o (enc_at w i vs) @ le_bytes ?v ?n @ drop (?o + ?n) (enc_at w i vs)) @ post"
    using fit by (simp add: add.assoc)
  also have "\<dots> = pre @ enc_at w i (vs[j := v]) @ post"
    by (simp only: enc_at_update [OF assms(3)])
  finally show ?thesis
    using assms(2,3) d len by (simp add: set_operand_def decode_header_def header_at add.assoc)
qed

text \<open>
  Patching an operand of an instruction that was already written, with a value of the
  operand's kind that fits the width of the instruction, succeeds, leaves the bytes before and after
  the instruction alone, and makes it decode to the same instruction with that operand replaced.\<close>

lemma set_operand_patches:
  assumes "instr_ok i vs" and "list_all (\<lambda>x. fits_check x width) vs" and "j < length vs"
    and "ov_kind v = ov_kind (vs ! j)" and "ov_canonical v" and "fits_check v width"
    and "iw_instructions w = pre @ enc_at width i vs @ post"
  shows "\<exists>w' bytes. set_operand (length pre) j v w = Some w' \<and>
           iw_instructions w' = pre @ bytes @ post \<and> length bytes = length (enc_at width i vs) \<and>
           decode_raw_instruction (iw_instructions w') (length pre) =
             Some (Inr (decoded_view (length pre) width i (vs[j := v])))"
proof -
  have kinds: "map ov_kind (vs[j := v]) = map ov_kind vs"
    using assms(3,4) by (simp add: map_update list_update_same_conv)
  have "list_all P (vs[j := v])" if "list_all P vs" "P v" for P
    using that by (auto simp: list_all_iff dest: set_update_subset_insert [THEN subsetD])
  then have "instr_ok i (vs[j := v])" "list_all (\<lambda>x. fits_check x width) (vs[j := v])"
    using assms(1,2,5,6) kinds by (auto simp: instr_ok_def split: option.splits)
  from decode_at [OF this, of pre post] set_operand_bytes [OF assms(1,7,3), of v]
  show ?thesis by (simp add: length_enc_at)
qed

lemma ref_operand_at:
  assumes "instr_ok i vs" and "list_all (\<lambda>v. fits_check v w) vs" and "j < length vs"
  shows "ref_operand (pre @ enc_at w i vs @ post) (length pre) j = Some (as_i64 (vs ! j))"
proof -
  obtain d where d: "descriptor_for i = Some d" "\<not> od_is_wide_prefix d"
    and kinds: "map ov_kind vs = stream_kinds d" and canon: "list_all ov_canonical vs"
    using assms(1) by (auto simp: instr_ok_def split: option.splits)
  have len: "length vs = opcode_length d"
    using arg_cong [OF kinds, of length] by (simp add: stream_kinds_length)
  show ?thesis
    using d assms(2,3) len canon field_at [OF assms(3), of pre w i post] operand_at [OF assms(3) kinds, of w]
    by (simp add: ref_operand_def decode_header_def header_at list_all_length)
qed

text \<open>
  A label operand holds the signed distance from the start of its instruction: reading it
  through a reference gives the distance, and the jump target is the start plus the distance.\<close>

lemma jump_target_correct:
  assumes "instr_ok i vs" and "list_all (\<lambda>v. fits_check v width) vs" and "j < length vs"
    and "vs ! j = BoundLabel delta" and "0 \<le> int (length pre) + delta"
    and "int (length pre) + delta < 2 ^ 64"
  shows "ref_operand (pre @ enc_at width i vs @ post) (length pre) j = Some delta \<and>
         jump_target (pre @ enc_at width i vs @ post) (length pre) j =
           Some (nat (int (length pre) + delta))"
proof -
  have operand: "ref_operand (pre @ enc_at width i vs @ post) (length pre) j = Some delta"
    using ref_operand_at [OF assms(1-3), of pre post] assms(4) by simp
  have "unat (word_of_int (int (length pre) + delta) :: u64) = nat (int (length pre) + delta)"
    using assms(5,6) by (simp add: unsigned_of_int take_bit_int_eq_self del: of_int_add)
  then show ?thesis using operand by (simp only: jump_target_def) simp
qed

lemma row_jmp: "GENERATED_OPCODE_TABLE ! 69 = gen_row 69 ''jmp'' [K_BoundLabel] False 0"
  by (simp add: GENERATED_OPCODE_TABLE_def)

text \<open>
  A bytecode index packs a byte offset below \<open>2 ^ 30\<close> and a checkpoint below four without
  loss, and no such index with a checkpoint below three is the invalid one.\<close>

lemma bytecode_index_roundtrip:
  assumes "unat offset < 2 ^ 30" and "unat checkpoint < 4"
  shows "bi_offset (bi_new offset checkpoint) = offset \<and>
         bi_checkpoint (bi_new offset checkpoint) = checkpoint \<and>
         bi_offset (bi_with_checkpoint (bi_new offset c') checkpoint) = offset \<and>
         (unat checkpoint < 3 \<longrightarrow> bi_is_valid (bi_new offset checkpoint))"
proof -
  have new: "unat (bi_new offset c) = unat offset * 4 + unat c mod 4" for c
  proof -
    have m: "unat (ucast c AND (3 :: u32)) = unat c mod 4"
      using and_mask_unat(4) [of "ucast c :: u32"] unsigned_less [of c, where 'a = nat]
      by (simp add: unat_ucast_mod)
    have "unat c mod 4 < 4" by simp
    then show ?thesis
      using unat_or_push [of "ucast c AND 3" 2 offset] assms(1) m by (simp add: bi_new_def)
  qed
  have off: "bi_offset (bi_new offset c) = offset" for c
    using new [of c] by (simp add: bi_offset_def word_unat_eq_iff unat_drop_bit_div)
  moreover have "bi_checkpoint (bi_new offset checkpoint) = checkpoint"
    using new [of checkpoint] assms(2)
    by (simp add: bi_checkpoint_def word_unat_eq_iff unat_ucast_mod and_mask_unat mod_mod_cancel)
  moreover have "bi_is_valid (bi_new offset checkpoint)" if "unat checkpoint < 3"
    using new [of checkpoint] assms(1) that by (auto simp: bi_is_valid_def word_unat_eq_iff)
  ultimately show ?thesis by (simp add: bi_with_checkpoint_def)
qed

end
