(* ===== verification/Marked_Block.thy ===== *)
theory Marked_Block
  imports JSC_Prelude
begin

text \<open>
  The collector's blocks (\<open>src/src/gc/heap/marked_block.rs\<close>): pages of 16 KB, aligned to their
  size, tiled by cells of a whole number of 16-byte atoms behind a header with two bitmaps of one
  bit per atom.

  Memory is explicit.  The arena holds the bytes of the pages by machine address, and, as a record
  by block base, the header that occupies the first \<open>HEADER_ATOMS\<close> atoms of a page, which no cell
  overlaps.  Addresses are natural numbers; masking with \<open>BLOCK_MASK\<close> is rounding down to a multiple
  of the block size.  The atomics of the code are plain words: a single thread runs while the
  collector is stopped.
\<close>

section \<open>The model\<close>

definition ATOM_SIZE :: nat where "ATOM_SIZE = 16"
definition BLOCK_SIZE :: nat where "BLOCK_SIZE = 16 * 1024"
definition ATOMS_PER_BLOCK :: nat where "ATOMS_PER_BLOCK = BLOCK_SIZE div ATOM_SIZE"
definition MARK_WORDS :: nat where "MARK_WORDS = ATOMS_PER_BLOCK div 64"
definition HEADER_ATOMS :: nat where "HEADER_ATOMS = 17"
definition FIRST_PAYLOAD_ATOM :: nat where "FIRST_PAYLOAD_ATOM = HEADER_ATOMS"
definition END_ATOM :: nat where "END_ATOM = ATOMS_PER_BLOCK"

lemmas block_consts =
  ATOM_SIZE_def BLOCK_SIZE_def ATOMS_PER_BLOCK_def MARK_WORDS_def HEADER_ATOMS_def
  FIRST_PAYLOAD_ATOM_def END_ATOM_def

record block_header =
  bh_marks :: "u64 list"
  bh_newly_allocated :: "u64 list"
  bh_atoms_per_cell :: u16
  bh_start_atom :: u16

record arena =
  ar_bytes :: "nat \<Rightarrow> u8"
  ar_header :: "nat \<Rightarrow> block_header"

definition block_for :: "nat \<Rightarrow> nat" where
  "block_for addr = addr div BLOCK_SIZE * BLOCK_SIZE"

definition is_atom_aligned :: "nat \<Rightarrow> bool" where
  "is_atom_aligned addr \<longleftrightarrow> addr mod ATOM_SIZE = 0"

definition candidate_atom_number :: "nat \<Rightarrow> nat \<Rightarrow> nat" where
  "candidate_atom_number base addr = (addr - base) div ATOM_SIZE"

text \<open>One bit of a bitmap; the word index is in range for every address of the block.\<close>

definition bitmap_get :: "u64 list \<Rightarrow> nat \<Rightarrow> bool" where
  "bitmap_get ws atom \<longleftrightarrow> (ws ! (atom div 64)) AND push_bit (atom mod 64) 1 \<noteq> 0"

definition bitmap_set :: "u64 list \<Rightarrow> nat \<Rightarrow> u64 list" where
  "bitmap_set ws atom = ws[atom div 64 := (ws ! (atom div 64)) OR push_bit (atom mod 64) 1]"

definition block_start_atom :: "arena \<Rightarrow> nat \<Rightarrow> nat" where
  "block_start_atom ar base = unat (bh_start_atom (ar_header ar base))"

definition block_atoms_per_cell :: "arena \<Rightarrow> nat \<Rightarrow> nat" where
  "block_atoms_per_cell ar base = unat (bh_atoms_per_cell (ar_header ar base))"

definition is_atom :: "arena \<Rightarrow> nat \<Rightarrow> bool" where
  "is_atom ar cell_addr =
     (let base = block_for cell_addr;
          atom_number = candidate_atom_number base cell_addr;
          start_atom = block_start_atom ar base;
          atoms_per_cell = block_atoms_per_cell ar base
      in if atom_number < start_atom \<or> END_ATOM \<le> atom_number then False
         else (atom_number - start_atom) mod atoms_per_cell = 0)"

definition is_marked :: "arena \<Rightarrow> nat \<Rightarrow> bool" where
  "is_marked ar cell_addr =
     (let base = block_for cell_addr
      in bitmap_get (bh_marks (ar_header ar base)) (candidate_atom_number base cell_addr))"

definition is_newly_allocated :: "arena \<Rightarrow> nat \<Rightarrow> bool" where
  "is_newly_allocated ar cell_addr =
     (let base = block_for cell_addr
      in bitmap_get (bh_newly_allocated (ar_header ar base)) (candidate_atom_number base cell_addr))"

definition is_live_cell :: "arena \<Rightarrow> nat \<Rightarrow> bool" where
  "is_live_cell ar cell_addr =
     (if \<not> is_atom ar cell_addr then False
      else if is_newly_allocated ar cell_addr then True
      else is_marked ar cell_addr)"

definition update_header :: "nat \<Rightarrow> (block_header \<Rightarrow> block_header) \<Rightarrow> arena \<Rightarrow> arena" where
  "update_header base f ar = ar\<lparr>ar_header := (ar_header ar)(base := f (ar_header ar base))\<rparr>"

definition set_newly_allocated :: "nat \<Rightarrow> arena \<Rightarrow> arena" where
  "set_newly_allocated cell_addr ar =
     (let base = block_for cell_addr
      in update_header base
           (\<lambda>h. h\<lparr>bh_newly_allocated :=
                    bitmap_set (bh_newly_allocated h) (candidate_atom_number base cell_addr)\<rparr>) ar)"

definition test_and_set_marked :: "nat \<Rightarrow> arena \<Rightarrow> bool \<times> arena" where
  "test_and_set_marked cell_addr ar =
     (let base = block_for cell_addr; atom_number = candidate_atom_number base cell_addr;
          prev = bh_marks (ar_header ar base)
      in (\<not> bitmap_get prev atom_number,
          update_header base (\<lambda>h. h\<lparr>bh_marks := bitmap_set (bh_marks h) atom_number\<rparr>) ar))"

definition block_has_no_marks :: "arena \<Rightarrow> nat \<Rightarrow> bool" where
  "block_has_no_marks ar base =
     list_all (\<lambda>w. bh_marks (ar_header ar base) ! w = 0) [0..<MARK_WORDS]"

definition clear_marks_block :: "nat \<Rightarrow> arena \<Rightarrow> arena" where
  "clear_marks_block base = update_header base (\<lambda>h. h\<lparr>bh_marks := replicate MARK_WORDS 0\<rparr>)"

definition clear_newly_allocated_block :: "nat \<Rightarrow> arena \<Rightarrow> arena" where
  "clear_newly_allocated_block base =
     update_header base (\<lambda>h. h\<lparr>bh_newly_allocated := replicate MARK_WORDS 0\<rparr>)"

section \<open>Blocks and their cells\<close>

text \<open>
  A block is well formed when its base is aligned, its bitmaps have a bit for every atom and its
  cells tile the payload up to the end of the block.
\<close>

definition block_ok :: "arena \<Rightarrow> nat \<Rightarrow> bool" where
  "block_ok ar base \<longleftrightarrow>
     BLOCK_SIZE dvd base \<and> 0 < base \<and>
     length (bh_marks (ar_header ar base)) = MARK_WORDS \<and>
     length (bh_newly_allocated (ar_header ar base)) = MARK_WORDS \<and>
     0 < block_atoms_per_cell ar base \<and>
     FIRST_PAYLOAD_ATOM \<le> block_start_atom ar base \<and> block_start_atom ar base < END_ATOM \<and>
     block_atoms_per_cell ar base dvd END_ATOM - block_start_atom ar base"

definition block_cell_count :: "arena \<Rightarrow> nat \<Rightarrow> nat" where
  "block_cell_count ar base = (END_ATOM - block_start_atom ar base) div block_atoms_per_cell ar base"

definition cell_at :: "arena \<Rightarrow> nat \<Rightarrow> nat \<Rightarrow> nat" where
  "cell_at ar base k = base + (block_start_atom ar base + k * block_atoms_per_cell ar base) * ATOM_SIZE"

definition block_cells :: "arena \<Rightarrow> nat \<Rightarrow> nat list" where
  "block_cells ar base = map (cell_at ar base) [0..<block_cell_count ar base]"

lemma bitmap_get_bit: "bitmap_get ws atom \<longleftrightarrow> bit (ws ! (atom div 64)) (atom mod 64)"
  by (simp add: bitmap_get_def bit_iff_and_push_bit_not_eq_0)

lemma bitmap_get_set:
  assumes "i div 64 < length ws"
  shows "bitmap_get (bitmap_set ws i) j \<longleftrightarrow> i = j \<or> bitmap_get ws j"
proof (cases "i div 64 = j div 64")
  case True
  then have "i mod 64 = j mod 64 \<longleftrightarrow> i = j"
    using div_mult_mod_eq [of i 64] div_mult_mod_eq [of j 64] by metis
  moreover have "j mod 64 < 64" by simp
  then have "bit (push_bit (i mod 64) 1 :: u64) (j mod 64) \<longleftrightarrow> i mod 64 = j mod 64"
    by (auto simp: bit_exp_iff)
  ultimately show ?thesis
    using assms True by (auto simp only: bitmap_get_bit bitmap_set_def bit_or_iff nth_list_update_eq)
next
  case False
  then show ?thesis
    using assms by (auto simp: bitmap_get_bit bitmap_set_def)
qed

lemma bitmap_get_replicate [simp]: "i div 64 < n \<Longrightarrow> \<not> bitmap_get (replicate n 0) i"
  by (simp add: bitmap_get_bit)

lemma block_for_interior:
  assumes "BLOCK_SIZE dvd base" and "off < BLOCK_SIZE" shows "block_for (base + off) = base"
  using assms by (auto simp: block_for_def elim!: dvdE)

lemma cell_at_bounds:
  assumes "block_ok ar base" and "k < block_cell_count ar base"
  shows "block_start_atom ar base + k * block_atoms_per_cell ar base + block_atoms_per_cell ar base \<le> END_ATOM"
proof -
  let ?a = "block_atoms_per_cell ar base"
  have "Suc k * ?a \<le> block_cell_count ar base * ?a"
    using assms(2) by (intro mult_le_mono) simp_all
  also have "\<dots> = END_ATOM - block_start_atom ar base"
    using assms(1) by (simp add: block_cell_count_def block_ok_def)
  finally show ?thesis using assms(1) unfolding block_ok_def by (elim conjE) simp
qed

lemma block_for_cell_at:
  assumes "block_ok ar base" and "k < block_cell_count ar base"
  shows "block_for (cell_at ar base k) = base"
    and "candidate_atom_number base (cell_at ar base k) =
           block_start_atom ar base + k * block_atoms_per_cell ar base"
proof -
  have "(block_start_atom ar base + k * block_atoms_per_cell ar base) * ATOM_SIZE < BLOCK_SIZE"
    using cell_at_bounds [OF assms] assms(1) by (simp add: block_ok_def block_consts)
  then show "block_for (cell_at ar base k) = base"
    unfolding cell_at_def using assms(1) by (intro block_for_interior) (simp_all add: block_ok_def)
  show "candidate_atom_number base (cell_at ar base k) =
      block_start_atom ar base + k * block_atoms_per_cell ar base"
    by (simp add: candidate_atom_number_def cell_at_def ATOM_SIZE_def)
qed

lemma cell_at_mono:
  "block_ok ar base \<Longrightarrow> j < k \<Longrightarrow>
     cell_at ar base j + block_atoms_per_cell ar base * ATOM_SIZE \<le> cell_at ar base k"
proof -
  assume "j < k"
  then have "Suc j * block_atoms_per_cell ar base \<le> k * block_atoms_per_cell ar base"
    by (intro mult_le_mono) simp_all
  then show ?thesis by (simp add: cell_at_def ATOM_SIZE_def)
qed

lemma cell_at_inj:
  assumes "block_ok ar base" and "cell_at ar base j = cell_at ar base k" shows "j = k"
proof -
  have pos: "0 < block_atoms_per_cell ar base * ATOM_SIZE"
    using assms(1) by (simp add: block_ok_def ATOM_SIZE_def)
  show ?thesis
    using cell_at_mono [OF assms(1), of j k] cell_at_mono [OF assms(1), of k j] pos assms(2)
    by (cases j k rule: linorder_cases) auto
qed

lemma is_atom_iff:
  assumes "block_ok ar (block_for addr)" and "is_atom_aligned addr"
  shows "is_atom ar addr \<longleftrightarrow> addr \<in> set (block_cells ar (block_for addr))"
proof
  let ?b = "block_for addr" and ?n = "candidate_atom_number (block_for addr) addr"
  let ?s = "block_start_atom ar ?b" and ?a = "block_atoms_per_cell ar ?b"
  have addr: "addr = ?b + ?n * ATOM_SIZE"
  proof -
    have "?b \<le> addr" by (simp add: block_for_def)
    moreover have "ATOM_SIZE dvd addr - ?b"
      using assms(2) by (simp add: is_atom_aligned_def block_for_def block_consts mod_eq_0_iff_dvd dvd_diff_nat)
    ultimately show ?thesis by (simp add: candidate_atom_number_def ATOM_SIZE_def)
  qed
  {
    assume "is_atom ar addr"
    then have range: "?s \<le> ?n" "?n < END_ATOM" and "(?n - ?s) mod ?a = 0"
      by (auto simp: is_atom_def Let_def split: if_splits)
    then obtain k where k: "?n = ?s + k * ?a"
      by (metis add_diff_inverse_nat dvd_div_mult_self leD mod_0_imp_dvd)
    then have "k * ?a < block_cell_count ar ?b * ?a"
      using range assms(1) by (simp add: block_cell_count_def block_ok_def)
    then have "k < block_cell_count ar ?b" by simp
    with k addr show "addr \<in> set (block_cells ar ?b)"
      by (auto simp: block_cells_def cell_at_def intro!: image_eqI [of _ _ k])
  }
  {
    assume "addr \<in> set (block_cells ar ?b)"
    then obtain k where k: "k < block_cell_count ar ?b" "addr = cell_at ar ?b k"
      by (auto simp: block_cells_def)
    have "?n = ?s + k * ?a" using block_for_cell_at(2) [OF assms(1) k(1)] k(2) by simp
    moreover have "?s + k * ?a < END_ATOM"
      using cell_at_bounds [OF assms(1) k(1)] assms(1) by (simp add: block_ok_def)
    ultimately show "is_atom ar addr" by (simp add: is_atom_def Let_def)
  }
qed

section \<open>The bitmaps\<close>

lemma atom_word_in_range: "candidate_atom_number (block_for a) a div 64 < MARK_WORDS"
proof -
  have "a - block_for a = a mod BLOCK_SIZE" by (simp add: block_for_def minus_div_mult_eq_mod)
  then have "candidate_atom_number (block_for a) a < ATOMS_PER_BLOCK"
    by (simp add: candidate_atom_number_def block_consts)
  then show ?thesis by (simp add: block_consts)
qed

lemma atom_number_inj:
  assumes "is_atom_aligned a" and "is_atom_aligned b" and "block_for a = block_for b"
    and "candidate_atom_number (block_for a) a = candidate_atom_number (block_for b) b"
  shows "a = b"
proof -
  have shape: "x = block_for x + candidate_atom_number (block_for x) x * ATOM_SIZE" if "is_atom_aligned x" for x
  proof -
    have "block_for x \<le> x" by (simp add: block_for_def)
    moreover have "ATOM_SIZE dvd x - block_for x"
      using that by (simp add: is_atom_aligned_def block_for_def block_consts mod_eq_0_iff_dvd dvd_diff_nat)
    ultimately show ?thesis by (simp add: candidate_atom_number_def ATOM_SIZE_def)
  qed
  show ?thesis using shape [OF assms(1)] shape [OF assms(2)] assms(3,4) by metis
qed

text \<open>
  Marking a cell reports whether it was unmarked, and changes the mark of that cell and of no
  other aligned address, in its own block or another; the record of new allocations stays.
\<close>

lemma test_and_set_marked_exact:
  assumes "block_ok ar (block_for a)" and "is_atom_aligned a" and "is_atom_aligned b"
  shows "(fst (test_and_set_marked a ar) \<longleftrightarrow> \<not> is_marked ar a) \<and>
         (is_marked (snd (test_and_set_marked a ar)) b \<longleftrightarrow> a = b \<or> is_marked ar b) \<and>
         (is_newly_allocated (snd (test_and_set_marked a ar)) b \<longleftrightarrow> is_newly_allocated ar b) \<and>
         block_ok (snd (test_and_set_marked a ar)) (block_for a)"
proof -
  let ?i = "candidate_atom_number (block_for a) a" and ?h = "ar_header ar (block_for a)"
  have len: "?i div 64 < length (bh_marks ?h)"
    using assms(1) atom_word_in_range [of a] by (simp add: block_ok_def)
  have 1: "fst (test_and_set_marked a ar) \<longleftrightarrow> \<not> is_marked ar a"
    by (simp add: test_and_set_marked_def is_marked_def Let_def)
  have 2: "is_newly_allocated (snd (test_and_set_marked a ar)) b \<longleftrightarrow> is_newly_allocated ar b"
    by (simp add: test_and_set_marked_def is_newly_allocated_def Let_def update_header_def)
  have 3: "block_ok (snd (test_and_set_marked a ar)) (block_for a)"
    using assms(1) by (simp add: test_and_set_marked_def Let_def update_header_def block_ok_def
        block_atoms_per_cell_def block_start_atom_def bitmap_set_def)
  have 4: "is_marked (snd (test_and_set_marked a ar)) b \<longleftrightarrow> a = b \<or> is_marked ar b"
  proof (cases "block_for b = block_for a")
    case True
    then have "candidate_atom_number (block_for a) a = candidate_atom_number (block_for b) b \<longleftrightarrow> a = b"
      using atom_number_inj [OF assms(2,3)] by auto
    with True show ?thesis
      by (simp add: test_and_set_marked_def is_marked_def Let_def update_header_def bitmap_get_set [OF len])
  next
    case False
    then show ?thesis by (auto simp: test_and_set_marked_def is_marked_def Let_def update_header_def)
  qed
  show ?thesis using 1 2 3 4 by simp
qed

text \<open>
  Probing an aligned word as a possible pointer answers \<open>True\<close> exactly for the addresses of the
  cells of its block that are marked or newly allocated; an address inside a cell, in the header or
  in the slop in front of the cells is refused.
\<close>

lemma is_live_cell_exact:
  assumes "block_ok ar (block_for addr)" and "is_atom_aligned addr"
  shows "is_live_cell ar addr \<longleftrightarrow>
           addr \<in> set (block_cells ar (block_for addr)) \<and> (is_newly_allocated ar addr \<or> is_marked ar addr)"
  using is_atom_iff [OF assms] by (simp add: is_live_cell_def)

lemma bitmap_word_zero: "ws ! j = 0 \<longleftrightarrow> (\<forall>i < 64. \<not> bitmap_get ws (j * 64 + i))"
proof -
  have "bitmap_get ws (j * 64 + i) \<longleftrightarrow> bit (ws ! j) i" if "i < 64" for i
  proof -
    have "(j * 64 + i) div 64 = j" "(j * 64 + i) mod 64 = i" using that by simp_all
    then show ?thesis by (simp only: bitmap_get_bit)
  qed
  then show ?thesis by (auto simp: bit_eq_iff bit_imp_le_length)
qed

lemma block_no_marks_bits:
  "block_has_no_marks ar base \<longleftrightarrow> (\<forall>i < ATOMS_PER_BLOCK. \<not> bitmap_get (bh_marks (ar_header ar base)) i)"
proof -
  have "(\<forall>i < ATOMS_PER_BLOCK. P i) \<longleftrightarrow> (\<forall>j < MARK_WORDS. \<forall>i < 64. P (j * 64 + i))" for P
  proof
    assume "\<forall>j < MARK_WORDS. \<forall>i < 64. P (j * 64 + i)"
    moreover have "i div 64 < MARK_WORDS" if "i < ATOMS_PER_BLOCK" for i
      using that by (simp add: block_consts)
    ultimately show "\<forall>i < ATOMS_PER_BLOCK. P i" by (metis div_mod_decomp mod_less_divisor zero_less_numeral)
  qed (auto simp: block_consts)
  then show ?thesis by (auto simp: block_has_no_marks_def list_all_iff bitmap_word_zero)
qed

definition one_block :: arena where
  "one_block =
     \<lparr>ar_bytes = (\<lambda>_. 0),
      ar_header = (\<lambda>_. \<lparr>bh_marks = replicate MARK_WORDS 0, bh_newly_allocated = replicate MARK_WORDS 0,
                        bh_atoms_per_cell = 8, bh_start_atom = 24\<rparr>)\<rparr>"

lemma one_block_ok: "block_ok one_block 16384"
  by (simp add: block_ok_def block_atoms_per_cell_def block_start_atom_def one_block_def block_consts)

end
