(* ===== verification/Free_List.thy ===== *)
theory Free_List
  imports Marked_Block Virtual_Register
begin

text \<open>
  The allocator's free list (\<open>src/src/gc/heap/free_list.rs\<close>): a chain of intervals of free cells
  whose links are stored, scrambled, in the free cells themselves, and the sweep that builds the
  chain from the bitmaps of the blocks.  The casts of offsets and lengths to 32 bits are those of
  the code.
\<close>

section \<open>Reading and writing memory\<close>

definition write_u64 :: "nat \<Rightarrow> u64 \<Rightarrow> (nat \<Rightarrow> u8) \<Rightarrow> nat \<Rightarrow> u8" where
  "write_u64 a v m = (\<lambda>x. if a \<le> x \<and> x < a + 8 then le_byte v (x - a) else m x)"

fun gather_u64 :: "(nat \<Rightarrow> u8) \<Rightarrow> nat \<Rightarrow> nat \<Rightarrow> u64" where
  "gather_u64 m a 0 = 0"
| "gather_u64 m a (Suc k) = gather_u64 m a k OR push_bit (8 * k) (ucast (m (a + k)))"

definition read_u64 :: "(nat \<Rightarrow> u8) \<Rightarrow> nat \<Rightarrow> u64" where
  "read_u64 m a = gather_u64 m a 8"

section \<open>\<open>FreeCell\<close>\<close>

definition scramble :: "int \<Rightarrow> u32 \<Rightarrow> u64 \<Rightarrow> u64" where
  "scramble offset_to_next length_in_bytes secret =
     (push_bit 32 (ucast length_in_bytes) OR ucast (as_u32 offset_to_next)) XOR secret"

definition descramble :: "u64 \<Rightarrow> u64 \<Rightarrow> int \<times> u32" where
  "descramble scrambled_bits secret =
     (let descrambled = scrambled_bits XOR secret
      in (sint (ucast descrambled :: u32), ucast (drop_bit 32 descrambled)))"

text \<open>The scrambled bits are the second word of the cell.\<close>

definition read_scrambled_bits :: "(nat \<Rightarrow> u8) \<Rightarrow> nat \<Rightarrow> u64" where
  "read_scrambled_bits m addr = read_u64 m (addr + 8)"

definition write_scrambled_bits :: "nat \<Rightarrow> u64 \<Rightarrow> (nat \<Rightarrow> u8) \<Rightarrow> nat \<Rightarrow> u8" where
  "write_scrambled_bits addr bits m = write_u64 (addr + 8) bits m"

definition free_cell_decode :: "(nat \<Rightarrow> u8) \<Rightarrow> nat \<Rightarrow> u64 \<Rightarrow> int \<times> u32" where
  "free_cell_decode m addr secret = descramble (read_scrambled_bits m addr) secret"

definition make_last :: "nat \<Rightarrow> u32 \<Rightarrow> u64 \<Rightarrow> (nat \<Rightarrow> u8) \<Rightarrow> nat \<Rightarrow> u8" where
  "make_last cell_addr length_in_bytes secret =
     write_scrambled_bits cell_addr (scramble 1 length_in_bytes secret)"

definition set_next :: "nat \<Rightarrow> nat \<Rightarrow> u32 \<Rightarrow> u64 \<Rightarrow> (nat \<Rightarrow> u8) \<Rightarrow> nat \<Rightarrow> u8" where
  "set_next this next length_in_bytes secret =
     write_scrambled_bits this (scramble (as_i32 (int next - int this)) length_in_bytes secret)"

text \<open>\<open>advance\<close> returns the next interval head and the bounds of the current interval.\<close>

definition wrapping_add_signed :: "nat \<Rightarrow> int \<Rightarrow> nat" where
  "wrapping_add_signed a i = nat ((int a + i) mod 2 ^ 64)"

definition free_cell_advance :: "(nat \<Rightarrow> u8) \<Rightarrow> u64 \<Rightarrow> nat \<Rightarrow> nat \<times> nat \<times> nat" where
  "free_cell_advance m secret interval =
     (let (offset_to_next, length_in_bytes) = free_cell_decode m interval secret
      in (wrapping_add_signed interval offset_to_next, interval, interval + unat length_in_bytes))"

section \<open>\<open>FreeList\<close>\<close>

definition SENTINEL :: nat where
  "SENTINEL = 1"

record free_list =
  fl_interval_start :: nat
  fl_interval_end :: nat
  fl_next_interval :: nat
  fl_secret :: u64
  fl_original_size :: u32
  fl_cell_size :: u32

definition fl_new :: "u32 \<Rightarrow> free_list" where
  "fl_new cell_size =
     \<lparr>fl_interval_start = 0, fl_interval_end = 0, fl_next_interval = SENTINEL, fl_secret = 0,
      fl_original_size = 0, fl_cell_size = cell_size\<rparr>"

definition fl_clear :: "free_list \<Rightarrow> free_list" where
  "fl_clear fl = fl\<lparr>fl_interval_start := 0, fl_interval_end := 0, fl_next_interval := SENTINEL,
                    fl_secret := 0, fl_original_size := 0\<rparr>"

definition is_sentinel :: "nat \<Rightarrow> bool" where
  "is_sentinel cell \<longleftrightarrow> odd cell"

definition allocation_will_fail :: "free_list \<Rightarrow> bool" where
  "allocation_will_fail fl \<longleftrightarrow>
     fl_interval_end fl \<le> fl_interval_start fl \<and> is_sentinel (fl_next_interval fl)"

definition fl_advance :: "(nat \<Rightarrow> u8) \<Rightarrow> free_list \<Rightarrow> free_list" where
  "fl_advance m fl =
     (let (n, s, e) = free_cell_advance m (fl_secret fl) (fl_next_interval fl)
      in fl\<lparr>fl_next_interval := n, fl_interval_start := s, fl_interval_end := e\<rparr>)"

definition fl_initialize :: "(nat \<Rightarrow> u8) \<Rightarrow> nat \<Rightarrow> u64 \<Rightarrow> u32 \<Rightarrow> free_list \<Rightarrow> free_list" where
  "fl_initialize m head secret bytes fl =
     (if head = 0 then fl_clear fl
      else (fl_advance m (fl\<lparr>fl_secret := secret, fl_next_interval := head\<rparr>))
             \<lparr>fl_original_size := bytes\<rparr>)"

definition initialize_empty_block ::
  "nat \<Rightarrow> nat \<Rightarrow> u64 \<Rightarrow> (nat \<Rightarrow> u8) \<Rightarrow> free_list \<Rightarrow> (nat \<Rightarrow> u8) \<times> free_list" where
  "initialize_empty_block payload_begin payload_end secret m fl =
     (let len = of_nat (payload_end - payload_begin) :: u32;
          m' = make_last payload_begin len secret m
      in (m', fl_initialize m' payload_begin secret len fl))"

definition fl_allocate :: "(nat \<Rightarrow> u8) \<Rightarrow> free_list \<Rightarrow> nat option \<times> free_list" where
  "fl_allocate m fl =
     (let cell_size = unat (fl_cell_size fl) in
      if fl_interval_start fl < fl_interval_end fl
      then (Some (fl_interval_start fl),
            fl\<lparr>fl_interval_start := fl_interval_start fl + cell_size\<rparr>)
      else if is_sentinel (fl_next_interval fl) then (None, fl)
      else let fl' = fl_advance m fl
           in (Some (fl_interval_start fl'),
               fl'\<lparr>fl_interval_start := fl_interval_start fl' + cell_size\<rparr>))"

section \<open>Sweeping\<close>

datatype newly_allocated_mode = DoesNotHave | Has

record sweep_result =
  sr_freed_cells :: nat
  sr_freed_bytes :: u32
  sr_retained_cells :: nat

definition sweep_result_default :: sweep_result where
  "sweep_result_default = \<lparr>sr_freed_cells = 0, sr_freed_bytes = 0, sr_retained_cells = 0\<rparr>"

definition finalize_interval ::
  "nat \<Rightarrow> u32 \<Rightarrow> nat option \<Rightarrow> u64 \<Rightarrow> (nat \<Rightarrow> u8) \<Rightarrow> (nat \<Rightarrow> u8) \<times> nat option" where
  "finalize_interval head len next_head secret m =
     ((case next_head of
         None \<Rightarrow> make_last head len secret m
       | Some nh \<Rightarrow> set_next head nh len secret m),
      Some head)"

definition sweep_retained :: "arena \<Rightarrow> newly_allocated_mode \<Rightarrow> nat \<Rightarrow> bool" where
  "sweep_retained ar na_mode cell_addr \<longleftrightarrow>
     is_marked ar cell_addr \<or> (na_mode = Has \<and> is_newly_allocated ar cell_addr)"

text \<open>
  The loop over the cells of a block from the highest one down.  Its variables are the memory, the
  head of the chain, the run of dead cells being grown and the counts.  A cell size of zero would
  never end and one that does not divide the payload would step below the first cell: both are
  \<open>None\<close>.
\<close>

record sweep_state =
  ss_bytes :: "nat \<Rightarrow> u8"
  ss_next_head :: "nat option"
  ss_run_low :: "nat option"
  ss_run_end :: nat
  ss_result :: sweep_result

definition close_run :: "u64 \<Rightarrow> sweep_state \<Rightarrow> sweep_state" where
  "close_run secret s =
     (case ss_run_low s of
        None \<Rightarrow> s
      | Some low \<Rightarrow>
          let len = of_nat (ss_run_end s - low);
              (m, nh) = finalize_interval low len (ss_next_head s) secret (ss_bytes s)
          in s\<lparr>ss_bytes := m, ss_next_head := nh, ss_run_low := None\<rparr>)"

definition sweep_cell ::
  "arena \<Rightarrow> u64 \<Rightarrow> newly_allocated_mode \<Rightarrow> nat \<Rightarrow> nat \<Rightarrow> sweep_state \<Rightarrow> sweep_state" where
  "sweep_cell ar secret na_mode cell_size cell_addr s =
     (let r = ss_result s in
      if sweep_retained ar na_mode cell_addr
      then close_run secret (s\<lparr>ss_result := r\<lparr>sr_retained_cells := sr_retained_cells r + 1\<rparr>\<rparr>)
      else
        let s1 = s\<lparr>ss_result := r\<lparr>sr_freed_cells := sr_freed_cells r + 1,
                                 sr_freed_bytes := sr_freed_bytes r + of_nat cell_size\<rparr>\<rparr>
        in case ss_run_low s of
             Some _ \<Rightarrow> s1\<lparr>ss_run_low := Some cell_addr\<rparr>
           | None \<Rightarrow> s1\<lparr>ss_run_low := Some cell_addr, ss_run_end := cell_addr + cell_size\<rparr>)"

function sweep_loop ::
  "arena \<Rightarrow> u64 \<Rightarrow> newly_allocated_mode \<Rightarrow> nat \<Rightarrow> nat \<Rightarrow> nat \<Rightarrow> nat \<Rightarrow> sweep_state
     \<Rightarrow> sweep_state option" where
  "sweep_loop ar secret na_mode base start_atom atoms_per_cell atom s =
     (if atom \<le> start_atom then Some s
      else if atoms_per_cell = 0 \<or> atom < atoms_per_cell then None
      else let atom = atom - atoms_per_cell; cell_addr = base + atom * ATOM_SIZE
           in sweep_loop ar secret na_mode base start_atom atoms_per_cell atom
                (sweep_cell ar secret na_mode (atoms_per_cell * ATOM_SIZE) cell_addr s))"
  by pat_completeness auto
termination
  by (relation "measure (\<lambda>(ar, secret, na, base, start, apc, atom, s). atom)") auto

declare sweep_loop.simps [simp del]

text \<open>The flip of the allocation bitmap comes after the loop; the loop itself changes no header.\<close>

definition sweep_block_threading ::
  "nat \<Rightarrow> u64 \<Rightarrow> newly_allocated_mode \<Rightarrow> nat option \<Rightarrow> arena
     \<Rightarrow> (sweep_result \<times> nat option \<times> arena) option" where
  "sweep_block_threading block_base secret na_mode next_head ar =
     (let start_atom = block_start_atom ar block_base;
          atoms_per_cell = block_atoms_per_cell ar block_base
      in do {
        s \<leftarrow> sweep_loop ar secret na_mode block_base start_atom atoms_per_cell END_ATOM
              \<lparr>ss_bytes = ar_bytes ar, ss_next_head = next_head, ss_run_low = None, ss_run_end = 0,
               ss_result = sweep_result_default\<rparr>;
        let s = close_run secret s;
        let ar1 = ar\<lparr>ar_bytes := ss_bytes s\<rparr>;
        Some (ss_result s, ss_next_head s,
              if na_mode = DoesNotHave then clear_newly_allocated_block block_base ar1 else ar1)
      })"

definition install_head :: "nat option \<Rightarrow> u64 \<Rightarrow> u32 \<Rightarrow> arena \<Rightarrow> free_list \<Rightarrow> free_list" where
  "install_head next_head secret bytes ar fl =
     (case next_head of
        Some head \<Rightarrow> fl_initialize (ar_bytes ar) head secret bytes fl
      | None \<Rightarrow> fl_initialize (ar_bytes ar) 0 secret 0 fl)"

definition sweep_block ::
  "nat \<Rightarrow> u64 \<Rightarrow> newly_allocated_mode \<Rightarrow> arena \<Rightarrow> free_list
     \<Rightarrow> (sweep_result \<times> arena \<times> free_list) option" where
  "sweep_block block_base secret na_mode ar fl = do {
     (result, next_head, ar1) \<leftarrow> sweep_block_threading block_base secret na_mode None ar;
     Some (result, ar1, install_head next_head secret (sr_freed_bytes result) ar1 fl)
   }"

definition add_results :: "sweep_result \<Rightarrow> sweep_result \<Rightarrow> sweep_result" where
  "add_results tot r =
     \<lparr>sr_freed_cells = sr_freed_cells tot + sr_freed_cells r,
      sr_freed_bytes = sr_freed_bytes tot + sr_freed_bytes r,
      sr_retained_cells = sr_retained_cells tot + sr_retained_cells r\<rparr>"

fun sweep_blocks_loop ::
  "nat list \<Rightarrow> u64 \<Rightarrow> newly_allocated_mode \<Rightarrow> nat option \<Rightarrow> sweep_result \<Rightarrow> arena
     \<Rightarrow> (sweep_result \<times> nat option \<times> arena) option" where
  "sweep_blocks_loop [] secret na_mode next_head tot ar = Some (tot, next_head, ar)"
| "sweep_blocks_loop (base # bases) secret na_mode next_head tot ar = do {
     (r, next_head1, ar1) \<leftarrow> sweep_block_threading base secret na_mode next_head ar;
     sweep_blocks_loop bases secret na_mode next_head1 (add_results tot r) ar1
   }"

definition sweep_blocks ::
  "nat list \<Rightarrow> u64 \<Rightarrow> newly_allocated_mode \<Rightarrow> arena \<Rightarrow> free_list
     \<Rightarrow> (sweep_result \<times> arena \<times> free_list) option" where
  "sweep_blocks block_bases secret na_mode ar fl = do {
     (tot, next_head, ar1) \<leftarrow>
       sweep_blocks_loop block_bases secret na_mode None sweep_result_default ar;
     Some (tot, ar1, install_head next_head secret (sr_freed_bytes tot) ar1 fl)
   }"

section \<open>Scrambling\<close>

lemma gather_write:
  "k \<le> 8 \<Longrightarrow> gather_u64 (write_u64 a v m) a k = take_bit (8 * k) v"
proof (induction k)
  case 0
  then show ?case by simp
next
  case (Suc k)
  have "write_u64 a v m (a + k) = le_byte v k" using Suc.prems by (simp add: write_u64_def)
  then show ?case using Suc or_byte [of k v] by (simp add: add.commute)
qed

lemma read_write_u64 [simp]: "read_u64 (write_u64 a v m) a = v"
  by (simp add: read_u64_def gather_write take_bit_word_eq_self)

lemma gather_cong: "(\<And>x. a \<le> x \<Longrightarrow> x < a + k \<Longrightarrow> m x = m' x) \<Longrightarrow> gather_u64 m a k = gather_u64 m' a k"
  by (induction k) simp_all

lemma read_u64_cong: "(\<And>x. a \<le> x \<Longrightarrow> x < a + 8 \<Longrightarrow> m x = m' x) \<Longrightarrow> read_u64 m a = read_u64 m' a"
  unfolding read_u64_def by (rule gather_cong)

lemma descramble_scramble:
  assumes "in_i32 off" shows "descramble (scramble off len secret) secret = (off, len)"
proof -
  define lo where "lo = as_u32 off"
  have x: "(y XOR secret) XOR secret = y" for y by (simp add: xor.assoc)
  have "(ucast (push_bit 32 (ucast len :: u64) OR ucast lo) :: u32) = lo"
    by (rule bit_eqI) (auto simp: bit_simps)
  moreover have "(ucast (drop_bit 32 (push_bit 32 (ucast len :: u64) OR ucast lo)) :: u32) = len"
    by (rule bit_eqI) (auto simp: bit_simps dest: bit_imp_le_length)
  moreover have "sint lo = off"
    using assms by (simp add: lo_def as_u32_def in_i32_def signed_of_int signed_take_bit_int_eq_self)
  ultimately show ?thesis
    unfolding descramble_def scramble_def lo_def [symmetric] Let_def x by simp
qed

lemma decode_written:
  assumes "in_i32 off"
  shows "free_cell_decode (write_scrambled_bits a (scramble off len secret) m) a secret = (off, len)"
  using assms by (simp add: free_cell_decode_def read_scrambled_bits_def write_scrambled_bits_def
      descramble_scramble)

section \<open>What a free list stands for\<close>

definition interval_cells :: "nat \<Rightarrow> nat \<Rightarrow> nat \<Rightarrow> nat list" where
  "interval_cells cs a n = map (\<lambda>i. a + i * cs) [0..<n]"

fun chain :: "(nat \<Rightarrow> u8) \<Rightarrow> u64 \<Rightarrow> nat \<Rightarrow> nat \<Rightarrow> (nat \<times> nat) list \<Rightarrow> bool" where
  "chain m secret cs next [] \<longleftrightarrow> odd next"
| "chain m secret cs next ((a, n) # ivs) \<longleftrightarrow>
     next = a \<and> even a \<and> 0 < n \<and>
     unat (snd (free_cell_decode m a secret)) = n * cs \<and>
     chain m secret cs (wrapping_add_signed a (fst (free_cell_decode m a secret))) ivs"

definition chain_cells :: "nat \<Rightarrow> (nat \<times> nat) list \<Rightarrow> nat list" where
  "chain_cells cs ivs = concat (map (\<lambda>(a, n). interval_cells cs a n) ivs)"

text \<open>The cells that a free list will hand out, in order.\<close>

definition fl_repr :: "(nat \<Rightarrow> u8) \<Rightarrow> free_list \<Rightarrow> nat list \<Rightarrow> bool" where
  "fl_repr m fl cells \<longleftrightarrow>
     (let cs = unat (fl_cell_size fl) in
      16 \<le> cs \<and>
      (\<exists>n ivs. fl_interval_end fl = fl_interval_start fl + n * cs \<and>
         chain m (fl_secret fl) cs (fl_next_interval fl) ivs \<and>
         cells = interval_cells cs (fl_interval_start fl) n @ chain_cells cs ivs))"

lemma interval_cells_0 [simp]: "interval_cells cs a 0 = []"
  by (simp add: interval_cells_def)

lemma interval_cells_Suc: "interval_cells cs a (Suc n) = a # interval_cells cs (a + cs) n"
  by (auto simp: interval_cells_def upt_conv_Cons map_Suc_upt [symmetric] simp del: upt_Suc)

lemma interval_cells_empty [simp]: "interval_cells cs a n = [] \<longleftrightarrow> n = 0"
  by (simp add: interval_cells_def)

lemma chain_cells_simps [simp]:
  "chain_cells cs [] = []" "chain_cells cs ((a, n) # ivs) = interval_cells cs a n @ chain_cells cs ivs"
  by (simp_all add: chain_cells_def)

lemma chain_heads: "chain m secret cs next ivs \<Longrightarrow> (a, n) \<in> set ivs \<Longrightarrow> a \<in> set (chain_cells cs ivs)"
proof (induction ivs arbitrary: "next")
  case Nil
  then show ?case by simp
next
  case (Cons iv ivs)
  obtain b k where iv: "iv = (b, k)" by (cases iv)
  show ?case
  proof (cases "(a, n) = iv")
    case True
    then have "0 < n" using Cons.prems iv by simp
    then have "a \<in> set (interval_cells cs a n)" by (auto simp: interval_cells_def intro!: image_eqI [of _ _ 0])
    with True iv show ?thesis by simp
  next
    case False
    with Cons iv show ?thesis by auto
  qed
qed

lemma decode_cong:
  "(\<And>x. a + 8 \<le> x \<Longrightarrow> x < a + 16 \<Longrightarrow> m x = m' x) \<Longrightarrow>
     free_cell_decode m a secret = free_cell_decode m' a secret"
  unfolding free_cell_decode_def read_scrambled_bits_def
  by (rule arg_cong [of _ _ "\<lambda>v. descramble v secret"]) (rule read_u64_cong, simp)

lemma chain_frame:
  assumes "chain m secret cs next ivs"
    and "\<And>a n x. (a, n) \<in> set ivs \<Longrightarrow> a + 8 \<le> x \<Longrightarrow> x < a + 16 \<Longrightarrow> m x = m' x"
  shows "chain m' secret cs next ivs"
  using assms
proof (induction ivs arbitrary: "next")
  case Nil
  then show ?case by simp
next
  case (Cons iv ivs)
  obtain a n where iv: "iv = (a, n)" by (cases iv)
  have "free_cell_decode m a secret = free_cell_decode m' a secret"
    using Cons.prems(2) [of a n] iv by (intro decode_cong) simp
  moreover have "chain m' secret cs nx ivs" if "chain m secret cs nx ivs" for nx
    using that Cons.prems(2) by (intro Cons.IH) auto
  ultimately show ?case using Cons.prems(1) iv by simp
qed

text \<open>The answers to \<open>n\<close> requests in a row.\<close>

fun drain ::
  "((nat \<Rightarrow> u8) \<Rightarrow> 'fl \<Rightarrow> nat option \<times> 'fl) \<Rightarrow> nat \<Rightarrow> (nat \<Rightarrow> u8) \<Rightarrow> 'fl \<Rightarrow> nat option list" where
  "drain alloc 0 m fl = []"
| "drain alloc (Suc n) m fl = (let (c, fl') = alloc m fl in c # drain alloc n m fl')"

text \<open>
  The contract of a supply of cells as its clients see it: it hands out the cells it stands for one
  by one, in order, reports the end, and does not depend on memory outside those cells.
\<close>

locale cell_supply =
  fixes repr :: "(nat \<Rightarrow> u8) \<Rightarrow> 'fl \<Rightarrow> nat list \<Rightarrow> bool"
    and alloc :: "(nat \<Rightarrow> u8) \<Rightarrow> 'fl \<Rightarrow> nat option \<times> 'fl"
  assumes alloc_empty: "repr m fl [] \<Longrightarrow> alloc m fl = (None, fl)"
    and alloc_cell: "repr m fl (c # cells) \<Longrightarrow> \<exists>fl'. alloc m fl = (Some c, fl') \<and> repr m fl' cells"
    and repr_frame:
      "repr m fl cells \<Longrightarrow> (\<And>c x. c \<in> set cells \<Longrightarrow> c \<le> x \<Longrightarrow> x < c + 16 \<Longrightarrow> m x = m' x) \<Longrightarrow>
         repr m' fl cells"
begin

lemma drain_repr:
  "repr m fl cells \<Longrightarrow> drain alloc (Suc (length cells)) m fl = map Some cells @ [None]"
proof (induction cells arbitrary: fl)
  case Nil
  then show ?case by (simp add: alloc_empty)
next
  case (Cons c cells)
  then obtain fl' where "alloc m fl = (Some c, fl')" "repr m fl' cells"
    using alloc_cell by blast
  with Cons.IH [of fl'] show ?case by simp
qed

end

lemma chain_nonempty: "chain m secret cs next ivs \<Longrightarrow> chain_cells cs ivs = [] \<longleftrightarrow> ivs = []"
  by (cases ivs) auto

lemma fl_allocate_empty: "fl_repr m fl [] \<Longrightarrow> fl_allocate m fl = (None, fl)"
  by (auto simp: fl_repr_def fl_allocate_def Let_def chain_nonempty is_sentinel_def)

lemma fl_allocate_cell:
  assumes "fl_repr m fl (c # cells)"
  shows "\<exists>fl'. fl_allocate m fl = (Some c, fl') \<and> fl_repr m fl' cells"
proof -
  define cs where "cs = unat (fl_cell_size fl)"
  obtain n ivs where cs: "16 \<le> cs" and e: "fl_interval_end fl = fl_interval_start fl + n * cs"
    and ch: "chain m (fl_secret fl) cs (fl_next_interval fl) ivs"
    and cells: "c # cells = interval_cells cs (fl_interval_start fl) n @ chain_cells cs ivs"
    using assms by (auto simp: fl_repr_def Let_def cs_def)
  show ?thesis
  proof (cases n)
    case (Suc k)
    then have "fl_interval_start fl < fl_interval_end fl" using e cs by simp
    with Suc cs e ch cells show ?thesis
      by (auto simp: fl_allocate_def fl_repr_def Let_def cs_def [symmetric] interval_cells_Suc
          intro!: exI [of _ k] exI [of _ ivs])
  next
    case 0
    then have "ivs \<noteq> []" using cells by auto
    then obtain a j rest where ivs: "ivs = (a, j) # rest" by (cases ivs) auto
    with ch have head: "fl_next_interval fl = a" "even a" "0 < j"
      "unat (snd (free_cell_decode m a (fl_secret fl))) = j * cs"
      "chain m (fl_secret fl) cs (wrapping_add_signed a (fst (free_cell_decode m a (fl_secret fl)))) rest"
      by simp_all
    obtain i where j: "j = Suc i" using head(3) by (cases j) auto
    define fl' where "fl' = (fl_advance m fl)\<lparr>fl_interval_start := a + cs\<rparr>"
    have adv: "fl_advance m fl =
        fl\<lparr>fl_next_interval := wrapping_add_signed a (fst (free_cell_decode m a (fl_secret fl))),
           fl_interval_start := a, fl_interval_end := a + j * cs\<rparr>"
      using head by (cases "free_cell_decode m a (fl_secret fl)")
        (simp add: fl_advance_def free_cell_advance_def)
    have "fl_allocate m fl = (Some a, fl')"
      using 0 e head by (simp add: fl_allocate_def is_sentinel_def adv fl'_def cs_def)
    moreover have "fl_repr m fl' cells"
      using head cs cells 0 ivs j
      by (auto simp: fl_repr_def fl'_def adv Let_def cs_def [symmetric] interval_cells_Suc
          intro!: exI [of _ i] exI [of _ rest])
    moreover have "c = a" using cells 0 ivs j by (simp add: interval_cells_Suc)
    ultimately show ?thesis by simp
  qed
qed

interpretation fl: cell_supply fl_repr fl_allocate
proof unfold_locales
  show "fl_allocate m fl = (None, fl)" if "fl_repr m fl []" for m fl
    using that by (rule fl_allocate_empty)
  show "\<exists>fl'. fl_allocate m fl = (Some c, fl') \<and> fl_repr m fl' cells" if "fl_repr m fl (c # cells)"
    for m fl c cells
    using that by (rule fl_allocate_cell)
  show "fl_repr m' fl cells"
    if repr: "fl_repr m fl cells"
      and eq: "\<And>c x. c \<in> set cells \<Longrightarrow> c \<le> x \<Longrightarrow> x < c + 16 \<Longrightarrow> m x = m' x" for m m' fl cells
  proof -
    obtain n ivs where e: "fl_interval_end fl = fl_interval_start fl + n * unat (fl_cell_size fl)"
      and ch: "chain m (fl_secret fl) (unat (fl_cell_size fl)) (fl_next_interval fl) ivs"
      and cells: "cells = interval_cells (unat (fl_cell_size fl)) (fl_interval_start fl) n @
        chain_cells (unat (fl_cell_size fl)) ivs" and cs: "16 \<le> unat (fl_cell_size fl)"
      using repr by (auto simp: fl_repr_def Let_def)
    have "chain m' (fl_secret fl) (unat (fl_cell_size fl)) (fl_next_interval fl) ivs"
      by (rule chain_frame [OF ch]) (use chain_heads [OF ch] eq cells in fastforce)
    with e cells cs show ?thesis by (auto simp: fl_repr_def Let_def)
  qed
qed

end
