(* ===== verification/Sweep.thy ===== *)
theory Sweep
  imports Free_List
begin

text \<open>
  The sweep turns the bitmaps of the blocks into a free list: the rebuilt list stands for exactly
  the dead cells, in ascending order, and nothing but the link words of dead cells is written.
\<close>

section \<open>The sweep loop as a fold over the cells\<close>

lemma rev_upt_step: "rev [0..<Suc n] = n # rev [0..<n]"
  by simp

lemma sweep_loop_fold:
  assumes "0 < apc"
  shows "sweep_loop ar secret mode base start apc (start + n * apc) s =
           Some (fold (sweep_cell ar secret mode (apc * ATOM_SIZE))
                   (rev (map (\<lambda>k. base + (start + k * apc) * ATOM_SIZE) [0..<n])) s)"
proof (induction n arbitrary: s)
  case 0
  then show ?case by (simp add: sweep_loop.simps)
next
  case (Suc n)
  have "start + Suc n * apc - apc = start + n * apc" by simp
  then show ?case
    using assms Suc by (subst sweep_loop.simps) (simp add: Let_def)
qed

lemma sweep_loop_block:
  assumes "block_ok ar base"
  shows "sweep_loop ar secret mode base (block_start_atom ar base) (block_atoms_per_cell ar base) END_ATOM s =
           Some (fold (sweep_cell ar secret mode (block_atoms_per_cell ar base * ATOM_SIZE))
                   (rev (block_cells ar base)) s)"
proof -
  let ?a = "block_atoms_per_cell ar base" and ?s = "block_start_atom ar base"
  have "0 < ?a" and "END_ATOM = ?s + block_cell_count ar base * ?a"
    using assms by (simp_all add: block_ok_def block_cell_count_def)
  with sweep_loop_fold [of ?a ar secret mode base ?s "block_cell_count ar base" s] show ?thesis
    by (simp add: block_cells_def cell_at_def [abs_def])
qed

section \<open>The invariant of the fold\<close>

definition head_chain :: "(nat \<Rightarrow> u8) \<Rightarrow> u64 \<Rightarrow> nat \<Rightarrow> nat option \<Rightarrow> (nat \<times> nat) list \<Rightarrow> bool" where
  "head_chain m secret cs head ivs \<longleftrightarrow>
     (case head of None \<Rightarrow> ivs = [] | Some h \<Rightarrow> ivs \<noteq> [] \<and> chain m secret cs h ivs)"

text \<open>
  \<open>p\<close> is the lowest address swept so far, \<open>D\<close> the dead cells at or above it and \<open>lim\<close> bounds all
  addresses; the open run, if there is one, starts at \<open>p\<close>.
\<close>

definition sweep_inv ::
  "u64 \<Rightarrow> nat \<Rightarrow> nat \<Rightarrow> (nat \<Rightarrow> u8) \<Rightarrow> nat \<Rightarrow> nat list \<Rightarrow> nat \<Rightarrow> sweep_state \<Rightarrow> bool" where
  "sweep_inv secret cs lim m0 p D hi s \<longleftrightarrow>
     (\<exists>n ivs.
        (case ss_run_low s of
           None \<Rightarrow> n = 0
         | Some low \<Rightarrow> low = p \<and> 0 < n \<and> ss_run_end s = p + n * cs \<and> p + n * cs \<le> hi) \<and>
        head_chain (ss_bytes s) secret cs (ss_next_head s) ivs \<and>
        D = interval_cells cs p n @ chain_cells cs ivs \<and>
        list_all (\<lambda>(a, _). p + n * cs \<le> a \<and> a < lim) ivs) \<and>
     (\<forall>x. (\<forall>c\<in>set D. \<not> (c + 8 \<le> x \<and> x < c + 16)) \<longrightarrow> ss_bytes s x = m0 x)"

lemma interval_first: "0 < n \<Longrightarrow> p \<in> set (interval_cells cs p n)"
  by (auto simp: interval_cells_def intro!: image_eqI [of _ _ 0])

lemma write_scrambled_other:
  "\<not> (a + 8 \<le> x \<and> x < a + 16) \<Longrightarrow> write_scrambled_bits a v m x = m x"
  by (auto simp: write_scrambled_bits_def write_u64_def)

text \<open>Closing a run of cells below all intervals of a chain links it in front of the chain.\<close>

lemma finalize_chain:
  assumes ch: "head_chain m secret cs head ivs" and "even low" and "0 < n" and "16 \<le> cs"
    and "n * cs < 2 ^ 32" and above: "list_all (\<lambda>(a, _). low + n * cs \<le> a \<and> a < lim) ivs"
    and "lim \<le> low + 2 ^ 31" and "lim \<le> 2 ^ 63" and "low < lim"
    and fin: "finalize_interval low (of_nat (n * cs)) head secret m = (m', head')"
  shows "head_chain m' secret cs head' ((low, n) # ivs) \<and>
         (\<forall>x. \<not> (low + 8 \<le> x \<and> x < low + 16) \<longrightarrow> m' x = m x)"
proof -
  define off where "off = (case head of None \<Rightarrow> 1 | Some nh \<Rightarrow> int nh - int low)"
  have len: "unat (of_nat (n * cs) :: u32) = n * cs"
    using assms(5) by (simp add: unat_of_nat take_bit_eq_mod del: of_nat_mult)
  have off: "in_i32 off \<and> 0 \<le> off \<and> int low + off < 2 ^ 64"
  proof (cases head)
    case None
    then show ?thesis using assms(8,9) by (simp add: off_def in_i32_def)
  next
    case (Some nh)
    then have "(nh, snd (hd ivs)) \<in> set ivs"
      using ch by (cases ivs) (auto simp: head_chain_def)
    then have "low + n * cs \<le> nh" "nh < lim" using above by (auto simp: list_all_iff)
    then show ?thesis using Some assms(7,8) by (simp add: off_def in_i32_def)
  qed
  have m': "m' = write_scrambled_bits low (scramble off (of_nat (n * cs)) secret) m" and head': "head' = Some low"
    using fin off by (auto simp: finalize_interval_def make_last_def set_next_def off_def
        split: option.splits simp del: of_nat_mult)
  have dec: "free_cell_decode m' low secret = (off, of_nat (n * cs))"
    using off by (simp add: m' decode_written del: of_nat_mult)
  have nxt: "wrapping_add_signed low off = nat (int low + off)"
    using off by (simp add: wrapping_add_signed_def)
  have same: "m x = m' x" if "(a, k) \<in> set ivs" "a + 8 \<le> x" "x < a + 16" for a k x
  proof -
    have "low + n * cs \<le> a" using that(1) above by (auto simp: list_all_iff)
    moreover have "1 * 16 \<le> n * cs" using assms(3,4) by (intro mult_le_mono) simp_all
    ultimately show ?thesis using that(2,3) by (simp add: m' write_scrambled_other)
  qed
  have "chain m' secret cs (nat (int low + off)) ivs"
  proof (cases head)
    case None
    then show ?thesis using ch assms(2) by (simp add: head_chain_def off_def nat_add_distrib)
  next
    case (Some nh)
    then have "chain m secret cs nh ivs" using ch by (simp add: head_chain_def)
    from chain_frame [OF this same] show ?thesis using Some off by (simp add: off_def)
  qed
  then have "head_chain m' secret cs head' ((low, n) # ivs)"
    using assms(2,3) dec nxt len by (simp add: head_chain_def head' del: of_nat_mult)
  then show ?thesis by (simp add: m' write_scrambled_other)
qed

lemma close_run_inv:
  assumes inv: "sweep_inv secret cs lim m0 p D hi s" and "even p" and "16 \<le> cs"
    and "hi \<le> p + 2 ^ 31" and "hi \<le> lim" and "lim \<le> p + 2 ^ 31" and "lim \<le> 2 ^ 63" and "p < lim"
  shows "sweep_inv secret cs lim m0 p D hi (close_run secret s) \<and> ss_run_low (close_run secret s) = None \<and>
         ss_result (close_run secret s) = ss_result s"
proof (cases "ss_run_low s")
  case None
  with inv show ?thesis by (simp add: close_run_def)
next
  case (Some low)
  obtain n ivs where low: "low = p" "0 < n" "ss_run_end s = p + n * cs" "p + n * cs \<le> hi"
    and ch: "head_chain (ss_bytes s) secret cs (ss_next_head s) ivs"
    and D: "D = interval_cells cs p n @ chain_cells cs ivs"
    and above: "list_all (\<lambda>(a, _). p + n * cs \<le> a \<and> a < lim) ivs"
    and frame: "\<And>x. (\<forall>c\<in>set D. \<not> (c + 8 \<le> x \<and> x < c + 16)) \<Longrightarrow> ss_bytes s x = m0 x"
    using inv Some by (auto simp: sweep_inv_def)
  obtain m' head' where fin: "finalize_interval p (of_nat (n * cs)) (ss_next_head s) secret (ss_bytes s) = (m', head')"
    by fastforce
  have "n * cs < 2 ^ 32" using low(4) assms(4) by simp
  from finalize_chain [OF ch assms(2) low(2) assms(3) this above assms(6,7,8) fin]
  have new: "head_chain m' secret cs head' ((p, n) # ivs)"
    "\<And>x. \<not> (p + 8 \<le> x \<and> x < p + 16) \<Longrightarrow> m' x = ss_bytes s x" by blast+
  have s': "close_run secret s = s\<lparr>ss_bytes := m', ss_next_head := head', ss_run_low := None\<rparr>"
    using Some low fin by (simp add: close_run_def)
  have "p \<in> set D" using D low(2) interval_first by simp
  then have "\<forall>x. (\<forall>c\<in>set D. \<not> (c + 8 \<le> x \<and> x < c + 16)) \<longrightarrow> m' x = m0 x"
    using frame new(2) by auto
  moreover have "list_all (\<lambda>(a, _). p \<le> a \<and> a < lim) ((p, n) # ivs)"
    using above assms(8) by (auto simp: list_all_iff)
  ultimately show ?thesis
    using new(1) D unfolding s' by (auto simp: sweep_inv_def intro!: exI [of _ "(p, n) # ivs"])
qed

text \<open>One cell further down.\<close>

lemma sweep_cell_inv:
  assumes inv: "sweep_inv secret cs lim m0 p D hi s" and "c + cs = p" and "even p" and "16 \<le> cs"
    and "p \<le> hi" and "hi \<le> c + 2 ^ 31" and "hi \<le> lim" and "lim \<le> c + 2 ^ 31" and "lim \<le> 2 ^ 63"
  shows "sweep_inv secret cs lim m0 c (if sweep_retained ar mode c then D else c # D) hi
           (sweep_cell ar secret mode cs c s) \<and>
         ss_result (sweep_cell ar secret mode cs c s) =
           (let r = ss_result s in
            if sweep_retained ar mode c then r\<lparr>sr_retained_cells := sr_retained_cells r + 1\<rparr>
            else r\<lparr>sr_freed_cells := sr_freed_cells r + 1,
                   sr_freed_bytes := sr_freed_bytes r + of_nat cs\<rparr>)"
proof (cases "sweep_retained ar mode c")
  case True
  define s1 where "s1 = s\<lparr>ss_result := (ss_result s)\<lparr>sr_retained_cells := sr_retained_cells (ss_result s) + 1\<rparr>\<rparr>"
  have inv1: "sweep_inv secret cs lim m0 p D hi s1"
    using inv by (cases "ss_run_low s") (simp_all add: sweep_inv_def s1_def)
  have closed: "sweep_inv secret cs lim m0 p D hi (close_run secret s1) \<and>
      ss_run_low (close_run secret s1) = None \<and> ss_result (close_run secret s1) = ss_result s1"
  proof (cases "ss_run_low s")
    case None
    then show ?thesis using inv1 by (simp add: close_run_def s1_def)
  next
    case (Some low)
    then obtain n where "0 < n" "p + n * cs \<le> hi" using inv by (auto simp: sweep_inv_def)
    then have "p < hi" using assms(4) by (cases n) auto
    then have "p < lim" using assms(7) by simp
    with close_run_inv [OF inv1 assms(3,4)] assms show ?thesis by simp
  qed
  then have "sweep_inv secret cs lim m0 c D hi (close_run secret s1)"
    using assms(2) unfolding sweep_inv_def by (fastforce simp: list_all_iff)
  then show ?thesis using True closed by (simp add: sweep_cell_def Let_def s1_def)
next
  case False
  obtain n ivs where run: "case ss_run_low s of None \<Rightarrow> n = 0
        | Some low \<Rightarrow> low = p \<and> 0 < n \<and> ss_run_end s = p + n * cs \<and> p + n * cs \<le> hi"
    and rest: "head_chain (ss_bytes s) secret cs (ss_next_head s) ivs"
      "D = interval_cells cs p n @ chain_cells cs ivs"
      "list_all (\<lambda>(a, _). p + n * cs \<le> a \<and> a < lim) ivs"
      "\<forall>x. (\<forall>c\<in>set D. \<not> (c + 8 \<le> x \<and> x < c + 16)) \<longrightarrow> ss_bytes s x = m0 x"
    using inv by (auto simp: sweep_inv_def)
  have D: "c # D = interval_cells cs c (Suc n) @ chain_cells cs ivs"
    using rest(2) assms(2) by (simp add: interval_cells_Suc)
  let ?s' = "sweep_cell ar secret mode cs c s"
  have s': "ss_bytes ?s' = ss_bytes s" "ss_next_head ?s' = ss_next_head s" "ss_run_low ?s' = Some c"
    "ss_run_end ?s' = c + Suc n * cs"
    using False run assms(2) by (auto simp: sweep_cell_def Let_def split: option.splits)
  have e: "c + Suc n * cs = p + n * cs" and hi: "p + n * cs \<le> hi"
    using run assms(2,5) by (auto split: option.splits)
  have frame: "\<forall>x. (\<forall>c'\<in>set (c # D). \<not> (c' + 8 \<le> x \<and> x < c' + 16)) \<longrightarrow> ss_bytes s x = m0 x"
    using rest(4) by simp
  have "sweep_inv secret cs lim m0 c (c # D) hi ?s'"
    unfolding sweep_inv_def s' option.case e
    by (intro conjI exI [of _ "Suc n"] exI [of _ ivs] frame rest(1) D, unfold e) (simp_all add: hi rest(3))
  then show ?thesis using False by (auto simp: sweep_cell_def Let_def split: option.splits)
qed

section \<open>A block\<close>

definition count_results :: "nat \<Rightarrow> nat \<Rightarrow> nat \<Rightarrow> sweep_result" where
  "count_results cs dead retained =
     \<lparr>sr_freed_cells = dead, sr_freed_bytes = of_nat (dead * cs), sr_retained_cells = retained\<rparr>"

lemma add_count_results:
  "add_results (count_results cs d k) (count_results cs d' k') = count_results cs (d + d') (k + k')"
  by (simp add: add_results_def count_results_def algebra_simps)

lemma interval_cells_snoc: "interval_cells cs a (Suc n) = interval_cells cs a n @ [a + n * cs]"
  by (simp add: interval_cells_def)

abbreviation live_count :: "arena \<Rightarrow> newly_allocated_mode \<Rightarrow> nat list \<Rightarrow> nat" where
  "live_count ar mode cells \<equiv> length (filter (sweep_retained ar mode) cells)"

abbreviation dead_cells :: "arena \<Rightarrow> newly_allocated_mode \<Rightarrow> nat list \<Rightarrow> nat list" where
  "dead_cells ar mode cells \<equiv> filter (\<lambda>c. \<not> sweep_retained ar mode c) cells"

lemma sweep_fold_inv:
  assumes "even a" and "even cs" and "16 \<le> cs" and "hi \<le> lim" and "lim \<le> a + 2 ^ 31" and "lim \<le> 2 ^ 63"
    and "a + n * cs \<le> hi" and "sweep_inv secret cs lim m0 (a + n * cs) D hi s"
  shows "sweep_inv secret cs lim m0 a (dead_cells ar mode (interval_cells cs a n) @ D) hi
           (fold (sweep_cell ar secret mode cs) (rev (interval_cells cs a n)) s) \<and>
         ss_result (fold (sweep_cell ar secret mode cs) (rev (interval_cells cs a n)) s) =
           add_results (ss_result s)
             (count_results cs (length (dead_cells ar mode (interval_cells cs a n)))
                (live_count ar mode (interval_cells cs a n)))"
  using assms(7,8)
proof (induction n arbitrary: s D)
  case 0
  then show ?case by (simp add: add_results_def count_results_def)
next
  case (Suc n)
  let ?c = "a + n * cs" and ?s = "sweep_cell ar secret mode cs (a + n * cs) s"
  have "?c + cs = a + Suc n * cs" and "even (a + Suc n * cs)" and "hi \<le> ?c + 2 ^ 31" and "lim \<le> ?c + 2 ^ 31"
    using assms(1,2,4,5) by simp_all
  from sweep_cell_inv [OF Suc.prems(2) this(1,2) assms(3) Suc.prems(1) this(3) assms(4) this(4) assms(6),
      of ar mode]
  have step: "sweep_inv secret cs lim m0 ?c (dead_cells ar mode [?c] @ D) hi ?s"
    and res: "ss_result ?s = add_results (ss_result s)
                (count_results cs (length (dead_cells ar mode [?c])) (live_count ar mode [?c]))"
    by (simp_all add: Let_def add_results_def count_results_def split: if_splits)
  have "a + n * cs \<le> hi" using Suc.prems(1) by simp
  from Suc.IH [OF this step] show ?case
    by (simp add: interval_cells_snoc res) (simp add: add_results_def count_results_def algebra_simps)
qed

definition dead_chain ::
  "u64 \<Rightarrow> nat \<Rightarrow> nat \<Rightarrow> (nat \<Rightarrow> u8) \<Rightarrow> nat \<Rightarrow> nat list \<Rightarrow> (nat \<Rightarrow> u8) \<Rightarrow> nat option \<Rightarrow> bool" where
  "dead_chain secret cs lim m0 p D m head \<longleftrightarrow>
     (\<exists>ivs. head_chain m secret cs head ivs \<and> D = chain_cells cs ivs \<and>
        list_all (\<lambda>(a, _). p \<le> a \<and> a < lim) ivs) \<and>
     (\<forall>x. (\<forall>c\<in>set D. \<not> (c + 8 \<le> x \<and> x < c + 16)) \<longrightarrow> m x = m0 x)"

lemma sweep_inv_no_run:
  "ss_run_low s = None \<Longrightarrow>
     sweep_inv secret cs lim m0 p D hi s \<longleftrightarrow> dead_chain secret cs lim m0 p D (ss_bytes s) (ss_next_head s)"
  by (auto simp: sweep_inv_def dead_chain_def)

lemma dead_chain_lower:
  "dead_chain secret cs lim m0 p D m head \<Longrightarrow> q \<le> p \<Longrightarrow> dead_chain secret cs lim m0 q D m head"
  by (fastforce simp: dead_chain_def list_all_iff)

lemma block_cells_interval:
  "block_cells ar base =
     interval_cells (block_atoms_per_cell ar base * ATOM_SIZE) (cell_at ar base 0) (block_cell_count ar base)"
  by (simp add: block_cells_def interval_cells_def cell_at_def algebra_simps)

lemma block_payload:
  assumes "block_ok ar base"
  shows "cell_at ar base 0 + block_cell_count ar base * (block_atoms_per_cell ar base * ATOM_SIZE) =
           base + BLOCK_SIZE"
    and "base < cell_at ar base 0" and "even (cell_at ar base 0)" and "cell_at ar base 0 < base + BLOCK_SIZE"
proof -
  have dv: "block_atoms_per_cell ar base dvd END_ATOM - block_start_atom ar base"
    and lt: "block_start_atom ar base < END_ATOM"
    using assms by (auto simp: block_ok_def)
  have "block_cell_count ar base * block_atoms_per_cell ar base = END_ATOM - block_start_atom ar base"
    using dv by (simp add: block_cell_count_def)
  then have "(block_start_atom ar base + block_cell_count ar base * block_atoms_per_cell ar base) * ATOM_SIZE
      = END_ATOM * ATOM_SIZE" using lt by simp
  moreover have "END_ATOM * ATOM_SIZE = BLOCK_SIZE" by (simp add: block_consts)
  ultimately show "cell_at ar base 0 + block_cell_count ar base * (block_atoms_per_cell ar base * ATOM_SIZE) =
      base + BLOCK_SIZE" by (simp add: cell_at_def algebra_simps)
  have "16384 dvd base" using assms by (simp add: block_ok_def BLOCK_SIZE_def)
  then have "even base" by auto
  then show "even (cell_at ar base 0)" by (simp add: cell_at_def ATOM_SIZE_def)
  show "base < cell_at ar base 0" "cell_at ar base 0 < base + BLOCK_SIZE"
    using assms by (simp_all add: cell_at_def block_ok_def block_consts)
qed

text \<open>
  Sweeping a block below a chain: the chain grows by the dead cells of the block, and the bitmap of
  new allocations is cleared when the sweep is the one after marking.
\<close>

lemma sweep_block_threading_inv:
  assumes ok: "block_ok ar base" and cs: "cs = block_atoms_per_cell ar base * ATOM_SIZE"
    and "base + BLOCK_SIZE \<le> lim" and "lim \<le> base + 2 ^ 31" and "lim \<le> 2 ^ 63"
    and inv: "dead_chain secret cs lim m0 (base + BLOCK_SIZE) D (ar_bytes ar) head"
  obtains m' head' where
    "sweep_block_threading base secret mode head ar =
       Some (count_results cs (length (dead_cells ar mode (block_cells ar base)))
               (live_count ar mode (block_cells ar base)), head',
             (if mode = DoesNotHave then clear_newly_allocated_block base (ar\<lparr>ar_bytes := m'\<rparr>)
              else ar\<lparr>ar_bytes := m'\<rparr>))"
    and "dead_chain secret cs lim m0 base (dead_cells ar mode (block_cells ar base) @ D) m' head'"
proof -
  let ?s0 = "\<lparr>ss_bytes = ar_bytes ar, ss_next_head = head, ss_run_low = None, ss_run_end = 0,
              ss_result = sweep_result_default\<rparr>"
  let ?a = "cell_at ar base 0" and ?n = "block_cell_count ar base"
  let ?D = "dead_cells ar mode (block_cells ar base) @ D"
  define s1 where "s1 = fold (sweep_cell ar secret mode cs) (rev (interval_cells cs ?a ?n)) ?s0"
  note pay = block_payload [OF ok, folded cs]
  have cs16: "16 \<le> cs" "even cs" using ok by (simp_all add: cs ATOM_SIZE_def block_ok_def)
  have start: "sweep_inv secret cs lim m0 (?a + ?n * cs) D (base + BLOCK_SIZE) ?s0"
    using inv by (simp add: sweep_inv_no_run pay(1))
  have "lim \<le> ?a + 2 ^ 31" and "?a + ?n * cs \<le> base + BLOCK_SIZE" using assms(4) pay by simp_all
  from sweep_fold_inv [OF pay(3) cs16(2,1) assms(3) this(1) assms(5) this(2) start, of ar mode]
  have s1: "sweep_inv secret cs lim m0 ?a ?D (base + BLOCK_SIZE) s1"
    and r1: "ss_result s1 = count_results cs (length (dead_cells ar mode (block_cells ar base)))
                (live_count ar mode (block_cells ar base))"
    unfolding s1_def block_cells_interval [of ar base, folded cs]
    by (simp_all add: add_results_def sweep_result_default_def count_results_def)
  have "base + BLOCK_SIZE \<le> ?a + 2 ^ 31" "lim \<le> ?a + 2 ^ 31" "?a < lim"
    using pay(2,4) assms(3,4) by (simp_all add: block_consts)
  from close_run_inv [OF s1 pay(3) cs16(1) this(1) assms(3) this(2) assms(5) this(3)]
  have s2: "dead_chain secret cs lim m0 ?a ?D (ss_bytes (close_run secret s1)) (ss_next_head (close_run secret s1))"
    and r2: "ss_result (close_run secret s1) = ss_result s1"
    using sweep_inv_no_run by blast+
  have loop: "sweep_loop ar secret mode base (block_start_atom ar base) (block_atoms_per_cell ar base) END_ATOM ?s0
      = Some s1"
    using sweep_loop_block [OF ok] by (simp add: s1_def block_cells_interval cs)
  show ?thesis
    by (rule that [of "ss_next_head (close_run secret s1)" "ss_bytes (close_run secret s1)"])
      (simp_all add: sweep_block_threading_def Let_def loop r1 r2 dead_chain_lower [OF s2] pay(2) less_imp_le)
qed

section \<open>Several blocks\<close>

lemma retained_after_sweep [simp]:
  "sweep_retained (ar\<lparr>ar_bytes := m\<rparr>) mode c = sweep_retained ar mode c"
  "sweep_retained (clear_newly_allocated_block base ar) DoesNotHave c = sweep_retained ar DoesNotHave c"
  by (simp_all add: sweep_retained_def is_marked_def is_newly_allocated_def Let_def
      clear_newly_allocated_block_def update_header_def)

lemma block_after_sweep [simp]:
  "block_start_atom (ar\<lparr>ar_bytes := m\<rparr>) b = block_start_atom ar b"
  "block_atoms_per_cell (ar\<lparr>ar_bytes := m\<rparr>) b = block_atoms_per_cell ar b"
  "block_start_atom (clear_newly_allocated_block base ar) b = block_start_atom ar b"
  "block_atoms_per_cell (clear_newly_allocated_block base ar) b = block_atoms_per_cell ar b"
  "block_ok (ar\<lparr>ar_bytes := m\<rparr>) b = block_ok ar b"
  by (simp_all add: block_ok_def block_start_atom_def block_atoms_per_cell_def
      clear_newly_allocated_block_def update_header_def)

lemma block_ok_clear [simp]:
  "block_ok ar b \<Longrightarrow> block_ok (clear_newly_allocated_block base ar) b"
  by (auto simp: block_ok_def block_start_atom_def block_atoms_per_cell_def
      clear_newly_allocated_block_def update_header_def)

lemma block_cells_cong:
  "block_start_atom ar' b = block_start_atom ar b \<Longrightarrow> block_atoms_per_cell ar' b = block_atoms_per_cell ar b \<Longrightarrow>
     block_cells ar' b = block_cells ar b"
  by (simp add: block_cells_def block_cell_count_def cell_at_def [abs_def])

text \<open>The header of a block, when the marks are current, loses its record of new allocations.\<close>

definition flip_headers :: "newly_allocated_mode \<Rightarrow> nat list \<Rightarrow> arena \<Rightarrow> arena" where
  "flip_headers mode bases ar = (if mode = DoesNotHave then fold clear_newly_allocated_block bases ar else ar)"

lemma clear_bytes_commute:
  "clear_newly_allocated_block b (ar\<lparr>ar_bytes := m\<rparr>) = (clear_newly_allocated_block b ar)\<lparr>ar_bytes := m\<rparr>"
  by (simp add: clear_newly_allocated_block_def update_header_def)

lemma flip_headers_bytes [simp]:
  "flip_headers mode bases (ar\<lparr>ar_bytes := m\<rparr>) = (flip_headers mode bases ar)\<lparr>ar_bytes := m\<rparr>"
proof -
  have "fold clear_newly_allocated_block bases (ar\<lparr>ar_bytes := m\<rparr>) =
      (fold clear_newly_allocated_block bases ar)\<lparr>ar_bytes := m\<rparr>" for ar
    by (induction bases arbitrary: ar) (simp_all add: clear_bytes_commute)
  then show ?thesis by (simp add: flip_headers_def)
qed

abbreviation swept_cells :: "arena \<Rightarrow> nat list \<Rightarrow> nat list" where
  "swept_cells ar bases \<equiv> concat (map (block_cells ar) (rev bases))"

text \<open>
  The blocks are swept from the highest one down.  \<open>sweepable\<close> collects what that needs: the bases
  descend below \<open>p\<close>, the blocks have the cell size of the list and they spread over less than
  2 GB, so that the distance of any two cells fits the 32 bits of a link.
\<close>

definition sweepable :: "arena \<Rightarrow> nat \<Rightarrow> nat \<Rightarrow> nat list \<Rightarrow> bool" where
  "sweepable ar cs lim bases \<longleftrightarrow>
     sorted_wrt (\<lambda>b b'. b' + BLOCK_SIZE \<le> b) bases \<and> lim \<le> 2 ^ 63 \<and>
     list_all (\<lambda>b. block_ok ar b \<and> block_atoms_per_cell ar b * ATOM_SIZE = cs \<and>
                   b + BLOCK_SIZE \<le> lim \<and> lim \<le> b + 2 ^ 31) bases"

lemma sweep_blocks_loop_inv:
  assumes "sweepable ar cs lim bases" and "\<forall>b\<in>set bases. b + BLOCK_SIZE \<le> p"
    and "dead_chain secret cs lim m0 p D (ar_bytes ar) head"
  shows "\<exists>m' head'. sweep_blocks_loop bases secret mode head tot ar =
           Some (add_results tot (count_results cs (length (dead_cells ar mode (swept_cells ar bases)))
                   (live_count ar mode (swept_cells ar bases))), head',
                 (flip_headers mode bases ar)\<lparr>ar_bytes := m'\<rparr>) \<and>
         dead_chain secret cs lim m0 0 (dead_cells ar mode (swept_cells ar bases) @ D) m' head'"
  using assms
proof (induction bases arbitrary: ar p D head tot)
  case Nil
  have "dead_chain secret cs lim m0 0 D (ar_bytes ar) head" using dead_chain_lower [OF Nil.prems(3)] by simp
  moreover have "tot = add_results tot (count_results cs 0 0)"
    by (simp add: add_results_def count_results_def)
  ultimately show ?case by (intro exI [of _ "ar_bytes ar"] exI [of _ head]) (simp add: flip_headers_def)
next
  case (Cons b bs)
  have ok: "block_ok ar b" "cs = block_atoms_per_cell ar b * ATOM_SIZE" "b + BLOCK_SIZE \<le> lim"
    "lim \<le> b + 2 ^ 31" "lim \<le> 2 ^ 63"
    using Cons.prems(1) by (auto simp: sweepable_def)
  have bp: "b + BLOCK_SIZE \<le> p" using Cons.prems(2) by simp
  obtain m1 head1 where
    step: "sweep_block_threading b secret mode head ar =
       Some (count_results cs (length (dead_cells ar mode (block_cells ar b)))
               (live_count ar mode (block_cells ar b)), head1,
             (if mode = DoesNotHave then clear_newly_allocated_block b (ar\<lparr>ar_bytes := m1\<rparr>)
              else ar\<lparr>ar_bytes := m1\<rparr>))"
    and chain1: "dead_chain secret cs lim m0 b (dead_cells ar mode (block_cells ar b) @ D) m1 head1"
    using sweep_block_threading_inv [OF ok dead_chain_lower [OF Cons.prems(3) bp]] by blast
  define ar1 where "ar1 = (if mode = DoesNotHave then clear_newly_allocated_block b (ar\<lparr>ar_bytes := m1\<rparr>)
              else ar\<lparr>ar_bytes := m1\<rparr>)"
  have same: "block_start_atom ar1 b' = block_start_atom ar b'"
    "block_atoms_per_cell ar1 b' = block_atoms_per_cell ar b'" for b'
    by (simp_all add: ar1_def)
  have ret: "sweep_retained ar1 mode = sweep_retained ar mode"
    by (rule ext) (cases mode, simp_all add: ar1_def)
  have cells: "block_cells ar1 = block_cells ar"
    by (rule ext, rule block_cells_cong) (simp_all add: same)
  have ok1: "block_ok ar b' \<Longrightarrow> block_ok ar1 b'" for b' by (simp add: ar1_def)
  have sw: "sweepable ar1 cs lim bs"
    using Cons.prems(1) ok1 by (simp add: sweepable_def list_all_iff same)
  have below: "\<forall>b'\<in>set bs. b' + BLOCK_SIZE \<le> b" using Cons.prems(1) by (simp add: sweepable_def)
  have bytes: "ar_bytes ar1 = m1" by (simp add: ar1_def clear_newly_allocated_block_def update_header_def)
  have flip: "flip_headers mode bs ar1 = (flip_headers mode (b # bs) ar)\<lparr>ar_bytes := m1\<rparr>"
    by (cases mode) (simp_all add: flip_headers_def ar1_def flip_headers_bytes [of DoesNotHave, unfolded flip_headers_def, simplified] clear_bytes_commute)
  from Cons.IH [OF sw below chain1 [folded bytes]] obtain m' head' where
    "sweep_blocks_loop bs secret mode head1
        (add_results tot (count_results cs (length (dead_cells ar mode (block_cells ar b)))
               (live_count ar mode (block_cells ar b)))) ar1 =
       Some (add_results (add_results tot (count_results cs (length (dead_cells ar mode (block_cells ar b)))
               (live_count ar mode (block_cells ar b))))
             (count_results cs (length (dead_cells ar mode (swept_cells ar bs)))
               (live_count ar mode (swept_cells ar bs))), head', (flip_headers mode bs ar1)\<lparr>ar_bytes := m'\<rparr>)"
    and "dead_chain secret cs lim m0 0
       (dead_cells ar mode (swept_cells ar bs) @ dead_cells ar mode (block_cells ar b) @ D) m' head'"
    unfolding ret cells by blast
  then show ?case
    by (intro exI [of _ m'] exI [of _ head'])
      (simp add: step flip ar1_def [symmetric], simp add: add_results_def count_results_def algebra_simps)
qed

section \<open>The rebuilt free list\<close>

lemma install_head_repr:
  assumes chain: "dead_chain secret (unat (fl_cell_size fl)) lim m0 0 D m head"
    and "16 \<le> unat (fl_cell_size fl)" and "head \<noteq> Some 0"
  shows "fl_repr m (install_head head secret bytes (ar\<lparr>ar_bytes := m\<rparr>) fl) D"
proof -
  let ?cs = "unat (fl_cell_size fl)"
  obtain ivs where h: "head_chain m secret ?cs head ivs" and D: "D = chain_cells ?cs ivs"
    using chain by (auto simp: dead_chain_def)
  show ?thesis
  proof (cases head)
    case None
    then have "ivs = []" using h by (simp add: head_chain_def)
    with None D assms(2) show ?thesis
      by (auto simp: install_head_def fl_initialize_def fl_clear_def fl_repr_def Let_def SENTINEL_def
          intro!: exI [of _ "[]"])
  next
    case (Some a)
    then obtain n rest where ivs: "ivs = (a, n) # rest" and ch: "chain m secret ?cs a ivs"
      using h by (cases ivs) (auto simp: head_chain_def)
    obtain off len where dec: "free_cell_decode m a secret = (off, len)" by fastforce
    with ch ivs have "unat len = n * ?cs" "chain m secret ?cs (wrapping_add_signed a off) rest" by auto
    with Some assms(2,3) D ivs dec show ?thesis
      by (auto simp: install_head_def fl_initialize_def fl_advance_def free_cell_advance_def fl_repr_def
          Let_def intro!: exI [of _ n] exI [of _ rest])
  qed
qed

lemma sweepable_cells:
  assumes "sweepable ar cs lim bases" and "c \<in> set (swept_cells ar bases)"
  shows "\<exists>b\<in>set bases. b < c \<and> c + cs \<le> b + BLOCK_SIZE" and "0 < c"
proof -
  obtain b where b: "b \<in> set bases" "c \<in> set (block_cells ar b)" using assms(2) by auto
  then obtain k where k: "k < block_cell_count ar b" "c = cell_at ar b k" by (auto simp: block_cells_def)
  have ok: "block_ok ar b" "block_atoms_per_cell ar b * ATOM_SIZE = cs"
    using assms(1) b(1) by (auto simp: sweepable_def list_all_iff)
  have "(block_start_atom ar b + k * block_atoms_per_cell ar b + block_atoms_per_cell ar b) * ATOM_SIZE
      \<le> END_ATOM * ATOM_SIZE"
    using cell_at_bounds [OF ok(1) k(1)] by (intro mult_le_mono1)
  then have "c + cs \<le> b + BLOCK_SIZE"
    using k(2) ok(2) by (simp add: cell_at_def algebra_simps) (simp add: block_consts)
  moreover have "b < c" using k(2) ok(1) by (simp add: cell_at_def block_ok_def block_consts)
  ultimately show "\<exists>b\<in>set bases. b < c \<and> c + cs \<le> b + BLOCK_SIZE" using b(1) by auto
  show "0 < c" using \<open>b < c\<close> by simp
qed

lemma head_in_dead:
  assumes "dead_chain secret cs lim m0 p D m (Some h)" shows "h \<in> set D"
proof -
  obtain ivs where "ivs \<noteq> []" "chain m secret cs h ivs" "D = chain_cells cs ivs"
    using assms by (auto simp: dead_chain_def head_chain_def)
  then show ?thesis by (cases ivs) (auto simp: interval_first)
qed

lemma sweep_blocks_repr:
  assumes sw: "sweepable ar cs lim bases" and "unat (fl_cell_size fl) = cs" and "16 \<le> cs"
  obtains ar' fl' where
    "sweep_blocks bases secret mode ar fl =
       Some (count_results cs (length (dead_cells ar mode (swept_cells ar bases)))
               (live_count ar mode (swept_cells ar bases)), ar', fl')"
    and "fl_repr (ar_bytes ar') fl' (dead_cells ar mode (swept_cells ar bases))"
    and "ar_header ar' = ar_header (flip_headers mode bases ar)"
    and "\<forall>x. (\<forall>c\<in>set (dead_cells ar mode (swept_cells ar bases)). \<not> (c + 8 \<le> x \<and> x < c + 16)) \<longrightarrow>
           ar_bytes ar' x = ar_bytes ar x"
    and "fl_cell_size fl' = fl_cell_size fl"
proof -
  let ?D = "dead_cells ar mode (swept_cells ar bases)"
  have "\<forall>b\<in>set bases. b + BLOCK_SIZE \<le> lim"
    using sw by (auto simp: sweepable_def list_all_iff)
  moreover have "dead_chain secret cs lim (ar_bytes ar) lim [] (ar_bytes ar) None"
    by (simp add: dead_chain_def head_chain_def)
  ultimately obtain m' head' where
    loop: "sweep_blocks_loop bases secret mode None sweep_result_default ar =
       Some (count_results cs (length ?D) (live_count ar mode (swept_cells ar bases)), head',
             (flip_headers mode bases ar)\<lparr>ar_bytes := m'\<rparr>)"
    and ch: "dead_chain secret cs lim (ar_bytes ar) 0 ?D m' head'"
    using sweep_blocks_loop_inv [OF sw, of lim secret "ar_bytes ar" "[]" None mode sweep_result_default]
    by (auto simp: add_results_def sweep_result_default_def count_results_def)
  let ?ar = "(flip_headers mode bases ar)\<lparr>ar_bytes := m'\<rparr>"
  let ?fl = "install_head head' secret (of_nat (length ?D * cs)) ?ar fl"
  have h0: "head' \<noteq> Some 0"
  proof
    assume "head' = Some 0"
    with ch have "dead_chain secret cs lim (ar_bytes ar) 0 ?D m' (Some 0)" by simp
    from head_in_dead [OF this] show False using sweepable_cells(2) [OF sw, of 0] by simp
  qed
  have repr: "fl_repr m' ?fl ?D"
    by (rule install_head_repr [OF ch [folded assms(2)] _ h0]) (simp add: assms)
  have frame: "\<forall>x. (\<forall>c\<in>set ?D. \<not> (c + 8 \<le> x \<and> x < c + 16)) \<longrightarrow> m' x = ar_bytes ar x"
    using ch by (simp add: dead_chain_def)
  have "sweep_blocks bases secret mode ar fl =
      Some (count_results cs (length ?D) (live_count ar mode (swept_cells ar bases)), ?ar, ?fl)"
    unfolding sweep_blocks_def loop by (simp add: count_results_def)
  moreover have "fl_cell_size ?fl = fl_cell_size fl"
    by (simp add: install_head_def fl_initialize_def fl_clear_def fl_advance_def split: option.split prod.split)
  ultimately show ?thesis
    using that [of ?ar ?fl] repr frame by simp
qed


definition demo_block :: arena where
  "demo_block =
     \<lparr>ar_bytes = (\<lambda>_. 0),
      ar_header = (\<lambda>_. \<lparr>bh_marks = (replicate MARK_WORDS 0)[0 := 2 ^ 24], bh_newly_allocated = replicate MARK_WORDS 0,
                        bh_atoms_per_cell = 500, bh_start_atom = 24\<rparr>)\<rparr>"

lemma demo_sweepable: "sweepable demo_block 8000 49152 [32768, 16384]"
  by (simp add: sweepable_def block_ok_def block_atoms_per_cell_def block_start_atom_def demo_block_def
      block_consts)


section \<open>Links across far blocks\<close>

lemma far_link_decode:
  "free_cell_decode (set_next low (low + 2 ^ 32) len secret m) low secret = (0, len)"
proof -
  have "as_i32 (int (low + 2 ^ 32) - int low) = 0" by (simp add: as_i32_def)
  then show ?thesis by (simp add: set_next_def decode_written in_i32_def)
qed

text \<open>
  C35: The distance of a link is cut to 32 bits.  When two blocks of a directory lie \<open>2 ^ 32\<close> bytes
  apart, a cell whose next free cell is the one at the same place of the other block is linked to
  itself: a list at that cell hands it out again and again, for any number of requests.
\<close>

theorem far_link_hands_out_same_cell:
  assumes "even low" and "low < 2 ^ 64" and "fl_next_interval fl = low"
    and "fl_interval_end fl \<le> fl_interval_start fl"
  shows "drain fl_allocate n (set_next low (low + 2 ^ 32) (fl_cell_size fl) (fl_secret fl) m) fl =
           replicate n (Some low)"
proof -
  define m' where "m' = set_next low (low + 2 ^ 32) (fl_cell_size fl) (fl_secret fl) m"
  have link: "free_cell_decode m' low (fl_secret fl) = (0, fl_cell_size fl)"
    unfolding m'_def by (rule far_link_decode)
  have step: "fl_allocate m' g = (Some low, g\<lparr>fl_interval_start := low + unat (fl_cell_size fl),
      fl_interval_end := low + unat (fl_cell_size fl)\<rparr>)"
    if "fl_next_interval g = low" "fl_interval_end g \<le> fl_interval_start g" "fl_secret g = fl_secret fl"
      "fl_cell_size g = fl_cell_size fl" for g
    using that assms(1,2)
    by (simp add: fl_allocate_def Let_def is_sentinel_def fl_advance_def free_cell_advance_def link
        wrapping_add_signed_def)
  have "drain fl_allocate n m' g = replicate n (Some low)"
    if "fl_next_interval g = low" "fl_interval_end g \<le> fl_interval_start g" "fl_secret g = fl_secret fl"
      "fl_cell_size g = fl_cell_size fl" for g
    using that by (induction n arbitrary: g) (simp_all add: step)
  then show ?thesis using assms(3,4) unfolding m'_def by blast
qed

theorem far_link_hands_out_same_cell_witness:
  "drain fl_allocate 3 (set_next 33152 (33152 + 2 ^ 32) 128 7 (\<lambda>_. 0))
     ((fl_new 128)\<lparr>fl_next_interval := 33152, fl_secret := 7\<rparr>) = replicate 3 (Some 33152)"
  using far_link_hands_out_same_cell [of 33152 "(fl_new 128)\<lparr>fl_next_interval := 33152, fl_secret := 7\<rparr>" 3 "\<lambda>_. 0"]
  by (simp add: fl_new_def)

end
