(* ===== verification/Block_Directory.thy ===== *)
theory Block_Directory
  imports Sweep
begin

text \<open>
  The directory of the blocks of one size class (\<open>src/src/gc/heap/block_directory.rs\<close>): it takes
  pages from the operating system, hands out cells through the free list, sweeps all its blocks
  after marking and returns the pages of empty blocks.

  The operating system is a parameter.  \<open>os_page\<close> is the address that \<open>alloc_zeroed\<close> returns if an
  operation asks for a page, 0 when there is none; \<open>recommit\<close> and \<open>decommit\<close> are the effects of
  \<open>madvise\<close> on memory, about which only \<open>page_local\<close> is assumed.  A failed assertion, a division by
  zero and an index out of range are \<open>None\<close>.
\<close>

section \<open>The model\<close>

definition FREELIST_SECRET :: u64 where
  "FREELIST_SECRET = 0x9E3779B97F4A7C15"

definition start_atom_for :: "nat \<Rightarrow> nat" where
  "start_atom_for atoms_per_cell =
     (let number_of_payload_atoms = END_ATOM - FIRST_PAYLOAD_ATOM;
          number_of_unallocatable_atoms = number_of_payload_atoms mod atoms_per_cell
      in FIRST_PAYLOAD_ATOM + number_of_unallocatable_atoms)"

text \<open>
  The page pointers, kept by the code for their provenance, are the block bases over again and are
  kept as a list of addresses.
\<close>

record block_directory =
  bd_cell_size_atoms :: nat
  bd_cell_size :: nat
  bd_pages :: "nat list"
  bd_block_base_addr :: "nat list"
  bd_decommitted :: "bool list"
  bd_reactivated_block_count :: nat
  bd_free_list :: free_list

definition bd_new :: "nat \<Rightarrow> block_directory" where
  "bd_new cell_size_atoms =
     (let cell_size = cell_size_atoms * ATOM_SIZE
      in \<lparr>bd_cell_size_atoms = cell_size_atoms, bd_cell_size = cell_size, bd_pages = [],
          bd_block_base_addr = [], bd_decommitted = [], bd_reactivated_block_count = 0,
          bd_free_list = fl_new (of_nat cell_size)\<rparr>)"

definition zero_header :: block_header where
  "zero_header = \<lparr>bh_marks = replicate MARK_WORDS 0, bh_newly_allocated = replicate MARK_WORDS 0,
                  bh_atoms_per_cell = 0, bh_start_atom = 0\<rparr>"

definition alloc_zeroed_page :: "nat \<Rightarrow> arena \<Rightarrow> arena" where
  "alloc_zeroed_page p ar =
     ar\<lparr>ar_bytes := (\<lambda>x. if p \<le> x \<and> x < p + BLOCK_SIZE then 0 else ar_bytes ar x),
        ar_header := (ar_header ar)(p := zero_header)\<rparr>"

definition write_geometry :: "nat \<Rightarrow> nat \<Rightarrow> nat \<Rightarrow> arena \<Rightarrow> arena" where
  "write_geometry base cell_size_atoms start_atom =
     update_header base (\<lambda>h. h\<lparr>bh_atoms_per_cell := of_nat cell_size_atoms,
                               bh_start_atom := of_nat start_atom\<rparr>)"

definition add_block ::
  "nat \<Rightarrow> arena \<Rightarrow> block_directory \<Rightarrow> (nat \<times> arena \<times> block_directory) option" where
  "add_block os_page ar d =
     (if os_page = 0 \<or> bd_cell_size_atoms d = 0 then None
      else
        let start_atom = start_atom_for (bd_cell_size_atoms d);
            ar1 = write_geometry os_page (bd_cell_size_atoms d) start_atom (alloc_zeroed_page os_page ar);
            base_addr = os_page;
            payload_begin = base_addr + start_atom * ATOM_SIZE;
            payload_end = base_addr + END_ATOM * ATOM_SIZE;
            (m, fl) = initialize_empty_block payload_begin payload_end FREELIST_SECRET (ar_bytes ar1)
                        (bd_free_list d)
        in Some (base_addr, ar1\<lparr>ar_bytes := m\<rparr>,
                 d\<lparr>bd_pages := bd_pages d @ [os_page],
                   bd_block_base_addr := bd_block_base_addr d @ [base_addr],
                   bd_decommitted := bd_decommitted d @ [False],
                   bd_free_list := fl\<rparr>))"

definition reactivate_block ::
  "(nat \<Rightarrow> arena \<Rightarrow> arena) \<Rightarrow> nat \<Rightarrow> arena \<Rightarrow> block_directory
     \<Rightarrow> (nat \<times> arena \<times> block_directory) option" where
  "reactivate_block recommit idx ar d =
     (if length (bd_block_base_addr d) \<le> idx \<or> length (bd_decommitted d) \<le> idx \<or>
         bd_cell_size_atoms d = 0 then None
      else
        let base = bd_block_base_addr d ! idx;
            start_atom = start_atom_for (bd_cell_size_atoms d);
            ar1 = clear_newly_allocated_block base
                    (clear_marks_block base
                      (write_geometry base (bd_cell_size_atoms d) start_atom (recommit base ar)));
            payload_begin = base + start_atom * ATOM_SIZE;
            payload_end = base + END_ATOM * ATOM_SIZE;
            (m, fl) = initialize_empty_block payload_begin payload_end FREELIST_SECRET (ar_bytes ar1)
                        (bd_free_list d)
        in Some (base, ar1\<lparr>ar_bytes := m\<rparr>,
                 d\<lparr>bd_free_list := fl,
                   bd_decommitted := (bd_decommitted d)[idx := False],
                   bd_reactivated_block_count := bd_reactivated_block_count d + 1\<rparr>))"

fun position_from :: "('a \<Rightarrow> bool) \<Rightarrow> nat \<Rightarrow> 'a list \<Rightarrow> nat option" where
  "position_from p i [] = None"
| "position_from p i (x # xs) = (if p x then Some i else position_from p (i + 1) xs)"

definition acquire_block ::
  "(nat \<Rightarrow> arena \<Rightarrow> arena) \<Rightarrow> nat \<Rightarrow> arena \<Rightarrow> block_directory
     \<Rightarrow> (nat \<times> arena \<times> block_directory) option" where
  "acquire_block recommit os_page ar d =
     (case position_from (\<lambda>x. x) 0 (bd_decommitted d) of
        Some idx \<Rightarrow> reactivate_block recommit idx ar d
      | None \<Rightarrow> add_block os_page ar d)"

text \<open>
  Both allocations take an address from the free list, from a fresh block when the list is
  exhausted, write the cell and set its bit in the record of new allocations.
\<close>

definition take_cell ::
  "(nat \<Rightarrow> arena \<Rightarrow> arena) \<Rightarrow> nat \<Rightarrow> arena \<Rightarrow> block_directory
     \<Rightarrow> (nat \<times> nat option \<times> arena \<times> block_directory) option" where
  "take_cell recommit os_page ar d =
     (case fl_allocate (ar_bytes ar) (bd_free_list d) of
        (Some addr, fl) \<Rightarrow> Some (addr, None, ar, d\<lparr>bd_free_list := fl\<rparr>)
      | (None, fl) \<Rightarrow>
          do {
            (base, ar1, d1) \<leftarrow> acquire_block recommit os_page ar (d\<lparr>bd_free_list := fl\<rparr>);
            (case fl_allocate (ar_bytes ar1) (bd_free_list d1) of
               (Some addr, fl1) \<Rightarrow> Some (addr, Some base, ar1, d1\<lparr>bd_free_list := fl1\<rparr>)
             | (None, _) \<Rightarrow> None)
          })"

definition write_bytes :: "nat \<Rightarrow> u8 list \<Rightarrow> arena \<Rightarrow> arena" where
  "write_bytes a bs ar =
     ar\<lparr>ar_bytes := (\<lambda>x. if a \<le> x \<and> x < a + length bs then bs ! (x - a) else ar_bytes ar x)\<rparr>"

text \<open>The 80 bytes of a \<open>Cell\<close>: the header, two fields and the padding.\<close>

definition cell_new :: "u8 \<Rightarrow> u64 \<Rightarrow> u8 list" where
  "cell_new js_type payload =
     [0, 0, 0, 0, 0, js_type, 0, 1] @ map (le_byte payload) [0..<8] @ replicate 64 0"

definition bd_allocate ::
  "(nat \<Rightarrow> arena \<Rightarrow> arena) \<Rightarrow> nat \<Rightarrow> u8 list \<Rightarrow> arena \<Rightarrow> block_directory
     \<Rightarrow> (nat \<times> nat option \<times> arena \<times> block_directory) option" where
  "bd_allocate recommit os_page init ar d = do {
     (cell_addr, new_base, ar1, d1) \<leftarrow> take_cell recommit os_page ar d;
     Some (cell_addr, new_base, set_newly_allocated cell_addr (write_bytes cell_addr init ar1), d1)
   }"

definition bd_allocate_blob ::
  "(nat \<Rightarrow> arena \<Rightarrow> arena) \<Rightarrow> nat \<Rightarrow> u8 list \<Rightarrow> arena \<Rightarrow> block_directory
     \<Rightarrow> (nat \<times> nat option \<times> arena \<times> block_directory) option" where
  "bd_allocate_blob recommit os_page src ar d = do {
     (cell_addr, new_base, ar1, d1) \<leftarrow> take_cell recommit os_page ar d;
     Some (cell_addr, new_base, set_newly_allocated cell_addr (write_bytes cell_addr src ar1), d1)
   }"

fun classify_blocks ::
  "(nat \<times> bool) list \<Rightarrow> sweep_result \<Rightarrow> nat list \<Rightarrow> arena \<Rightarrow> (sweep_result \<times> nat list \<times> arena) option"
where
  "classify_blocks [] tot to_thread ar = Some (tot, to_thread, ar)"
| "classify_blocks ((base, decommitted) # rest) tot to_thread ar =
     (if decommitted then classify_blocks rest tot to_thread ar
      else if block_has_no_marks ar base then
        let atoms_per_cell = block_atoms_per_cell ar base;
            start_atom = block_start_atom ar base;
            cell_count = (END_ATOM - start_atom) div atoms_per_cell
        in if atoms_per_cell = 0 then None
           else classify_blocks rest
                  (tot\<lparr>sr_freed_cells := sr_freed_cells tot + cell_count,
                       sr_freed_bytes := sr_freed_bytes tot + of_nat (cell_count * atoms_per_cell * ATOM_SIZE)\<rparr>)
                  to_thread (clear_newly_allocated_block base ar)
      else classify_blocks rest tot (to_thread @ [base]) ar)"

definition sweep_all_blocks ::
  "arena \<Rightarrow> block_directory \<Rightarrow> (sweep_result \<times> arena \<times> block_directory) option" where
  "sweep_all_blocks ar d = do {
     (tot, to_thread, ar1) \<leftarrow>
       classify_blocks (zip (bd_block_base_addr d) (bd_decommitted d)) sweep_result_default [] ar;
     (threaded, ar2, fl) \<leftarrow>
       sweep_blocks (rev (sort to_thread)) FREELIST_SECRET DoesNotHave ar1 (bd_free_list d);
     Some (add_results tot threaded, ar2, d\<lparr>bd_free_list := fl\<rparr>)
   }"

fun shrink_loop ::
  "(nat \<Rightarrow> arena \<Rightarrow> arena) \<Rightarrow> (nat \<times> bool) list \<Rightarrow> arena \<Rightarrow> bool list \<times> nat list \<times> arena" where
  "shrink_loop decommit [] ar = ([], [], ar)"
| "shrink_loop decommit ((base, decommitted) # rest) ar =
     (if decommitted then
        let (ds, newly, ar1) = shrink_loop decommit rest ar in (True # ds, newly, ar1)
      else if block_has_no_marks ar base then
        let (ds, newly, ar1) = shrink_loop decommit rest (decommit base ar)
        in (True # ds, base # newly, ar1)
      else
        let (ds, newly, ar1) = shrink_loop decommit rest ar in (False # ds, newly, ar1))"

definition bd_shrink ::
  "(nat \<Rightarrow> arena \<Rightarrow> arena) \<Rightarrow> arena \<Rightarrow> block_directory \<Rightarrow> nat list \<times> arena \<times> block_directory" where
  "bd_shrink decommit ar d =
     (let (ds, newly_decommitted, ar1) =
            shrink_loop decommit (zip (bd_block_base_addr d) (bd_decommitted d)) ar
      in (newly_decommitted, ar1, d\<lparr>bd_decommitted := ds\<rparr>))"

definition committed_block_bytes :: "block_directory \<Rightarrow> nat" where
  "committed_block_bytes d = length (filter (\<lambda>x. \<not> x) (bd_decommitted d)) * BLOCK_SIZE"

section \<open>The geometry of a block\<close>

lemma start_atom_for_tiles_aux:
  assumes "0 < a" and "a \<le> END_ATOM - FIRST_PAYLOAD_ATOM"
  shows "FIRST_PAYLOAD_ATOM \<le> start_atom_for a \<and> start_atom_for a < END_ATOM \<and>
         a dvd END_ATOM - start_atom_for a \<and>
         (END_ATOM - start_atom_for a) div a = (END_ATOM - FIRST_PAYLOAD_ATOM) div a \<and>
         start_atom_for a + (END_ATOM - FIRST_PAYLOAD_ATOM) div a * a = END_ATOM"
proof -
  define n where "n = END_ATOM - FIRST_PAYLOAD_ATOM"
  have n: "n div a * a + n mod a = n" by simp
  have e: "END_ATOM - start_atom_for a = n div a * a"
  proof -
    have "END_ATOM - start_atom_for a = n - n mod a"
      by (simp add: start_atom_for_def Let_def n_def block_consts)
    then show ?thesis by (simp add: minus_mod_eq_div_mult)
  qed
  have "0 < n div a" using assms by (simp add: n_def div_greater_zero_iff)
  then have "0 < n div a * a" using assms(1) by simp
  then have "start_atom_for a < END_ATOM" using e by linarith
  then show ?thesis using e assms(1) by (simp add: n_def [symmetric]) (simp add: start_atom_for_def)
qed

lemma empty_block_repr:
  assumes "initialize_empty_block p q secret m fl = (m', fl')" and "q = p + n * cs" and "0 < n"
    and "unat (fl_cell_size fl) = cs" and "16 \<le> cs" and "n * cs < 2 ^ 32" and "0 < p" and "even p" and "p < 2 ^ 63"
  shows "fl_repr m' fl' (interval_cells cs p n)" and "fl_cell_size fl' = fl_cell_size fl"
    and "\<And>x. x < p \<or> q \<le> x \<Longrightarrow> m' x = m x"
proof -
  have len: "unat (of_nat (n * cs) :: u32) = n * cs"
    using assms(6) by (simp add: unat_of_nat take_bit_eq_mod del: of_nat_mult)
  have m': "m' = make_last p (of_nat (n * cs)) secret m"
    and fl': "fl' = fl_initialize m' p secret (of_nat (n * cs)) fl"
    using assms(1,2) by (auto simp: initialize_empty_block_def Let_def simp del: of_nat_mult)
  have dec: "free_cell_decode m' p secret = (1, of_nat (n * cs))"
    unfolding m' make_last_def by (rule decode_written) (simp add: in_i32_def)
  have nxt: "wrapping_add_signed p 1 = p + 1"
    using assms(9) by (simp add: wrapping_add_signed_def nat_add_distrib)
  have fl: "fl' = fl\<lparr>fl_interval_start := p, fl_interval_end := p + n * cs, fl_next_interval := p + 1,
      fl_secret := secret, fl_original_size := of_nat (n * cs)\<rparr>"
    unfolding fl' using assms(7) dec nxt len
    by (simp add: fl_initialize_def fl_advance_def free_cell_advance_def del: of_nat_mult)
  show "fl_repr m' fl' (interval_cells cs p n)"
    using assms(4,5,8) by (auto simp: fl fl_repr_def Let_def intro!: exI [of _ n] exI [of _ "[]"])
  show "fl_cell_size fl' = fl_cell_size fl" by (simp add: fl)
  have "1 * 16 \<le> n * cs" using assms(3,5) by (intro mult_le_mono) simp_all
  then show "m' x = m x" if "x < p \<or> q \<le> x" for x
    using that assms(2) by (auto simp: m' make_last_def write_scrambled_other)
qed

section \<open>The invariant of a directory\<close>

fun committed_of :: "(nat \<times> bool) list \<Rightarrow> nat list" where
  "committed_of [] = []"
| "committed_of ((base, decommitted) # rest) =
     (if decommitted then committed_of rest else base # committed_of rest)"

definition committed :: "block_directory \<Rightarrow> nat list" where
  "committed d = committed_of (zip (bd_block_base_addr d) (bd_decommitted d))"

lemma committed_of_filter: "committed_of bds = map fst (filter (\<lambda>(b, dec). \<not> dec) bds)"
  by (induction bds rule: committed_of.induct) simp_all

definition block_fits :: "arena \<Rightarrow> nat \<Rightarrow> nat \<Rightarrow> bool" where
  "block_fits ar atoms b \<longleftrightarrow>
     block_ok ar b \<and> block_atoms_per_cell ar b = atoms \<and> block_start_atom ar b = start_atom_for atoms"

definition page_ok :: "nat \<Rightarrow> bool" where
  "page_ok b \<longleftrightarrow> BLOCK_SIZE dvd b \<and> 0 < b \<and> b + BLOCK_SIZE \<le> 2 ^ 63"

definition dir_ok :: "arena \<Rightarrow> block_directory \<Rightarrow> bool" where
  "dir_ok ar d \<longleftrightarrow>
     0 < bd_cell_size_atoms d \<and> bd_cell_size_atoms d \<le> END_ATOM - FIRST_PAYLOAD_ATOM \<and>
     bd_cell_size d = bd_cell_size_atoms d * ATOM_SIZE \<and>
     unat (fl_cell_size (bd_free_list d)) = bd_cell_size d \<and>
     length (bd_decommitted d) = length (bd_block_base_addr d) \<and>
     bd_pages d = bd_block_base_addr d \<and> distinct (bd_block_base_addr d) \<and>
     list_all page_ok (bd_block_base_addr d) \<and>
     list_all (block_fits ar (bd_cell_size_atoms d)) (committed d)"

definition in_use :: "arena \<Rightarrow> nat \<Rightarrow> bool" where
  "in_use ar c \<longleftrightarrow> is_newly_allocated ar c \<or> is_marked ar c"

text \<open>\<open>cells\<close> are the free cells in the order in which they will be handed out.\<close>

definition dir_inv :: "arena \<Rightarrow> block_directory \<Rightarrow> nat list \<Rightarrow> bool" where
  "dir_inv ar d cells \<longleftrightarrow>
     dir_ok ar d \<and> fl_repr (ar_bytes ar) (bd_free_list d) cells \<and> distinct cells \<and>
     (\<forall>c\<in>set cells. block_for c \<in> set (committed d) \<and> c \<in> set (block_cells ar (block_for c)) \<and> \<not> in_use ar c)"

definition page_local :: "(nat \<Rightarrow> arena \<Rightarrow> arena) \<Rightarrow> bool" where
  "page_local f \<longleftrightarrow>
     (\<forall>p ar. (\<forall>x. x < p \<or> p + BLOCK_SIZE \<le> x \<longrightarrow> ar_bytes (f p ar) x = ar_bytes ar x) \<and>
             (\<forall>b. b \<noteq> p \<longrightarrow> ar_header (f p ar) b = ar_header ar b))"

lemma set_committed:
  assumes "length (bd_decommitted d) = length (bd_block_base_addr d)"
  shows "set (committed d) = {bd_block_base_addr d ! i |i. i < length (bd_block_base_addr d) \<and> \<not> bd_decommitted d ! i}"
  using assms by (force simp: committed_def committed_of_filter set_zip)

lemma committed_subset: "set (committed d) \<subseteq> set (bd_block_base_addr d)"
  by (auto simp: committed_def committed_of_filter dest: set_zip_leftD)

lemma block_cells_disjoint:
  assumes "block_ok ar b" and "c \<in> set (block_cells ar b)" and "c' \<in> set (block_cells ar b)" and "c \<noteq> c'"
  shows "c + block_atoms_per_cell ar b * ATOM_SIZE \<le> c' \<or> c' + block_atoms_per_cell ar b * ATOM_SIZE \<le> c"
proof -
  obtain j k where "c = cell_at ar b j" "c' = cell_at ar b k" using assms(2,3) by (auto simp: block_cells_def)
  with assms(1,4) cell_at_mono [of ar b j k] cell_at_mono [of ar b k j] show ?thesis
    by (cases j k rule: linorder_cases) auto
qed

lemma block_cells_bounds:
  assumes "block_ok ar b" and "c \<in> set (block_cells ar b)"
  shows "b < c" and "c + block_atoms_per_cell ar b * ATOM_SIZE \<le> b + BLOCK_SIZE" and "block_for c = b"
    and "is_atom_aligned c"
proof -
  obtain k where k: "k < block_cell_count ar b" "c = cell_at ar b k" using assms(2) by (auto simp: block_cells_def)
  have "(block_start_atom ar b + k * block_atoms_per_cell ar b + block_atoms_per_cell ar b) * ATOM_SIZE
      \<le> END_ATOM * ATOM_SIZE"
    using cell_at_bounds [OF assms(1) k(1)] by (intro mult_le_mono1)
  then show "c + block_atoms_per_cell ar b * ATOM_SIZE \<le> b + BLOCK_SIZE"
    using k(2) by (simp add: cell_at_def algebra_simps) (simp add: block_consts)
  show "b < c" using k(2) assms(1) by (simp add: cell_at_def block_ok_def block_consts)
  show "block_for c = b" using block_for_cell_at(1) [OF assms(1) k(1)] k(2) by simp
  have "16384 dvd b" using assms(1) by (simp add: block_ok_def BLOCK_SIZE_def)
  then have "b mod 16 = 0" by (auto elim!: dvdE)
  then show "is_atom_aligned c" using k(2) by (simp add: is_atom_aligned_def cell_at_def ATOM_SIZE_def) presburger
qed

section \<open>Acquiring a block\<close>

definition blank_header :: "nat \<Rightarrow> block_header" where
  "blank_header atoms =
     \<lparr>bh_marks = replicate MARK_WORDS 0, bh_newly_allocated = replicate MARK_WORDS 0,
      bh_atoms_per_cell = of_nat atoms, bh_start_atom = of_nat (start_atom_for atoms)\<rparr>"

lemma blank_block_fits:
  assumes "ar_header ar b = blank_header atoms" and "page_ok b"
    and "0 < atoms" and "atoms \<le> END_ATOM - FIRST_PAYLOAD_ATOM"
  shows "block_fits ar atoms b"
proof -
  note tiles = start_atom_for_tiles_aux [OF assms(3,4)]
  have "atoms < 2 ^ 16" and "start_atom_for atoms < 2 ^ 16"
    using assms(4) tiles by (simp_all add: block_consts)
  then have "unat (of_nat atoms :: u16) = atoms" "unat (of_nat (start_atom_for atoms) :: u16) = start_atom_for atoms"
    by (simp_all add: unat_of_nat take_bit_eq_mod)
  then have geo: "block_atoms_per_cell ar b = atoms" "block_start_atom ar b = start_atom_for atoms"
    by (simp_all add: block_atoms_per_cell_def block_start_atom_def assms(1) blank_header_def)
  then show ?thesis
    using assms tiles by (simp add: block_fits_def block_ok_def blank_header_def page_ok_def)
qed

lemma blank_not_in_use:
  assumes "ar_header ar (block_for c) = blank_header atoms" shows "\<not> in_use ar c"
  using atom_word_in_range [of c] assms
  by (simp add: in_use_def is_marked_def is_newly_allocated_def Let_def blank_header_def)

lemma blank_block_list:
  assumes hdr: "ar_header ar b = blank_header atoms" and page: "page_ok b"
    and atoms: "0 < atoms" "atoms \<le> END_ATOM - FIRST_PAYLOAD_ATOM"
    and cs: "unat (fl_cell_size fl) = atoms * ATOM_SIZE"
    and init: "initialize_empty_block (b + start_atom_for atoms * ATOM_SIZE) (b + END_ATOM * ATOM_SIZE) secret m fl
                 = (m', fl')"
  shows "fl_repr m' fl' (block_cells ar b)" and "fl_cell_size fl' = fl_cell_size fl"
    and "\<And>x. x < b \<or> b + BLOCK_SIZE \<le> x \<Longrightarrow> m' x = m x" and "block_cells ar b \<noteq> []"
proof -
  let ?p = "b + start_atom_for atoms * ATOM_SIZE" and ?n = "(END_ATOM - FIRST_PAYLOAD_ATOM) div atoms"
  note tiles = start_atom_for_tiles_aux [OF atoms]
  have fits: "block_fits ar atoms b" by (rule blank_block_fits [OF hdr page atoms])
  then have cells: "block_cells ar b = interval_cells (atoms * ATOM_SIZE) ?p ?n"
    using tiles by (simp add: block_cells_interval block_fits_def cell_at_def block_cell_count_def)
  have q: "b + END_ATOM * ATOM_SIZE = ?p + ?n * (atoms * ATOM_SIZE)"
    using tiles by (metis add.assoc add_mult_distrib mult.assoc)
  have "0 < ?n" using atoms by (simp add: div_greater_zero_iff)
  moreover have "16 \<le> atoms * ATOM_SIZE" using atoms(1) by (simp add: ATOM_SIZE_def)
  moreover have "?n * (atoms * ATOM_SIZE) < 2 ^ 32"
  proof -
    have "?n * atoms \<le> END_ATOM" using tiles by linarith
    then have "?n * atoms * ATOM_SIZE \<le> END_ATOM * ATOM_SIZE" by (rule mult_le_mono1)
    moreover have "END_ATOM * ATOM_SIZE < 2 ^ 32" by (simp add: block_consts)
    ultimately show ?thesis by (simp only: mult.assoc)
  qed
  moreover have "16384 dvd b" and "0 < b" and "b + BLOCK_SIZE \<le> 2 ^ 63"
    using page by (simp_all add: page_ok_def BLOCK_SIZE_def)
  moreover have "even ?p" using \<open>16384 dvd b\<close> by (auto simp: ATOM_SIZE_def elim!: dvdE)
  moreover have "?p < 2 ^ 63"
    using \<open>b + BLOCK_SIZE \<le> 2 ^ 63\<close> tiles by (simp add: block_consts)
  ultimately have *: "fl_repr m' fl' (interval_cells (atoms * ATOM_SIZE) ?p ?n)" "fl_cell_size fl' = fl_cell_size fl"
    "\<And>x. x < ?p \<or> b + END_ATOM * ATOM_SIZE \<le> x \<Longrightarrow> m' x = m x"
    using empty_block_repr [OF init q _ cs] by simp_all
  show "fl_repr m' fl' (block_cells ar b)" using * cells by simp
  show "fl_cell_size fl' = fl_cell_size fl" by (rule *)
  show "block_cells ar b \<noteq> []" using cells \<open>0 < ?n\<close> by simp
  have "b + END_ATOM * ATOM_SIZE = b + BLOCK_SIZE" by (simp add: block_consts)
  then show "m' x = m x" if "x < b \<or> b + BLOCK_SIZE \<le> x" for x using that * by fastforce
qed

text \<open>What acquiring a block gives: a block that was not in use, all of whose cells are free.\<close>

definition acquired :: "arena \<Rightarrow> block_directory \<Rightarrow> nat \<Rightarrow> arena \<Rightarrow> block_directory \<Rightarrow> bool" where
  "acquired ar d base ar1 d1 \<longleftrightarrow>
     base \<notin> set (committed d) \<and> set (committed d1) = insert base (set (committed d)) \<and>
     dir_inv ar1 d1 (block_cells ar1 base) \<and> block_cells ar1 base \<noteq> [] \<and>
     bd_cell_size d1 = bd_cell_size d \<and> bd_cell_size_atoms d1 = bd_cell_size_atoms d \<and>
     set (bd_block_base_addr d1) = insert base (set (bd_block_base_addr d)) \<and>
     (\<forall>b. b \<noteq> base \<longrightarrow> ar_header ar1 b = ar_header ar b) \<and>
     (\<forall>x. x < base \<or> base + BLOCK_SIZE \<le> x \<longrightarrow> ar_bytes ar1 x = ar_bytes ar x)"

lemma block_fits_header: "ar_header ar' b = ar_header ar b \<Longrightarrow> block_fits ar' atoms b = block_fits ar atoms b"
  by (simp add: block_fits_def block_ok_def block_atoms_per_cell_def block_start_atom_def)

lemma block_cells_header: "ar_header ar' b = ar_header ar b \<Longrightarrow> block_cells ar' b = block_cells ar b"
  by (rule block_cells_cong) (simp_all add: block_atoms_per_cell_def block_start_atom_def)

lemma distinct_block_cells: "block_ok ar b \<Longrightarrow> distinct (block_cells ar b)"
  by (auto simp: block_cells_def distinct_map inj_on_def dest: cell_at_inj)

lemma acquiredI:
  assumes ok: "dir_ok ar d" and page: "page_ok base" and new: "base \<notin> set (committed d)"
    and hdr: "ar_header ar1 base = blank_header (bd_cell_size_atoms d)"
    and init: "initialize_empty_block (base + start_atom_for (bd_cell_size_atoms d) * ATOM_SIZE)
        (base + END_ATOM * ATOM_SIZE) FREELIST_SECRET (ar_bytes ar1) (bd_free_list d) = (m, fl)"
    and hdrs: "\<And>b. b \<noteq> base \<Longrightarrow> ar_header ar1 b = ar_header ar b"
    and bytes: "\<And>x. x < base \<or> base + BLOCK_SIZE \<le> x \<Longrightarrow> ar_bytes ar1 x = ar_bytes ar x"
    and d1: "bd_cell_size_atoms d1 = bd_cell_size_atoms d" "bd_cell_size d1 = bd_cell_size d"
      "bd_free_list d1 = fl" "length (bd_decommitted d1) = length (bd_block_base_addr d1)"
      "bd_pages d1 = bd_block_base_addr d1" "distinct (bd_block_base_addr d1)"
      "list_all page_ok (bd_block_base_addr d1)"
      "set (committed d1) = insert base (set (committed d))"
      "set (bd_block_base_addr d1) = insert base (set (bd_block_base_addr d))"
  shows "acquired ar d base (ar1\<lparr>ar_bytes := m\<rparr>) d1"
proof -
  let ?a = "bd_cell_size_atoms d" and ?ar = "ar1\<lparr>ar_bytes := m\<rparr>"
  have atoms: "0 < ?a" "?a \<le> END_ATOM - FIRST_PAYLOAD_ATOM"
    and cs: "unat (fl_cell_size (bd_free_list d)) = ?a * ATOM_SIZE"
    using ok by (simp_all add: dir_ok_def)
  have hdr': "ar_header ?ar base = blank_header ?a" using hdr by simp
  note list = blank_block_list [OF hdr' page atoms cs init]
  have fits: "block_fits ?ar ?a base" by (rule blank_block_fits [OF hdr' page atoms])
  have "block_fits ?ar ?a b" if "b \<in> set (committed d1)" for b
  proof (cases "b = base")
    case False
    then have "block_fits ar ?a b" using that d1(8) ok by (simp add: dir_ok_def list_all_iff)
    moreover have "ar_header ?ar b = ar_header ar b" using hdrs False by simp
    ultimately show ?thesis using block_fits_header by blast
  qed (use fits in simp)
  then have "dir_ok ?ar d1"
    using ok d1 list(2) by (simp add: dir_ok_def list_all_iff)
  moreover have ok1: "block_ok ?ar base" using fits by (simp add: block_fits_def)
  moreover have "\<not> in_use ?ar c" if "c \<in> set (block_cells ?ar base)" for c
    using block_cells_bounds(3) [OF ok1 that] hdr' by (intro blank_not_in_use [of _ _ ?a]) simp
  ultimately have "dir_inv ?ar d1 (block_cells ?ar base)"
    using list(1) d1(3,8) distinct_block_cells [OF ok1] block_cells_bounds(3) [OF ok1]
    by (simp add: dir_inv_def)
  then show ?thesis
    using new d1 list(3,4) hdrs bytes by (simp add: acquired_def)
qed

definition fresh_page :: "nat \<Rightarrow> block_directory \<Rightarrow> bool" where
  "fresh_page p d \<longleftrightarrow> page_ok p \<and> p \<notin> set (bd_block_base_addr d)"

lemma add_block_acquires:
  assumes "dir_ok ar d" and "fresh_page p d"
  shows "\<exists>ar1 d1. add_block p ar d = Some (p, ar1, d1) \<and> acquired ar d p ar1 d1"
proof -
  let ?a = "bd_cell_size_atoms d"
  let ?ar = "write_geometry p ?a (start_atom_for ?a) (alloc_zeroed_page p ar)"
  obtain m fl where init: "initialize_empty_block (p + start_atom_for ?a * ATOM_SIZE) (p + END_ATOM * ATOM_SIZE)
      FREELIST_SECRET (ar_bytes ?ar) (bd_free_list d) = (m, fl)" by fastforce
  let ?d = "d\<lparr>bd_pages := bd_pages d @ [p], bd_block_base_addr := bd_block_base_addr d @ [p],
              bd_decommitted := bd_decommitted d @ [False], bd_free_list := fl\<rparr>"
  have "p \<noteq> 0" "?a \<noteq> 0" using assms by (auto simp: fresh_page_def page_ok_def dir_ok_def)
  then have add: "add_block p ar d = Some (p, ?ar\<lparr>ar_bytes := m\<rparr>, ?d)"
    using init by (simp add: add_block_def Let_def)
  have "p \<notin> set (committed d)" using assms(2) committed_subset by (auto simp: fresh_page_def)
  moreover have "committed ?d = committed d @ [p]"
    using assms(1) by (simp add: committed_def committed_of_filter dir_ok_def)
  ultimately have "acquired ar d p (?ar\<lparr>ar_bytes := m\<rparr>) ?d"
    using assms
    by (intro acquiredI [OF assms(1) _ _ _ init])
      (auto simp: fresh_page_def dir_ok_def write_geometry_def alloc_zeroed_page_def update_header_def
        zero_header_def blank_header_def)
  with add show ?thesis by blast
qed

lemma position_from_Some:
  "position_from p i xs = Some k \<Longrightarrow> i \<le> k \<and> k - i < length xs \<and> p (xs ! (k - i))"
proof (induction xs arbitrary: i)
  case (Cons x xs)
  show ?case
  proof (cases "p x")
    case False
    with Cons have "i + 1 \<le> k \<and> k - (i + 1) < length xs \<and> p (xs ! (k - (i + 1)))" by simp
    moreover from this have "i + 1 \<le> k" by blast
    then have "k - i = Suc (k - (i + 1))" by simp
    ultimately show ?thesis by simp
  qed (use Cons in auto)
qed simp

lemma reactivate_block_acquires:
  assumes "dir_ok ar d" and "page_local recommit" and idx: "idx < length (bd_decommitted d)" "bd_decommitted d ! idx"
  shows "\<exists>base ar1 d1. reactivate_block recommit idx ar d = Some (base, ar1, d1) \<and> acquired ar d base ar1 d1 \<and>
           base \<in> set (bd_block_base_addr d)"
proof -
  let ?a = "bd_cell_size_atoms d" and ?p = "bd_block_base_addr d ! idx"
  let ?ar = "clear_newly_allocated_block ?p (clear_marks_block ?p
               (write_geometry ?p ?a (start_atom_for ?a) (recommit ?p ar)))"
  have len: "length (bd_decommitted d) = length (bd_block_base_addr d)" and dist: "distinct (bd_block_base_addr d)"
    using assms(1) by (simp_all add: dir_ok_def)
  obtain m fl where init: "initialize_empty_block (?p + start_atom_for ?a * ATOM_SIZE) (?p + END_ATOM * ATOM_SIZE)
      FREELIST_SECRET (ar_bytes ?ar) (bd_free_list d) = (m, fl)" by fastforce
  let ?d = "d\<lparr>bd_free_list := fl, bd_decommitted := (bd_decommitted d)[idx := False],
              bd_reactivated_block_count := bd_reactivated_block_count d + 1\<rparr>"
  have react: "reactivate_block recommit idx ar d = Some (?p, ?ar\<lparr>ar_bytes := m\<rparr>, ?d)"
    using init idx len assms(1) by (simp add: reactivate_block_def Let_def dir_ok_def)
  have "?p \<notin> set (committed d)"
    using idx len dist by (auto simp: set_committed nth_eq_iff_index_eq)
  moreover have "set (committed ?d) = insert ?p (set (committed d))"
    using idx len by (auto simp: set_committed nth_list_update)
  moreover have "page_ok ?p" using assms(1) idx len by (simp add: dir_ok_def list_all_length)
  ultimately have "acquired ar d ?p (?ar\<lparr>ar_bytes := m\<rparr>) ?d"
    using assms(1,2) idx(1) len
    by (intro acquiredI [OF assms(1) _ _ _ init])
      (auto simp: dir_ok_def page_local_def write_geometry_def clear_marks_block_def
        clear_newly_allocated_block_def update_header_def blank_header_def)
  moreover have "?p \<in> set (bd_block_base_addr d)" using idx(1) len by simp
  ultimately show ?thesis using react by blast
qed

lemma acquire_block_acquires:
  assumes "dir_ok ar d" and "page_local recommit" and "fresh_page os_page d"
  shows "\<exists>base ar1 d1. acquire_block recommit os_page ar d = Some (base, ar1, d1) \<and> acquired ar d base ar1 d1 \<and>
           base \<in> insert os_page (set (bd_block_base_addr d))"
proof (cases "position_from (\<lambda>x. x) 0 (bd_decommitted d)")
  case None
  then show ?thesis using add_block_acquires [OF assms(1,3)] by (auto simp: acquire_block_def)
next
  case (Some idx)
  then have "idx < length (bd_decommitted d)" "bd_decommitted d ! idx" using position_from_Some [OF Some] by simp_all
  from reactivate_block_acquires [OF assms(1,2) this] show ?thesis using Some by (auto simp: acquire_block_def)
qed

section \<open>Allocation\<close>

lemma fl_allocate_cell_size: "fl_allocate m fl = (r, fl') \<Longrightarrow> fl_cell_size fl' = fl_cell_size fl"
  by (auto simp: fl_allocate_def Let_def fl_advance_def split: if_splits prod.splits)

lemma dir_inv_block:
  assumes "dir_ok ar d" and "b \<in> set (committed d)"
  shows "block_ok ar b" and "block_atoms_per_cell ar b * ATOM_SIZE = bd_cell_size d" and "page_ok b"
proof -
  show "block_ok ar b" "block_atoms_per_cell ar b * ATOM_SIZE = bd_cell_size d"
    using assms by (simp_all add: dir_ok_def list_all_iff block_fits_def)
  show "page_ok b" using assms committed_subset by (auto simp: dir_ok_def list_all_iff)
qed

lemma pages_apart:
  assumes "BLOCK_SIZE dvd a" and "BLOCK_SIZE dvd b" and "a \<noteq> b"
  shows "a + BLOCK_SIZE \<le> b \<or> b + BLOCK_SIZE \<le> a"
proof -
  obtain i j where ij: "a = BLOCK_SIZE * i" "b = BLOCK_SIZE * j" using assms(1,2) by (auto elim!: dvdE)
  have "i < j \<Longrightarrow> BLOCK_SIZE * Suc i \<le> BLOCK_SIZE * j" "j < i \<Longrightarrow> BLOCK_SIZE * Suc j \<le> BLOCK_SIZE * i"
    by (intro mult_le_mono; simp)+
  with ij assms(3) show ?thesis by (cases i j rule: linorder_cases) auto
qed

text \<open>Cells of committed blocks do not overlap.\<close>

lemma dir_cells_apart:
  assumes "dir_ok ar d" and "block_for c \<in> set (committed d)" and "c \<in> set (block_cells ar (block_for c))"
    and "block_for c' \<in> set (committed d)" and "c' \<in> set (block_cells ar (block_for c'))" and "c \<noteq> c'"
  shows "c + bd_cell_size d \<le> c' \<or> c' + bd_cell_size d \<le> c"
proof (cases "block_for c = block_for c'")
  case True
  then show ?thesis
    using block_cells_disjoint [OF dir_inv_block(1) [OF assms(1,2)] assms(3) _ assms(6)] assms(5)
      dir_inv_block(2) [OF assms(1,2)] by simp
next
  case False
  note b = dir_inv_block [OF assms(1,2)] and b' = dir_inv_block [OF assms(1,4)]
  have "block_for c + BLOCK_SIZE \<le> block_for c' \<or> block_for c' + BLOCK_SIZE \<le> block_for c"
    using pages_apart [of "block_for c" "block_for c'"] False b(3) b'(3) by (simp add: page_ok_def)
  then show ?thesis
    using block_cells_bounds(1,2) [OF b(1) assms(3)] block_cells_bounds(1,2) [OF b'(1) assms(5)] b(2) b'(2)
    by linarith
qed

definition same_blocks :: "arena \<Rightarrow> block_directory \<Rightarrow> arena \<Rightarrow> bool" where
  "same_blocks ar d ar' \<longleftrightarrow>
     (\<forall>b\<in>set (committed d). ar_header ar' b = ar_header ar b \<and>
        (\<forall>x. b \<le> x \<and> x < b + BLOCK_SIZE \<longrightarrow> ar_bytes ar' x = ar_bytes ar x))"

text \<open>Memory after some pages, at an allocation at most that of the new block, were written.\<close>

definition page_frame :: "nat set \<Rightarrow> arena \<Rightarrow> arena \<Rightarrow> bool" where
  "page_frame P ar ar' \<longleftrightarrow>
     (\<forall>b. b \<notin> P \<longrightarrow> ar_header ar' b = ar_header ar b) \<and>
     (\<forall>x. (\<forall>b\<in>P. x < b \<or> b + BLOCK_SIZE \<le> x) \<longrightarrow> ar_bytes ar' x = ar_bytes ar x)"

lemma page_frame_trans: "page_frame P ar ar1 \<Longrightarrow> page_frame Q ar1 ar2 \<Longrightarrow> page_frame (P \<union> Q) ar ar2"
  by (simp add: page_frame_def)

lemma page_frame_same_blocks:
  assumes "page_frame P ar ar'" and "dir_ok ar d" and "P \<inter> set (committed d) = {}" and "\<And>p. p \<in> P \<Longrightarrow> BLOCK_SIZE dvd p"
  shows "same_blocks ar d ar'"
  unfolding same_blocks_def
proof (intro ballI conjI allI impI)
  fix b assume b: "b \<in> set (committed d)"
  then have "b \<notin> P" using assms(3) by auto
  then show "ar_header ar' b = ar_header ar b" using assms(1) by (simp add: page_frame_def)
  have dvd: "BLOCK_SIZE dvd b" using dir_inv_block(3) [OF assms(2) b] by (simp add: page_ok_def)
  fix x assume x: "b \<le> x \<and> x < b + BLOCK_SIZE"
  have "x < p \<or> p + BLOCK_SIZE \<le> x" if "p \<in> P" for p
    using pages_apart [OF dvd assms(4) [OF that]] \<open>b \<notin> P\<close> that x by force
  then show "ar_bytes ar' x = ar_bytes ar x" using assms(1) by (simp add: page_frame_def)
qed

definition grown :: "nat option \<Rightarrow> nat \<Rightarrow> block_directory \<Rightarrow> block_directory \<Rightarrow> bool" where
  "grown nb os_page d d1 \<longleftrightarrow>
     set (committed d1) = set_option nb \<union> set (committed d) \<and> set_option nb \<inter> set (committed d) = {} \<and>
     set (bd_block_base_addr d1) = set_option nb \<union> set (bd_block_base_addr d) \<and>
     set_option nb \<subseteq> insert os_page (set (bd_block_base_addr d)) \<and>
     bd_cell_size_atoms d1 = bd_cell_size_atoms d"

lemma take_cell_spec:
  assumes inv: "dir_inv ar d cells" and "page_local recommit" and "fresh_page os_page d"
  shows "\<exists>addr nb ar1 d1 rest. take_cell recommit os_page ar d = Some (addr, nb, ar1, d1) \<and>
           dir_inv ar1 d1 rest \<and> addr \<notin> set rest \<and> block_for addr \<in> set (committed d1) \<and>
           addr \<in> set (block_cells ar1 (block_for addr)) \<and> \<not> in_use ar1 addr \<and>
           set (committed d) \<subseteq> set (committed d1) \<and> same_blocks ar d ar1 \<and>
           bd_cell_size d1 = bd_cell_size d \<and> (cells \<noteq> [] \<longrightarrow> cells = addr # rest \<and> nb = None) \<and>
           page_frame (set_option nb) ar ar1 \<and> grown nb os_page d d1 \<and>
           (\<forall>b\<in>set_option nb. \<forall>c\<in>set (block_cells ar1 b). \<not> in_use ar1 c)"
proof -
  have ready: "\<exists>fl' . fl_allocate (ar_bytes ar1) (bd_free_list d1) = (Some c, fl') \<and>
      dir_inv ar1 (d1\<lparr>bd_free_list := fl'\<rparr>) rest \<and> c \<notin> set rest \<and> block_for c \<in> set (committed d1) \<and>
      c \<in> set (block_cells ar1 (block_for c)) \<and> \<not> in_use ar1 c"
    if i: "dir_inv ar1 d1 (c # rest)" for ar1 d1 c rest
  proof -
    obtain fl' where fl': "fl_allocate (ar_bytes ar1) (bd_free_list d1) = (Some c, fl')"
      "fl_repr (ar_bytes ar1) fl' rest"
      using fl.alloc_cell i unfolding dir_inv_def by blast
    have "committed (d1\<lparr>bd_free_list := fl'\<rparr>) = committed d1" by (simp add: committed_def)
    then have "dir_inv ar1 (d1\<lparr>bd_free_list := fl'\<rparr>) rest"
      using i fl' fl_allocate_cell_size [OF fl'(1)] by (simp add: dir_inv_def dir_ok_def)
    then show ?thesis using fl' i by (simp add: dir_inv_def)
  qed
  show ?thesis
  proof (cases cells)
    case (Cons c rest)
    with ready [of ar d c rest] inv obtain fl' where
      "fl_allocate (ar_bytes ar) (bd_free_list d) = (Some c, fl')" "dir_inv ar (d\<lparr>bd_free_list := fl'\<rparr>) rest"
      "c \<notin> set rest" "block_for c \<in> set (committed d)" "c \<in> set (block_cells ar (block_for c))" "\<not> in_use ar c"
      by auto
    then show ?thesis
      using Cons by (intro exI [of _ c] exI [of _ None] exI [of _ ar] exI [of _ "d\<lparr>bd_free_list := fl'\<rparr>"] exI [of _ rest])
        (simp add: take_cell_def same_blocks_def committed_def page_frame_def grown_def)
  next
    case Nil
    have e: "fl_allocate (ar_bytes ar) (bd_free_list d) = (None, bd_free_list d)"
      using inv Nil fl.alloc_empty by (simp add: dir_inv_def)
    have ok: "dir_ok ar d" using inv by (simp add: dir_inv_def)
    obtain base ar1 d1 where acq: "acquire_block recommit os_page ar d = Some (base, ar1, d1)"
      and a: "acquired ar d base ar1 d1" and os: "base \<in> insert os_page (set (bd_block_base_addr d))"
      using acquire_block_acquires [OF ok assms(2,3)] by blast
    obtain c rest where cells: "block_cells ar1 base = c # rest"
      using a by (cases "block_cells ar1 base") (auto simp: acquired_def)
    obtain fl' where r: "fl_allocate (ar_bytes ar1) (bd_free_list d1) = (Some c, fl')"
      "dir_inv ar1 (d1\<lparr>bd_free_list := fl'\<rparr>) rest" "c \<notin> set rest" "block_for c \<in> set (committed d1)"
      "c \<in> set (block_cells ar1 (block_for c))" "\<not> in_use ar1 c"
      using ready [of ar1 d1 c rest] a cells by (auto simp: acquired_def)
    have base: "BLOCK_SIZE dvd base"
    proof -
      have "base \<in> set (committed d1)" "dir_ok ar1 d1" using a by (simp_all add: acquired_def dir_inv_def)
      from dir_inv_block(3) [OF this(2,1)] show ?thesis by (simp add: page_ok_def)
    qed
    have frame: "page_frame {base} ar ar1" using a by (simp add: acquired_def page_frame_def)
    then have "same_blocks ar d ar1"
      using base a by (intro page_frame_same_blocks [OF _ ok]) (auto simp: acquired_def)
    moreover have "take_cell recommit os_page ar d = Some (c, Some base, ar1, d1\<lparr>bd_free_list := fl'\<rparr>)"
      using e acq r(1) by (simp add: take_cell_def)
    moreover have "grown (Some base) os_page d (d1\<lparr>bd_free_list := fl'\<rparr>)"
      using a os by (simp add: acquired_def grown_def committed_def)
    moreover have "\<forall>c\<in>set (block_cells ar1 base). \<not> in_use ar1 c"
      using a by (simp add: acquired_def dir_inv_def)
    ultimately show ?thesis
      using r a Nil frame by (intro exI [of _ c] exI [of _ "Some base"] exI [of _ ar1] exI [of _ "d1\<lparr>bd_free_list := fl'\<rparr>"]
          exI [of _ rest]) (auto simp: acquired_def committed_def)
  qed
qed

lemma set_newly_allocated_in_use:
  assumes "block_ok ar (block_for a)" and "is_atom_aligned a" and "is_atom_aligned c"
  shows "in_use (set_newly_allocated a ar) c \<longleftrightarrow> a = c \<or> in_use ar c"
proof -
  let ?i = "candidate_atom_number (block_for a) a" and ?h = "ar_header ar (block_for a)"
  have len: "?i div 64 < length (bh_newly_allocated ?h)"
    using assms(1) atom_word_in_range [of a] by (simp add: block_ok_def)
  show ?thesis
  proof (cases "block_for c = block_for a")
    case True
    then have "candidate_atom_number (block_for a) a = candidate_atom_number (block_for c) c \<longleftrightarrow> a = c"
      using atom_number_inj [OF assms(2,3)] by auto
    with True show ?thesis
      by (auto simp: in_use_def set_newly_allocated_def is_newly_allocated_def is_marked_def Let_def
          update_header_def bitmap_get_set [OF len])
  next
    case False
    then show ?thesis
      by (auto simp: in_use_def set_newly_allocated_def is_newly_allocated_def is_marked_def Let_def
          update_header_def)
  qed
qed

lemma geometry_after_allocation [simp]:
  "block_fits (set_newly_allocated a ar) n b = block_fits ar n b"
  "block_cells (set_newly_allocated a ar) b = block_cells ar b"
  "block_ok (set_newly_allocated a ar) b = block_ok ar b"
  "block_fits (write_bytes a bs ar) n b = block_fits ar n b"
  "block_cells (write_bytes a bs ar) b = block_cells ar b"
  "block_ok (write_bytes a bs ar) b = block_ok ar b"
  "in_use (write_bytes a bs ar) c = in_use ar c"
  "ar_bytes (set_newly_allocated a ar) = ar_bytes ar"
  by (auto simp: block_fits_def block_ok_def block_atoms_per_cell_def block_start_atom_def set_newly_allocated_def
      update_header_def write_bytes_def Let_def bitmap_set_def in_use_def is_newly_allocated_def is_marked_def
      block_cells_def block_cell_count_def cell_at_def)

lemma is_live_cell_in_use:
  "block_ok ar (block_for c) \<Longrightarrow> is_atom_aligned c \<Longrightarrow>
     is_live_cell ar c \<longleftrightarrow> c \<in> set (block_cells ar (block_for c)) \<and> in_use ar c"
  using is_atom_iff by (simp add: is_live_cell_def in_use_def)

lemma store_cell_inv:
  assumes inv: "dir_inv ar d rest" and addr: "addr \<notin> set rest" "block_for addr \<in> set (committed d)"
      "addr \<in> set (block_cells ar (block_for addr))" and len: "length src \<le> bd_cell_size d"
  shows "dir_inv (set_newly_allocated addr (write_bytes addr src ar)) d rest"
proof -
  let ?ar = "set_newly_allocated addr (write_bytes addr src ar)"
  have ok: "dir_ok ar d" using inv by (simp add: dir_inv_def)
  note blk = dir_inv_block [OF ok]
  have rest: "block_for c \<in> set (committed d)" "c \<in> set (block_cells ar (block_for c))" "\<not> in_use ar c" "c \<noteq> addr"
    if "c \<in> set rest" for c using that inv addr(1) by (auto simp: dir_inv_def)
  have cs: "16 \<le> bd_cell_size d" using ok by (simp add: dir_ok_def ATOM_SIZE_def)
  have same: "ar_bytes ar x = ar_bytes ?ar x" if "c \<in> set rest" "c \<le> x" "x < c + 16" for c x
    using dir_cells_apart [OF ok addr(2,3) rest(1,2) [OF that(1)]] rest(4) [OF that(1)] that(2,3) len cs
    by (auto simp: write_bytes_def)
  have "fl_repr (ar_bytes ?ar) (bd_free_list d) rest"
    by (rule fl.repr_frame [OF _ same]) (use inv in \<open>auto simp: dir_inv_def\<close>)
  moreover have "\<not> in_use ?ar c" if "c \<in> set rest" for c
  proof -
    note r = rest [OF that]
    have "is_atom_aligned c" "is_atom_aligned addr"
      using block_cells_bounds(4) [OF blk(1) [OF r(1)] r(2)] block_cells_bounds(4) [OF blk(1) [OF addr(2)] addr(3)]
      by simp_all
    then show ?thesis using r(3,4) blk(1) [OF addr(2)] by (simp add: set_newly_allocated_in_use)
  qed
  ultimately show ?thesis using inv by (simp add: dir_inv_def dir_ok_def list_all_iff)
qed

text \<open>
  C22: Allocation in a directory always succeeds when a page is to be had.  It hands out the first
  cell of the free list, or the first cell of a fresh or recommitted block when the list is
  exhausted; the cell was not in use, becomes live and holds the bytes that were stored; every other
  cell of the directory keeps its liveness and its bytes; and the invariant is kept with the rest of
  the free cells.
\<close>

theorem allocate_hands_out_free_cell:
  assumes "dir_inv ar d cells" and "page_local recommit" and "fresh_page os_page d"
    and "length src \<le> bd_cell_size d"
  shows "\<exists>addr new_base ar' d' rest.
    bd_allocate_blob recommit os_page src ar d = Some (addr, new_base, ar', d') \<and>
    dir_inv ar' d' rest \<and> (cells \<noteq> [] \<longrightarrow> cells = addr # rest \<and> new_base = None) \<and>
    (block_for addr \<in> set (committed d) \<longrightarrow> \<not> in_use ar addr) \<and> is_live_cell ar' addr \<and>
    (\<forall>i < length src. ar_bytes ar' (addr + i) = src ! i) \<and>
    (\<forall>c. block_for c \<in> set (committed d) \<and> c \<in> set (block_cells ar (block_for c)) \<and> c \<noteq> addr \<longrightarrow>
       is_live_cell ar' c = is_live_cell ar c \<and>
       (\<forall>x. c \<le> x \<and> x < c + bd_cell_size d \<longrightarrow> ar_bytes ar' x = ar_bytes ar x))"
proof -
  obtain addr nb ar1 d1 rest where take: "take_cell recommit os_page ar d = Some (addr, nb, ar1, d1)"
    and inv: "dir_inv ar1 d1 rest" and new: "addr \<notin> set rest" "block_for addr \<in> set (committed d1)"
      "addr \<in> set (block_cells ar1 (block_for addr))" "\<not> in_use ar1 addr"
    and sub: "set (committed d) \<subseteq> set (committed d1)" and same: "same_blocks ar d ar1"
    and cs: "bd_cell_size d1 = bd_cell_size d" and hd: "cells \<noteq> [] \<longrightarrow> cells = addr # rest \<and> nb = None"
    using take_cell_spec [OF assms(1-3)] by blast
  let ?ar = "set_newly_allocated addr (write_bytes addr src ar1)"
  have ok: "dir_ok ar d" and ok1: "dir_ok ar1 d1" using assms(1) inv by (simp_all add: dir_inv_def)
  have b1: "block_ok ar1 (block_for addr)" by (rule dir_inv_block(1) [OF ok1 new(2)])
  have al: "is_atom_aligned addr" by (rule block_cells_bounds(4) [OF b1 new(3)])
  have "dir_inv ?ar d1 rest" using store_cell_inv [OF inv new(1-3)] assms(4) cs by simp
  moreover have "is_live_cell ?ar addr"
    using b1 al new(3) by (simp add: is_live_cell_in_use set_newly_allocated_in_use)
  moreover have "\<forall>i < length src. ar_bytes ?ar (addr + i) = src ! i" by (simp add: write_bytes_def)
  moreover have "\<not> in_use ar addr" if "block_for addr \<in> set (committed d)"
    using that new(4) same by (simp add: same_blocks_def in_use_def is_newly_allocated_def is_marked_def Let_def)
  moreover have "is_live_cell ?ar c = is_live_cell ar c \<and>
       (\<forall>x. c \<le> x \<and> x < c + bd_cell_size d \<longrightarrow> ar_bytes ?ar x = ar_bytes ar x)"
    if c: "block_for c \<in> set (committed d)" "c \<in> set (block_cells ar (block_for c))" "c \<noteq> addr" for c
  proof -
    note b = dir_inv_block [OF ok c(1)] and bd = block_cells_bounds [OF dir_inv_block(1) [OF ok c(1)] c(2)]
    have h: "ar_header ar1 (block_for c) = ar_header ar (block_for c)"
      "\<And>x. block_for c \<le> x \<Longrightarrow> x < block_for c + BLOCK_SIZE \<Longrightarrow> ar_bytes ar1 x = ar_bytes ar x"
      using same c(1) by (simp_all add: same_blocks_def)
    have c1: "block_for c \<in> set (committed d1)" "c \<in> set (block_cells ar1 (block_for c))"
      using c sub block_cells_header [OF h(1)] by auto
    have "in_use ar1 c = in_use ar c"
      using h(1) by (simp add: in_use_def is_newly_allocated_def is_marked_def Let_def)
    then have "is_live_cell ?ar c = is_live_cell ar c"
      using bd(4) b(1) dir_inv_block(1) [OF ok1 c1(1)] c c1 b1 al
      by (simp add: is_live_cell_in_use set_newly_allocated_in_use)
    moreover have "ar_bytes ?ar x = ar_bytes ar x" if "c \<le> x" "x < c + bd_cell_size d" for x
      using dir_cells_apart [OF ok1 new(2,3) c1] that c(3) assms(4) cs h(2) [of x] bd(1,2) b(2)
      by (auto simp: write_bytes_def)
    ultimately show ?thesis by blast
  qed
  moreover have "bd_allocate_blob recommit os_page src ar d = Some (addr, nb, ?ar, d1)"
    using take by (simp add: bd_allocate_blob_def)
  ultimately show ?thesis using hd by (intro exI conjI) (assumption | blast)+
qed

lemma new_directory_inv:
  assumes "0 < a" and "a \<le> END_ATOM - FIRST_PAYLOAD_ATOM" shows "dir_inv ar (bd_new a) []"
proof -
  have "a * ATOM_SIZE < 2 ^ 32" using assms(2) by (simp add: block_consts)
  then have "unat (of_nat (a * ATOM_SIZE) :: u32) = a * ATOM_SIZE"
    by (simp add: unat_of_nat take_bit_eq_mod del: of_nat_mult)
  moreover have "16 \<le> a * ATOM_SIZE" using assms(1) by (simp add: ATOM_SIZE_def)
  ultimately show ?thesis
    using assms by (auto simp: dir_inv_def dir_ok_def bd_new_def committed_def fl_repr_def fl_new_def SENTINEL_def
        Let_def simp del: of_nat_mult intro!: exI [of _ "[]"])
qed

theorem allocate_hands_out_free_cell_witness:
  "\<exists>addr new_base ar' d'. bd_allocate_blob (\<lambda>_ ar. ar) 16384 (cell_new 1 2) demo_block (bd_new 5) =
     Some (addr, new_base, ar', d') \<and> is_live_cell ar' addr"
  using allocate_hands_out_free_cell [OF new_directory_inv, of 5 "\<lambda>_ ar. ar" 16384 "cell_new 1 2" demo_block]
  by (force simp: page_local_def fresh_page_def page_ok_def bd_new_def block_consts cell_new_def)

section \<open>Sweeping a directory\<close>

lemma header_after_clears:
  "ar_header (fold clear_newly_allocated_block bs ar) b =
     (if b \<in> set bs then (ar_header ar b)\<lparr>bh_newly_allocated := replicate MARK_WORDS 0\<rparr> else ar_header ar b)"
  by (induction bs arbitrary: ar) (auto simp: clear_newly_allocated_block_def update_header_def)

lemma bytes_after_clears [simp]: "ar_bytes (fold clear_newly_allocated_block bs ar) = ar_bytes ar"
  by (induction bs arbitrary: ar) (auto simp: clear_newly_allocated_block_def update_header_def)

text \<open>Memory after the records of new allocations of some blocks are cleared, whatever the bytes.\<close>

definition cleared :: "nat set \<Rightarrow> arena \<Rightarrow> arena \<Rightarrow> bool" where
  "cleared B ar ar' \<longleftrightarrow>
     (\<forall>b. ar_header ar' b =
            (if b \<in> B then (ar_header ar b)\<lparr>bh_newly_allocated := replicate MARK_WORDS 0\<rparr> else ar_header ar b))"

lemma cleared_geometry:
  assumes "cleared B ar ar'"
  shows "block_cells ar' = block_cells ar" and "is_marked ar' c = is_marked ar c"
    and "block_has_no_marks ar' b = block_has_no_marks ar b" and "block_fits ar a b \<Longrightarrow> block_fits ar' a b"
    and "block_ok ar b \<Longrightarrow> block_ok ar' b" and "block_atoms_per_cell ar' b = block_atoms_per_cell ar b"
    and "block_start_atom ar' b = block_start_atom ar b"
proof -
  show geo: "block_atoms_per_cell ar' b = block_atoms_per_cell ar b" "block_start_atom ar' b = block_start_atom ar b"
    for b using assms by (simp_all add: cleared_def block_atoms_per_cell_def block_start_atom_def)
  show "block_cells ar' = block_cells ar" by (rule ext, rule block_cells_cong) (rule geo)+
  show "is_marked ar' c = is_marked ar c" using assms by (simp add: cleared_def is_marked_def Let_def)
  show "block_has_no_marks ar' b = block_has_no_marks ar b"
    using assms by (simp add: cleared_def block_has_no_marks_def)
  show ok: "block_ok ar b \<Longrightarrow> block_ok ar' b" for b
    using assms geo by (simp add: cleared_def block_ok_def)
  show "block_fits ar a b \<Longrightarrow> block_fits ar' a b" using ok geo by (simp add: block_fits_def)
qed

lemma cleared_not_new:
  "cleared B ar ar' \<Longrightarrow> block_for c \<in> B \<Longrightarrow> in_use ar' c \<longleftrightarrow> is_marked ar c"
  using atom_word_in_range [of c] cleared_geometry(2) [of B ar ar' c]
  by (simp add: in_use_def is_newly_allocated_def cleared_def Let_def)

lemma retained_is_marked: "sweep_retained ar DoesNotHave c = is_marked ar c"
  by (simp add: sweep_retained_def)

lemma no_marks_cell:
  assumes "block_ok ar b" and "c \<in> set (block_cells ar b)" and "block_has_no_marks ar b"
  shows "\<not> is_marked ar c"
proof -
  have "block_for c = b" by (rule block_cells_bounds(3) [OF assms(1,2)])
  moreover have "candidate_atom_number b c < ATOMS_PER_BLOCK"
    using atom_word_in_range [of c] \<open>block_for c = b\<close> by (simp add: block_consts)
  ultimately show ?thesis
    using assms(3) block_no_marks_bits by (simp add: is_marked_def Let_def)
qed

lemma classify_blocks_result:
  assumes "list_all (block_fits ar a) (committed_of bds)" and "0 < a" and "cs = a * ATOM_SIZE"
  shows "\<exists>ar'. classify_blocks bds tot acc ar =
      Some (add_results tot (count_results cs
              (length (concat (map (block_cells ar) (filter (block_has_no_marks ar) (committed_of bds))))) 0),
            acc @ filter (\<lambda>b. \<not> block_has_no_marks ar b) (committed_of bds), ar') \<and>
    cleared (set (filter (block_has_no_marks ar) (committed_of bds))) ar ar' \<and> ar_bytes ar' = ar_bytes ar"
  using assms(1)
proof (induction bds arbitrary: tot acc ar rule: committed_of.induct)
  case 1
  then show ?case by (simp add: add_results_def count_results_def cleared_def)
next
  case (2 b dec bds)
  note IH = "2.IH" and prems = "2.prems"
  consider "dec" | "\<not> dec" "block_has_no_marks ar b" | "\<not> dec" "\<not> block_has_no_marks ar b" by blast
  then show ?case
  proof cases
    case 1
    then show ?thesis using IH(1) prems by simp
  next
    case 2
    let ?ar = "clear_newly_allocated_block b ar" and ?k = "block_cell_count ar b"
    let ?tot = "tot\<lparr>sr_freed_cells := sr_freed_cells tot + ?k,
                    sr_freed_bytes := sr_freed_bytes tot + of_nat (?k * a * ATOM_SIZE)\<rparr>"
    have c1: "cleared {b} ar ?ar" by (simp add: cleared_def clear_newly_allocated_block_def update_header_def)
    have fits: "block_fits ar a b" using prems 2 by simp
    have geo: "block_atoms_per_cell ar b = a" using fits by (simp add: block_fits_def)
    have nm: "block_has_no_marks ?ar = block_has_no_marks ar" by (rule ext) (rule cleared_geometry(3) [OF c1])
    have "list_all (block_fits ?ar a) (committed_of bds)"
      using prems 2 cleared_geometry(4) [OF c1] by (simp add: list_all_iff)
    from IH(2) [OF 2(1) this, of ?tot acc, unfolded nm cleared_geometry(1) [OF c1]]
    obtain ar' where rec: "classify_blocks bds ?tot acc ?ar =
      Some (add_results ?tot (count_results cs
              (length (concat (map (block_cells ar) (filter (block_has_no_marks ar) (committed_of bds))))) 0),
            acc @ filter (\<lambda>b. \<not> block_has_no_marks ar b) (committed_of bds), ar')"
      and ar': "cleared (set (filter (block_has_no_marks ar) (committed_of bds))) ?ar ar'" "ar_bytes ar' = ar_bytes ?ar"
      by blast
    have "classify_blocks ((b, dec) # bds) tot acc ar = classify_blocks bds ?tot acc ?ar"
      using 2 geo assms(2) by (simp add: block_cell_count_def Let_def)
    moreover have "cleared (set (filter (block_has_no_marks ar) (committed_of ((b, dec) # bds)))) ar ar'"
      using ar'(1) c1 2 by (auto simp: cleared_def)
    moreover have "length (block_cells ar b) = ?k" by (simp add: block_cells_def)
    ultimately show ?thesis
      using rec ar'(2) 2 assms(3)
      by (intro exI [of _ ar']) (simp add: add_results_def count_results_def algebra_simps
          clear_newly_allocated_block_def update_header_def)
  next
    case 3
    have "list_all (block_fits ar a) (committed_of bds)" using prems 3 by simp
    from IH(2) [OF 3(1) this, of tot "acc @ [b]"] show ?thesis using 3 by simp
  qed
qed

lemma distinct_block_lists:
  assumes "distinct bs" and "\<And>b. b \<in> set bs \<Longrightarrow> block_ok ar b"
  shows "distinct (concat (map (block_cells ar) bs))"
  using assms
proof (induction bs)
  case (Cons b bs)
  have "set (block_cells ar b) \<inter> set (block_cells ar b') = {}" if "b' \<in> set bs" for b'
    using that Cons.prems block_cells_bounds(3) [of ar b] block_cells_bounds(3) [of ar b'] by fastforce
  with Cons show ?case by (auto simp: distinct_block_cells)
qed simp

lemma length_filter_concat: "length (filter P (concat xss)) = sum_list (map (\<lambda>xs. length (filter P xs)) xss)"
  by (induction xss) simp_all

lemma sum_list_split:
  "sum_list (map g xs) = sum_list (map g (filter P xs)) + sum_list (map g (filter (\<lambda>x. \<not> P x) xs))"
  for g :: "'a \<Rightarrow> nat"
  by (induction xs) simp_all

lemma sum_list_sort: "sum_list (map g (sort xs)) = sum_list (map g xs)" for g :: "'a::linorder \<Rightarrow> nat"
proof -
  have "sum_list (map g (insort x xs)) = g x + sum_list (map g xs)" for x xs
    by (induction xs) simp_all
  then show ?thesis by (induction xs) simp_all
qed

definition spread_ok :: "nat \<Rightarrow> block_directory \<Rightarrow> bool" where
  "spread_ok lim d \<longleftrightarrow>
     lim \<le> 2 ^ 63 \<and> list_all (\<lambda>b. b + BLOCK_SIZE \<le> lim \<and> lim \<le> b + 2 ^ 31) (committed d)"

definition kept_blocks :: "arena \<Rightarrow> block_directory \<Rightarrow> nat list" where
  "kept_blocks ar d = filter (\<lambda>b. \<not> block_has_no_marks ar b) (committed d)"

definition empty_blocks :: "arena \<Rightarrow> block_directory \<Rightarrow> nat list" where
  "empty_blocks ar d = filter (block_has_no_marks ar) (committed d)"

text \<open>The unmarked cells of the blocks that keep a marked cell, by address.\<close>

definition reclaimed_cells :: "arena \<Rightarrow> block_directory \<Rightarrow> nat list" where
  "reclaimed_cells ar d =
     filter (\<lambda>c. \<not> is_marked ar c) (concat (map (block_cells ar) (sort (kept_blocks ar d))))"

abbreviation cells_where :: "(arena \<Rightarrow> nat \<Rightarrow> bool) \<Rightarrow> arena \<Rightarrow> nat list \<Rightarrow> nat" where
  "cells_where P ar bs \<equiv> length (filter (P ar) (concat (map (block_cells ar) bs)))"

lemma cell_counts_split:
  assumes "\<And>b. b \<in> set (committed d) \<Longrightarrow> block_ok ar b"
  shows "cells_where (\<lambda>ar c. \<not> is_marked ar c) ar (committed d) =
           length (concat (map (block_cells ar) (empty_blocks ar d))) + length (reclaimed_cells ar d)"
    and "cells_where is_marked ar (committed d) = cells_where is_marked ar (sort (kept_blocks ar d))"
proof -
  let ?g = "\<lambda>P b. length (filter (P :: nat \<Rightarrow> bool) (block_cells ar b))"
  have unmarked: "filter (\<lambda>c. \<not> is_marked ar c) (block_cells ar b) = block_cells ar b"
    "filter (is_marked ar) (block_cells ar b) = []"
    if "b \<in> set (empty_blocks ar d)" for b
    using that no_marks_cell assms by (auto simp: empty_blocks_def intro!: filter_True filter_False)
  have all: "cells_where (\<lambda>_. P) ar (committed d) =
      sum_list (map (?g P) (empty_blocks ar d)) + sum_list (map (?g P) (sort (kept_blocks ar d)))" for P
    unfolding sum_list_sort unfolding length_filter_concat map_map comp_def empty_blocks_def kept_blocks_def
    by (rule sum_list_split)
  have e: "sum_list (map (?g (\<lambda>c. \<not> is_marked ar c)) (empty_blocks ar d)) =
      sum_list (map (\<lambda>b. length (block_cells ar b)) (empty_blocks ar d))"
    "sum_list (map (?g (is_marked ar)) (empty_blocks ar d)) = 0"
    using unmarked by (auto cong: map_cong simp: sum_list_eq_0_iff)
  show "cells_where (\<lambda>ar c. \<not> is_marked ar c) ar (committed d) =
           length (concat (map (block_cells ar) (empty_blocks ar d))) + length (reclaimed_cells ar d)"
    using all [of "\<lambda>c. \<not> is_marked ar c"] e
    by (simp add: reclaimed_cells_def length_filter_concat comp_def length_concat)
  show "cells_where is_marked ar (committed d) = cells_where is_marked ar (sort (kept_blocks ar d))"
    using all [of "is_marked ar"] e by (simp add: length_filter_concat comp_def)
qed

lemma distinct_committed_of: "distinct bs \<Longrightarrow> distinct (committed_of (zip bs ds))"
proof (induction bs arbitrary: ds)
  case (Cons b bs)
  show ?case
  proof (cases ds)
    case (Cons d ds')
    have "b \<notin> set (committed_of (zip bs ds'))"
      using Cons.prems by (auto simp: committed_of_filter dest: set_zip_leftD)
    then show ?thesis using Cons.IH [of ds'] Cons.prems Cons by simp
  qed simp
qed simp

lemma distinct_committed: "dir_ok ar d \<Longrightarrow> distinct (committed d)"
  by (simp add: dir_ok_def committed_def distinct_committed_of)

lemma sweep_all_blocks_result:
  assumes ok: "dir_ok ar d" and spread: "spread_ok lim d"
  shows "\<exists>ar' d'. sweep_all_blocks ar d =
      Some (count_results (bd_cell_size d) (cells_where (\<lambda>ar c. \<not> is_marked ar c) ar (committed d))
              (cells_where is_marked ar (committed d)), ar', d') \<and>
    dir_inv ar' d' (reclaimed_cells ar d) \<and> cleared (set (committed d)) ar ar' \<and>
    (\<forall>x. (\<forall>c\<in>set (reclaimed_cells ar d). x < c + 8 \<or> c + 16 \<le> x) \<longrightarrow> ar_bytes ar' x = ar_bytes ar x) \<and>
    d'\<lparr>bd_free_list := bd_free_list d\<rparr> = d"
proof -
  let ?a = "bd_cell_size_atoms d" and ?cs = "bd_cell_size d" and ?bases = "rev (sort (kept_blocks ar d))"
  note blk = dir_inv_block [OF ok] and dist = distinct_committed [OF ok]
  have fits: "list_all (block_fits ar ?a) (committed_of (zip (bd_block_base_addr d) (bd_decommitted d)))"
    and a: "0 < ?a" "?cs = ?a * ATOM_SIZE" and fcs: "unat (fl_cell_size (bd_free_list d)) = ?cs" "16 \<le> ?cs"
    using ok by (simp_all add: dir_ok_def committed_def ATOM_SIZE_def)
  obtain ar1 where cl: "classify_blocks (zip (bd_block_base_addr d) (bd_decommitted d)) sweep_result_default [] ar =
      Some (add_results sweep_result_default
             (count_results ?cs (length (concat (map (block_cells ar) (empty_blocks ar d)))) 0),
            kept_blocks ar d, ar1)"
    and c1: "cleared (set (empty_blocks ar d)) ar ar1" and by1: "ar_bytes ar1 = ar_bytes ar"
    using classify_blocks_result [OF fits a, of sweep_result_default "[]"]
    by (auto simp: empty_blocks_def kept_blocks_def committed_def)
  have kept: "b \<in> set (committed d)" if "b \<in> set (kept_blocks ar d)" for b using that by (simp add: kept_blocks_def)
  have apart: "b + BLOCK_SIZE \<le> b'" if "b \<in> set (kept_blocks ar d)" "b' \<in> set (kept_blocks ar d)" "b < b'" for b b'
  proof -
    have "BLOCK_SIZE dvd b" "BLOCK_SIZE dvd b'" using blk(3) kept that(1,2) by (simp_all add: page_ok_def)
    then show ?thesis using pages_apart [of b b'] that(3) by linarith
  qed
  have "sorted_wrt (\<lambda>b b'. b' + BLOCK_SIZE \<le> b) ?bases"
  proof -
    have "sorted_wrt (<) (sort (kept_blocks ar d))"
      using dist by (simp add: strict_sorted_iff kept_blocks_def)
    then have "sorted_wrt (\<lambda>b b'. b + BLOCK_SIZE \<le> b') (sort (kept_blocks ar d))"
      by (rule sorted_wrt_mono_rel [rotated])
        (use apart in simp)
    then show ?thesis by (simp add: sorted_wrt_rev)
  qed
  then have sw: "sweepable ar1 ?cs lim ?bases"
    using spread kept blk(1,2) cleared_geometry(5,6) [OF c1]
    by (simp add: sweepable_def spread_ok_def list_all_iff)
  obtain ar2 fl2 where s2: "sweep_blocks ?bases FREELIST_SECRET DoesNotHave ar1 (bd_free_list d) =
       Some (count_results ?cs (length (dead_cells ar1 DoesNotHave (swept_cells ar1 ?bases)))
               (live_count ar1 DoesNotHave (swept_cells ar1 ?bases)), ar2, fl2)"
    and r2: "fl_repr (ar_bytes ar2) fl2 (dead_cells ar1 DoesNotHave (swept_cells ar1 ?bases))"
    and h2: "ar_header ar2 = ar_header (flip_headers DoesNotHave ?bases ar1)"
    and f2: "\<forall>x. (\<forall>c\<in>set (dead_cells ar1 DoesNotHave (swept_cells ar1 ?bases)). \<not> (c + 8 \<le> x \<and> x < c + 16)) \<longrightarrow>
           ar_bytes ar2 x = ar_bytes ar1 x"
    and k2: "fl_cell_size fl2 = fl_cell_size (bd_free_list d)"
    by (rule sweep_blocks_repr [OF sw fcs, of FREELIST_SECRET DoesNotHave])
  have ret: "sweep_retained ar1 DoesNotHave = is_marked ar"
    using cleared_geometry(2) [OF c1] by (intro ext) (simp add: retained_is_marked)
  have dead: "dead_cells ar1 DoesNotHave (swept_cells ar1 ?bases) = reclaimed_cells ar d"
    and live: "live_count ar1 DoesNotHave (swept_cells ar1 ?bases) = cells_where is_marked ar (sort (kept_blocks ar d))"
    using ret cleared_geometry(1) [OF c1] by (simp_all add: reclaimed_cells_def)
  let ?d = "d\<lparr>bd_free_list := fl2\<rparr>"
  have c2: "cleared (set (committed d)) ar ar2"
    using c1 unfolding cleared_def h2 flip_headers_def
    by (auto simp: header_after_clears empty_blocks_def kept_blocks_def)
  have run: "sweep_all_blocks ar d =
      Some (count_results ?cs (cells_where (\<lambda>ar c. \<not> is_marked ar c) ar (committed d))
              (cells_where is_marked ar (committed d)), ar2, ?d)"
  proof -
    have "sweep_all_blocks ar d =
        Some (add_results (add_results sweep_result_default
               (count_results ?cs (length (concat (map (block_cells ar) (empty_blocks ar d)))) 0))
             (count_results ?cs (length (reclaimed_cells ar d)) (cells_where is_marked ar (sort (kept_blocks ar d)))),
             ar2, ?d)"
      using s2 [unfolded dead live] by (simp add: sweep_all_blocks_def cl)
    then show ?thesis
      using cell_counts_split [of d ar, OF blk(1)]
      by (simp add: add_results_def count_results_def sweep_result_default_def algebra_simps)
  qed
  have com: "committed ?d = committed d" by (simp add: committed_def)
  have "block_for c \<in> set (committed d) \<and> c \<in> set (block_cells ar2 (block_for c)) \<and> \<not> in_use ar2 c"
    if "c \<in> set (reclaimed_cells ar d)" for c
  proof -
    obtain b where "b \<in> set (kept_blocks ar d)" "c \<in> set (block_cells ar b)" "\<not> is_marked ar c"
      using \<open>c \<in> set (reclaimed_cells ar d)\<close> unfolding reclaimed_cells_def by auto
    then have b: "b \<in> set (committed d)" "c \<in> set (block_cells ar b)" "\<not> is_marked ar c"
      by (simp_all add: kept)
    then have "block_for c = b" using block_cells_bounds(3) blk(1) by blast
    with b show ?thesis
      using cleared_not_new [OF c2] cleared_geometry(1) [OF c2] by simp
  qed
  moreover have "distinct (reclaimed_cells ar d)"
    unfolding reclaimed_cells_def
  proof (intro distinct_filter distinct_block_lists)
    show "distinct (sort (kept_blocks ar d))" using dist by (simp add: kept_blocks_def)
    show "block_ok ar b" if "b \<in> set (sort (kept_blocks ar d))" for b using that kept blk(1) by simp
  qed
  moreover have "dir_ok ar2 ?d"
    using ok k2 cleared_geometry(4) [OF c2] by (simp add: dir_ok_def com list_all_iff)
  ultimately have "dir_inv ar2 ?d (reclaimed_cells ar d)"
    using r2 dead com by (simp add: dir_inv_def)
  with run c2 f2 [unfolded dead by1] show ?thesis
    by (intro exI [of _ ar2] exI [of _ ?d]) (simp add: not_le not_less)
qed

definition demo_directory :: block_directory where
  "demo_directory =
     \<lparr>bd_cell_size_atoms = 500, bd_cell_size = 8000, bd_pages = [32768, 16384], bd_block_base_addr = [32768, 16384],
      bd_decommitted = [False, False], bd_reactivated_block_count = 0, bd_free_list = fl_new 8000\<rparr>"

lemma demo_directory_ok: "dir_ok demo_block demo_directory" "spread_ok 49152 demo_directory"
  by (simp_all add: dir_ok_def spread_ok_def demo_directory_def committed_def page_ok_def block_fits_def
      block_ok_def block_atoms_per_cell_def block_start_atom_def demo_block_def fl_new_def start_atom_for_def
      block_consts)

section \<open>Returning pages\<close>

lemma shrink_loop_result:
  assumes "page_local decommit" and "distinct (map fst bds)" and "shrink_loop decommit bds ar = (ds, newly, ar')"
  shows "newly = filter (block_has_no_marks ar) (committed_of bds) \<and> length ds = length bds \<and>
         committed_of (zip (map fst bds) ds) = filter (\<lambda>b. \<not> block_has_no_marks ar b) (committed_of bds) \<and>
         (\<forall>b. b \<notin> set newly \<longrightarrow> ar_header ar' b = ar_header ar b) \<and>
         (\<forall>x. (\<forall>b\<in>set newly. x < b \<or> b + BLOCK_SIZE \<le> x) \<longrightarrow> ar_bytes ar' x = ar_bytes ar x)"
  using assms(2,3)
proof (induction bds arbitrary: ar ds newly ar' rule: committed_of.induct)
  case 1
  then show ?case by simp
next
  case (2 b dec bds)
  note IH = "2.IH" and prems = "2.prems"
  consider "dec" | "\<not> dec" "block_has_no_marks ar b" | "\<not> dec" "\<not> block_has_no_marks ar b" by blast
  then show ?case
  proof cases
    case 1
    then show ?thesis using IH(1) prems by (auto split: prod.splits)
  next
    case 2
    obtain ds1 newly1 where loop: "shrink_loop decommit bds (decommit b ar) = (ds1, newly1, ar')"
      and eqs: "ds = True # ds1" "newly = b # newly1"
      using prems 2 by (auto split: prod.splits)
    have hdr: "ar_header (decommit b ar) b' = ar_header ar b'" if "b' \<noteq> b" for b'
      using assms(1) that by (simp add: page_local_def)
    have bytes: "ar_bytes (decommit b ar) x = ar_bytes ar x" if "x < b \<or> b + BLOCK_SIZE \<le> x" for x
      using assms(1) that unfolding page_local_def by blast
    have nm: "block_has_no_marks (decommit b ar) b' = block_has_no_marks ar b'" if "b' \<in> set (committed_of bds)" for b'
    proof -
      have "b' \<noteq> b" using that prems(1) by (force simp: committed_of_filter)
      then show ?thesis by (simp add: block_has_no_marks_def hdr)
    qed
    have filters: "filter (block_has_no_marks (decommit b ar)) (committed_of bds) =
        filter (block_has_no_marks ar) (committed_of bds)"
      "filter (\<lambda>b'. \<not> block_has_no_marks (decommit b ar) b') (committed_of bds) =
        filter (\<lambda>b'. \<not> block_has_no_marks ar b') (committed_of bds)"
      using nm by (auto cong: filter_cong)
    have "distinct (map fst bds)" using prems(1) by simp
    from IH(2) [OF 2(1) this loop, unfolded filters] show ?thesis
      using 2 eqs hdr bytes by simp
  next
    case 3
    then obtain ds1 where loop: "shrink_loop decommit bds ar = (ds1, newly, ar')" and ds: "ds = False # ds1"
      using prems by (auto split: prod.splits)
    have "distinct (map fst bds)" using prems(1) by simp
    from IH(2) [OF 3(1) this loop] show ?thesis using 3 ds by simp
  qed
qed

lemma dir_inv_frame:
  assumes inv: "dir_inv ar d cells" and same: "same_blocks ar d ar'"
  shows "dir_inv ar' d cells"
proof -
  have ok: "dir_ok ar d" using inv by (simp add: dir_inv_def)
  have cs: "16 \<le> bd_cell_size d" using ok by (simp add: dir_ok_def ATOM_SIZE_def)
  have hdr: "ar_header ar' b = ar_header ar b"
    and bytes: "\<And>x. b \<le> x \<Longrightarrow> x < b + BLOCK_SIZE \<Longrightarrow> ar_bytes ar' x = ar_bytes ar x"
    if "b \<in> set (committed d)" for b using same that by (simp_all add: same_blocks_def)
  have cell: "block_for c \<in> set (committed d)" "c \<in> set (block_cells ar (block_for c))" "\<not> in_use ar c"
    if "c \<in> set cells" for c using that inv by (auto simp: dir_inv_def)
  have "ar_bytes ar x = ar_bytes ar' x" if "c \<in> set cells" "c \<le> x" "x < c + 16" for c x
  proof -
    note k = cell [OF that(1)] and b = dir_inv_block [OF ok cell(1) [OF that(1)]]
    from block_cells_bounds(1,2) [OF b(1) k(2)] have "block_for c \<le> x" "x < block_for c + BLOCK_SIZE"
      using that cs b(2) by linarith+
    then show ?thesis using bytes [OF k(1)] by simp
  qed
  moreover have "fl_repr (ar_bytes ar) (bd_free_list d) cells" using inv by (simp add: dir_inv_def)
  ultimately have "fl_repr (ar_bytes ar') (bd_free_list d) cells" using fl.repr_frame by blast
  moreover have "block_fits ar' (bd_cell_size_atoms d) b" if "b \<in> set (committed d)" for b
    using block_fits_header [OF hdr [OF that]] that ok by (auto simp: dir_ok_def list_all_iff)
  then have "dir_ok ar' d" using ok unfolding dir_ok_def by (simp add: list_all_iff)
  moreover have "\<not> in_use ar' c \<and> c \<in> set (block_cells ar' (block_for c))" if "c \<in> set cells" for c
    using cell [OF that] hdr [OF cell(1) [OF that]] block_cells_header [OF hdr [OF cell(1) [OF that]]]
    by (simp add: in_use_def is_newly_allocated_def is_marked_def Let_def)
  ultimately show ?thesis using inv by (simp add: dir_inv_def)
qed

lemma reclaimed_cell:
  assumes "dir_ok ar d" and "c \<in> set (reclaimed_cells ar d)"
  shows "block_for c \<in> set (kept_blocks ar d)" and "block_for c \<in> set (committed d)"
    and "c \<in> set (block_cells ar (block_for c))" and "\<not> is_marked ar c"
proof -
  obtain b where b: "b \<in> set (kept_blocks ar d)" "c \<in> set (block_cells ar b)" "\<not> is_marked ar c"
    using assms(2) unfolding reclaimed_cells_def by auto
  have com: "b \<in> set (committed d)" using b(1) by (simp add: kept_blocks_def)
  then have "block_for c = b" using block_cells_bounds(3) [OF dir_inv_block(1) [OF assms(1)] b(2)] by simp
  then show "block_for c \<in> set (kept_blocks ar d)" "block_for c \<in> set (committed d)"
    "c \<in> set (block_cells ar (block_for c))" "\<not> is_marked ar c"
    using b com by simp_all
qed

lemma reclaimed_apart:
  assumes "dir_ok ar d" and "block_for c \<in> set (committed d)" and "c \<in> set (block_cells ar (block_for c))"
    and "is_marked ar c" and "c \<le> x" and "x < c + bd_cell_size d" and "c' \<in> set (reclaimed_cells ar d)"
  shows "x < c' + 8 \<or> c' + 16 \<le> x"
proof -
  note rec = reclaimed_cell [OF assms(1,7)]
  have "c \<noteq> c'" using rec(4) assms(4) by auto
  moreover have "16 \<le> bd_cell_size d" using assms(1) by (simp add: dir_ok_def ATOM_SIZE_def)
  ultimately show ?thesis
    using dir_cells_apart [OF assms(1-3) rec(2,3)] assms(5,6) by linarith
qed

lemma bd_shrink_inv:
  assumes inv: "dir_inv ar d cells" and "page_local decommit"
    and kept: "\<And>c. c \<in> set cells \<Longrightarrow> block_for c \<in> set (kept_blocks ar d)"
    and sh: "bd_shrink decommit ar d = (newly, ar', d')"
  shows "newly = empty_blocks ar d \<and> committed d' = kept_blocks ar d \<and> dir_inv ar' d' cells \<and> same_blocks ar d' ar'"
    and "page_frame (set newly) ar ar'"
    and "bd_cell_size_atoms d' = bd_cell_size_atoms d" and "bd_block_base_addr d' = bd_block_base_addr d"
proof -
  let ?bds = "zip (bd_block_base_addr d) (bd_decommitted d)"
  have ok: "dir_ok ar d" using inv by (simp add: dir_inv_def)
  have len: "length (bd_decommitted d) = length (bd_block_base_addr d)" and dist: "distinct (bd_block_base_addr d)"
    using ok by (simp_all add: dir_ok_def)
  have fsts: "map fst ?bds = bd_block_base_addr d" using len by simp
  obtain ds where loop: "shrink_loop decommit ?bds ar = (ds, newly, ar')" and d': "d' = d\<lparr>bd_decommitted := ds\<rparr>"
    using sh by (auto simp: bd_shrink_def split: prod.splits)
  have "distinct (map fst ?bds)" using dist fsts by simp
  from shrink_loop_result [OF assms(2) this loop, unfolded fsts] have
    newly: "newly = empty_blocks ar d" and "length ds = length (bd_block_base_addr d)"
    and com: "committed d' = kept_blocks ar d"
    and hdr: "\<And>b. b \<notin> set newly \<Longrightarrow> ar_header ar' b = ar_header ar b"
    and bytes: "\<And>x. (\<forall>b\<in>set newly. x < b \<or> b + BLOCK_SIZE \<le> x) \<Longrightarrow> ar_bytes ar' x = ar_bytes ar x"
    using len by (simp_all add: committed_def empty_blocks_def kept_blocks_def d')
  have sub: "set (kept_blocks ar d) \<subseteq> set (committed d)" unfolding kept_blocks_def by (rule filter_is_subset)
  have frame: "page_frame (set newly) ar ar'" using hdr bytes by (simp add: page_frame_def)
  have ok': "dir_ok ar d'"
    using ok \<open>length ds = _\<close> sub unfolding dir_ok_def com by (auto simp: d' list_all_iff)
  have "BLOCK_SIZE dvd b" if "b \<in> set newly" for b
    using that newly dir_inv_block(3) [OF ok] by (simp add: empty_blocks_def page_ok_def)
  then have same: "same_blocks ar d' ar'"
    using newly com by (intro page_frame_same_blocks [OF frame ok']) (auto simp: kept_blocks_def empty_blocks_def)
  have "dir_inv ar d' cells" using inv kept com ok' by (simp add: dir_inv_def d')
  then have "dir_inv ar' d' cells" using same by (rule dir_inv_frame)
  then show "newly = empty_blocks ar d \<and> committed d' = kept_blocks ar d \<and> dir_inv ar' d' cells \<and> same_blocks ar d' ar'"
    using newly com same by blast
  show "page_frame (set newly) ar ar'" by (rule frame)
  show "bd_cell_size_atoms d' = bd_cell_size_atoms d" "bd_block_base_addr d' = bd_block_base_addr d"
    by (simp_all add: d')
qed



end
