(* ===== verification/Worklist_Marking.thy ===== *)
theory Worklist_Marking
  imports JSC_Prelude "HOL-Library.Multiset"
begin

text \<open>
  What marking with a worklist relies on: a set of marked nodes, a worklist of marked nodes
  whose edges have not been followed, and an operation that marks a node and puts it on the worklist
  unless it is marked already.  The invariant is that of the three colours: no edge leads from a
  node that is done to an unmarked one.
\<close>

definition reach :: "('c \<Rightarrow> 'c list) \<Rightarrow> 'c set \<Rightarrow> 'c set" where
  "reach edges roots = {(c, d). d \<in> set (edges c)}\<^sup>* `` roots"

lemma reach_roots: "roots \<subseteq> reach edges roots"
  by (auto simp: reach_def)

lemma reach_step: "c \<in> reach edges roots \<Longrightarrow> d \<in> set (edges c) \<Longrightarrow> d \<in> reach edges roots"
  unfolding reach_def by (auto intro: rtrancl_into_rtrancl)

lemma reach_least:
  assumes "roots \<subseteq> M" and "\<And>c. c \<in> M \<Longrightarrow> set (edges c) \<subseteq> M"
  shows "reach edges roots \<subseteq> M"
proof
  fix d assume "d \<in> reach edges roots"
  then obtain r where "r \<in> roots" "(r, d) \<in> {(c, d). d \<in> set (edges c)}\<^sup>*" by (auto simp: reach_def)
  from this(2,1) show "d \<in> M" by (induction rule: rtrancl_induct) (use assms in auto)
qed

lemma reach_cong:
  assumes "roots \<subseteq> V" and "\<And>c. c \<in> V \<Longrightarrow> set (edges c) \<subseteq> V \<and> edges' c = edges c"
  shows "reach edges' roots = reach edges roots"
proof (rule antisym)
  have "reach edges roots \<subseteq> V" using assms by (intro reach_least) auto
  then have "set (edges' c) \<subseteq> reach edges roots" if "c \<in> reach edges roots" for c
    using that assms(2) [of c] reach_step [OF that] by auto
  then show "reach edges' roots \<subseteq> reach edges roots" by (intro reach_least reach_roots)
  have "reach edges' roots \<subseteq> V" using assms by (intro reach_least) auto
  then have "set (edges c) \<subseteq> reach edges' roots" if "c \<in> reach edges' roots" for c
    using that assms(2) [of c] reach_step [OF that] by auto
  then show "reach edges roots \<subseteq> reach edges' roots" by (intro reach_least reach_roots)
qed

locale marker =
  fixes V :: "'c set"
    and edges :: "'c \<Rightarrow> 'c list"
    and valid :: "'s \<Rightarrow> bool"
    and marks :: "'s \<Rightarrow> 'c set"
    and grey :: "'s \<Rightarrow> 'c list"
    and append :: "'c \<Rightarrow> 's \<Rightarrow> 's"
  assumes finite_V: "finite V"
    and closed: "c \<in> V \<Longrightarrow> set (edges c) \<subseteq> V"
    and marks_V: "valid s \<Longrightarrow> marks s \<subseteq> V"
    and append_marked: "valid s \<Longrightarrow> c \<in> marks s \<Longrightarrow> append c s = s"
    and append_valid: "valid s \<Longrightarrow> c \<in> V \<Longrightarrow> c \<notin> marks s \<Longrightarrow> valid (append c s)"
    and append_marks: "valid s \<Longrightarrow> c \<in> V \<Longrightarrow> c \<notin> marks s \<Longrightarrow> marks (append c s) = insert c (marks s)"
    and append_grey: "valid s \<Longrightarrow> c \<in> V \<Longrightarrow> c \<notin> marks s \<Longrightarrow>
          mset (grey (append c s)) = add_mset c (mset (grey s))"
begin

definition tri :: "'c set \<Rightarrow> 's \<Rightarrow> bool" where
  "tri roots s \<longleftrightarrow>
     valid s \<and> roots \<subseteq> marks s \<and> marks s \<subseteq> reach edges roots \<and>
     set (grey s) \<subseteq> marks s \<and> distinct (grey s) \<and>
     (\<forall>c\<in>marks s - set (grey s). set (edges c) \<subseteq> marks s)"

definition black :: "'s \<Rightarrow> 'c set" where
  "black s = marks s - set (grey s)"

lemma append_all:
  assumes "valid s" and "set cs \<subseteq> V" and "set (grey s) \<subseteq> marks s" and "distinct (grey s)"
  shows "valid (fold append cs s) \<and> marks (fold append cs s) = marks s \<union> set cs \<and>
    distinct (grey (fold append cs s)) \<and> set (grey (fold append cs s)) = set (grey s) \<union> (set cs - marks s)"
  using assms
proof (induction cs arbitrary: s)
  case (Cons c cs)
  show ?case
  proof (cases "c \<in> marks s")
    case True
    then show ?thesis using Cons.IH [of s] Cons.prems append_marked by auto
  next
    case False
    have c: "c \<in> V" using Cons.prems by simp
    note ms = append_grey [OF Cons.prems(1) c False]
    have set_g: "set (grey (append c s)) = insert c (set (grey s))"
      using arg_cong [OF ms, of set_mset] by simp
    have "c \<notin> set (grey s)" using False Cons.prems(3) by blast
    then have "distinct (c # grey s)" using Cons.prems(4) by simp
    then have dist: "distinct (grey (append c s))"
      using mset_eq_imp_distinct_iff [of "grey (append c s)" "c # grey s"] ms by simp
    note v = append_valid [OF Cons.prems(1) c False] and m = append_marks [OF Cons.prems(1) c False]
    have "set (grey (append c s)) \<subseteq> marks (append c s)" using set_g m Cons.prems(3) by auto
    note IH = Cons.IH [OF v _ this dist]
    then show ?thesis using m set_g Cons.prems(2) False by auto
  qed
qed simp

lemma start:
  assumes "valid s" and "marks s = {}" and "grey s = []" and "set roots \<subseteq> V"
  shows "tri (set roots) (fold append roots s)"
  using append_all [OF assms(1,4)] assms(2,3) reach_roots by (simp add: tri_def)

lemma scan:
  assumes "tri roots s" and "valid s1" and "marks s1 = marks s"
    and pop: "mset (grey s) = add_mset c (mset (grey s1))"
  shows "tri roots (fold append (edges c) s1)"
    and "card (V - black (fold append (edges c) s1)) < card (V - black s)"
proof -
  have set_g: "set (grey s) = insert c (set (grey s1))" using arg_cong [OF pop, of set_mset] by simp
  have "distinct (c # grey s1)"
    using mset_eq_imp_distinct_iff [of "grey s" "c # grey s1"] pop assms(1) by (simp add: tri_def)
  then have d1: "distinct (grey s1)" and c1: "c \<notin> set (grey s1)" by simp_all
  have c: "c \<in> marks s" "marks s \<subseteq> V" using assms set_g marks_V by (auto simp: tri_def)
  have sub: "set (edges c) \<subseteq> V" using closed c by blast
  have g1: "set (grey s1) \<subseteq> marks s1" using assms set_g by (auto simp: tri_def)
  let ?s' = "fold append (edges c) s1"
  note all = append_all [OF assms(2) sub g1 d1]
  have m': "marks ?s' = marks s \<union> set (edges c)"
    and g': "set (grey ?s') = set (grey s1) \<union> (set (edges c) - marks s)"
    using all assms(3) by simp_all
  have "\<forall>d\<in>marks ?s' - set (grey ?s'). set (edges d) \<subseteq> marks ?s'"
  proof
    fix d assume "d \<in> marks ?s' - set (grey ?s')"
    then have "d = c \<or> d \<in> marks s - set (grey s)" using m' g' set_g by auto
    then show "set (edges d) \<subseteq> marks ?s'" using m' assms(1) by (auto simp: tri_def)
  qed
  moreover have "marks ?s' \<subseteq> reach edges roots"
    using m' assms(1) c(1) reach_step [of c edges roots] by (auto simp: tri_def)
  ultimately show "tri roots ?s'"
    using all assms(1) m' g' g1 assms(3) unfolding tri_def by auto
  have "black ?s' = insert c (black s)"
    using m' g' set_g c1 c(1) g1 assms(3) by (auto simp: black_def)
  moreover have "c \<notin> black s" using set_g by (simp add: black_def)
  ultimately have "V - black ?s' \<subset> V - black s" using c by auto
  then show "card (V - black ?s') < card (V - black s)" using finite_V by (intro psubset_card_mono) auto
qed

lemma restart:
  assumes "tri roots s" and "grey s = []" and "set cs \<subseteq> V"
  shows "tri (roots \<union> set cs) (fold append cs s)"
proof -
  have "valid s" and closed_s: "\<forall>c\<in>marks s. set (edges c) \<subseteq> marks s" using assms(1,2) by (auto simp: tri_def)
  note all = append_all [OF this(1) assms(3)]
  have "reach edges roots \<subseteq> reach edges (roots \<union> set cs)" by (auto simp: reach_def)
  then show ?thesis
    using all assms(1,2) closed_s reach_roots [of "roots \<union> set cs" edges] by (auto simp: tri_def)
qed

lemma finish:
  assumes "tri roots s" and "grey s = []"
  shows "marks s = reach edges roots"
  using assms reach_least [of roots "marks s" edges] by (auto simp: tri_def)

end

end
