(* ===== verification/Slot_Visitor.thy ===== *)
theory Slot_Visitor
  imports Block_Directory Worklist_Marking
begin

text \<open>
  The marking visitor (\<open>src/src/gc/heap/slot_visitor.rs\<close>, with \<open>CellState\<close> of \<open>src/src/gc/cell.rs\<close>):
  a stack of grey cells, seeded from the roots and drained until it is empty.

  The method table that enumerates the children of a cell (\<open>trait VisitChildren\<close>) is a parameter:
  \<open>classes ar cell\<close> are the addresses it hands to \<open>append_unbarriered\<close>, in order, when the memory is
  \<open>ar\<close>.  The contract of the trait is that an implementor neither marks nor mutates cells.  The state
  of a collection is the memory and the visitor; the stack is kept with its top first.  The counters
  are natural numbers: a collection adds each cell once, so that they stay below the size of memory.
\<close>

section \<open>The model\<close>

datatype cell_state = PossiblyBlack | DefinitelyWhite | PossiblyGrey

fun cell_state_byte :: "cell_state \<Rightarrow> u8" where
  "cell_state_byte PossiblyBlack = 0"
| "cell_state_byte DefinitelyWhite = 1"
| "cell_state_byte PossiblyGrey = 2"

record slot_visitor =
  sv_collector_stack :: "nat list"
  sv_visit_count :: nat
  sv_bytes_visited :: nat

definition sv_new :: slot_visitor where
  "sv_new = \<lparr>sv_collector_stack = [], sv_visit_count = 0, sv_bytes_visited = 0\<rparr>"

definition sv_reset :: "slot_visitor \<Rightarrow> slot_visitor" where
  "sv_reset sv = sv\<lparr>sv_collector_stack := [], sv_visit_count := 0, sv_bytes_visited := 0\<rparr>"

definition sv_is_empty :: "slot_visitor \<Rightarrow> bool" where
  "sv_is_empty sv \<longleftrightarrow> sv_collector_stack sv = []"

text \<open>The state byte is the last of the eight of a cell header.\<close>

definition set_cell_state :: "nat \<Rightarrow> cell_state \<Rightarrow> arena \<Rightarrow> arena" where
  "set_cell_state cell state ar = ar\<lparr>ar_bytes := (ar_bytes ar)(cell + 7 := cell_state_byte state)\<rparr>"

definition container_cell_size :: "arena \<Rightarrow> nat \<Rightarrow> nat" where
  "container_cell_size ar cell_addr = block_atoms_per_cell ar (block_for cell_addr) * ATOM_SIZE"

type_synonym marking = "arena \<times> slot_visitor"

definition append_to_mark_stack :: "nat \<Rightarrow> marking \<Rightarrow> marking" where
  "append_to_mark_stack cell = (\<lambda>(ar, sv).
     (ar, sv\<lparr>sv_visit_count := sv_visit_count sv + 1,
             sv_bytes_visited := sv_bytes_visited sv + container_cell_size ar cell,
             sv_collector_stack := cell # sv_collector_stack sv\<rparr>))"

definition append_js_cell_or_auxiliary :: "nat \<Rightarrow> marking \<Rightarrow> marking" where
  "append_js_cell_or_auxiliary cell = (\<lambda>(ar, sv).
     let (newly, ar1) = test_and_set_marked cell ar
     in if \<not> newly then (ar1, sv)
        else append_to_mark_stack cell (set_cell_state cell PossiblyGrey ar1, sv))"

definition set_marked_and_append_to_mark_stack :: "nat \<Rightarrow> marking \<Rightarrow> marking" where
  "set_marked_and_append_to_mark_stack cell = (\<lambda>(ar, sv).
     let (newly, ar1) = test_and_set_marked cell ar
     in if \<not> newly then (ar1, sv)
        else append_to_mark_stack cell (set_cell_state cell PossiblyGrey ar1, sv))"

definition append_slow :: "nat \<Rightarrow> marking \<Rightarrow> marking" where
  "append_slow cell = set_marked_and_append_to_mark_stack cell"

definition append_unbarriered :: "nat \<Rightarrow> marking \<Rightarrow> marking" where
  "append_unbarriered cell = (\<lambda>(ar, sv).
     if is_marked ar cell then (ar, sv) else append_slow cell (ar, sv))"

fun append_conservative_roots :: "nat list \<Rightarrow> marking \<Rightarrow> marking" where
  "append_conservative_roots [] m = m"
| "append_conservative_roots (root # roots) m =
     append_conservative_roots roots (append_js_cell_or_auxiliary root m)"

text \<open>\<open>None\<close> is the failure of the assertion that only marked cells are visited.\<close>

definition visit_children ::
  "(arena \<Rightarrow> nat \<Rightarrow> nat list) \<Rightarrow> nat \<Rightarrow> marking \<Rightarrow> marking option" where
  "visit_children classes cell = (\<lambda>(ar, sv).
     if \<not> is_marked ar cell then None
     else let ar1 = set_cell_state cell PossiblyBlack ar
          in Some (fold append_unbarriered (classes ar1 cell) (ar1, sv)))"

partial_function (option) drain ::
  "(arena \<Rightarrow> nat \<Rightarrow> nat list) \<Rightarrow> marking \<Rightarrow> marking option" where
  "drain classes m =
     (case sv_collector_stack (snd m) of
        [] \<Rightarrow> Some m
      | cell # rest \<Rightarrow>
          do {
            m1 \<leftarrow> visit_children classes cell (fst m, (snd m)\<lparr>sv_collector_stack := rest\<rparr>);
            drain classes m1
          })"

declare drain.simps [code]

definition mark_from_roots ::
  "(arena \<Rightarrow> nat \<Rightarrow> nat list) \<Rightarrow> nat list \<Rightarrow> marking \<Rightarrow> marking option" where
  "mark_from_roots classes roots m = drain classes (append_conservative_roots roots m)"

section \<open>Appending a cell\<close>

text \<open>The two paths by which a cell is appended do the same: nothing if it is marked already.\<close>

definition grey_cell :: "nat \<Rightarrow> arena \<Rightarrow> arena" where
  "grey_cell cell ar = set_cell_state cell PossiblyGrey (snd (test_and_set_marked cell ar))"

definition append_cell :: "nat \<Rightarrow> marking \<Rightarrow> marking" where
  "append_cell cell = (\<lambda>(ar, sv).
     if is_marked ar cell then (ar, sv)
     else append_to_mark_stack cell (grey_cell cell ar, sv))"

lemma test_and_set_marked_fst: "fst (test_and_set_marked c ar) \<longleftrightarrow> \<not> is_marked ar c"
  by (simp add: test_and_set_marked_def is_marked_def Let_def)

lemma bitmap_set_idle:
  assumes "bitmap_get ws i" shows "bitmap_set ws i = ws"
proof -
  have "push_bit (i mod 64) 1 OR ws ! (i div 64) = ws ! (i div 64)"
    using assms by (intro bit_word_eqI) (auto simp: bitmap_get_bit bit_simps)
  then have "ws ! (i div 64) OR push_bit (i mod 64) 1 = ws ! (i div 64)" by (simp add: or.commute)
  then show ?thesis unfolding bitmap_set_def by (simp only: list_update_id)
qed

lemma test_and_set_marked_idle: "is_marked ar c \<Longrightarrow> snd (test_and_set_marked c ar) = ar"
  by (simp add: test_and_set_marked_def is_marked_def Let_def update_header_def bitmap_set_idle)

lemma append_unbarriered_eq [simp]: "append_unbarriered = append_cell"
  by (intro ext) (auto simp: append_unbarriered_def append_cell_def append_slow_def grey_cell_def
      set_marked_and_append_to_mark_stack_def test_and_set_marked_fst case_prod_unfold Let_def)

lemma append_root_eq [simp]: "append_js_cell_or_auxiliary = append_cell"
  by (intro ext) (auto simp: append_js_cell_or_auxiliary_def append_cell_def grey_cell_def
      test_and_set_marked_fst test_and_set_marked_idle case_prod_unfold Let_def)

lemma append_conservative_roots_eq: "append_conservative_roots roots = fold append_cell roots"
proof
  show "append_conservative_roots roots m = fold append_cell roots m" for m
    by (induction roots arbitrary: m) simp_all
qed

section \<open>What marking changes\<close>

definition heap_cells :: "nat list \<Rightarrow> arena \<Rightarrow> nat set" where
  "heap_cells bases ar = (\<Union>b\<in>set bases. set (block_cells ar b))"

definition blocks_ok :: "nat list \<Rightarrow> arena \<Rightarrow> bool" where
  "blocks_ok bases ar \<longleftrightarrow> list_all (block_ok ar) bases"

text \<open>Only the mark bitmaps, and while marking the state bytes of cells, differ.\<close>

definition marks_only :: "arena \<Rightarrow> arena \<Rightarrow> bool" where
  "marks_only ar0 ar \<longleftrightarrow>
     (\<forall>b. ar_header ar b = (ar_header ar0 b)\<lparr>bh_marks := bh_marks (ar_header ar b)\<rparr> \<and>
          length (bh_marks (ar_header ar b)) = length (bh_marks (ar_header ar0 b)))"

definition marking_frame :: "nat list \<Rightarrow> arena \<Rightarrow> arena \<Rightarrow> bool" where
  "marking_frame bases ar0 ar \<longleftrightarrow>
     (\<forall>x. (\<forall>c\<in>heap_cells bases ar0. x \<noteq> c + 7) \<longrightarrow> ar_bytes ar x = ar_bytes ar0 x) \<and>
     marks_only ar0 ar"

definition marked_cells :: "nat list \<Rightarrow> arena \<Rightarrow> nat set" where
  "marked_cells bases ar = {c. is_atom_aligned c \<and> block_for c \<in> set bases \<and> is_marked ar c}"

lemma marking_frame_refl: "marking_frame bases ar ar"
  by (simp add: marking_frame_def marks_only_def)

lemma marks_only_geometry:
  assumes "marks_only ar0 ar"
  shows "block_cells ar = block_cells ar0" and "block_ok ar b = block_ok ar0 b"
    and "container_cell_size ar = container_cell_size ar0" and "heap_cells bases ar = heap_cells bases ar0"
    and "is_newly_allocated ar c = is_newly_allocated ar0 c" and "block_fits ar a b = block_fits ar0 a b"
proof -
  note f = assms [unfolded marks_only_def]
  have hdr: "ar_header ar b = (ar_header ar0 b)\<lparr>bh_marks := bh_marks (ar_header ar b)\<rparr>"
    and len: "length (bh_marks (ar_header ar b)) = length (bh_marks (ar_header ar0 b))" for b using f by blast+
  have sel: "bh_newly_allocated (ar_header ar b) = bh_newly_allocated (ar_header ar0 b)"
    "bh_atoms_per_cell (ar_header ar b) = bh_atoms_per_cell (ar_header ar0 b)"
    "bh_start_atom (ar_header ar b) = bh_start_atom (ar_header ar0 b)" for b
    by (subst hdr, simp)+
  have geo: "block_atoms_per_cell ar b = block_atoms_per_cell ar0 b" "block_start_atom ar b = block_start_atom ar0 b"
    for b by (simp_all add: block_atoms_per_cell_def block_start_atom_def sel)
  show c: "block_cells ar = block_cells ar0" by (rule ext, rule block_cells_cong) (rule geo)+
  show ok: "block_ok ar b = block_ok ar0 b" by (simp add: block_ok_def geo sel len)
  show "container_cell_size ar = container_cell_size ar0" by (rule ext) (simp add: container_cell_size_def geo)
  show "heap_cells bases ar = heap_cells bases ar0" by (simp add: heap_cells_def c)
  show "is_newly_allocated ar c = is_newly_allocated ar0 c" by (simp add: is_newly_allocated_def sel Let_def)
  show "block_fits ar a b = block_fits ar0 a b" by (simp add: block_fits_def ok geo)
qed

lemmas marking_frame_geometry = marks_only_geometry [OF conjunct2 [OF iffD1 [OF marking_frame_def]]]

lemma dir_ok_marks_only: "marks_only ar0 ar \<Longrightarrow> dir_ok ar0 d \<Longrightarrow> dir_ok ar d"
  using marks_only_geometry(6) by (auto simp: dir_ok_def list_all_iff)

lemma heap_cell:
  assumes "blocks_ok bases ar" and "c \<in> heap_cells bases ar"
  shows "block_for c \<in> set bases" and "is_atom_aligned c" and "c \<in> set (block_cells ar (block_for c))"
    and "block_ok ar (block_for c)"
proof -
  obtain b where b: "b \<in> set bases" "c \<in> set (block_cells ar b)" using assms(2) by (auto simp: heap_cells_def)
  have ok: "block_ok ar b" using assms(1) b(1) by (simp add: blocks_ok_def list_all_iff)
  note bd = block_cells_bounds(3,4) [OF ok b(2)]
  show "block_for c \<in> set bases" "is_atom_aligned c" "c \<in> set (block_cells ar (block_for c))"
    "block_ok ar (block_for c)" using b bd ok by simp_all
qed

lemma heap_cells_iff:
  "blocks_ok bases ar \<Longrightarrow>
     c \<in> heap_cells bases ar \<longleftrightarrow> block_for c \<in> set bases \<and> c \<in> set (block_cells ar (block_for c))"
  using heap_cell [of bases ar c] by (auto simp: heap_cells_def)

lemma marking_frame_blocks: "marking_frame bases ar0 ar \<Longrightarrow> blocks_ok bases ar = blocks_ok bases ar0"
  by (simp add: blocks_ok_def list_all_iff marking_frame_geometry(2))

lemma grey_cell_header:
  "ar_header (grey_cell c ar) b =
     (if b = block_for c
      then (ar_header ar b)\<lparr>bh_marks := bitmap_set (bh_marks (ar_header ar b)) (candidate_atom_number b c)\<rparr>
      else ar_header ar b)"
  by (simp add: grey_cell_def set_cell_state_def test_and_set_marked_def Let_def update_header_def)

lemma grey_cell_bytes: "ar_bytes (grey_cell c ar) = (ar_bytes ar)(c + 7 := 2)"
  by (simp add: grey_cell_def set_cell_state_def test_and_set_marked_def Let_def update_header_def)

lemma marking_frame_grey:
  assumes "marking_frame bases ar0 ar" and "c \<in> heap_cells bases ar0"
  shows "marking_frame bases ar0 (grey_cell c ar)"
proof -
  have hdr: "ar_header ar b = (ar_header ar0 b)\<lparr>bh_marks := bh_marks (ar_header ar b)\<rparr>"
    and len: "length (bh_marks (ar_header ar b)) = length (bh_marks (ar_header ar0 b))" for b
    using assms(1) unfolding marking_frame_def marks_only_def by blast+
  have "ar_header (grey_cell c ar) b = (ar_header ar0 b)\<lparr>bh_marks := bh_marks (ar_header (grey_cell c ar) b)\<rparr>" for b
    using hdr [of b] by (simp add: grey_cell_header) (metis block_header.update_convs(1) block_header.surjective)
  moreover have "length (bh_marks (ar_header (grey_cell c ar) b)) = length (bh_marks (ar_header ar0 b))" for b
    using len [of b] by (auto simp: grey_cell_header bitmap_set_def)
  ultimately show ?thesis
    using assms unfolding marking_frame_def marks_only_def by (simp add: grey_cell_bytes)
qed

lemma marked_cells_grey:
  assumes "blocks_ok bases ar" and "c \<in> heap_cells bases ar"
  shows "marked_cells bases (grey_cell c ar) = insert c (marked_cells bases ar)"
proof -
  note h = heap_cell [OF assms]
  have len: "candidate_atom_number (block_for c) c div 64 < length (bh_marks (ar_header ar (block_for c)))"
    using h(4) atom_word_in_range [of c] by (simp add: block_ok_def)
  have "is_marked (grey_cell c ar) d \<longleftrightarrow> c = d \<or> is_marked ar d" if "is_atom_aligned d" for d
  proof (cases "block_for d = block_for c")
    case True
    then have "candidate_atom_number (block_for c) c = candidate_atom_number (block_for d) d \<longleftrightarrow> c = d"
      using atom_number_inj [OF h(2) that] by auto
    with True show ?thesis by (simp add: is_marked_def Let_def grey_cell_header bitmap_get_set [OF len])
  next
    case False
    then show ?thesis by (auto simp: is_marked_def Let_def grey_cell_header)
  qed
  then show ?thesis using h by (auto simp: marked_cells_def)
qed

section \<open>The visitor as a marker\<close>

text \<open>
  The state of a collection that began with the memory \<open>ar0\<close> and the counters at zero: the counters
  are those of the marked cells, and the state bytes tell the grey cells from the black ones.
\<close>

definition marking_ok :: "nat list \<Rightarrow> arena \<Rightarrow> marking \<Rightarrow> bool" where
  "marking_ok bases ar0 = (\<lambda>(ar, sv).
     blocks_ok bases ar0 \<and> marking_frame bases ar0 ar \<and>
     marked_cells bases ar \<subseteq> heap_cells bases ar0 \<and>
     sv_visit_count sv = card (marked_cells bases ar) \<and>
     sv_bytes_visited sv = sum (container_cell_size ar0) (marked_cells bases ar) \<and>
     (\<forall>c\<in>heap_cells bases ar0.
        ar_bytes ar (c + 7) =
          (if c \<in> set (sv_collector_stack sv) then cell_state_byte PossiblyGrey
           else if is_marked ar c then cell_state_byte PossiblyBlack
           else ar_bytes ar0 (c + 7))))"

definition child_edges :: "(arena \<Rightarrow> nat \<Rightarrow> nat list) \<Rightarrow> nat list \<Rightarrow> arena \<Rightarrow> nat \<Rightarrow> nat list" where
  "child_edges classes bases ar0 c = filter (\<lambda>d. d \<in> heap_cells bases ar0) (classes ar0 c)"

lemma finite_heap_cells [simp]: "finite (heap_cells bases ar)"
  by (simp add: heap_cells_def)

lemma marked_cells_iff:
  "blocks_ok bases ar0 \<Longrightarrow> c \<in> heap_cells bases ar0 \<Longrightarrow> c \<in> marked_cells bases ar \<longleftrightarrow> is_marked ar c"
  using heap_cell [of bases ar0 c] by (simp add: marked_cells_def)

lemma append_cell_new:
  assumes ok: "marking_ok bases ar0 (ar, sv)" and c: "c \<in> heap_cells bases ar0" "c \<notin> marked_cells bases ar"
  shows "append_cell c (ar, sv) =
           (grey_cell c ar, sv\<lparr>sv_visit_count := sv_visit_count sv + 1,
              sv_bytes_visited := sv_bytes_visited sv + container_cell_size ar0 c,
              sv_collector_stack := c # sv_collector_stack sv\<rparr>)"
    and "marking_ok bases ar0 (append_cell c (ar, sv))"
    and "marked_cells bases (grey_cell c ar) = insert c (marked_cells bases ar)"
proof -
  note f = ok [unfolded marking_ok_def prod.case]
  have bo: "blocks_ok bases ar0" and fr: "marking_frame bases ar0 ar" using f by blast+
  have bo': "blocks_ok bases ar" using bo marking_frame_blocks [OF fr] by simp
  have c': "c \<in> heap_cells bases ar" using c(1) marking_frame_geometry(4) [OF fr] by simp
  have unmarked: "\<not> is_marked ar c" using c marked_cells_iff [OF bo c(1)] by simp
  have fr': "marking_frame bases ar0 (grey_cell c ar)" by (rule marking_frame_grey [OF fr c(1)])
  show app: "append_cell c (ar, sv) =
           (grey_cell c ar, sv\<lparr>sv_visit_count := sv_visit_count sv + 1,
              sv_bytes_visited := sv_bytes_visited sv + container_cell_size ar0 c,
              sv_collector_stack := c # sv_collector_stack sv\<rparr>)"
    using unmarked marking_frame_geometry(3) [OF fr'] by (simp add: append_cell_def append_to_mark_stack_def)
  show m: "marked_cells bases (grey_cell c ar) = insert c (marked_cells bases ar)"
    by (rule marked_cells_grey [OF bo' c'])
  have fin: "finite (marked_cells bases ar)" using f finite_subset [OF _ finite_heap_cells] by blast
  have im: "is_marked (grey_cell c ar) d \<longleftrightarrow> c = d \<or> is_marked ar d" if "d \<in> heap_cells bases ar0" for d
    using marked_cells_iff [OF bo that, of "grey_cell c ar"] marked_cells_iff [OF bo that, of ar] m by auto
  have state: "\<forall>d\<in>heap_cells bases ar0. ar_bytes (grey_cell c ar) (d + 7) =
      (if d \<in> set (c # sv_collector_stack sv) then cell_state_byte PossiblyGrey
       else if is_marked (grey_cell c ar) d then cell_state_byte PossiblyBlack else ar_bytes ar0 (d + 7))"
    using f im by (auto simp: grey_cell_bytes)
  show "marking_ok bases ar0 (append_cell c (ar, sv))"
    unfolding app marking_ok_def prod.case
    using bo fr' f c m fin state by (simp add: add.commute)
qed

interpretation sv: marker "heap_cells bases ar0" "child_edges classes bases ar0" "marking_ok bases ar0"
    "\<lambda>s. marked_cells bases (fst s)" "\<lambda>s. sv_collector_stack (snd s)" append_cell
  for bases ar0 classes
proof
  fix c s assume ok: "marking_ok bases ar0 s"
  then have bo: "blocks_ok bases ar0" and sub: "marked_cells bases (fst s) \<subseteq> heap_cells bases ar0"
    by (auto simp: marking_ok_def split: prod.splits)
  show "marked_cells bases (fst s) \<subseteq> heap_cells bases ar0" by (rule sub)
  {
    assume "c \<in> marked_cells bases (fst s)"
    then have "is_marked (fst s) c" by (simp add: marked_cells_def)
    then show "append_cell c s = s" by (simp add: append_cell_def case_prod_unfold)
  }
  assume c: "c \<in> heap_cells bases ar0" "c \<notin> marked_cells bases (fst s)"
  have ok': "marking_ok bases ar0 (fst s, snd s)" using ok by simp
  note new = append_cell_new [OF ok' c, unfolded prod.collapse]
  show "marking_ok bases ar0 (append_cell c s)" by (rule new(2))
  show "marked_cells bases (fst (append_cell c s)) = insert c (marked_cells bases (fst s))"
    using new(1,3) by simp
  show "mset (sv_collector_stack (snd (append_cell c s))) = add_mset c (mset (sv_collector_stack (snd s)))"
    using new(1) by simp
qed (auto simp: child_edges_def)

lemma tri_marking:
  assumes "marker.tri (child_edges classes bases ar0) (marking_ok bases ar0) (\<lambda>s. marked_cells bases (fst s))
             (\<lambda>s. sv_collector_stack (snd s)) roots s"
  shows "marking_ok bases ar0 s" and "set (sv_collector_stack (snd s)) \<subseteq> marked_cells bases (fst s)"
    and "distinct (sv_collector_stack (snd s))"
  using assms unfolding sv.tri_def by blast+

definition stable_classes :: "(arena \<Rightarrow> nat \<Rightarrow> nat list) \<Rightarrow> nat list \<Rightarrow> arena \<Rightarrow> bool" where
  "stable_classes classes bases ar0 \<longleftrightarrow>
     (\<forall>c\<in>heap_cells bases ar0. set (classes ar0 c) \<subseteq> heap_cells bases ar0 \<and>
        (\<forall>ar. marking_frame bases ar0 ar \<longrightarrow> classes ar c = classes ar0 c))"

lemma child_edges_all:
  assumes "stable_classes classes bases ar0" and "c \<in> heap_cells bases ar0"
  shows "child_edges classes bases ar0 c = classes ar0 c"
proof -
  have "\<forall>d\<in>set (classes ar0 c). d \<in> heap_cells bases ar0" using assms by (auto simp: stable_classes_def)
  then show ?thesis by (simp add: child_edges_def filter_id_conv)
qed

lemma blacken:
  assumes ok: "marking_ok bases ar0 (ar, sv)" and st: "sv_collector_stack sv = c # rest" "c \<notin> set rest"
    and c: "c \<in> heap_cells bases ar0" "is_marked ar c"
  shows "marking_ok bases ar0 (set_cell_state c PossiblyBlack ar, sv\<lparr>sv_collector_stack := rest\<rparr>)"
    and "marked_cells bases (set_cell_state c PossiblyBlack ar) = marked_cells bases ar"
proof -
  note f = ok [unfolded marking_ok_def prod.case]
  have im: "is_marked (set_cell_state c PossiblyBlack ar) = is_marked ar"
    by (rule ext) (simp add: set_cell_state_def is_marked_def)
  then show m: "marked_cells bases (set_cell_state c PossiblyBlack ar) = marked_cells bases ar"
    by (simp add: marked_cells_def)
  have "marking_frame bases ar0 (set_cell_state c PossiblyBlack ar)"
    using f c(1) by (simp add: marking_frame_def marks_only_def set_cell_state_def)
  moreover have "\<forall>d\<in>heap_cells bases ar0. ar_bytes (set_cell_state c PossiblyBlack ar) (d + 7) =
      (if d \<in> set rest then cell_state_byte PossiblyGrey
       else if is_marked ar d then cell_state_byte PossiblyBlack else ar_bytes ar0 (d + 7))"
    using f st c(2) by (auto simp: set_cell_state_def)
  ultimately show "marking_ok bases ar0 (set_cell_state c PossiblyBlack ar, sv\<lparr>sv_collector_stack := rest\<rparr>)"
    using f im m by (simp add: marking_ok_def)
qed

lemma drain_ends:
  assumes stable: "stable_classes classes bases ar0"
    and "marker.tri (child_edges classes bases ar0) (marking_ok bases ar0) (\<lambda>s. marked_cells bases (fst s))
           (\<lambda>s. sv_collector_stack (snd s)) roots s"
  shows "\<exists>s'. drain classes s = Some s' \<and> sv_collector_stack (snd s') = [] \<and>
    marker.tri (child_edges classes bases ar0) (marking_ok bases ar0) (\<lambda>s. marked_cells bases (fst s))
      (\<lambda>s. sv_collector_stack (snd s)) roots s'"
  using assms(2)
proof (induction "card (heap_cells bases ar0 - marker.black (\<lambda>s. marked_cells bases (fst s))
          (\<lambda>s. sv_collector_stack (snd s)) s)" arbitrary: s rule: less_induct)
  case less
  obtain ar sv where s: "s = (ar, sv)" by (cases s)
  note t = tri_marking [OF less.prems]
  show ?case
  proof (cases "sv_collector_stack sv")
    case Nil
    then show ?thesis using less.prems s by (subst drain.simps) simp
  next
    case (Cons c rest)
    have ok: "marking_ok bases ar0 (ar, sv)" using t(1) s by simp
    then have bo: "blocks_ok bases ar0" and sub: "marked_cells bases ar \<subseteq> heap_cells bases ar0"
      by (simp_all add: marking_ok_def)
    have "c \<in> marked_cells bases ar" using t(2) s Cons by simp
    then have c: "c \<in> heap_cells bases ar0" "is_marked ar c" using sub by (auto simp: marked_cells_def)
    have "c \<notin> set rest" using t(3) s Cons by simp
    note bl = blacken [OF ok Cons this c]
    let ?s1 = "(set_cell_state c PossiblyBlack ar, sv\<lparr>sv_collector_stack := rest\<rparr>)"
    have "marking_frame bases ar0 (set_cell_state c PossiblyBlack ar)" using bl(1) by (simp add: marking_ok_def)
    then have "classes (set_cell_state c PossiblyBlack ar) c = child_edges classes bases ar0 c"
      using stable c(1) child_edges_all [OF stable c(1)] by (simp add: stable_classes_def)
    then have visit: "visit_children classes c (ar, sv\<lparr>sv_collector_stack := rest\<rparr>) =
        Some (fold append_cell (child_edges classes bases ar0 c) ?s1)"
      using c(2) by (simp add: visit_children_def Let_def)
    have pop: "mset (sv_collector_stack (snd s)) = add_mset c (mset (sv_collector_stack (snd ?s1)))"
      using s Cons by simp
    have m1: "marked_cells bases (fst ?s1) = marked_cells bases (fst s)" using bl(2) s by simp
    note scan = sv.scan [OF less.prems bl(1) m1 pop]
    show ?thesis
      using less.hyps [OF scan(2) scan(1)] s Cons visit by (subst drain.simps) simp
  qed
qed

definition reachable_cells :: "(arena \<Rightarrow> nat \<Rightarrow> nat list) \<Rightarrow> arena \<Rightarrow> nat list \<Rightarrow> nat set" where
  "reachable_cells classes ar roots = reach (classes ar) (set roots)"

lemma mark_from_roots_tri:
  assumes ok: "blocks_ok bases ar" and unmarked: "list_all (block_has_no_marks ar) bases"
    and roots: "set roots \<subseteq> heap_cells bases ar" and stable: "stable_classes classes bases ar"
  shows "\<exists>m. mark_from_roots classes roots (ar, sv_reset sv) = Some m \<and> sv_collector_stack (snd m) = [] \<and>
    marker.tri (child_edges classes bases ar) (marking_ok bases ar) (\<lambda>s. marked_cells bases (fst s))
      (\<lambda>s. sv_collector_stack (snd s)) (set roots) m"
proof -
  have "\<not> is_marked ar c" if "block_for c \<in> set bases" for c
  proof -
    have "candidate_atom_number (block_for c) c < ATOMS_PER_BLOCK"
      using atom_word_in_range [of c] by (simp add: block_consts)
    then show ?thesis
      using unmarked that by (simp add: list_all_iff block_no_marks_bits is_marked_def Let_def)
  qed
  then have none: "marked_cells bases ar = {}" by (simp add: marked_cells_def)
  have "\<not> is_marked ar c" if "c \<in> heap_cells bases ar" for c
    using none that marked_cells_iff [OF ok that, of ar] by simp
  then have valid: "marking_ok bases ar (ar, sv_reset sv)"
    using ok none by (simp add: marking_ok_def marking_frame_refl sv_reset_def)
  note start = sv.start [OF valid _ _ roots, where classes = classes, unfolded fst_conv snd_conv, OF none]
  show ?thesis
    using drain_ends [OF stable start] by (simp add: mark_from_roots_def append_conservative_roots_eq sv_reset_def)
qed

lemma mark_from_roots_result:
  assumes "blocks_ok bases ar" and "list_all (block_has_no_marks ar) bases"
    and roots: "set roots \<subseteq> heap_cells bases ar" and stable: "stable_classes classes bases ar"
  shows "\<exists>ar' sv'. mark_from_roots classes roots (ar, sv_reset sv) = Some (ar', sv') \<and>
    marked_cells bases ar' = reachable_cells classes ar roots \<and> sv_collector_stack sv' = [] \<and>
    marking_ok bases ar (ar', sv')"
proof -
  obtain ar' sv' where d: "mark_from_roots classes roots (ar, sv_reset sv) = Some (ar', sv')"
    and empty: "sv_collector_stack sv' = []"
    and tri: "marker.tri (child_edges classes bases ar) (marking_ok bases ar) (\<lambda>s. marked_cells bases (fst s))
      (\<lambda>s. sv_collector_stack (snd s)) (set roots) (ar', sv')"
    using mark_from_roots_tri [OF assms, of sv] by auto
  have "marked_cells bases ar' = reach (child_edges classes bases ar) (set roots)"
    using sv.finish [OF tri] empty by simp
  also have "\<dots> = reachable_cells classes ar roots"
    unfolding reachable_cells_def using roots child_edges_all [OF stable] stable
    by (intro reach_cong [of _ "heap_cells bases ar"]) (auto simp: stable_classes_def)
  finally show ?thesis using d empty tri_marking(1) [OF tri] by blast
qed

text \<open>
  C5: Marking from the roots always finishes and marks exactly the cells that are reachable from
  them along the children the method table reports, each scanned once: the counters are the number
  and the bytes of the reachable cells, the state byte of each of them is that of a black cell, the
  stack is empty again, and nothing else in memory changes, neither the bytes of any cell nor the
  geometry and the record of new allocations of any block.  It is assumed that the blocks are well
  formed and their marks cleared, that roots and children are cells, and that the method table does
  not look at mark bits and state bytes.
\<close>

theorem mark_from_roots_marks_reachable:
  assumes "blocks_ok bases ar" and "list_all (block_has_no_marks ar) bases"
    and "set roots \<subseteq> heap_cells bases ar" and "stable_classes classes bases ar"
  shows "\<exists>ar' sv'. mark_from_roots classes roots (ar, sv_reset sv) = Some (ar', sv') \<and>
    (\<forall>c\<in>heap_cells bases ar. is_marked ar' c \<longleftrightarrow> c \<in> reachable_cells classes ar roots) \<and>
    sv_is_empty sv' \<and> sv_visit_count sv' = card (reachable_cells classes ar roots) \<and>
    sv_bytes_visited sv' = sum (container_cell_size ar) (reachable_cells classes ar roots) \<and>
    (\<forall>c\<in>heap_cells bases ar. ar_bytes ar' (c + 7) =
       (if c \<in> reachable_cells classes ar roots then 0 else ar_bytes ar (c + 7))) \<and>
    marking_frame bases ar ar'"
proof -
  obtain ar' sv' where run: "mark_from_roots classes roots (ar, sv_reset sv) = Some (ar', sv')"
    and R: "marked_cells bases ar' = reachable_cells classes ar roots"
    and empty: "sv_collector_stack sv' = []" and ok: "marking_ok bases ar (ar', sv')"
    using mark_from_roots_result [OF assms] by blast
  have im: "is_marked ar' c \<longleftrightarrow> c \<in> reachable_cells classes ar roots" if "c \<in> heap_cells bases ar" for c
    using marked_cells_iff [OF assms(1) that, of ar'] R by simp
  show ?thesis
    using run R empty ok im by (simp add: marking_ok_def sv_is_empty_def)
qed

text \<open>Three cells of a block: the first points to the last, which points back.\<close>

definition demo_classes :: "arena \<Rightarrow> nat \<Rightarrow> nat list" where
  "demo_classes ar c = (if c = 16768 then [17024] else if c = 17024 then [16768, 17024] else [])"

lemma one_block_cell:
  assumes "k < block_cell_count one_block 16384" shows "16384 + (24 + k * 8) * 16 \<in> heap_cells [16384] one_block"
proof -
  have "cell_at one_block 16384 k \<in> heap_cells [16384] one_block"
    using assms by (auto simp: heap_cells_def block_cells_def)
  then show ?thesis
    by (simp add: cell_at_def block_start_atom_def block_atoms_per_cell_def one_block_def ATOM_SIZE_def)
qed

lemma demo_classes_stable: "stable_classes demo_classes [16384] one_block" "16768 \<in> heap_cells [16384] one_block"
proof -
  have n: "block_cell_count one_block 16384 = 125"
    by (simp add: block_cell_count_def block_start_atom_def block_atoms_per_cell_def one_block_def block_consts)
  show "16768 \<in> heap_cells [16384] one_block" using one_block_cell [of 0] n by simp
  moreover have "17024 \<in> heap_cells [16384] one_block" using one_block_cell [of 2] n by simp
  ultimately show "stable_classes demo_classes [16384] one_block"
    by (auto simp: stable_classes_def demo_classes_def)
qed

lemma demo_reachable: "reachable_cells demo_classes one_block [16768] = {16768, 17024}"
proof (rule antisym)
  show "reachable_cells demo_classes one_block [16768] \<subseteq> {16768, 17024}"
    unfolding reachable_cells_def by (rule reach_least) (auto simp: demo_classes_def)
  have root: "16768 \<in> reachable_cells demo_classes one_block [16768]"
    using reach_roots [of "{16768}" "demo_classes one_block"] by (simp add: reachable_cells_def)
  then show "{16768, 17024} \<subseteq> reachable_cells demo_classes one_block [16768]"
    using reach_step [of 16768 "demo_classes one_block" "{16768}" 17024]
    by (simp add: reachable_cells_def demo_classes_def)
qed

theorem mark_from_roots_marks_reachable_witness:
  "\<exists>ar' sv'. mark_from_roots demo_classes [16768] (one_block, sv_reset sv_new) = Some (ar', sv') \<and>
     sv_visit_count sv' = 2 \<and> is_marked ar' 17024"
proof -
  have "blocks_ok [16384] one_block" using one_block_ok by (simp add: blocks_ok_def)
  moreover have "list_all (block_has_no_marks one_block) [16384]"
    by (simp add: block_no_marks_bits) (simp add: one_block_def block_consts)
  ultimately obtain ar' sv' where "mark_from_roots demo_classes [16768] (one_block, sv_reset sv_new) = Some (ar', sv')"
    and "sv_visit_count sv' = 2" and m: "\<forall>c\<in>heap_cells [16384] one_block. is_marked ar' c \<longleftrightarrow> c \<in> {16768, 17024}"
    using mark_from_roots_marks_reachable [of "[16384]" one_block "[16768]" demo_classes sv_new]
      demo_classes_stable demo_reachable by auto
  moreover have "17024 \<in> heap_cells [16384] one_block"
    using demo_classes_stable by (auto simp: stable_classes_def demo_classes_def)
  ultimately show ?thesis by blast
qed

end
