(* ===== verification/Size_Class.thy ===== *)
theory Size_Class
  imports Marked_Block
begin

text \<open>
  The size classes of the collector's heap (\<open>src/src/gc/heap/marked_space.rs\<close>): the list of the cell
  sizes that blocks are made for, the table that maps a request to its class in constant time, and
  the routing of a request to a class or to an allocation of its own.

  The geometric progression of the list is computed in floating point.  It is a parameter here:
  \<open>approx i\<close> is the whole number of bytes the code gets for the power \<open>i\<close>.  What the code relies on is
  \<open>progression_ok\<close>: it begins at the cutoff, as the power 0 of anything is 1, it stays above it and
  exceeds the largest size at some point.  A failed assertion or a division by zero is \<open>None\<close>.
\<close>

section \<open>The model\<close>

definition SIZE_STEP :: nat where "SIZE_STEP = ATOM_SIZE"
definition PRECISE_CUTOFF :: nat where "PRECISE_CUTOFF = 80"
definition PAYLOAD_BYTES :: nat where "PAYLOAD_BYTES = BLOCK_SIZE - HEADER_ATOMS * ATOM_SIZE"
definition PRECISE_ALLOCATION_CUTOFF :: nat where "PRECISE_ALLOCATION_CUTOFF = 100000"
definition BLOCK_PAYLOAD :: nat where "BLOCK_PAYLOAD = PAYLOAD_BYTES"
definition LARGE_CUTOFF :: nat where "LARGE_CUTOFF = BLOCK_PAYLOAD div 2 div SIZE_STEP * SIZE_STEP"
definition NUM_SIZE_CLASSES :: nat where "NUM_SIZE_CLASSES = LARGE_CUTOFF div SIZE_STEP + 1"

lemmas size_consts =
  SIZE_STEP_def PRECISE_CUTOFF_def PAYLOAD_BYTES_def PRECISE_ALLOCATION_CUTOFF_def BLOCK_PAYLOAD_def
  LARGE_CUTOFF_def NUM_SIZE_CLASSES_def block_consts

definition round_up :: "nat \<Rightarrow> nat \<Rightarrow> nat" where
  "round_up x step = (x + step - 1) div step * step"

definition size_class_to_index :: "nat \<Rightarrow> nat" where
  "size_class_to_index bytes = (bytes + SIZE_STEP - 1) div SIZE_STEP"

definition index_to_size_class :: "nat \<Rightarrow> nat" where
  "index_to_size_class index = index * SIZE_STEP"

definition size_class_add :: "nat list \<Rightarrow> nat \<Rightarrow> nat list option" where
  "size_class_add result sz_class =
     (let sz_class = round_up sz_class ATOM_SIZE
      in if sz_class mod SIZE_STEP \<noteq> 0 then None
         else if result = [] \<and> sz_class \<noteq> SIZE_STEP then None
         else Some (result @ [sz_class]))"

function step_classes :: "nat \<Rightarrow> nat list \<Rightarrow> nat list option" where
  "step_classes bytes result =
     (if bytes < PRECISE_CUTOFF
      then case size_class_add result bytes of
             None \<Rightarrow> None
           | Some result \<Rightarrow> step_classes (bytes + SIZE_STEP) result
      else Some result)"
  by pat_completeness auto
termination by (relation "measure (\<lambda>(bytes, _). PRECISE_CUTOFF - bytes)") (auto simp: size_consts)

text \<open>The class that leaves the least room at the end of a block, for an approximate size.\<close>

definition better_class :: "nat \<Rightarrow> nat option" where
  "better_class approximate_size =
     (let sz_class = round_up approximate_size SIZE_STEP;
          cells_per_block = BLOCK_PAYLOAD div sz_class
      in if sz_class = 0 \<or> cells_per_block = 0 then None
         else
           let possibly_better = BLOCK_PAYLOAD div cells_per_block div SIZE_STEP * SIZE_STEP;
               original_wastage = BLOCK_PAYLOAD - cells_per_block * sz_class
           in if possibly_better < sz_class then None
              else let new_wastage = (possibly_better - sz_class) * cells_per_block
                   in Some (if original_wastage < new_wastage then sz_class else possibly_better))"

partial_function (option) geometric_classes ::
  "(nat \<Rightarrow> nat) \<Rightarrow> nat \<Rightarrow> nat list \<Rightarrow> nat list option" where
  "geometric_classes approx i result =
     (if approx i < PRECISE_CUTOFF then None
      else if LARGE_CUTOFF < approx i then Some result
      else case better_class (approx i) of
             None \<Rightarrow> None
           | Some better \<Rightarrow>
               if result = [] then None
               else if better = last result then geometric_classes approx (i + 1) result
               else if LARGE_CUTOFF < better \<or> PRECISE_ALLOCATION_CUTOFF < better then Some result
               else case size_class_add result better of
                      None \<Rightarrow> None
                    | Some result \<Rightarrow> geometric_classes approx (i + 1) result)"

declare geometric_classes.simps [code]

function expect_steps :: "nat list \<Rightarrow> nat \<Rightarrow> nat \<Rightarrow> bool" where
  "expect_steps result expect idx =
     (if expect \<le> PRECISE_CUTOFF
      then idx < length result \<and> result ! idx = expect \<and> expect_steps result (expect + SIZE_STEP) (idx + 1)
      else True)"
  by pat_completeness auto
termination by (relation "measure (\<lambda>(_, expect, _). PRECISE_CUTOFF + 1 - expect)") (auto simp: size_consts)

definition build_size_classes :: "(nat \<Rightarrow> nat) \<Rightarrow> nat list option" where
  "build_size_classes approx =
     do {
       result \<leftarrow> step_classes SIZE_STEP [];
       result \<leftarrow> geometric_classes approx 0 result;
       result \<leftarrow> size_class_add result 256;
       (let result = remdups_adj (sort result)
        in if expect_steps result SIZE_STEP 0 then Some result else None)
     }"

definition fill_slots :: "nat list \<Rightarrow> nat \<Rightarrow> nat \<Rightarrow> (nat \<Rightarrow> nat) \<Rightarrow> nat list" where
  "fill_slots table lo hi f =
     map (\<lambda>(i, slot). if lo \<le> i \<and> i < hi then f i else slot) (enumerate 0 table)"

fun fill_classes :: "nat list \<Rightarrow> nat list \<Rightarrow> nat \<Rightarrow> nat list \<times> nat" where
  "fill_classes table [] next_index = (table, next_index)"
| "fill_classes table (sz_class # size_classes) next_index =
     (let index = size_class_to_index sz_class
      in fill_classes (fill_slots table next_index (index + 1) (\<lambda>_. sz_class)) size_classes (index + 1))"

definition build_size_class_for_size_step :: "nat list \<Rightarrow> nat list" where
  "build_size_class_for_size_step size_classes =
     (let (table, next_index) = fill_classes (replicate NUM_SIZE_CLASSES 0) size_classes 0
      in fill_slots table next_index NUM_SIZE_CLASSES index_to_size_class)"

text \<open>The table is built once, from the classes of the progression.\<close>

definition optimal_size_for :: "nat list \<Rightarrow> nat \<Rightarrow> nat option" where
  "optimal_size_for table bytes =
     (if bytes = 0 then None
      else if bytes \<le> PRECISE_CUTOFF then Some (round_up bytes SIZE_STEP)
      else if bytes \<le> LARGE_CUTOFF then vec_get table (size_class_to_index bytes)
      else Some bytes)"

datatype size_route = Marked nat | Precise nat

definition size_route_for :: "nat list \<Rightarrow> nat \<Rightarrow> size_route option" where
  "size_route_for table bytes =
     (case optimal_size_for table bytes of
        None \<Rightarrow> None
      | Some sized \<Rightarrow> Some (if bytes \<le> LARGE_CUTOFF then Marked sized else Precise sized))"

definition progression_ok :: "(nat \<Rightarrow> nat) \<Rightarrow> bool" where
  "progression_ok approx \<longleftrightarrow>
     approx 0 = PRECISE_CUTOFF \<and> (\<forall>i. PRECISE_CUTOFF \<le> approx i) \<and> (\<exists>i. LARGE_CUTOFF < approx i)"

declare step_classes.simps [simp del] expect_steps.simps [simp del]

section \<open>The list of classes\<close>

definition class_ok :: "nat \<Rightarrow> bool" where
  "class_ok c \<longleftrightarrow> 16 dvd c \<and> 0 < c \<and> c \<le> LARGE_CUTOFF"

lemma round_up_16: "x \<le> round_up x 16 \<and> round_up x 16 < x + 16 \<and> 16 dvd round_up x 16"
proof -
  have "(x + 15) div 16 * 16 + (x + 15) mod 16 = x + 15" "(x + 15) mod 16 < 16" by simp_all
  then have "x \<le> (x + 15) div 16 * 16 \<and> (x + 15) div 16 * 16 < x + 16" by linarith
  then show ?thesis by (simp add: round_up_def add.commute)
qed

lemma round_up_dvd: "16 dvd x \<Longrightarrow> round_up x 16 = x"
  by (auto simp: round_up_def elim!: dvdE)

lemma round_up_least: "16 dvd c \<Longrightarrow> round_up x 16 \<le> c \<longleftrightarrow> x \<le> c"
  using round_up_16 [of x] by (auto elim!: dvdE)

lemma better_class_fits:
  assumes "0 < a" and "a \<le> LARGE_CUTOFF"
  shows "\<exists>b. better_class a = Some b \<and> 16 dvd b \<and> a \<le> b"
proof -
  define s where "s = round_up a 16"
  define n where "n = BLOCK_PAYLOAD div s"
  have s: "a \<le> s" "s \<le> LARGE_CUTOFF" "16 dvd s" "0 < s"
    using round_up_16 [of a] round_up_least [of LARGE_CUTOFF a] assms by (auto simp: s_def size_consts)
  have "s \<le> BLOCK_PAYLOAD" using s(2) by (simp add: size_consts)
  then have n: "0 < n" using s(4) by (simp add: n_def div_greater_zero_iff)
  have "s * n \<le> BLOCK_PAYLOAD" by (simp add: n_def)
  then have "s \<le> BLOCK_PAYLOAD div n" using n by (simp add: less_eq_div_iff_mult_less_eq)
  then have "s div 16 * 16 \<le> BLOCK_PAYLOAD div n div 16 * 16" by (intro mult_le_mono1 div_le_mono)
  then have "s \<le> BLOCK_PAYLOAD div n div 16 * 16" using s(3) by simp
  then show ?thesis
    using s n unfolding better_class_def by (simp add: Let_def SIZE_STEP_def ATOM_SIZE_def flip: s_def n_def)
qed

lemma size_class_add_ok: "result \<noteq> [] \<Longrightarrow> 16 dvd c \<Longrightarrow> size_class_add result c = Some (result @ [c])"
  by (simp add: size_class_add_def Let_def round_up_dvd SIZE_STEP_def ATOM_SIZE_def mod_eq_0_iff_dvd)

lemma geometric_classes_end:
  assumes "LARGE_CUTOFF < approx n" and "\<And>j. PRECISE_CUTOFF \<le> approx j"
  shows "i \<le> n \<Longrightarrow> result \<noteq> [] \<Longrightarrow> list_all class_ok result \<Longrightarrow>
    \<exists>r. geometric_classes approx i result = Some r \<and> r \<noteq> [] \<and> list_all class_ok r \<and> set result \<subseteq> set r"
proof (induction "n - i" arbitrary: i result rule: less_induct)
  case less
  note low = assms(2) [of i]
  show ?case
  proof (cases "LARGE_CUTOFF < approx i")
    case True
    then show ?thesis using less.prems low by (subst geometric_classes.simps) simp
  next
    case False
    have "i \<noteq> n" using False assms(1) by auto
    then have i: "i + 1 \<le> n" "n - (i + 1) < n - i" using less.prems(1) by simp_all
    have "0 < approx i" using low by (simp add: PRECISE_CUTOFF_def)
    then obtain b where b: "better_class (approx i) = Some b" "16 dvd b" "0 < b"
      using better_class_fits [of "approx i"] False by auto
    note add = size_class_add_ok [OF less.prems(2) b(2)]
    note step = geometric_classes.simps [of approx i result]
    consider "b = last result" | "b \<noteq> last result" "LARGE_CUTOFF < b \<or> PRECISE_ALLOCATION_CUTOFF < b"
      | "b \<noteq> last result" "\<not> (LARGE_CUTOFF < b \<or> PRECISE_ALLOCATION_CUTOFF < b)" by blast
    then show ?thesis
    proof cases
      case 1
      then show ?thesis using less.hyps [OF i(2,1) less.prems(2,3)] step b(1) False low less.prems(2) by simp
    next
      case 2
      then show ?thesis using step b(1) False low less.prems by simp
    next
      case 3
      have "list_all class_ok (result @ [b])" using less.prems(3) b 3 by (simp add: class_ok_def)
      from less.hyps [OF i(2,1) _ this] obtain r where
        "geometric_classes approx (i + 1) (result @ [b]) = Some r" "r \<noteq> []" "list_all class_ok r"
        "set (result @ [b]) \<subseteq> set r" by auto
      then show ?thesis using step b(1) False low less.prems(2) add 3 by simp
    qed
  qed
qed

lemma step_classes_eq: "step_classes SIZE_STEP [] = Some [16, 32, 48, 64]"
  by (simp add: step_classes.simps size_class_add_def round_up_def size_consts)

text \<open>A strictly ascending list of multiples of 16 that has the first few of them begins with them.\<close>

lemma first_multiple:
  fixes m :: nat
  assumes "sorted_wrt (<) xs" and "\<forall>x\<in>set xs. 16 dvd x \<and> m < x" and "16 dvd m" and "m + 16 \<in> set xs"
  shows "\<exists>ys. xs = (m + 16) # ys \<and> sorted_wrt (<) ys \<and> (\<forall>y\<in>set ys. 16 dvd y \<and> m + 16 < y)"
proof -
  obtain x ys where xs: "xs = x # ys" using assms(4) by (cases xs) auto
  have "m + 16 \<le> x" using assms(2,3) xs by (auto elim!: dvdE)
  moreover have "x \<le> m + 16" using assms(1,4) xs by auto
  ultimately show ?thesis using assms(1,2) xs by auto
qed

lemma first_classes:
  fixes xs :: "nat list"
  assumes "sorted_wrt (<) xs" and "\<forall>x\<in>set xs. 16 dvd x \<and> 0 < x" and "{16, 32, 48, 64, 80} \<subseteq> set xs"
  shows "\<exists>ys. xs = 16 # 32 # 48 # 64 # 80 # ys"
proof -
  obtain y1 where 1: "xs = 16 # y1" "sorted_wrt (<) y1" "\<forall>y\<in>set y1. 16 dvd y \<and> 16 < y"
    using first_multiple [of xs 0] assms by auto
  obtain y2 where 2: "y1 = 32 # y2" "sorted_wrt (<) y2" "\<forall>y\<in>set y2. 16 dvd y \<and> 32 < y"
    using first_multiple [of y1 16] 1 assms(3) by auto
  obtain y3 where 3: "y2 = 48 # y3" "sorted_wrt (<) y3" "\<forall>y\<in>set y3. 16 dvd y \<and> 48 < y"
    using first_multiple [of y2 32] 1 2 assms(3) by auto
  obtain y4 where 4: "y3 = 64 # y4" "sorted_wrt (<) y4" "\<forall>y\<in>set y4. 16 dvd y \<and> 64 < y"
    using first_multiple [of y3 48] 1 2 3 assms(3) by auto
  obtain y5 where 5: "y4 = 80 # y5" using first_multiple [of y4 64] 1 2 3 4 assms(3) by auto
  show ?thesis using 1(1) 2(1) 3(1) 4(1) 5 by blast
qed

lemma sorted_remdups_adj_strict: "sorted xs \<Longrightarrow> sorted_wrt (<) (remdups_adj (xs :: nat list))"
proof (induction xs rule: remdups_adj.induct)
  case (3 x y xs)
  then show ?case by (cases "x = y") (auto simp: less_le)
qed simp_all

lemma build_size_classes_ok:
  assumes "progression_ok approx"
  shows "\<exists>cs. build_size_classes approx = Some cs \<and> sorted_wrt (<) cs \<and> list_all class_ok cs \<and>
    (\<exists>ys. cs = 16 # 32 # 48 # 64 # 80 # ys)"
proof -
  note p = assms [unfolded progression_ok_def]
  obtain n where n: "LARGE_CUTOFF < approx n" using p by blast
  have n1: "1 \<le> n" using n p by (cases n) (auto simp: size_consts)
  have b80: "better_class 80 = Some 80" by (simp add: better_class_def round_up_def Let_def size_consts)
  have start: "geometric_classes approx 0 [16, 32, 48, 64] = geometric_classes approx 1 [16, 32, 48, 64, 80]"
    using p by (subst geometric_classes.simps) (simp add: PRECISE_CUTOFF_def LARGE_CUTOFF_def
        PRECISE_ALLOCATION_CUTOFF_def BLOCK_PAYLOAD_def PAYLOAD_BYTES_def SIZE_STEP_def block_consts b80 size_class_add_ok)
  have "list_all class_ok [16, 32, 48, 64, 80]" by (simp add: class_ok_def size_consts)
  then obtain r where r: "geometric_classes approx 0 [16, 32, 48, 64] = Some r" "r \<noteq> []" "list_all class_ok r"
    "{16, 32, 48, 64, 80} \<subseteq> set r"
    using geometric_classes_end [of approx n 1 "[16, 32, 48, 64, 80]"] n n1 p start by auto
  have ok256: "class_ok 256" by (simp add: class_ok_def size_consts)
  define cs where "cs = remdups_adj (sort (r @ [256]))"
  have strict: "sorted_wrt (<) cs" unfolding cs_def by (rule sorted_remdups_adj_strict) simp
  have set_cs: "set cs = insert 256 (set r)" by (simp add: cs_def)
  have "\<forall>x\<in>set cs. 16 dvd x \<and> 0 < x" using r(3) set_cs by (auto simp: list_all_iff class_ok_def)
  moreover have "{16, 32, 48, 64, 80} \<subseteq> set cs" using r(4) set_cs by auto
  ultimately obtain ys where ys: "cs = 16 # 32 # 48 # 64 # 80 # ys" using first_classes [OF strict] by blast
  then have "expect_steps cs SIZE_STEP 0"
    by (simp add: expect_steps.simps SIZE_STEP_def ATOM_SIZE_def PRECISE_CUTOFF_def)
  moreover have "size_class_add r 256 = Some (r @ [256])" using r(2) by (rule size_class_add_ok) simp
  ultimately have "build_size_classes approx = Some cs"
    using r(1) by (simp add: build_size_classes_def step_classes_eq Let_def flip: cs_def)
  then show ?thesis using strict ys set_cs r(3) ok256 by (auto simp: list_all_iff)
qed

section \<open>The table\<close>

definition class_for :: "nat list \<Rightarrow> nat \<Rightarrow> nat" where
  "class_for cs bytes = (case find (\<lambda>c. bytes \<le> c) cs of Some c \<Rightarrow> c | None \<Rightarrow> round_up bytes SIZE_STEP)"

lemma length_fill_slots [simp]: "length (fill_slots table lo hi f) = length table"
  by (simp add: fill_slots_def)

lemma nth_fill_slots:
  "k < length table \<Longrightarrow> fill_slots table lo hi f ! k = (if lo \<le> k \<and> k < hi then f k else table ! k)"
  by (simp add: fill_slots_def nth_enumerate_eq)

lemma size_class_to_index_dvd: "16 dvd c \<Longrightarrow> size_class_to_index c = c div 16"
  by (auto simp: size_class_to_index_def SIZE_STEP_def ATOM_SIZE_def elim!: dvdE)

lemma fill_classes_nth:
  assumes "sorted_wrt (<) cs" and "\<forall>c\<in>set cs. 16 dvd c \<and> 16 * n \<le> c"
    and "fill_classes table cs n = (table', n')"
  shows "length table' = length table \<and> n' = (if cs = [] then n else last cs div 16 + 1) \<and>
    (\<forall>k < length table. table' ! k =
       (if k < n then table ! k else case find (\<lambda>c. 16 * k \<le> c) cs of Some c \<Rightarrow> c | None \<Rightarrow> table ! k))"
  using assms
proof (induction cs arbitrary: table n)
  case (Cons c cs)
  have i: "size_class_to_index c = c div 16" and c: "16 dvd c" "16 * n \<le> c"
    using Cons.prems(2) by (simp_all add: size_class_to_index_dvd)
  let ?t = "fill_slots table n (c div 16 + 1) (\<lambda>_. c)"
  have run: "fill_classes ?t cs (c div 16 + 1) = (table', n')" using Cons.prems(3) i by (simp add: Let_def)
  have "\<forall>d\<in>set cs. 16 dvd d \<and> 16 * (c div 16 + 1) \<le> d"
  proof
    fix d assume "d \<in> set cs"
    then have "16 dvd d" "c < d" using Cons.prems(1,2) by auto
    then show "16 dvd d \<and> 16 * (c div 16 + 1) \<le> d" using c(1) by (auto elim!: dvdE)
  qed
  note IH = Cons.IH [OF _ this run]
  have k: "16 * k \<le> c \<longleftrightarrow> k < c div 16 + 1" for k using c(1) by (auto elim!: dvdE)
  have n: "n < c div 16 + 1" using c by (auto elim!: dvdE)
  show ?case
    using IH Cons.prems(1) n by (auto simp: nth_fill_slots k split: option.split)
qed simp

lemma size_table_nth:
  assumes "sorted_wrt (<) cs" and "list_all class_ok cs" and "cs \<noteq> []" and "k < NUM_SIZE_CLASSES"
  shows "length (build_size_class_for_size_step cs) = NUM_SIZE_CLASSES"
    and "build_size_class_for_size_step cs ! k =
      (case find (\<lambda>c. 16 * k \<le> c) cs of Some c \<Rightarrow> c | None \<Rightarrow> 16 * k)"
proof -
  obtain t n where run: "fill_classes (replicate NUM_SIZE_CLASSES 0) cs 0 = (t, n)"
    by (cases "fill_classes (replicate NUM_SIZE_CLASSES 0) cs 0")
  have "\<forall>c\<in>set cs. 16 dvd c \<and> 16 * 0 \<le> c" using assms(2) by (auto simp: list_all_iff class_ok_def)
  from fill_classes_nth [OF assms(1) this run]
  have len: "length t = NUM_SIZE_CLASSES" and n: "n = last cs div 16 + 1"
    and tk: "t ! k = (case find (\<lambda>c. 16 * k \<le> c) cs of Some c \<Rightarrow> c | None \<Rightarrow> 0)"
    using assms(3,4) by (simp_all split: option.split)
  then show "length (build_size_class_for_size_step cs) = NUM_SIZE_CLASSES"
    using run by (simp add: build_size_class_for_size_step_def)
  have in_cs: "last cs \<in> set cs" using assms(3) by simp
  have dv: "16 dvd last cs" using in_cs assms(2) by (auto simp: list_all_iff class_ok_def)
  have le_last: "c \<le> last cs" if "c \<in> set cs" for c
  proof -
    have "sorted_wrt (<) (butlast cs @ [last cs])" "c \<in> set (butlast cs @ [last cs])" using assms(1,3) that by simp_all
    then show ?thesis unfolding sorted_wrt_append by auto
  qed
  have "find (\<lambda>c. 16 * k \<le> c) cs = None \<longleftrightarrow> n \<le> k"
  proof -
    have "find (\<lambda>c. 16 * k \<le> c) cs = None \<longleftrightarrow> \<not> 16 * k \<le> last cs"
      using le_last in_cs by (auto simp: find_None_iff intro: order_trans)
    then show ?thesis using dv n by (auto elim!: dvdE)
  qed
  then show "build_size_class_for_size_step cs ! k =
      (case find (\<lambda>c. 16 * k \<le> c) cs of Some c \<Rightarrow> c | None \<Rightarrow> 16 * k)"
    using run len tk assms(4)
    by (auto simp: build_size_class_for_size_step_def nth_fill_slots index_to_size_class_def SIZE_STEP_def
        ATOM_SIZE_def split: option.splits)
qed

lemma index_bounds:
  "16 dvd c \<Longrightarrow> 16 * size_class_to_index bytes \<le> c \<longleftrightarrow> bytes \<le> c"
  "16 * size_class_to_index bytes = round_up bytes 16"
  by (auto simp: size_class_to_index_def round_up_def SIZE_STEP_def ATOM_SIZE_def elim!: dvdE)

text \<open>What routing gives for a request that fits a block.\<close>

lemma size_route_class:
  assumes "sorted_wrt (<) cs" and "list_all class_ok cs" and "cs = 16 # 32 # 48 # 64 # 80 # ys"
    and "0 < bytes" and "bytes \<le> LARGE_CUTOFF"
  shows "size_route_for (build_size_class_for_size_step cs) bytes = Some (Marked (class_for cs bytes))"
proof -
  let ?k = "size_class_to_index bytes"
  have k: "?k < NUM_SIZE_CLASSES"
    using assms(5) by (simp add: size_class_to_index_def size_consts)
  have dv: "16 dvd c" if "c \<in> set cs" for c using that assms(2) by (auto simp: list_all_iff class_ok_def)
  have f: "find (\<lambda>c. 16 * ?k \<le> c) cs = find (\<lambda>c. bytes \<le> c) cs"
    using dv by (intro find_cong) (simp_all add: index_bounds(1))
  note table = size_table_nth [OF assms(1,2) _ k]
  have big: "vec_get (build_size_class_for_size_step cs) ?k = Some (class_for cs bytes)"
    using table assms(3) k f by (simp add: vec_get_def class_for_def index_bounds(2) SIZE_STEP_def ATOM_SIZE_def
        split: option.split)
  have small: "round_up bytes SIZE_STEP = class_for cs bytes" if "bytes \<le> PRECISE_CUTOFF"
    using that assms(4) unfolding class_for_def assms(3) PRECISE_CUTOFF_def SIZE_STEP_def ATOM_SIZE_def round_up_def
    by (auto; presburger)
  show ?thesis
    using assms(4,5) big small by (simp add: size_route_for_def optimal_size_for_def)
qed

lemma class_for_fits:
  assumes "list_all class_ok cs" and "0 < bytes" and "bytes \<le> LARGE_CUTOFF"
  shows "bytes \<le> class_for cs bytes" and "class_ok (class_for cs bytes)"
proof -
  have "bytes \<le> class_for cs bytes \<and> class_ok (class_for cs bytes)"
  proof (cases "find (\<lambda>c. bytes \<le> c) cs")
    case None
    then show ?thesis
      using round_up_16 [of bytes] round_up_least [of LARGE_CUTOFF bytes] assms(2,3)
      by (auto simp: class_for_def class_ok_def size_consts)
  next
    case (Some c)
    then have "bytes \<le> c" "c \<in> set cs" by (auto simp: find_Some_iff)
    then show ?thesis using Some assms(1) by (simp add: class_for_def list_all_iff)
  qed
  then show "bytes \<le> class_for cs bytes" "class_ok (class_for cs bytes)" by simp_all
qed

text \<open>
  C31: For every progression the table is built, and a request of up to half a block is routed to the
  least size class that holds it, or to the next multiple of 16 above the last class; the class is a
  multiple of 16 of at most half a block, so that a block always has room for two.  Larger requests
  get an allocation of their own and a request of no bytes is refused.
\<close>

theorem size_route_least_class:
  assumes "progression_ok approx"
  shows "\<exists>cs. build_size_classes approx = Some cs \<and> sorted_wrt (<) cs \<and>
    (\<forall>bytes. 0 < bytes \<and> bytes \<le> LARGE_CUTOFF \<longrightarrow>
       size_route_for (build_size_class_for_size_step cs) bytes = Some (Marked (class_for cs bytes)) \<and>
       bytes \<le> class_for cs bytes \<and> class_ok (class_for cs bytes) \<and> 2 * class_for cs bytes \<le> BLOCK_PAYLOAD) \<and>
    (\<forall>bytes. LARGE_CUTOFF < bytes \<longrightarrow>
       size_route_for (build_size_class_for_size_step cs) bytes = Some (Precise bytes)) \<and>
    size_route_for (build_size_class_for_size_step cs) 0 = None"
proof -
  obtain cs where cs: "build_size_classes approx = Some cs" "sorted_wrt (<) cs" "list_all class_ok cs"
    and "\<exists>ys. cs = 16 # 32 # 48 # 64 # 80 # ys" using build_size_classes_ok [OF assms] by blast
  then obtain ys where ys: "cs = 16 # 32 # 48 # 64 # 80 # ys" by blast
  have "2 * c \<le> BLOCK_PAYLOAD" if "class_ok c" for c using that by (simp add: class_ok_def size_consts)
  moreover have "size_route_for (build_size_class_for_size_step cs) bytes = Some (Precise bytes)"
    if "LARGE_CUTOFF < bytes" for bytes
    using that by (simp add: size_route_for_def optimal_size_for_def size_consts)
  moreover have "size_route_for (build_size_class_for_size_step cs) 0 = None"
    by (simp add: size_route_for_def optimal_size_for_def)
  ultimately show ?thesis
    using cs size_route_class [OF cs(2,3) ys] class_for_fits [OF cs(3)] by blast
qed

definition demo_progression :: "nat \<Rightarrow> nat" where
  "demo_progression i = 80 * 7 ^ i div 5 ^ i"

lemma demo_progression_ok: "progression_ok demo_progression"
proof -
  have "80 \<le> demo_progression i" for i
  proof -
    have "80 * 5 ^ i div 5 ^ i \<le> 80 * 7 ^ i div (5 :: nat) ^ i"
      by (intro div_le_mono mult_le_mono2 power_mono) simp_all
    then show ?thesis by (simp add: demo_progression_def)
  qed
  moreover have "LARGE_CUTOFF < demo_progression 14" by (simp add: demo_progression_def size_consts)
  moreover have "demo_progression 0 = 80" by (simp add: demo_progression_def)
  ultimately show ?thesis unfolding progression_ok_def PRECISE_CUTOFF_def by blast
qed

theorem size_route_least_class_witness:
  "\<exists>cs. build_size_classes demo_progression = Some cs \<and>
     size_route_for (build_size_class_for_size_step cs) 100 = Some (Marked (class_for cs 100))"
proof -
  have "(0::nat) < 100 \<and> 100 \<le> LARGE_CUTOFF" by (simp add: size_consts)
  then show ?thesis using size_route_least_class [OF demo_progression_ok] by blast
qed

end
