(* ===== verification/Marked_Space.thy ===== *)
theory Marked_Space
  imports Slot_Visitor Size_Class "HOL-Library.AList"
begin

text \<open>
  The collector's heap (\<open>src/src/gc/heap/marked_space.rs\<close> with \<open>precise_allocation.rs\<close>): a directory
  for every size class in use, the allocations that are too large for a block, the set of the blocks
  with its filter, and the gates that decide whether an arbitrary word is the address of a cell.

  The hash maps and sets of the code are lists without duplicates; the order in which the code
  iterates over them is unspecified, and here it is the order of the list.  The parameters of the
  operations are the size-class table, the address that the operating system answers to a request
  for memory (0 when there is none) and the effects of \<open>madvise\<close>.  Failed assertions are \<open>None\<close>; the
  flag of the debug build that forbids allocation between marking and shrinking is part of the state.
\<close>

unbundle bit_operations_syntax

section \<open>The set of blocks\<close>

definition bloom_add :: "nat \<Rightarrow> nat \<Rightarrow> nat" where
  "bloom_add bits filter_bits = filter_bits OR bits"

definition bloom_rule_out :: "nat \<Rightarrow> nat \<Rightarrow> bool" where
  "bloom_rule_out bits filter_bits \<longleftrightarrow> bits = 0 \<or> bits AND filter_bits \<noteq> bits"

record marked_block_set =
  mbs_set :: "nat list"
  mbs_filter :: nat

definition mbs_new :: marked_block_set where
  "mbs_new = \<lparr>mbs_set = [], mbs_filter = 0\<rparr>"

definition mbs_add :: "nat \<Rightarrow> marked_block_set \<Rightarrow> marked_block_set" where
  "mbs_add block s =
     s\<lparr>mbs_filter := bloom_add block (mbs_filter s), mbs_set := List.insert block (mbs_set s)\<rparr>"

definition recompute_filter :: "marked_block_set \<Rightarrow> marked_block_set" where
  "recompute_filter s = s\<lparr>mbs_filter := fold bloom_add (mbs_set s) 0\<rparr>"

definition mbs_remove :: "nat \<Rightarrow> marked_block_set \<Rightarrow> marked_block_set" where
  "mbs_remove block s = recompute_filter (s\<lparr>mbs_set := removeAll block (mbs_set s)\<rparr>)"

definition mbs_rule_out :: "marked_block_set \<Rightarrow> nat \<Rightarrow> bool" where
  "mbs_rule_out s candidate \<longleftrightarrow> bloom_rule_out candidate (mbs_filter s)"

definition mbs_contains :: "marked_block_set \<Rightarrow> nat \<Rightarrow> bool" where
  "mbs_contains s candidate \<longleftrightarrow> candidate \<in> set (mbs_set s)"

section \<open>Large allocations\<close>

definition HALF_ALIGNMENT :: nat where "HALF_ALIGNMENT = ATOM_SIZE div 2"
definition CELL_BYTES :: nat where "CELL_BYTES = 80"

text \<open>The owned memory is the list of its base addresses and sizes.\<close>

type_synonym precise_space = "(nat \<times> nat) list"

text \<open>
  A request for zeroed memory: a size that no layout admits and a null answer are \<open>None\<close>.  The cell
  follows a header of eight bytes whose first byte is the mark.
\<close>

definition alloc_zeroed_bytes :: "nat \<Rightarrow> nat \<Rightarrow> arena \<Rightarrow> arena option" where
  "alloc_zeroed_bytes os_base total_bytes ar =
     (if 2 ^ 63 - ATOM_SIZE < total_bytes \<or> os_base = 0 then None
      else Some (ar\<lparr>ar_bytes := (\<lambda>x. if os_base \<le> x \<and> x < os_base + total_bytes then 0 else ar_bytes ar x)\<rparr>))"

definition precise_allocate ::
  "nat \<Rightarrow> nat \<Rightarrow> u8 list \<Rightarrow> arena \<Rightarrow> precise_space \<Rightarrow> (nat \<times> arena \<times> precise_space) option" where
  "precise_allocate os_base cell_bytes init ar ps =
     (let total_bytes = HALF_ALIGNMENT + cell_bytes
      in do {
        ar1 \<leftarrow> alloc_zeroed_bytes os_base total_bytes ar;
        (let cell_addr = os_base + HALF_ALIGNMENT
         in if cell_addr div 8 mod 2 = 0 then None
            else Some (cell_addr, write_bytes cell_addr init ar1, ps @ [(os_base, total_bytes)]))
      })"

definition precise_allocate_blob ::
  "nat \<Rightarrow> nat \<Rightarrow> u8 list \<Rightarrow> arena \<Rightarrow> precise_space \<Rightarrow> (nat \<times> arena \<times> precise_space) option" where
  "precise_allocate_blob os_base cell_bytes src ar ps =
     (if cell_bytes < length src then None
      else let total_bytes = HALF_ALIGNMENT + cell_bytes
           in do {
             ar1 \<leftarrow> alloc_zeroed_bytes os_base total_bytes ar;
             (let cell_addr = os_base + HALF_ALIGNMENT
              in Some (cell_addr, write_bytes cell_addr src ar1, ps @ [(os_base, total_bytes)]))
           })"

definition precise_header :: "nat \<Rightarrow> nat" where
  "precise_header cell_addr = cell_addr div ATOM_SIZE * ATOM_SIZE"

definition precise_mark :: "nat \<Rightarrow> arena \<Rightarrow> bool \<times> arena" where
  "precise_mark cell_addr ar =
     (let hp = precise_header cell_addr
      in (ar_bytes ar hp = 0, ar\<lparr>ar_bytes := (ar_bytes ar)(hp := 1)\<rparr>))"

definition precise_is_marked :: "arena \<Rightarrow> nat \<Rightarrow> bool" where
  "precise_is_marked ar cell_addr \<longleftrightarrow> ar_bytes ar (precise_header cell_addr) \<noteq> 0"

definition precise_clear_mark :: "nat \<Rightarrow> arena \<Rightarrow> arena" where
  "precise_clear_mark cell_addr ar = ar\<lparr>ar_bytes := (ar_bytes ar)(precise_header cell_addr := 0)\<rparr>"

section \<open>The space\<close>

definition BYTES_ALLOCATED_GC_THRESHOLD :: nat where "BYTES_ALLOCATED_GC_THRESHOLD = 4 * 1024 * 1024"
definition MIN_EXTRA_MEMORY_TO_REPORT :: nat where "MIN_EXTRA_MEMORY_TO_REPORT = 256"

record marked_space =
  ms_directories :: "(nat \<times> block_directory) list"
  ms_precise :: precise_space
  ms_blocks :: marked_block_set
  ms_precise_set :: "nat list"
  ms_debug_borrow_flags :: "nat \<rightharpoonup> bool"
  ms_allocated_blob_cells :: nat
  ms_bytes_allocated_this_cycle :: nat
  ms_collection_request_armed :: bool
  ms_no_alloc_until_shrink_completes :: bool

definition ms_new :: marked_space where
  "ms_new = \<lparr>ms_directories = [], ms_precise = [], ms_blocks = mbs_new, ms_precise_set = [],
             ms_debug_borrow_flags = Map.empty, ms_allocated_blob_cells = 0,
             ms_bytes_allocated_this_cycle = 0, ms_collection_request_armed = False,
             ms_no_alloc_until_shrink_completes = False\<rparr>"

definition note_mark_phase_end_for_shrink_guard :: "marked_space \<Rightarrow> marked_space" where
  "note_mark_phase_end_for_shrink_guard ms = ms\<lparr>ms_no_alloc_until_shrink_completes := True\<rparr>"

text \<open>\<open>entry(atoms).or_insert_with\<close>, and the store of the changed directory.\<close>

definition directory_entry :: "nat \<Rightarrow> marked_space \<Rightarrow> block_directory" where
  "directory_entry atoms ms =
     (case map_of (ms_directories ms) atoms of Some d \<Rightarrow> d | None \<Rightarrow> bd_new atoms)"

definition put_directory :: "nat \<Rightarrow> block_directory \<Rightarrow> marked_space \<Rightarrow> marked_space" where
  "put_directory atoms d ms = ms\<lparr>ms_directories := AList.update atoms d (ms_directories ms)\<rparr>"

definition register_block :: "nat option \<Rightarrow> marked_space \<Rightarrow> marked_space" where
  "register_block new_base ms =
     (case new_base of None \<Rightarrow> ms | Some base \<Rightarrow> ms\<lparr>ms_blocks := mbs_add base (ms_blocks ms)\<rparr>)"

definition record_debug_flag :: "nat \<Rightarrow> marked_space \<Rightarrow> marked_space" where
  "record_debug_flag cp ms = ms\<lparr>ms_debug_borrow_flags := (ms_debug_borrow_flags ms)(cp \<mapsto> False)\<rparr>"

definition saturating_add :: "nat \<Rightarrow> nat \<Rightarrow> nat" where
  "saturating_add a b = min (a + b) (2 ^ 64 - 1)"

definition bump_bytes_allocated_this_cycle :: "nat \<Rightarrow> marked_space \<Rightarrow> marked_space" where
  "bump_bytes_allocated_this_cycle bytes ms =
     (let total_bytes = saturating_add (ms_bytes_allocated_this_cycle ms) bytes
      in ms\<lparr>ms_bytes_allocated_this_cycle := total_bytes,
            ms_collection_request_armed :=
              (BYTES_ALLOCATED_GC_THRESHOLD \<le> total_bytes \<or> ms_collection_request_armed ms)\<rparr>)"

definition report_extra_memory_allocated :: "nat \<Rightarrow> marked_space \<Rightarrow> marked_space" where
  "report_extra_memory_allocated bytes ms =
     (if bytes \<le> MIN_EXTRA_MEMORY_TO_REPORT then ms else bump_bytes_allocated_this_cycle bytes ms)"

definition reset_bytes_allocated_this_cycle :: "marked_space \<Rightarrow> marked_space" where
  "reset_bytes_allocated_this_cycle ms =
     ms\<lparr>ms_bytes_allocated_this_cycle := 0, ms_collection_request_armed := False\<rparr>"

definition ms_allocate ::
  "nat list \<Rightarrow> (nat \<Rightarrow> arena \<Rightarrow> arena) \<Rightarrow> nat \<Rightarrow> u8 \<Rightarrow> u64 \<Rightarrow> arena \<Rightarrow> marked_space
     \<Rightarrow> (nat \<times> arena \<times> marked_space) option" where
  "ms_allocate table recommit os_mem js_type payload ar ms =
     (if ms_no_alloc_until_shrink_completes ms then None
      else case size_route_for table CELL_BYTES of
             None \<Rightarrow> None
           | Some (Marked sz) \<Rightarrow>
               (let atoms = sz div ATOM_SIZE
                in do {
                  (cp, new_base, ar1, d1) \<leftarrow>
                    bd_allocate recommit os_mem (cell_new js_type payload) ar (directory_entry atoms ms);
                  Some (cp, ar1, record_debug_flag cp (register_block new_base (put_directory atoms d1 ms)))
                })
           | Some (Precise sz) \<Rightarrow>
               do {
                 (cp, ar1, ps) \<leftarrow> precise_allocate os_mem sz (cell_new js_type payload) ar (ms_precise ms);
                 Some (cp, ar1, record_debug_flag cp
                        (ms\<lparr>ms_precise := ps, ms_precise_set := List.insert cp (ms_precise_set ms)\<rparr>))
               })"

definition ms_allocate_blob ::
  "nat list \<Rightarrow> (nat \<Rightarrow> arena \<Rightarrow> arena) \<Rightarrow> nat \<Rightarrow> u8 list \<Rightarrow> arena \<Rightarrow> marked_space
     \<Rightarrow> (nat \<times> arena \<times> marked_space) option" where
  "ms_allocate_blob table recommit os_mem src ar ms =
     (if ms_no_alloc_until_shrink_completes ms then None
      else
        let ms1 = bump_bytes_allocated_this_cycle (length src)
                    (ms\<lparr>ms_allocated_blob_cells := ms_allocated_blob_cells ms + 1\<rparr>)
        in case size_route_for table (length src) of
             None \<Rightarrow> None
           | Some (Marked sz) \<Rightarrow>
               (let atoms = sz div ATOM_SIZE
                in do {
                  (cp, new_base, ar1, d1) \<leftarrow>
                    bd_allocate_blob recommit os_mem src ar (directory_entry atoms ms1);
                  Some (cp, ar1, register_block new_base (put_directory atoms d1 ms1))
                })
           | Some (Precise sz) \<Rightarrow>
               do {
                 (cp, ar1, ps) \<leftarrow> precise_allocate_blob os_mem sz src ar (ms_precise ms1);
                 Some (cp, ar1, ms1\<lparr>ms_precise := ps, ms_precise_set := List.insert cp (ms_precise_set ms1)\<rparr>)
               })"

definition ms_allocate_precise ::
  "nat \<Rightarrow> u8 \<Rightarrow> u64 \<Rightarrow> arena \<Rightarrow> marked_space \<Rightarrow> (nat \<times> arena \<times> marked_space) option" where
  "ms_allocate_precise os_mem js_type payload ar ms =
     do {
       (cp, ar1, ps) \<leftarrow> precise_allocate os_mem CELL_BYTES (cell_new js_type payload) ar (ms_precise ms);
       Some (cp, ar1, record_debug_flag cp
              (ms\<lparr>ms_precise := ps, ms_precise_set := List.insert cp (ms_precise_set ms)\<rparr>))
     }"

section \<open>The gates\<close>

definition is_precise :: "nat \<Rightarrow> bool" where
  "is_precise addr \<longleftrightarrow> addr AND HALF_ALIGNMENT \<noteq> 0"

definition ms_find :: "arena \<Rightarrow> marked_space \<Rightarrow> nat \<Rightarrow> nat option" where
  "ms_find ar ms addr =
     (if is_precise addr then (if addr \<in> set (ms_precise_set ms) then Some addr else None)
      else
        let candidate = block_for addr
        in if mbs_rule_out (ms_blocks ms) candidate then None
           else if \<not> is_atom_aligned addr then None
           else if \<not> mbs_contains (ms_blocks ms) candidate then None
           else if \<not> is_live_cell ar addr then None
           else Some addr)"

definition is_arena_cell :: "marked_space \<Rightarrow> nat \<Rightarrow> nat option" where
  "is_arena_cell ms addr =
     (if is_precise addr then (if addr \<in> set (ms_precise_set ms) then Some addr else None)
      else
        let candidate = block_for addr
        in if mbs_rule_out (ms_blocks ms) candidate then None
           else if \<not> is_atom_aligned addr then None
           else if \<not> mbs_contains (ms_blocks ms) candidate then None
           else Some addr)"

definition is_arena_cell_start :: "arena \<Rightarrow> marked_space \<Rightarrow> nat \<Rightarrow> nat option" where
  "is_arena_cell_start ar ms addr =
     (case is_arena_cell ms addr of
        None \<Rightarrow> None
      | Some cp \<Rightarrow> if is_precise addr then Some cp else if \<not> is_atom ar addr then None else Some cp)"

section \<open>Collector and mutator access\<close>

definition clear_all_marks :: "marked_space \<Rightarrow> arena \<Rightarrow> arena" where
  "clear_all_marks ms ar =
     fold precise_clear_mark (ms_precise_set ms) (fold clear_marks_block (mbs_set (ms_blocks ms)) ar)"

definition collector_mark :: "nat \<Rightarrow> arena \<Rightarrow> bool \<times> arena" where
  "collector_mark cp ar = (if is_precise cp then precise_mark cp ar else test_and_set_marked cp ar)"

definition collector_is_marked :: "arena \<Rightarrow> nat \<Rightarrow> bool" where
  "collector_is_marked ar cp = (if is_precise cp then precise_is_marked ar cp else is_marked ar cp)"

definition is_addr_marked :: "arena \<Rightarrow> marked_space \<Rightarrow> nat \<Rightarrow> bool" where
  "is_addr_marked ar ms addr =
     (case is_arena_cell ms addr of Some cp \<Rightarrow> collector_is_marked ar cp | None \<Rightarrow> False)"

text \<open>The walk over the cells of a block; with a stride of 0 it would never end.\<close>

function walk_cells :: "nat \<Rightarrow> nat \<Rightarrow> nat \<Rightarrow> nat list option" where
  "walk_cells base atoms_per_cell atom =
     (if atom < END_ATOM
      then if atoms_per_cell = 0 then None
           else case walk_cells base atoms_per_cell (atom + atoms_per_cell) of
                  None \<Rightarrow> None
                | Some cells \<Rightarrow> Some ((base + atom * ATOM_SIZE) # cells)
      else Some [])"
  by pat_completeness auto
termination by (relation "measure (\<lambda>(_, _, atom). END_ATOM - atom)") auto

declare walk_cells.simps [simp del]

fun for_each_object_cell_in :: "arena \<Rightarrow> nat list \<Rightarrow> nat list option" where
  "for_each_object_cell_in ar [] = Some []"
| "for_each_object_cell_in ar (base # bases) = do {
     cells \<leftarrow> walk_cells base (block_atoms_per_cell ar base) (block_start_atom ar base);
     rest \<leftarrow> for_each_object_cell_in ar bases;
     Some (cells @ rest)
   }"

definition for_each_object_cell :: "arena \<Rightarrow> marked_space \<Rightarrow> nat list option" where
  "for_each_object_cell ar ms = for_each_object_cell_in ar (mbs_set (ms_blocks ms))"

fun sweep_directories ::
  "(nat \<times> block_directory) list \<Rightarrow> sweep_result \<Rightarrow> arena
     \<Rightarrow> (sweep_result \<times> arena \<times> (nat \<times> block_directory) list) option" where
  "sweep_directories [] tot ar = Some (tot, ar, [])"
| "sweep_directories ((atoms, d) # dirs) tot ar = do {
     (r, ar1, d1) \<leftarrow> sweep_all_blocks ar d;
     (tot2, ar2, dirs2) \<leftarrow> sweep_directories dirs (add_results tot r) ar1;
     Some (tot2, ar2, (atoms, d1) # dirs2)
   }"

definition sweep_all_object_blocks ::
  "arena \<Rightarrow> marked_space \<Rightarrow> (sweep_result \<times> arena \<times> marked_space) option" where
  "sweep_all_object_blocks ar ms = do {
     (tot, ar1, dirs) \<leftarrow> sweep_directories (ms_directories ms) sweep_result_default ar;
     Some (tot, ar1, ms\<lparr>ms_directories := dirs\<rparr>)
   }"

fun shrink_directories ::
  "(nat \<Rightarrow> arena \<Rightarrow> arena) \<Rightarrow> (nat \<times> block_directory) list \<Rightarrow> arena \<Rightarrow> marked_block_set
     \<Rightarrow> arena \<times> (nat \<times> block_directory) list \<times> marked_block_set" where
  "shrink_directories decommit [] ar blocks = (ar, [], blocks)"
| "shrink_directories decommit ((atoms, d) # dirs) ar blocks =
     (let (newly, ar1, d1) = bd_shrink decommit ar d;
          (ar2, dirs2, blocks2) = shrink_directories decommit dirs ar1 (fold mbs_remove newly blocks)
      in (ar2, (atoms, d1) # dirs2, blocks2))"

definition ms_shrink :: "(nat \<Rightarrow> arena \<Rightarrow> arena) \<Rightarrow> arena \<Rightarrow> marked_space \<Rightarrow> arena \<times> marked_space" where
  "ms_shrink decommit ar ms =
     (let (ar1, dirs, blocks) = shrink_directories decommit (ms_directories ms) ar (ms_blocks ms)
      in (ar1, ms\<lparr>ms_directories := dirs, ms_blocks := blocks, ms_no_alloc_until_shrink_completes := False\<rparr>))"

definition ms_committed_block_bytes :: "marked_space \<Rightarrow> nat" where
  "ms_committed_block_bytes ms = sum_list (map (\<lambda>(_, d). committed_block_bytes d) (ms_directories ms))"

definition ms_reactivated_block_count :: "marked_space \<Rightarrow> nat" where
  "ms_reactivated_block_count ms = sum_list (map (\<lambda>(_, d). bd_reactivated_block_count d) (ms_directories ms))"

text \<open>
  The guard panics when the cell is unknown or borrowed; it borrows the cell for the access, after
  which the flag is free again.
\<close>

definition with_borrow :: "marked_space \<Rightarrow> nat \<Rightarrow> arena \<Rightarrow> arena option" where
  "with_borrow ms cp result =
     (case ms_debug_borrow_flags ms cp of
        None \<Rightarrow> None
      | Some borrowed \<Rightarrow> if borrowed then None else Some result)"

definition mutator_write_field0 :: "marked_space \<Rightarrow> nat \<Rightarrow> u64 \<Rightarrow> arena \<Rightarrow> arena option" where
  "mutator_write_field0 ms cp v ar =
     with_borrow ms cp (ar\<lparr>ar_bytes := write_u64 (cp + 8) v (ar_bytes ar)\<rparr>)"

definition mutator_write_structure_id :: "marked_space \<Rightarrow> nat \<Rightarrow> u32 \<Rightarrow> arena \<Rightarrow> arena option" where
  "mutator_write_structure_id ms cp sid ar =
     with_borrow ms cp (write_bytes cp (map (le_byte (ucast sid)) [0..<4]) ar)"

definition raw_read_field0 :: "arena \<Rightarrow> nat \<Rightarrow> u64" where
  "raw_read_field0 ar cp = read_u64 (ar_bytes ar) (cp + 8)"

definition raw_read_js_type :: "arena \<Rightarrow> nat \<Rightarrow> u8" where
  "raw_read_js_type ar cp = ar_bytes ar (cp + 5)"

definition raw_read_structure_id :: "arena \<Rightarrow> nat \<Rightarrow> u32" where
  "raw_read_structure_id ar cp = ucast (gather_u64 (ar_bytes ar) cp 4)"

definition collector_read :: "arena \<Rightarrow> nat \<Rightarrow> u32 \<times> u8 \<times> u64" where
  "collector_read ar cp = (raw_read_structure_id ar cp, raw_read_js_type ar cp, raw_read_field0 ar cp)"

definition shadow_write :: "nat \<Rightarrow> u8 list \<Rightarrow> arena \<Rightarrow> arena" where
  "shadow_write cp src = write_bytes cp src"

fun shadow_bytes_eq :: "arena \<Rightarrow> nat \<Rightarrow> u8 list \<Rightarrow> bool" where
  "shadow_bytes_eq ar cp [] = True"
| "shadow_bytes_eq ar cp (b # bs) = (if ar_bytes ar cp \<noteq> b then False else shadow_bytes_eq ar (cp + 1) bs)"

section \<open>The invariant of the space\<close>

text \<open>
  Every directory is well formed and has its own pages; the registered blocks are the committed ones
  and pass the filter; the large allocations are disjoint from one another and from the pages.
\<close>

definition dirs_pages :: "(nat \<times> block_directory) list \<Rightarrow> nat set" where
  "dirs_pages dirs = (\<Union>e\<in>set dirs. set (bd_block_base_addr (snd e)))"

definition apart :: "nat \<times> nat \<Rightarrow> nat \<times> nat \<Rightarrow> bool" where
  "apart = (\<lambda>(p, n) (q, m). p + n \<le> q \<or> q + m \<le> p)"

definition filter_ok :: "marked_block_set \<Rightarrow> bool" where
  "filter_ok s \<longleftrightarrow> (\<forall>b\<in>set (mbs_set s). b AND mbs_filter s = b)"

definition dirs_ok :: "arena \<Rightarrow> (nat \<times> block_directory) list \<Rightarrow> bool" where
  "dirs_ok ar dirs \<longleftrightarrow>
     distinct (map fst dirs) \<and>
     (\<forall>e\<in>set dirs. bd_cell_size_atoms (snd e) = fst e \<and> dir_ok ar (snd e)) \<and>
     (\<forall>e\<in>set dirs. \<forall>e'\<in>set dirs. e \<noteq> e' \<longrightarrow>
        set (bd_block_base_addr (snd e)) \<inter> set (bd_block_base_addr (snd e')) = {})"

definition dirs_committed :: "(nat \<times> block_directory) list \<Rightarrow> nat set" where
  "dirs_committed dirs = (\<Union>e\<in>set dirs. set (committed (snd e)))"

definition precise_ok :: "marked_space \<Rightarrow> bool" where
  "precise_ok ms \<longleftrightarrow>
     set (ms_precise_set ms) = (\<lambda>(p, n). p + HALF_ALIGNMENT) ` set (ms_precise ms) \<and>
     (\<forall>(p, n)\<in>set (ms_precise ms). ATOM_SIZE dvd p \<and> 0 < p \<and> HALF_ALIGNMENT \<le> n \<and>
        (\<forall>b\<in>dirs_pages (ms_directories ms). apart (p, n) (b, BLOCK_SIZE))) \<and>
     sorted_wrt apart (ms_precise ms)"

definition space_ok :: "arena \<Rightarrow> marked_space \<Rightarrow> bool" where
  "space_ok ar ms \<longleftrightarrow>
     dirs_ok ar (ms_directories ms) \<and>
     set (mbs_set (ms_blocks ms)) = dirs_committed (ms_directories ms) \<and>
     distinct (mbs_set (ms_blocks ms)) \<and> filter_ok (ms_blocks ms) \<and> precise_ok ms"

lemma dirs_ok_Cons:
  "dirs_ok ar ((k, d) # dirs) \<longleftrightarrow>
     k \<notin> fst ` set dirs \<and> bd_cell_size_atoms d = k \<and> dir_ok ar d \<and> dirs_ok ar dirs \<and>
     (\<forall>e\<in>set dirs. set (bd_block_base_addr d) \<inter> set (bd_block_base_addr (snd e)) = {})"
proof -
  have "e \<noteq> (k, d)" if "k \<notin> fst ` set dirs" "e \<in> set dirs" for e using that by force
  then show ?thesis unfolding dirs_ok_def by (simp add: Int_commute) blast
qed

lemma dirs_committed_Cons [simp]:
  "dirs_committed [] = {}" "dirs_committed ((k, d) # dirs) = set (committed d) \<union> dirs_committed dirs"
  by (simp_all add: dirs_committed_def)

lemma bloom_keeps: "b AND f = b \<Longrightarrow> b AND bloom_add c f = b"
  by (simp add: bloom_add_def bit_eq_iff bit_simps) blast

lemma bloom_adds: "c AND bloom_add c f = c"
  by (auto simp: bloom_add_def bit_eq_iff bit_simps)

lemma bloom_fold: "b \<in> set bs \<or> b AND f = b \<Longrightarrow> b AND fold bloom_add bs f = b"
  by (induction bs arbitrary: f) (auto simp: bloom_keeps bloom_adds)

lemma filter_ok_ops:
  "filter_ok mbs_new" "filter_ok s \<Longrightarrow> filter_ok (mbs_add b s)" "filter_ok (mbs_remove b s)"
  by (auto simp: filter_ok_def mbs_new_def mbs_add_def mbs_remove_def recompute_filter_def bloom_keeps bloom_adds
      intro: bloom_fold)

lemma space_block:
  assumes "dirs_ok ar dirs" and "b \<in> dirs_committed dirs"
  shows "block_ok ar b" and "page_ok b"
  using assms dir_inv_block by (auto simp: dirs_ok_def dirs_committed_def)

lemma space_blocks_ok: "space_ok ar ms \<Longrightarrow> blocks_ok (mbs_set (ms_blocks ms)) ar"
  using space_block(1) by (auto simp: space_ok_def blocks_ok_def list_all_iff)

lemma heap_cell_size:
  assumes "blocks_ok bases ar" and "c \<in> heap_cells bases ar" shows "16 \<le> container_cell_size ar c"
  using heap_cell(4) [OF assms] by (simp add: block_ok_def container_cell_size_def ATOM_SIZE_def)

lemma cells_do_not_overlap:
  assumes ok: "blocks_ok bases ar" and c: "c \<in> heap_cells bases ar" "c' \<in> heap_cells bases ar"
    and x: "c \<le> x" "x < c + container_cell_size ar c" "c' \<le> x" "x < c' + container_cell_size ar c'"
  shows "c = c'"
proof (rule ccontr)
  assume ne: "c \<noteq> c'"
  note h = heap_cell [OF ok c(1)] and h' = heap_cell [OF ok c(2)]
  note bd = block_cells_bounds(1,2) [OF h(4,3)] and bd' = block_cells_bounds(1,2) [OF h'(4,3)]
  show False
  proof (cases "block_for c = block_for c'")
    case True
    then show False
      using block_cells_disjoint [OF h(4,3) _ ne] h'(3) x by (auto simp: container_cell_size_def)
  next
    case False
    have "BLOCK_SIZE dvd block_for c" "BLOCK_SIZE dvd block_for c'" using h(4) h'(4) by (simp_all add: block_ok_def)
    from pages_apart [OF this False] show False
      using bd bd' x by (auto simp: container_cell_size_def)
  qed
qed

section \<open>What the gates admit\<close>

lemma is_precise_iff: "is_precise addr \<longleftrightarrow> odd (addr div 8)"
proof -
  have "bit addr 3 \<longleftrightarrow> addr AND 8 \<noteq> 0" by (simp add: bit_iff_and_push_bit_not_eq_0)
  then show ?thesis by (simp add: is_precise_def HALF_ALIGNMENT_def ATOM_SIZE_def bit_iff_odd)
qed

lemma aligned_not_precise: "is_atom_aligned addr \<Longrightarrow> \<not> is_precise addr"
  by (auto simp: is_precise_iff is_atom_aligned_def ATOM_SIZE_def mod_eq_0_iff_dvd elim!: dvdE)

lemma rule_out_sound:
  assumes "filter_ok s" and "b \<in> set (mbs_set s)" and "0 < b" shows "\<not> mbs_rule_out s b"
  using assms by (auto simp: filter_ok_def mbs_rule_out_def bloom_rule_out_def)

lemma arena_cell_block:
  assumes "space_ok ar ms" and "\<not> is_precise addr"
  shows "is_arena_cell ms addr = (if is_atom_aligned addr \<and> block_for addr \<in> set (mbs_set (ms_blocks ms))
           then Some addr else None)"
proof -
  have "\<not> mbs_rule_out (ms_blocks ms) (block_for addr)" if "block_for addr \<in> set (mbs_set (ms_blocks ms))"
  proof -
    have "block_ok ar (block_for addr)"
      using space_blocks_ok [OF assms(1)] that by (simp add: blocks_ok_def list_all_iff)
    then show ?thesis using assms(1) that by (intro rule_out_sound) (simp_all add: space_ok_def block_ok_def)
  qed
  then show ?thesis using assms(2) by (auto simp: is_arena_cell_def mbs_contains_def Let_def)
qed

lemma find_via_membership:
  "ms_find ar ms addr =
     (case is_arena_cell ms addr of None \<Rightarrow> None
      | Some cp \<Rightarrow> if is_precise addr \<or> is_live_cell ar addr then Some cp else None)"
  by (auto simp: ms_find_def is_arena_cell_def Let_def)

lemma membership_cell:
  assumes "space_ok ar ms" and "\<not> is_precise addr"
  shows "is_arena_cell ms addr = Some addr \<and> is_atom ar addr \<longleftrightarrow> addr \<in> heap_cells (mbs_set (ms_blocks ms)) ar"
proof -
  note ok = space_blocks_ok [OF assms(1)] and m = arena_cell_block [OF assms]
  show ?thesis
  proof
    assume a: "is_arena_cell ms addr = Some addr \<and> is_atom ar addr"
    then have b: "is_atom_aligned addr" "block_for addr \<in> set (mbs_set (ms_blocks ms))"
      using m by (auto split: if_splits)
    then have "block_ok ar (block_for addr)" using ok by (simp add: blocks_ok_def list_all_iff)
    then show "addr \<in> heap_cells (mbs_set (ms_blocks ms)) ar"
      using is_atom_iff [of ar addr] a b heap_cells_iff [OF ok] by blast
  next
    assume "addr \<in> heap_cells (mbs_set (ms_blocks ms)) ar"
    from heap_cell [OF ok this] show "is_arena_cell ms addr = Some addr \<and> is_atom ar addr"
      using is_atom_iff [of ar addr] m by auto
  qed
qed

lemma find_cell:
  assumes "space_ok ar ms" and "\<not> is_precise addr"
  shows "ms_find ar ms addr =
    (if addr \<in> heap_cells (mbs_set (ms_blocks ms)) ar \<and> in_use ar addr then Some addr else None)"
proof -
  have "is_live_cell ar addr \<longleftrightarrow> is_atom ar addr \<and> in_use ar addr"
    by (auto simp: is_live_cell_def in_use_def)
  then show ?thesis
    using membership_cell [OF assms] arena_cell_block [OF assms] assms(2)
    by (auto simp: find_via_membership split: if_splits)
qed

text \<open>
  C30: Whatever word is asked about, the gates answer with the word itself or refuse it, and they are
  exact: the conservative gate admits the starts of cells of registered blocks, in use or not, and
  the live large cells; the liveness gate admits those of them that are in use; the membership gate
  of the precise roots admits any aligned word of a registered block.  The filter never refuses a
  registered block.
\<close>

theorem gates_are_exact:
  assumes "space_ok ar ms"
  shows "(is_arena_cell_start ar ms addr = Some a \<longleftrightarrow> a = addr \<and>
      (if is_precise addr then addr \<in> set (ms_precise_set ms)
       else addr \<in> heap_cells (mbs_set (ms_blocks ms)) ar)) \<and>
    (ms_find ar ms addr = Some a \<longleftrightarrow> a = addr \<and>
      (if is_precise addr then addr \<in> set (ms_precise_set ms)
       else addr \<in> heap_cells (mbs_set (ms_blocks ms)) ar \<and> in_use ar addr)) \<and>
    (is_arena_cell ms addr = Some a \<longleftrightarrow> a = addr \<and>
      (if is_precise addr then addr \<in> set (ms_precise_set ms)
       else is_atom_aligned addr \<and> block_for addr \<in> set (mbs_set (ms_blocks ms))))"
proof (cases "is_precise addr")
  case True
  then show ?thesis by (auto simp: is_arena_cell_start_def ms_find_def is_arena_cell_def)
next
  case False
  then show ?thesis
    using membership_cell [OF assms False] find_cell [OF assms False] arena_cell_block [OF assms False]
    by (auto simp: is_arena_cell_start_def split: if_splits)
qed

lemma walk_cells_block:
  assumes "block_ok ar b"
  shows "walk_cells b (block_atoms_per_cell ar b) (block_start_atom ar b) = Some (block_cells ar b)"
proof -
  let ?a = "block_atoms_per_cell ar b" and ?s = "block_start_atom ar b" and ?n = "block_cell_count ar b"
  have tile: "?s + ?n * ?a = END_ATOM" and pos: "0 < ?a"
    using assms by (auto simp: block_cell_count_def block_ok_def)
  have "k \<le> ?n \<Longrightarrow> walk_cells b ?a (?s + k * ?a) = Some (map (cell_at ar b) [k..<?n])" for k
  proof (induction "?n - k" arbitrary: k)
    case 0
    then show ?case using tile by (simp add: walk_cells.simps [of _ _ END_ATOM])
  next
    case (Suc m)
    then have k: "k < ?n" by simp
    have "k * ?a < ?n * ?a" using k pos by simp
    then have lt: "?s + k * ?a < END_ATOM" using tile by linarith
    have "walk_cells b ?a (?s + Suc k * ?a) = Some (map (cell_at ar b) [Suc k..<?n])"
      using Suc.hyps(1) [of "Suc k"] Suc.hyps(2) k by simp
    then have "walk_cells b ?a (?s + k * ?a + ?a) = Some (map (cell_at ar b) [Suc k..<?n])"
      by (simp add: add.assoc add.commute [of ?a])
    then show ?case
      using lt pos k by (subst walk_cells.simps) (simp add: upt_conv_Cons cell_at_def)
  qed
  from this [of 0] show ?thesis by (simp add: block_cells_def)
qed

lemma all_cells:
  assumes "space_ok ar ms"
  shows "\<exists>cells. for_each_object_cell ar ms = Some cells \<and> distinct cells \<and>
    set cells = heap_cells (mbs_set (ms_blocks ms)) ar"
proof -
  let ?B = "mbs_set (ms_blocks ms)"
  have ok: "\<forall>b\<in>set ?B. block_ok ar b" using space_blocks_ok [OF assms] by (simp add: blocks_ok_def list_all_iff)
  have "for_each_object_cell_in ar bs = Some (concat (map (block_cells ar) bs))" if "set bs \<subseteq> set ?B" for bs
    using that ok by (induction bs) (simp_all add: walk_cells_block)
  moreover have "distinct (concat (map (block_cells ar) ?B))"
    using assms ok by (intro distinct_block_lists) (auto simp: space_ok_def)
  ultimately show ?thesis by (auto simp: for_each_object_cell_def heap_cells_def)
qed

text \<open>
  C32: The walk over all cells ends and visits the cells of the registered blocks, every one exactly
  once.
\<close>

theorem cell_walk_complete:
  assumes "space_ok ar ms"
  shows "\<exists>cells. for_each_object_cell ar ms = Some cells \<and> distinct cells \<and>
    set cells = heap_cells (mbs_set (ms_blocks ms)) ar"
  by (rule all_cells [OF assms])

section \<open>A space with a block and a large allocation\<close>

definition demo_space :: marked_space where
  "demo_space = ms_new\<lparr>
     ms_directories := [(8, (bd_new 8)\<lparr>bd_pages := [16384], bd_block_base_addr := [16384], bd_decommitted := [False]\<rparr>)],
     ms_precise := [(65536, 88)], ms_precise_set := [65544],
     ms_blocks := mbs_add 16384 mbs_new\<rparr>"

lemma demo_space_parts:
  "mbs_set (ms_blocks demo_space) = [16384]" "ms_precise_set demo_space = [65544]"
  by (simp_all add: demo_space_def mbs_add_def mbs_new_def ms_new_def)

lemma demo_space_ok: "space_ok one_block demo_space"
proof -
  let ?d = "(bd_new 8)\<lparr>bd_pages := [16384], bd_block_base_addr := [16384], bd_decommitted := [False]\<rparr>"
  have "dir_ok one_block ?d"
    using one_block_ok
    by (simp add: dir_ok_def bd_new_def committed_def fl_new_def page_ok_def block_fits_def block_consts
        block_atoms_per_cell_def block_start_atom_def one_block_def start_atom_for_def Let_def)
  then have "dirs_ok one_block (ms_directories demo_space)"
    by (simp add: dirs_ok_def demo_space_def ms_new_def bd_new_def)
  moreover have "precise_ok demo_space"
    by (simp add: precise_ok_def demo_space_def ms_new_def HALF_ALIGNMENT_def ATOM_SIZE_def dirs_pages_def
        apart_def BLOCK_SIZE_def)
  moreover have "filter_ok (ms_blocks demo_space)"
    by (simp add: demo_space_def filter_ok_ops)
  ultimately show ?thesis
    by (simp add: space_ok_def demo_space_parts dirs_committed_def)
      (simp add: demo_space_def ms_new_def committed_def)
qed

lemma demo_cells: "c \<in> {16768, 16896, 17024, 17152} \<Longrightarrow> c \<in> heap_cells [16384] one_block"
proof -
  have "block_cell_count one_block 16384 = 125"
    by (simp add: block_cell_count_def block_start_atom_def block_atoms_per_cell_def one_block_def block_consts)
  then show "c \<in> {16768, 16896, 17024, 17152} \<Longrightarrow> c \<in> heap_cells [16384] one_block"
    using one_block_cell [of 0] one_block_cell [of 1] one_block_cell [of 2] one_block_cell [of 3] by auto
qed

theorem gates_are_exact_witness:
  "is_arena_cell_start one_block demo_space 16768 = Some 16768 \<and> ms_find one_block demo_space 65544 = Some 65544"
proof -
  have "\<not> is_precise 16768" and "is_precise 65544" by (simp_all add: is_precise_iff)
  then show ?thesis
    using gates_are_exact [OF demo_space_ok, of 16768 16768] gates_are_exact [OF demo_space_ok, of 65544 65544]
      demo_cells [of 16768] by (simp add: demo_space_parts)
qed

theorem cell_walk_complete_witness:
  "\<exists>cells. for_each_object_cell one_block demo_space = Some cells \<and> 16768 \<in> set cells"
  using cell_walk_complete [OF demo_space_ok] demo_cells [of 16768] by (auto simp: demo_space_parts)

end
