(* ===== verification/Js_Value.thy ===== *)
theory Js_Value
  imports Virtual_Register
begin

text \<open>
  The tagged value (\<open>src/src/value/repr.rs\<close>): 64 bits that hold a 32-bit integer, a double, an
  immediate or a heap cell.  The model is the default build, with the feature \<open>s4_raw_cell\<close> off.

  A double is its 64 bits.  Of IEEE arithmetic the code uses the classification, the sign,
  comparison and the conversions from and to 32-bit integers; they are written out here over the
  bits, with the magnitude of a finite double counted in units of \<open>2 ^ -1074\<close>.
\<close>

section \<open>Doubles\<close>

type_synonym f64 = u64

definition f_sign_negative :: "f64 \<Rightarrow> bool" where
  "f_sign_negative b \<longleftrightarrow> 2 ^ 63 \<le> unat b"

definition f_exponent :: "f64 \<Rightarrow> nat" where
  "f_exponent b = unat b div 2 ^ 52 mod 2 ^ 11"

definition f_mantissa :: "f64 \<Rightarrow> nat" where
  "f_mantissa b = unat b mod 2 ^ 52"

definition f_is_nan :: "f64 \<Rightarrow> bool" where
  "f_is_nan b \<longleftrightarrow> f_exponent b = 2047 \<and> f_mantissa b \<noteq> 0"

definition f_is_finite :: "f64 \<Rightarrow> bool" where
  "f_is_finite b \<longleftrightarrow> f_exponent b < 2047"

text \<open>The magnitude; that of an infinity is above every finite one.\<close>

definition f_magnitude :: "f64 \<Rightarrow> nat" where
  "f_magnitude b =
     (if f_exponent b = 0 then f_mantissa b else (2 ^ 52 + f_mantissa b) * 2 ^ (f_exponent b - 1))"

definition f_scaled :: "f64 \<Rightarrow> int" where
  "f_scaled b = (if f_sign_negative b then - int (f_magnitude b) else int (f_magnitude b))"

definition f_equal :: "f64 \<Rightarrow> f64 \<Rightarrow> bool" where
  "f_equal a b \<longleftrightarrow> \<not> f_is_nan a \<and> \<not> f_is_nan b \<and> f_scaled a = f_scaled b"

definition f_zero :: "f64 \<Rightarrow> bool" where
  "f_zero b \<longleftrightarrow> f_equal b 0"

text \<open>\<open>value as i32\<close>: towards zero, saturating, and 0 for a NaN.\<close>

definition f_to_i32 :: "f64 \<Rightarrow> int" where
  "f_to_i32 b =
     (if f_is_nan b then 0
      else let t = int (f_magnitude b div 2 ^ 1074);
               i = (if f_sign_negative b then - t else t)
           in max (- (2 ^ 31)) (min (2 ^ 31 - 1) i))"

definition f_pack :: "bool \<Rightarrow> nat \<Rightarrow> nat \<Rightarrow> f64" where
  "f_pack negative e m = of_nat (of_bool negative * 2 ^ 63 + e * 2 ^ 52 + m)"

text \<open>\<open>value as f64\<close> is exact on 32-bit integers.\<close>

fun bit_len :: "nat \<Rightarrow> nat \<Rightarrow> nat" where
  "bit_len 0 n = 0"
| "bit_len (Suc fuel) n = (if n = 0 then 0 else Suc (bit_len fuel (n div 2)))"

definition f_of_i32 :: "int \<Rightarrow> f64" where
  "f_of_i32 i =
     (if i = 0 then 0
      else let n = nat \<bar>i\<bar>; k = bit_len 32 n - 1
           in f_pack (i < 0) (1023 + k) (n * 2 ^ (52 - k) - 2 ^ 52))"

section \<open>Values\<close>

definition NUMBER_TAG :: u64 where "NUMBER_TAG = 0xfffe000000000000"
definition DOUBLE_ENCODE_OFFSET :: u64 where "DOUBLE_ENCODE_OFFSET = push_bit 49 1"
definition OTHER_TAG :: u64 where "OTHER_TAG = 0x2"
definition BOOL_TAG :: u64 where "BOOL_TAG = 0x4"
definition UNDEFINED_TAG :: u64 where "UNDEFINED_TAG = 0x8"
definition NOT_CELL_MASK :: u64 where "NOT_CELL_MASK = NUMBER_TAG OR OTHER_TAG"
definition VALUE_FALSE :: u64 where "VALUE_FALSE = OTHER_TAG OR BOOL_TAG"
definition VALUE_TRUE :: u64 where "VALUE_TRUE = OTHER_TAG OR BOOL_TAG OR 1"
definition VALUE_UNDEFINED :: u64 where "VALUE_UNDEFINED = OTHER_TAG OR UNDEFINED_TAG"
definition VALUE_NULL :: u64 where "VALUE_NULL = OTHER_TAG"
definition VALUE_EMPTY :: u64 where "VALUE_EMPTY = 0x0"
definition VALUE_DELETED :: u64 where "VALUE_DELETED = 0x4"
definition PNAN_BITS :: u64 where "PNAN_BITS = 0x7ff8000000000000"
definition TAG_I32 :: u64 where "TAG_I32 = 0x10"
definition TAG_CELL :: u64 where "TAG_CELL = 0x20"
definition TAG_DOUBLE :: u64 where "TAG_DOUBLE = 0x30"
definition TAG_MASK :: u64 where "TAG_MASK = 0xff"

lemmas value_consts =
  NUMBER_TAG_def DOUBLE_ENCODE_OFFSET_def OTHER_TAG_def BOOL_TAG_def UNDEFINED_TAG_def NOT_CELL_MASK_def
  VALUE_FALSE_def VALUE_TRUE_def VALUE_UNDEFINED_def VALUE_NULL_def VALUE_EMPTY_def VALUE_DELETED_def
  PNAN_BITS_def TAG_I32_def TAG_CELL_def TAG_DOUBLE_def TAG_MASK_def

type_synonym js_value = u64

datatype value_kind = VUndefined | VNull | VBoolean | VInt32 | VDouble | VCell | VUnknown

datatype immediate_kind = IUndefined | INull | IBoolean | IInt32 | IDouble

datatype value_classification = Immediate immediate_kind | CellClass u64 | UnknownClass u64

datatype number_value = Int32 int | DoubleBits u64

datatype equality_mode = Strict | SameValue | SameValueZero

definition js_undefined :: js_value where "js_undefined = VALUE_UNDEFINED"
definition js_null :: js_value where "js_null = VALUE_NULL"

definition from_bool :: "bool \<Rightarrow> js_value" where
  "from_bool b = (if b then VALUE_TRUE else VALUE_FALSE)"

definition from_i32 :: "int \<Rightarrow> js_value" where
  "from_i32 i = NUMBER_TAG OR ucast (as_u32 i)"

definition from_double :: "f64 \<Rightarrow> js_value" where
  "from_double v =
     (let v = (if f_is_nan v then PNAN_BITS else v);
          i = f_to_i32 v
      in if f_is_finite v \<and> f_equal (f_of_i32 i) v \<and> \<not> (i = 0 \<and> f_sign_negative v)
         then from_i32 i
         else v + DOUBLE_ENCODE_OFFSET)"

definition from_cell :: "u64 \<Rightarrow> js_value" where
  "from_cell ptr_bits = push_bit 8 ptr_bits OR TAG_CELL"

definition is_number :: "js_value \<Rightarrow> bool" where
  "is_number v \<longleftrightarrow> v AND NUMBER_TAG \<noteq> 0"

definition is_int32 :: "js_value \<Rightarrow> bool" where
  "is_int32 v \<longleftrightarrow> v AND NUMBER_TAG = NUMBER_TAG"

definition is_double :: "js_value \<Rightarrow> bool" where
  "is_double v \<longleftrightarrow> is_number v \<and> \<not> is_int32 v"

definition is_cell :: "js_value \<Rightarrow> bool" where
  "is_cell v \<longleftrightarrow> \<not> is_number v \<and> v AND TAG_MASK = TAG_CELL"

definition is_undefined_or_null :: "js_value \<Rightarrow> bool" where
  "is_undefined_or_null v \<longleftrightarrow> v AND NOT UNDEFINED_TAG = VALUE_NULL"

definition value_kind_of :: "js_value \<Rightarrow> value_kind" where
  "value_kind_of bits =
     (if bits AND NUMBER_TAG \<noteq> 0 then
        if bits AND NUMBER_TAG = NUMBER_TAG then VInt32 else VDouble
      else if bits = VALUE_UNDEFINED then VUndefined
      else if bits = VALUE_NULL then VNull
      else if bits AND NOT 1 = VALUE_FALSE then VBoolean
      else if bits AND TAG_MASK = TAG_CELL then VCell
      else VUnknown)"

definition classification :: "js_value \<Rightarrow> value_classification" where
  "classification v =
     (case value_kind_of v of
        VUndefined \<Rightarrow> Immediate IUndefined
      | VNull \<Rightarrow> Immediate INull
      | VBoolean \<Rightarrow> Immediate IBoolean
      | VInt32 \<Rightarrow> Immediate IInt32
      | VDouble \<Rightarrow> Immediate IDouble
      | VCell \<Rightarrow> CellClass v
      | VUnknown \<Rightarrow> UnknownClass v)"

definition is_empty_or_deleted_sentinel :: "js_value \<Rightarrow> bool" where
  "is_empty_or_deleted_sentinel v \<longleftrightarrow> value_kind_of v = VUnknown \<and> v = VALUE_EMPTY"

definition as_number :: "js_value \<Rightarrow> number_value option" where
  "as_number v =
     (if is_int32 v then Some (Int32 (sint (ucast v :: u32)))
      else if is_double v then Some (DoubleBits v)
      else None)"

definition as_cell :: "js_value \<Rightarrow> u64 option" where
  "as_cell v = (if is_cell v then Some v else None)"

definition is_boolean :: "js_value \<Rightarrow> bool" where
  "is_boolean v \<longleftrightarrow> v AND NOT 1 = VALUE_FALSE"

definition as_bool :: "js_value \<Rightarrow> bool option" where
  "as_bool v = (if is_boolean v then Some (v = VALUE_TRUE) else None)"

definition is_primitive :: "js_value \<Rightarrow> bool" where
  "is_primitive v \<longleftrightarrow> \<not> (value_kind_of v = VCell \<or> value_kind_of v = VUnknown)"

definition to_f64 :: "u64 \<Rightarrow> f64" where
  "to_f64 bits = bits - DOUBLE_ENCODE_OFFSET"

definition pointer_payload_bits :: "u64 \<Rightarrow> u64" where
  "pointer_payload_bits encoded = drop_bit 8 encoded"

definition numeric_as_f64 :: "js_value \<Rightarrow> f64 option" where
  "numeric_as_f64 v =
     (case as_number v of
        None \<Rightarrow> None
      | Some (Int32 i) \<Rightarrow> Some (f_of_i32 i)
      | Some (DoubleBits bits) \<Rightarrow> Some (to_f64 bits))"

definition numeric_equal :: "js_value \<Rightarrow> js_value \<Rightarrow> equality_mode \<Rightarrow> bool" where
  "numeric_equal l r mode =
     (case (numeric_as_f64 l, numeric_as_f64 r) of
        (Some a, Some b) \<Rightarrow>
          if f_is_nan a \<or> f_is_nan b then mode = SameValue \<and> f_is_nan a \<and> f_is_nan b
          else if f_zero a \<and> f_zero b then mode \<noteq> SameValue \<or> f_sign_negative a = f_sign_negative b
          else f_equal a b
      | _ \<Rightarrow> False)"

definition is_numeric_kind :: "value_kind \<Rightarrow> bool" where
  "is_numeric_kind k \<longleftrightarrow> k = VInt32 \<or> k = VDouble"

definition strict_equals :: "js_value \<Rightarrow> js_value \<Rightarrow> bool" where
  "strict_equals l r =
     (let a = value_kind_of l; b = value_kind_of r in
      if a = b \<and> (a = VUndefined \<or> a = VNull \<or> a = VBoolean \<or> a = VCell) then l = r
      else if is_numeric_kind a \<and> is_numeric_kind b then numeric_equal l r Strict
      else False)"

definition same_value :: "js_value \<Rightarrow> js_value \<Rightarrow> bool" where
  "same_value l r =
     (if is_numeric_kind (value_kind_of l) \<and> is_numeric_kind (value_kind_of r)
      then numeric_equal l r SameValue else strict_equals l r)"

definition same_value_zero :: "js_value \<Rightarrow> js_value \<Rightarrow> bool" where
  "same_value_zero l r =
     (if is_numeric_kind (value_kind_of l) \<and> is_numeric_kind (value_kind_of r)
      then numeric_equal l r SameValueZero else strict_equals l r)"

definition pure_to_boolean :: "js_value \<Rightarrow> bool" where
  "pure_to_boolean v =
     (case value_kind_of v of
        VUndefined \<Rightarrow> False
      | VNull \<Rightarrow> False
      | VUnknown \<Rightarrow> False
      | VBoolean \<Rightarrow> (case as_bool v of Some b \<Rightarrow> b | None \<Rightarrow> False)
      | VInt32 \<Rightarrow> as_number v \<noteq> Some (Int32 0)
      | VDouble \<Rightarrow> (case as_number v of
                      Some (DoubleBits bits) \<Rightarrow> let x = to_f64 bits in \<not> f_zero x \<and> \<not> f_is_nan x
                    | _ \<Rightarrow> False)
      | VCell \<Rightarrow> True)"

section \<open>The parts of a double\<close>

lemma f_parts: "unat b = of_bool (f_sign_negative b) * 2 ^ 63 + f_exponent b * 2 ^ 52 + f_mantissa b"
proof -
  have lt: "unat b < 2 ^ 64" using unsigned_less [of b] by simp
  have "unat b div 2 ^ 63 = of_bool (f_sign_negative b)"
  proof (cases "f_sign_negative b")
    case True
    then have "unat b div 2 ^ 63 = Suc ((unat b - 2 ^ 63) div 2 ^ 63)"
      by (intro le_div_geq) (simp_all add: f_sign_negative_def)
    with True lt show ?thesis by simp
  qed (simp add: f_sign_negative_def)
  moreover have "unat b div 2 ^ 52 = unat b div 2 ^ 63 * 2 ^ 11 + f_exponent b"
  proof -
    have "unat b div 2 ^ 52 div 2 ^ 11 = unat b div 2 ^ 63" by (simp add: div_mult2_eq [symmetric])
    then show ?thesis unfolding f_exponent_def by (metis div_mult_mod_eq)
  qed
  moreover have "unat b = unat b div 2 ^ 52 * 2 ^ 52 + f_mantissa b" by (simp add: f_mantissa_def)
  ultimately show ?thesis by (simp add: algebra_simps)
qed

lemma f_exponent_less: "f_exponent b < 2048" and f_mantissa_less: "f_mantissa b < 2 ^ 52"
  by (simp_all add: f_exponent_def f_mantissa_def)

lemma f_eqI:
  "f_sign_negative a = f_sign_negative b \<Longrightarrow> f_exponent a = f_exponent b \<Longrightarrow> f_mantissa a = f_mantissa b \<Longrightarrow> a = b"
  by (rule word_unat_eq_iff [THEN iffD2]) (simp only: f_parts [of a] f_parts [of b])

lemma unat_f_pack:
  assumes "e < 2048" and "m < 2 ^ 52"
  shows "unat (f_pack s e m) = of_bool s * 2 ^ 63 + e * 2 ^ 52 + m"
proof -
  have "e * 2 ^ 52 \<le> 2047 * 2 ^ 52" using assms(1) by (intro mult_le_mono1) simp
  then have "of_bool s * 2 ^ 63 + e * 2 ^ 52 + m < 2 ^ 64" using assms(2) by (cases s) simp_all
  moreover have "unat (of_nat x :: u64) = x" if "x < 2 ^ 64" for x
    using that by (simp add: unat_of_nat take_bit_eq_mod)
  ultimately show ?thesis unfolding f_pack_def by blast
qed

lemma f_pack_parts:
  assumes "e < 2048" and "m < 2 ^ 52"
  shows "f_sign_negative (f_pack s e m) = s" "f_exponent (f_pack s e m) = e" "f_mantissa (f_pack s e m) = m"
proof -
  have le: "e * 2 ^ 52 \<le> 2047 * 2 ^ 52" using assms(1) by (intro mult_le_mono1) simp
  show "f_sign_negative (f_pack s e m) = s"
    unfolding f_sign_negative_def unat_f_pack [OF assms] using le assms(2) by (cases s) simp_all
  have q: "(of_bool s * 2 ^ 63 + e * 2 ^ 52 + m) div 2 ^ 52 = of_bool s * 2 ^ 11 + e"
  proof -
    have "of_bool s * 2 ^ 63 + e * 2 ^ 52 + m = m + (of_bool s * 2 ^ 11 + e) * 2 ^ 52" by (cases s) simp_all
    then show ?thesis using assms(2) by (simp only: div_mult_self1) simp
  qed
  show "f_exponent (f_pack s e m) = e"
    unfolding f_exponent_def unat_f_pack [OF assms] q using assms(1) by (cases s) simp_all
  have "of_bool s * 2 ^ 63 + e * 2 ^ 52 + m = m + (of_bool s * 2 ^ 11 + e) * 2 ^ 52" by (cases s) simp_all
  then show "f_mantissa (f_pack s e m) = m"
    unfolding f_mantissa_def unat_f_pack [OF assms] using assms(2) by (simp only: mod_mult_self1) simp
qed

text \<open>The magnitude determines the exponent and the mantissa.\<close>

lemma f_magnitude_bounds:
  "f_exponent b = 0 \<Longrightarrow> f_magnitude b < 2 ^ 52"
  "f_exponent b = Suc e \<Longrightarrow> 2 ^ (52 + e) \<le> f_magnitude b \<and> f_magnitude b < 2 ^ (53 + e)"
proof -
  show "f_exponent b = 0 \<Longrightarrow> f_magnitude b < 2 ^ 52" using f_mantissa_less by (simp add: f_magnitude_def)
  assume e: "f_exponent b = Suc e"
  have "2 ^ 52 * 2 ^ e \<le> (2 ^ 52 + f_mantissa b) * 2 ^ e" by (intro mult_le_mono1) simp
  moreover have "(2 ^ 52 + f_mantissa b) * 2 ^ e < 2 ^ 53 * 2 ^ e"
    using f_mantissa_less [of b] by (intro mult_less_mono1) simp_all
  ultimately show "2 ^ (52 + e) \<le> f_magnitude b \<and> f_magnitude b < 2 ^ (53 + e)"
    by (simp add: f_magnitude_def e power_add)
qed

lemma f_magnitude_inj:
  assumes "f_magnitude a = f_magnitude b"
  shows "f_exponent a = f_exponent b \<and> f_mantissa a = f_mantissa b"
proof -
  have lt: False if l: "f_exponent x < f_exponent y" and q: "f_magnitude x = f_magnitude y" for x y
  proof -
    obtain e where e: "f_exponent y = Suc e" using l by (cases "f_exponent y") auto
    have "f_magnitude x < 2 ^ (52 + e)"
    proof (cases "f_exponent x")
      case 0
      then have "f_magnitude x < 2 ^ 52" by (rule f_magnitude_bounds)
      also have "(2::nat) ^ 52 \<le> 2 ^ (52 + e)" by (rule power_increasing) simp_all
      finally show ?thesis .
    next
      case (Suc d)
      then have "f_magnitude x < 2 ^ (53 + d)" using f_magnitude_bounds(2) by blast
      also have "(2::nat) ^ (53 + d) \<le> 2 ^ (52 + e)" using l Suc e by (intro power_increasing) simp_all
      finally show ?thesis .
    qed
    moreover have "2 ^ (52 + e) \<le> f_magnitude y" using f_magnitude_bounds(2) [OF e] by simp
    ultimately show False using q by simp
  qed
  have e: "f_exponent a = f_exponent b" using lt [of a b] lt [of b a] assms by (metis linorder_neqE_nat)
  then have "f_mantissa a = f_mantissa b"
    using assms by (cases "f_exponent b") (simp_all add: f_magnitude_def)
  with e show ?thesis by simp
qed

lemma f_scaled_inj:
  assumes "f_scaled a = f_scaled b" and "f_sign_negative a = f_sign_negative b" shows "a = b"
proof -
  have "f_magnitude a = f_magnitude b" using assms by (simp add: f_scaled_def split: if_splits)
  then show ?thesis using f_magnitude_inj f_eqI assms(2) by blast
qed

lemma f_scaled_sign: "f_scaled a = f_scaled b \<Longrightarrow> f_scaled a \<noteq> 0 \<Longrightarrow> f_sign_negative a = f_sign_negative b"
  by (auto simp: f_scaled_def split: if_splits)

lemma bit_len_bounds: "n < 2 ^ fuel \<Longrightarrow> 0 < n \<Longrightarrow> bit_len fuel n \<le> fuel \<and> 0 < bit_len fuel n \<and>
    2 ^ (bit_len fuel n - 1) \<le> n \<and> n < 2 ^ bit_len fuel n"
proof (induction fuel arbitrary: n)
  case (Suc fuel)
  show ?case
  proof (cases "n = 1")
    case True
    then show ?thesis by (cases fuel) simp_all
  next
    case False
    then have "0 < n div 2" "n div 2 < 2 ^ fuel" using Suc.prems by auto
    from Suc.IH [OF this(2,1)] obtain k where k: "bit_len fuel (n div 2) = Suc k" "Suc k \<le> fuel"
      "2 ^ k \<le> n div 2" "n div 2 < 2 ^ Suc k" by (cases "bit_len fuel (n div 2)") auto
    then have "2 * 2 ^ k \<le> n" "n < 2 * 2 ^ Suc k" by linarith+
    with k Suc.prems(2) show ?thesis by simp
  qed
qed simp

text \<open>An integer below \<open>2 ^ 53\<close> is packed without rounding.\<close>

lemma f_pack_integer:
  fixes s :: bool and n k :: nat
  assumes k: "k \<le> 52" "2 ^ k \<le> n" "n < 2 ^ Suc k"
  defines "f \<equiv> f_pack s (1023 + k) (n * 2 ^ (52 - k) - 2 ^ 52)"
  shows "f_scaled f = (if s then - int n else int n) * 2 ^ 1074" and "\<not> f_is_nan f" and "f_is_finite f"
    and "f_sign_negative f \<longleftrightarrow> s"
proof -
  have up: "2 ^ k * 2 ^ (52 - k) = (2::nat) ^ 52" using k(1) by (simp add: power_add [symmetric])
  have "2 ^ 52 \<le> n * 2 ^ (52 - k)" unfolding up [symmetric] using k(2) by (intro mult_le_mono1)
  moreover have "n * 2 ^ (52 - k) < 2 ^ Suc k * 2 ^ (52 - k)" using k(3) by (intro mult_less_mono1) simp_all
  then have "n * 2 ^ (52 - k) < 2 * 2 ^ 52" by (simp only: power_Suc mult.assoc up)
  moreover have "\<exists>m. p = 2 ^ 52 + m \<and> m < 2 ^ 52" if "2 ^ 52 \<le> p" "p < 2 * 2 ^ 52" for p :: nat
    using that by (intro exI [of _ "p - 2 ^ 52"]) simp
  ultimately obtain m where m: "n * 2 ^ (52 - k) = 2 ^ 52 + m" "m < 2 ^ 52" by blast
  have f: "f = f_pack s (1023 + k) m" by (simp add: f_def m(1))
  have e: "1023 + k < 2048" using k(1) by simp
  note parts = f_pack_parts [OF e m(2), of s]
  have "f_magnitude f = (2 ^ 52 + m) * 2 ^ (1022 + k)" by (simp add: f_magnitude_def f parts)
  also have "\<dots> = n * (2 ^ (52 - k) * 2 ^ (1022 + k))" unfolding m(1) [symmetric] by (simp only: mult.assoc)
  also have "(2::nat) ^ (52 - k) * 2 ^ (1022 + k) = 2 ^ 1074" using k(1) by (simp only: power_add [symmetric]) simp
  finally have mag: "f_magnitude f = n * 2 ^ 1074" .
  show "f_scaled f = (if s then - int n else int n) * 2 ^ 1074"
    unfolding f_scaled_def mag using parts(1) by (simp add: f)
  show "\<not> f_is_nan f" "f_is_finite f" "f_sign_negative f \<longleftrightarrow> s"
    using parts k(1) by (simp_all add: f f_is_nan_def f_is_finite_def)
qed

lemma f_zero_parts:
  "f_scaled 0 = 0" "\<not> f_is_nan 0" "f_is_finite 0" "\<not> f_sign_negative 0"
  by (simp_all add: f_scaled_def f_sign_negative_def f_magnitude_def f_exponent_def f_mantissa_def
      f_is_nan_def f_is_finite_def)

lemma f_of_i32_parts:
  assumes "in_i32 i"
  shows "f_scaled (f_of_i32 i) = i * 2 ^ 1074" and "\<not> f_is_nan (f_of_i32 i)" and "f_is_finite (f_of_i32 i)"
    and "f_sign_negative (f_of_i32 i) \<longleftrightarrow> i < 0"
proof -
  have "f_scaled (f_of_i32 i) = i * 2 ^ 1074 \<and> \<not> f_is_nan (f_of_i32 i) \<and> f_is_finite (f_of_i32 i) \<and>
      (f_sign_negative (f_of_i32 i) \<longleftrightarrow> i < 0)"
  proof (cases "i = 0")
    case True
    then show ?thesis by (simp add: f_of_i32_def f_zero_parts)
  next
    case False
    define n where "n = nat \<bar>i\<bar>"
    define k where "k = bit_len 32 n - 1"
    have n: "0 < n" "n < 2 ^ 32" using assms False by (auto simp: n_def in_i32_def)
    have k: "k \<le> 52" "2 ^ k \<le> n" "n < 2 ^ Suc k"
      using bit_len_bounds [OF n(2,1)] by (auto simp: k_def)
    have f: "f_of_i32 i = f_pack (i < 0) (1023 + k) (n * 2 ^ (52 - k) - 2 ^ 52)"
      using False unfolding f_of_i32_def Let_def n_def [symmetric] k_def [symmetric] by (simp only: if_False)
    have "(if i < 0 then - int n else int n) = i" by (simp add: n_def)
    with f_pack_integer [OF k, of "i < 0"] show ?thesis unfolding f by simp
  qed
  then show "f_scaled (f_of_i32 i) = i * 2 ^ 1074" "\<not> f_is_nan (f_of_i32 i)" "f_is_finite (f_of_i32 i)"
    "f_sign_negative (f_of_i32 i) \<longleftrightarrow> i < 0" by blast+
qed

section \<open>Tags\<close>

lemma tag_part: "unat (v AND NUMBER_TAG) = unat v div 2 ^ 49 * 2 ^ 49"
proof -
  have tag: "NUMBER_TAG = NOT (mask 49)" by (simp add: NUMBER_TAG_def mask_eq_decr_exp)
  have "v AND NUMBER_TAG = push_bit 49 (drop_bit 49 v)"
    by (rule bit_word_eqI) (auto simp: tag bit_simps)
  then have "unat (v AND NUMBER_TAG) = take_bit 64 (push_bit 49 (unat (drop_bit 49 v)))"
    by (simp only: unsigned_push_bit_eq) simp
  also have "push_bit 49 (unat (drop_bit 49 v)) = unat v div 2 ^ 49 * 2 ^ 49"
    by (simp only: unat_drop_bit_div push_bit_eq_mult)
  finally have "unat (v AND NUMBER_TAG) = take_bit 64 (unat v div 2 ^ 49 * 2 ^ 49)" .
  moreover have "unat v div 2 ^ 49 * 2 ^ 49 < 2 ^ 64"
    by (rule le_less_trans [OF div_times_less_eq_dividend]) (use unsigned_less [of v] in simp)
  ultimately show ?thesis by (simp add: take_bit_nat_eq_self)
qed

lemma is_number_iff: "is_number v \<longleftrightarrow> 2 ^ 49 \<le> unat v"
proof -
  have "v AND NUMBER_TAG = 0 \<longleftrightarrow> unat (v AND NUMBER_TAG) = 0" by (simp add: unat_eq_0)
  then show ?thesis unfolding tag_part is_number_def by (simp add: div_eq_0_iff not_less)
qed

lemma is_int32_iff: "is_int32 v \<longleftrightarrow> (2 ^ 15 - 1) * 2 ^ 49 \<le> unat v"
proof -
  have "v AND NUMBER_TAG = NUMBER_TAG \<longleftrightarrow> unat (v AND NUMBER_TAG) = unat NUMBER_TAG"
    by (simp add: word_unat_eq_iff)
  moreover have "unat NUMBER_TAG = (2 ^ 15 - 1) * 2 ^ 49" by (simp add: NUMBER_TAG_def)
  moreover have "q * 2 ^ 49 = (2 ^ 15 - 1) * 2 ^ 49 \<longleftrightarrow> q = 2 ^ 15 - 1" for q :: nat by simp
  moreover have "unat v div 2 ^ 49 = 2 ^ 15 - 1 \<longleftrightarrow> (2 ^ 15 - 1) * 2 ^ 49 \<le> unat v"
    using unsigned_less [of v] by (auto intro!: div_nat_eqI)
  ultimately show ?thesis unfolding tag_part is_int32_def by metis
qed

lemma value_kind_number:
  "value_kind_of v = VInt32 \<longleftrightarrow> is_int32 v" "value_kind_of v = VDouble \<longleftrightarrow> is_double v"
  using is_number_iff [of v] is_int32_iff [of v]
  by (auto simp: value_kind_of_def is_int32_def is_double_def is_number_def)

lemma unat_from_i32: "unat (from_i32 i) = (2 ^ 15 - 1) * 2 ^ 49 + unat (as_u32 i)"
proof -
  have tag: "NUMBER_TAG = push_bit 49 (mask 15)" by (simp add: NUMBER_TAG_def mask_eq_decr_exp)
  have "from_i32 i = NUMBER_TAG + ucast (as_u32 i)"
    unfolding from_i32_def
    by (rule disjunctive_add_eq_or [symmetric]) (rule bit_word_eqI, auto simp: tag bit_simps dest: bit_imp_le_length)
  moreover have "unat NUMBER_TAG + unat (ucast (as_u32 i) :: u64) < 2 ^ 64"
    using unat_u32_less [of "as_u32 i"] by (simp add: NUMBER_TAG_def del: unat_u32_less)
  ultimately show ?thesis by (simp add: unat_add_no_overflow NUMBER_TAG_def)
qed

lemma from_i32_value:
  assumes "in_i32 i"
  shows "is_int32 (from_i32 i)" and "as_number (from_i32 i) = Some (Int32 i)"
proof -
  show "is_int32 (from_i32 i)" unfolding is_int32_iff unat_from_i32 by simp
  have "(ucast (from_i32 i) :: u32) = as_u32 i"
  proof (rule word_unat_eq_iff [THEN iffD2])
    have "unat (ucast (from_i32 i) :: u32) = unat (from_i32 i) mod 2 ^ 32" by (simp add: unat_ucast_mod)
    also have "\<dots> = (unat (as_u32 i) + (2 ^ 15 - 1) * 2 ^ 17 * 2 ^ 32) mod 2 ^ 32"
      by (simp only: unat_from_i32) (simp add: add.commute)
    also have "\<dots> = unat (as_u32 i)" by (simp only: mod_mult_self1) simp
    finally show "unat (ucast (from_i32 i) :: u32) = unat (as_u32 i)" .
  qed
  moreover have "sint (as_u32 i) = i"
    using assms by (simp add: as_u32_def in_i32_def signed_of_int signed_take_bit_int_eq_self)
  ultimately show "as_number (from_i32 i) = Some (Int32 i)"
    using \<open>is_int32 (from_i32 i)\<close> by (simp add: as_number_def)
qed

lemma boxed_double_value:
  assumes "\<not> f_is_nan v \<or> v = PNAN_BITS"
  shows "is_double (v + DOUBLE_ENCODE_OFFSET)" and "to_f64 (v + DOUBLE_ENCODE_OFFSET) = v"
proof -
  have "unat v \<le> 2 ^ 63 + 2047 * 2 ^ 52"
  proof (cases "f_exponent v = 2047 \<and> f_mantissa v \<noteq> 0")
    case True
    then have "v = PNAN_BITS" using assms by (simp add: f_is_nan_def)
    then show ?thesis by (simp add: PNAN_BITS_def)
  next
    case False
    have "f_exponent v * 2 ^ 52 + f_mantissa v \<le> 2047 * 2 ^ 52"
    proof (cases "f_exponent v = 2047")
      case True
      with False show ?thesis by simp
    next
      case f: False
      then have "f_exponent v \<le> 2046" using f_exponent_less [of v] by linarith
      then have "f_exponent v * 2 ^ 52 \<le> 2046 * 2 ^ 52" by (rule mult_le_mono1)
      then show ?thesis using f_mantissa_less [of v] by linarith
    qed
    then show ?thesis using f_parts [of v] by (cases "f_sign_negative v") simp_all
  qed
  moreover have "unat DOUBLE_ENCODE_OFFSET = 2 ^ 49" by (simp add: DOUBLE_ENCODE_OFFSET_def)
  ultimately have "unat (v + DOUBLE_ENCODE_OFFSET) = unat v + 2 ^ 49"
    "unat (v + DOUBLE_ENCODE_OFFSET) < (2 ^ 15 - 1) * 2 ^ 49"
    by (simp_all add: unat_add_no_overflow)
  then show "is_double (v + DOUBLE_ENCODE_OFFSET)"
    unfolding is_double_def is_number_iff is_int32_iff by simp
  show "to_f64 (v + DOUBLE_ENCODE_OFFSET) = v" by (simp add: to_f64_def)
qed

section \<open>Numbers\<close>

lemma f_zero_iff: "f_zero v \<longleftrightarrow> \<not> f_is_nan v \<and> f_scaled v = 0"
  by (auto simp: f_zero_def f_equal_def f_is_nan_def f_scaled_def f_sign_negative_def f_magnitude_def
      f_exponent_def f_mantissa_def)

lemma pnan_is_nan: "f_is_nan PNAN_BITS" and pnan_not_finite: "\<not> f_is_finite PNAN_BITS"
  by (simp_all add: f_is_nan_def f_is_finite_def f_exponent_def f_mantissa_def PNAN_BITS_def)

lemma f_to_i32_range: "in_i32 (f_to_i32 v)"
  by (auto simp: f_to_i32_def Let_def in_i32_def)

lemma from_double_number:
  "numeric_as_f64 (from_double v) = Some (if f_is_nan v then PNAN_BITS else v) \<and>
   is_numeric_kind (value_kind_of (from_double v))"
proof -
  define w where "w = (if f_is_nan v then PNAN_BITS else v)"
  define i where "i = f_to_i32 w"
  note i32 = from_i32_value [OF f_to_i32_range [of w, folded i_def]]
  note parts = f_of_i32_parts [OF f_to_i32_range [of w, folded i_def]]
  show ?thesis
  proof (cases "f_is_finite w \<and> f_equal (f_of_i32 i) w \<and> \<not> (i = 0 \<and> f_sign_negative w)")
    case True
    then have e: "from_double v = from_i32 i" by (simp add: from_double_def Let_def w_def i_def)
    have sc: "f_scaled (f_of_i32 i) = f_scaled w" using True by (simp add: f_equal_def)
    have "f_sign_negative (f_of_i32 i) = f_sign_negative w"
    proof (cases "i = 0")
      case False
      then have "f_scaled (f_of_i32 i) \<noteq> 0" by (simp add: parts(1))
      with f_scaled_sign [OF sc] show ?thesis by simp
    next
      case zero: True
      then show ?thesis using True parts(4) by simp
    qed
    then have "f_of_i32 i = w" using f_scaled_inj [OF sc] by simp
    then show ?thesis
      using i32 e by (simp add: numeric_as_f64_def is_numeric_kind_def value_kind_number w_def [symmetric])
  next
    case False
    then have e: "from_double v = w + DOUBLE_ENCODE_OFFSET"
      unfolding from_double_def Let_def w_def [symmetric] i_def [symmetric] by (simp only: if_False)
    have "\<not> f_is_nan w \<or> w = PNAN_BITS" by (simp add: w_def)
    note b = boxed_double_value [OF this]
    then have "\<not> is_int32 (w + DOUBLE_ENCODE_OFFSET)" by (simp add: is_double_def)
    then show ?thesis
      using b e by (simp add: numeric_as_f64_def as_number_def is_numeric_kind_def value_kind_number w_def [symmetric])
  qed
qed


section \<open>Kinds\<close>

lemma cell_value:
  assumes "unat p < 2 ^ 41"
  shows "\<not> is_number (from_cell p)" and "from_cell p AND TAG_MASK = TAG_CELL"
    and "pointer_payload_bits (from_cell p) = p"
proof -
  have "from_cell p = push_bit 8 p + TAG_CELL"
    unfolding from_cell_def by (rule push_or_eq_add) (simp add: TAG_CELL_def)
  moreover have "unat (push_bit 8 p) = unat p * 2 ^ 8"
  proof -
    have "unat (push_bit 8 p) = take_bit 64 (push_bit 8 (unat p))" by (simp only: unsigned_push_bit_eq) simp
    then show ?thesis using assms by (simp add: push_bit_eq_mult take_bit_nat_eq_self)
  qed
  ultimately have u: "unat (from_cell p) = unat p * 2 ^ 8 + 0x20"
    using assms by (simp add: unat_add_no_overflow TAG_CELL_def)
  then show "\<not> is_number (from_cell p)" unfolding is_number_iff using assms by simp
  have "unat (from_cell p AND TAG_MASK) = unat (from_cell p) mod 2 ^ 8"
    by (simp add: TAG_MASK_def and_ff unat_take_bit_mod)
  also have "\<dots> = (0x20 + unat p * 2 ^ 8) mod 2 ^ 8" unfolding u by (simp only: add.commute)
  also have "\<dots> = 0x20" by (simp only: mod_mult_self1) simp
  finally show "from_cell p AND TAG_MASK = TAG_CELL" by (simp add: word_unat_eq_iff TAG_CELL_def)
  have "unat (pointer_payload_bits (from_cell p)) = (0x20 + unat p * 2 ^ 8) div 2 ^ 8"
    unfolding pointer_payload_bits_def unat_drop_bit_div u by (simp only: add.commute)
  also have "\<dots> = unat p" by simp
  finally show "pointer_payload_bits (from_cell p) = p" by (simp add: word_unat_eq_iff)
qed

lemma cleared_bit_cases:
  fixes v :: u64
  shows "v AND NOT (push_bit n 1) = c \<Longrightarrow> v = c \<or> v = c OR push_bit n 1"
proof -
  assume c: "v AND NOT (push_bit n 1) = c"
  have "v = (v AND NOT (push_bit n 1)) OR (v AND push_bit n 1)"
    by (rule bit_word_eqI) (auto simp: bit_simps)
  moreover have "v AND push_bit n 1 = 0 \<or> v AND push_bit n 1 = push_bit n 1"
  proof (cases "bit v n")
    case True
    then have "v AND push_bit n 1 = push_bit n 1" by (intro bit_word_eqI) (auto simp: bit_simps)
    then show ?thesis ..
  next
    case False
    then have "v AND push_bit n 1 = 0" by (intro bit_word_eqI) (auto simp: bit_simps)
    then show ?thesis ..
  qed
  ultimately show ?thesis using c by auto
qed

lemma boolean_cases: "is_boolean v \<longleftrightarrow> v = VALUE_FALSE \<or> v = VALUE_TRUE"
proof
  show "is_boolean v \<Longrightarrow> v = VALUE_FALSE \<or> v = VALUE_TRUE"
    using cleared_bit_cases [of v 0 VALUE_FALSE] by (simp add: is_boolean_def value_consts)
qed (auto simp: is_boolean_def value_consts)

lemma undefined_or_null_cases: "is_undefined_or_null v \<longleftrightarrow> v = VALUE_NULL \<or> v = VALUE_UNDEFINED"
proof
  show "is_undefined_or_null v \<Longrightarrow> v = VALUE_NULL \<or> v = VALUE_UNDEFINED"
    using cleared_bit_cases [of v 3 VALUE_NULL] by (simp add: is_undefined_or_null_def value_consts)
qed (auto simp: is_undefined_or_null_def value_consts)

lemma number_tag_numerals: "\<not> is_number VALUE_FALSE" "\<not> is_number VALUE_TRUE" "\<not> is_number VALUE_NULL"
  "\<not> is_number VALUE_UNDEFINED"
  by (simp_all add: is_number_iff) (simp_all add: value_consts)

lemma value_kind_cases:
  "value_kind_of v = VBoolean \<longleftrightarrow> is_boolean v"
  "value_kind_of v = VCell \<longleftrightarrow> is_cell v"
  "value_kind_of v = VUndefined \<longleftrightarrow> v = VALUE_UNDEFINED"
  "value_kind_of v = VNull \<longleftrightarrow> v = VALUE_NULL"
proof -
  note num = number_tag_numerals [unfolded is_number_def not_not]
  have b: "v AND NOT 1 = VALUE_FALSE \<longleftrightarrow> v = VALUE_FALSE \<or> v = VALUE_TRUE"
    using boolean_cases [of v] by (simp add: is_boolean_def)
  show "value_kind_of v = VBoolean \<longleftrightarrow> is_boolean v"
    unfolding value_kind_of_def is_boolean_def b using num by (auto simp: value_consts)
  show "value_kind_of v = VCell \<longleftrightarrow> is_cell v"
    unfolding value_kind_of_def is_cell_def is_number_def b by (auto simp: value_consts)
  show "value_kind_of v = VUndefined \<longleftrightarrow> v = VALUE_UNDEFINED" "value_kind_of v = VNull \<longleftrightarrow> v = VALUE_NULL"
    unfolding value_kind_of_def b using num by (auto simp: value_consts)
qed

text \<open>
  C37: Every value has one kind, and the tests and accessors agree with it: a value gives a number
  exactly when its kind is numeric, a boolean exactly when it is one, a cell exactly when it is one,
  and what the constructors put in comes back, for a cell when its address is below \<open>2 ^ 41\<close>.
\<close>

theorem value_kinds_agree:
  assumes "in_i32 i" and "unat p < 2 ^ 41"
  shows "(is_cell v \<longleftrightarrow> value_kind_of v = VCell) \<and> (as_bool v \<noteq> None \<longleftrightarrow> value_kind_of v = VBoolean) \<and>
    (as_number v \<noteq> None \<longleftrightarrow> value_kind_of v = VInt32 \<or> value_kind_of v = VDouble) \<and>
    (is_undefined_or_null v \<longleftrightarrow> value_kind_of v = VUndefined \<or> value_kind_of v = VNull) \<and>
    value_kind_of js_undefined = VUndefined \<and> value_kind_of js_null = VNull \<and>
    as_bool (from_bool b) = Some b \<and> as_number (from_i32 i) = Some (Int32 i) \<and>
    as_cell (from_cell p) = Some (from_cell p) \<and> pointer_payload_bits (from_cell p) = p"
proof -
  have "as_number v \<noteq> None \<longleftrightarrow> value_kind_of v = VInt32 \<or> value_kind_of v = VDouble"
    by (simp add: as_number_def value_kind_number)
  moreover have "as_bool (from_bool b) = Some b"
    unfolding as_bool_def boolean_cases by (cases b) (simp_all add: from_bool_def value_consts)
  moreover have "as_cell (from_cell p) = Some (from_cell p)"
    using cell_value [OF assms(2)] by (simp add: as_cell_def is_cell_def)
  ultimately show ?thesis
    using from_i32_value(2) [OF assms(1)] cell_value(3) [OF assms(2)]
    by (auto simp: value_kind_cases as_bool_def undefined_or_null_cases js_undefined_def js_null_def)
qed

theorem value_kinds_agree_witness:
  "as_number (from_i32 (-7)) = Some (Int32 (-7)) \<and> pointer_payload_bits (from_cell 0x12340) = 0x12340"
  using value_kinds_agree [of "-7" "0x12340"] by (simp add: in_i32_def)

section \<open>Equality\<close>

lemma numeric_equal_doubles:
  "numeric_equal (from_double a) (from_double b) mode \<longleftrightarrow>
     (if f_is_nan a \<or> f_is_nan b then mode = SameValue \<and> f_is_nan a \<and> f_is_nan b
      else f_equal a b \<and> (mode = SameValue \<longrightarrow> f_sign_negative a = f_sign_negative b))"
proof -
  have "f_sign_negative a = f_sign_negative b" if "f_equal a b" "\<not> (f_zero a \<and> f_zero b)"
    using that f_scaled_sign [of a b] by (auto simp: f_equal_def f_zero_iff)
  moreover have "f_equal a b" if "f_zero a" "f_zero b" using that by (simp add: f_zero_iff f_equal_def)
  ultimately show ?thesis
    using from_double_number [of a] from_double_number [of b] by (auto simp: numeric_equal_def pnan_is_nan)
qed

lemma f_equal_sign_iff: "f_equal a b \<and> f_sign_negative a = f_sign_negative b \<longleftrightarrow> \<not> f_is_nan a \<and> a = b"
  using f_scaled_inj [of a b] by (auto simp: f_equal_def)

text \<open>
  C38: On numbers, \<open>===\<close> is IEEE equality of the doubles that were boxed, however each of them is
  stored, and SameValue is equality of the bits with all NaNs the same; a number is true exactly when
  it is neither a NaN nor a zero.
\<close>

theorem number_equality_correct:
  "(strict_equals (from_double a) (from_double b) \<longleftrightarrow> f_equal a b) \<and>
   (same_value (from_double a) (from_double b) \<longleftrightarrow> f_is_nan a \<and> f_is_nan b \<or> \<not> f_is_nan a \<and> a = b) \<and>
   (pure_to_boolean (from_double a) \<longleftrightarrow> \<not> f_is_nan a \<and> \<not> f_zero a)"
proof -
  note num = from_double_number
  have kinds: "value_kind_of (from_double x) \<noteq> VUndefined" "value_kind_of (from_double x) \<noteq> VNull"
    "value_kind_of (from_double x) \<noteq> VBoolean" "value_kind_of (from_double x) \<noteq> VCell" for x
    using num [of x] by (auto simp: is_numeric_kind_def)
  have strict: "strict_equals (from_double a) (from_double b) \<longleftrightarrow> numeric_equal (from_double a) (from_double b) Strict"
    using kinds num by (simp add: strict_equals_def Let_def)
  have same: "same_value (from_double a) (from_double b) \<longleftrightarrow> numeric_equal (from_double a) (from_double b) SameValue"
    using num by (simp add: same_value_def)
  have bool: "pure_to_boolean (from_double a) \<longleftrightarrow> \<not> f_is_nan a \<and> \<not> f_zero a"
  proof (cases "value_kind_of (from_double a) = VInt32")
    case True
    then obtain i where i: "as_number (from_double a) = Some (Int32 i)"
      by (simp add: value_kind_number as_number_def)
    then have fi: "f_of_i32 i = (if f_is_nan a then PNAN_BITS else a)"
      using num [of a] by (simp add: numeric_as_f64_def)
    have "i = sint (ucast (from_double a) :: u32)" using i by (simp add: as_number_def split: if_splits)
    then have "in_i32 i"
      using sint_ge [of "ucast (from_double a) :: u32"] sint_lt [of "ucast (from_double a) :: u32"]
      by (simp add: in_i32_def)
    with fi have "i = 0 \<longleftrightarrow> f_zero a" "\<not> f_is_nan a"
      using f_of_i32_parts [OF \<open>in_i32 i\<close>] by (auto simp: f_zero_iff pnan_is_nan split: if_splits)
    then show ?thesis using True i by (simp add: pure_to_boolean_def)
  next
    case False
    then have d: "value_kind_of (from_double a) = VDouble" using num [of a] by (auto simp: is_numeric_kind_def)
    then have "as_number (from_double a) = Some (DoubleBits (from_double a))"
      using False by (simp add: as_number_def value_kind_number)
    moreover from this have "to_f64 (from_double a) = (if f_is_nan a then PNAN_BITS else a)"
      using num [of a] by (simp add: numeric_as_f64_def)
    ultimately show ?thesis using d pnan_is_nan by (simp add: pure_to_boolean_def Let_def)
  qed
  show ?thesis
    using strict same bool numeric_equal_doubles f_equal_sign_iff [of a b] by (auto simp: f_equal_def)
qed

text \<open>
  SameValueZero as written is plain equality on numbers, so a NaN is not the same value as
  itself, where ECMAScript's SameValueZero (and the interpreter's own copy of it) makes it so.
\<close>

lemma same_value_zero_rejects_nan:
  "same_value_zero (from_double a) (from_double b) \<longleftrightarrow> f_equal a b"
  using from_double_number [of a] from_double_number [of b] numeric_equal_doubles [of a b SameValueZero]
  by (auto simp: same_value_zero_def f_equal_def)

end
