(* ===== verification/Weak_Marking.thy ===== *)
theory Weak_Marking
  imports Marked_Space Js_Value
begin

text \<open>
  Marking in the presence of weak maps (\<open>src/src/interpreter/object_store.rs\<close>): after the stack is
  drained, the value of every entry whose map and key are marked is appended and the stack is drained
  again, until a pass over the maps appends nothing.

  The store is seen through two parameters: the addresses of its weak maps, and the entries of the
  map at an address, \<open>None\<close> when it has no entry list.  A runtime value is a \<open>JsValue\<close>.  The second
  space of the store, that of structures, is left out.
\<close>

section \<open>The model\<close>

definition weak_collection_key_is_marked :: "marked_space \<Rightarrow> arena \<Rightarrow> js_value \<Rightarrow> bool" where
  "weak_collection_key_is_marked ms ar key =
     (case as_cell key of
        None \<Rightarrow> True
      | Some c \<Rightarrow>
          (case is_arena_cell ms (unat (pointer_payload_bits c)) of
             Some cp \<Rightarrow> collector_is_marked ar cp
           | None \<Rightarrow> True))"

definition visit_cell_edge :: "marked_space \<Rightarrow> u64 \<Rightarrow> marking \<Rightarrow> marking option" where
  "visit_cell_edge ms cell m =
     (let addr = unat (pointer_payload_bits cell)
      in case is_arena_cell ms addr of
           None \<Rightarrow> Some m
         | Some cp \<Rightarrow> if is_precise addr then None else Some (append_unbarriered cp m))"

definition trace_value_edge :: "marked_space \<Rightarrow> js_value \<Rightarrow> marking \<Rightarrow> marking option" where
  "trace_value_edge ms v m = (case as_cell v of None \<Rightarrow> Some m | Some cell \<Rightarrow> visit_cell_edge ms cell m)"

fun visit_entries :: "marked_space \<Rightarrow> (js_value \<times> js_value) list \<Rightarrow> marking \<Rightarrow> marking option" where
  "visit_entries ms [] m = Some m"
| "visit_entries ms ((key, v) # entries) m = do {
     m1 \<leftarrow> (if weak_collection_key_is_marked ms (fst m) key then trace_value_edge ms v m else Some m);
     visit_entries ms entries m1
   }"

type_synonym weak_entries = "nat \<Rightarrow> (js_value \<times> js_value) list option"

text \<open>One pass over the weak maps.\<close>

fun visit_weak_maps :: "marked_space \<Rightarrow> weak_entries \<Rightarrow> nat list \<Rightarrow> marking \<Rightarrow> marking option" where
  "visit_weak_maps ms entries_of [] m = Some m"
| "visit_weak_maps ms entries_of (addr # addrs) m = do {
     m1 \<leftarrow> (case is_arena_cell ms addr of
               None \<Rightarrow> Some m
             | Some cp \<Rightarrow>
                 if \<not> collector_is_marked (fst m) cp then Some m
                 else case entries_of addr of
                        None \<Rightarrow> Some m
                      | Some entries \<Rightarrow> visit_entries ms entries m);
     visit_weak_maps ms entries_of addrs m1
   }"

partial_function (option) visit_weak_map_output_constraints ::
  "marked_space \<Rightarrow> weak_entries \<Rightarrow> nat list \<Rightarrow> (arena \<Rightarrow> nat \<Rightarrow> nat list) \<Rightarrow> marking \<Rightarrow> marking option" where
  "visit_weak_map_output_constraints ms entries_of addrs classes m =
     do {
       m1 \<leftarrow> visit_weak_maps ms entries_of addrs m;
       (if sv_visit_count (snd m1) = sv_visit_count (snd m) then Some m1
        else do {
          m2 \<leftarrow> drain classes m1;
          visit_weak_map_output_constraints ms entries_of addrs classes m2
        })
     }"

declare visit_weak_map_output_constraints.simps [code]

text \<open>The roots pass the membership gate; a large cell among them fails an assertion.\<close>

fun gate_roots :: "marked_space \<Rightarrow> nat list \<Rightarrow> nat list option" where
  "gate_roots ms [] = Some []"
| "gate_roots ms (addr # addrs) =
     (case is_arena_cell ms addr of
        None \<Rightarrow> gate_roots ms addrs
      | Some cp \<Rightarrow> if is_precise addr then None else map_option ((#) cp) (gate_roots ms addrs))"

definition mark_live_set_from_addrs ::
  "(arena \<Rightarrow> nat \<Rightarrow> nat list) \<Rightarrow> weak_entries \<Rightarrow> nat list \<Rightarrow> nat list \<Rightarrow> arena \<Rightarrow> marked_space
     \<Rightarrow> marking option" where
  "mark_live_set_from_addrs classes entries_of weak_map_space_addrs root_addrs ar ms = do {
     seeds \<leftarrow> gate_roots ms root_addrs;
     m \<leftarrow> mark_from_roots classes seeds (clear_all_marks ms ar, sv_new);
     visit_weak_map_output_constraints ms entries_of weak_map_space_addrs classes m
   }"

section \<open>What is alive\<close>

definition value_cell :: "marked_space \<Rightarrow> js_value \<Rightarrow> nat option" where
  "value_cell ms v = (case as_cell v of None \<Rightarrow> None | Some c \<Rightarrow> is_arena_cell ms (unat (pointer_payload_bits c)))"

definition weak_entry :: "marked_space \<Rightarrow> weak_entries \<Rightarrow> nat list \<Rightarrow> nat \<Rightarrow> js_value \<Rightarrow> nat \<Rightarrow> bool" where
  "weak_entry ms entries_of addrs w key a \<longleftrightarrow>
     w \<in> set addrs \<and> is_arena_cell ms w \<noteq> None \<and>
     (\<exists>entries v. entries_of w = Some entries \<and> (key, v) \<in> set entries \<and> value_cell ms v = Some a)"

text \<open>
  The least set that has the roots, the children of its members, and the values of the entries of
  its weak maps whose keys it has, a key that is not a cell of the heap counting as alive.
\<close>

inductive_set weakly_live :: "(nat \<Rightarrow> nat list) \<Rightarrow> (nat \<Rightarrow> js_value \<Rightarrow> nat \<Rightarrow> bool) \<Rightarrow> (js_value \<Rightarrow> nat option) \<Rightarrow> nat set \<Rightarrow> nat set"
  for edges entry key_cell roots
where
  root: "r \<in> roots \<Longrightarrow> r \<in> weakly_live edges entry key_cell roots"
| child: "c \<in> weakly_live edges entry key_cell roots \<Longrightarrow> d \<in> set (edges c) \<Longrightarrow>
    d \<in> weakly_live edges entry key_cell roots"
| strong_key: "w \<in> weakly_live edges entry key_cell roots \<Longrightarrow> entry w key a \<Longrightarrow> key_cell key = None \<Longrightarrow>
    a \<in> weakly_live edges entry key_cell roots"
| weak_key: "w \<in> weakly_live edges entry key_cell roots \<Longrightarrow> entry w key a \<Longrightarrow> key_cell key = Some k \<Longrightarrow>
    k \<in> weakly_live edges entry key_cell roots \<Longrightarrow> a \<in> weakly_live edges entry key_cell roots"

definition live_cells ::
  "(arena \<Rightarrow> nat \<Rightarrow> nat list) \<Rightarrow> weak_entries \<Rightarrow> nat list \<Rightarrow> arena \<Rightarrow> marked_space \<Rightarrow> nat set \<Rightarrow> nat set" where
  "live_cells classes entries_of addrs ar ms roots =
     weakly_live (classes ar) (weak_entry ms entries_of addrs) (value_cell ms) roots"

section \<open>One pass\<close>

lemma is_arena_cell_same: "is_arena_cell ms addr = Some a \<Longrightarrow> a = addr"
  by (auto simp: is_arena_cell_def Let_def split: if_splits)

definition key_in :: "marked_space \<Rightarrow> nat set \<Rightarrow> js_value \<Rightarrow> bool" where
  "key_in ms L key \<longleftrightarrow> (case value_cell ms key of None \<Rightarrow> True | Some a \<Rightarrow> a \<in> L)"

text \<open>Weak maps, keys and values that the gate admits are cells.\<close>

definition entries_ok :: "marked_space \<Rightarrow> arena \<Rightarrow> (js_value \<times> js_value) list \<Rightarrow> bool" where
  "entries_ok ms ar entries \<longleftrightarrow>
     (\<forall>(key, v)\<in>set entries. \<forall>a. value_cell ms key = Some a \<or> value_cell ms v = Some a \<longrightarrow>
        a \<in> heap_cells (mbs_set (ms_blocks ms)) ar)"

definition weak_maps_ok :: "marked_space \<Rightarrow> arena \<Rightarrow> weak_entries \<Rightarrow> nat list \<Rightarrow> bool" where
  "weak_maps_ok ms ar entries_of addrs \<longleftrightarrow>
     (\<forall>w\<in>set addrs. (is_arena_cell ms w \<noteq> None \<longrightarrow> w \<in> heap_cells (mbs_set (ms_blocks ms)) ar) \<and>
        (\<forall>entries. entries_of w = Some entries \<longrightarrow> entries_ok ms ar entries))"

abbreviation marked :: "marked_space \<Rightarrow> marking \<Rightarrow> nat set" where
  "marked ms m \<equiv> marked_cells (mbs_set (ms_blocks ms)) (fst m)"

abbreviation marks_ok :: "marked_space \<Rightarrow> arena \<Rightarrow> marking \<Rightarrow> bool" where
  "marks_ok ms ar m \<equiv> marking_ok (mbs_set (ms_blocks ms)) ar m"

lemma append_cell_marks:
  assumes "marks_ok ms ar m" and "c \<in> heap_cells (mbs_set (ms_blocks ms)) ar"
  shows "marks_ok ms ar (append_cell c m)" and "marked ms (append_cell c m) = insert c (marked ms m)"
  using assms sv.append_marked [OF assms(1), of c] sv.append_valid [OF assms] sv.append_marks [OF assms]
  by (cases "c \<in> marked ms m"; auto)+

lemma collector_mark_bit:
  assumes "marks_ok ms ar m" and "a \<in> heap_cells (mbs_set (ms_blocks ms)) ar"
  shows "collector_is_marked (fst m) a \<longleftrightarrow> a \<in> marked ms m" and "\<not> is_precise a"
proof -
  have ok: "blocks_ok (mbs_set (ms_blocks ms)) ar" using assms(1) by (auto simp: marking_ok_def split: prod.splits)
  show "\<not> is_precise a" by (rule aligned_not_precise) (rule heap_cell(2) [OF ok assms(2)])
  then show "collector_is_marked (fst m) a \<longleftrightarrow> a \<in> marked ms m"
    using marked_cells_iff [OF ok assms(2)] by (simp add: collector_is_marked_def)
qed

lemma visit_entry:
  assumes "marks_ok ms ar m" and "entries_ok ms ar ((key, v) # entries)"
  shows "weak_collection_key_is_marked ms (fst m) key \<longleftrightarrow> key_in ms (marked ms m) key"
    and "trace_value_edge ms v m = Some (case value_cell ms v of None \<Rightarrow> m | Some a \<Rightarrow> append_cell a m)"
proof -
  have h: "a \<in> heap_cells (mbs_set (ms_blocks ms)) ar" if "value_cell ms key = Some a \<or> value_cell ms v = Some a" for a
    using assms(2) that by (auto simp: entries_ok_def)
  note bit = collector_mark_bit [OF assms(1) h]
  show "weak_collection_key_is_marked ms (fst m) key \<longleftrightarrow> key_in ms (marked ms m) key"
    using bit(1) unfolding weak_collection_key_is_marked_def key_in_def value_cell_def
    by (auto split: option.splits)
  show "trace_value_edge ms v m = Some (case value_cell ms v of None \<Rightarrow> m | Some a \<Rightarrow> append_cell a m)"
  proof (cases "value_cell ms v")
    case None
    then show ?thesis
      by (auto simp: trace_value_edge_def visit_cell_edge_def value_cell_def Let_def split: option.splits)
  next
    case (Some a)
    then obtain c where c: "as_cell v = Some c" "is_arena_cell ms (unat (pointer_payload_bits c)) = Some a"
      by (auto simp: value_cell_def split: option.splits)
    moreover have "\<not> is_precise (unat (pointer_payload_bits c))"
      using bit(2) Some is_arena_cell_same [OF c(2)] by simp
    ultimately show ?thesis using Some by (simp add: trace_value_edge_def visit_cell_edge_def Let_def)
  qed
qed

text \<open>
  A pass over entries, each a weak map with a key and the cell of a value, appends some cells: only
  such as belong to every set that has the marked cells and respects the entries, and all whose map
  and key are marked.
\<close>

definition active :: "marked_space \<Rightarrow> nat set \<Rightarrow> nat \<Rightarrow> js_value \<Rightarrow> bool" where
  "active ms L w key \<longleftrightarrow> w \<in> L \<and> key_in ms L key"

definition pass_ok ::
  "marked_space \<Rightarrow> arena \<Rightarrow> (nat \<times> js_value \<times> nat) set \<Rightarrow> marking \<Rightarrow> nat list \<Rightarrow> bool" where
  "pass_ok ms ar cons m vs \<longleftrightarrow>
     set vs \<subseteq> heap_cells (mbs_set (ms_blocks ms)) ar \<and>
     (\<forall>L. marked ms m \<subseteq> L \<longrightarrow> (\<forall>w key a. (w, key, a) \<in> cons \<longrightarrow> active ms L w key \<longrightarrow> a \<in> L) \<longrightarrow> set vs \<subseteq> L) \<and>
     (\<forall>w key a. (w, key, a) \<in> cons \<longrightarrow> active ms (marked ms m) w key \<longrightarrow> a \<in> set vs)"

definition pass_result ::
  "marked_space \<Rightarrow> arena \<Rightarrow> (nat \<times> js_value \<times> nat) set \<Rightarrow> marking \<Rightarrow> marking option \<Rightarrow> bool" where
  "pass_result ms ar cons m r \<longleftrightarrow> (\<exists>vs. r = Some (fold append_cell vs m) \<and> pass_ok ms ar cons m vs)"

lemma pass_okD:
  assumes "pass_ok ms ar cons m vs"
  shows "set vs \<subseteq> heap_cells (mbs_set (ms_blocks ms)) ar"
    and "marked ms m \<subseteq> L \<Longrightarrow> (\<And>w key a. (w, key, a) \<in> cons \<Longrightarrow> active ms L w key \<Longrightarrow> a \<in> L) \<Longrightarrow> set vs \<subseteq> L"
    and "(w, key, a) \<in> cons \<Longrightarrow> active ms (marked ms m) w key \<Longrightarrow> a \<in> set vs"
  using assms unfolding pass_ok_def by simp_all

lemma fold_append_marks:
  assumes "marks_ok ms ar m" and "set vs \<subseteq> heap_cells (mbs_set (ms_blocks ms)) ar"
  shows "marks_ok ms ar (fold append_cell vs m) \<and> marked ms (fold append_cell vs m) = marked ms m \<union> set vs"
  using assms
proof (induction vs arbitrary: m)
  case (Cons v vs)
  have v: "v \<in> heap_cells (mbs_set (ms_blocks ms)) ar" using Cons.prems(2) by simp
  note a = append_cell_marks [OF Cons.prems(1) v]
  have "set vs \<subseteq> heap_cells (mbs_set (ms_blocks ms)) ar" using Cons.prems(2) by simp
  from Cons.IH [OF a(1) this] show ?case
    unfolding fold_Cons comp_def a(2) by (simp only: list.set Un_insert_left Un_insert_right)
qed simp

lemma active_mono: "active ms L w key \<Longrightarrow> L \<subseteq> L' \<Longrightarrow> active ms L' w key"
  by (auto simp: active_def key_in_def split: option.splits)

lemma pass_result_seq:
  assumes r1: "pass_result ms ar A m r1" and m: "marks_ok ms ar m"
    and r2: "\<And>m1. marks_ok ms ar m1 \<Longrightarrow> marked ms m \<subseteq> marked ms m1 \<Longrightarrow> pass_result ms ar B m1 (f m1)"
  shows "pass_result ms ar (A \<union> B) m (r1 \<bind> f)"
proof -
  obtain vs where vs: "r1 = Some (fold append_cell vs m)" and p1: "pass_ok ms ar A m vs"
    using r1 unfolding pass_result_def by (elim exE conjE)
  note d1 = pass_okD [OF p1]
  note m1 = fold_append_marks [OF m d1(1)]
  have "marked ms m \<subseteq> marked ms (fold append_cell vs m)" using m1 by blast
  from r2 [OF conjunct1 [OF m1] this]
  obtain ws where ws: "f (fold append_cell vs m) = Some (fold append_cell ws (fold append_cell vs m))"
    and p2: "pass_ok ms ar B (fold append_cell vs m) ws"
    unfolding pass_result_def by blast
  note d2 = pass_okD [OF p2, unfolded conjunct2 [OF m1]]
  have "pass_ok ms ar (A \<union> B) m (vs @ ws)"
    unfolding pass_ok_def
  proof (intro conjI allI impI)
    show "set (vs @ ws) \<subseteq> heap_cells (mbs_set (ms_blocks ms)) ar" using d1(1) d2(1) by simp
    show "set (vs @ ws) \<subseteq> L"
      if L: "marked ms m \<subseteq> L" "\<forall>w key a. (w, key, a) \<in> A \<union> B \<longrightarrow> active ms L w key \<longrightarrow> a \<in> L" for L
    proof -
      have "set vs \<subseteq> L" using L by (intro d1(2)) auto
      moreover from this have "set ws \<subseteq> L" using L by (intro d2(2)) auto
      ultimately show ?thesis by simp
    qed
    show "a \<in> set (vs @ ws)" if "(w, key, a) \<in> A \<union> B" "active ms (marked ms m) w key" for w key a
      using d1(3) [of w key a] d2(3) [of w key a] that active_mono [OF that(2), of "marked ms m \<union> set vs"] by auto
  qed
  moreover have "r1 \<bind> f = Some (fold append_cell (vs @ ws) m)" using vs ws by simp
  ultimately show ?thesis unfolding pass_result_def by blast
qed

lemma pass_result_one:
  assumes "a \<in> heap_cells (mbs_set (ms_blocks ms)) ar" and "active ms (marked ms m) w key"
  shows "pass_result ms ar {(w, key, a)} m (Some (append_cell a m))"
  unfolding pass_result_def pass_ok_def
  by (rule exI [of _ "[a]"]) (use assms active_mono in auto)

lemma pass_result_skip:
  assumes "\<And>w key a. (w, key, a) \<in> cons \<Longrightarrow> \<not> active ms (marked ms m) w key"
  shows "pass_result ms ar cons m (Some m)"
  unfolding pass_result_def pass_ok_def by (rule exI [of _ "[]"]) (use assms in auto)

definition entry_cons :: "marked_space \<Rightarrow> nat \<Rightarrow> (js_value \<times> js_value) list \<Rightarrow> (nat \<times> js_value \<times> nat) set" where
  "entry_cons ms w entries = {(w', key, a). w' = w \<and> (\<exists>v. (key, v) \<in> set entries \<and> value_cell ms v = Some a)}"

lemma visit_entries_pass:
  assumes "marks_ok ms ar m" and "entries_ok ms ar entries" and "w \<in> marked ms m"
  shows "pass_result ms ar (entry_cons ms w entries) m (visit_entries ms entries m)"
  using assms
proof (induction entries arbitrary: m)
  case Nil
  then show ?case by (auto simp: entry_cons_def intro: pass_result_skip)
next
  case (Cons e entries)
  obtain key v where e: "e = (key, v)" by (cases e)
  note step = visit_entry [OF Cons.prems(1) Cons.prems(2) [unfolded e]]
  have rest: "entries_ok ms ar entries" using Cons.prems(2) by (simp add: entries_ok_def)
  let ?A = "case value_cell ms v of None \<Rightarrow> {} | Some a \<Rightarrow> {(w, key, a)}"
  have split: "entry_cons ms w (e # entries) = ?A \<union> entry_cons ms w entries"
    using e by (auto simp: entry_cons_def split: option.splits)
  have step': "pass_result ms ar ?A m
      (if weak_collection_key_is_marked ms (fst m) key then trace_value_edge ms v m else Some m)"
  proof (cases "value_cell ms v")
    case None
    then show ?thesis using step(2) by (auto intro: pass_result_skip)
  next
    case (Some a)
    then have "a \<in> heap_cells (mbs_set (ms_blocks ms)) ar" using Cons.prems(2) e by (auto simp: entries_ok_def)
    then show ?thesis
      using Some step Cons.prems(3) by (auto simp: active_def intro: pass_result_one pass_result_skip)
  qed
  have rest': "pass_result ms ar (entry_cons ms w entries) m1 (visit_entries ms entries m1)"
    if "marks_ok ms ar m1" "marked ms m \<subseteq> marked ms m1" for m1
    using Cons.IH [OF that(1) rest] Cons.prems(3) that(2) by blast
  show ?case
    using pass_result_seq [OF step' Cons.prems(1) rest'] unfolding split unfolding e visit_entries.simps by simp
qed

definition map_cons :: "marked_space \<Rightarrow> weak_entries \<Rightarrow> nat list \<Rightarrow> (nat \<times> js_value \<times> nat) set" where
  "map_cons ms entries_of addrs = {(w, key, a). weak_entry ms entries_of addrs w key a}"

lemma visit_weak_maps_pass:
  assumes "marks_ok ms ar m" and "weak_maps_ok ms ar entries_of addrs"
  shows "pass_result ms ar (map_cons ms entries_of addrs) m (visit_weak_maps ms entries_of addrs m)"
  using assms
proof (induction addrs arbitrary: m)
  case Nil
  then show ?case by (auto simp: map_cons_def weak_entry_def intro: pass_result_skip)
next
  case (Cons w addrs)
  let ?A = "{(w', key, a). w' = w \<and> weak_entry ms entries_of [w] w key a}"
  have split: "map_cons ms entries_of (w # addrs) = ?A \<union> map_cons ms entries_of addrs"
    by (auto simp: map_cons_def weak_entry_def)
  have rest: "weak_maps_ok ms ar entries_of addrs" using Cons.prems(2) by (simp add: weak_maps_ok_def)
  let ?r = "case is_arena_cell ms w of
               None \<Rightarrow> Some m
             | Some cp \<Rightarrow>
                 if \<not> collector_is_marked (fst m) cp then Some m
                 else case entries_of w of
                        None \<Rightarrow> Some m
                      | Some entries \<Rightarrow> visit_entries ms entries m"
  have step: "pass_result ms ar ?A m ?r"
  proof (cases "is_arena_cell ms w")
    case None
    then show ?thesis by (auto simp: weak_entry_def intro: pass_result_skip)
  next
    case (Some cp)
    then have w: "w \<in> heap_cells (mbs_set (ms_blocks ms)) ar" "cp = w"
      using Cons.prems(2) is_arena_cell_same by (auto simp: weak_maps_ok_def)
    note bit = collector_mark_bit(1) [OF Cons.prems(1) w(1)]
    show ?thesis
    proof (cases "entries_of w = None \<or> w \<notin> marked ms m")
      case True
      moreover from this have "?r = Some m" using Some w(2) bit by (auto split: option.splits)
      ultimately show ?thesis by (auto simp: weak_entry_def active_def intro!: pass_result_skip)
    next
      case False
      then obtain entries where entries: "entries_of w = Some entries" "w \<in> marked ms m" by auto
      then have "entries_ok ms ar entries" using Cons.prems(2) by (simp add: weak_maps_ok_def)
      note pass = visit_entries_pass [OF Cons.prems(1) this entries(2)]
      have "?A = entry_cons ms w entries" using entries(1) Some by (auto simp: weak_entry_def entry_cons_def)
      moreover have "?r = visit_entries ms entries m" using Some w(2) bit entries by simp
      ultimately show ?thesis using pass by simp
    qed
  qed
  have rest': "pass_result ms ar (map_cons ms entries_of addrs) m1 (visit_weak_maps ms entries_of addrs m1)"
    if "marks_ok ms ar m1" for m1 using Cons.IH [OF that rest] .
  show ?case
    using pass_result_seq [OF step Cons.prems(1) rest'] unfolding split visit_weak_maps.simps by simp
qed

section \<open>The fixpoint\<close>

abbreviation sv_tri ::
  "(arena \<Rightarrow> nat \<Rightarrow> nat list) \<Rightarrow> marked_space \<Rightarrow> arena \<Rightarrow> nat set \<Rightarrow> marking \<Rightarrow> bool" where
  "sv_tri classes ms ar roots m \<equiv>
     marker.tri (child_edges classes (mbs_set (ms_blocks ms)) ar) (marking_ok (mbs_set (ms_blocks ms)) ar)
       (\<lambda>s. marked_cells (mbs_set (ms_blocks ms)) (fst s)) (\<lambda>s. sv_collector_stack (snd s)) roots m"

lemma live_cells_closed:
  assumes "roots \<subseteq> live_cells classes entries_of addrs ar ms R"
  shows "reach (classes ar) roots \<subseteq> live_cells classes entries_of addrs ar ms R"
  using assms unfolding live_cells_def by (intro reach_least) (auto intro: weakly_live.child)

lemma live_cells_entries:
  assumes "weak_entry ms entries_of addrs w key a" and "active ms (live_cells classes entries_of addrs ar ms R) w key"
  shows "a \<in> live_cells classes entries_of addrs ar ms R"
  using assms unfolding live_cells_def active_def key_in_def
  by (auto intro: weakly_live.strong_key weakly_live.weak_key split: option.splits)

lemma live_cells_least:
  assumes "R \<subseteq> M" and "\<And>c. c \<in> M \<Longrightarrow> set (classes ar c) \<subseteq> M"
    and "\<And>w key a. weak_entry ms entries_of addrs w key a \<Longrightarrow> active ms M w key \<Longrightarrow> a \<in> M"
  shows "live_cells classes entries_of addrs ar ms R \<subseteq> M"
proof
  fix c assume "c \<in> live_cells classes entries_of addrs ar ms R"
  then show "c \<in> M" unfolding live_cells_def
  proof (induction rule: weakly_live.induct)
    case (strong_key w key a)
    then show ?case using assms(3) [of w key a] by (simp add: active_def key_in_def)
  next
    case (weak_key w key a k)
    then show ?case using assms(3) [of w key a] by (simp add: active_def key_in_def)
  qed (use assms in auto)
qed

lemma sv_tri_marks:
  assumes "sv_tri classes ms ar R m" and "sv_collector_stack (snd m) = []"
    and "stable_classes classes (mbs_set (ms_blocks ms)) ar"
    and "R \<subseteq> heap_cells (mbs_set (ms_blocks ms)) ar"
  shows "marked ms m = reach (classes ar) R" and "sv_visit_count (snd m) = card (marked ms m)"
    and "finite (marked ms m)"
proof -
  have "marked ms m = reach (child_edges classes (mbs_set (ms_blocks ms)) ar) R"
    using sv.finish [OF assms(1)] assms(2) by simp
  also have "\<dots> = reach (classes ar) R"
    using assms(4) child_edges_all [OF assms(3)] assms(3)
    by (intro reach_cong [of _ "heap_cells (mbs_set (ms_blocks ms)) ar"]) (auto simp: stable_classes_def)
  finally show "marked ms m = reach (classes ar) R" .
  have ok: "marks_ok ms ar m" by (rule tri_marking(1) [OF assms(1)])
  then show "sv_visit_count (snd m) = card (marked ms m)" by (auto simp: marking_ok_def split: prod.splits)
  have "marked ms m \<subseteq> heap_cells (mbs_set (ms_blocks ms)) ar" using ok by (auto simp: marking_ok_def split: prod.splits)
  then show "finite (marked ms m)" by (rule finite_subset) simp
qed

lemma fixpoint_reached:
  assumes tri: "sv_tri classes ms ar R' m" and empty: "sv_collector_stack (snd m) = []"
    and stable: "stable_classes classes (mbs_set (ms_blocks ms)) ar"
    and heap: "R' \<subseteq> heap_cells (mbs_set (ms_blocks ms)) ar"
    and R: "R \<subseteq> R'" "R' \<subseteq> live_cells classes entries_of addrs ar ms R"
    and pass: "pass_ok ms ar (map_cons ms entries_of addrs) m vs" and same: "set vs \<subseteq> marked ms m"
  shows "marked ms m = live_cells classes entries_of addrs ar ms R"
proof
  note m = sv_tri_marks [OF tri empty stable heap]
  show "marked ms m \<subseteq> live_cells classes entries_of addrs ar ms R"
    using live_cells_closed [OF R(2)] m(1) by simp
  have "R \<subseteq> marked ms m" using R(1) reach_roots [of R' "classes ar"] m(1) by blast
  moreover have "set (classes ar c) \<subseteq> marked ms m" if "c \<in> marked ms m" for c
    using reach_step [of c "classes ar" R'] that m(1) by auto
  moreover have "a \<in> marked ms m" if "weak_entry ms entries_of addrs w key a" "active ms (marked ms m) w key"
    for w key a using pass_okD(3) [OF pass _ that(2)] that(1) same by (auto simp: map_cons_def)
  ultimately show "live_cells classes entries_of addrs ar ms R \<subseteq> marked ms m"
    by (rule live_cells_least)
qed

lemma fold_append_idle:
  assumes "marks_ok ms ar m" and "set vs \<subseteq> marked ms m" shows "fold append_cell vs m = m"
  using assms by (induction vs) (simp_all add: sv.append_marked)

lemma constraints_converge:
  assumes stable: "stable_classes classes (mbs_set (ms_blocks ms)) ar"
    and maps: "weak_maps_ok ms ar entries_of addrs"
  shows "sv_tri classes ms ar R' m \<Longrightarrow> sv_collector_stack (snd m) = [] \<Longrightarrow>
    R' \<subseteq> heap_cells (mbs_set (ms_blocks ms)) ar \<Longrightarrow> R \<subseteq> R' \<Longrightarrow>
    R' \<subseteq> live_cells classes entries_of addrs ar ms R \<Longrightarrow>
    \<exists>m'. visit_weak_map_output_constraints ms entries_of addrs classes m = Some m' \<and>
      sv_collector_stack (snd m') = [] \<and> marks_ok ms ar m' \<and>
      marked ms m' = live_cells classes entries_of addrs ar ms R"
proof (induction "card (heap_cells (mbs_set (ms_blocks ms)) ar - marked ms m)" arbitrary: m R' rule: less_induct)
  case less
  note tri = less.prems(1) and empty = less.prems(2)
  note m = sv_tri_marks [OF tri empty stable less.prems(3)]
  have ok: "marks_ok ms ar m" by (rule tri_marking(1) [OF tri])
  obtain vs where run: "visit_weak_maps ms entries_of addrs m = Some (fold append_cell vs m)"
    and pass: "pass_ok ms ar (map_cons ms entries_of addrs) m vs"
    using visit_weak_maps_pass [OF ok maps] unfolding pass_result_def by blast
  note vs = pass_okD(1) [OF pass] and m1 = fold_append_marks [OF ok pass_okD(1) [OF pass]]
  have sub: "marked ms (fold append_cell vs m) \<subseteq> heap_cells (mbs_set (ms_blocks ms)) ar"
    using m1 by (auto simp: marking_ok_def split: prod.splits)
  then have fin: "finite (marked ms (fold append_cell vs m))" by (rule finite_subset) simp
  have count: "sv_visit_count (snd (fold append_cell vs m)) = card (marked ms (fold append_cell vs m))"
    using m1 by (auto simp: marking_ok_def split: prod.splits)
  show ?case
  proof (cases "set vs \<subseteq> marked ms m")
    case True
    note idle = fold_append_idle [OF ok True]
    have "visit_weak_map_output_constraints ms entries_of addrs classes m = Some m"
      using run idle by (subst visit_weak_map_output_constraints.simps) simp
    then show ?thesis
      using empty ok fixpoint_reached [OF tri empty stable less.prems(3,4,5) pass True] by simp
  next
    case False
    then have bigger: "marked ms m \<subset> marked ms (fold append_cell vs m)" using m1 by auto
    then have "card (marked ms m) < card (marked ms (fold append_cell vs m))"
      using fin by (rule psubset_card_mono [rotated])
    then have again: "sv_visit_count (snd (fold append_cell vs m)) \<noteq> sv_visit_count (snd m)"
      using count m(2) by simp
    have "sv_tri classes ms ar (R' \<union> set vs) (fold append_cell vs m)"
      by (rule sv.restart [OF tri empty vs])
    from drain_ends [OF stable this] obtain m2 where d: "drain classes (fold append_cell vs m) = Some m2"
      and empty2: "sv_collector_stack (snd m2) = []" and tri2: "sv_tri classes ms ar (R' \<union> set vs) m2" by blast
    have heap2: "R' \<union> set vs \<subseteq> heap_cells (mbs_set (ms_blocks ms)) ar" using less.prems(3) vs by simp
    note m2 = sv_tri_marks [OF tri2 empty2 stable heap2]
    have "marked ms m \<subset> marked ms m2"
      using m(1) m2(1) False reach_roots [of "R' \<union> set vs" "classes ar"] by (auto simp: reach_def)
    moreover have "marked ms m2 \<subseteq> heap_cells (mbs_set (ms_blocks ms)) ar"
      using tri_marking(1) [OF tri2] by (auto simp: marking_ok_def split: prod.splits)
    ultimately have dec: "card (heap_cells (mbs_set (ms_blocks ms)) ar - marked ms m2) <
        card (heap_cells (mbs_set (ms_blocks ms)) ar - marked ms m)"
      by (intro psubset_card_mono) auto
    have "set vs \<subseteq> live_cells classes entries_of addrs ar ms R"
      using live_cells_closed [OF less.prems(5)] m(1) live_cells_entries
      by (intro pass_okD(2) [OF pass]) (auto simp: map_cons_def)
    then have live2: "R' \<union> set vs \<subseteq> live_cells classes entries_of addrs ar ms R" using less.prems(5) by simp
    have "R \<subseteq> R' \<union> set vs" using less.prems(4) by blast
    from less.hyps [OF dec tri2 empty2 heap2 this live2] show ?thesis
      using run again d by (subst visit_weak_map_output_constraints.simps) simp
  qed
qed

section \<open>Clearing the marks\<close>

lemma header_after_clear_marks:
  "ar_header (fold clear_marks_block bs ar) b =
     (if b \<in> set bs then (ar_header ar b)\<lparr>bh_marks := replicate MARK_WORDS 0\<rparr> else ar_header ar b)"
  "ar_bytes (fold clear_marks_block bs ar) = ar_bytes ar"
  by (induction bs arbitrary: ar) (auto simp: clear_marks_block_def update_header_def)

lemma bytes_after_precise_clears:
  "ar_header (fold precise_clear_mark ps ar) = ar_header ar"
  "\<forall>a\<in>set ps. x \<noteq> precise_header a \<Longrightarrow> ar_bytes (fold precise_clear_mark ps ar) x = ar_bytes ar x"
  by (induction ps arbitrary: ar) (auto simp: precise_clear_mark_def)

lemma clear_all_marks_spec:
  assumes "space_ok ar ms"
  shows "marks_only ar (clear_all_marks ms ar)"
    and "list_all (block_has_no_marks (clear_all_marks ms ar)) (mbs_set (ms_blocks ms))"
    and "\<forall>a\<in>set (ms_precise_set ms). x \<noteq> precise_header a \<Longrightarrow> ar_bytes (clear_all_marks ms ar) x = ar_bytes ar x"
proof -
  have hdr: "ar_header (clear_all_marks ms ar) b =
      (if b \<in> set (mbs_set (ms_blocks ms)) then (ar_header ar b)\<lparr>bh_marks := replicate MARK_WORDS 0\<rparr>
       else ar_header ar b)" for b
    by (simp add: clear_all_marks_def bytes_after_precise_clears header_after_clear_marks)
  have "length (bh_marks (ar_header ar b)) = MARK_WORDS" if "b \<in> set (mbs_set (ms_blocks ms))" for b
    using space_blocks_ok [OF assms] that by (auto simp: blocks_ok_def list_all_iff block_ok_def)
  then show "marks_only ar (clear_all_marks ms ar)" by (simp add: marks_only_def hdr)
  show "list_all (block_has_no_marks (clear_all_marks ms ar)) (mbs_set (ms_blocks ms))"
    by (simp add: list_all_iff block_has_no_marks_def hdr)
  show "ar_bytes (clear_all_marks ms ar) x = ar_bytes ar x" if "\<forall>a\<in>set (ms_precise_set ms). x \<noteq> precise_header a"
    using that by (simp add: clear_all_marks_def bytes_after_precise_clears header_after_clear_marks)
qed

lemma space_ok_marks_only:
  assumes "space_ok ar ms" and "marks_only ar ar'" shows "space_ok ar' ms"
  using assms dir_ok_marks_only [OF assms(2)] by (auto simp: space_ok_def dirs_ok_def)

section \<open>The mark phase\<close>

definition admitted :: "marked_space \<Rightarrow> nat list \<Rightarrow> nat set" where
  "admitted ms addrs = {a \<in> set addrs. is_arena_cell ms a \<noteq> None}"

lemma gate_roots_admitted:
  assumes "admitted ms addrs \<subseteq> heap_cells bases ar" and "blocks_ok bases ar"
  shows "\<exists>seeds. gate_roots ms addrs = Some seeds \<and> set seeds = admitted ms addrs"
  using assms(1)
proof (induction addrs)
  case (Cons a addrs)
  have "admitted ms addrs \<subseteq> admitted ms (a # addrs)" by (auto simp: admitted_def)
  then obtain seeds where IH: "gate_roots ms addrs = Some seeds" "set seeds = admitted ms addrs"
    using Cons by blast
  show ?case
  proof (cases "is_arena_cell ms a")
    case None
    then show ?thesis using IH by (auto simp: admitted_def)
  next
    case (Some cp)
    then have "a \<in> heap_cells bases ar" using Cons.prems by (auto simp: admitted_def)
    then have "\<not> is_precise a" using heap_cell(2) [OF assms(2)] aligned_not_precise by blast
    then show ?thesis using Some IH is_arena_cell_same [OF Some] by (auto simp: admitted_def)
  qed
qed (simp add: admitted_def)

text \<open>The parameters of a collection: roots, children and entries of weak maps lie in the heap.\<close>

definition collection_ok ::
  "(arena \<Rightarrow> nat \<Rightarrow> nat list) \<Rightarrow> weak_entries \<Rightarrow> nat list \<Rightarrow> nat list \<Rightarrow> arena \<Rightarrow> marked_space \<Rightarrow> bool" where
  "collection_ok classes entries_of addrs roots ar ms \<longleftrightarrow>
     stable_classes classes (mbs_set (ms_blocks ms)) ar \<and> weak_maps_ok ms ar entries_of addrs \<and>
     admitted ms roots \<subseteq> heap_cells (mbs_set (ms_blocks ms)) ar"

lemma mark_live_set_result:
  assumes space: "space_ok ar ms"
    and ok: "collection_ok classes entries_of addrs roots (clear_all_marks ms ar) ms"
  shows "\<exists>m. mark_live_set_from_addrs classes entries_of addrs roots ar ms = Some m \<and>
    marks_ok ms (clear_all_marks ms ar) m \<and> sv_collector_stack (snd m) = [] \<and>
    marked ms m = live_cells classes entries_of addrs (clear_all_marks ms ar) ms (admitted ms roots)"
proof -
  let ?ar = "clear_all_marks ms ar" and ?B = "mbs_set (ms_blocks ms)"
  have stable: "stable_classes classes ?B ?ar" and maps: "weak_maps_ok ms ?ar entries_of addrs"
    and heap: "admitted ms roots \<subseteq> heap_cells ?B ?ar"
    using ok by (simp_all add: collection_ok_def)
  note cl = clear_all_marks_spec [OF space]
  have blocks: "blocks_ok ?B ?ar" by (rule space_blocks_ok [OF space_ok_marks_only [OF space cl(1)]])
  obtain seeds where seeds: "gate_roots ms roots = Some seeds" "set seeds = admitted ms roots"
    using gate_roots_admitted [OF heap blocks] by blast
  have "sv_new = sv_reset sv_new" by (simp add: sv_new_def sv_reset_def)
  then obtain m0 where m0: "mark_from_roots classes seeds (?ar, sv_new) = Some m0"
    and empty: "sv_collector_stack (snd m0) = []"
    and tri: "sv_tri classes ms ?ar (set seeds) m0"
    using mark_from_roots_tri [OF blocks cl(2) _ stable, of seeds sv_new] heap seeds(2) by auto
  have "admitted ms roots \<subseteq> live_cells classes entries_of addrs ?ar ms (admitted ms roots)"
    by (auto simp: live_cells_def intro: weakly_live.root)
  with constraints_converge [OF stable maps tri empty, of "admitted ms roots"] heap seeds(2)
  show ?thesis using seeds m0 by (auto simp: mark_live_set_from_addrs_def)
qed

lemma clear_all_marks_same:
  assumes "space_ok ar ms"
  shows "heap_cells bases (clear_all_marks ms ar) = heap_cells bases ar"
    and "space_ok (clear_all_marks ms ar) ms"
    and "blocks_ok (mbs_set (ms_blocks ms)) (clear_all_marks ms ar)"
proof -
  note m = clear_all_marks_spec(1) [OF assms]
  show "heap_cells bases (clear_all_marks ms ar) = heap_cells bases ar" by (rule marks_only_geometry(4) [OF m])
  show ok: "space_ok (clear_all_marks ms ar) ms" by (rule space_ok_marks_only [OF assms m])
  show "blocks_ok (mbs_set (ms_blocks ms)) (clear_all_marks ms ar)" by (rule space_blocks_ok [OF ok])
qed


section \<open>An entry that lives by its key\<close>

definition demo_entries :: weak_entries where
  "demo_entries w = (if w = 16768 then Some [(from_cell 17024, from_cell 17152)] else None)"

lemma demo_admits: "b \<in> {16768, 17024, 17152} \<Longrightarrow> is_arena_cell demo_space b = Some b"
  using arena_cell_block [OF demo_space_ok, of b]
  by (auto simp: is_precise_iff demo_space_parts is_atom_aligned_def block_for_def block_consts)

lemma demo_value_cell:
  "value_cell demo_space (from_cell 17024) = Some 17024" "value_cell demo_space (from_cell 17152) = Some 17152"
  using cell_value [of 17024] cell_value [of 17152] demo_admits
  by (simp_all add: value_cell_def as_cell_def is_cell_def)

lemma demo_collection_ok:
  "collection_ok demo_classes demo_entries [16768] [16768] (clear_all_marks demo_space one_block) demo_space"
proof -
  note same = clear_all_marks_same(1) [OF demo_space_ok]
  have "stable_classes demo_classes [16384] (clear_all_marks demo_space one_block)"
    using demo_cells by (auto simp: stable_classes_def same demo_classes_def)
  moreover have "weak_maps_ok demo_space (clear_all_marks demo_space one_block) demo_entries [16768]"
    using demo_cells by (auto simp: weak_maps_ok_def entries_ok_def demo_entries_def demo_value_cell same demo_space_parts)
  moreover have "admitted demo_space [16768] \<subseteq> heap_cells [16384] one_block"
    using demo_cells by (auto simp: admitted_def)
  ultimately show ?thesis by (simp add: collection_ok_def demo_space_parts same)
qed

lemma demo_live:
  "live_cells demo_classes demo_entries [16768] ar demo_space {16768} = {16768, 17024, 17152}" (is "?L = _")
proof
  show "?L \<subseteq> {16768, 17024, 17152}"
    by (rule live_cells_least)
      (auto simp: demo_classes_def weak_entry_def demo_entries_def demo_value_cell split: if_splits)
  have "16768 \<in> ?L" unfolding live_cells_def by (rule weakly_live.root) simp
  moreover from this have "17024 \<in> ?L"
    unfolding live_cells_def by (rule weakly_live.child) (simp add: demo_classes_def)
  moreover from calculation have "17152 \<in> ?L"
    using live_cells_entries [of demo_space demo_entries "[16768]" 16768 "from_cell 17024" 17152 demo_classes ar "{16768}"]
    by (simp add: active_def key_in_def demo_value_cell weak_entry_def demo_entries_def demo_admits)
  ultimately show "{16768, 17024, 17152} \<subseteq> ?L" by simp
qed

lemma demo_admitted: "admitted demo_space [16768] = {16768}"
  using demo_admits [of 16768] by (auto simp: admitted_def)


end
