(* ===== verification/Collection.thy ===== *)
theory Collection
  imports Weak_Marking
begin

text \<open>
  A whole collection of the heap: clearing the marks, marking from the roots with the values of weak
  maps whose keys are alive, sweeping every directory and returning the pages of empty blocks, in
  the order of \<open>force_collect\<close> in \<open>src/src/interpreter/object_store.rs\<close>.
\<close>

section \<open>Sweeping all directories\<close>

lemma dir_ok_cleared: "dir_ok ar d \<Longrightarrow> cleared B ar ar' \<Longrightarrow> dir_ok ar' d"
  using cleared_geometry(4) by (auto simp: dir_ok_def list_all_iff)

lemma dirs_ok_cleared: "dirs_ok ar dirs \<Longrightarrow> cleared B ar ar' \<Longrightarrow> dirs_ok ar' dirs"
  using dir_ok_cleared by (auto simp: dirs_ok_def)

lemma cleared_trans: "cleared A ar ar1 \<Longrightarrow> cleared B ar1 ar2 \<Longrightarrow> cleared (A \<union> B) ar ar2"
  by (simp add: cleared_def)

lemma cleared_reclaimed:
  assumes "cleared B ar ar'" shows "reclaimed_cells ar' d = reclaimed_cells ar d" and "kept_blocks ar' d = kept_blocks ar d"
    and "empty_blocks ar' d = empty_blocks ar d" and "cells_where is_marked ar' bs = cells_where is_marked ar bs"
    and "cells_where (\<lambda>ar c. \<not> is_marked ar c) ar' bs = cells_where (\<lambda>ar c. \<not> is_marked ar c) ar bs"
proof -
  note g = cleared_geometry(1-3) [OF assms]
  have m: "is_marked ar' = is_marked ar" by (rule ext) (rule g(2))
  have n: "block_has_no_marks ar' = block_has_no_marks ar" by (rule ext) (rule g(3))
  show k: "kept_blocks ar' d = kept_blocks ar d" "empty_blocks ar' d = empty_blocks ar d"
    by (simp_all add: kept_blocks_def empty_blocks_def n)
  show "reclaimed_cells ar' d = reclaimed_cells ar d" by (simp add: reclaimed_cells_def g(1) m k)
  show "cells_where is_marked ar' bs = cells_where is_marked ar bs" by (simp add: g(1) m)
  show "cells_where (\<lambda>ar c. \<not> is_marked ar c) ar' bs = cells_where (\<lambda>ar c. \<not> is_marked ar c) ar bs"
    by (simp add: g(1) m)
qed

lemma committed_same: "d1\<lparr>bd_free_list := fl\<rparr> = d \<Longrightarrow> committed d1 = committed d"
  by (auto simp: committed_def)

text \<open>The pages of a directory are out of reach of the cells of another.\<close>

lemma reclaimed_other_page:
  assumes "dir_ok ar d" and "c \<in> set (reclaimed_cells ar d)" and "BLOCK_SIZE dvd b" and "b \<notin> set (committed d)"
    and "b \<le> x" and "x < b + BLOCK_SIZE"
  shows "x < c + 8 \<or> c + 16 \<le> x"
proof -
  note rec = reclaimed_cell [OF assms(1,2)] and blk = dir_inv_block [OF assms(1)]
  note bd = block_cells_bounds(1,2) [OF blk(1) [OF rec(2)] rec(3)]
  have "BLOCK_SIZE dvd block_for c" using blk(3) [OF rec(2)] by (simp add: page_ok_def)
  moreover have "b \<noteq> block_for c" using assms(4) rec(2) by auto
  ultimately have "b + BLOCK_SIZE \<le> block_for c \<or> block_for c + BLOCK_SIZE \<le> b"
    using pages_apart [OF assms(3)] by blast
  moreover have "16 \<le> bd_cell_size d" using assms(1) by (simp add: dir_ok_def ATOM_SIZE_def)
  ultimately show ?thesis using bd blk(2) [OF rec(2)] assms(5,6) by linarith
qed

definition swept_dirs ::
  "arena \<Rightarrow> arena \<Rightarrow> (nat \<times> block_directory) list \<Rightarrow> (nat \<times> block_directory) list \<Rightarrow> bool" where
  "swept_dirs ar ar' dirs dirs' \<longleftrightarrow>
     list_all2 (\<lambda>e e'. fst e' = fst e \<and> dir_inv ar' (snd e') (reclaimed_cells ar (snd e)) \<and>
       (snd e')\<lparr>bd_free_list := bd_free_list (snd e)\<rparr> = snd e) dirs dirs'"

definition marked_count :: "arena \<Rightarrow> (nat \<times> block_directory) list \<Rightarrow> nat" where
  "marked_count ar dirs = sum_list (map (\<lambda>e. cells_where is_marked ar (committed (snd e))) dirs)"

lemma swept_others_frame:
  assumes ok: "dirs_ok ar ((k, d) # dirs)" and d1: "d1\<lparr>bd_free_list := bd_free_list d\<rparr> = d"
    and cl: "cleared (dirs_committed dirs) ar1 ar2"
    and bytes: "\<And>x. \<forall>e\<in>set dirs. \<forall>c\<in>set (reclaimed_cells ar (snd e)). x < c + 8 \<or> c + 16 \<le> x \<Longrightarrow>
        ar_bytes ar2 x = ar_bytes ar1 x"
  shows "same_blocks ar1 d1 ar2"
  unfolding same_blocks_def committed_same [OF d1]
proof (intro ballI conjI allI impI)
  note ok' = ok [unfolded dirs_ok_Cons]
  fix b assume b: "b \<in> set (committed d)"
  have other: "b \<notin> set (committed (snd e))" if "e \<in> set dirs" for e
    using ok' that b committed_subset [of d] committed_subset [of "snd e"] by blast
  then show "ar_header ar2 b = ar_header ar1 b" using cl by (auto simp: cleared_def dirs_committed_def)
  show "ar_bytes ar2 x = ar_bytes ar1 x" if x: "b \<le> x \<and> x < b + BLOCK_SIZE" for x
  proof (rule bytes, intro ballI)
    fix e c assume e: "e \<in> set dirs" and c: "c \<in> set (reclaimed_cells ar (snd e))"
    have "dir_ok ar (snd e)" using ok' e by (simp add: dirs_ok_def)
    moreover have "BLOCK_SIZE dvd b" using dir_inv_block(3) [of ar d] ok' b by (simp add: page_ok_def)
    ultimately show "x < c + 8 \<or> c + 16 \<le> x" using reclaimed_other_page c other [OF e] x by blast
  qed
qed

lemma sweep_directories_result:
  assumes "dirs_ok ar dirs" and "\<forall>e\<in>set dirs. \<exists>lim. spread_ok lim (snd e)"
  shows "\<exists>tot' ar' dirs'. sweep_directories dirs tot ar = Some (tot', ar', dirs') \<and>
    swept_dirs ar ar' dirs dirs' \<and> cleared (dirs_committed dirs) ar ar' \<and>
    (\<forall>x. (\<forall>e\<in>set dirs. \<forall>c\<in>set (reclaimed_cells ar (snd e)). x < c + 8 \<or> c + 16 \<le> x) \<longrightarrow>
       ar_bytes ar' x = ar_bytes ar x) \<and>
    sr_retained_cells tot' = sr_retained_cells tot + marked_count ar dirs"
  using assms
proof (induction dirs arbitrary: tot ar)
  case Nil
  then show ?case by (simp add: swept_dirs_def cleared_def marked_count_def)
next
  case (Cons e dirs)
  obtain k d where e: "e = (k, d)" by (cases e)
  note ok = Cons.prems(1) [unfolded e]
  then have okd: "dir_ok ar d" and okr: "dirs_ok ar dirs" by (simp_all add: dirs_ok_Cons)
  obtain lim where lim: "spread_ok lim d" using Cons.prems(2) e by auto
  let ?r = "count_results (bd_cell_size d) (cells_where (\<lambda>ar c. \<not> is_marked ar c) ar (committed d))
              (cells_where is_marked ar (committed d))"
  obtain ar1 d1 where sw: "sweep_all_blocks ar d = Some (?r, ar1, d1)"
    and inv1: "dir_inv ar1 d1 (reclaimed_cells ar d)" and cl: "cleared (set (committed d)) ar ar1"
    and by1: "\<And>x. \<forall>c\<in>set (reclaimed_cells ar d). x < c + 8 \<or> c + 16 \<le> x \<Longrightarrow> ar_bytes ar1 x = ar_bytes ar x"
    and d1: "d1\<lparr>bd_free_list := bd_free_list d\<rparr> = d"
    using sweep_all_blocks_result [OF okd lim] by blast
  have "\<forall>e\<in>set dirs. \<exists>lim. spread_ok lim (snd e)" using Cons.prems(2) by simp
  from Cons.IH [OF dirs_ok_cleared [OF okr cl] this, unfolded swept_dirs_def marked_count_def cleared_reclaimed [OF cl]]
  obtain tot2 ar2 dirs2 where sw2: "sweep_directories dirs (add_results tot ?r) ar1 = Some (tot2, ar2, dirs2)"
    and inv2: "swept_dirs ar ar2 dirs dirs2" and cl2: "cleared (dirs_committed dirs) ar1 ar2"
    and by2: "\<And>x. \<forall>e\<in>set dirs. \<forall>c\<in>set (reclaimed_cells ar (snd e)). x < c + 8 \<or> c + 16 \<le> x \<Longrightarrow>
        ar_bytes ar2 x = ar_bytes ar1 x"
    and n2: "sr_retained_cells tot2 = sr_retained_cells (add_results tot ?r) + marked_count ar dirs"
    unfolding swept_dirs_def marked_count_def by blast
  have "same_blocks ar1 d1 ar2" by (rule swept_others_frame [OF ok d1 cl2]) (rule by2)
  from dir_inv_frame [OF inv1 this] have "swept_dirs ar ar2 ((k, d) # dirs) ((k, d1) # dirs2)"
    using inv2 d1 by (simp add: swept_dirs_def)
  moreover have "sweep_directories ((k, d) # dirs) tot ar = Some (tot2, ar2, (k, d1) # dirs2)"
    using sw sw2 by simp
  moreover have "ar_bytes ar2 x = ar_bytes ar x"
    if "\<forall>e\<in>set ((k, d) # dirs). \<forall>c\<in>set (reclaimed_cells ar (snd e)). x < c + 8 \<or> c + 16 \<le> x" for x
    using by1 [of x] by2 [of x] that by simp
  moreover have "sr_retained_cells tot2 = sr_retained_cells tot + marked_count ar ((k, d) # dirs)"
    using n2 by (simp add: add_results_def count_results_def marked_count_def)
  ultimately show ?case using cleared_trans [OF cl cl2] e by (intro exI conjI) auto
qed

section \<open>Returning the pages of all directories\<close>

definition ready_dirs :: "arena \<Rightarrow> (nat \<times> block_directory) list \<Rightarrow> nat list list \<Rightarrow> bool" where
  "ready_dirs ar dirs css \<longleftrightarrow>
     list_all2 (\<lambda>e cells. dir_inv ar (snd e) cells \<and>
       (\<forall>c\<in>set cells. block_for c \<in> set (kept_blocks ar (snd e)))) dirs css"

definition shrunk_dirs ::
  "arena \<Rightarrow> arena \<Rightarrow> (nat \<times> block_directory) list \<Rightarrow> nat list list \<Rightarrow> (nat \<times> block_directory) list \<Rightarrow> bool" where
  "shrunk_dirs ar ar' dirs css dirs' \<longleftrightarrow>
     length css = length dirs \<and> list_all2 (\<lambda>(e, cells) e'. fst e' = fst e \<and> dir_inv ar' (snd e') cells \<and>
       committed (snd e') = kept_blocks ar (snd e) \<and> bd_cell_size_atoms (snd e') = bd_cell_size_atoms (snd e) \<and>
       bd_block_base_addr (snd e') = bd_block_base_addr (snd e)) (zip dirs css) dirs'"

definition dirs_empty :: "arena \<Rightarrow> (nat \<times> block_directory) list \<Rightarrow> nat list" where
  "dirs_empty ar dirs = concat (map (\<lambda>e. empty_blocks ar (snd e)) dirs)"

lemma page_frame_kept:
  assumes "page_frame P ar ar'" and "P \<inter> set (committed d) = {}"
  shows "kept_blocks ar' d = kept_blocks ar d" and "empty_blocks ar' d = empty_blocks ar d"
proof -
  have "block_has_no_marks ar' b = block_has_no_marks ar b" if "b \<in> set (committed d)" for b
  proof -
    have "ar_header ar' b = ar_header ar b" using assms that by (auto simp: page_frame_def)
    then show ?thesis by (simp add: block_has_no_marks_def)
  qed
  then show "kept_blocks ar' d = kept_blocks ar d" "empty_blocks ar' d = empty_blocks ar d"
    by (auto simp: kept_blocks_def empty_blocks_def cong: filter_cong)
qed

lemma empty_block_page: "dir_ok ar d \<Longrightarrow> b \<in> set (empty_blocks ar d) \<Longrightarrow> BLOCK_SIZE dvd b \<and> b \<in> set (committed d)"
  using dir_inv_block(3) [of ar d b] by (simp add: empty_blocks_def page_ok_def)

lemma dirs_ok_frame:
  assumes "dirs_ok ar dirs" and "\<And>e. e \<in> set dirs \<Longrightarrow> \<exists>cells. dir_inv ar' (snd e) cells"
  shows "dirs_ok ar' dirs"
  using assms by (force simp: dirs_ok_def dir_inv_def)

lemma shrink_directories_result:
  assumes "page_local decommit" and "dirs_ok ar dirs" and "ready_dirs ar dirs css"
    and "shrink_directories decommit dirs ar blocks = (ar', dirs', blocks')"
  shows "shrunk_dirs ar ar' dirs css dirs' \<and> blocks' = fold mbs_remove (dirs_empty ar dirs) blocks \<and>
    page_frame (set (dirs_empty ar dirs)) ar ar'"
  using assms(2-)
proof (induction dirs arbitrary: css ar blocks dirs')
  case Nil
  then show ?case by (simp add: shrunk_dirs_def dirs_empty_def page_frame_def ready_dirs_def)
next
  case (Cons e dirs)
  obtain k d where e: "e = (k, d)" by (cases e)
  obtain cells css' where css: "css = cells # css'" and inv: "dir_inv ar d cells"
    and kept: "\<And>c. c \<in> set cells \<Longrightarrow> block_for c \<in> set (kept_blocks ar d)" and ready: "ready_dirs ar dirs css'"
    using Cons.prems(2) e by (auto simp: ready_dirs_def list_all2_Cons1)
  note ok = Cons.prems(1) [unfolded e dirs_ok_Cons]
  then have okd: "dir_ok ar d" and okr: "dirs_ok ar dirs" by simp_all
  obtain newly ar1 d1 where sh: "bd_shrink decommit ar d = (newly, ar1, d1)" by (cases "bd_shrink decommit ar d") auto
  note s1 = bd_shrink_inv [OF inv assms(1) kept sh]
  then have newly: "newly = empty_blocks ar d" and inv1: "dir_inv ar1 d1 cells" by simp_all
  obtain dirs2 where sh2: "shrink_directories decommit dirs ar1 (fold mbs_remove newly blocks) = (ar', dirs2, blocks')"
    and dirs': "dirs' = (k, d1) # dirs2"
    using Cons.prems(3) e sh by (auto split: prod.splits)
  have dvd: "BLOCK_SIZE dvd p" if "p \<in> set newly" for p using empty_block_page [OF okd] that newly by blast
  have apart: "set newly \<inter> set (committed (snd e')) = {}" if "e' \<in> set dirs" for e'
    using ok that newly empty_block_page [OF okd] committed_subset [of d] committed_subset [of "snd e'"] by blast
  have okd': "dir_ok ar (snd e')" if "e' \<in> set dirs" for e' using okr that by (simp add: dirs_ok_def)
  have same: "same_blocks ar (snd e') ar1" if "e' \<in> set dirs" for e'
    by (rule page_frame_same_blocks [OF s1(2) okd' [OF that] apart [OF that] dvd])
  note kept1 = page_frame_kept [OF s1(2) apart]
  have ready1: "ready_dirs ar1 dirs css'"
    using ready unfolding ready_dirs_def
    by (rule list.rel_mono_strong) (use same kept1 in \<open>auto intro: dir_inv_frame\<close>)
  have "\<exists>cells. dir_inv ar1 (snd e') cells" if "e' \<in> set dirs" for e'
    using ready1 that by (auto simp: ready_dirs_def list_all2_conv_all_nth in_set_conv_nth)
  note ok1 = dirs_ok_frame [OF okr this]
  have empty1: "dirs_empty ar1 dirs = dirs_empty ar dirs" 
    using kept1(2) unfolding dirs_empty_def by (intro arg_cong [of _ _ concat] map_cong) simp_all
  note IH = Cons.IH [OF ok1 ready1 sh2, unfolded empty1]
  have "same_blocks ar1 d1 ar'"
  proof (rule page_frame_same_blocks)
    show "page_frame (set (dirs_empty ar dirs)) ar1 ar'" using IH by blast
    show "dir_ok ar1 d1" using inv1 by (simp add: dir_inv_def)
    have other: "p \<in> set (committed (snd e')) \<and> BLOCK_SIZE dvd p"
      if "e' \<in> set dirs" "p \<in> set (empty_blocks ar (snd e'))" for e' p
      using empty_block_page [OF okd' [OF that(1)] that(2)] by simp
    then show "BLOCK_SIZE dvd p" if "p \<in> set (dirs_empty ar dirs)" for p using that by (auto simp: dirs_empty_def)
    have "set (committed d1) \<subseteq> set (committed d)" using s1(1) by (auto simp: kept_blocks_def)
    moreover have "p \<notin> set (committed d)" if "e' \<in> set dirs" "p \<in> set (empty_blocks ar (snd e'))" for e' p
      using other [OF that] ok that(1) committed_subset [of d] committed_subset [of "snd e'"] by blast
    ultimately show "set (dirs_empty ar dirs) \<inter> set (committed d1) = {}" by (auto simp: dirs_empty_def)
  qed
  from dir_inv_frame [OF inv1 this]
  have head: "dir_inv ar' d1 cells" .
  have kept: "kept_blocks ar1 d' = kept_blocks ar d'" if "(k', d') \<in> set dirs" for k' d'
    using kept1(1) [of "(k', d')"] that by simp
  have "shrunk_dirs ar ar' dirs css' dirs2"
    using IH unfolding shrunk_dirs_def
    by (auto elim!: list.rel_mono_strong dest!: set_zip_leftD intro: kept)
  then have "shrunk_dirs ar ar' ((k, d) # dirs) (cells # css') ((k, d1) # dirs2)"
    using head s1 by (simp add: shrunk_dirs_def)
  moreover have "page_frame (set (dirs_empty ar ((k, d) # dirs))) ar ar'"
    using page_frame_trans [OF s1(2)] IH newly by (simp add: dirs_empty_def)
  ultimately show ?case using IH e css dirs' newly by (simp add: dirs_empty_def)
qed

section \<open>Sweeping and shrinking the space\<close>

definition collected_dirs ::
  "arena \<Rightarrow> arena \<Rightarrow> (nat \<times> block_directory) list \<Rightarrow> (nat \<times> block_directory) list \<Rightarrow> bool" where
  "collected_dirs ar ar' dirs dirs' \<longleftrightarrow>
     list_all2 (\<lambda>e e'. fst e' = fst e \<and> bd_cell_size_atoms (snd e') = bd_cell_size_atoms (snd e) \<and>
       bd_block_base_addr (snd e') = bd_block_base_addr (snd e) \<and>
       committed (snd e') = kept_blocks ar (snd e) \<and>
       dir_inv ar' (snd e') (reclaimed_cells ar (snd e))) dirs dirs'"

lemma collected_dirs_sets:
  assumes "collected_dirs ar ar' dirs dirs'"
  shows "map fst dirs' = map fst dirs" and "dirs_pages dirs' = dirs_pages dirs"
    and "dirs_committed dirs' = {b \<in> dirs_committed dirs. \<not> block_has_no_marks ar b}"
proof -
  have "list_all2 (\<lambda>e e'. fst e' = fst e \<and> bd_block_base_addr (snd e') = bd_block_base_addr (snd e) \<and>
       committed (snd e') = kept_blocks ar (snd e)) dirs dirs'"
    using assms unfolding collected_dirs_def by (rule list_all2_mono) blast
  then have "map fst dirs' = map fst dirs \<and> dirs_pages dirs' = dirs_pages dirs \<and>
      dirs_committed dirs' = {b \<in> dirs_committed dirs. \<not> block_has_no_marks ar b}"
  proof induction
    case (Cons e es e' es')
    then show ?case by (cases e; cases e') (auto simp: dirs_pages_def kept_blocks_def)
  qed (simp add: dirs_pages_def)
  then show "map fst dirs' = map fst dirs" and "dirs_pages dirs' = dirs_pages dirs"
    and "dirs_committed dirs' = {b \<in> dirs_committed dirs. \<not> block_has_no_marks ar b}" by blast+
qed

lemma dirs_ok_pointwise:
  assumes "dirs_ok ar dirs"
    and "list_all2 (\<lambda>e e'. fst e' = fst e \<and> bd_cell_size_atoms (snd e') = bd_cell_size_atoms (snd e) \<and>
       bd_block_base_addr (snd e') = bd_block_base_addr (snd e) \<and> dir_ok ar' (snd e')) dirs dirs'"
  shows "dirs_ok ar' dirs'"
proof -
  from assms(2) have "dirs_ok ar dirs \<Longrightarrow> dirs_ok ar' dirs' \<and>
      fst ` set dirs' = fst ` set dirs \<and>
      (\<lambda>e. set (bd_block_base_addr (snd e))) ` set dirs' = (\<lambda>e. set (bd_block_base_addr (snd e))) ` set dirs"
  proof induction
    case (Cons e es e' es')
    obtain k d where e: "e = (k, d)" by (cases e)
    obtain d' where e': "e' = (k, d')" using Cons.hyps(1) e by (cases e') simp
    have IH: "dirs_ok ar' es'" "fst ` set es' = fst ` set es"
      and img: "(\<lambda>e. set (bd_block_base_addr (snd e))) ` set es' = (\<lambda>e. set (bd_block_base_addr (snd e))) ` set es"
      using Cons e by (simp_all add: dirs_ok_Cons)
    have "\<forall>P\<in>(\<lambda>e. set (bd_block_base_addr (snd e))) ` set es. set (bd_block_base_addr d) \<inter> P = {}"
      using Cons.prems e by (simp add: dirs_ok_Cons)
    then have "\<forall>P\<in>(\<lambda>e. set (bd_block_base_addr (snd e))) ` set es'. set (bd_block_base_addr d) \<inter> P = {}"
      by (simp only: img)
    then have "\<forall>x\<in>set es'. set (bd_block_base_addr d) \<inter> set (bd_block_base_addr (snd x)) = {}" by simp
    then show ?case using Cons.hyps(1) Cons.prems IH img e e' by (simp add: dirs_ok_Cons)
  qed (simp add: dirs_ok_def)
  then show ?thesis using assms(1) by blast
qed

lemma collected_dirs_ok:
  assumes "dirs_ok ar dirs" and "collected_dirs ar0 ar' dirs dirs'" shows "dirs_ok ar' dirs'"
  using assms(2) unfolding collected_dirs_def
  by (intro dirs_ok_pointwise [OF assms(1)]) (auto elim!: list_all2_mono simp: dir_inv_def)

lemma removed_blocks:
  "set (mbs_set (fold mbs_remove bs s)) = set (mbs_set s) - set bs \<and>
   (distinct (mbs_set s) \<longrightarrow> distinct (mbs_set (fold mbs_remove bs s))) \<and>
   (filter_ok s \<longrightarrow> filter_ok (fold mbs_remove bs s))"
proof (induction bs arbitrary: s)
  case (Cons b bs)
  have "set (mbs_set (mbs_remove b s)) = set (mbs_set s) - {b}"
    and "distinct (mbs_set s) \<longrightarrow> distinct (mbs_set (mbs_remove b s))"
    by (auto simp: mbs_remove_def recompute_filter_def distinct_removeAll)
  then show ?case using Cons.IH [of "mbs_remove b s"] filter_ok_ops(3) [of b s] by auto
qed simp

lemma dirs_empty_set:
  "set (dirs_empty ar dirs) = {b \<in> dirs_committed dirs. block_has_no_marks ar b}"
  by (auto simp: dirs_empty_def dirs_committed_def empty_blocks_def)

lemma same_but_list:
  assumes "d1\<lparr>bd_free_list := fl\<rparr> = d"
  shows "committed d1 = committed d \<and> bd_cell_size_atoms d1 = bd_cell_size_atoms d \<and>
    bd_block_base_addr d1 = bd_block_base_addr d"
  using assms by (auto simp: committed_def)

lemma swept_ready:
  assumes ok: "dirs_ok ar dirs" and cl: "cleared B ar ar1" and sw: "swept_dirs ar ar1 dirs dirs1"
  shows "dirs_ok ar1 dirs1" and "ready_dirs ar1 dirs1 (map (\<lambda>e. reclaimed_cells ar (snd e)) dirs)"
    and "dirs_empty ar1 dirs1 = dirs_empty ar dirs"
    and "list_all2 (\<lambda>e e1. kept_blocks ar1 (snd e1) = kept_blocks ar (snd e)) dirs dirs1"
proof -
  have nm: "block_has_no_marks ar1 = block_has_no_marks ar" by (rule ext) (rule cleared_geometry(3) [OF cl])
  have "list_all2 (\<lambda>e e1. fst e1 = fst e \<and> bd_cell_size_atoms (snd e1) = bd_cell_size_atoms (snd e) \<and>
      bd_block_base_addr (snd e1) = bd_block_base_addr (snd e) \<and> dir_ok ar1 (snd e1)) dirs dirs1"
    using sw unfolding swept_dirs_def
    by (rule list_all2_mono) (elim conjE, drule same_but_list, simp add: dir_inv_def)
  then show "dirs_ok ar1 dirs1" by (rule dirs_ok_pointwise [OF ok])
  have kept: "list_all2 (\<lambda>e e1. kept_blocks ar1 (snd e1) = kept_blocks ar (snd e) \<and>
      empty_blocks ar1 (snd e1) = empty_blocks ar (snd e) \<and> dir_inv ar1 (snd e1) (reclaimed_cells ar (snd e)))
      dirs dirs1"
    using sw unfolding swept_dirs_def
    by (rule list_all2_mono) (elim conjE, drule same_but_list, simp add: kept_blocks_def empty_blocks_def nm)
  then show "list_all2 (\<lambda>e e1. kept_blocks ar1 (snd e1) = kept_blocks ar (snd e)) dirs dirs1"
    by (auto elim!: list_all2_mono)
  have "map (\<lambda>e. empty_blocks ar1 (snd e)) dirs1 = map (\<lambda>e. empty_blocks ar (snd e)) dirs"
    using kept by (auto simp: list_all2_conv_all_nth intro!: nth_equalityI)
  then show "dirs_empty ar1 dirs1 = dirs_empty ar dirs" by (simp add: dirs_empty_def)
  have "block_for c \<in> set (kept_blocks ar (snd e))" if "e \<in> set dirs" "c \<in> set (reclaimed_cells ar (snd e))" for e c
    using reclaimed_cell(1) [OF _ that(2)] ok that(1) by (auto simp: dirs_ok_def)
  then show "ready_dirs ar1 dirs1 (map (\<lambda>e. reclaimed_cells ar (snd e)) dirs)"
    using kept by (auto simp: ready_dirs_def list_all2_conv_all_nth)
qed

lemma shrunk_collected:
  assumes sh: "shrunk_dirs ar1 ar2 dirs1 (map (\<lambda>e. reclaimed_cells ar (snd e)) dirs) dirs2"
    and sw: "swept_dirs ar ar1 dirs dirs1"
    and kept: "list_all2 (\<lambda>e e1. kept_blocks ar1 (snd e1) = kept_blocks ar (snd e)) dirs dirs1"
  shows "collected_dirs ar ar2 dirs dirs2"
proof -
  have "list_all2 (\<lambda>e e1. fst e1 = fst e \<and> bd_cell_size_atoms (snd e1) = bd_cell_size_atoms (snd e) \<and>
      bd_block_base_addr (snd e1) = bd_block_base_addr (snd e)) dirs dirs1"
    using sw unfolding swept_dirs_def by (rule list_all2_mono) (elim conjE, drule same_but_list, simp)
  then show ?thesis
    using sh kept by (auto simp: collected_dirs_def shrunk_dirs_def list_all2_conv_all_nth)
qed

lemma marked_cell_bytes:
  assumes ok: "dirs_ok ar dirs" and c: "block_for c \<in> dirs_committed dirs" "c \<in> set (block_cells ar (block_for c))"
      "is_marked ar c"
    and x: "c \<le> x" "x < c + container_cell_size ar c"
  shows "\<forall>e\<in>set dirs. \<forall>c'\<in>set (reclaimed_cells ar (snd e)). x < c' + 8 \<or> c' + 16 \<le> x"
    and "\<forall>b\<in>set (dirs_empty ar dirs). x < b \<or> b + BLOCK_SIZE \<le> x"
proof -
  obtain e where e: "e \<in> set dirs" "block_for c \<in> set (committed (snd e))"
    using c(1) by (auto simp: dirs_committed_def)
  have okd: "dir_ok ar (snd e')" if "e' \<in> set dirs" for e' using ok that by (simp add: dirs_ok_def)
  note blk = dir_inv_block [OF okd [OF e(1)] e(2)]
  note bd = block_cells_bounds [OF blk(1) c(2)]
  have sz: "container_cell_size ar c = bd_cell_size (snd e)" using blk(2) by (simp add: container_cell_size_def)
  have page: "block_for c \<le> x" "x < block_for c + BLOCK_SIZE" using bd(1,2) x blk(2) sz by simp_all
  have dvd: "BLOCK_SIZE dvd block_for c" using blk(3) by (simp add: page_ok_def)
  show "\<forall>e\<in>set dirs. \<forall>c'\<in>set (reclaimed_cells ar (snd e)). x < c' + 8 \<or> c' + 16 \<le> x"
  proof (intro ballI)
    fix e' c' assume e': "e' \<in> set dirs" "c' \<in> set (reclaimed_cells ar (snd e'))"
    show "x < c' + 8 \<or> c' + 16 \<le> x"
    proof (cases "e' = e")
      case True
      then show ?thesis using reclaimed_apart [OF okd [OF e(1)] e(2) c(2,3)] x e' sz by simp
    next
      case False
      then have "set (bd_block_base_addr (snd e)) \<inter> set (bd_block_base_addr (snd e')) = {}"
        using ok e(1) e'(1) by (simp add: dirs_ok_def)
      then have "block_for c \<notin> set (committed (snd e'))"
        using e(2) committed_subset [of "snd e"] committed_subset [of "snd e'"] by blast
      from reclaimed_other_page [OF okd [OF e'(1)] e'(2) dvd this page] show ?thesis .
    qed
  qed
  show "\<forall>b\<in>set (dirs_empty ar dirs). x < b \<or> b + BLOCK_SIZE \<le> x"
  proof
    fix b assume b: "b \<in> set (dirs_empty ar dirs)"
    then have "BLOCK_SIZE dvd b" using space_block(2) [OF ok] by (simp add: dirs_empty_set page_ok_def)
    moreover have "b \<noteq> block_for c" using b no_marks_cell [OF blk(1) c(2)] c(3) by (auto simp: dirs_empty_set)
    ultimately show "x < b \<or> b + BLOCK_SIZE \<le> x" using pages_apart [OF dvd] page by force
  qed
qed

text \<open>The directories do not tell the marked cells twice.\<close>

lemma marked_count_card:
  assumes ok: "dirs_ok ar dirs" and B: "set B = dirs_committed dirs"
  shows "marked_count ar dirs = card {c \<in> heap_cells B ar. is_marked ar c}"
proof -
  have "marked_count ar dirs = card {c. is_marked ar c \<and> (\<exists>b\<in>dirs_committed dirs. c \<in> set (block_cells ar b))}"
    using ok
  proof (induction dirs)
    case (Cons e dirs)
    obtain k d where e: "e = (k, d)" by (cases e)
    note ok = Cons.prems [unfolded e dirs_ok_Cons]
    then have okd: "dir_ok ar d" by simp
    let ?S = "\<lambda>B. {c. is_marked ar c \<and> (\<exists>b\<in>B. c \<in> set (block_cells ar b))}"
    have bo: "block_ok ar b" if "b \<in> dirs_committed ((k, d) # dirs)" for b
      by (rule space_block(1) [OF Cons.prems]) (use that e in simp)
    have "distinct (concat (map (block_cells ar) (committed d)))"
      using distinct_committed [OF okd] bo by (intro distinct_block_lists) simp_all
    then have "distinct (filter (is_marked ar) (concat (map (block_cells ar) (committed d))))" by simp
    from distinct_card [OF this]
    have "cells_where is_marked ar (committed d) = card (?S (set (committed d)))"
      by (simp add: conj_commute)
    moreover have "?S (set (committed d)) \<inter> ?S (dirs_committed dirs) = {}"
    proof -
      have "set (committed d) \<inter> dirs_committed dirs = {}"
        using ok committed_subset unfolding dirs_committed_def by blast
      moreover have "block_for c = b" if "b \<in> dirs_committed ((k, d) # dirs)" "c \<in> set (block_cells ar b)" for b c
        by (rule block_cells_bounds(3) [OF bo [OF that(1)] that(2)])
      ultimately show ?thesis unfolding dirs_committed_Cons by blast
    qed
    moreover have "finite (?S (set (committed d)))"
      by (rule finite_subset [of _ "\<Union>b\<in>set (committed d). set (block_cells ar b)"]) auto
    moreover have "finite (?S (dirs_committed dirs))"
      by (rule finite_subset [of _ "\<Union>b\<in>dirs_committed dirs. set (block_cells ar b)"])
        (auto simp: dirs_committed_def)
    moreover have "?S (dirs_committed ((k, d) # dirs)) = ?S (set (committed d)) \<union> ?S (dirs_committed dirs)" by auto
    ultimately have "card (?S (dirs_committed ((k, d) # dirs))) =
        cells_where is_marked ar (committed d) + card (?S (dirs_committed dirs))"
      by (simp only: card_Un_disjoint)
    moreover have "marked_count ar dirs = card (?S (dirs_committed dirs))" using Cons.IH ok by blast
    ultimately show ?case unfolding e by (simp only: marked_count_def list.map sum_list.Cons snd_conv)
  qed (simp add: marked_count_def)
  also have "{c. is_marked ar c \<and> (\<exists>b\<in>dirs_committed dirs. c \<in> set (block_cells ar b))} =
      {c \<in> heap_cells B ar. is_marked ar c}"
    using B by (auto simp: heap_cells_def)
  finally show ?thesis .
qed

definition dirs_spread :: "marked_space \<Rightarrow> bool" where
  "dirs_spread ms \<longleftrightarrow> (\<forall>e\<in>set (ms_directories ms). \<exists>lim. spread_ok lim (snd e))"

text \<open>What sweeping and shrinking make of a space whose marks are those of the memory \<open>ar\<close>.\<close>

definition space_swept :: "arena \<Rightarrow> marked_space \<Rightarrow> arena \<Rightarrow> marked_space \<Rightarrow> bool" where
  "space_swept ar ms ar' ms' \<longleftrightarrow>
     space_ok ar' ms' \<and> collected_dirs ar ar' (ms_directories ms) (ms_directories ms') \<and>
     ms_precise_set ms' = ms_precise_set ms \<and> \<not> ms_no_alloc_until_shrink_completes ms' \<and>
     set (mbs_set (ms_blocks ms')) = {b \<in> set (mbs_set (ms_blocks ms)). \<not> block_has_no_marks ar b} \<and>
     (\<forall>b\<in>set (mbs_set (ms_blocks ms')). ar_header ar' b =
        (ar_header ar b)\<lparr>bh_newly_allocated := replicate MARK_WORDS 0\<rparr>) \<and>
     (\<forall>c\<in>heap_cells (mbs_set (ms_blocks ms)) ar. is_marked ar c \<longrightarrow>
        (\<forall>x. c \<le> x \<and> x < c + container_cell_size ar c \<longrightarrow> ar_bytes ar' x = ar_bytes ar x))"

lemma sweep_shrink_space:
  assumes ok: "space_ok ar ms" and spread: "dirs_spread ms" and pl: "page_local decommit"
  shows "\<exists>r ar1 ms1 ar' ms'. sweep_all_object_blocks ar ms = Some (r, ar1, ms1) \<and>
    ms_shrink decommit ar1 ms1 = (ar', ms') \<and> space_swept ar ms ar' ms' \<and>
    sr_retained_cells r = card {c \<in> heap_cells (mbs_set (ms_blocks ms)) ar. is_marked ar c}"
proof -
  let ?dirs = "ms_directories ms" and ?B = "mbs_set (ms_blocks ms)"
  have okd: "dirs_ok ar ?dirs" and B: "set ?B = dirs_committed ?dirs" and okf: "filter_ok (ms_blocks ms)"
    "distinct ?B" and okp: "precise_ok ms" using ok by (simp_all add: space_ok_def)
  obtain r ar1 dirs1 where sw: "sweep_directories ?dirs sweep_result_default ar = Some (r, ar1, dirs1)"
    and inv1: "swept_dirs ar ar1 ?dirs dirs1" and cl: "cleared (dirs_committed ?dirs) ar ar1"
    and by1: "\<And>x. \<forall>e\<in>set ?dirs. \<forall>c\<in>set (reclaimed_cells ar (snd e)). x < c + 8 \<or> c + 16 \<le> x \<Longrightarrow>
        ar_bytes ar1 x = ar_bytes ar x"
    and n: "sr_retained_cells r = sr_retained_cells sweep_result_default + marked_count ar ?dirs"
    using sweep_directories_result [OF okd spread [unfolded dirs_spread_def]] by blast
  note rd = swept_ready [OF okd cl inv1]
  obtain ar' dirs' blocks' where sh: "shrink_directories decommit dirs1 ar1 (ms_blocks ms) = (ar', dirs', blocks')"
    by (cases "shrink_directories decommit dirs1 ar1 (ms_blocks ms)") auto
  from shrink_directories_result [OF pl rd(1,2) sh, unfolded rd(3)]
  have sd: "shrunk_dirs ar1 ar' dirs1 (map (\<lambda>e. reclaimed_cells ar (snd e)) ?dirs) dirs'"
    and blocks': "blocks' = fold mbs_remove (dirs_empty ar ?dirs) (ms_blocks ms)"
    and frame: "page_frame (set (dirs_empty ar ?dirs)) ar1 ar'" by simp_all
  note col = shrunk_collected [OF sd inv1 rd(4)]
  note sets = collected_dirs_sets [OF col]
  let ?ms' = "ms\<lparr>ms_directories := dirs', ms_blocks := blocks', ms_no_alloc_until_shrink_completes := False\<rparr>"
  have reg: "set (mbs_set blocks') = {b \<in> set ?B. \<not> block_has_no_marks ar b}" "distinct (mbs_set blocks')"
    "filter_ok blocks'"
    using removed_blocks [of "dirs_empty ar ?dirs" "ms_blocks ms"] okf B
    by (auto simp: blocks' dirs_empty_set)
  have "space_ok ar' ?ms'"
    using collected_dirs_ok [OF okd col] sets reg B okp by (simp add: space_ok_def precise_ok_def)
  moreover have "ar_header ar' b = (ar_header ar b)\<lparr>bh_newly_allocated := replicate MARK_WORDS 0\<rparr>"
    if "b \<in> set (mbs_set blocks')" for b
    using that reg(1) B frame cl by (simp add: page_frame_def cleared_def dirs_empty_set)
  moreover have "ar_bytes ar' x = ar_bytes ar x"
    if "c \<in> heap_cells ?B ar" "is_marked ar c" "c \<le> x" "x < c + container_cell_size ar c" for c x
  proof -
    note h = heap_cell(1,3) [OF space_blocks_ok [OF ok] that(1), unfolded B]
    note far = marked_cell_bytes [OF okd h that(2-4)]
    have "ar_bytes ar' x = ar_bytes ar1 x" using frame far(2) by (simp add: page_frame_def)
    with by1 [OF far(1)] show ?thesis by simp
  qed
  ultimately have "space_swept ar ms ar' ?ms'" using col reg(1) by (simp add: space_swept_def)
  moreover have "sweep_all_object_blocks ar ms = Some (r, ar1, ms\<lparr>ms_directories := dirs1\<rparr>)"
    using sw by (simp add: sweep_all_object_blocks_def)
  moreover have "ms_shrink decommit ar1 (ms\<lparr>ms_directories := dirs1\<rparr>) = (ar', ?ms')"
    using sh by (simp add: ms_shrink_def)
  moreover have "sr_retained_cells r = card {c \<in> heap_cells ?B ar. is_marked ar c}"
    using n marked_count_card [OF okd B] by (simp add: sweep_result_default_def)
  ultimately show ?thesis by blast
qed

end
