(* ===== verification/Force_Collect.thy ===== *)
theory Force_Collect
  imports Collection
begin

text \<open>
  A whole collection of the object space (\<open>force_collect\<close> in \<open>src/src/interpreter/object_store.rs\<close>):
  marking, the finalizers of the weak collections, the bookkeeping of the dead cells, the sweep and
  the return of empty pages.  Of the store the model keeps the space, the set of the addresses of
  live cells, and the weak collections with their entries.  The structures, which live in a space of
  their own, and the tables that hang off dead cells (the slabs and the cell ids) are left out; which
  cells are objects rather than leaf cells is a parameter.  Failed assertions are \<open>None\<close>.
\<close>

section \<open>The model\<close>

record object_store =
  os_space :: marked_space
  os_live_object_addrs :: "nat list"
  os_weak_map_space_addrs :: "nat list"
  os_map_entry_lists :: weak_entries
  os_weak_set_space_addrs :: "nat list"
  os_set_value_lists :: "nat \<Rightarrow> js_value list option"

text \<open>
  The members of a weak space that stay; their assertion is that every member is a live cell.
\<close>

fun retain_members :: "arena \<Rightarrow> marked_space \<Rightarrow> nat list \<Rightarrow> nat list \<Rightarrow> nat list option" where
  "retain_members ar ms live [] = Some []"
| "retain_members ar ms live (addr # addrs) =
     (if addr \<notin> set live then None
      else if \<not> is_addr_marked ar ms addr then retain_members ar ms live addrs
      else map_option ((#) addr) (retain_members ar ms live addrs))"

text \<open>The entry lists of some members lose the entries whose keys are not marked.\<close>

fun drop_dead_entries ::
  "arena \<Rightarrow> marked_space \<Rightarrow> ('e \<Rightarrow> js_value) \<Rightarrow> nat list \<Rightarrow> (nat \<Rightarrow> 'e list option) \<Rightarrow> nat
     \<Rightarrow> (nat \<Rightarrow> 'e list option) \<times> nat" where
  "drop_dead_entries ar ms key_of [] tables dropped = (tables, dropped)"
| "drop_dead_entries ar ms key_of (member # members) tables dropped =
     (case tables member of
        None \<Rightarrow> drop_dead_entries ar ms key_of members tables dropped
      | Some entries \<Rightarrow>
          let before = length entries;
              kept = filter (\<lambda>e. weak_collection_key_is_marked ms ar (key_of e)) entries
          in drop_dead_entries ar ms key_of members (tables(member := Some kept))
               (dropped + (before - length kept)))"

definition finalize_unconditional_finalizers :: "arena \<Rightarrow> object_store \<Rightarrow> (nat \<times> object_store) option" where
  "finalize_unconditional_finalizers ar os = do {
     maps \<leftarrow> retain_members ar (os_space os) (os_live_object_addrs os) (os_weak_map_space_addrs os);
     (let (map_lists, dropped) = drop_dead_entries ar (os_space os) fst maps (os_map_entry_lists os) 0
      in do {
        sets \<leftarrow> retain_members ar (os_space os) (os_live_object_addrs os) (os_weak_set_space_addrs os);
        (let (set_lists, dropped) =
               drop_dead_entries ar (os_space os) (\<lambda>value. value) sets (os_set_value_lists os) dropped
         in Some (dropped, os\<lparr>os_weak_map_space_addrs := maps, os_map_entry_lists := map_lists,
                              os_weak_set_space_addrs := sets, os_set_value_lists := set_lists\<rparr>))
      })
   }"

text \<open>
  The dead cells are the cells of the blocks that are registered and not marked; the result is the
  number of the dead objects.
\<close>

definition dead_cells :: "arena \<Rightarrow> object_store \<Rightarrow> nat list option" where
  "dead_cells ar os = map_option
     (filter (\<lambda>addr. addr \<in> set (os_live_object_addrs os) \<and> \<not> is_addr_marked ar (os_space os) addr))
     (for_each_object_cell ar (os_space os))"

definition reconcile_dead_cells_before_sweep ::
  "(arena \<Rightarrow> nat \<Rightarrow> bool) \<Rightarrow> arena \<Rightarrow> object_store \<Rightarrow> (nat \<times> object_store) option" where
  "reconcile_dead_cells_before_sweep is_object ar os = do {
     all_dead \<leftarrow> dead_cells ar os;
     (let dead = filter (is_object ar) all_dead;
          dead_leaf = filter (\<lambda>addr. \<not> is_object ar addr) all_dead;
          live1 = fold removeAll dead_leaf (os_live_object_addrs os);
          live2 = fold removeAll dead live1
      in Some (length dead, os\<lparr>os_live_object_addrs := live2\<rparr>))
   }"

record collect_stats =
  cs_marked_cells :: nat
  cs_cells_reclaimed :: nat
  cs_atoms_reclaimed :: nat

definition force_collect ::
  "(arena \<Rightarrow> nat \<Rightarrow> nat list) \<Rightarrow> (arena \<Rightarrow> nat \<Rightarrow> bool) \<Rightarrow> (nat \<Rightarrow> arena \<Rightarrow> arena) \<Rightarrow> nat list \<Rightarrow> arena
     \<Rightarrow> object_store \<Rightarrow> (collect_stats \<times> arena \<times> object_store) option" where
  "force_collect classes is_object decommit root_addrs ar os = do {
     (ar1, visitor) \<leftarrow>
       mark_live_set_from_addrs classes (os_map_entry_lists os) (os_weak_map_space_addrs os) root_addrs ar (os_space os);
     (let os1 = os\<lparr>os_space := note_mark_phase_end_for_shrink_guard (os_space os)\<rparr>
      in do {
        (_, os2) \<leftarrow> finalize_unconditional_finalizers ar1 os1;
        (cells_reclaimed, os3) \<leftarrow> reconcile_dead_cells_before_sweep is_object ar1 os2;
        (sweep, ar2, space) \<leftarrow> sweep_all_object_blocks ar1 (os_space os3);
        (let (ar3, space) = ms_shrink decommit ar2 space;
             os4 = os3\<lparr>os_space := space\<rparr>
         in if \<not> list_all (is_addr_marked ar3 space) (os_live_object_addrs os4) then None
            else Some (\<lparr>cs_marked_cells = sv_visit_count visitor, cs_cells_reclaimed = cells_reclaimed,
                        cs_atoms_reclaimed = sr_freed_cells sweep\<rparr>, ar3, os4))
      })
   }"

section \<open>What marks say\<close>

text \<open>
  The mark bits of the memory \<open>ar'\<close> single out the cells of \<open>L\<close>, in a space that was well formed
  before marking.
\<close>

definition marks_are :: "arena \<Rightarrow> marked_space \<Rightarrow> arena \<Rightarrow> nat set \<Rightarrow> bool" where
  "marks_are ar ms ar' L \<longleftrightarrow>
     space_ok ar ms \<and> L \<subseteq> heap_cells (mbs_set (ms_blocks ms)) ar \<and>
     (\<forall>c\<in>heap_cells (mbs_set (ms_blocks ms)) ar. is_marked ar' c \<longleftrightarrow> c \<in> L)"

lemma marks_are_addr:
  assumes m: "marks_are ar ms ar' L" and a: "a \<in> heap_cells (mbs_set (ms_blocks ms)) ar"
  shows "is_addr_marked ar' ms a \<longleftrightarrow> a \<in> L"
proof -
  have ok: "space_ok ar ms" using m by (simp add: marks_are_def)
  note h = heap_cell [OF space_blocks_ok [OF ok] a]
  have np: "\<not> is_precise a" by (rule aligned_not_precise [OF h(2)])
  then have "is_arena_cell ms a = Some a" using arena_cell_block [OF ok np] h by simp
  then show ?thesis
    using np m a by (simp add: is_addr_marked_def collector_is_marked_def marks_are_def)
qed

lemma marks_are_key:
  assumes m: "marks_are ar ms ar' L"
    and key: "\<And>a. value_cell ms key = Some a \<Longrightarrow> a \<in> heap_cells (mbs_set (ms_blocks ms)) ar"
  shows "weak_collection_key_is_marked ms ar' key \<longleftrightarrow> key_in ms L key"
proof (cases "value_cell ms key")
  case None
  then show ?thesis
    by (auto simp: weak_collection_key_is_marked_def key_in_def value_cell_def split: option.splits)
next
  case (Some a)
  then obtain c where c: "as_cell key = Some c" "is_arena_cell ms (unat (pointer_payload_bits c)) = Some a"
    by (auto simp: value_cell_def split: option.splits)
  have "is_addr_marked ar' ms a \<longleftrightarrow> a \<in> L" by (rule marks_are_addr [OF m key [OF Some]])
  then show ?thesis
    using c is_arena_cell_same [OF c(2)] Some
    by (simp add: weak_collection_key_is_marked_def key_in_def is_addr_marked_def)
qed

lemma retain_members_result:
  assumes "marks_are ar ms ar' L" and "set addrs \<subseteq> set live" and "set live \<subseteq> heap_cells (mbs_set (ms_blocks ms)) ar"
  shows "retain_members ar' ms live addrs = Some (filter (\<lambda>a. a \<in> L) addrs)"
  using assms(2)
proof (induction addrs)
  case (Cons a addrs)
  then have "a \<in> heap_cells (mbs_set (ms_blocks ms)) ar" using assms(3) by auto
  then show ?case using Cons marks_are_addr [OF assms(1), of a] by simp
qed simp

lemma drop_dead_entries_result:
  fixes ar ms and key_of :: "'e \<Rightarrow> js_value" and tables :: "nat \<Rightarrow> 'e list option"
  defines "kept \<equiv> \<lambda>entries. filter (\<lambda>e. weak_collection_key_is_marked ms ar (key_of e)) entries"
  shows "fst (drop_dead_entries ar ms key_of members tables dropped) =
    (\<lambda>m. if m \<in> set members then map_option kept (tables m) else tables m)"
proof (induction members arbitrary: tables dropped)
  case (Cons m members)
  have "kept (kept entries) = kept entries" for entries by (simp add: kept_def)
  then show ?case
    using Cons.IH by (cases "tables m") (auto simp: Let_def kept_def [symmetric] fun_eq_iff)
qed simp

section \<open>The finalizers\<close>

text \<open>
  The addresses of the store are cells of registered blocks; the weak collections are live cells,
  with keys and values in the heap.
\<close>

definition addrs_ok :: "arena \<Rightarrow> object_store \<Rightarrow> bool" where
  "addrs_ok ar os \<longleftrightarrow>
     set (os_live_object_addrs os) \<subseteq> heap_cells (mbs_set (ms_blocks (os_space os))) ar \<and>
     set (os_weak_map_space_addrs os) \<subseteq> set (os_live_object_addrs os) \<and>
     set (os_weak_set_space_addrs os) \<subseteq> set (os_live_object_addrs os) \<and>
     weak_maps_ok (os_space os) ar (os_map_entry_lists os) (os_weak_map_space_addrs os) \<and>
     (\<forall>w\<in>set (os_weak_set_space_addrs os). \<forall>vs. os_set_value_lists os w = Some vs \<longrightarrow>
        (\<forall>v\<in>set vs. \<forall>a. value_cell (os_space os) v = Some a \<longrightarrow>
           a \<in> heap_cells (mbs_set (ms_blocks (os_space os))) ar))"

text \<open>The store before a collection.  What the method table reports lies in the heap, too.\<close>

definition store_ok :: "(arena \<Rightarrow> nat \<Rightarrow> nat list) \<Rightarrow> nat list \<Rightarrow> arena \<Rightarrow> object_store \<Rightarrow> bool" where
  "store_ok classes roots ar os \<longleftrightarrow>
     space_ok ar (os_space os) \<and> dirs_spread (os_space os) \<and> addrs_ok ar os \<and>
     stable_classes classes (mbs_set (ms_blocks (os_space os))) (clear_all_marks (os_space os) ar) \<and>
     admitted (os_space os) roots \<subseteq> heap_cells (mbs_set (ms_blocks (os_space os))) ar"

lemma store_collection_ok:
  assumes "store_ok classes roots ar os"
  shows "collection_ok classes (os_map_entry_lists os) (os_weak_map_space_addrs os) roots
    (clear_all_marks (os_space os) ar) (os_space os)"
proof -
  have ok: "space_ok ar (os_space os)" using assms by (simp add: store_ok_def)
  show ?thesis
    using assms clear_all_marks_same(1) [OF ok]
    by (simp add: store_ok_def addrs_ok_def collection_ok_def weak_maps_ok_def entries_ok_def)
qed

definition live_of :: "(arena \<Rightarrow> nat \<Rightarrow> nat list) \<Rightarrow> nat list \<Rightarrow> arena \<Rightarrow> object_store \<Rightarrow> nat set" where
  "live_of classes roots ar os =
     live_cells classes (os_map_entry_lists os) (os_weak_map_space_addrs os) (clear_all_marks (os_space os) ar)
       (os_space os) (admitted (os_space os) roots)"

lemma mark_store:
  assumes "store_ok classes roots ar os"
  shows "\<exists>ar1 sv1. mark_live_set_from_addrs classes (os_map_entry_lists os) (os_weak_map_space_addrs os) roots ar
      (os_space os) = Some (ar1, sv1) \<and> marks_are ar (os_space os) ar1 (live_of classes roots ar os) \<and>
    marks_ok (os_space os) (clear_all_marks (os_space os) ar) (ar1, sv1) \<and> sv_collector_stack sv1 = [] \<and>
    sv_visit_count sv1 = card (live_of classes roots ar os) \<and>
    marked (os_space os) (ar1, sv1) = live_of classes roots ar os"
proof -
  let ?ms = "os_space os"
  have ok: "space_ok ar ?ms" using assms by (simp add: store_ok_def)
  note same = clear_all_marks_same [OF ok]
  obtain ar1 sv1 where run: "mark_live_set_from_addrs classes (os_map_entry_lists os) (os_weak_map_space_addrs os)
      roots ar ?ms = Some (ar1, sv1)" and m: "marks_ok ?ms (clear_all_marks ?ms ar) (ar1, sv1)"
    and empty: "sv_collector_stack sv1 = []" and live: "marked ?ms (ar1, sv1) = live_of classes roots ar os"
    using mark_live_set_result [OF ok store_collection_ok [OF assms]] by (auto simp: live_of_def)
  have "marks_are ar ?ms ar1 (live_of classes roots ar os)"
    using ok m live marked_cells_iff [OF same(3), unfolded same(1), of _ ar1]
    by (auto simp: marks_are_def marking_ok_def same(1))
  moreover have "sv_visit_count sv1 = card (live_of classes roots ar os)"
    using m live by (simp add: marking_ok_def)
  ultimately show ?thesis using run m empty live by blast
qed

text \<open>The weak collections after a collection that left the cells of \<open>L\<close> alive.\<close>

definition weak_collections_purged :: "nat set \<Rightarrow> object_store \<Rightarrow> object_store \<Rightarrow> bool" where
  "weak_collections_purged L os os' \<longleftrightarrow>
     os_weak_map_space_addrs os' = filter (\<lambda>a. a \<in> L) (os_weak_map_space_addrs os) \<and>
     os_weak_set_space_addrs os' = filter (\<lambda>a. a \<in> L) (os_weak_set_space_addrs os) \<and>
     (\<forall>w\<in>set (os_weak_map_space_addrs os'). os_map_entry_lists os' w =
        map_option (filter (\<lambda>(key, v). key_in (os_space os) L key)) (os_map_entry_lists os w)) \<and>
     (\<forall>w\<in>set (os_weak_set_space_addrs os'). os_set_value_lists os' w =
        map_option (filter (key_in (os_space os) L)) (os_set_value_lists os w))"

lemma drop_dead_entries_live:
  fixes key_of :: "'e \<Rightarrow> js_value"
  assumes m: "marks_are ar ms ar1 L" and w: "w \<in> set members"
    and keys: "\<And>entries e a. tables w = Some entries \<Longrightarrow> e \<in> set entries \<Longrightarrow> value_cell ms (key_of e) = Some a \<Longrightarrow>
      a \<in> heap_cells (mbs_set (ms_blocks ms)) ar"
  shows "fst (drop_dead_entries ar1 ms key_of members tables dropped) w =
    map_option (filter (\<lambda>e. key_in ms L (key_of e))) (tables w)"
proof (cases "tables w")
  case (Some entries)
  have "weak_collection_key_is_marked ms ar1 (key_of e) \<longleftrightarrow> key_in ms L (key_of e)" if "e \<in> set entries" for e
    using marks_are_key [OF m, of "key_of e"] keys [OF Some that] by blast
  then show ?thesis using w Some by (simp add: drop_dead_entries_result cong: filter_cong)
qed (use w in \<open>simp add: drop_dead_entries_result\<close>)

lemma finalizers_result:
  assumes m: "marks_are ar (os_space os) ar1 L" and ok: "addrs_ok ar os"
  shows "\<exists>n os2. finalize_unconditional_finalizers ar1 os = Some (n, os2) \<and>
    weak_collections_purged L os os2 \<and> os_space os2 = os_space os \<and>
    os_live_object_addrs os2 = os_live_object_addrs os"
proof -
  let ?ms = "os_space os" and ?maps = "filter (\<lambda>a. a \<in> L) (os_weak_map_space_addrs os)"
    and ?sets = "filter (\<lambda>a. a \<in> L) (os_weak_set_space_addrs os)"
  note f = ok [unfolded addrs_ok_def]
  have retained: "retain_members ar1 ?ms (os_live_object_addrs os) (os_weak_map_space_addrs os) = Some ?maps"
    "retain_members ar1 ?ms (os_live_object_addrs os) (os_weak_set_space_addrs os) = Some ?sets"
    using f retain_members_result [OF m] by blast+
  obtain map_tables d where mt: "drop_dead_entries ar1 ?ms fst ?maps (os_map_entry_lists os) 0 = (map_tables, d)"
    by fastforce
  obtain set_tables d2 where st: "drop_dead_entries ar1 ?ms (\<lambda>value. value) ?sets (os_set_value_lists os) d = (set_tables, d2)"
    by fastforce
  have maps: "map_tables w = map_option (filter (\<lambda>(key, v). key_in ?ms L key)) (os_map_entry_lists os w)"
    if w: "w \<in> set ?maps" for w
  proof -
    have "a \<in> heap_cells (mbs_set (ms_blocks ?ms)) ar"
      if "os_map_entry_lists os w = Some entries" "e \<in> set entries" "value_cell ?ms (fst e) = Some a" for entries e a
      using f w that by (fastforce simp: weak_maps_ok_def entries_ok_def)
    from drop_dead_entries_live [where key_of = fst and tables = "os_map_entry_lists os" and dropped = 0, OF m w this]
    show ?thesis using mt by (simp add: case_prod_unfold)
  qed
  have sets: "set_tables w = map_option (filter (key_in ?ms L)) (os_set_value_lists os w)"
    if w: "w \<in> set ?sets" for w
  proof -
    have "a \<in> heap_cells (mbs_set (ms_blocks ?ms)) ar"
      if "os_set_value_lists os w = Some vs" "v \<in> set vs" "value_cell ?ms v = Some a" for vs v a
      using f w that unfolding set_filter mem_Collect_eq by blast
    from drop_dead_entries_live [where key_of = "\<lambda>v. v" and tables = "os_set_value_lists os" and dropped = d,
        OF m w this]
    show ?thesis using st by simp
  qed
  show ?thesis
    using retained mt st maps sets
    by (simp add: finalize_unconditional_finalizers_def weak_collections_purged_def)
qed

section \<open>Dead cells\<close>

lemma fold_remove_all: "fold removeAll xs ys = filter (\<lambda>y. y \<notin> set xs) ys"
  by (induction xs arbitrary: ys) (auto simp: removeAll_filter_not_eq intro: filter_cong)

lemma reconcile_result:
  assumes m: "marks_are ar (os_space os) ar1 L" and ok: "space_ok ar1 (os_space os)"
    and same: "heap_cells (mbs_set (ms_blocks (os_space os))) ar1 = heap_cells (mbs_set (ms_blocks (os_space os))) ar"
    and live: "set (os_live_object_addrs os) \<subseteq> heap_cells (mbs_set (ms_blocks (os_space os))) ar"
  shows "reconcile_dead_cells_before_sweep is_object ar1 os =
    Some (card {c \<in> set (os_live_object_addrs os). c \<notin> L \<and> is_object ar1 c},
      os\<lparr>os_live_object_addrs := filter (\<lambda>c. c \<in> L) (os_live_object_addrs os)\<rparr>)"
proof -
  let ?live = "os_live_object_addrs os"
  obtain cells where walk: "for_each_object_cell ar1 (os_space os) = Some cells" and dist: "distinct cells"
    and cells: "set cells = heap_cells (mbs_set (ms_blocks (os_space os))) ar"
    using all_cells [OF ok] same by auto
  let ?dead = "filter (\<lambda>addr. addr \<in> set ?live \<and> \<not> is_addr_marked ar1 (os_space os) addr) cells"
  have dead: "set ?dead = {c \<in> set ?live. c \<notin> L}" using cells live marks_are_addr [OF m] by auto
  have "card {c \<in> set ?live. c \<notin> L \<and> is_object ar1 c} = card (set (filter (is_object ar1) ?dead))"
    using dead by (intro arg_cong [of _ _ card]) auto
  also have "\<dots> = length (filter (is_object ar1) ?dead)" using dist by (intro distinct_card) simp
  finally have n: "length (filter (is_object ar1) ?dead) = card {c \<in> set ?live. c \<notin> L \<and> is_object ar1 c}" ..
  have "fold removeAll (filter (is_object ar1) ?dead) (fold removeAll (filter (\<lambda>a. \<not> is_object ar1 a) ?dead) ?live) =
      filter (\<lambda>c. c \<notin> set ?dead) ?live"
    by (auto simp: fold_remove_all intro: filter_cong)
  also have "\<dots> = filter (\<lambda>c. c \<in> L) ?live" unfolding dead by (rule filter_cong) auto
  finally show ?thesis
    using walk n by (simp add: reconcile_dead_cells_before_sweep_def dead_cells_def Let_def)
qed

section \<open>The bytes of live cells\<close>

lemma precise_header_outside:
  assumes ok: "space_ok ar ms" and a: "a \<in> set (ms_precise_set ms)"
    and b: "b \<in> set (mbs_set (ms_blocks ms))" "b \<le> x" "x < b + BLOCK_SIZE"
  shows "x \<noteq> precise_header a"
proof -
  have pr: "precise_ok ms" and reg: "set (mbs_set (ms_blocks ms)) = dirs_committed (ms_directories ms)"
    using ok by (simp_all add: space_ok_def)
  obtain p n where pn: "(p, n) \<in> set (ms_precise ms)" "a = p + HALF_ALIGNMENT"
    using a pr by (auto simp: precise_ok_def)
  have "b \<in> dirs_pages (ms_directories ms)"
    using b(1) reg committed_subset by (fastforce simp: dirs_committed_def dirs_pages_def)
  then have "apart (p, n) (b, BLOCK_SIZE)" and p: "ATOM_SIZE dvd p" "HALF_ALIGNMENT \<le> n"
    using pr pn(1) by (auto simp: precise_ok_def)
  moreover have "precise_header a = p"
    using p(1) pn(2) by (auto simp: precise_header_def HALF_ALIGNMENT_def ATOM_SIZE_def elim!: dvdE)
  ultimately show ?thesis using b(2,3) by (auto simp: apart_def HALF_ALIGNMENT_def ATOM_SIZE_def)
qed

lemma live_cell_bytes:
  assumes ok: "space_ok ar ms" and m: "marks_ok ms (clear_all_marks ms ar) (ar1, sv1)"
    and empty: "sv_collector_stack sv1 = []"
    and c: "c \<in> heap_cells (mbs_set (ms_blocks ms)) ar" "is_marked ar1 c"
    and x: "c \<le> x" "x < c + container_cell_size ar c"
  shows "ar_bytes ar1 x = (if x = c + 7 then 0 else ar_bytes ar x)"
proof -
  note same = clear_all_marks_same [OF ok] and blocks = space_blocks_ok [OF ok]
  note h = heap_cell [OF blocks c(1)]
  note bd = block_cells_bounds(1,2) [OF h(4,3)]
  have st: "ar_bytes ar1 (c + 7) = 0"
    using m c empty by (simp add: marking_ok_def same(1))
  have "ar_bytes ar1 x = ar_bytes ar x" if ne: "x \<noteq> c + 7"
  proof -
    have "x \<noteq> c' + 7" if c': "c' \<in> heap_cells (mbs_set (ms_blocks ms)) ar" for c'
      using cells_do_not_overlap [OF blocks c(1) c' x] heap_cell_size [OF blocks c'] ne by auto
    then have "ar_bytes ar1 x = ar_bytes (clear_all_marks ms ar) x"
      using m by (simp add: marking_ok_def marking_frame_def same(1))
    moreover have "block_for c \<le> x" "x < block_for c + BLOCK_SIZE"
      using bd x by (simp_all add: container_cell_size_def)
    then have "\<forall>a\<in>set (ms_precise_set ms). x \<noteq> precise_header a"
      using precise_header_outside [OF ok _ h(1)] by blast
    ultimately show ?thesis using clear_all_marks_spec(3) [OF ok] by simp
  qed
  with st show ?thesis by simp
qed

section \<open>The space after the sweep\<close>

lemma space_swept_cells:
  assumes ok: "space_ok ar ms" and sw: "space_swept ar ms ar' ms'"
  shows "block_for c \<in> set (mbs_set (ms_blocks ms')) \<Longrightarrow> in_use ar' c = is_marked ar c"
    and "block_for c \<in> set (mbs_set (ms_blocks ms')) \<Longrightarrow> is_marked ar' c = is_marked ar c"
    and "heap_cells (mbs_set (ms_blocks ms')) ar' =
      {c \<in> heap_cells (mbs_set (ms_blocks ms)) ar. block_for c \<in> set (mbs_set (ms_blocks ms'))}"
    and "c \<in> heap_cells (mbs_set (ms_blocks ms)) ar \<Longrightarrow> is_marked ar c \<Longrightarrow>
      block_for c \<in> set (mbs_set (ms_blocks ms'))"
proof -
  note f = sw [unfolded space_swept_def]
  note blocks = space_blocks_ok [OF ok]
  have ok': "space_ok ar' ms'" using f by blast
  have hdr: "ar_header ar' b = (ar_header ar b)\<lparr>bh_newly_allocated := replicate MARK_WORDS 0\<rparr>"
    if "b \<in> set (mbs_set (ms_blocks ms'))" for b using f that by blast
  show "is_marked ar' c = is_marked ar c" if "block_for c \<in> set (mbs_set (ms_blocks ms'))" for c
    using hdr [OF that] by (simp add: is_marked_def Let_def)
  then show "in_use ar' c = is_marked ar c" if "block_for c \<in> set (mbs_set (ms_blocks ms'))"
    using hdr [OF that] that atom_word_in_range [of c]
    by (simp add: in_use_def is_newly_allocated_def Let_def)
  show "block_for c \<in> set (mbs_set (ms_blocks ms'))"
    if c: "c \<in> heap_cells (mbs_set (ms_blocks ms)) ar" "is_marked ar c"
  proof -
    note h = heap_cell [OF blocks c(1)]
    then show ?thesis using f no_marks_cell [OF h(4,3)] c(2) by auto
  qed
  have sub: "set (mbs_set (ms_blocks ms')) \<subseteq> set (mbs_set (ms_blocks ms))" using f by auto
  have "block_cells ar' b = block_cells ar b" if "b \<in> set (mbs_set (ms_blocks ms'))" for b
    using hdr [OF that] by (intro block_cells_cong) (simp_all add: block_atoms_per_cell_def block_start_atom_def)
  then have "c \<in> heap_cells (mbs_set (ms_blocks ms')) ar' \<longleftrightarrow>
      c \<in> heap_cells (mbs_set (ms_blocks ms)) ar \<and> block_for c \<in> set (mbs_set (ms_blocks ms'))" for c
    using heap_cells_iff [OF space_blocks_ok [OF ok']] heap_cells_iff [OF blocks] sub by auto
  then show "heap_cells (mbs_set (ms_blocks ms')) ar' =
      {c \<in> heap_cells (mbs_set (ms_blocks ms)) ar. block_for c \<in> set (mbs_set (ms_blocks ms'))}" by blast
qed

lemma space_swept_gates:
  assumes ok: "space_ok ar ms" and sw: "space_swept ar ms ar' ms'"
  shows "\<not> is_precise a \<Longrightarrow> ms_find ar' ms' a =
      (if a \<in> heap_cells (mbs_set (ms_blocks ms)) ar \<and> is_marked ar a then Some a else None)"
    and "a \<in> heap_cells (mbs_set (ms_blocks ms)) ar \<Longrightarrow> is_marked ar a \<Longrightarrow> is_addr_marked ar' ms' a"
proof -
  have ok': "space_ok ar' ms'" using sw by (simp add: space_swept_def)
  note c = space_swept_cells [OF ok sw]
  show "ms_find ar' ms' a = (if a \<in> heap_cells (mbs_set (ms_blocks ms)) ar \<and> is_marked ar a then Some a else None)"
    if "\<not> is_precise a" using find_cell [OF ok' that] c by auto
  assume a: "a \<in> heap_cells (mbs_set (ms_blocks ms)) ar" "is_marked ar a"
  note b = c(4) [OF a] and h = heap_cell [OF space_blocks_ok [OF ok] a(1)]
  have np: "\<not> is_precise a" by (rule aligned_not_precise [OF h(2)])
  show "is_addr_marked ar' ms' a"
    using arena_cell_block [OF ok' np] np b h(2) c(2) [OF b] a(2)
    by (simp add: is_addr_marked_def collector_is_marked_def)
qed

lemma space_swept_dirs:
  assumes ok: "space_ok ar ms" and sw: "space_swept ar ms ar' ms'" and e: "e \<in> set (ms_directories ms')"
  shows "\<exists>free. dir_inv ar' (snd e) free \<and> set free = {c \<in> heap_cells (committed (snd e)) ar'. \<not> is_marked ar c}"
proof -
  have "list_all2 (\<lambda>e e'. committed (snd e') = kept_blocks ar (snd e) \<and>
      dir_inv ar' (snd e') (reclaimed_cells ar (snd e))) (ms_directories ms) (ms_directories ms')"
    using sw unfolding space_swept_def collected_dirs_def by (auto elim!: list_all2_mono)
  moreover obtain i where i: "i < length (ms_directories ms')" "e = ms_directories ms' ! i"
    using e by (auto simp: in_set_conv_nth)
  ultimately have e0: "committed (snd e) = kept_blocks ar (snd (ms_directories ms ! i))"
    "dir_inv ar' (snd e) (reclaimed_cells ar (snd (ms_directories ms ! i)))"
    by (simp_all add: list_all2_conv_all_nth)
  have reg: "set (kept_blocks ar (snd (ms_directories ms ! i))) \<subseteq> set (mbs_set (ms_blocks ms'))"
    using sw e e0(1) [symmetric] by (auto simp: space_swept_def space_ok_def dirs_committed_def)
  have "block_cells ar' b = block_cells ar b" if "b \<in> set (kept_blocks ar (snd (ms_directories ms ! i)))" for b
  proof (rule block_cells_cong)
    have "ar_header ar' b = (ar_header ar b)\<lparr>bh_newly_allocated := replicate MARK_WORDS 0\<rparr>"
      using sw reg that by (auto simp: space_swept_def)
    then show "block_atoms_per_cell ar' b = block_atoms_per_cell ar b" "block_start_atom ar' b = block_start_atom ar b"
      by (simp_all add: block_atoms_per_cell_def block_start_atom_def)
  qed
  then have "set (reclaimed_cells ar (snd (ms_directories ms ! i))) = {c \<in> heap_cells (committed (snd e)) ar'. \<not> is_marked ar c}"
    by (auto simp: reclaimed_cells_def heap_cells_def e0(1))
  then show ?thesis using e0(2) by blast
qed

section \<open>A collection\<close>

lemma guard_same [simp]:
  "is_arena_cell (note_mark_phase_end_for_shrink_guard ms) = is_arena_cell ms"
  "ms_blocks (note_mark_phase_end_for_shrink_guard ms) = ms_blocks ms"
  "ms_directories (note_mark_phase_end_for_shrink_guard ms) = ms_directories ms"
  "space_ok ar (note_mark_phase_end_for_shrink_guard ms) = space_ok ar ms"
  by (simp_all add: note_mark_phase_end_for_shrink_guard_def is_arena_cell_def fun_eq_iff space_ok_def precise_ok_def
      cong: if_cong)

lemma guard_values [simp]:
  "value_cell (note_mark_phase_end_for_shrink_guard ms) = value_cell ms"
  "key_in (note_mark_phase_end_for_shrink_guard ms) = key_in ms"
  by (simp_all add: value_cell_def [abs_def] key_in_def [abs_def] cong: option.case_cong)

lemma guard_store:
  assumes "store_ok classes roots ar os"
  defines "os1 \<equiv> os\<lparr>os_space := note_mark_phase_end_for_shrink_guard (os_space os)\<rparr>"
  shows "addrs_ok ar os1" and "dirs_spread (os_space os1)"
    and "marks_are ar (os_space os) ar1 L \<Longrightarrow> marks_are ar (os_space os1) ar1 L"
    and "weak_collections_purged L os1 os2 = weak_collections_purged L os os2"
  using assms by (simp_all add: store_ok_def addrs_ok_def weak_maps_ok_def entries_ok_def dirs_spread_def
      marks_are_def weak_collections_purged_def)

text \<open>The store after a collection that left the cells of \<open>L\<close> alive.\<close>

definition store_collected :: "nat set \<Rightarrow> arena \<Rightarrow> object_store \<Rightarrow> arena \<Rightarrow> object_store \<Rightarrow> bool" where
  "store_collected L ar os ar' os' \<longleftrightarrow>
     space_ok ar' (os_space os') \<and>
     (\<forall>a. \<not> is_precise a \<longrightarrow> ms_find ar' (os_space os') a = (if a \<in> L then Some a else None)) \<and>
     (\<forall>c\<in>L. \<forall>x. c \<le> x \<and> x < c + container_cell_size ar c \<longrightarrow>
        ar_bytes ar' x = (if x = c + 7 then 0 else ar_bytes ar x)) \<and>
     os_live_object_addrs os' = filter (\<lambda>c. c \<in> L) (os_live_object_addrs os) \<and>
     set (mbs_set (ms_blocks (os_space os'))) = block_for ` L \<and>
     (\<forall>e\<in>set (ms_directories (os_space os')). \<exists>free. dir_inv ar' (snd e) free \<and>
        set free = heap_cells (committed (snd e)) ar' - L) \<and>
     weak_collections_purged L os os'"

lemma collected_blocks:
  assumes ok: "space_ok ar ms" and sw: "space_swept ar ms ar' ms'"
    and L: "marked_cells (mbs_set (ms_blocks ms)) ar = L"
  shows "set (mbs_set (ms_blocks ms')) = block_for ` L"
proof -
  have "\<exists>c\<in>L. b = block_for c" if b: "b \<in> set (mbs_set (ms_blocks ms))" "\<not> block_has_no_marks ar b" for b
  proof -
    obtain i where i: "i < ATOMS_PER_BLOCK" "bitmap_get (bh_marks (ar_header ar b)) i"
      using b(2) by (auto simp: block_no_marks_bits)
    have "BLOCK_SIZE dvd b" using space_blocks_ok [OF ok] b(1) by (simp add: blocks_ok_def list_all_iff block_ok_def)
    then obtain k where k: "b = 16384 * k" by (auto simp: BLOCK_SIZE_def)
    have i': "i < 1024" using i(1) by (simp add: block_consts)
    have "block_for (b + i * 16) = b" using k i' by (simp add: block_for_def block_consts)
    moreover have "is_atom_aligned (b + i * 16)" using k by (simp add: is_atom_aligned_def ATOM_SIZE_def)
    moreover have "candidate_atom_number b (b + i * 16) = i" by (simp add: candidate_atom_number_def ATOM_SIZE_def)
    ultimately have "b + i * 16 \<in> L \<and> b = block_for (b + i * 16)"
      using b(1) i(2) by (simp add: L [symmetric] marked_cells_def is_marked_def Let_def)
    then show ?thesis by blast
  qed
  moreover have "block_for c \<in> set (mbs_set (ms_blocks ms)) \<and> \<not> block_has_no_marks ar (block_for c)" if "c \<in> L" for c
  proof -
    have "candidate_atom_number (block_for c) c < ATOMS_PER_BLOCK"
      using atom_word_in_range [of c] by (simp add: block_consts)
    then show ?thesis
      using that by (auto simp: L [symmetric] marked_cells_def is_marked_def Let_def block_no_marks_bits)
  qed
  moreover have "set (mbs_set (ms_blocks ms')) = {b \<in> set (mbs_set (ms_blocks ms)). \<not> block_has_no_marks ar b}"
    using sw by (simp add: space_swept_def)
  ultimately show ?thesis by auto
qed

lemma marking_space:
  assumes ok: "space_ok ar ms" and m: "marks_ok ms (clear_all_marks ms ar) (ar1, sv1)"
  shows "space_ok ar1 ms" and "heap_cells bases ar1 = heap_cells bases ar"
    and "container_cell_size ar1 = container_cell_size ar"
proof -
  note same = clear_all_marks_same [OF ok]
  have mo: "marks_only (clear_all_marks ms ar) ar1" using m by (simp add: marking_ok_def marking_frame_def)
  show "space_ok ar1 ms" by (rule space_ok_marks_only [OF same(2) mo])
  show "heap_cells bases ar1 = heap_cells bases ar" using marks_only_geometry(4) [OF mo] same(1) by simp
  show "container_cell_size ar1 = container_cell_size ar"
    using marks_only_geometry(3) [OF mo] marks_only_geometry(3) [OF clear_all_marks_spec(1) [OF ok]]
    by (simp add: fun_eq_iff)
qed

lemma store_collected_result:
  assumes store: "store_ok classes roots ar os" and L: "L = live_of classes roots ar os"
    and m: "marks_are ar (os_space os) ar1 L" and mo: "marks_ok (os_space os) (clear_all_marks (os_space os) ar) (ar1, sv1)"
    and empty: "sv_collector_stack sv1 = []" and marked: "marked (os_space os) (ar1, sv1) = L"
    and sw: "space_swept ar1 (note_mark_phase_end_for_shrink_guard (os_space os)) ar' (os_space os')"
    and os': "os_live_object_addrs os' = filter (\<lambda>c. c \<in> L) (os_live_object_addrs os)"
      "weak_collections_purged L os os'"
  shows "store_collected L ar os ar' os' \<and> list_all (is_addr_marked ar' (os_space os')) (os_live_object_addrs os')"
proof -
  let ?ms = "note_mark_phase_end_for_shrink_guard (os_space os)"
  have ok: "space_ok ar (os_space os)" and live: "set (os_live_object_addrs os) \<subseteq> heap_cells (mbs_set (ms_blocks ?ms)) ar"
    using store by (simp_all add: store_ok_def addrs_ok_def)
  note ms = marking_space [OF ok mo]
  have ok1: "space_ok ar1 ?ms" using ms(1) by simp
  have Lm: "c \<in> L \<longleftrightarrow> c \<in> heap_cells (mbs_set (ms_blocks ?ms)) ar1 \<and> is_marked ar1 c" for c
    using m by (auto simp: marks_are_def ms(2))
  note gates = space_swept_gates [OF ok1 sw]
  have find: "ms_find ar' (os_space os') a = (if a \<in> L then Some a else None)" if "\<not> is_precise a" for a
    using gates(1) [OF that] Lm by simp
  have bytes: "ar_bytes ar' x = (if x = c + 7 then 0 else ar_bytes ar x)"
    if c: "c \<in> L" and x: "c \<le> x" "x < c + container_cell_size ar c" for c x
  proof -
    have "c \<in> heap_cells (mbs_set (ms_blocks (os_space os))) ar" "is_marked ar1 c" using c Lm ms(2) by simp_all
    from live_cell_bytes [OF ok mo empty this x]
    have "ar_bytes ar1 x = (if x = c + 7 then 0 else ar_bytes ar x)" .
    moreover have "\<forall>c\<in>heap_cells (mbs_set (ms_blocks ?ms)) ar1. is_marked ar1 c \<longrightarrow>
        (\<forall>x. c \<le> x \<and> x < c + container_cell_size ar1 c \<longrightarrow> ar_bytes ar' x = ar_bytes ar1 x)"
      using sw unfolding space_swept_def by (elim conjE)
    then have "ar_bytes ar' x = ar_bytes ar1 x"
      using c x unfolding Lm ms(3) by blast
    ultimately show ?thesis by simp
  qed
  have blocks: "set (mbs_set (ms_blocks (os_space os'))) = block_for ` L"
    by (rule collected_blocks [OF ok1 sw]) (use marked in simp)
  have dirs: "\<exists>free. dir_inv ar' (snd e) free \<and> set free = heap_cells (committed (snd e)) ar' - L"
    if e: "e \<in> set (ms_directories (os_space os'))" for e
  proof -
    obtain free where free: "dir_inv ar' (snd e) free"
      "set free = {c \<in> heap_cells (committed (snd e)) ar'. \<not> is_marked ar1 c}"
      using space_swept_dirs [OF ok1 sw e] by blast
    have ok': "space_ok ar' (os_space os')" using sw by (simp add: space_swept_def)
    have "set (committed (snd e)) \<subseteq> set (mbs_set (ms_blocks (os_space os')))"
      using ok' e by (auto simp: space_ok_def dirs_committed_def)
    then have "heap_cells (committed (snd e)) ar' \<subseteq> heap_cells (mbs_set (ms_blocks (os_space os'))) ar'"
      by (auto simp: heap_cells_def)
    also have "\<dots> \<subseteq> heap_cells (mbs_set (ms_blocks ?ms)) ar1"
      unfolding space_swept_cells(3) [OF ok1 sw] by blast
    finally have "heap_cells (committed (snd e)) ar' \<subseteq> heap_cells (mbs_set (ms_blocks ?ms)) ar1" .
    then have "set free = heap_cells (committed (snd e)) ar' - L" using free(2) Lm by auto
    then show ?thesis using free(1) by blast
  qed
  have "list_all (is_addr_marked ar' (os_space os')) (os_live_object_addrs os')"
    using gates(2) Lm os'(1) by (simp add: list_all_iff)
  then show ?thesis
    using sw find bytes blocks dirs os' by (simp add: store_collected_def space_swept_def)
qed

lemma force_collect_result:
  assumes "store_ok classes roots ar os" and "page_local decommit"
  shows "\<exists>st ar' os'. force_collect classes is_object decommit roots ar os = Some (st, ar', os') \<and>
    store_collected (live_of classes roots ar os) ar os ar' os' \<and>
    cs_marked_cells st = card (live_of classes roots ar os) \<and>
    dirs_pages (ms_directories (os_space os')) = dirs_pages (ms_directories (os_space os)) \<and>
    \<not> ms_no_alloc_until_shrink_completes (os_space os')"
proof -
  let ?L = "live_of classes roots ar os" and ?guard = "note_mark_phase_end_for_shrink_guard"
  let ?os1 = "os\<lparr>os_space := ?guard (os_space os)\<rparr>"
  obtain ar1 sv1 where run: "mark_live_set_from_addrs classes (os_map_entry_lists os) (os_weak_map_space_addrs os) roots
      ar (os_space os) = Some (ar1, sv1)" and m: "marks_are ar (os_space os) ar1 ?L"
    and mo: "marks_ok (os_space os) (clear_all_marks (os_space os) ar) (ar1, sv1)"
    and empty: "sv_collector_stack sv1 = []" and count: "sv_visit_count sv1 = card ?L"
    and marked: "marked (os_space os) (ar1, sv1) = ?L"
    using mark_store [OF assms(1)] by blast
  note guard = guard_store [OF assms(1)]
  have ok: "space_ok ar (os_space os)" using assms(1) by (simp add: store_ok_def)
  note ms = marking_space [OF ok mo]
  obtain n os2 where fin: "finalize_unconditional_finalizers ar1 ?os1 = Some (n, os2)"
    and purged: "weak_collections_purged ?L os os2" and os2: "os_space os2 = os_space ?os1"
      "os_live_object_addrs os2 = os_live_object_addrs os"
    using finalizers_result [OF guard(3) [OF m] guard(1)] guard(4) by auto
  have "marks_are ar (os_space os2) ar1 ?L" using guard(3) [OF m] os2(1) by simp
  moreover have "set (os_live_object_addrs os2) \<subseteq> heap_cells (mbs_set (ms_blocks (os_space os2))) ar"
    using guard(1) os2 by (simp add: addrs_ok_def)
  ultimately obtain k where rec: "reconcile_dead_cells_before_sweep is_object ar1 os2 =
      Some (k, os2\<lparr>os_live_object_addrs := filter (\<lambda>c. c \<in> ?L) (os_live_object_addrs os)\<rparr>)"
    using reconcile_result [of ar os2 ar1 ?L is_object] ms(1,2) os2 by auto
  have "space_ok ar1 (os_space ?os1)" using ms(1) by simp
  from sweep_shrink_space [OF this guard(2) assms(2)] obtain r ar2 ms2 ar' ms' where
    sweep: "sweep_all_object_blocks ar1 (?guard (os_space os)) = Some (r, ar2, ms2)"
    and shrink: "ms_shrink decommit ar2 ms2 = (ar', ms')" and sw: "space_swept ar1 (?guard (os_space os)) ar' ms'"
    by auto
  let ?os' = "os2\<lparr>os_live_object_addrs := filter (\<lambda>c. c \<in> ?L) (os_live_object_addrs os), os_space := ms'\<rparr>"
  have "weak_collections_purged ?L os ?os'" using purged by (simp add: weak_collections_purged_def)
  with store_collected_result [OF assms(1) refl m mo empty marked, of ar' ?os'] sw
  have "store_collected ?L ar os ar' ?os'" and "list_all (is_addr_marked ar' ms') (os_live_object_addrs ?os')"
    by simp_all
  moreover have "dirs_pages (ms_directories ms') = dirs_pages (ms_directories (os_space os))"
    using sw collected_dirs_sets(2) by (fastforce simp: space_swept_def)
  moreover have "\<not> ms_no_alloc_until_shrink_completes ms'" using sw by (simp add: space_swept_def)
  ultimately show ?thesis
    using run fin rec sweep shrink os2(1) count by (simp add: force_collect_def Let_def)
qed


text \<open>
  A weak map keeps the value of its live key; an object that only a dead weak set mentions goes.
\<close>

definition demo_store :: object_store where
  "demo_store = \<lparr>os_space = demo_space, os_live_object_addrs = [16768, 16896, 17024, 17152],
     os_weak_map_space_addrs = [16768], os_map_entry_lists = demo_entries,
     os_weak_set_space_addrs = [16896], os_set_value_lists = (\<lambda>_. Some [from_cell 17152])\<rparr>"

lemma demo_store_ok: "store_ok demo_classes [16768] one_block demo_store"
proof -
  note cok = demo_collection_ok [unfolded collection_ok_def]
  note same = clear_all_marks_same(1) [OF demo_space_ok]
  have "spread_ok 32768 ((bd_new 8)\<lparr>bd_pages := [16384], bd_block_base_addr := [16384], bd_decommitted := [False]\<rparr>)"
    by (simp add: spread_ok_def committed_def BLOCK_SIZE_def)
  then have "dirs_spread demo_space" by (auto simp: dirs_spread_def demo_space_def ms_new_def)
  moreover have "weak_maps_ok demo_space one_block demo_entries [16768]"
    using cok by (simp add: weak_maps_ok_def entries_ok_def same)
  then have "addrs_ok one_block demo_store"
    using demo_cells by (simp add: addrs_ok_def demo_store_def demo_space_parts demo_value_cell)
  moreover have "admitted demo_space [16768] \<subseteq> heap_cells [16384] one_block"
    using demo_cells by (simp add: demo_admitted)
  ultimately show ?thesis
    using demo_space_ok cok by (simp add: store_ok_def demo_store_def demo_space_parts)
qed


end
