(* ===== verification/Space_Allocation.thy ===== *)
theory Space_Allocation
  imports Marked_Space
begin

text \<open>
  Allocation in the heap (\<open>allocate_blob\<close> of \<open>src/src/gc/heap/marked_space.rs\<close>): a request of up to half
  a block is served from the directory of its size class, which grows by a block when it is out of
  free cells, a larger one by memory of its own.  The memory that the operating system hands out is
  assumed not to be in use.
\<close>

section \<open>The invariant between collections\<close>

definition heap_inv :: "arena \<Rightarrow> marked_space \<Rightarrow> bool" where
  "heap_inv ar ms \<longleftrightarrow> space_ok ar ms \<and> (\<forall>e\<in>set (ms_directories ms). \<exists>cells. dir_inv ar (snd e) cells)"

definition fresh_page_for :: "nat \<Rightarrow> marked_space \<Rightarrow> bool" where
  "fresh_page_for p ms \<longleftrightarrow>
     page_ok p \<and> p \<notin> dirs_pages (ms_directories ms) \<and> (\<forall>q\<in>set (ms_precise ms). apart q (p, BLOCK_SIZE))"

lemma update_set:
  "distinct (map fst al) \<Longrightarrow> set (AList.update k v al) = insert (k, v) {e \<in> set al. fst e \<noteq> k}"
  by (induction al) (auto simp: image_iff)

lemma directory_entry_cases:
  obtains "directory_entry a ms = bd_new a" "\<forall>e\<in>set (ms_directories ms). fst e \<noteq> a"
  | "(a, directory_entry a ms) \<in> set (ms_directories ms)"
proof (cases "map_of (ms_directories ms) a")
  case None
  then have "\<forall>e\<in>set (ms_directories ms). fst e \<noteq> a" unfolding map_of_eq_None_iff by (metis image_eqI)
  with None show ?thesis using that(1) by (simp add: directory_entry_def)
next
  case (Some d)
  then show ?thesis using that(2) map_of_SomeD [OF Some] by (simp add: directory_entry_def)
qed

lemma directory_entry_inv:
  assumes "heap_inv ar ms" and "0 < a" and "a \<le> END_ATOM - FIRST_PAYLOAD_ATOM"
  shows "\<exists>cells. dir_inv ar (directory_entry a ms) cells"
    and "bd_cell_size_atoms (directory_entry a ms) = a"
    and "set (bd_block_base_addr (directory_entry a ms)) \<subseteq> dirs_pages (ms_directories ms)"
    and "set (committed (directory_entry a ms)) \<subseteq> dirs_committed (ms_directories ms)"
    and "e \<in> set (ms_directories ms) \<Longrightarrow> fst e \<noteq> a \<Longrightarrow>
      set (bd_block_base_addr (directory_entry a ms)) \<inter> set (bd_block_base_addr (snd e)) = {}"
proof -
  have ok: "dirs_ok ar (ms_directories ms)" using assms(1) by (simp add: heap_inv_def space_ok_def)
  have *: "(\<exists>cells. dir_inv ar (directory_entry a ms) cells) \<and> bd_cell_size_atoms (directory_entry a ms) = a \<and>
    set (bd_block_base_addr (directory_entry a ms)) \<subseteq> dirs_pages (ms_directories ms) \<and>
    set (committed (directory_entry a ms)) \<subseteq> dirs_committed (ms_directories ms) \<and>
    (\<forall>e\<in>set (ms_directories ms). fst e \<noteq> a \<longrightarrow>
      set (bd_block_base_addr (directory_entry a ms)) \<inter> set (bd_block_base_addr (snd e)) = {})"
  proof (cases rule: directory_entry_cases [of a ms])
    case 1
    moreover have "bd_block_base_addr (bd_new a) = []" "committed (bd_new a) = []" "bd_cell_size_atoms (bd_new a) = a"
      by (simp_all add: bd_new_def committed_def Let_def)
    ultimately show ?thesis using new_directory_inv [OF assms(2,3)] by auto
  next
    case 2
    then have "bd_cell_size_atoms (directory_entry a ms) = a" using ok by (auto simp: dirs_ok_def)
    moreover have "set (bd_block_base_addr (directory_entry a ms)) \<inter> set (bd_block_base_addr (snd e)) = {}"
      if "e \<in> set (ms_directories ms)" "fst e \<noteq> a" for e
    proof -
      have "(a, directory_entry a ms) \<noteq> e" using that(2) by auto
      with ok 2 that(1) show ?thesis unfolding dirs_ok_def by fastforce
    qed
    moreover have "\<exists>cells. dir_inv ar (directory_entry a ms) cells"
      using 2 assms(1) by (force simp: heap_inv_def)
    ultimately show ?thesis using 2 by (force simp: dirs_pages_def dirs_committed_def)
  qed
  show "\<exists>cells. dir_inv ar (directory_entry a ms) cells" "bd_cell_size_atoms (directory_entry a ms) = a"
    "set (bd_block_base_addr (directory_entry a ms)) \<subseteq> dirs_pages (ms_directories ms)"
    "set (committed (directory_entry a ms)) \<subseteq> dirs_committed (ms_directories ms)"
    using * by blast+
  show "e \<in> set (ms_directories ms) \<Longrightarrow> fst e \<noteq> a \<Longrightarrow>
      set (bd_block_base_addr (directory_entry a ms)) \<inter> set (bd_block_base_addr (snd e)) = {}"
    using * by blast
qed

section \<open>A cell of a block\<close>

text \<open>
  What taking a cell from the directory of \<open>a\<close> atoms and storing bytes in it leaves: the new block,
  if any, and the block of the cell are the only ones that change.
\<close>

definition cell_taken ::
  "nat \<Rightarrow> u8 list \<Rightarrow> arena \<Rightarrow> marked_space \<Rightarrow> nat \<Rightarrow> nat option \<Rightarrow> arena \<Rightarrow> block_directory \<Rightarrow> arena \<Rightarrow> bool" where
  "cell_taken a src ar ms cp nb ar1 d1 ar' \<longleftrightarrow>
     ar' = set_newly_allocated cp (write_bytes cp src ar1) \<and>
     page_frame (set_option nb) ar ar1 \<and>
     set (committed d1) = set_option nb \<union> set (committed (directory_entry a ms)) \<and>
     set (bd_block_base_addr d1) = set_option nb \<union> set (bd_block_base_addr (directory_entry a ms)) \<and>
     set_option nb \<inter> dirs_committed (ms_directories ms) = {} \<and>
     (\<forall>b\<in>set_option nb. \<forall>e\<in>set (ms_directories ms). fst e \<noteq> a \<longrightarrow> b \<notin> set (bd_block_base_addr (snd e))) \<and>
     (\<forall>b\<in>set_option nb. \<forall>q\<in>set (ms_precise ms). apart q (b, BLOCK_SIZE)) \<and>
     bd_cell_size_atoms d1 = a \<and> (\<exists>rest. dir_inv ar1 d1 rest \<and> dir_inv ar' d1 rest) \<and>
     block_for cp \<in> set (committed d1) \<and> cp \<in> set (block_cells ar1 (block_for cp)) \<and> \<not> in_use ar1 cp \<and>
     (\<forall>b\<in>set_option nb. \<forall>c\<in>set (block_cells ar1 b). \<not> in_use ar1 c) \<and> length src \<le> a * ATOM_SIZE"

lemma allocate_takes_cell:
  assumes inv: "heap_inv ar ms" and a: "0 < a" "a \<le> END_ATOM - FIRST_PAYLOAD_ATOM"
    and "page_local recommit" and fresh: "fresh_page_for p ms" and len: "length src \<le> a * ATOM_SIZE"
  shows "\<exists>cp nb ar1 d1 ar'. bd_allocate_blob recommit p src ar (directory_entry a ms) = Some (cp, nb, ar', d1) \<and>
    cell_taken a src ar ms cp nb ar1 d1 ar' \<and> set_option nb \<subseteq> insert p (dirs_pages (ms_directories ms))"
proof -
  let ?d = "directory_entry a ms"
  note de = directory_entry_inv [OF inv a]
  obtain cells where d: "dir_inv ar ?d cells" using de(1) by blast
  have fp: "fresh_page p ?d" using fresh de(3) by (auto simp: fresh_page_for_def fresh_page_def)
  obtain cp nb ar1 d1 rest where take: "take_cell recommit p ar ?d = Some (cp, nb, ar1, d1)"
    and t: "dir_inv ar1 d1 rest" "cp \<notin> set rest" "block_for cp \<in> set (committed d1)"
      "cp \<in> set (block_cells ar1 (block_for cp))" "\<not> in_use ar1 cp"
    and frame: "page_frame (set_option nb) ar ar1" and g: "grown nb p ?d d1"
    and blank: "\<forall>b\<in>set_option nb. \<forall>c\<in>set (block_cells ar1 b). \<not> in_use ar1 c"
    using take_cell_spec [OF d assms(4) fp] by blast
  have atoms: "bd_cell_size_atoms d1 = a" using g de(2) by (simp add: grown_def)
  then have "bd_cell_size d1 = a * ATOM_SIZE" using t(1) by (simp add: dir_inv_def dir_ok_def)
  with store_cell_inv [OF t(1,2,3,4)] len
  have inv': "dir_inv (set_newly_allocated cp (write_bytes cp src ar1)) d1 rest" by simp
  have ok: "space_ok ar ms" using inv by (simp add: heap_inv_def)
  have other: "b \<notin> set (bd_block_base_addr (snd e))"
    if "b \<in> set_option nb" "e \<in> set (ms_directories ms)" "fst e \<noteq> a" for b e
  proof -
    have "b = p \<or> b \<in> set (bd_block_base_addr ?d)" using g that(1) by (auto simp: grown_def)
    moreover have "p \<notin> set (bd_block_base_addr (snd e))"
      using fresh that(2) by (auto simp: fresh_page_for_def dirs_pages_def)
    ultimately show ?thesis using de(5) [OF that(2,3)] by blast
  qed
  have "b \<notin> dirs_committed (ms_directories ms)" if b: "b \<in> set_option nb" for b
  proof
    assume "b \<in> dirs_committed (ms_directories ms)"
    then obtain e where e: "e \<in> set (ms_directories ms)" "b \<in> set (committed (snd e))"
      by (auto simp: dirs_committed_def)
    then have "fst e = a" using other [OF b e(1)] committed_subset by blast
    then have "snd e = ?d"
      using e(1) ok map_of_is_SomeI [of "ms_directories ms" a "snd e"]
      by (cases e) (auto simp: directory_entry_def space_ok_def dirs_ok_def)
    then show False using e(2) g b by (auto simp: grown_def)
  qed
  moreover have "apart q (b, BLOCK_SIZE)" if "b \<in> set_option nb" "q \<in> set (ms_precise ms)" for b q
  proof (cases "b = p")
    case True
    then show ?thesis using fresh that by (simp add: fresh_page_for_def)
  next
    case False
    then have "b \<in> dirs_pages (ms_directories ms)" using g that(1) de(3) by (auto simp: grown_def)
    then show ?thesis using ok that(2) by (cases q) (auto simp: space_ok_def precise_ok_def)
  qed
  ultimately have "cell_taken a src ar ms cp nb ar1 d1 (set_newly_allocated cp (write_bytes cp src ar1))"
    using frame g atoms t inv' other blank len unfolding cell_taken_def grown_def by blast
  moreover have "bd_allocate_blob recommit p src ar ?d = Some (cp, nb, set_newly_allocated cp (write_bytes cp src ar1), d1)"
    using take by (simp add: bd_allocate_blob_def)
  moreover have "set_option nb \<subseteq> insert p (dirs_pages (ms_directories ms))"
    using g de(3) by (auto simp: grown_def)
  ultimately show ?thesis by blast
qed

lemma cell_taken_frame:
  assumes "cell_taken a src ar ms cp nb ar1 d1 ar'"
  shows "page_frame (insert (block_for cp) (set_option nb)) ar ar'"
    and "block_ok ar1 (block_for cp)" and "is_atom_aligned cp"
    and "x < cp \<or> cp + length src \<le> x \<Longrightarrow> ar_bytes ar' x = ar_bytes ar1 x"
    and "b \<noteq> block_for cp \<Longrightarrow> ar_header ar' b = ar_header ar1 b"
proof -
  note t = assms [unfolded cell_taken_def]
  obtain rest where inv: "dir_inv ar1 d1 rest" using t by blast
  then have ok: "dir_ok ar1 d1" by (simp add: dir_inv_def)
  have atoms: "bd_cell_size d1 = a * ATOM_SIZE" using ok t by (simp add: dir_ok_def)
  have com: "block_for cp \<in> set (committed d1)" "cp \<in> set (block_cells ar1 (block_for cp))" using t by blast+
  note blk = dir_inv_block [OF ok com(1)]
  show b1: "block_ok ar1 (block_for cp)" by (rule blk(1))
  note bd = block_cells_bounds [OF b1 com(2)]
  show "is_atom_aligned cp" by (rule bd(4))
  have ar': "ar' = set_newly_allocated cp (write_bytes cp src ar1)" and len: "length src \<le> a * ATOM_SIZE"
    using t by blast+
  show bytes: "ar_bytes ar' x = ar_bytes ar1 x" if "x < cp \<or> cp + length src \<le> x" for x
    using that by (auto simp: ar' write_bytes_def)
  show hdr: "b \<noteq> block_for cp \<Longrightarrow> ar_header ar' b = ar_header ar1 b" for b
    by (simp add: ar' set_newly_allocated_def update_header_def write_bytes_def Let_def)
  have "x < cp \<or> cp + length src \<le> x" if "x < block_for cp \<or> block_for cp + BLOCK_SIZE \<le> x" for x
    using that bd(1,2) len blk(2) atoms by linarith
  then have "page_frame {block_for cp} ar1 ar'"
    using bytes hdr unfolding page_frame_def by simp
  from page_frame_trans [OF _ this, of "set_option nb" ar] show "page_frame (insert (block_for cp) (set_option nb)) ar ar'"
    using t by (simp add: Un_commute)
qed

abbreviation taken_space :: "nat \<Rightarrow> nat option \<Rightarrow> block_directory \<Rightarrow> marked_space \<Rightarrow> marked_space" where
  "taken_space a nb d1 ms \<equiv> register_block nb (put_directory a d1 ms)"

lemma taken_space_parts:
  "ms_directories (taken_space a nb d1 ms) = AList.update a d1 (ms_directories ms)"
  "set (mbs_set (ms_blocks (taken_space a nb d1 ms))) = set_option nb \<union> set (mbs_set (ms_blocks ms))"
  "distinct (mbs_set (ms_blocks ms)) \<Longrightarrow> distinct (mbs_set (ms_blocks (taken_space a nb d1 ms)))"
  "filter_ok (ms_blocks ms) \<Longrightarrow> filter_ok (ms_blocks (taken_space a nb d1 ms))"
  "ms_precise (taken_space a nb d1 ms) = ms_precise ms"
  "ms_precise_set (taken_space a nb d1 ms) = ms_precise_set ms"
  by (auto simp: register_block_def put_directory_def mbs_add_def filter_ok_ops(2) [unfolded mbs_add_def]
      split: option.split)

lemma cell_taken_dirs:
  assumes inv: "heap_inv ar ms" and a: "0 < a" "a \<le> END_ATOM - FIRST_PAYLOAD_ATOM"
    and t: "cell_taken a src ar ms cp nb ar1 d1 ar'"
  defines "dirs' \<equiv> AList.update a d1 (ms_directories ms)"
  shows "dirs_ok ar' dirs'" and "\<forall>e\<in>set dirs'. \<exists>cells. dir_inv ar' (snd e) cells"
    and "dirs_pages dirs' = set_option nb \<union> dirs_pages (ms_directories ms)"
    and "dirs_committed dirs' = set_option nb \<union> dirs_committed (ms_directories ms)"
proof -
  note f = t [unfolded cell_taken_def]
  note de = directory_entry_inv [OF inv a]
  let ?dirs = "ms_directories ms" and ?d = "directory_entry a ms"
  have okd: "dirs_ok ar ?dirs" using inv by (simp add: heap_inv_def space_ok_def)
  then have dist: "distinct (map fst ?dirs)" by (simp add: dirs_ok_def)
  note set' = update_set [OF dist, of a d1, folded dirs'_def]
  obtain rest where inv1: "dir_inv ar' d1 rest" using f by blast
  have pages1: "set (bd_block_base_addr d1) \<inter> set (bd_block_base_addr (snd e)) = {}"
    if "e \<in> set ?dirs" "fst e \<noteq> a" for e
  proof -
    have "set (bd_block_base_addr d1) = set_option nb \<union> set (bd_block_base_addr ?d)"
      and "\<forall>b\<in>set_option nb. b \<notin> set (bd_block_base_addr (snd e))" using f that by blast+
    then show ?thesis using de(5) [OF that] by blast
  qed
  have same: "same_blocks ar (snd e) ar'" if e: "e \<in> set ?dirs" "fst e \<noteq> a" for e
  proof (rule page_frame_same_blocks [OF cell_taken_frame(1) [OF t]])
    show "dir_ok ar (snd e)" using okd e(1) by (simp add: dirs_ok_def)
    have sub: "insert (block_for cp) (set_option nb) \<subseteq> set (committed d1)" using f by auto
    then show "insert (block_for cp) (set_option nb) \<inter> set (committed (snd e)) = {}"
      using pages1 [OF e] committed_subset [of d1] committed_subset [of "snd e"] by blast
    have "dir_ok ar' d1" using inv1 by (simp add: dir_inv_def)
    then show "BLOCK_SIZE dvd p" if "p \<in> insert (block_for cp) (set_option nb)" for p
      using dir_inv_block(3) [of ar' d1 p] sub that by (auto simp: page_ok_def)
  qed
  show inv': "\<forall>e\<in>set dirs'. \<exists>cells. dir_inv ar' (snd e) cells"
  proof
    fix e assume "e \<in> set dirs'"
    then consider "e = (a, d1)" | "e \<in> set ?dirs" "fst e \<noteq> a" unfolding set' by blast
    then show "\<exists>cells. dir_inv ar' (snd e) cells"
    proof cases
      case 2
      then obtain cells where "dir_inv ar (snd e) cells" using inv by (auto simp: heap_inv_def)
      from dir_inv_frame [OF this same [OF 2]] show ?thesis by blast
    qed (use inv1 in auto)
  qed
  have "bd_cell_size_atoms d1 = a" using f by blast
  moreover have "distinct (map fst dirs')" using dist by (simp add: dirs'_def distinct_update)
  moreover have "set (bd_block_base_addr (snd e)) \<inter> set (bd_block_base_addr (snd e')) = {}"
    if e: "e \<in> set dirs'" "e' \<in> set dirs'" "e \<noteq> e'" for e e'
  proof -
    consider "e = (a, d1)" "e' \<in> set ?dirs" "fst e' \<noteq> a" | "e' = (a, d1)" "e \<in> set ?dirs" "fst e \<noteq> a"
      | "e \<in> set ?dirs" "e' \<in> set ?dirs"
      using e unfolding set' insert_iff mem_Collect_eq by metis
    then show ?thesis
    proof cases
      case 1
      then show ?thesis using pages1 [OF 1(2,3)] by simp
    next
      case 2
      then show ?thesis using pages1 [OF 2(2,3)] by (simp add: Int_commute)
    next
      case 3
      then show ?thesis using okd e(3) by (simp add: dirs_ok_def)
    qed
  qed
  moreover have "dir_ok ar' (snd e)" if "e \<in> set dirs'" for e
    using inv' that by (auto simp: dir_inv_def)
  ultimately show "dirs_ok ar' dirs'"
    using okd unfolding set' dirs_ok_def by auto
  have split: "(\<Union>e\<in>set ?dirs. F (snd e)) = F ?d \<union> (\<Union>e\<in>{e \<in> set ?dirs. fst e \<noteq> a}. F (snd e))"
    if "F (bd_new a) = {}" for F :: "block_directory \<Rightarrow> nat set"
  proof (cases rule: directory_entry_cases [of a ms])
    case 1
    then show ?thesis using that by auto
  next
    case 2
    have "e = (a, ?d)" if "e \<in> set ?dirs" "fst e = a" for e
    proof -
      have "(a, snd e) \<in> set ?dirs" using that by force
      from eq_key_imp_eq_value [OF dist this 2] show ?thesis using that(2) by (simp add: prod_eq_iff)
    qed
    then have eq: "set ?dirs = insert (a, ?d) {e \<in> set ?dirs. fst e \<noteq> a}" using 2 by blast
    show ?thesis by (subst eq) (simp only: UN_insert snd_conv)
  qed
  have none: "set (bd_block_base_addr (bd_new a)) = {}" "set (committed (bd_new a)) = {}"
    by (simp_all add: bd_new_def committed_def Let_def)
  show "dirs_pages dirs' = set_option nb \<union> dirs_pages ?dirs"
    unfolding dirs_pages_def set' split [where F = "\<lambda>d. set (bd_block_base_addr d)", OF none(1)] using f by auto
  show "dirs_committed dirs' = set_option nb \<union> dirs_committed ?dirs"
    unfolding dirs_committed_def set' split [where F = "\<lambda>d. set (committed d)", OF none(2)] using f by auto
qed

lemma cell_taken_inv:
  assumes inv: "heap_inv ar ms" and a: "0 < a" "a \<le> END_ATOM - FIRST_PAYLOAD_ATOM"
    and t: "cell_taken a src ar ms cp nb ar1 d1 ar'"
  shows "heap_inv ar' (taken_space a nb d1 ms)"
proof -
  note d = cell_taken_dirs [OF inv a t]
  have ok: "space_ok ar ms" using inv by (simp add: heap_inv_def)
  have "apart q (b, BLOCK_SIZE)" if "b \<in> set_option nb" "q \<in> set (ms_precise ms)" for b q
    using t that unfolding cell_taken_def by blast
  then have "precise_ok (taken_space a nb d1 ms)"
    using ok d(3) by (auto simp: space_ok_def precise_ok_def taken_space_parts)
  then show ?thesis
    using ok d(1,2,4) by (simp add: heap_inv_def space_ok_def taken_space_parts)
qed

text \<open>The bytes of a cell that the gates find.\<close>

definition cell_extent :: "arena \<Rightarrow> marked_space \<Rightarrow> nat \<Rightarrow> nat set" where
  "cell_extent ar ms c =
     (if is_precise c then \<Union>((\<lambda>(p, n). if c = p + HALF_ALIGNMENT then {c..<p + n} else {}) ` set (ms_precise ms))
      else {c..<c + container_cell_size ar c})"

lemma cell_taken_find:
  assumes inv: "heap_inv ar ms" and a: "0 < a" "a \<le> END_ATOM - FIRST_PAYLOAD_ATOM"
    and t: "cell_taken a src ar ms cp nb ar1 d1 ar'"
  shows "ms_find ar' (taken_space a nb d1 ms) x = (if x = cp then Some cp else ms_find ar ms x)"
    and "ms_find ar ms cp = None"
proof -
  let ?ms' = "taken_space a nb d1 ms"
  note f = t [unfolded cell_taken_def] and fr = cell_taken_frame [OF t]
  have ok: "space_ok ar ms" using inv by (simp add: heap_inv_def)
  have ok': "space_ok ar' ?ms'" using cell_taken_inv [OF inv a t] by (simp add: heap_inv_def)
  have new: "b \<notin> set (mbs_set (ms_blocks ms))" if "b \<in> set_option nb" for b
    using f ok that unfolding space_ok_def by blast
  have in_use': "in_use ar' y \<longleftrightarrow> cp = y \<or> in_use ar1 y" if "is_atom_aligned y" for y
    using f set_newly_allocated_in_use [of "write_bytes cp src ar1" cp y] fr(2,3) that by simp
  have old: "in_use ar1 y = in_use ar y" if "block_for y \<notin> set_option nb" for y
    using f that by (simp add: page_frame_def in_use_def is_newly_allocated_def is_marked_def Let_def)
  have cells': "block_cells ar' b = block_cells ar1 b" for b using f by simp
  have cells1: "block_cells ar1 b = block_cells ar b" if "b \<notin> set_option nb" for b
    using f that by (intro block_cells_header) (simp add: page_frame_def)
  have com: "block_for cp \<in> set_option nb \<union> set (mbs_set (ms_blocks ms))"
  proof -
    have "block_for cp \<in> set_option nb \<union> set (committed (directory_entry a ms))" using f by blast
    then show ?thesis using directory_entry_inv(4) [OF inv a] ok by (auto simp: space_ok_def)
  qed
  have npc: "\<not> is_precise cp" by (rule aligned_not_precise [OF fr(3)])
  have iff': "y \<in> heap_cells (mbs_set (ms_blocks ?ms')) ar' \<longleftrightarrow>
      block_for y \<in> set_option nb \<union> set (mbs_set (ms_blocks ms)) \<and> y \<in> set (block_cells ar1 (block_for y))" for y
    using heap_cells_iff [OF space_blocks_ok [OF ok']] by (simp add: taken_space_parts cells')
  have iff: "y \<in> heap_cells (mbs_set (ms_blocks ms)) ar \<longleftrightarrow>
      block_for y \<in> set (mbs_set (ms_blocks ms)) \<and> y \<in> set (block_cells ar (block_for y))" for y
    by (rule heap_cells_iff [OF space_blocks_ok [OF ok]])
  show none: "ms_find ar ms cp = None"
  proof (cases "block_for cp \<in> set_option nb")
    case True
    then show ?thesis using find_cell [OF ok npc] iff new by simp
  next
    case False
    then have "\<not> in_use ar cp" using old f by blast
    then show ?thesis using find_cell [OF ok npc] by simp
  qed
  show "ms_find ar' ?ms' x = (if x = cp then Some cp else ms_find ar ms x)"
  proof (cases "is_precise x")
    case True
    then show ?thesis using npc by (auto simp: ms_find_def taken_space_parts)
  next
    case np: False
    note find' = find_cell [OF ok' np] and find = find_cell [OF ok np]
    have al: "is_atom_aligned x" if "x \<in> heap_cells (mbs_set (ms_blocks ?ms')) ar'"
      by (rule heap_cell(2) [OF space_blocks_ok [OF ok'] that])
    consider "x = cp" | "x \<noteq> cp" "block_for x \<in> set_option nb" | "x \<noteq> cp" "block_for x \<notin> set_option nb" by blast
    then show ?thesis
    proof cases
      case 1
      have "cp \<in> set (block_cells ar1 (block_for cp))" using f by blast
      then show ?thesis using 1 find' iff' com in_use' [OF fr(3)] by simp
    next
      case 2
      have "\<not> in_use ar1 x" if "x \<in> set (block_cells ar1 (block_for x))" using f 2(2) that by blast
      then have "ms_find ar' ?ms' x = None" using find' iff' al in_use' 2(1) by auto
      moreover have "ms_find ar ms x = None" using find iff new [OF 2(2)] by simp
      ultimately show ?thesis using 2 by simp
    next
      case 3
      then have "x \<in> heap_cells (mbs_set (ms_blocks ?ms')) ar' \<longleftrightarrow> x \<in> heap_cells (mbs_set (ms_blocks ms)) ar"
        using iff iff' cells1 by simp
      moreover have "in_use ar' x = in_use ar x" if "is_atom_aligned x"
        using in_use' [OF that] old [OF 3(2)] 3(1) by auto
      ultimately show ?thesis using find find' al 3(1) by auto
    qed
  qed
qed

lemma found_cell:
  assumes "space_ok ar ms" and "ms_find ar ms c = Some c'"
  shows "c' = c" and "\<not> is_precise c \<Longrightarrow> c \<in> heap_cells (mbs_set (ms_blocks ms)) ar"
    and "is_precise c \<Longrightarrow> c \<in> set (ms_precise_set ms)"
  using assms(2) find_cell [OF assms(1), of c] by (auto simp: ms_find_def Let_def split: if_splits)

lemma page_of_cell:
  assumes "space_ok ar ms" and "c \<in> heap_cells (mbs_set (ms_blocks ms)) ar"
  shows "block_for c \<in> dirs_pages (ms_directories ms)" and "BLOCK_SIZE dvd block_for c"
    and "x \<in> {c..<c + container_cell_size ar c} \<Longrightarrow> block_for c \<le> x \<and> x < block_for c + BLOCK_SIZE"
proof -
  note h = heap_cell [OF space_blocks_ok [OF assms(1)] assms(2)]
  note bd = block_cells_bounds(1,2) [OF h(4,3)]
  show "block_for c \<in> dirs_pages (ms_directories ms)"
    using h(1) assms(1) committed_subset by (fastforce simp: space_ok_def dirs_committed_def dirs_pages_def)
  show "BLOCK_SIZE dvd block_for c" using h(4) by (simp add: block_ok_def)
  show "x \<in> {c..<c + container_cell_size ar c} \<Longrightarrow> block_for c \<le> x \<and> x < block_for c + BLOCK_SIZE"
    using bd by (simp add: container_cell_size_def)
qed

lemma cell_taken_bytes:
  assumes inv: "heap_inv ar ms" and a: "0 < a" "a \<le> END_ATOM - FIRST_PAYLOAD_ATOM"
    and t: "cell_taken a src ar ms cp nb ar1 d1 ar'"
    and c: "ms_find ar ms c = Some c" and x: "x \<in> cell_extent ar ms c"
  shows "ar_bytes ar' x = ar_bytes ar x"
proof -
  let ?ms' = "taken_space a nb d1 ms" and ?P = "insert (block_for cp) (set_option nb)"
  note f = t [unfolded cell_taken_def] and fr = cell_taken_frame [OF t]
  have ok: "space_ok ar ms" using inv by (simp add: heap_inv_def)
  have ok': "space_ok ar' ?ms'" using cell_taken_inv [OF inv a t] by (simp add: heap_inv_def)
  obtain rest where inv1: "dir_inv ar1 d1 rest" using f by blast
  have sub: "?P \<subseteq> set (committed d1)" using f by auto
  have dvd: "BLOCK_SIZE dvd b" if "b \<in> ?P" for b
    using dir_inv_block(3) [of ar1 d1 b] inv1 sub that by (auto simp: dir_inv_def page_ok_def)
  show ?thesis
  proof (cases "is_precise c")
    case True
    then obtain p n where pn: "(p, n) \<in> set (ms_precise ms)" "p \<le> x" "x < p + n"
      using x by (auto simp: cell_extent_def split: if_splits)
    have "apart (p, n) (b, BLOCK_SIZE)" if "b \<in> ?P" for b
    proof (cases "b \<in> set_option nb")
      case True
      then show ?thesis using f pn(1) by blast
    next
      case False
      then have "b \<in> set (committed (directory_entry a ms))" using that f by blast
      then have "b \<in> dirs_pages (ms_directories ms)"
        using directory_entry_inv(3) [OF inv a] committed_subset by blast
      then show ?thesis using ok pn(1) by (auto simp: space_ok_def precise_ok_def)
    qed
    then have "\<forall>b\<in>?P. x < b \<or> b + BLOCK_SIZE \<le> x" using pn(2,3) by (force simp: apart_def)
    then show ?thesis using fr(1) unfolding page_frame_def by blast
  next
    case np: False
    note hc = found_cell(2) [OF ok c np]
    note page = page_of_cell [OF ok hc]
    have xc: "x \<in> {c..<c + container_cell_size ar c}" using x np by (simp add: cell_extent_def)
    have reg: "block_for c \<in> set (mbs_set (ms_blocks ms))" by (rule heap_cell(1) [OF space_blocks_ok [OF ok] hc])
    then have "block_for c \<in> dirs_committed (ms_directories ms)" using ok by (simp add: space_ok_def)
    moreover have "set_option nb \<inter> dirs_committed (ms_directories ms) = {}" using f by (elim conjE)
    ultimately have nb: "block_for c \<notin> set_option nb" by blast
    have "x < b \<or> b + BLOCK_SIZE \<le> x" if "b \<in> set_option nb" for b
    proof -
      have "b \<in> ?P" "b \<noteq> block_for c" using that nb by auto
      from pages_apart [OF dvd [OF this(1)] page(2) this(2)] show ?thesis using page(3) [OF xc] by auto
    qed
    moreover have frame: "page_frame (set_option nb) ar ar1" using f by (elim conjE)
    ultimately have b1: "ar_bytes ar1 x = ar_bytes ar x" by (simp add: page_frame_def)
    have "cp \<noteq> c" using cell_taken_find(2) [OF inv a t] c by auto
    have find': "ms_find ar' ?ms' c = Some c" "ms_find ar' ?ms' cp = Some cp"
      using cell_taken_find(1) [OF inv a t] c by simp_all
    have hc': "c \<in> heap_cells (mbs_set (ms_blocks ?ms')) ar'" "cp \<in> heap_cells (mbs_set (ms_blocks ?ms')) ar'"
      using found_cell(2) [OF ok' find'(1) np] found_cell(2) [OF ok' find'(2) aligned_not_precise [OF fr(3)]] .
    have geo: "block_atoms_per_cell ar' b = block_atoms_per_cell ar1 b" for b
      using f by (simp add: block_atoms_per_cell_def set_newly_allocated_def update_header_def write_bytes_def Let_def)
    have "ar_header ar1 (block_for c) = ar_header ar (block_for c)" using frame nb by (simp add: page_frame_def)
    then have "container_cell_size ar' c = container_cell_size ar c"
      by (simp add: container_cell_size_def geo) (simp add: block_atoms_per_cell_def)
    moreover have "length src \<le> container_cell_size ar' cp"
    proof -
      have "dir_ok ar1 d1" using inv1 by (simp add: dir_inv_def)
      from dir_inv_block(2) [OF this] have "block_atoms_per_cell ar1 (block_for cp) * ATOM_SIZE = bd_cell_size d1"
        using sub by blast
      moreover have "bd_cell_size d1 = a * ATOM_SIZE" using \<open>dir_ok ar1 d1\<close> f by (simp add: dir_ok_def)
      moreover have "length src \<le> a * ATOM_SIZE" using f by (elim conjE)
      ultimately show ?thesis unfolding container_cell_size_def geo by (simp only:)
    qed
    ultimately have "x < cp \<or> cp + length src \<le> x"
      using cells_do_not_overlap [OF space_blocks_ok [OF ok'] hc', of x] xc \<open>cp \<noteq> c\<close> by fastforce
    then show ?thesis using fr(4) b1 by simp
  qed
qed

section \<open>A large allocation\<close>

definition fresh_region_for :: "nat \<Rightarrow> nat \<Rightarrow> marked_space \<Rightarrow> bool" where
  "fresh_region_for p n ms \<longleftrightarrow>
     ATOM_SIZE dvd p \<and> 0 < p \<and> n \<le> 2 ^ 63 - ATOM_SIZE \<and>
     (\<forall>q\<in>set (ms_precise ms). apart q (p, n)) \<and>
     (\<forall>b\<in>dirs_pages (ms_directories ms). apart (p, n) (b, BLOCK_SIZE))"

abbreviation with_region :: "nat \<Rightarrow> nat \<Rightarrow> marked_space \<Rightarrow> marked_space" where
  "with_region p n ms \<equiv>
     ms\<lparr>ms_precise := ms_precise ms @ [(p, n)], ms_precise_set := List.insert (p + HALF_ALIGNMENT) (ms_precise_set ms)\<rparr>"

lemma region_taken:
  assumes inv: "heap_inv ar ms" and fresh: "fresh_region_for p n ms" and n: "HALF_ALIGNMENT \<le> n"
    and frame: "ar_header ar' = ar_header ar" "\<And>x. x < p \<or> p + n \<le> x \<Longrightarrow> ar_bytes ar' x = ar_bytes ar x"
  shows "heap_inv ar' (with_region p n ms)"
    and "ms_find ar' (with_region p n ms) x =
      (if x = p + HALF_ALIGNMENT then Some (p + HALF_ALIGNMENT) else ms_find ar ms x)"
    and "ms_find ar ms (p + HALF_ALIGNMENT) = None"
    and "ms_find ar ms c = Some c \<Longrightarrow> x \<in> cell_extent ar ms c \<Longrightarrow> ar_bytes ar' x = ar_bytes ar x"
proof -
  have ok: "space_ok ar ms" using inv by (simp add: heap_inv_def)
  have pr: "precise_ok ms" using ok by (simp add: space_ok_def)
  have pages: "apart (p, n) (b, BLOCK_SIZE)" if "b \<in> dirs_pages (ms_directories ms)" for b
    using fresh that by (simp add: fresh_region_for_def)
  have same: "same_blocks ar (snd e) ar'" if e: "e \<in> set (ms_directories ms)" for e
    unfolding same_blocks_def
  proof (intro ballI conjI allI impI)
    fix b x assume b: "b \<in> set (committed (snd e))"
    show "ar_header ar' b = ar_header ar b" by (simp add: frame(1))
    have "b \<in> dirs_pages (ms_directories ms)" using b e committed_subset by (fastforce simp: dirs_pages_def)
    from pages [OF this] show "ar_bytes ar' x = ar_bytes ar x" if "b \<le> x \<and> x < b + BLOCK_SIZE"
      using that by (intro frame(2)) (auto simp: apart_def)
  qed
  have inv': "\<exists>cells. dir_inv ar' (snd e) cells" if e: "e \<in> set (ms_directories ms)" for e
    using inv e dir_inv_frame [OF _ same [OF e]] by (fastforce simp: heap_inv_def)
  then have "dirs_ok ar' (ms_directories ms)"
    using ok by (fastforce simp: space_ok_def dirs_ok_def dir_inv_def)
  moreover have "precise_ok (with_region p n ms)"
    using pr fresh n pages by (auto simp: precise_ok_def fresh_region_for_def sorted_wrt_append)
  ultimately show "heap_inv ar' (with_region p n ms)"
    using ok inv' by (simp add: heap_inv_def space_ok_def)
  have odd: "is_precise (p + HALF_ALIGNMENT)"
  proof -
    obtain k where "p = 16 * k" using fresh by (auto simp: fresh_region_for_def ATOM_SIZE_def)
    then show ?thesis by (simp add: is_precise_iff HALF_ALIGNMENT_def ATOM_SIZE_def)
  qed
  have new: "p + HALF_ALIGNMENT \<notin> set (ms_precise_set ms)"
  proof
    assume "p + HALF_ALIGNMENT \<in> set (ms_precise_set ms)"
    then obtain m where m: "(p, m) \<in> set (ms_precise ms)" using pr by (auto simp: precise_ok_def)
    then have "HALF_ALIGNMENT \<le> m" using pr by (auto simp: precise_ok_def)
    moreover have "apart (p, m) (p, n)" using m fresh by (auto simp: fresh_region_for_def)
    ultimately show False using n by (simp add: apart_def HALF_ALIGNMENT_def ATOM_SIZE_def)
  qed
  then show none: "ms_find ar ms (p + HALF_ALIGNMENT) = None" using odd by (simp add: ms_find_def)
  have "is_live_cell ar' x = is_live_cell ar x"
    using frame(1) by (simp add: is_live_cell_def is_atom_def is_newly_allocated_def is_marked_def Let_def
        block_atoms_per_cell_def block_start_atom_def)
  then show "ms_find ar' (with_region p n ms) x =
      (if x = p + HALF_ALIGNMENT then Some (p + HALF_ALIGNMENT) else ms_find ar ms x)"
    using odd by (auto simp: ms_find_def Let_def)
  assume c: "ms_find ar ms c = Some c" and x: "x \<in> cell_extent ar ms c"
  show "ar_bytes ar' x = ar_bytes ar x"
  proof (rule frame(2), cases "is_precise c")
    case True
    then obtain q m where "(q, m) \<in> set (ms_precise ms)" "q \<le> x" "x < q + m"
      using x by (auto simp: cell_extent_def split: if_splits)
    then have "apart (q, m) (p, n)" "q \<le> x" "x < q + m" using fresh by (auto simp: fresh_region_for_def)
    then show "x < p \<or> p + n \<le> x" by (auto simp: apart_def)
  next
    case np: False
    note page = page_of_cell [OF ok found_cell(2) [OF ok c np]]
    have "block_for c \<le> x \<and> x < block_for c + BLOCK_SIZE" using page(3) x np by (simp add: cell_extent_def)
    with pages [OF page(1)] show "x < p \<or> p + n \<le> x" by (auto simp: apart_def)
  qed
qed

lemma precise_blob_taken:
  assumes "fresh_region_for p (HALF_ALIGNMENT + sz) ms" and "length src \<le> sz"
  shows "\<exists>ar'. precise_allocate_blob p sz src ar (ms_precise ms) =
      Some (p + HALF_ALIGNMENT, ar', ms_precise ms @ [(p, HALF_ALIGNMENT + sz)]) \<and>
    ar_header ar' = ar_header ar \<and>
    (\<forall>x. x < p \<or> p + (HALF_ALIGNMENT + sz) \<le> x \<longrightarrow> ar_bytes ar' x = ar_bytes ar x) \<and>
    (\<forall>i < length src. ar_bytes ar' (p + HALF_ALIGNMENT + i) = src ! i)"
  using assms by (auto simp: precise_allocate_blob_def alloc_zeroed_bytes_def fresh_region_for_def write_bytes_def Let_def)

section \<open>Allocation\<close>

lemma counters_same:
  fixes ms :: marked_space and n k :: nat
  defines "ms1 \<equiv> bump_bytes_allocated_this_cycle n (ms\<lparr>ms_allocated_blob_cells := k\<rparr>)"
  shows "heap_inv ar ms1 = heap_inv ar ms" and "ms_find ar ms1 = ms_find ar ms"
    and "cell_extent ar ms1 = cell_extent ar ms" and "fresh_page_for p ms1 = fresh_page_for p ms"
    and "fresh_region_for p m ms1 = fresh_region_for p m ms"
  by (simp_all add: ms1_def bump_bytes_allocated_this_cycle_def heap_inv_def space_ok_def precise_ok_def ms_find_def
      cell_extent_def fresh_page_for_def fresh_region_for_def fun_eq_iff Let_def cong: if_cong)

text \<open>The state after an allocation that handed out \<open>cp\<close> for the bytes \<open>src\<close>.\<close>

definition cell_added :: "u8 list \<Rightarrow> arena \<Rightarrow> marked_space \<Rightarrow> nat \<Rightarrow> arena \<Rightarrow> marked_space \<Rightarrow> bool" where
  "cell_added src ar ms cp ar' ms' \<longleftrightarrow>
     heap_inv ar' ms' \<and> ms_find ar ms cp = None \<and>
     (\<forall>x. ms_find ar' ms' x = (if x = cp then Some cp else ms_find ar ms x)) \<and>
     (\<forall>i < length src. ar_bytes ar' (cp + i) = src ! i) \<and>
     (\<forall>c x. ms_find ar ms c = Some c \<longrightarrow> x \<in> cell_extent ar ms c \<longrightarrow> ar_bytes ar' x = ar_bytes ar x)"

definition memory_granted :: "nat \<Rightarrow> nat \<Rightarrow> marked_space \<Rightarrow> bool" where
  "memory_granted os_mem len ms \<longleftrightarrow>
     (if len \<le> LARGE_CUTOFF then fresh_page_for os_mem ms else fresh_region_for os_mem (HALF_ALIGNMENT + len) ms)"

lemma allocate_blob_result:
  assumes inv: "heap_inv ar ms" and flag: "\<not> ms_no_alloc_until_shrink_completes ms"
    and table: "progression_ok approx" "build_size_classes approx = Some cs"
    and src: "src \<noteq> []" and recommit: "page_local recommit" and mem: "memory_granted os_mem (length src) ms"
  shows "\<exists>cp ar' ms'. ms_allocate_blob (build_size_class_for_size_step cs) recommit os_mem src ar ms = Some (cp, ar', ms') \<and>
    cell_added src ar ms cp ar' ms' \<and> (length src \<le> LARGE_CUTOFF \<longrightarrow> \<not> is_precise cp) \<and>
    \<not> ms_no_alloc_until_shrink_completes ms' \<and>
    dirs_pages (ms_directories ms') \<subseteq> insert os_mem (dirs_pages (ms_directories ms))"
proof -
  let ?t = "build_size_class_for_size_step cs"
  define ms1 where "ms1 = bump_bytes_allocated_this_cycle (length src)
      (ms\<lparr>ms_allocated_blob_cells := ms_allocated_blob_cells ms + 1\<rparr>)"
  note same = counters_same [where k = "ms_allocated_blob_cells ms + 1" and ms = ms and n = "length src", folded ms1_def]
  have flag1: "\<not> ms_no_alloc_until_shrink_completes ms1"
    using flag by (simp add: ms1_def bump_bytes_allocated_this_cycle_def Let_def)
  have inv1: "heap_inv ar ms1" using inv same(1) by simp
  have dirs1: "ms_directories ms1 = ms_directories ms" by (simp add: ms1_def bump_bytes_allocated_this_cycle_def Let_def)
  obtain cs' ys where cs': "build_size_classes approx = Some cs'" "sorted_wrt (<) cs'" "list_all class_ok cs'"
    "cs' = 16 # 32 # 48 # 64 # 80 # ys"
    using build_size_classes_ok [OF table(1)] by blast
  then have cs: "cs' = cs" using table(2) by simp
  note route = size_route_class [OF cs'(2,3,4), of "length src", unfolded cs]
    and fits = class_for_fits [OF cs'(3), of "length src", unfolded cs]
  have pos: "0 < length src" using src by simp
  show ?thesis
  proof (cases "length src \<le> LARGE_CUTOFF")
    case True
    define a where "a = class_for cs (length src) div ATOM_SIZE"
    have a: "0 < a" "a \<le> END_ATOM - FIRST_PAYLOAD_ATOM" "length src \<le> a * ATOM_SIZE"
      using fits [OF pos True] by (auto simp: a_def class_ok_def size_consts elim!: dvdE)
    have "fresh_page_for os_mem ms1" using mem True same(4) by (simp add: memory_granted_def)
    from allocate_takes_cell [OF inv1 a(1,2) recommit this a(3)]
    obtain cp nb ar1 d1 ar' where alloc: "bd_allocate_blob recommit os_mem src ar (directory_entry a ms1) = Some (cp, nb, ar', d1)"
      and t: "cell_taken a src ar ms1 cp nb ar1 d1 ar'"
      and nb: "set_option nb \<subseteq> insert os_mem (dirs_pages (ms_directories ms1))" by blast
    note find = cell_taken_find [OF inv1 a(1,2) t] and bytes = cell_taken_bytes [OF inv1 a(1,2) t]
    have "\<forall>i < length src. ar_bytes ar' (cp + i) = src ! i"
      using t by (simp add: cell_taken_def write_bytes_def)
    then have "cell_added src ar ms cp ar' (taken_space a nb d1 ms1)"
      using cell_taken_inv [OF inv1 a(1,2) t] find bytes by (simp add: cell_added_def same)
    moreover have "\<not> is_precise cp" using aligned_not_precise cell_taken_frame(3) [OF t] by blast
    moreover have "\<not> ms_no_alloc_until_shrink_completes (taken_space a nb d1 ms1)"
      using flag1 by (simp add: register_block_def put_directory_def split: option.split)
    moreover have "dirs_pages (ms_directories (taken_space a nb d1 ms1)) \<subseteq> insert os_mem (dirs_pages (ms_directories ms))"
      using nb cell_taken_dirs(3) [OF inv1 a(1,2) t] dirs1 by (simp add: taken_space_parts) blast
    ultimately show ?thesis
      using flag route [OF pos True] alloc
      by (simp add: ms_allocate_blob_def Let_def flip: ms1_def [simplified] a_def)
  next
    case False
    then have "size_route_for ?t (length src) = Some (Precise (length src))"
      using src by (simp add: size_route_for_def optimal_size_for_def size_consts)
    moreover have fresh: "fresh_region_for os_mem (HALF_ALIGNMENT + length src) ms1"
      using mem False same(5) by (simp add: memory_granted_def)
    moreover from precise_blob_taken [OF fresh order_refl] obtain ar' where
      alloc: "precise_allocate_blob os_mem (length src) src ar (ms_precise ms1) =
        Some (os_mem + HALF_ALIGNMENT, ar', ms_precise ms1 @ [(os_mem, HALF_ALIGNMENT + length src)])"
      and hdr: "ar_header ar' = ar_header ar"
      and frame: "\<And>x. x < os_mem \<or> os_mem + (HALF_ALIGNMENT + length src) \<le> x \<Longrightarrow> ar_bytes ar' x = ar_bytes ar x"
      and stored: "\<forall>i < length src. ar_bytes ar' (os_mem + HALF_ALIGNMENT + i) = src ! i"
      by blast
    note taken = region_taken [OF inv1 fresh le_add1 hdr frame]
    have "cell_added src ar ms (os_mem + HALF_ALIGNMENT) ar' (with_region os_mem (HALF_ALIGNMENT + length src) ms1)"
      using taken stored by (simp add: cell_added_def same)
    ultimately show ?thesis
      using flag flag1 alloc False dirs1 by (auto simp: ms_allocate_blob_def Let_def simp flip: ms1_def [simplified])
  qed
qed

text \<open>
  C20: In every well-formed heap an allocation succeeds when the system grants the memory it may ask
  for.  It hands out an address that was not found before and is found afterwards; nothing else
  starts or stops to be found, whatever is asked; the bytes that were stored are there, the bytes of
  every other cell stay as they are, and the heap is well formed again, with all free cells of every
  directory on its list.  Small requests come from the blocks of their size class, large ones from
  memory of their own.
\<close>

theorem allocation_adds_one_cell:
  assumes "heap_inv ar ms" and "\<not> ms_no_alloc_until_shrink_completes ms"
    and "progression_ok approx" and "build_size_classes approx = Some cs"
    and "src \<noteq> []" and "page_local recommit" and "memory_granted os_mem (length src) ms"
  shows "\<exists>cp ar' ms'. ms_allocate_blob (build_size_class_for_size_step cs) recommit os_mem src ar ms = Some (cp, ar', ms') \<and>
    cell_added src ar ms cp ar' ms'"
  using allocate_blob_result [OF assms] by blast

lemma new_space_inv: "heap_inv ar ms_new"
  by (simp add: heap_inv_def space_ok_def dirs_ok_def ms_new_def mbs_new_def dirs_committed_def filter_ok_def precise_ok_def)

lemma new_space_grants: "memory_granted 16384 n ms_new" if "n \<le> 100000"
  using that by (simp add: memory_granted_def fresh_page_for_def fresh_region_for_def page_ok_def ms_new_def
      dirs_pages_def HALF_ALIGNMENT_def block_consts)

theorem allocation_adds_one_cell_witness:
  "\<exists>cs cp ar' ms'. build_size_classes demo_progression = Some cs \<and>
     ms_allocate_blob (build_size_class_for_size_step cs) (\<lambda>_ ar. ar) 16384 [1, 2, 3] one_block ms_new = Some (cp, ar', ms') \<and>
     ms_find ar' ms' cp = Some cp \<and> ar_bytes ar' (cp + 2) = 3"
proof -
  obtain cs where cs: "build_size_classes demo_progression = Some cs"
    using build_size_classes_ok [OF demo_progression_ok] by blast
  have "\<not> ms_no_alloc_until_shrink_completes ms_new" by (simp add: ms_new_def)
  moreover have "memory_granted 16384 (length [1, 2, 3 :: u8]) ms_new" by (rule new_space_grants) simp
  moreover have "page_local (\<lambda>_ ar. ar)" by (simp add: page_local_def)
  ultimately obtain cp ar' ms' where
    "ms_allocate_blob (build_size_class_for_size_step cs) (\<lambda>_ ar. ar) 16384 [1, 2, 3] one_block ms_new = Some (cp, ar', ms')"
    and added: "cell_added [1, 2, 3] one_block ms_new cp ar' ms'"
    using allocation_adds_one_cell [OF new_space_inv _ demo_progression_ok cs, of "[1, 2, 3]" "\<lambda>_ ar. ar" 16384 one_block]
    by auto
  moreover have "\<forall>i < length [1, 2, 3 :: u8]. ar_bytes ar' (cp + i) = [1, 2, 3] ! i" and "ms_find ar' ms' cp = Some cp"
    using added unfolding cell_added_def by auto
  moreover from this(1) have "ar_bytes ar' (cp + 2) = [1, 2, 3] ! 2" by (elim allE [of _ 2]) simp
  ultimately show ?thesis using cs by auto
qed

end
