(* ===== verification/Heap_Lifecycle.thy ===== *)
theory Heap_Lifecycle
  imports Force_Collect Space_Allocation
begin

text \<open>
  The life of the object heap: allocations, writes into live cells, changes of the weak collections
  and collections, in any order.  The mutator is the environment: what it may do is what the rules
  of the step relation allow it.  Allocation is \<open>admit_leaf_cell_blob\<close> of
  \<open>src/src/interpreter/object_store.rs\<close>, with which \<open>allocate_cell\<close> ends as well.
\<close>

section \<open>The steps\<close>

definition admit_leaf_cell_blob ::
  "nat list \<Rightarrow> (nat \<Rightarrow> arena \<Rightarrow> arena) \<Rightarrow> nat \<Rightarrow> u8 list \<Rightarrow> arena \<Rightarrow> object_store
     \<Rightarrow> (nat \<times> arena \<times> object_store) option" where
  "admit_leaf_cell_blob table recommit os_mem src ar os = do {
     (addr, ar1, space) \<leftarrow> ms_allocate_blob table recommit os_mem src ar (os_space os);
     (let inserted = addr \<notin> set (os_live_object_addrs os);
          os1 = os\<lparr>os_space := space, os_live_object_addrs := List.insert addr (os_live_object_addrs os)\<rparr>
      in if \<not> inserted then None else Some (addr, ar1, os1))
   }"

text \<open>
  What the mutator keeps of the heap when it is stopped for a collection: the roots that pass the
  gate are live cells, and so are the children of live cells and the cells that the entries of weak
  collections mention.
\<close>

definition graph_ok :: "(arena \<Rightarrow> nat \<Rightarrow> nat list) \<Rightarrow> nat list \<Rightarrow> arena \<Rightarrow> object_store \<Rightarrow> bool" where
  "graph_ok classes roots ar os \<longleftrightarrow>
     stable_classes classes (mbs_set (ms_blocks (os_space os))) (clear_all_marks (os_space os) ar) \<and>
     admitted (os_space os) roots \<subseteq> set (os_live_object_addrs os) \<and>
     (\<forall>c\<in>set (os_live_object_addrs os). set (classes (clear_all_marks (os_space os) ar) c) \<subseteq> set (os_live_object_addrs os)) \<and>
     (\<forall>w\<in>set (os_weak_map_space_addrs os). \<forall>entries. os_map_entry_lists os w = Some entries \<longrightarrow>
        (\<forall>(key, v)\<in>set entries. \<forall>a. value_cell (os_space os) key = Some a \<or> value_cell (os_space os) v = Some a \<longrightarrow>
           a \<in> set (os_live_object_addrs os))) \<and>
     (\<forall>w\<in>set (os_weak_set_space_addrs os). \<forall>vs. os_set_value_lists os w = Some vs \<longrightarrow>
        (\<forall>v\<in>set vs. \<forall>a. value_cell (os_space os) v = Some a \<longrightarrow> a \<in> set (os_live_object_addrs os)))"

text \<open>
  The addresses that the system hands out lie in a window of \<open>2 ^ 31\<close> bytes from \<open>lo\<close> on, which the
  links of the free lists can span.
\<close>

definition in_window :: "nat \<Rightarrow> nat \<Rightarrow> bool" where
  "in_window lo p \<longleftrightarrow> lo \<le> p \<and> p + BLOCK_SIZE \<le> lo + 2 ^ 31"

inductive heap_step :: "nat list \<Rightarrow> nat \<Rightarrow> arena \<times> object_store \<Rightarrow> arena \<times> object_store \<Rightarrow> bool"
  for table lo
where
  admit: "src \<noteq> [] \<Longrightarrow> length src \<le> LARGE_CUTOFF \<Longrightarrow> page_local recommit \<Longrightarrow>
    memory_granted os_mem (length src) (os_space os) \<Longrightarrow> in_window lo os_mem \<Longrightarrow>
    admit_leaf_cell_blob table recommit os_mem src ar os = Some (addr, ar', os') \<Longrightarrow>
    heap_step table lo (ar, os) (ar', os')"
| mutate: "c \<in> set (os_live_object_addrs os) \<Longrightarrow> length src \<le> container_cell_size ar c \<Longrightarrow>
    heap_step table lo (ar, os) (shadow_write c src ar, os)"
| weak: "set maps \<subseteq> set (os_live_object_addrs os) \<Longrightarrow> set sets \<subseteq> set (os_live_object_addrs os) \<Longrightarrow>
    heap_step table lo (ar, os)
      (ar, os\<lparr>os_weak_map_space_addrs := maps, os_map_entry_lists := entries,
              os_weak_set_space_addrs := sets, os_set_value_lists := values\<rparr>)"
| collect: "graph_ok classes roots ar os \<Longrightarrow> page_local decommit \<Longrightarrow>
    force_collect classes is_object decommit roots ar os = Some (st, ar', os') \<Longrightarrow>
    heap_step table lo (ar, os) (ar', os')"

definition os_new :: object_store where
  "os_new = \<lparr>os_space = ms_new, os_live_object_addrs = [], os_weak_map_space_addrs = [],
     os_map_entry_lists = (\<lambda>_. None), os_weak_set_space_addrs = [], os_set_value_lists = (\<lambda>_. None)\<rparr>"

inductive heap_reachable :: "nat list \<Rightarrow> nat \<Rightarrow> arena \<times> object_store \<Rightarrow> bool" for table lo where
  start: "heap_reachable table lo (ar, os_new)"
| step: "heap_reachable table lo s \<Longrightarrow> heap_step table lo s s' \<Longrightarrow> heap_reachable table lo s'"

inductive_cases heap_stepE: "heap_step table lo s s'"

section \<open>The invariant\<close>

definition store_inv :: "nat \<Rightarrow> arena \<Rightarrow> object_store \<Rightarrow> bool" where
  "store_inv lo ar os \<longleftrightarrow>
     heap_inv ar (os_space os) \<and> \<not> ms_no_alloc_until_shrink_completes (os_space os) \<and>
     set (os_live_object_addrs os) = {c. \<not> is_precise c \<and> ms_find ar (os_space os) c = Some c} \<and>
     distinct (os_live_object_addrs os) \<and>
     (\<forall>p\<in>dirs_pages (ms_directories (os_space os)). in_window lo p) \<and>
     set (os_weak_map_space_addrs os) \<subseteq> set (os_live_object_addrs os) \<and>
     set (os_weak_set_space_addrs os) \<subseteq> set (os_live_object_addrs os)"

lemma start_inv: "store_inv lo ar os_new"
proof -
  have "ms_find ar ms_new c = None" for c
    by (simp add: ms_find_def ms_new_def mbs_new_def mbs_contains_def Let_def)
  then show ?thesis
    using new_space_inv by (simp add: store_inv_def os_new_def dirs_pages_def) (simp add: ms_new_def)
qed

lemma live_cell_facts:
  assumes "store_inv lo ar os" and "c \<in> set (os_live_object_addrs os)"
  shows "\<not> is_precise c" and "ms_find ar (os_space os) c = Some c"
    and "c \<in> heap_cells (mbs_set (ms_blocks (os_space os))) ar" and "in_use ar c"
    and "cell_extent ar (os_space os) c = {c..<c + container_cell_size ar c}"
proof -
  show np: "\<not> is_precise c" and f: "ms_find ar (os_space os) c = Some c" using assms by (auto simp: store_inv_def)
  have ok: "space_ok ar (os_space os)" using assms(1) by (simp add: store_inv_def heap_inv_def)
  show "c \<in> heap_cells (mbs_set (ms_blocks (os_space os))) ar" by (rule found_cell(2) [OF ok f np])
  show "in_use ar c" using find_cell [OF ok np] f by (auto split: if_splits)
  show "cell_extent ar (os_space os) c = {c..<c + container_cell_size ar c}" using np by (simp add: cell_extent_def)
qed

text \<open>A write into a live cell.\<close>

lemma dir_inv_write:
  assumes inv: "dir_inv ar d rest" and cp: "in_use ar cp" "block_for cp \<in> set (committed d)"
      "cp \<in> set (block_cells ar (block_for cp))" and len: "length src \<le> container_cell_size ar cp"
  shows "dir_inv (write_bytes cp src ar) d rest"
proof -
  have ok: "dir_ok ar d" using inv by (simp add: dir_inv_def)
  have "cp \<notin> set rest" using inv cp(1) by (auto simp: dir_inv_def)
  moreover have "length src \<le> bd_cell_size d"
    using dir_inv_block(2) [OF ok cp(2)] len by (simp add: container_cell_size_def)
  ultimately have "dir_inv (set_newly_allocated cp (write_bytes cp src ar)) d rest"
    using store_cell_inv [OF inv _ cp(2,3)] by blast
  moreover have "\<not> in_use (write_bytes cp src ar) c" if c: "c \<in> set rest" for c
  proof -
    have "block_for c \<in> set (committed d)" "c \<in> set (block_cells ar (block_for c))" "\<not> in_use ar c"
      using inv c by (simp_all add: dir_inv_def)
    then show ?thesis by simp
  qed
  ultimately show ?thesis by (auto simp: dir_inv_def dir_ok_def list_all_iff)
qed

lemma find_write_bytes: "ms_find (write_bytes cp src ar) ms = ms_find ar ms"
proof -
  have "is_live_cell (write_bytes cp src ar) = is_live_cell ar"
    by (simp add: fun_eq_iff is_live_cell_def is_atom_def is_newly_allocated_def is_marked_def Let_def
        block_atoms_per_cell_def block_start_atom_def write_bytes_def)
  then show ?thesis by (simp add: fun_eq_iff ms_find_def)
qed

lemma mutate_inv:
  assumes inv: "store_inv lo ar os" and c: "c \<in> set (os_live_object_addrs os)" and len: "length src \<le> container_cell_size ar c"
  shows "store_inv lo (shadow_write c src ar) os"
proof -
  let ?ms = "os_space os" and ?ar = "write_bytes c src ar"
  note lc = live_cell_facts [OF inv c]
  have ok: "space_ok ar ?ms" using inv by (simp add: store_inv_def heap_inv_def)
  note h = heap_cell [OF space_blocks_ok [OF ok] lc(3)]
  note page = page_of_cell [OF ok lc(3)]
  have "x < c \<or> c + length src \<le> x" if "x < block_for c \<or> block_for c + BLOCK_SIZE \<le> x" for x
  proof (rule ccontr)
    assume "\<not> (x < c \<or> c + length src \<le> x)"
    then have "x \<in> {c..<c + container_cell_size ar c}" using len by auto
    from page(3) [OF this] show False using that by linarith
  qed
  then have "ar_bytes ?ar x = ar_bytes ar x" if "x < block_for c \<or> block_for c + BLOCK_SIZE \<le> x" for x
    using that by (fastforce simp: write_bytes_def)
  moreover have "ar_header ?ar = ar_header ar" by (simp add: write_bytes_def)
  ultimately have "page_frame {block_for c} ar ?ar" by (simp add: page_frame_def)
  have dirs: "\<exists>cells. dir_inv ?ar (snd e) cells" if e: "e \<in> set (ms_directories ?ms)" for e
  proof -
    obtain cells where cells: "dir_inv ar (snd e) cells" using inv e by (auto simp: store_inv_def heap_inv_def)
    show ?thesis
    proof (cases "block_for c \<in> set (committed (snd e))")
      case True
      then show ?thesis using dir_inv_write [OF cells lc(4) _ h(3) len] by blast
    next
      case False
      have "dir_ok ar (snd e)" using cells by (simp add: dir_inv_def)
      from page_frame_same_blocks [OF \<open>page_frame _ _ _\<close> this] False page(2)
      have "same_blocks ar (snd e) ?ar" by auto
      then show ?thesis using dir_inv_frame [OF cells] by blast
    qed
  qed
  then have "dirs_ok ?ar (ms_directories ?ms)"
    using ok by (fastforce simp: space_ok_def dirs_ok_def dir_inv_def)
  then have "heap_inv ?ar ?ms" using ok dirs by (simp add: heap_inv_def space_ok_def)
  then show ?thesis using inv unfolding store_inv_def shadow_write_def find_write_bytes by blast
qed

text \<open>An allocation, and that it never meets an address that is registered already.\<close>

lemma admit_succeeds:
  assumes inv: "store_inv lo ar os" and table: "progression_ok approx" "build_size_classes approx = Some cs"
    and src: "src \<noteq> []" "length src \<le> LARGE_CUTOFF" and "page_local recommit"
    and mem: "memory_granted os_mem (length src) (os_space os)" "in_window lo os_mem"
  shows "\<exists>addr ar' os'. admit_leaf_cell_blob (build_size_class_for_size_step cs) recommit os_mem src ar os = Some (addr, ar', os') \<and>
    store_inv lo ar' os' \<and> cell_added src ar (os_space os) addr ar' (os_space os') \<and>
    set (os_live_object_addrs os') = insert addr (set (os_live_object_addrs os))"
proof -
  have hi: "heap_inv ar (os_space os)" and flag: "\<not> ms_no_alloc_until_shrink_completes (os_space os)"
    using inv by (simp_all add: store_inv_def)
  obtain addr ar' ms' where alloc: "ms_allocate_blob (build_size_class_for_size_step cs) recommit os_mem src ar (os_space os) =
      Some (addr, ar', ms')" and added: "cell_added src ar (os_space os) addr ar' ms'"
    and np: "\<not> is_precise addr" and flag': "\<not> ms_no_alloc_until_shrink_completes ms'"
    and pages: "dirs_pages (ms_directories ms') \<subseteq> insert os_mem (dirs_pages (ms_directories (os_space os)))"
    using allocate_blob_result [OF hi flag table src(1) assms(6) mem(1)] src(2) by blast
  note ad = added [unfolded cell_added_def]
  have new: "addr \<notin> set (os_live_object_addrs os)" using inv ad by (auto simp: store_inv_def)
  let ?os' = "os\<lparr>os_space := ms', os_live_object_addrs := List.insert addr (os_live_object_addrs os)\<rparr>"
  have "\<forall>p\<in>dirs_pages (ms_directories ms'). in_window lo p"
    using inv pages mem(2) by (auto simp: store_inv_def)
  then have "store_inv lo ar' ?os'"
    using inv ad np flag' by (auto simp: store_inv_def)
  then show ?thesis
    using alloc new added by (simp add: admit_leaf_cell_blob_def Let_def)
qed

text \<open>A collection.\<close>

lemma graph_store_ok:
  assumes inv: "store_inv lo ar os" and lo: "lo + 2 ^ 31 \<le> 2 ^ 63" and graph: "graph_ok classes roots ar os"
  shows "store_ok classes roots ar os"
proof -
  let ?ms = "os_space os" and ?H = "heap_cells (mbs_set (ms_blocks (os_space os))) ar"
  have ok: "space_ok ar ?ms" using inv by (simp add: store_inv_def heap_inv_def)
  have live: "set (os_live_object_addrs os) \<subseteq> ?H" using live_cell_facts(3) [OF inv] by blast
  have "spread_ok (lo + 2 ^ 31) (snd e)" if e: "e \<in> set (ms_directories ?ms)" for e
  proof -
    have "in_window lo b" if "b \<in> set (committed (snd e))" for b
      using inv e that committed_subset by (fastforce simp: store_inv_def dirs_pages_def)
    then show ?thesis using lo by (auto simp: spread_ok_def list_all_iff in_window_def)
  qed
  then have "dirs_spread ?ms" by (auto simp: dirs_spread_def)
  moreover have "weak_maps_ok ?ms ar (os_map_entry_lists os) (os_weak_map_space_addrs os)"
    unfolding weak_maps_ok_def entries_ok_def
  proof (intro ballI conjI allI impI)
    fix w assume w: "w \<in> set (os_weak_map_space_addrs os)"
    show "w \<in> ?H" using w inv live by (auto simp: store_inv_def)
    fix entries e assume e: "os_map_entry_lists os w = Some entries" "e \<in> set entries"
    have "(\<forall>(key, v)\<in>set entries. \<forall>a. value_cell ?ms key = Some a \<or> value_cell ?ms v = Some a \<longrightarrow>
        a \<in> set (os_live_object_addrs os))"
      using graph w e(1) unfolding graph_ok_def by (elim conjE) blast
    then show "case e of (key, v) \<Rightarrow> \<forall>a. value_cell ?ms key = Some a \<or> value_cell ?ms v = Some a \<longrightarrow> a \<in> ?H"
      using e(2) live by blast
  qed
  moreover have "\<forall>w\<in>set (os_weak_set_space_addrs os). \<forall>vs. os_set_value_lists os w = Some vs \<longrightarrow>
        (\<forall>v\<in>set vs. \<forall>a. value_cell ?ms v = Some a \<longrightarrow> a \<in> ?H)"
    using graph live unfolding graph_ok_def by (elim conjE) blast
  ultimately show ?thesis
    using inv ok live graph unfolding store_ok_def addrs_ok_def graph_ok_def store_inv_def by blast
qed

lemma live_of_live:
  assumes inv: "store_inv lo ar os" and graph: "graph_ok classes roots ar os"
  shows "live_of classes roots ar os \<subseteq> set (os_live_object_addrs os)"
  unfolding live_of_def
proof (rule live_cells_least)
  show "admitted (os_space os) roots \<subseteq> set (os_live_object_addrs os)"
    and "\<And>c. c \<in> set (os_live_object_addrs os) \<Longrightarrow>
      set (classes (clear_all_marks (os_space os) ar) c) \<subseteq> set (os_live_object_addrs os)"
    using graph by (simp_all add: graph_ok_def)
  fix w key a assume "weak_entry (os_space os) (os_map_entry_lists os) (os_weak_map_space_addrs os) w key a"
  then obtain entries v where w: "w \<in> set (os_weak_map_space_addrs os)" "os_map_entry_lists os w = Some entries"
    and v: "(key, v) \<in> set entries" "value_cell (os_space os) v = Some a"
    by (auto simp: weak_entry_def)
  have "\<forall>(key, v)\<in>set entries. \<forall>a. value_cell (os_space os) key = Some a \<or> value_cell (os_space os) v = Some a \<longrightarrow>
      a \<in> set (os_live_object_addrs os)"
    using graph w unfolding graph_ok_def by (elim conjE) blast
  then show "a \<in> set (os_live_object_addrs os)" using v by blast
qed

lemma collect_succeeds:
  assumes inv: "store_inv lo ar os" and lo: "lo + 2 ^ 31 \<le> 2 ^ 63" and graph: "graph_ok classes roots ar os"
    and decommit: "page_local decommit"
  shows "\<exists>st ar' os'. force_collect classes is_object decommit roots ar os = Some (st, ar', os') \<and>
    store_inv lo ar' os' \<and> store_collected (live_of classes roots ar os) ar os ar' os' \<and>
    set (os_live_object_addrs os') = live_of classes roots ar os"
proof -
  let ?L = "live_of classes roots ar os"
  obtain st ar' os' where run: "force_collect classes is_object decommit roots ar os = Some (st, ar', os')"
    and col: "store_collected ?L ar os ar' os'"
    and pages: "dirs_pages (ms_directories (os_space os')) = dirs_pages (ms_directories (os_space os))"
    and flag: "\<not> ms_no_alloc_until_shrink_completes (os_space os')"
    using force_collect_result [OF graph_store_ok [OF inv lo graph] decommit] by blast
  have sub: "?L \<subseteq> set (os_live_object_addrs os)" by (rule live_of_live [OF inv graph])
  have live': "os_live_object_addrs os' = filter (\<lambda>c. c \<in> ?L) (os_live_object_addrs os)"
    and ok': "space_ok ar' (os_space os')"
    and find': "\<forall>a. \<not> is_precise a \<longrightarrow> ms_find ar' (os_space os') a = (if a \<in> ?L then Some a else None)"
    and dirs: "\<forall>e\<in>set (ms_directories (os_space os')). \<exists>free. dir_inv ar' (snd e) free \<and>
        set free = heap_cells (committed (snd e)) ar' - ?L"
    and weak: "weak_collections_purged ?L os os'"
    using col unfolding store_collected_def by blast+
  have set': "set (os_live_object_addrs os') = ?L" using live' sub by auto
  have "\<forall>c\<in>?L. \<not> is_precise c" using sub live_cell_facts(1) [OF inv] by blast
  then have "set (os_live_object_addrs os') = {c. \<not> is_precise c \<and> ms_find ar' (os_space os') c = Some c}"
    using find' set' by auto
  moreover have "heap_inv ar' (os_space os')" using ok' dirs by (auto simp: heap_inv_def)
  moreover have "set (os_weak_map_space_addrs os') \<subseteq> ?L" "set (os_weak_set_space_addrs os') \<subseteq> ?L"
    using weak by (auto simp: weak_collections_purged_def)
  ultimately have "store_inv lo ar' os'"
    using inv flag pages live' set' by (simp add: store_inv_def)
  then show ?thesis using run col set' by blast
qed

lemma step_inv:
  assumes "heap_step (build_size_class_for_size_step cs) lo s s'" and "store_inv lo (fst s) (snd s)"
    and table: "progression_ok approx" "build_size_classes approx = Some cs" and lo: "lo + 2 ^ 31 \<le> 2 ^ 63"
  shows "store_inv lo (fst s') (snd s')"
  using assms(1,2)
proof (cases rule: heap_step.cases)
  case (admit src recommit os_mem os ar addr ar' os')
  then show ?thesis using admit_succeeds [OF _ table admit(3-5,6,7), of ar] assms(2) by auto
next
  case (mutate c os src ar)
  then show ?thesis using mutate_inv assms(2) by simp
next
  case (weak maps os sets ar entries "values")
  then show ?thesis using assms(2) by (simp add: store_inv_def)
next
  case (collect classes roots ar os decommit is_object st ar' os')
  then show ?thesis using collect_succeeds [OF _ lo collect(3,4), of is_object] assms(2) by auto
qed

lemma reachable_inv:
  assumes "heap_reachable (build_size_class_for_size_step cs) lo s"
    and "progression_ok approx" and "build_size_classes approx = Some cs" and "lo + 2 ^ 31 \<le> 2 ^ 63"
  shows "store_inv lo (fst s) (snd s)"
  using assms(1)
proof (induction rule: heap_reachable.induct)
  case (start ar)
  show ?case by (simp add: start_inv)
next
  case (step s s')
  then show ?case using step_inv [OF step.hyps(2) _ assms(2-4)] by blast
qed



text \<open>The empty store, and the store after its first allocation.\<close>

lemma first_allocation:
  assumes "build_size_classes demo_progression = Some cs"
  shows "\<exists>addr ar' os'. admit_leaf_cell_blob (build_size_class_for_size_step cs) (\<lambda>_ ar. ar) 16384 [1, 2, 3] one_block os_new =
      Some (addr, ar', os') \<and> heap_reachable (build_size_class_for_size_step cs) 0 (ar', os') \<and>
    set (os_live_object_addrs os') = {addr} \<and> os_weak_map_space_addrs os' = [] \<and> os_weak_set_space_addrs os' = []"
proof -
  have pl: "page_local (\<lambda>_ ar. ar)" by (simp add: page_local_def)
  have mem: "memory_granted 16384 (length [1, 2, 3 :: u8]) (os_space os_new)"
    unfolding os_new_def object_store.simps by (rule new_space_grants) simp
  have win: "in_window 0 16384" by (simp add: in_window_def BLOCK_SIZE_def)
  have small: "length [1, 2, 3 :: u8] \<le> LARGE_CUTOFF" by (simp add: size_consts)
  obtain addr ar' os' where run: "admit_leaf_cell_blob (build_size_class_for_size_step cs) (\<lambda>_ ar. ar) 16384 [1, 2, 3] one_block os_new =
      Some (addr, ar', os')" and live: "set (os_live_object_addrs os') = insert addr (set (os_live_object_addrs os_new))"
    using admit_succeeds [OF start_inv demo_progression_ok assms _ small pl mem win] by blast
  have "heap_reachable (build_size_class_for_size_step cs) 0 (ar', os')"
    using heap_reachable.step [OF heap_reachable.start heap_step.admit [OF _ small pl mem win run]] by simp
  moreover have "os_weak_map_space_addrs os' = [] \<and> os_weak_set_space_addrs os' = []"
    using run by (auto simp: admit_leaf_cell_blob_def os_new_def Let_def bind_eq_Some_conv split: if_splits)
  ultimately show ?thesis using run live by (simp add: os_new_def)
qed



end
