(* ===== verification/Value_Layout.thy ===== *)
theory Value_Layout
  imports Js_Value
begin

text \<open>
  The rest of \<open>src/src/value/repr.rs\<close>: the described layout of low-byte tags that the code emitter
  reads, with its validation, and the snapshots of value stacks with their root plans
  (\<open>RootSet\<close> of \<open>src/src/gc/heap.rs\<close>).
\<close>

section \<open>The layout\<close>

datatype layout_owner = ValueReprSchema | GeneratedCppValueEncoding
datatype layout_authority = StaticReadOnly | GeneratedSourceRefresh

record immediate_tag =
  it_kind :: immediate_kind
  it_tag :: u64
  it_canonical_name :: string

record value_layout =
  vl_name :: string
  vl_owner :: layout_owner
  vl_authority :: layout_authority
  vl_storage_bits :: u8
  vl_tag_mask :: u64
  vl_payload_shift :: u8
  vl_cell_tag :: u64
  vl_double_tag :: u64
  vl_immediate_tags :: "immediate_tag list"

datatype layout_error =
    EmptyLayoutName
  | EmptyTagName
  | InvalidTagGeometry
  | DuplicateImmediateTag u64
  | DuplicateImmediateName string
  | ImmediateTagOutsideMask string
  | ImmediateUsesCellTag string
  | MissingDoubleTag

datatype encoding_error =
    InvalidLayout layout_error
  | UnknownImmediateName
  | MissingImmediateKind immediate_kind
  | PayloadOverflow

definition tag_for_immediate_kind :: "value_layout \<Rightarrow> immediate_kind \<Rightarrow> u64 option" where
  "tag_for_immediate_kind l kind =
     map_option it_tag (find (\<lambda>descriptor. it_kind descriptor = kind) (vl_immediate_tags l))"

definition tag_for_immediate_name :: "value_layout \<Rightarrow> string \<Rightarrow> u64 option" where
  "tag_for_immediate_name l name =
     map_option it_tag (find (\<lambda>descriptor. it_canonical_name descriptor = name) (vl_immediate_tags l))"

definition tag_bits :: "value_layout \<Rightarrow> u64 \<Rightarrow> u64" where
  "tag_bits l encoded = encoded AND vl_tag_mask l"

definition payload_bits :: "value_layout \<Rightarrow> u64 \<Rightarrow> u64 option" where
  "payload_bits l encoded =
     (if unat (vl_payload_shift l) < 64 then Some (drop_bit (unat (vl_payload_shift l)) encoded) else None)"

definition classify_encoded :: "value_layout \<Rightarrow> u64 \<Rightarrow> value_classification" where
  "classify_encoded l encoded =
     (let tag = tag_bits l encoded in
      if tag = vl_cell_tag l then CellClass encoded
      else case find (\<lambda>descriptor. it_tag descriptor = tag) (vl_immediate_tags l) of
             Some descriptor \<Rightarrow> Immediate (it_kind descriptor)
           | None \<Rightarrow> UnknownClass encoded)"

definition kind_for_encoded :: "value_layout \<Rightarrow> u64 \<Rightarrow> value_kind" where
  "kind_for_encoded l encoded =
     (case classify_encoded l encoded of
        Immediate IUndefined \<Rightarrow> VUndefined
      | Immediate INull \<Rightarrow> VNull
      | Immediate IBoolean \<Rightarrow> VBoolean
      | Immediate IInt32 \<Rightarrow> VInt32
      | Immediate IDouble \<Rightarrow> VDouble
      | CellClass _ \<Rightarrow> VCell
      | UnknownClass _ \<Rightarrow> VUnknown)"

definition tag_validate :: "immediate_tag \<Rightarrow> u64 \<Rightarrow> layout_error + unit" where
  "tag_validate t tag_mask =
     (if it_canonical_name t = [] then Inl EmptyTagName
      else if it_tag t AND NOT tag_mask \<noteq> 0 then Inl (ImmediateTagOutsideMask (it_canonical_name t))
      else Inr ())"

text \<open>The loop over the descriptors; \<open>previous\<close> are those before the current one.\<close>

fun validate_tags ::
  "value_layout \<Rightarrow> immediate_tag list \<Rightarrow> immediate_tag list \<Rightarrow> bool \<Rightarrow> layout_error + bool" where
  "validate_tags l previous [] saw_double_tag = Inr saw_double_tag"
| "validate_tags l previous (t # ts) saw_double_tag =
     (case tag_validate t (vl_tag_mask l) of
        Inl e \<Rightarrow> Inl e
      | Inr _ \<Rightarrow>
          if it_tag t = vl_cell_tag l then Inl (ImmediateUsesCellTag (it_canonical_name t))
          else if list_ex (\<lambda>p. it_tag p = it_tag t) previous then Inl (DuplicateImmediateTag (it_tag t))
          else if list_ex (\<lambda>p. it_canonical_name p = it_canonical_name t) previous
               then Inl (DuplicateImmediateName (it_canonical_name t))
          else validate_tags l (previous @ [t]) ts (saw_double_tag \<or> it_tag t = vl_double_tag l))"

definition layout_validate :: "value_layout \<Rightarrow> layout_error + unit" where
  "layout_validate l =
     (if vl_name l = [] then Inl EmptyLayoutName
      else if vl_storage_bits l = 0 \<or> 64 < vl_storage_bits l \<or> vl_storage_bits l \<le> vl_payload_shift l \<or>
              vl_tag_mask l = 0 \<or> vl_cell_tag l AND NOT (vl_tag_mask l) \<noteq> 0 \<or>
              vl_double_tag l AND NOT (vl_tag_mask l) \<noteq> 0 \<or> vl_cell_tag l = vl_double_tag l
      then Inl InvalidTagGeometry
      else case validate_tags l [] (vl_immediate_tags l) False of
             Inl e \<Rightarrow> Inl e
           | Inr saw_double_tag \<Rightarrow> if saw_double_tag then Inr () else Inl MissingDoubleTag)"

definition with_valid :: "value_layout \<Rightarrow> (encoding_error + 'a) \<Rightarrow> encoding_error + 'a" where
  "with_valid l r = (case layout_validate l of Inl e \<Rightarrow> Inl (InvalidLayout e) | Inr _ \<Rightarrow> r)"

definition encode_immediate_name :: "value_layout \<Rightarrow> string \<Rightarrow> encoding_error + u64" where
  "encode_immediate_name l name =
     with_valid l (case tag_for_immediate_name l name of
                     Some tag \<Rightarrow> Inr tag
                   | None \<Rightarrow> Inl UnknownImmediateName)"

definition encode_i32 :: "value_layout \<Rightarrow> int \<Rightarrow> encoding_error + u64" where
  "encode_i32 l i =
     with_valid l (case tag_for_immediate_kind l IInt32 of
                     None \<Rightarrow> Inl (MissingImmediateKind IInt32)
                   | Some tag \<Rightarrow> Inr (push_bit (unat (vl_payload_shift l)) (ucast (as_u32 i)) OR tag))"

definition encode_double_bits :: "value_layout \<Rightarrow> u64 \<Rightarrow> encoding_error + u64" where
  "encode_double_bits l bits = with_valid l (Inr ((bits AND NOT (vl_tag_mask l)) OR vl_double_tag l))"

definition encode_cell_payload :: "value_layout \<Rightarrow> u64 \<Rightarrow> encoding_error + u64" where
  "encode_cell_payload l payload =
     with_valid l
       (let shift = unat (vl_payload_shift l) in
        if 64 \<le> shift then Inl PayloadOverflow
        else let shifted = push_bit shift payload in
             if drop_bit shift shifted \<noteq> payload then Inl PayloadOverflow
             else Inr (shifted OR vl_cell_tag l))"

definition layout_builder_new :: "string \<Rightarrow> immediate_tag list \<Rightarrow> value_layout" where
  "layout_builder_new name immediate_tags =
     \<lparr>vl_name = name, vl_owner = ValueReprSchema, vl_authority = StaticReadOnly, vl_storage_bits = 64,
      vl_tag_mask = TAG_MASK, vl_payload_shift = 8, vl_cell_tag = TAG_CELL, vl_double_tag = TAG_DOUBLE,
      vl_immediate_tags = immediate_tags\<rparr>"

definition layout_build :: "value_layout \<Rightarrow> layout_error + value_layout" where
  "layout_build l = (case layout_validate l of Inl e \<Rightarrow> Inl e | Inr _ \<Rightarrow> Inr l)"

definition STATIC_IMMEDIATE_TAG_DESCRIPTORS :: "immediate_tag list" where
  "STATIC_IMMEDIATE_TAG_DESCRIPTORS =
     [\<lparr>it_kind = IUndefined, it_tag = VALUE_UNDEFINED, it_canonical_name = ''undefined''\<rparr>,
      \<lparr>it_kind = INull, it_tag = VALUE_NULL, it_canonical_name = ''null''\<rparr>,
      \<lparr>it_kind = IBoolean, it_tag = VALUE_FALSE, it_canonical_name = ''false''\<rparr>,
      \<lparr>it_kind = IBoolean, it_tag = VALUE_TRUE, it_canonical_name = ''true''\<rparr>,
      \<lparr>it_kind = IInt32, it_tag = TAG_I32, it_canonical_name = ''int32''\<rparr>,
      \<lparr>it_kind = IDouble, it_tag = TAG_DOUBLE, it_canonical_name = ''double''\<rparr>]"

definition STATIC_VALUE_REPRESENTATION_LAYOUT :: value_layout where
  "STATIC_VALUE_REPRESENTATION_LAYOUT =
     \<lparr>vl_name = ''value.repr.encoded-js-value'', vl_owner = ValueReprSchema, vl_authority = StaticReadOnly,
      vl_storage_bits = 64, vl_tag_mask = TAG_MASK, vl_payload_shift = 8, vl_cell_tag = TAG_CELL,
      vl_double_tag = TAG_DOUBLE, vl_immediate_tags = STATIC_IMMEDIATE_TAG_DESCRIPTORS\<rparr>"

section \<open>Value stacks and their roots\<close>

record value_stack_slot =
  vs_index :: nat
  vs_encoded :: u64
  vs_kind :: value_kind

record value_stack_snapshot =
  vs_layout_name :: string
  vs_slots :: "value_stack_slot list"

datatype stack_error =
    StackInvalidLayout layout_error
  | LayoutMismatch
  | NonContiguousSlot nat nat

definition encode_value_stack :: "js_value list \<Rightarrow> stack_error + value_stack_snapshot" where
  "encode_value_stack vals =
     (let layout = STATIC_VALUE_REPRESENTATION_LAYOUT in
      case layout_validate layout of
        Inl e \<Rightarrow> Inl (StackInvalidLayout e)
      | Inr _ \<Rightarrow>
          Inr \<lparr>vs_layout_name = vl_name layout,
               vs_slots = map (\<lambda>(i, v). \<lparr>vs_index = i, vs_encoded = v, vs_kind = value_kind_of v\<rparr>)
                            (enumerate 0 vals)\<rparr>)"

fun decode_slots :: "nat \<Rightarrow> value_stack_slot list \<Rightarrow> stack_error + js_value list" where
  "decode_slots expected [] = Inr []"
| "decode_slots expected (slot # slots) =
     (if vs_index slot \<noteq> expected then Inl (NonContiguousSlot expected (vs_index slot))
      else case decode_slots (expected + 1) slots of
             Inl e \<Rightarrow> Inl e
           | Inr vs \<Rightarrow> Inr (vs_encoded slot # vs))"

definition decode_value_stack :: "value_stack_snapshot \<Rightarrow> stack_error + js_value list" where
  "decode_value_stack snapshot =
     (let layout = STATIC_VALUE_REPRESENTATION_LAYOUT in
      case layout_validate layout of
        Inl e \<Rightarrow> Inl (StackInvalidLayout e)
      | Inr _ \<Rightarrow>
          if vs_layout_name snapshot \<noteq> vl_name layout then Inl LayoutMismatch
          else decode_slots 0 (vs_slots snapshot))"

datatype root_kind = Handle | ExplicitRoot | VMRegister | Stack | JitCode | Host

record root_record =
  rr_id :: nat
  rr_kind :: root_kind
  rr_heap :: nat

datatype root_set_error =
    InvalidRootId nat
  | DuplicateRoot nat
  | UnsupportedPreciseStackRoot nat

definition validate_root_record :: "root_record \<Rightarrow> root_set_error + unit" where
  "validate_root_record root =
     (if rr_id root = 0 then Inl (InvalidRootId (rr_id root))
      else if rr_kind root = Stack then Inl (UnsupportedPreciseStackRoot (rr_id root))
      else Inr ())"

fun validate_root_records :: "nat set \<Rightarrow> root_record list \<Rightarrow> root_set_error + unit" where
  "validate_root_records seen [] = Inr ()"
| "validate_root_records seen (root # roots) =
     (case validate_root_record root of
        Inl e \<Rightarrow> Inl e
      | Inr _ \<Rightarrow>
          if rr_id root \<in> seen then Inl (DuplicateRoot (rr_id root))
          else validate_root_records (insert (rr_id root) seen) roots)"

definition root_set_from_records :: "root_record list \<Rightarrow> root_set_error + root_record list" where
  "root_set_from_records records =
     (case validate_root_records {} records of Inl e \<Rightarrow> Inl e | Inr _ \<Rightarrow> Inr records)"

record stack_root =
  sr_root :: root_record
  sr_slot :: value_stack_slot
  sr_cell :: u64

datatype stack_root_error = RootSetError root_set_error | RootIdOverflow

text \<open>Root numbers are 64-bit; \<open>checked_add\<close> fails on overflow.\<close>

fun plan_slots :: "value_stack_slot list \<Rightarrow> nat \<Rightarrow> nat \<Rightarrow> stack_root_error + stack_root list" where
  "plan_slots [] heap first_root = Inr []"
| "plan_slots (slot # slots) heap first_root =
     (case as_cell (vs_encoded slot) of
        None \<Rightarrow> plan_slots slots heap first_root
      | Some cell \<Rightarrow>
          if 2 ^ 64 \<le> first_root + vs_index slot then Inl RootIdOverflow
          else case plan_slots slots heap first_root of
                 Inl e \<Rightarrow> Inl e
               | Inr roots \<Rightarrow>
                   Inr (\<lparr>sr_root = \<lparr>rr_id = first_root + vs_index slot, rr_kind = VMRegister, rr_heap = heap\<rparr>,
                         sr_slot = slot, sr_cell = cell\<rparr> # roots))"

definition plan_value_stack_roots ::
  "value_stack_snapshot \<Rightarrow> nat \<Rightarrow> nat \<Rightarrow> stack_root_error + (nat \<times> stack_root list)" where
  "plan_value_stack_roots snapshot heap first_root =
     (case plan_slots (vs_slots snapshot) heap first_root of
        Inl e \<Rightarrow> Inl e
      | Inr roots \<Rightarrow>
          case root_set_from_records (map sr_root roots) of
            Inl e \<Rightarrow> Inl (RootSetError e)
          | Inr _ \<Rightarrow> Inr (heap, roots))"

section \<open>Valid layouts\<close>

lemma static_layout_valid: "layout_validate STATIC_VALUE_REPRESENTATION_LAYOUT = Inr ()"
  by (simp add: layout_validate_def STATIC_VALUE_REPRESENTATION_LAYOUT_def STATIC_IMMEDIATE_TAG_DESCRIPTORS_def
      tag_validate_def value_consts word_less_def)

lemma validate_tags_facts:
  assumes "validate_tags l previous ts saw = Inr b" and "distinct (map it_tag previous)"
  shows "(\<forall>t\<in>set ts. it_tag t AND NOT (vl_tag_mask l) = 0 \<and> it_tag t \<noteq> vl_cell_tag l) \<and>
         distinct (map it_tag (previous @ ts))"
  using assms
proof (induction ts arbitrary: previous saw)
  case (Cons t ts)
  then have ok: "tag_validate t (vl_tag_mask l) = Inr ()" and "it_tag t \<noteq> vl_cell_tag l"
    and new: "\<not> list_ex (\<lambda>p. it_tag p = it_tag t) previous"
    and rest: "validate_tags l (previous @ [t]) ts (saw \<or> it_tag t = vl_double_tag l) = Inr b"
    by (auto split: sum.splits if_splits)
  have "distinct (map it_tag (previous @ [t]))" using Cons.prems(2) new by (auto simp: list_ex_iff)
  from Cons.IH [OF rest this] show ?case
    using ok \<open>it_tag t \<noteq> vl_cell_tag l\<close> by (auto simp: tag_validate_def split: if_splits)
qed simp

lemma valid_layout:
  assumes "layout_validate l = Inr ()"
  shows "unat (vl_payload_shift l) < 64" and "vl_cell_tag l AND NOT (vl_tag_mask l) = 0"
    and "\<And>t. t \<in> set (vl_immediate_tags l) \<Longrightarrow> it_tag t AND NOT (vl_tag_mask l) = 0 \<and> it_tag t \<noteq> vl_cell_tag l"
    and "distinct (map it_tag (vl_immediate_tags l))"
proof -
  have geo: "vl_payload_shift l < vl_storage_bits l" "vl_storage_bits l \<le> 64"
    using assms by (auto simp: layout_validate_def split: if_splits)
  then have "unat (vl_payload_shift l) < unat (vl_storage_bits l)" "unat (vl_storage_bits l) \<le> 64"
    by (simp_all add: word_less_nat_alt word_le_nat_alt)
  then show "unat (vl_payload_shift l) < 64" by linarith
  show "vl_cell_tag l AND NOT (vl_tag_mask l) = 0" using assms by (auto simp: layout_validate_def split: if_splits)
  obtain b where "validate_tags l [] (vl_immediate_tags l) False = Inr b"
    using assms by (auto simp: layout_validate_def split: if_splits sum.splits)
  from validate_tags_facts [OF this] show
    "t \<in> set (vl_immediate_tags l) \<Longrightarrow> it_tag t AND NOT (vl_tag_mask l) = 0 \<and> it_tag t \<noteq> vl_cell_tag l"
    "distinct (map it_tag (vl_immediate_tags l))" for t by simp_all
qed

lemma tag_of_encoded:
  assumes "vl_tag_mask l = mask n" and "tag AND NOT (vl_tag_mask l) = 0"
  shows "tag_bits l (push_bit n x OR tag) = tag" and "drop_bit n tag = 0"
proof -
  have below: "\<not> bit tag k" if "n \<le> k" for k
  proof
    assume "bit tag k"
    then have "bit (tag AND NOT (mask n)) k" using that bit_imp_le_length [of tag k] by (simp add: bit_simps)
    then show False using assms by simp
  qed
  show "tag_bits l (push_bit n x OR tag) = tag"
    unfolding tag_bits_def assms(1) using below by (intro bit_word_eqI) (auto simp: bit_simps intro: leI simp: linorder_not_le [symmetric])
  show "drop_bit n tag = 0"
    using below by (intro bit_word_eqI) (auto simp: bit_simps)
qed

lemma find_by_tag:
  assumes "distinct (map it_tag ts)" and "t \<in> set ts"
  shows "find (\<lambda>d. it_tag d = it_tag t) ts = Some t"
  using assms by (induction ts) (auto simp: image_iff)



section \<open>Stacks\<close>

lemma decode_encoded_slots:
  "decode_slots n (map (\<lambda>(i, v). \<lparr>vs_index = i, vs_encoded = v, vs_kind = value_kind_of v\<rparr>) (enumerate n vs)) =
     Inr vs"
  by (induction vs arbitrary: n) simp_all

lemma encode_value_stack_slots:
  "encode_value_stack vs =
     Inr \<lparr>vs_layout_name = vl_name STATIC_VALUE_REPRESENTATION_LAYOUT,
          vs_slots = map (\<lambda>(i, v). \<lparr>vs_index = i, vs_encoded = v, vs_kind = value_kind_of v\<rparr>) (enumerate 0 vs)\<rparr>"
  by (simp add: encode_value_stack_def Let_def static_layout_valid)

definition cell_roots :: "nat \<Rightarrow> nat \<Rightarrow> nat \<Rightarrow> js_value list \<Rightarrow> stack_root list" where
  "cell_roots heap first n vs =
     map (\<lambda>(i, v). \<lparr>sr_root = \<lparr>rr_id = first + i, rr_kind = VMRegister, rr_heap = heap\<rparr>,
                    sr_slot = \<lparr>vs_index = i, vs_encoded = v, vs_kind = value_kind_of v\<rparr>, sr_cell = v\<rparr>)
       (filter (\<lambda>(i, v). is_cell v) (enumerate n vs))"

lemma plan_slots_roots:
  "first + n + length vs \<le> 2 ^ 64 \<Longrightarrow>
     plan_slots (map (\<lambda>(i, v). \<lparr>vs_index = i, vs_encoded = v, vs_kind = value_kind_of v\<rparr>) (enumerate n vs)) heap first =
       Inr (cell_roots heap first n vs)"
  by (induction vs arbitrary: n) (simp_all add: as_cell_def cell_roots_def)

lemma validate_cell_roots:
  "0 < first + n \<Longrightarrow> (\<forall>i\<in>seen. i < first + n) \<Longrightarrow>
     validate_root_records seen (map sr_root (cell_roots heap first n vs)) = Inr ()"
proof (induction vs arbitrary: n seen)
  case (Cons v vs)
  have "\<forall>i\<in>insert (first + n) seen. i < first + Suc n" using Cons.prems(2) by auto
  then show ?case
    using Cons.IH [of "Suc n" seen] Cons.IH [of "Suc n" "insert (first + n) seen"] Cons.prems
    by (auto simp: cell_roots_def validate_root_record_def)
qed (simp add: cell_roots_def)

text \<open>
  C39: A snapshot of a value stack decodes to the values it was made from, and its root plan names
  exactly the slots that hold a cell, in order, each once; the plan is made whenever the root numbers
  start above 0 and stay within 64 bits.
\<close>

theorem value_stack_roundtrip_and_roots:
  assumes "0 < first" and "first + length vs \<le> 2 ^ 64"
  shows "\<exists>snapshot. encode_value_stack vs = Inr snapshot \<and> decode_value_stack snapshot = Inr vs \<and>
    (\<exists>roots. plan_value_stack_roots snapshot heap first = Inr (heap, roots) \<and>
       map (\<lambda>r. (vs_index (sr_slot r), sr_cell r, rr_id (sr_root r))) roots =
         map (\<lambda>(i, v). (i, v, first + i)) (filter (\<lambda>(i, v). is_cell v) (enumerate 0 vs)))"
proof -
  have plan: "plan_value_stack_roots
      \<lparr>vs_layout_name = vl_name STATIC_VALUE_REPRESENTATION_LAYOUT,
       vs_slots = map (\<lambda>(i, v). \<lparr>vs_index = i, vs_encoded = v, vs_kind = value_kind_of v\<rparr>) (enumerate 0 vs)\<rparr>
      heap first = Inr (heap, cell_roots heap first 0 vs)"
    using plan_slots_roots [of first 0 vs heap] validate_cell_roots [of first 0 "{}" heap vs] assms
    by (simp add: plan_value_stack_roots_def root_set_from_records_def)
  have "map (\<lambda>r. (vs_index (sr_slot r), sr_cell r, rr_id (sr_root r))) (cell_roots heap first 0 vs) =
      map (\<lambda>(i, v). (i, v, first + i)) (filter (\<lambda>(i, v). is_cell v) (enumerate 0 vs))"
    by (simp add: cell_roots_def case_prod_unfold comp_def)
  with plan show ?thesis
    by (auto simp: encode_value_stack_slots decode_value_stack_def Let_def static_layout_valid decode_encoded_slots)
qed

theorem value_stack_roundtrip_and_roots_witness:
  "\<exists>snapshot. encode_value_stack [js_null, from_cell 64] = Inr snapshot \<and>
     decode_value_stack snapshot = Inr [js_null, from_cell 64]"
  using value_stack_roundtrip_and_roots [of 1 "[js_null, from_cell 64]"] by auto

end
