(* ===== verification/Arm64_Registers.thy ===== *)
theory Arm64_Registers
  imports JSC_Prelude
begin

text \<open>
  The register names and the operands of the ARM64 assembler: \<open>assembler/registers.rs\<close>,
  \<open>assembler/operands.rs\<close> and the label type of \<open>assembler/mod.rs\<close>.  A general register is a
  value of \<open>register_id\<close>; the stack pointer and the zero register are two of them, and their
  raw values 31 and 63 are what makes both end up in field 31 of an instruction.  Signed
  32-bit values (\<open>i32\<close>) are words read with \<open>sint\<close>.
\<close>

section \<open>General registers\<close>

datatype register_id =
    X0 | X1 | X2 | X3 | X4 | X5 | X6 | X7 | X8 | X9 | X10 | X11 | X12 | X13 | X14 | X15 | X16
     | X17 | X18 | X19 | X20 | X21 | X22 | X23 | X24 | X25 | X26 | X27 | X28 | Fp | Lr | Sp | Zr

primrec reg_value :: "register_id \<Rightarrow> u32" where
  "reg_value X0 = 0"
| "reg_value X1 = 1"
| "reg_value X2 = 2"
| "reg_value X3 = 3"
| "reg_value X4 = 4"
| "reg_value X5 = 5"
| "reg_value X6 = 6"
| "reg_value X7 = 7"
| "reg_value X8 = 8"
| "reg_value X9 = 9"
| "reg_value X10 = 10"
| "reg_value X11 = 11"
| "reg_value X12 = 12"
| "reg_value X13 = 13"
| "reg_value X14 = 14"
| "reg_value X15 = 15"
| "reg_value X16 = 16"
| "reg_value X17 = 17"
| "reg_value X18 = 18"
| "reg_value X19 = 19"
| "reg_value X20 = 20"
| "reg_value X21 = 21"
| "reg_value X22 = 22"
| "reg_value X23 = 23"
| "reg_value X24 = 24"
| "reg_value X25 = 25"
| "reg_value X26 = 26"
| "reg_value X27 = 27"
| "reg_value X28 = 28"
| "reg_value Fp = 29"
| "reg_value Lr = 30"
| "reg_value Sp = 31"
| "reg_value Zr = 63"

definition X29 :: register_id where "X29 = Fp"
definition X30 :: register_id where "X30 = Lr"
definition IP0 :: register_id where "IP0 = X16"
definition IP1 :: register_id where "IP1 = X17"

definition is_sp :: "register_id \<Rightarrow> bool" where
  "is_sp r = (case r of Sp \<Rightarrow> True | _ \<Rightarrow> False)"

definition is_zr :: "register_id \<Rightarrow> bool" where
  "is_zr r = (case r of Zr \<Rightarrow> True | _ \<Rightarrow> False)"

definition is_callee_saved :: "register_id \<Rightarrow> bool" where
  "is_callee_saved r = (r \<in> {X19, X20, X21, X22, X23, X24, X25, X26, X27, X28, Fp})"

definition ARGUMENT_GPRS :: "register_id list" where
  "ARGUMENT_GPRS = [X0, X1, X2, X3, X4, X5, X6, X7]"

lemma is_sp_iff [simp]: "is_sp r \<longleftrightarrow> r = Sp"
  by (cases r) (simp_all add: is_sp_def)

lemma is_zr_iff [simp]: "is_zr r \<longleftrightarrow> r = Zr"
  by (cases r) (simp_all add: is_zr_def)

text \<open>The raw value of a register is its field number, except for the zero register.\<close>

lemma reg_value_bound: "r \<noteq> Zr \<Longrightarrow> unat (reg_value r) < 32"
  by (cases r) simp_all

text \<open>The registers in the order of their fields.\<close>

definition gprs :: "register_id list" where
  "gprs =
     [X0, X1, X2, X3, X4, X5, X6, X7, X8, X9, X10, X11, X12, X13, X14, X15, X16, X17, X18, X19, X20
     , X21, X22, X23, X24, X25, X26, X27, X28, Fp, Lr, Sp]"

lemma gprs_values: "map reg_value gprs = map of_nat [0..<32]"
  by code_simp

lemma gprs_nth [simp]:
  assumes "r \<noteq> Zr" shows "gprs ! unat (reg_value r) = r"
proof -
  have "r \<in> set gprs" using assms by (cases r) (simp_all add: gprs_def)
  then obtain i where i: "i < length gprs" and r: "r = gprs ! i" by (auto simp: in_set_conv_nth)
  have l: "length gprs = 32" by (simp add: gprs_def)
  have "reg_value r = map reg_value gprs ! i" using i by (simp only: nth_map r)
  also have "\<dots> = of_nat i" unfolding gprs_values using i l by simp
  finally have "unat (reg_value r) = i" using i l by (simp add: unat_of_nat)
  then show ?thesis by (simp only: r)
qed

lemma reg_value_zr_iff: "reg_value r = 63 \<longleftrightarrow> r = Zr"
  by (cases r) simp_all

lemma reg_value_inject [simp]: "reg_value r = reg_value r' \<longleftrightarrow> r = r'"
proof (cases "r = Zr \<or> r' = Zr")
  case True
  then show ?thesis
    using reg_value_zr_iff [of r] reg_value_zr_iff [of r'] by (auto simp del: reg_value.simps)
next
  case False
  then have "r = gprs ! unat (reg_value r)" "r' = gprs ! unat (reg_value r')"
    by (simp_all only: gprs_nth de_Morgan_disj not_False_eq_True)
  then show ?thesis by metis
qed

section \<open>Floating-point registers\<close>

datatype fp_register_id =
    Q0 | Q1 | Q2 | Q3 | Q4 | Q5 | Q6 | Q7 | Q8 | Q9 | Q10 | Q11 | Q12 | Q13 | Q14 | Q15 | Q16
     | Q17 | Q18 | Q19 | Q20 | Q21 | Q22 | Q23 | Q24 | Q25 | Q26 | Q27 | Q28 | Q29 | Q30 | Q31

primrec fp_value :: "fp_register_id \<Rightarrow> u32" where
  "fp_value Q0 = 0"
| "fp_value Q1 = 1"
| "fp_value Q2 = 2"
| "fp_value Q3 = 3"
| "fp_value Q4 = 4"
| "fp_value Q5 = 5"
| "fp_value Q6 = 6"
| "fp_value Q7 = 7"
| "fp_value Q8 = 8"
| "fp_value Q9 = 9"
| "fp_value Q10 = 10"
| "fp_value Q11 = 11"
| "fp_value Q12 = 12"
| "fp_value Q13 = 13"
| "fp_value Q14 = 14"
| "fp_value Q15 = 15"
| "fp_value Q16 = 16"
| "fp_value Q17 = 17"
| "fp_value Q18 = 18"
| "fp_value Q19 = 19"
| "fp_value Q20 = 20"
| "fp_value Q21 = 21"
| "fp_value Q22 = 22"
| "fp_value Q23 = 23"
| "fp_value Q24 = 24"
| "fp_value Q25 = 25"
| "fp_value Q26 = 26"
| "fp_value Q27 = 27"
| "fp_value Q28 = 28"
| "fp_value Q29 = 29"
| "fp_value Q30 = 30"
| "fp_value Q31 = 31"

definition fp_is_callee_saved :: "fp_register_id \<Rightarrow> bool" where
  "fp_is_callee_saved r = (r \<in> {Q8, Q9, Q10, Q11, Q12, Q13, Q14, Q15})"

definition FP_ARGUMENT_REGS :: "fp_register_id list" where
  "FP_ARGUMENT_REGS = [Q0, Q1, Q2, Q3, Q4, Q5, Q6, Q7]"

definition fprs :: "fp_register_id list" where
  "fprs =
     [Q0, Q1, Q2, Q3, Q4, Q5, Q6, Q7, Q8, Q9, Q10, Q11, Q12, Q13, Q14, Q15, Q16,
      Q17, Q18, Q19, Q20, Q21, Q22, Q23, Q24, Q25, Q26, Q27, Q28, Q29, Q30, Q31]"

lemma fprs_values: "map fp_value fprs = map of_nat [0..<32]"
  by code_simp

lemma fprs_nth [simp]: "fprs ! unat (fp_value r) = r"
proof -
  have "r \<in> set fprs" by (cases r) (simp_all add: fprs_def)
  then obtain i where i: "i < length fprs" and r: "r = fprs ! i" by (auto simp: in_set_conv_nth)
  have l: "length fprs = 32" by (simp add: fprs_def)
  have "fp_value r = map fp_value fprs ! i" using i by (simp only: nth_map r)
  also have "\<dots> = of_nat i" unfolding fprs_values using i l by simp
  finally have "unat (fp_value r) = i" using i l by (simp add: unat_of_nat)
  then show ?thesis by (simp only: r)
qed

lemma fp_value_bound: "unat (fp_value r) < 32"
  by (cases r) simp_all

section \<open>Operands\<close>

type_synonym i32 = "32 word"
type_synonym i64 = "64 word"

datatype scale = TimesOne | TimesTwo | TimesFour | TimesEight

fun scale_log2 :: "scale \<Rightarrow> nat" where
  "scale_log2 TimesOne = 0"
| "scale_log2 TimesTwo = 1"
| "scale_log2 TimesFour = 2"
| "scale_log2 TimesEight = 3"

definition SCALE_PTR :: scale where "SCALE_PTR = TimesEight"
definition SCALE_REG_WORD :: scale where "SCALE_REG_WORD = TimesEight"

text \<open>\<open>Extend\<close>: how a \<open>BaseIndex\<close> widens its index.\<close>

datatype extend = Extend_ZExt32 | Extend_SExt32 | Extend_None

record address =
  addr_base :: register_id
  addr_offset :: i32

record base_index =
  bx_base :: register_id
  bx_index :: register_id
  bx_scale :: scale
  bx_offset :: i32
  bx_extend :: extend

definition address_new :: "register_id \<Rightarrow> i32 \<Rightarrow> address" where
  "address_new base offset = \<lparr>addr_base = base, addr_offset = offset\<rparr>"

definition address_with_offset :: "address \<Rightarrow> i32 \<Rightarrow> address" where
  "address_with_offset a additional_offset =
     \<lparr>addr_base = addr_base a, addr_offset = addr_offset a + additional_offset\<rparr>"

definition base_index_new :: "register_id \<Rightarrow> register_id \<Rightarrow> scale \<Rightarrow> i32 \<Rightarrow> base_index" where
  "base_index_new base index scale offset =
     \<lparr>bx_base = base, bx_index = index, bx_scale = scale, bx_offset = offset,
      bx_extend = Extend_None\<rparr>"

definition base_index_with_extend ::
  "register_id \<Rightarrow> register_id \<Rightarrow> scale \<Rightarrow> i32 \<Rightarrow> extend \<Rightarrow> base_index" where
  "base_index_with_extend base index scale offset ext =
     \<lparr>bx_base = base, bx_index = index, bx_scale = scale, bx_offset = offset, bx_extend = ext\<rparr>"

definition base_index_with_offset :: "base_index \<Rightarrow> i32 \<Rightarrow> base_index" where
  "base_index_with_offset b additional_offset = b\<lparr>bx_offset := bx_offset b + additional_offset\<rparr>"

definition indexed_by :: "address \<Rightarrow> register_id \<Rightarrow> scale \<Rightarrow> base_index" where
  "indexed_by a index scale = base_index_new (addr_base a) index scale (addr_offset a)"

text \<open>The immediates; an \<open>isize\<close> pointer value is a 64-bit word.\<close>

record trusted_imm_ptr =
  imm_ptr_value :: i64

record trusted_imm32 =
  imm32_value :: i32

record trusted_imm64 =
  imm64_value :: i64

definition trusted_imm32_new :: "i32 \<Rightarrow> trusted_imm32" where
  "trusted_imm32_new v = \<lparr>imm32_value = v\<rparr>"

definition trusted_imm64_new :: "i64 \<Rightarrow> trusted_imm64" where
  "trusted_imm64_new v = \<lparr>imm64_value = v\<rparr>"

definition trusted_imm32_from_ptr :: "trusted_imm_ptr \<Rightarrow> trusted_imm32" where
  "trusted_imm32_from_ptr p = \<lparr>imm32_value = ucast (imm_ptr_value p)\<rparr>"

definition trusted_imm64_from_ptr :: "trusted_imm_ptr \<Rightarrow> trusted_imm64" where
  "trusted_imm64_from_ptr p = \<lparr>imm64_value = imm_ptr_value p\<rparr>"

section \<open>Labels\<close>

text \<open>An \<open>AssemblerLabel\<close> is a byte offset into the code buffer; all ones is the unset one.\<close>

type_synonym assembler_label = u32

definition UNSET :: assembler_label where "UNSET = - 1"

definition label_is_set :: "assembler_label \<Rightarrow> bool" where
  "label_is_set l \<longleftrightarrow> l \<noteq> UNSET"

definition label_at_offset :: "assembler_label \<Rightarrow> i32 \<Rightarrow> assembler_label" where
  "label_at_offset l offset = ucast ((ucast l :: i64) + scast offset)"

end
