(* ===== verification/Arm64_Encoder.thy ===== *)
theory Arm64_Encoder
  imports Arm64_Registers
begin

text \<open>
  The ARM64 instruction encoder, \<open>assembler/arm64_encoder.rs\<close>: the field enumerations with
  their discriminants, one packing function per instruction class and the \<open>emit\<close> methods of
  \<open>Arm64Encoder\<close>.  The encoder borrows the code buffer; here the buffer is an argument and the
  result.  A \<open>u32\<close> shift is \<open>push_bit\<close> (bits shifted out are lost, as in Rust), an \<open>i32\<close> right
  shift is arithmetic, \<open>signed_drop_bit\<close>.
\<close>

section \<open>Field enumerations\<close>

datatype datasize = D32 | D64 | D128 | D16

fun datasize_u32 :: "datasize \<Rightarrow> u32" where
  "datasize_u32 D32 = 0"
| "datasize_u32 D64 = 1"
| "datasize_u32 D128 = 2"
| "datasize_u32 D16 = 3"

datatype mem_op_size = Size8Or128 | Size16 | Size32 | Size64

fun mem_op_size_u32 :: "mem_op_size \<Rightarrow> u32" where
  "mem_op_size_u32 Size8Or128 = 0"
| "mem_op_size_u32 Size16 = 1"
| "mem_op_size_u32 Size32 = 2"
| "mem_op_size_u32 Size64 = 3"

datatype mem_pair_op_size = Pair32 | PairLoadSigned32 | Pair64

fun mem_pair_op_size_u32 :: "mem_pair_op_size \<Rightarrow> u32" where
  "mem_pair_op_size_u32 Pair32 = 0"
| "mem_pair_op_size_u32 PairLoadSigned32 = 1"
| "mem_pair_op_size_u32 Pair64 = 2"

datatype add_op = AddOp_Add | AddOp_Sub

fun add_op_u32 :: "add_op \<Rightarrow> u32" where
  "add_op_u32 AddOp_Add = 0"
| "add_op_u32 AddOp_Sub = 1"

datatype mem_op = MemOp_Store | MemOp_Load

fun mem_op_u32 :: "mem_op \<Rightarrow> u32" where
  "mem_op_u32 MemOp_Store = 0"
| "mem_op_u32 MemOp_Load = 1"

datatype move_wide_op = MoveWideOp_N | MoveWideOp_Z | MoveWideOp_K

fun move_wide_op_u32 :: "move_wide_op \<Rightarrow> u32" where
  "move_wide_op_u32 MoveWideOp_N = 0"
| "move_wide_op_u32 MoveWideOp_Z = 2"
| "move_wide_op_u32 MoveWideOp_K = 3"

datatype logical_op = LogicalOp_And | LogicalOp_Orr | LogicalOp_Eor | LogicalOp_Ands

fun logical_op_u32 :: "logical_op \<Rightarrow> u32" where
  "logical_op_u32 LogicalOp_And = 0"
| "logical_op_u32 LogicalOp_Orr = 1"
| "logical_op_u32 LogicalOp_Eor = 2"
| "logical_op_u32 LogicalOp_Ands = 3"

datatype set_flags = SetFlags_DontSetFlags | SetFlags_S

fun set_flags_u32 :: "set_flags \<Rightarrow> u32" where
  "set_flags_u32 SetFlags_DontSetFlags = 0"
| "set_flags_u32 SetFlags_S = 1"

datatype branch_type = BranchType_Jmp | BranchType_Call | BranchType_Ret

fun branch_type_u32 :: "branch_type \<Rightarrow> u32" where
  "branch_type_u32 BranchType_Jmp = 0"
| "branch_type_u32 BranchType_Call = 1"
| "branch_type_u32 BranchType_Ret = 2"

datatype shift_type = ShiftType_Lsl | ShiftType_Lsr | ShiftType_Asr | ShiftType_Ror

fun shift_type_u32 :: "shift_type \<Rightarrow> u32" where
  "shift_type_u32 ShiftType_Lsl = 0"
| "shift_type_u32 ShiftType_Lsr = 1"
| "shift_type_u32 ShiftType_Asr = 2"
| "shift_type_u32 ShiftType_Ror = 3"

datatype extend_type =
    ExtendType_Uxtb | ExtendType_Uxth | ExtendType_Uxtw | ExtendType_Uxtx
       | ExtendType_Sxtb | ExtendType_Sxth | ExtendType_Sxtw | ExtendType_Sxtx

fun extend_type_u32 :: "extend_type \<Rightarrow> u32" where
  "extend_type_u32 ExtendType_Uxtb = 0"
| "extend_type_u32 ExtendType_Uxth = 1"
| "extend_type_u32 ExtendType_Uxtw = 2"
| "extend_type_u32 ExtendType_Uxtx = 3"
| "extend_type_u32 ExtendType_Sxtb = 4"
| "extend_type_u32 ExtendType_Sxth = 5"
| "extend_type_u32 ExtendType_Sxtw = 6"
| "extend_type_u32 ExtendType_Sxtx = 7"

datatype arm_condition =
    Cond_Eq | Cond_Ne | Cond_Hs | Cond_Lo | Cond_Mi | Cond_Pl | Cond_Vs | Cond_Vc
       | Cond_Hi | Cond_Ls | Cond_Ge | Cond_Lt | Cond_Gt | Cond_Le | Cond_Al
       | Cond_Invalid

fun arm_condition_u32 :: "arm_condition \<Rightarrow> u32" where
  "arm_condition_u32 Cond_Eq = 0"
| "arm_condition_u32 Cond_Ne = 1"
| "arm_condition_u32 Cond_Hs = 2"
| "arm_condition_u32 Cond_Lo = 3"
| "arm_condition_u32 Cond_Mi = 4"
| "arm_condition_u32 Cond_Pl = 5"
| "arm_condition_u32 Cond_Vs = 6"
| "arm_condition_u32 Cond_Vc = 7"
| "arm_condition_u32 Cond_Hi = 8"
| "arm_condition_u32 Cond_Ls = 9"
| "arm_condition_u32 Cond_Ge = 10"
| "arm_condition_u32 Cond_Lt = 11"
| "arm_condition_u32 Cond_Gt = 12"
| "arm_condition_u32 Cond_Le = 13"
| "arm_condition_u32 Cond_Al = 14"
| "arm_condition_u32 Cond_Invalid = 15"

datatype data_op2_source = DataOp2_Lslv | DataOp2_Lsrv | DataOp2_Asrv

fun data_op2_source_u32 :: "data_op2_source \<Rightarrow> u32" where
  "data_op2_source_u32 DataOp2_Lslv = 8"
| "data_op2_source_u32 DataOp2_Lsrv = 9"
| "data_op2_source_u32 DataOp2_Asrv = 10"

datatype data_op3_source =
    DataOp3_Madd | DataOp3_Msub | DataOp3_Smaddl | DataOp3_Smsubl | DataOp3_Smulh
       | DataOp3_Umaddl | DataOp3_Umsubl | DataOp3_Umulh

fun data_op3_source_u32 :: "data_op3_source \<Rightarrow> u32" where
  "data_op3_source_u32 DataOp3_Madd = 0"
| "data_op3_source_u32 DataOp3_Msub = 1"
| "data_op3_source_u32 DataOp3_Smaddl = 2"
| "data_op3_source_u32 DataOp3_Smsubl = 3"
| "data_op3_source_u32 DataOp3_Smulh = 4"
| "data_op3_source_u32 DataOp3_Umaddl = 10"
| "data_op3_source_u32 DataOp3_Umsubl = 11"
| "data_op3_source_u32 DataOp3_Umulh = 12"

datatype bitfield_op = BitfieldOp_Sbfm | BitfieldOp_Ubfm

fun bitfield_op_u32 :: "bitfield_op \<Rightarrow> u32" where
  "bitfield_op_u32 BitfieldOp_Sbfm = 0"
| "bitfield_op_u32 BitfieldOp_Ubfm = 2"

datatype fp_data_op1_source = FpDataOp1_Fmov

fun fp_data_op1_source_u32 :: "fp_data_op1_source \<Rightarrow> u32" where
  "fp_data_op1_source_u32 FpDataOp1_Fmov = 0"

datatype fp_data_op2_source =
    FpDataOp2_FMul | FpDataOp2_FDiv | FpDataOp2_FAdd | FpDataOp2_FSub | FpDataOp2_FMax
       | FpDataOp2_FMin | FpDataOp2_FMaxnm | FpDataOp2_FMinnm | FpDataOp2_FNmul

fun fp_data_op2_source_u32 :: "fp_data_op2_source \<Rightarrow> u32" where
  "fp_data_op2_source_u32 FpDataOp2_FMul = 0"
| "fp_data_op2_source_u32 FpDataOp2_FDiv = 1"
| "fp_data_op2_source_u32 FpDataOp2_FAdd = 2"
| "fp_data_op2_source_u32 FpDataOp2_FSub = 3"
| "fp_data_op2_source_u32 FpDataOp2_FMax = 4"
| "fp_data_op2_source_u32 FpDataOp2_FMin = 5"
| "fp_data_op2_source_u32 FpDataOp2_FMaxnm = 6"
| "fp_data_op2_source_u32 FpDataOp2_FMinnm = 7"
| "fp_data_op2_source_u32 FpDataOp2_FNmul = 8"

datatype fp_int_conv_op = FpIntConv_Scvtf | FpIntConv_FmovFpToGpr | FpIntConv_FmovGprToFp

fun fp_int_conv_op_u32 :: "fp_int_conv_op \<Rightarrow> u32" where
  "fp_int_conv_op_u32 FpIntConv_Scvtf = 2"
| "fp_int_conv_op_u32 FpIntConv_FmovFpToGpr = 6"
| "fp_int_conv_op_u32 FpIntConv_FmovGprToFp = 7"

section \<open>Register fields\<close>

definition x_or_zr :: "register_id \<Rightarrow> u32" where
  "x_or_zr reg = reg_value reg AND 31"

definition x_or_sp :: "register_id \<Rightarrow> u32" where
  "x_or_sp reg = reg_value reg"

definition x_or_zr_or_sp :: "bool \<Rightarrow> register_id \<Rightarrow> u32" where
  "x_or_zr_or_sp use_zr reg = (if use_zr then x_or_zr reg else x_or_sp reg)"

definition mem_pair_offset_shift :: "bool \<Rightarrow> mem_pair_op_size \<Rightarrow> u32" where
  "mem_pair_offset_shift v sz =
     (let sz = mem_pair_op_size_u32 sz
      in if v then sz + 2 else drop_bit 1 sz + 2)"

section \<open>Instruction words\<close>

definition add_subtract_immediate ::
  "datasize \<Rightarrow> add_op \<Rightarrow> set_flags \<Rightarrow> bool \<Rightarrow> u32 \<Rightarrow> register_id \<Rightarrow> register_id \<Rightarrow> u32" where
  "add_subtract_immediate sf op s shift12 imm12 rn rd =
     (let use_zr = set_flags_u32 s \<noteq> 0
      in 0x11000000
         OR push_bit 31 (datasize_u32 sf)
         OR push_bit 30 (add_op_u32 op)
         OR push_bit 29 (set_flags_u32 s)
         OR push_bit 22 (of_bool shift12)
         OR push_bit 10 (imm12 AND 0xfff)
         OR push_bit 5 (x_or_sp rn)
         OR x_or_zr_or_sp use_zr rd)"

definition add_subtract_shifted_register ::
  "datasize \<Rightarrow> add_op \<Rightarrow> set_flags \<Rightarrow> shift_type \<Rightarrow> register_id \<Rightarrow> u32 \<Rightarrow> register_id \<Rightarrow> register_id
   \<Rightarrow> u32" where
  "add_subtract_shifted_register sf op s shift rm imm6 rn rd =
     0x0b000000
     OR push_bit 31 (datasize_u32 sf)
     OR push_bit 30 (add_op_u32 op)
     OR push_bit 29 (set_flags_u32 s)
     OR push_bit 22 (shift_type_u32 shift)
     OR push_bit 16 (x_or_zr rm)
     OR push_bit 10 (imm6 AND 0x3f)
     OR push_bit 5 (x_or_zr rn)
     OR x_or_zr rd"

definition add_subtract_extended_register ::
  "datasize \<Rightarrow> add_op \<Rightarrow> set_flags \<Rightarrow> register_id \<Rightarrow> extend_type \<Rightarrow> u32 \<Rightarrow> register_id \<Rightarrow> register_id
   \<Rightarrow> u32" where
  "add_subtract_extended_register sf op s rm option imm3 rn rd =
     (let use_zr = set_flags_u32 s \<noteq> 0; opt = 0
      in 0x0b200000
         OR push_bit 31 (datasize_u32 sf)
         OR push_bit 30 (add_op_u32 op)
         OR push_bit 29 (set_flags_u32 s)
         OR push_bit 22 opt
         OR push_bit 16 (x_or_zr rm)
         OR push_bit 13 (extend_type_u32 option)
         OR push_bit 10 (imm3 AND 0x7)
         OR push_bit 5 (x_or_sp rn)
         OR x_or_zr_or_sp use_zr rd)"

definition logical_shifted_register ::
  "datasize \<Rightarrow> logical_op \<Rightarrow> shift_type \<Rightarrow> bool \<Rightarrow> register_id \<Rightarrow> u32 \<Rightarrow> register_id \<Rightarrow> register_id
   \<Rightarrow> u32" where
  "logical_shifted_register sf opc shift n rm imm6 rn rd =
     0x0a000000
     OR push_bit 31 (datasize_u32 sf)
     OR push_bit 29 (logical_op_u32 opc)
     OR push_bit 22 (shift_type_u32 shift)
     OR push_bit 21 (of_bool n)
     OR push_bit 16 (x_or_zr rm)
     OR push_bit 10 (imm6 AND 0x3f)
     OR push_bit 5 (x_or_zr rn)
     OR x_or_zr rd"

definition move_wide_immediate ::
  "datasize \<Rightarrow> move_wide_op \<Rightarrow> u32 \<Rightarrow> u16 \<Rightarrow> register_id \<Rightarrow> u32" where
  "move_wide_immediate sf opc hw imm16 rd =
     0x12800000
     OR push_bit 31 (datasize_u32 sf)
     OR push_bit 29 (move_wide_op_u32 opc)
     OR push_bit 21 hw
     OR push_bit 5 (ucast imm16)
     OR x_or_zr rd"

definition load_store_register_unsigned_immediate ::
  "mem_op_size \<Rightarrow> bool \<Rightarrow> mem_op \<Rightarrow> u32 \<Rightarrow> register_id \<Rightarrow> register_id \<Rightarrow> u32" where
  "load_store_register_unsigned_immediate sz v opc imm12 rn rt =
     0x39000000
     OR push_bit 30 (mem_op_size_u32 sz)
     OR push_bit 26 (of_bool v)
     OR push_bit 22 (mem_op_u32 opc)
     OR push_bit 10 (imm12 AND 0xfff)
     OR push_bit 5 (x_or_sp rn)
     OR x_or_zr rt"

definition load_store_register_register_offset ::
  "mem_op_size \<Rightarrow> bool \<Rightarrow> mem_op \<Rightarrow> register_id \<Rightarrow> extend_type \<Rightarrow> bool \<Rightarrow> register_id \<Rightarrow> register_id
   \<Rightarrow> u32" where
  "load_store_register_register_offset sz v opc rm option s rn rt =
     0x38200800
     OR push_bit 30 (mem_op_size_u32 sz)
     OR push_bit 26 (of_bool v)
     OR push_bit 22 (mem_op_u32 opc)
     OR push_bit 16 (x_or_zr rm)
     OR push_bit 13 (extend_type_u32 option)
     OR push_bit 12 (of_bool s)
     OR push_bit 5 (x_or_sp rn)
     OR x_or_zr rt"

definition load_store_register_pair_post_index ::
  "mem_pair_op_size \<Rightarrow> bool \<Rightarrow> mem_op \<Rightarrow> i32 \<Rightarrow> register_id \<Rightarrow> register_id \<Rightarrow> register_id \<Rightarrow> u32" where
  "load_store_register_pair_post_index sz v opc immediate rn rt rt2 =
     (let shift = mem_pair_offset_shift v sz;
          imm7 = signed_drop_bit (unat shift) immediate
      in 0x28800000
         OR push_bit 30 (mem_pair_op_size_u32 sz)
         OR push_bit 26 (of_bool v)
         OR push_bit 22 (mem_op_u32 opc)
         OR push_bit 15 (imm7 AND 0x7f)
         OR push_bit 10 (x_or_zr rt2)
         OR push_bit 5 (x_or_sp rn)
         OR x_or_zr rt)"

definition load_store_register_pair_pre_index ::
  "mem_pair_op_size \<Rightarrow> bool \<Rightarrow> mem_op \<Rightarrow> i32 \<Rightarrow> register_id \<Rightarrow> register_id \<Rightarrow> register_id \<Rightarrow> u32" where
  "load_store_register_pair_pre_index sz v opc immediate rn rt rt2 =
     (let shift = mem_pair_offset_shift v sz;
          imm7 = signed_drop_bit (unat shift) immediate
      in 0x29800000
         OR push_bit 30 (mem_pair_op_size_u32 sz)
         OR push_bit 26 (of_bool v)
         OR push_bit 22 (mem_op_u32 opc)
         OR push_bit 15 (imm7 AND 0x7f)
         OR push_bit 10 (x_or_zr rt2)
         OR push_bit 5 (x_or_sp rn)
         OR x_or_zr rt)"

definition load_store_register_pair_offset ::
  "mem_pair_op_size \<Rightarrow> bool \<Rightarrow> mem_op \<Rightarrow> i32 \<Rightarrow> register_id \<Rightarrow> register_id \<Rightarrow> register_id \<Rightarrow> u32" where
  "load_store_register_pair_offset sz v opc immediate rn rt rt2 =
     (let shift = mem_pair_offset_shift v sz;
          imm7 = signed_drop_bit (unat shift) immediate
      in 0x29000000
         OR push_bit 30 (mem_pair_op_size_u32 sz)
         OR push_bit 26 (of_bool v)
         OR push_bit 22 (mem_op_u32 opc)
         OR push_bit 15 (imm7 AND 0x7f)
         OR push_bit 10 (x_or_zr rt2)
         OR push_bit 5 (x_or_sp rn)
         OR x_or_zr rt)"

definition unconditional_branch_immediate :: "bool \<Rightarrow> i32 \<Rightarrow> u32" where
  "unconditional_branch_immediate op imm26 =
     0x14000000 OR push_bit 31 (of_bool op) OR (imm26 AND 0x03ffffff)"

definition conditional_branch_immediate :: "i32 \<Rightarrow> arm_condition \<Rightarrow> u32" where
  "conditional_branch_immediate imm19 cond =
     0x54000000 OR push_bit 5 (imm19 AND 0x0007ffff) OR arm_condition_u32 cond"

definition unconditional_branch_register :: "branch_type \<Rightarrow> register_id \<Rightarrow> u32" where
  "unconditional_branch_register opc rn =
     (let op2 = 0x1f
      in 0xd6000000 OR push_bit 21 (branch_type_u32 opc) OR push_bit 16 op2
         OR push_bit 5 (x_or_zr rn))"

definition system_word :: "bool \<Rightarrow> u32 \<Rightarrow> u32 \<Rightarrow> u32 \<Rightarrow> u32 \<Rightarrow> u32 \<Rightarrow> register_id \<Rightarrow> u32" where
  "system_word l op0 op1 crn crm op2 rt =
     0xd5000000
     OR push_bit 21 (of_bool l)
     OR push_bit 19 op0
     OR push_bit 16 op1
     OR push_bit 12 crn
     OR push_bit 8 crm
     OR push_bit 5 op2
     OR x_or_zr rt"

definition hint_pseudo :: "u32 \<Rightarrow> u32" where
  "hint_pseudo imm = system_word False 0 3 2 (drop_bit 3 imm AND 0xf) (imm AND 0x7) Zr"

definition nop_pseudo :: u32 where
  "nop_pseudo = hint_pseudo 0"

definition data_processing_2_source ::
  "datasize \<Rightarrow> register_id \<Rightarrow> data_op2_source \<Rightarrow> register_id \<Rightarrow> register_id \<Rightarrow> u32" where
  "data_processing_2_source sf rm opcode rn rd =
     0x1ac00000
     OR push_bit 31 (datasize_u32 sf)
     OR push_bit 16 (x_or_zr rm)
     OR push_bit 10 (data_op2_source_u32 opcode)
     OR push_bit 5 (x_or_zr rn)
     OR x_or_zr rd"

definition data_processing_3_source ::
  "datasize \<Rightarrow> data_op3_source \<Rightarrow> register_id \<Rightarrow> register_id \<Rightarrow> register_id \<Rightarrow> register_id \<Rightarrow> u32" where
  "data_processing_3_source sf opcode rm ra rn rd =
     (let opcode = data_op3_source_u32 opcode;
          op54 = drop_bit 4 opcode;
          op31 = drop_bit 1 opcode AND 7;
          op0 = opcode AND 1
      in 0x1b000000
         OR push_bit 31 (datasize_u32 sf)
         OR push_bit 29 op54
         OR push_bit 21 op31
         OR push_bit 16 (x_or_zr rm)
         OR push_bit 15 op0
         OR push_bit 10 (x_or_zr ra)
         OR push_bit 5 (x_or_zr rn)
         OR x_or_zr rd)"

definition bitfield_word ::
  "datasize \<Rightarrow> bitfield_op \<Rightarrow> u32 \<Rightarrow> u32 \<Rightarrow> register_id \<Rightarrow> register_id \<Rightarrow> u32" where
  "bitfield_word sf opc immr imms rn rd =
     (let n = datasize_u32 sf
      in 0x13000000
         OR push_bit 31 (datasize_u32 sf)
         OR push_bit 29 (bitfield_op_u32 opc)
         OR push_bit 22 n
         OR push_bit 16 (immr AND 0x3f)
         OR push_bit 10 (imms AND 0x3f)
         OR push_bit 5 (x_or_zr rn)
         OR x_or_zr rd)"

definition floating_point_data_processing_1_source ::
  "datasize \<Rightarrow> fp_data_op1_source \<Rightarrow> fp_register_id \<Rightarrow> fp_register_id \<Rightarrow> u32" where
  "floating_point_data_processing_1_source type opcode rn rd =
     0x1e204000
     OR push_bit 22 (datasize_u32 type)
     OR push_bit 15 (fp_data_op1_source_u32 opcode)
     OR push_bit 5 (fp_value rn)
     OR fp_value rd"

definition floating_point_data_processing_2_source ::
  "datasize \<Rightarrow> fp_register_id \<Rightarrow> fp_data_op2_source \<Rightarrow> fp_register_id \<Rightarrow> fp_register_id \<Rightarrow> u32" where
  "floating_point_data_processing_2_source type rm opcode rn rd =
     0x1e200800
     OR push_bit 22 (datasize_u32 type)
     OR push_bit 16 (fp_value rm)
     OR push_bit 12 (fp_data_op2_source_u32 opcode)
     OR push_bit 5 (fp_value rn)
     OR fp_value rd"

definition floating_point_integer_conversions ::
  "datasize \<Rightarrow> datasize \<Rightarrow> fp_int_conv_op \<Rightarrow> u32 \<Rightarrow> u32 \<Rightarrow> u32" where
  "floating_point_integer_conversions sf type rmode_opcode rn rd =
     0x1e200000
     OR push_bit 31 (datasize_u32 sf)
     OR push_bit 22 (datasize_u32 type)
     OR push_bit 16 (fp_int_conv_op_u32 rmode_opcode)
     OR push_bit 5 (rn AND 31)
     OR (rd AND 31)"

definition load_store_register_unscaled_immediate ::
  "mem_op_size \<Rightarrow> bool \<Rightarrow> mem_op \<Rightarrow> i32 \<Rightarrow> register_id \<Rightarrow> register_id \<Rightarrow> u32" where
  "load_store_register_unscaled_immediate sz v opc imm9 rn rt =
     0x38000000
     OR push_bit 30 (mem_op_size_u32 sz)
     OR push_bit 26 (of_bool v)
     OR push_bit 22 (mem_op_u32 opc)
     OR push_bit 12 (imm9 AND 0x1ff)
     OR push_bit 5 (x_or_sp rn)
     OR x_or_zr rt"

section \<open>Emission\<close>

type_synonym code_buffer = "u8 list"

definition to_le_bytes_u32 :: "u32 \<Rightarrow> u8 list" where
  "to_le_bytes_u32 w =
     [ucast w, ucast (drop_bit 8 w), ucast (drop_bit 16 w), ucast (drop_bit 24 w)]"

definition insn :: "u32 \<Rightarrow> code_buffer \<Rightarrow> code_buffer" where
  "insn instruction buffer = buffer @ to_le_bytes_u32 instruction"

definition datasize_bits :: "datasize \<Rightarrow> u32" where
  "datasize_bits sf = (case sf of D64 \<Rightarrow> 64 | _ \<Rightarrow> 32)"

definition mem_access_bytes :: "mem_op_size \<Rightarrow> u32" where
  "mem_access_bytes sz = push_bit (unat (mem_op_size_u32 sz)) 1"

subsection \<open>Add, subtract and moves\<close>

definition emit_add_imm12 ::
  "register_id \<Rightarrow> register_id \<Rightarrow> u32 \<Rightarrow> bool \<Rightarrow> code_buffer \<Rightarrow> code_buffer" where
  "emit_add_imm12 rd rn imm12 shift12 =
     insn (add_subtract_immediate D64 AddOp_Add SetFlags_DontSetFlags shift12 imm12 rn rd)"

definition emit_sub_imm12 ::
  "register_id \<Rightarrow> register_id \<Rightarrow> u32 \<Rightarrow> bool \<Rightarrow> code_buffer \<Rightarrow> code_buffer" where
  "emit_sub_imm12 rd rn imm12 shift12 =
     insn (add_subtract_immediate D64 AddOp_Sub SetFlags_DontSetFlags shift12 imm12 rn rd)"

definition emit_mov :: "register_id \<Rightarrow> register_id \<Rightarrow> code_buffer \<Rightarrow> code_buffer" where
  "emit_mov rd rm =
     (if is_sp rd \<or> is_sp rm then emit_add_imm12 rd rm 0 False
      else insn (logical_shifted_register D64 LogicalOp_Orr ShiftType_Lsl False rm 0 Zr rd))"

definition emit_orr_reg ::
  "register_id \<Rightarrow> register_id \<Rightarrow> register_id \<Rightarrow> code_buffer \<Rightarrow> code_buffer" where
  "emit_orr_reg rd rn rm =
     insn (logical_shifted_register D64 LogicalOp_Orr ShiftType_Lsl False rm 0 rn rd)"

definition emit_movz :: "register_id \<Rightarrow> u16 \<Rightarrow> u32 \<Rightarrow> code_buffer \<Rightarrow> code_buffer" where
  "emit_movz rd value shift =
     insn (move_wide_immediate D64 MoveWideOp_Z (drop_bit 4 shift) value rd)"

definition emit_movk :: "register_id \<Rightarrow> u16 \<Rightarrow> u32 \<Rightarrow> code_buffer \<Rightarrow> code_buffer" where
  "emit_movk rd value shift =
     insn (move_wide_immediate D64 MoveWideOp_K (drop_bit 4 shift) value rd)"

definition emit_movn :: "register_id \<Rightarrow> u16 \<Rightarrow> u32 \<Rightarrow> code_buffer \<Rightarrow> code_buffer" where
  "emit_movn rd value shift =
     insn (move_wide_immediate D64 MoveWideOp_N (drop_bit 4 shift) value rd)"

text \<open>The \<open>while shift < 64\<close> loop carries the flag \<open>emitted_movz\<close> and the buffer.\<close>

function move_immediate64_loop ::
  "register_id \<Rightarrow> u64 \<Rightarrow> nat \<Rightarrow> bool \<Rightarrow> code_buffer \<Rightarrow> bool \<times> code_buffer" where
  "move_immediate64_loop rd value shift emitted_movz buffer =
     (if shift < 64 then
        (let halfword = ucast (drop_bit shift value AND 0xffff) :: u16
         in if halfword \<noteq> 0 then
              (if \<not> emitted_movz
               then move_immediate64_loop rd value (shift + 16) True
                      (emit_movz rd halfword (of_nat shift) buffer)
               else move_immediate64_loop rd value (shift + 16) emitted_movz
                      (emit_movk rd halfword (of_nat shift) buffer))
            else move_immediate64_loop rd value (shift + 16) emitted_movz buffer)
      else (emitted_movz, buffer))"
  by pat_completeness auto
termination by (relation "measure (\<lambda>(_, _, shift, _). 64 - shift)") auto

definition emit_move_immediate64 :: "register_id \<Rightarrow> u64 \<Rightarrow> code_buffer \<Rightarrow> code_buffer" where
  "emit_move_immediate64 rd value buffer =
     (let (emitted_movz, buffer) = move_immediate64_loop rd value 0 False buffer
      in if \<not> emitted_movz then emit_movz rd 0 0 buffer else buffer)"

definition emit_add_sub_imm ::
  "datasize \<Rightarrow> add_op \<Rightarrow> set_flags \<Rightarrow> register_id \<Rightarrow> register_id \<Rightarrow> u32 \<Rightarrow> bool \<Rightarrow> code_buffer
   \<Rightarrow> code_buffer" where
  "emit_add_sub_imm sf op s rd rn imm12 shift12 =
     insn (add_subtract_immediate sf op s shift12 imm12 rn rd)"

definition emit_add_sub_reg ::
  "datasize \<Rightarrow> add_op \<Rightarrow> set_flags \<Rightarrow> register_id \<Rightarrow> register_id \<Rightarrow> register_id \<Rightarrow> code_buffer
   \<Rightarrow> code_buffer" where
  "emit_add_sub_reg sf op s rd rn rm =
     (if is_sp rd \<or> is_sp rn
      then insn (add_subtract_extended_register sf op s rm ExtendType_Uxtx 0 rn rd)
      else insn (add_subtract_shifted_register sf op s ShiftType_Lsl rm 0 rn rd))"

definition emit_add_reg ::
  "register_id \<Rightarrow> register_id \<Rightarrow> register_id \<Rightarrow> code_buffer \<Rightarrow> code_buffer" where
  "emit_add_reg rd rn rm =
     (if is_sp rd \<or> is_sp rn
      then insn (add_subtract_extended_register D64 AddOp_Add SetFlags_DontSetFlags rm
                   ExtendType_Uxtx 0 rn rd)
      else insn (add_subtract_shifted_register D64 AddOp_Add SetFlags_DontSetFlags ShiftType_Lsl
                   rm 0 rn rd))"

definition emit_sub_reg ::
  "register_id \<Rightarrow> register_id \<Rightarrow> register_id \<Rightarrow> code_buffer \<Rightarrow> code_buffer" where
  "emit_sub_reg rd rn rm =
     (if is_sp rd \<or> is_sp rn
      then insn (add_subtract_extended_register D64 AddOp_Sub SetFlags_DontSetFlags rm
                   ExtendType_Uxtx 0 rn rd)
      else insn (add_subtract_shifted_register D64 AddOp_Sub SetFlags_DontSetFlags ShiftType_Lsl
                   rm 0 rn rd))"

definition emit_add_sub_extended_reg ::
  "datasize \<Rightarrow> add_op \<Rightarrow> set_flags \<Rightarrow> register_id \<Rightarrow> register_id \<Rightarrow> register_id \<Rightarrow> extend_type \<Rightarrow> u32
   \<Rightarrow> code_buffer \<Rightarrow> code_buffer" where
  "emit_add_sub_extended_reg sf op s rd rn rm ext amount =
     insn (add_subtract_extended_register sf op s rm ext amount rn rd)"

definition emit_move_wide ::
  "datasize \<Rightarrow> move_wide_op \<Rightarrow> register_id \<Rightarrow> u16 \<Rightarrow> u32 \<Rightarrow> code_buffer \<Rightarrow> code_buffer" where
  "emit_move_wide sf op rd value shift =
     insn (move_wide_immediate sf op (drop_bit 4 shift) value rd)"

definition emit_mov_reg :: "datasize \<Rightarrow> register_id \<Rightarrow> register_id \<Rightarrow> code_buffer \<Rightarrow> code_buffer" where
  "emit_mov_reg sf rd rm =
     (if is_sp rd \<or> is_sp rm
      then emit_add_sub_imm sf AddOp_Add SetFlags_DontSetFlags rd rm 0 False
      else insn (logical_shifted_register sf LogicalOp_Orr ShiftType_Lsl False rm 0 Zr rd))"

subsection \<open>Logic, shifts and multiplication\<close>

definition emit_logical_reg ::
  "datasize \<Rightarrow> logical_op \<Rightarrow> register_id \<Rightarrow> register_id \<Rightarrow> register_id \<Rightarrow> code_buffer \<Rightarrow> code_buffer" where
  "emit_logical_reg sf opc rd rn rm =
     insn (logical_shifted_register sf opc ShiftType_Lsl False rm 0 rn rd)"

definition emit_shift_reg ::
  "datasize \<Rightarrow> data_op2_source \<Rightarrow> register_id \<Rightarrow> register_id \<Rightarrow> register_id \<Rightarrow> code_buffer
   \<Rightarrow> code_buffer" where
  "emit_shift_reg sf op rd rn rm = insn (data_processing_2_source sf rm op rn rd)"

definition emit_lsl_imm ::
  "datasize \<Rightarrow> register_id \<Rightarrow> register_id \<Rightarrow> u32 \<Rightarrow> code_buffer \<Rightarrow> code_buffer" where
  "emit_lsl_imm sf rd rn shift =
     (let datasize = datasize_bits sf;
          immr = (datasize - shift) AND (datasize - 1);
          imms = datasize - 1 - shift
      in insn (bitfield_word sf BitfieldOp_Ubfm immr imms rn rd))"

definition emit_lsr_imm ::
  "datasize \<Rightarrow> register_id \<Rightarrow> register_id \<Rightarrow> u32 \<Rightarrow> code_buffer \<Rightarrow> code_buffer" where
  "emit_lsr_imm sf rd rn shift =
     (let imms = datasize_bits sf - 1
      in insn (bitfield_word sf BitfieldOp_Ubfm shift imms rn rd))"

definition emit_asr_imm ::
  "datasize \<Rightarrow> register_id \<Rightarrow> register_id \<Rightarrow> u32 \<Rightarrow> code_buffer \<Rightarrow> code_buffer" where
  "emit_asr_imm sf rd rn shift =
     (let imms = datasize_bits sf - 1
      in insn (bitfield_word sf BitfieldOp_Sbfm shift imms rn rd))"

definition emit_mul ::
  "datasize \<Rightarrow> register_id \<Rightarrow> register_id \<Rightarrow> register_id \<Rightarrow> code_buffer \<Rightarrow> code_buffer" where
  "emit_mul sf rd rn rm = insn (data_processing_3_source sf DataOp3_Madd rm Zr rn rd)"

definition emit_smull ::
  "register_id \<Rightarrow> register_id \<Rightarrow> register_id \<Rightarrow> code_buffer \<Rightarrow> code_buffer" where
  "emit_smull rd rn rm = insn (data_processing_3_source D64 DataOp3_Smaddl rm Zr rn rd)"

subsection \<open>Loads and stores\<close>

definition emit_ldr_imm64 ::
  "register_id \<Rightarrow> register_id \<Rightarrow> u32 \<Rightarrow> code_buffer \<Rightarrow> code_buffer" where
  "emit_ldr_imm64 rt rn byte_offset =
     insn (load_store_register_unsigned_immediate Size64 False MemOp_Load (byte_offset div 8) rn rt)"

definition emit_str_imm64 ::
  "register_id \<Rightarrow> register_id \<Rightarrow> u32 \<Rightarrow> code_buffer \<Rightarrow> code_buffer" where
  "emit_str_imm64 rt rn byte_offset =
     insn (load_store_register_unsigned_immediate Size64 False MemOp_Store (byte_offset div 8) rn rt)"

definition emit_ldr_register_offset64 ::
  "register_id \<Rightarrow> register_id \<Rightarrow> register_id \<Rightarrow> extend_type \<Rightarrow> scale \<Rightarrow> code_buffer \<Rightarrow> code_buffer" where
  "emit_ldr_register_offset64 rt rn rm ext scale =
     insn (load_store_register_register_offset Size64 False MemOp_Load rm ext
             (scale_log2 scale \<noteq> 0) rn rt)"

definition emit_str_register_offset64 ::
  "register_id \<Rightarrow> register_id \<Rightarrow> register_id \<Rightarrow> extend_type \<Rightarrow> scale \<Rightarrow> code_buffer \<Rightarrow> code_buffer" where
  "emit_str_register_offset64 rt rn rm ext scale =
     insn (load_store_register_register_offset Size64 False MemOp_Store rm ext
             (scale_log2 scale \<noteq> 0) rn rt)"

definition emit_stp_pre_index64 ::
  "register_id \<Rightarrow> register_id \<Rightarrow> register_id \<Rightarrow> i32 \<Rightarrow> code_buffer \<Rightarrow> code_buffer" where
  "emit_stp_pre_index64 rt rt2 rn byte_offset =
     insn (load_store_register_pair_pre_index Pair64 False MemOp_Store byte_offset rn rt rt2)"

definition emit_stp_post_index64 ::
  "register_id \<Rightarrow> register_id \<Rightarrow> register_id \<Rightarrow> i32 \<Rightarrow> code_buffer \<Rightarrow> code_buffer" where
  "emit_stp_post_index64 rt rt2 rn byte_offset =
     insn (load_store_register_pair_post_index Pair64 False MemOp_Store byte_offset rn rt rt2)"

definition emit_stp_offset64 ::
  "register_id \<Rightarrow> register_id \<Rightarrow> register_id \<Rightarrow> i32 \<Rightarrow> code_buffer \<Rightarrow> code_buffer" where
  "emit_stp_offset64 rt rt2 rn byte_offset =
     insn (load_store_register_pair_offset Pair64 False MemOp_Store byte_offset rn rt rt2)"

definition emit_ldp_pre_index64 ::
  "register_id \<Rightarrow> register_id \<Rightarrow> register_id \<Rightarrow> i32 \<Rightarrow> code_buffer \<Rightarrow> code_buffer" where
  "emit_ldp_pre_index64 rt rt2 rn byte_offset =
     insn (load_store_register_pair_pre_index Pair64 False MemOp_Load byte_offset rn rt rt2)"

definition emit_ldp_post_index64 ::
  "register_id \<Rightarrow> register_id \<Rightarrow> register_id \<Rightarrow> i32 \<Rightarrow> code_buffer \<Rightarrow> code_buffer" where
  "emit_ldp_post_index64 rt rt2 rn byte_offset =
     insn (load_store_register_pair_post_index Pair64 False MemOp_Load byte_offset rn rt rt2)"

definition emit_ldp_offset64 ::
  "register_id \<Rightarrow> register_id \<Rightarrow> register_id \<Rightarrow> i32 \<Rightarrow> code_buffer \<Rightarrow> code_buffer" where
  "emit_ldp_offset64 rt rt2 rn byte_offset =
     insn (load_store_register_pair_offset Pair64 False MemOp_Load byte_offset rn rt rt2)"

definition emit_load_store_unscaled ::
  "mem_op_size \<Rightarrow> mem_op \<Rightarrow> register_id \<Rightarrow> register_id \<Rightarrow> i32 \<Rightarrow> code_buffer \<Rightarrow> code_buffer" where
  "emit_load_store_unscaled sz op rt rn simm9 =
     insn (load_store_register_unscaled_immediate sz False op simm9 rn rt)"

definition emit_load_store_unsigned ::
  "mem_op_size \<Rightarrow> mem_op \<Rightarrow> register_id \<Rightarrow> register_id \<Rightarrow> u32 \<Rightarrow> code_buffer \<Rightarrow> code_buffer" where
  "emit_load_store_unsigned sz op rt rn byte_offset =
     (let access = mem_access_bytes sz
      in insn (load_store_register_unsigned_immediate sz False op (byte_offset div access) rn rt))"

definition emit_load_store_register_offset ::
  "mem_op_size \<Rightarrow> mem_op \<Rightarrow> register_id \<Rightarrow> register_id \<Rightarrow> register_id \<Rightarrow> extend_type \<Rightarrow> bool
   \<Rightarrow> code_buffer \<Rightarrow> code_buffer" where
  "emit_load_store_register_offset sz op rt rn rm ext s =
     insn (load_store_register_register_offset sz False op rm ext s rn rt)"

subsection \<open>Branches\<close>

definition emit_b :: "i32 \<Rightarrow> code_buffer \<Rightarrow> code_buffer" where
  "emit_b imm26 = insn (unconditional_branch_immediate False imm26)"

definition emit_bl :: "i32 \<Rightarrow> code_buffer \<Rightarrow> code_buffer" where
  "emit_bl imm26 = insn (unconditional_branch_immediate True imm26)"

definition emit_b_cond :: "arm_condition \<Rightarrow> i32 \<Rightarrow> code_buffer \<Rightarrow> code_buffer" where
  "emit_b_cond cond imm19 = insn (conditional_branch_immediate imm19 cond)"

definition emit_blr :: "register_id \<Rightarrow> code_buffer \<Rightarrow> code_buffer" where
  "emit_blr rn = insn (unconditional_branch_register BranchType_Call rn)"

definition emit_br :: "register_id \<Rightarrow> code_buffer \<Rightarrow> code_buffer" where
  "emit_br rn = insn (unconditional_branch_register BranchType_Jmp rn)"

definition emit_ret_reg :: "register_id \<Rightarrow> code_buffer \<Rightarrow> code_buffer" where
  "emit_ret_reg rn = insn (unconditional_branch_register BranchType_Ret rn)"

definition emit_ret :: "code_buffer \<Rightarrow> code_buffer" where
  "emit_ret = emit_ret_reg Lr"

definition emit_nop :: "code_buffer \<Rightarrow> code_buffer" where
  "emit_nop = insn nop_pseudo"

subsection \<open>Floating point\<close>

definition emit_fmov_double :: "fp_register_id \<Rightarrow> fp_register_id \<Rightarrow> code_buffer \<Rightarrow> code_buffer" where
  "emit_fmov_double rd rn = insn (floating_point_data_processing_1_source D64 FpDataOp1_Fmov rn rd)"

definition emit_fadd_double ::
  "fp_register_id \<Rightarrow> fp_register_id \<Rightarrow> fp_register_id \<Rightarrow> code_buffer \<Rightarrow> code_buffer" where
  "emit_fadd_double rd rn rm =
     insn (floating_point_data_processing_2_source D64 rm FpDataOp2_FAdd rn rd)"

definition emit_fsub_double ::
  "fp_register_id \<Rightarrow> fp_register_id \<Rightarrow> fp_register_id \<Rightarrow> code_buffer \<Rightarrow> code_buffer" where
  "emit_fsub_double rd rn rm =
     insn (floating_point_data_processing_2_source D64 rm FpDataOp2_FSub rn rd)"

definition emit_fmul_double ::
  "fp_register_id \<Rightarrow> fp_register_id \<Rightarrow> fp_register_id \<Rightarrow> code_buffer \<Rightarrow> code_buffer" where
  "emit_fmul_double rd rn rm =
     insn (floating_point_data_processing_2_source D64 rm FpDataOp2_FMul rn rd)"

definition emit_fdiv_double ::
  "fp_register_id \<Rightarrow> fp_register_id \<Rightarrow> fp_register_id \<Rightarrow> code_buffer \<Rightarrow> code_buffer" where
  "emit_fdiv_double rd rn rm =
     insn (floating_point_data_processing_2_source D64 rm FpDataOp2_FDiv rn rd)"

definition emit_scvtf_int32_to_double ::
  "fp_register_id \<Rightarrow> register_id \<Rightarrow> code_buffer \<Rightarrow> code_buffer" where
  "emit_scvtf_int32_to_double vd rn =
     insn (floating_point_integer_conversions D32 D64 FpIntConv_Scvtf (reg_value rn) (fp_value vd))"

definition emit_fmov_double_to_gpr ::
  "register_id \<Rightarrow> fp_register_id \<Rightarrow> code_buffer \<Rightarrow> code_buffer" where
  "emit_fmov_double_to_gpr rd vn =
     insn (floating_point_integer_conversions D64 D64 FpIntConv_FmovFpToGpr (fp_value vn)
             (reg_value rd))"

definition emit_fmov_gpr_to_double ::
  "fp_register_id \<Rightarrow> register_id \<Rightarrow> code_buffer \<Rightarrow> code_buffer" where
  "emit_fmov_gpr_to_double vd rn =
     insn (floating_point_integer_conversions D64 D64 FpIntConv_FmovGprToFp (reg_value rn)
             (fp_value vd))"

end
