(* ===== verification/Arm64_Isa.thy ===== *)
theory Arm64_Isa
  imports Arm64_Encoder
begin

text \<open>
  The specification the assembler is verified against: the instructions of the architecture
  that \<open>assembler/arm64_encoder.rs\<close> can produce, as a datatype; a decoder from 32-bit words,
  written from the field layout of the instruction set and not from the packing functions; and
  the effect of each instruction on a machine with general and floating-point registers,
  flags, memory and a program counter.  Nothing in this theory models code of the repository:
  it states the documented meaning of the words the code emits.  Floating-point addition and its
  siblings are a field \<open>fp_unit\<close> of the machine that no instruction changes, so every statement
  holds for every arithmetic unit.
\<close>

section \<open>Instructions\<close>

datatype pair_mode = PostIndex | PreIndex | SignedOffset

datatype a64 =
    AddSubImm datasize add_op set_flags bool "12 word" register_id register_id
  | AddSubShifted datasize add_op set_flags shift_type register_id "6 word" register_id register_id
  | AddSubExtended datasize add_op set_flags register_id extend_type "3 word" register_id register_id
  | LogicalShifted datasize logical_op shift_type bool register_id "6 word" register_id register_id
  | MoveWide datasize move_wide_op "2 word" "16 word" register_id
  | BitfieldMove datasize bitfield_op "6 word" "6 word" register_id register_id
  | DataProc2 datasize register_id data_op2_source register_id register_id
  | DataProc3 datasize data_op3_source register_id register_id register_id register_id
  | LoadStoreUnsigned mem_op_size mem_op "12 word" register_id register_id
  | LoadStoreUnscaled mem_op_size mem_op "9 word" register_id register_id
  | LoadStoreRegister mem_op_size mem_op register_id extend_type bool register_id register_id
  | LoadStorePair pair_mode mem_pair_op_size mem_op "7 word" register_id register_id register_id
  | Branch bool "26 word"
  | BranchCond "19 word" arm_condition
  | BranchRegister branch_type register_id
  | Nop
  | FpMove fp_register_id fp_register_id
  | FpArith fp_data_op2_source fp_register_id fp_register_id fp_register_id
  | FpFromInt32 register_id fp_register_id
  | FpToGpr fp_register_id register_id
  | FpFromGpr register_id fp_register_id

section \<open>Decoding\<close>

definition bits_at :: "nat \<Rightarrow> nat \<Rightarrow> u32 \<Rightarrow> u32" where
  "bits_at lo len w = take_bit len (drop_bit lo w)"

text \<open>Field 31 of a register operand is the zero register or the stack pointer, depending on
the operand.\<close>

definition reg_sp :: "u32 \<Rightarrow> register_id" where
  "reg_sp f = gprs ! unat f"

definition reg_zr :: "u32 \<Rightarrow> register_id" where
  "reg_zr f = (if f = 31 then Zr else gprs ! unat f)"

definition reg_fp :: "u32 \<Rightarrow> fp_register_id" where
  "reg_fp f = fprs ! unat f"

definition dec_datasize :: "u32 \<Rightarrow> datasize" where
  "dec_datasize f = (if f = 0 then D32 else D64)"

definition dec_add_op :: "u32 \<Rightarrow> add_op" where
  "dec_add_op f = (if f = 0 then AddOp_Add else AddOp_Sub)"

definition dec_set_flags :: "u32 \<Rightarrow> set_flags" where
  "dec_set_flags f = (if f = 0 then SetFlags_DontSetFlags else SetFlags_S)"

definition dec_shift_type :: "u32 \<Rightarrow> shift_type" where
  "dec_shift_type f = [ShiftType_Lsl, ShiftType_Lsr, ShiftType_Asr, ShiftType_Ror] ! unat f"

definition dec_extend_type :: "u32 \<Rightarrow> extend_type" where
  "dec_extend_type f =
     [ExtendType_Uxtb, ExtendType_Uxth, ExtendType_Uxtw, ExtendType_Uxtx,
      ExtendType_Sxtb, ExtendType_Sxth, ExtendType_Sxtw, ExtendType_Sxtx] ! unat f"

definition dec_logical_op :: "u32 \<Rightarrow> logical_op" where
  "dec_logical_op f = [LogicalOp_And, LogicalOp_Orr, LogicalOp_Eor, LogicalOp_Ands] ! unat f"

definition dec_mem_op_size :: "u32 \<Rightarrow> mem_op_size" where
  "dec_mem_op_size f = [Size8Or128, Size16, Size32, Size64] ! unat f"

definition dec_mem_op :: "u32 \<Rightarrow> mem_op" where
  "dec_mem_op f = (if f = 0 then MemOp_Store else MemOp_Load)"

definition dec_condition :: "u32 \<Rightarrow> arm_condition" where
  "dec_condition f =
     [Cond_Eq, Cond_Ne, Cond_Hs, Cond_Lo, Cond_Mi, Cond_Pl, Cond_Vs, Cond_Vc,
      Cond_Hi, Cond_Ls, Cond_Ge, Cond_Lt, Cond_Gt, Cond_Le, Cond_Al, Cond_Invalid] ! unat f"

definition dec_move_wide_op :: "u32 \<Rightarrow> move_wide_op option" where
  "dec_move_wide_op f =
     (if f = 0 then Some MoveWideOp_N else if f = 2 then Some MoveWideOp_Z
      else if f = 3 then Some MoveWideOp_K else None)"

definition dec_bitfield_op :: "u32 \<Rightarrow> bitfield_op option" where
  "dec_bitfield_op f =
     (if f = 0 then Some BitfieldOp_Sbfm else if f = 2 then Some BitfieldOp_Ubfm else None)"

definition dec_data_op2 :: "u32 \<Rightarrow> data_op2_source option" where
  "dec_data_op2 f =
     (if f = 8 then Some DataOp2_Lslv else if f = 9 then Some DataOp2_Lsrv
      else if f = 10 then Some DataOp2_Asrv else None)"

text \<open>The two bits above the operands (\<open>op31\<close>) and bit 15 (\<open>o0\<close>) of a three-source word.\<close>

definition dec_data_op3 :: "u32 \<Rightarrow> u32 \<Rightarrow> data_op3_source option" where
  "dec_data_op3 op31 o0 =
     (if op31 = 0 then Some (if o0 = 0 then DataOp3_Madd else DataOp3_Msub)
      else if op31 = 1 then Some (if o0 = 0 then DataOp3_Smaddl else DataOp3_Smsubl)
      else if op31 = 2 \<and> o0 = 0 then Some DataOp3_Smulh
      else if op31 = 5 then Some (if o0 = 0 then DataOp3_Umaddl else DataOp3_Umsubl)
      else if op31 = 6 \<and> o0 = 0 then Some DataOp3_Umulh else None)"

definition dec_branch_type :: "u32 \<Rightarrow> branch_type option" where
  "dec_branch_type f =
     (if f = 0 then Some BranchType_Jmp else if f = 1 then Some BranchType_Call
      else if f = 2 then Some BranchType_Ret else None)"

definition dec_pair_mode :: "u32 \<Rightarrow> pair_mode option" where
  "dec_pair_mode f =
     (if f = 0x51 then Some PostIndex else if f = 0x53 then Some PreIndex
      else if f = 0x52 then Some SignedOffset else None)"

definition dec_pair_size :: "u32 \<Rightarrow> mem_pair_op_size option" where
  "dec_pair_size f = (if f = 0 then Some Pair32 else if f = 2 then Some Pair64 else None)"

definition dec_fp_op2 :: "u32 \<Rightarrow> fp_data_op2_source option" where
  "dec_fp_op2 f =
     (if f < 9 then
        Some ([FpDataOp2_FMul, FpDataOp2_FDiv, FpDataOp2_FAdd, FpDataOp2_FSub, FpDataOp2_FMax,
               FpDataOp2_FMin, FpDataOp2_FMaxnm, FpDataOp2_FMinnm, FpDataOp2_FNmul] ! unat f)
      else None)"

text \<open>The groups: data processing with immediates, with registers, loads and stores,
branches, floating point.\<close>

definition decode_immediate :: "u32 \<Rightarrow> a64 option" where
  "decode_immediate w =
     (let sf = dec_datasize (bits_at 31 1 w); rn = bits_at 5 5 w; rd = bits_at 0 5 w
      in if bits_at 23 6 w = 0x22 then
           (let s = dec_set_flags (bits_at 29 1 w)
            in Some (AddSubImm sf (dec_add_op (bits_at 30 1 w)) s (bits_at 22 1 w = 1)
                       (ucast (bits_at 10 12 w)) (reg_sp rn)
                       (if s = SetFlags_S then reg_zr rd else reg_sp rd)))
         else if bits_at 23 6 w = 0x25 then
           (if sf = D32 \<and> 2 \<le> bits_at 21 2 w then None
            else map_option (\<lambda>op. MoveWide sf op (ucast (bits_at 21 2 w)) (ucast (bits_at 5 16 w))
                                    (reg_zr rd))
                   (dec_move_wide_op (bits_at 29 2 w)))
         else if bits_at 23 6 w = 0x26 \<and> bits_at 22 1 w = bits_at 31 1 w then
           map_option (\<lambda>op. BitfieldMove sf op (ucast (bits_at 16 6 w)) (ucast (bits_at 10 6 w))
                              (reg_zr rn) (reg_zr rd))
             (dec_bitfield_op (bits_at 29 2 w))
         else None)"

definition decode_register :: "u32 \<Rightarrow> a64 option" where
  "decode_register w =
     (let sf = dec_datasize (bits_at 31 1 w); rm = reg_zr (bits_at 16 5 w);
          rn = bits_at 5 5 w; rd = bits_at 0 5 w;
          op = dec_add_op (bits_at 30 1 w); s = dec_set_flags (bits_at 29 1 w)
      in if bits_at 24 5 w = 0x0b \<and> bits_at 21 1 w = 0 then
           Some (AddSubShifted sf op s (dec_shift_type (bits_at 22 2 w)) rm
                   (ucast (bits_at 10 6 w)) (reg_zr rn) (reg_zr rd))
         else if bits_at 24 5 w = 0x0b \<and> bits_at 21 3 w = 1 then
           Some (AddSubExtended sf op s rm (dec_extend_type (bits_at 13 3 w))
                   (ucast (bits_at 10 3 w)) (reg_sp rn)
                   (if s = SetFlags_S then reg_zr rd else reg_sp rd))
         else if bits_at 24 5 w = 0x0a then
           Some (LogicalShifted sf (dec_logical_op (bits_at 29 2 w))
                   (dec_shift_type (bits_at 22 2 w)) (bits_at 21 1 w = 1) rm
                   (ucast (bits_at 10 6 w)) (reg_zr rn) (reg_zr rd))
         else if bits_at 21 10 w = 0x0d6 then
           map_option (\<lambda>op. DataProc2 sf rm op (reg_zr rn) (reg_zr rd))
             (dec_data_op2 (bits_at 10 6 w))
         else if bits_at 24 7 w = 0x1b then
           map_option (\<lambda>op. DataProc3 sf op rm (reg_zr (bits_at 10 5 w)) (reg_zr rn) (reg_zr rd))
             (dec_data_op3 (bits_at 21 3 w) (bits_at 15 1 w))
         else None)"

definition decode_load_store :: "u32 \<Rightarrow> a64 option" where
  "decode_load_store w =
     (let sz = dec_mem_op_size (bits_at 30 2 w); opc = dec_mem_op (bits_at 22 1 w);
          rn = reg_sp (bits_at 5 5 w); rt = reg_zr (bits_at 0 5 w)
      in if bits_at 23 7 w = 0x72 then
           Some (LoadStoreUnsigned sz opc (ucast (bits_at 10 12 w)) rn rt)
         else if bits_at 23 7 w = 0x70 \<and> bits_at 21 1 w = 0 \<and> bits_at 10 2 w = 0 then
           Some (LoadStoreUnscaled sz opc (ucast (bits_at 12 9 w)) rn rt)
         else if bits_at 23 7 w = 0x70 \<and> bits_at 21 1 w = 1 \<and> bits_at 10 2 w = 2 then
           Some (LoadStoreRegister sz opc (reg_zr (bits_at 16 5 w))
                   (dec_extend_type (bits_at 13 3 w)) (bits_at 12 1 w = 1) rn rt)
         else do {
           mode \<leftarrow> dec_pair_mode (bits_at 23 7 w);
           psz \<leftarrow> dec_pair_size (bits_at 30 2 w);
           Some (LoadStorePair mode psz opc (ucast (bits_at 15 7 w)) rn rt
                   (reg_zr (bits_at 10 5 w)))
         })"

definition decode_branch :: "u32 \<Rightarrow> a64 option" where
  "decode_branch w =
     (if bits_at 26 5 w = 5 then Some (Branch (bits_at 31 1 w = 1) (ucast (bits_at 0 26 w)))
      else if bits_at 24 8 w = 0x54 \<and> bits_at 4 1 w = 0 then
        Some (BranchCond (ucast (bits_at 5 19 w)) (dec_condition (bits_at 0 4 w)))
      else if bits_at 25 7 w = 0x6b \<and> bits_at 10 11 w = 0x7c0 \<and> bits_at 0 5 w = 0 then
        map_option (\<lambda>t. BranchRegister t (reg_zr (bits_at 5 5 w)))
          (dec_branch_type (bits_at 21 4 w))
      else if w = 0xd503201f then Some Nop
      else None)"

definition decode_fp :: "u32 \<Rightarrow> a64 option" where
  "decode_fp w =
     (let rn = bits_at 5 5 w; rd = bits_at 0 5 w
      in if bits_at 21 11 w = 0x0f3 \<and> bits_at 10 2 w = 2 then
           map_option (\<lambda>op. FpArith op (reg_fp (bits_at 16 5 w)) (reg_fp rn) (reg_fp rd))
             (dec_fp_op2 (bits_at 12 4 w))
         else if bits_at 10 22 w = 0x079810 then Some (FpMove (reg_fp rn) (reg_fp rd))
         else if bits_at 10 22 w = 0x079880 then Some (FpFromInt32 (reg_zr rn) (reg_fp rd))
         else if bits_at 10 22 w = 0x279980 then Some (FpToGpr (reg_fp rn) (reg_zr rd))
         else if bits_at 10 22 w = 0x2799c0 then Some (FpFromGpr (reg_zr rn) (reg_fp rd))
         else None)"

definition decode :: "u32 \<Rightarrow> a64 option" where
  "decode w =
     (if bits_at 26 3 w = 4 then decode_immediate w
      else if bits_at 26 3 w = 5 then decode_branch w
      else if bits_at 27 1 w = 1 \<and> bits_at 25 1 w = 0 then decode_load_store w
      else if bits_at 25 3 w = 5 then decode_register w
      else if bits_at 25 3 w = 7 then decode_fp w
      else None)"

section \<open>Encoding through the packing functions\<close>

text \<open>\<open>encode\<close> says which packing function of the assembler produces an instruction, and
\<open>legal\<close> which operands an instruction can have: a 32- or 64-bit size, and the zero register and
the stack pointer only where field 31 stands for them.\<close>

definition pair_word ::
  "pair_mode \<Rightarrow> mem_pair_op_size \<Rightarrow> mem_op \<Rightarrow> i32 \<Rightarrow> register_id \<Rightarrow> register_id \<Rightarrow> register_id \<Rightarrow> u32" where
  "pair_word mode =
     (case mode of
        PostIndex \<Rightarrow> (\<lambda>z. load_store_register_pair_post_index z False)
      | PreIndex \<Rightarrow> (\<lambda>z. load_store_register_pair_pre_index z False)
      | SignedOffset \<Rightarrow> (\<lambda>z. load_store_register_pair_offset z False))"

definition pair_shift :: "mem_pair_op_size \<Rightarrow> nat" where
  "pair_shift z = (if z = Pair64 then 3 else 2)"

fun encode :: "a64 \<Rightarrow> u32" where
  "encode (AddSubImm sf op s sh imm rn rd) = add_subtract_immediate sf op s sh (ucast imm) rn rd"
| "encode (AddSubShifted sf op s sh rm imm rn rd) =
     add_subtract_shifted_register sf op s sh rm (ucast imm) rn rd"
| "encode (AddSubExtended sf op s rm ext imm rn rd) =
     add_subtract_extended_register sf op s rm ext (ucast imm) rn rd"
| "encode (LogicalShifted sf op sh n rm imm rn rd) =
     logical_shifted_register sf op sh n rm (ucast imm) rn rd"
| "encode (MoveWide sf op hw imm rd) = move_wide_immediate sf op (ucast hw) imm rd"
| "encode (BitfieldMove sf op immr imms rn rd) =
     bitfield_word sf op (ucast immr) (ucast imms) rn rd"
| "encode (DataProc2 sf rm op rn rd) = data_processing_2_source sf rm op rn rd"
| "encode (DataProc3 sf op rm ra rn rd) = data_processing_3_source sf op rm ra rn rd"
| "encode (LoadStoreUnsigned z op imm rn rt) =
     load_store_register_unsigned_immediate z False op (ucast imm) rn rt"
| "encode (LoadStoreUnscaled z op imm rn rt) =
     load_store_register_unscaled_immediate z False op (scast imm) rn rt"
| "encode (LoadStoreRegister z op rm ext s rn rt) =
     load_store_register_register_offset z False op rm ext s rn rt"
| "encode (LoadStorePair mode z op imm rn rt rt2) =
     pair_word mode z op (push_bit (pair_shift z) (scast imm)) rn rt rt2"
| "encode (Branch link imm) = unconditional_branch_immediate link (scast imm)"
| "encode (BranchCond imm c) = conditional_branch_immediate (scast imm) c"
| "encode (BranchRegister t rn) = unconditional_branch_register t rn"
| "encode Nop = nop_pseudo"
| "encode (FpMove rn rd) = floating_point_data_processing_1_source D64 FpDataOp1_Fmov rn rd"
| "encode (FpArith op rm rn rd) = floating_point_data_processing_2_source D64 rm op rn rd"
| "encode (FpFromInt32 rn rd) =
     floating_point_integer_conversions D32 D64 FpIntConv_Scvtf (reg_value rn) (fp_value rd)"
| "encode (FpToGpr rn rd) =
     floating_point_integer_conversions D64 D64 FpIntConv_FmovFpToGpr (fp_value rn) (reg_value rd)"
| "encode (FpFromGpr rn rd) =
     floating_point_integer_conversions D64 D64 FpIntConv_FmovGprToFp (reg_value rn) (fp_value rd)"

definition gpr_size :: "datasize \<Rightarrow> bool" where
  "gpr_size sf \<longleftrightarrow> sf = D32 \<or> sf = D64"

text \<open>The destination of an immediate or extended addition is the stack pointer unless the
flags are set.\<close>

definition legal_rd :: "set_flags \<Rightarrow> register_id \<Rightarrow> bool" where
  "legal_rd s rd = (if s = SetFlags_S then rd \<noteq> Sp else rd \<noteq> Zr)"

fun legal :: "a64 \<Rightarrow> bool" where
  "legal (AddSubImm sf op s sh imm rn rd) = (gpr_size sf \<and> rn \<noteq> Zr \<and> legal_rd s rd)"
| "legal (AddSubShifted sf op s sh rm imm rn rd) =
     (gpr_size sf \<and> rm \<noteq> Sp \<and> rn \<noteq> Sp \<and> rd \<noteq> Sp)"
| "legal (AddSubExtended sf op s rm ext imm rn rd) =
     (gpr_size sf \<and> rm \<noteq> Sp \<and> rn \<noteq> Zr \<and> legal_rd s rd)"
| "legal (LogicalShifted sf op sh n rm imm rn rd) =
     (gpr_size sf \<and> rm \<noteq> Sp \<and> rn \<noteq> Sp \<and> rd \<noteq> Sp)"
| "legal (MoveWide sf op hw imm rd) = ((sf = D32 \<and> hw < 2 \<or> sf = D64) \<and> rd \<noteq> Sp)"
| "legal (BitfieldMove sf op immr imms rn rd) = (gpr_size sf \<and> rn \<noteq> Sp \<and> rd \<noteq> Sp)"
| "legal (DataProc2 sf rm op rn rd) = (gpr_size sf \<and> rm \<noteq> Sp \<and> rn \<noteq> Sp \<and> rd \<noteq> Sp)"
| "legal (DataProc3 sf op rm ra rn rd) =
     (gpr_size sf \<and> rm \<noteq> Sp \<and> ra \<noteq> Sp \<and> rn \<noteq> Sp \<and> rd \<noteq> Sp)"
| "legal (LoadStoreUnsigned z op imm rn rt) = (rn \<noteq> Zr \<and> rt \<noteq> Sp)"
| "legal (LoadStoreUnscaled z op imm rn rt) = (rn \<noteq> Zr \<and> rt \<noteq> Sp)"
| "legal (LoadStoreRegister z op rm ext s rn rt) = (rm \<noteq> Sp \<and> rn \<noteq> Zr \<and> rt \<noteq> Sp)"
| "legal (LoadStorePair mode z op imm rn rt rt2) =
     (z \<noteq> PairLoadSigned32 \<and> rn \<noteq> Zr \<and> rt \<noteq> Sp \<and> rt2 \<noteq> Sp)"
| "legal (BranchRegister t rn) = (rn \<noteq> Sp)"
| "legal (FpFromInt32 rn rd) = (rn \<noteq> Sp)"
| "legal (FpToGpr rn rd) = (rd \<noteq> Sp)"
| "legal (FpFromGpr rn rd) = (rn \<noteq> Sp)"
| "legal _ = True"

end
