(* ===== verification/Arm64_Decode.thy ===== *)
theory Arm64_Decode
  imports Arm64_Isa
begin

text \<open>
  Every word the packing functions of \<open>assembler/arm64_encoder.rs\<close> build for operands that the
  instruction can have is read back by the decoder of the specification as that instruction
  with those operands, and the little-endian bytes of emitted words are fetched back as those
  words.
\<close>

section \<open>Fields of packed words\<close>

named_theorems field_simps \<open>rewrite rules that read a field of a packed word\<close>

text \<open>\<open>fits n x\<close>: the value \<open>x\<close> of a field needs no more than \<open>n\<close> bits.\<close>

definition fits :: "nat \<Rightarrow> u32 \<Rightarrow> bool" where
  "fits n x \<longleftrightarrow> take_bit n x = x"

lemma fits_bit: "fits n x \<Longrightarrow> bit x k \<Longrightarrow> k < n"
  unfolding fits_def by (metis bit_take_bit_iff)

lemma bits_at_or [field_simps]: "bits_at lo len (a OR b) = bits_at lo len a OR bits_at lo len b"
  by (simp add: bits_at_def)

lemma bits_at_zero [field_simps]: "bits_at lo len 0 = 0"
  by (simp add: bits_at_def)

lemma bits_at_word_of_int:
  "bits_at lo len (word_of_int i) = word_of_int (i mod 2 ^ 32 div 2 ^ lo mod 2 ^ len)"
proof -
  have "uint (bits_at lo len (word_of_int i)) = i mod 2 ^ 32 div 2 ^ lo mod 2 ^ len"
    unfolding bits_at_def unsigned_take_bit_eq unsigned_drop_bit_eq
    by (simp add: uint_word_of_int take_bit_eq_mod drop_bit_eq_div)
  then show ?thesis by (metis word_of_int_uint)
qed

lemma bits_at_numeral [field_simps]:
  "bits_at lo len (numeral k) = word_of_int (numeral k mod 2 ^ 32 div 2 ^ lo mod 2 ^ len)"
  using bits_at_word_of_int [of lo len "numeral k"] by (simp only: of_int_numeral)

lemma bits_at_one [field_simps]:
  "bits_at lo len 1 = word_of_int (1 div 2 ^ lo mod 2 ^ len)"
  using bits_at_word_of_int [of lo len 1] by simp

lemma bits_at_push:
  assumes "fits n x"
  shows "bits_at lo len (push_bit k x) =
    (if k + n \<le> lo \<or> lo + len \<le> k then 0
     else if k = lo \<and> n \<le> len \<and> k + n \<le> 32 then x
     else take_bit len (drop_bit lo (push_bit k x)))"
  by (rule bit_eqI) (auto simp: bits_at_def bit_simps dest: fits_bit [OF assms])

lemma bits_at_plain:
  assumes "fits n x"
  shows "bits_at lo len x =
    (if n \<le> lo then 0 else if lo = 0 \<and> n \<le> len then x else take_bit len (drop_bit lo x))"
  by (rule bit_eqI) (auto simp: bits_at_def bit_simps dest: fits_bit [OF assms])

lemma fits_ucast [simp]: "LENGTH('a::len) \<le> n \<Longrightarrow> fits n (ucast (x :: 'a word))"
  unfolding fits_def by (rule bit_eqI) (auto simp: bit_simps dest: bit_imp_le_length)

lemma fits_of_bool: "fits 1 (of_bool b)"
  by (cases b) (simp_all add: fits_def)

lemma fits_x_or_zr: "fits 5 (x_or_zr r)"
  by (cases r) (simp_all add: fits_def x_or_zr_def)

lemma fits_fp_value: "fits 5 (fp_value r)"
  by (cases r) (simp_all add: fits_def)

lemma fits_add_op: "fits 1 (add_op_u32 x)"
  by (cases x) (simp_all add: fits_def)

lemma fits_set_flags: "fits 1 (set_flags_u32 x)"
  by (cases x) (simp_all add: fits_def)

lemma fits_shift_type: "fits 2 (shift_type_u32 x)"
  by (cases x) (simp_all add: fits_def)

lemma fits_extend_type: "fits 3 (extend_type_u32 x)"
  by (cases x) (simp_all add: fits_def)

lemma fits_logical_op: "fits 2 (logical_op_u32 x)"
  by (cases x) (simp_all add: fits_def)

lemma fits_mem_op_size: "fits 2 (mem_op_size_u32 x)"
  by (cases x) (simp_all add: fits_def)

lemma fits_mem_op: "fits 1 (mem_op_u32 x)"
  by (cases x) (simp_all add: fits_def)

lemma fits_arm_condition: "fits 4 (arm_condition_u32 x)"
  by (cases x) (simp_all add: fits_def)

lemma fits_move_wide_op: "fits 2 (move_wide_op_u32 x)"
  by (cases x) (simp_all add: fits_def)

lemma fits_bitfield_op: "fits 2 (bitfield_op_u32 x)"
  by (cases x) (simp_all add: fits_def)

lemma fits_data_op2_source: "fits 4 (data_op2_source_u32 x)"
  by (cases x) (simp_all add: fits_def)

lemma fits_branch_type: "fits 2 (branch_type_u32 x)"
  by (cases x) (simp_all add: fits_def)

lemma fits_mem_pair_op_size: "fits 2 (mem_pair_op_size_u32 x)"
  by (cases x) (simp_all add: fits_def)

lemma fits_fp_data_op2_source: "fits 4 (fp_data_op2_source_u32 x)"
  by (cases x) (simp_all add: fits_def)

lemmas fits_fields =
  fits_of_bool fits_x_or_zr fits_fp_value fits_add_op fits_set_flags fits_shift_type
  fits_extend_type fits_logical_op fits_mem_op_size fits_mem_op
  fits_arm_condition fits_move_wide_op fits_bitfield_op fits_data_op2_source fits_branch_type
  fits_mem_pair_op_size fits_fp_data_op2_source

lemmas field_pushes [field_simps] = fits_fields [THEN bits_at_push]

lemmas field_plains [field_simps] = fits_fields [THEN bits_at_plain]

section \<open>Decoding what was encoded\<close>

lemma x_or_zr_value: "r \<noteq> Zr \<Longrightarrow> x_or_zr r = reg_value r"
  by (cases r) (simp_all add: x_or_zr_def)

lemma x_or_zr_Zr: "x_or_zr Zr = 31"
  by (simp add: x_or_zr_def)

lemma x_or_sp_zr: "r \<noteq> Zr \<Longrightarrow> x_or_sp r = x_or_zr r"
  by (simp add: x_or_sp_def x_or_zr_value)

lemma reg_sp_field: "r \<noteq> Zr \<Longrightarrow> reg_sp (x_or_zr r) = r"
  by (simp add: reg_sp_def x_or_zr_value)

lemma reg_zr_field: "r \<noteq> Sp \<Longrightarrow> reg_zr (x_or_zr r) = r"
proof (cases "r = Zr")
  case False
  assume "r \<noteq> Sp"
  then have "reg_value r \<noteq> reg_value Sp" unfolding reg_value_inject .
  with False show ?thesis by (simp add: reg_zr_def x_or_zr_value)
qed (simp add: x_or_zr_Zr reg_zr_def)

lemma reg_fp_field: "reg_fp (fp_value r) = r"
  by (simp add: reg_fp_def)

lemma rd_field:
  "legal_rd s rd \<Longrightarrow> x_or_zr_or_sp (set_flags_u32 s \<noteq> 0) rd = x_or_zr rd"
  "legal_rd s rd \<Longrightarrow>
     (if s = SetFlags_S then reg_zr (x_or_zr rd) else reg_sp (x_or_zr rd)) = rd"
  by (cases s; simp add: legal_rd_def x_or_zr_or_sp_def x_or_sp_zr reg_sp_field reg_zr_field)+

lemma dec_add_op: "dec_add_op (add_op_u32 x) = x"
  by (cases x) (simp_all add: dec_add_op_def)

lemma dec_set_flags: "dec_set_flags (set_flags_u32 x) = x"
  by (cases x) (simp_all add: dec_set_flags_def)

lemma dec_mem_op: "dec_mem_op (mem_op_u32 x) = x"
  by (cases x) (simp_all add: dec_mem_op_def)

lemma dec_shift_type: "dec_shift_type (shift_type_u32 x) = x"
  by (cases x) (simp_all add: dec_shift_type_def)

lemma dec_extend_type: "dec_extend_type (extend_type_u32 x) = x"
  by (cases x) (simp_all add: dec_extend_type_def)

lemma dec_logical_op: "dec_logical_op (logical_op_u32 x) = x"
  by (cases x) (simp_all add: dec_logical_op_def)

lemma dec_mem_op_size: "dec_mem_op_size (mem_op_size_u32 x) = x"
  by (cases x) (simp_all add: dec_mem_op_size_def)

lemma dec_condition: "dec_condition (arm_condition_u32 x) = x"
  by (cases x) (simp_all add: dec_condition_def)

lemma dec_move_wide_op: "dec_move_wide_op (move_wide_op_u32 x) = Some x"
  by (cases x) (simp_all add: dec_move_wide_op_def)

lemma dec_bitfield_op: "dec_bitfield_op (bitfield_op_u32 x) = Some x"
  by (cases x) (simp_all add: dec_bitfield_op_def)

lemma dec_data_op2: "dec_data_op2 (data_op2_source_u32 x) = Some x"
  by (cases x) (simp_all add: dec_data_op2_def)

lemma dec_branch_type: "dec_branch_type (branch_type_u32 x) = Some x"
  by (cases x) (simp_all add: dec_branch_type_def)

lemma dec_fp_op2: "dec_fp_op2 (fp_data_op2_source_u32 x) = Some x"
  by (cases x) (simp_all add: dec_fp_op2_def)

lemmas dec_fields =
  reg_sp_field reg_zr_field reg_fp_field dec_add_op dec_set_flags dec_mem_op dec_shift_type dec_extend_type
  dec_logical_op dec_mem_op_size dec_condition dec_move_wide_op dec_bitfield_op dec_data_op2
  dec_branch_type dec_fp_op2

text \<open>An immediate that is masked to its field.\<close>

lemma ucast_and_mask: "LENGTH('a) \<le> n \<Longrightarrow> ucast (x :: 'a::len word) AND mask n = (ucast x :: u32)"
  by (rule bit_eqI) (auto simp: bit_simps dest: bit_imp_le_length)

lemma scast_and_mask:
  assumes "LENGTH('a) = n" shows "scast (x :: 'a::len word) AND mask n = (ucast x :: u32)"
proof (rule bit_eqI)
  fix k
  have "k < LENGTH('a) \<Longrightarrow> \<not> k < LENGTH('a) - 1 \<Longrightarrow> k = LENGTH('a) - 1" by linarith
  then show "bit (scast x AND mask n :: u32) k = bit (ucast x :: u32) k"
    using assms by (cases "k < LENGTH('a) - 1") (auto simp: bit_simps dest: bit_imp_le_length)
qed

text \<open>The arithmetic shift of a pair offset undoes its scaling, in the bits of the field.\<close>

lemma pair_shift_mask:
  "k + m < 32 \<Longrightarrow> signed_drop_bit k (push_bit k (y :: u32)) AND mask m = y AND mask m"
  by (rule bit_eqI) (auto simp: bit_simps)

lemma pair_field:
  "signed_drop_bit 2 (push_bit 2 (scast (i7 :: 7 word))) AND (127 :: u32) = ucast i7"
  "signed_drop_bit 3 (push_bit 3 (scast (i7 :: 7 word))) AND (127 :: u32) = ucast i7"
  using scast_and_mask [of 7 i7] pair_shift_mask [of 2 7 "scast i7"]
    pair_shift_mask [of 3 7 "scast i7"]
  by (simp_all add: mask_eq_exp_minus_1)

lemma fp_value_and: "fp_value r AND 31 = fp_value r"
  by (cases r) simp_all

lemma mask_fields:
  "ucast (i3 :: 3 word) AND (7 :: u32) = ucast i3"
  "ucast (i6 :: 6 word) AND (63 :: u32) = ucast i6"
  "ucast (i12 :: 12 word) AND (4095 :: u32) = ucast i12"
  "scast (i9 :: 9 word) AND (511 :: u32) = ucast i9"
  "scast (i19 :: 19 word) AND (524287 :: u32) = ucast i19"
  "scast (i26 :: 26 word) AND (67108863 :: u32) = ucast i26"
  using ucast_and_mask [of 3 i3] ucast_and_mask [of 6 i6] ucast_and_mask [of 12 i12]
    scast_and_mask [of 9 i9] scast_and_mask [of 19 i19] scast_and_mask [of 26 i26]
  by (simp_all add: mask_eq_exp_minus_1)


lemmas ucast_fields [field_simps] =
  order_refl [THEN fits_ucast, THEN bits_at_push] order_refl [THEN fits_ucast, THEN bits_at_plain]

lemma narrow_field [field_simps]:
  "LENGTH('a::len) \<le> 32 \<Longrightarrow> (ucast (ucast (x :: 'a word) :: u32) :: 'a word) = x"
  by (rule bit_eqI) (auto simp: bit_simps)

text \<open>One rewriting of the whole decoder: the fields of the packed word are read, the tests of
the decoder are decided and the fields turned back into operands.\<close>

lemmas decode_groups =
  decode_def decode_immediate_def decode_register_def decode_load_store_def decode_branch_def
  decode_fp_def

lemmas read_fields = Let_def mask_fields field_simps dec_fields dec_datasize_def

lemma gpr_sizeE [elim]: "gpr_size sf \<Longrightarrow> (sf = D32 \<Longrightarrow> P) \<Longrightarrow> (sf = D64 \<Longrightarrow> P) \<Longrightarrow> P"
  by (auto simp: gpr_size_def)

lemma decode_add_sub_imm:
  assumes "gpr_size sf" "rn \<noteq> Zr" "legal_rd s rd"
  shows "decode (encode (AddSubImm sf op s sh imm rn rd)) = Some (AddSubImm sf op s sh imm rn rd)"
  using assms(1)
  by (elim gpr_sizeE; simp add: add_subtract_immediate_def decode_def decode_immediate_def
      read_fields x_or_sp_zr rd_field assms)

lemma decode_add_sub_shifted:
  assumes "gpr_size sf" "rm \<noteq> Sp" "rn \<noteq> Sp" "rd \<noteq> Sp"
  shows "decode (encode (AddSubShifted sf op s sh rm imm rn rd)) =
    Some (AddSubShifted sf op s sh rm imm rn rd)"
  using assms(1)
  by (elim gpr_sizeE; simp add: add_subtract_shifted_register_def decode_def decode_register_def
      read_fields assms)

lemma decode_add_sub_extended:
  assumes "gpr_size sf" "rm \<noteq> Sp" "rn \<noteq> Zr" "legal_rd s rd"
  shows "decode (encode (AddSubExtended sf op s rm ext imm rn rd)) =
    Some (AddSubExtended sf op s rm ext imm rn rd)"
  using assms(1)
  by (elim gpr_sizeE; simp add: add_subtract_extended_register_def decode_def decode_register_def
      read_fields x_or_sp_zr rd_field assms)

lemma decode_logical:
  assumes "gpr_size sf" "rm \<noteq> Sp" "rn \<noteq> Sp" "rd \<noteq> Sp"
  shows "decode (encode (LogicalShifted sf op sh n rm imm rn rd)) =
    Some (LogicalShifted sf op sh n rm imm rn rd)"
  using assms(1)
  by (elim gpr_sizeE; simp add: logical_shifted_register_def decode_def decode_register_def
      read_fields assms)

lemma decode_bitfield:
  assumes "gpr_size sf" "rn \<noteq> Sp" "rd \<noteq> Sp"
  shows "decode (encode (BitfieldMove sf op immr imms rn rd)) =
    Some (BitfieldMove sf op immr imms rn rd)"
  using assms(1)
  by (elim gpr_sizeE; simp add: bitfield_word_def decode_def decode_immediate_def
      read_fields assms)

lemma decode_data_proc2:
  assumes "gpr_size sf" "rm \<noteq> Sp" "rn \<noteq> Sp" "rd \<noteq> Sp"
  shows "decode (encode (DataProc2 sf rm op rn rd)) = Some (DataProc2 sf rm op rn rd)"
  using assms(1)
  by (elim gpr_sizeE; simp add: data_processing_2_source_def decode_def decode_register_def
      read_fields assms)

lemma decode_data_proc3:
  assumes "gpr_size sf" "rm \<noteq> Sp" "ra \<noteq> Sp" "rn \<noteq> Sp" "rd \<noteq> Sp"
  shows "decode (encode (DataProc3 sf op rm ra rn rd)) = Some (DataProc3 sf op rm ra rn rd)"
  using assms(1)
  by (elim gpr_sizeE; cases op; simp add: data_processing_3_source_def decode_def
      decode_register_def read_fields dec_data_op3_def assms)

lemma decode_load_store_unsigned:
  assumes "rn \<noteq> Zr" "rt \<noteq> Sp"
  shows "decode (encode (LoadStoreUnsigned z op imm rn rt)) = Some (LoadStoreUnsigned z op imm rn rt)"
  by (simp add: load_store_register_unsigned_immediate_def decode_def decode_load_store_def
      read_fields x_or_sp_zr assms)

lemma decode_load_store_unscaled:
  assumes "rn \<noteq> Zr" "rt \<noteq> Sp"
  shows "decode (encode (LoadStoreUnscaled z op imm rn rt)) = Some (LoadStoreUnscaled z op imm rn rt)"
  by (simp add: load_store_register_unscaled_immediate_def decode_def decode_load_store_def
      read_fields x_or_sp_zr assms)

lemma decode_load_store_register:
  assumes "rm \<noteq> Sp" "rn \<noteq> Zr" "rt \<noteq> Sp"
  shows "decode (encode (LoadStoreRegister z op rm ext s rn rt)) =
    Some (LoadStoreRegister z op rm ext s rn rt)"
  by (simp add: load_store_register_register_offset_def decode_def decode_load_store_def
      read_fields x_or_sp_zr assms)

lemmas pair_words =
  pair_word_def pair_shift_def mem_pair_offset_shift_def load_store_register_pair_post_index_def
  load_store_register_pair_pre_index_def load_store_register_pair_offset_def

lemma encode_pair:
  assumes "z \<noteq> PairLoadSigned32"
  shows "encode (LoadStorePair mode z op imm rn rt rt2) =
    (case mode of PostIndex \<Rightarrow> 0x28800000 | PreIndex \<Rightarrow> 0x29800000 | SignedOffset \<Rightarrow> 0x29000000)
    OR push_bit 30 (mem_pair_op_size_u32 z) OR push_bit 22 (mem_op_u32 op)
    OR push_bit 15 (ucast imm) OR push_bit 10 (x_or_zr rt2) OR push_bit 5 (x_or_sp rn) OR x_or_zr rt"
  using assms by (cases z; cases mode; simp add: pair_words pair_field Let_def del: push_bit_and)

lemma decode_load_store_pair:
  assumes "z \<noteq> PairLoadSigned32" "rn \<noteq> Zr" "rt \<noteq> Sp" "rt2 \<noteq> Sp"
  shows "decode (encode (LoadStorePair mode z op imm rn rt rt2)) =
    Some (LoadStorePair mode z op imm rn rt rt2)"
  unfolding encode_pair [OF assms(1)] using assms(1)
  by (cases mode; cases z; simp add: decode_def decode_load_store_def
      dec_pair_mode_def dec_pair_size_def read_fields x_or_sp_zr assms)

lemma decode_encode_branch: "decode (encode (Branch link imm)) = Some (Branch link imm)"
  by (simp add: unconditional_branch_immediate_def decode_def decode_branch_def read_fields)

lemma decode_branch_cond: "decode (encode (BranchCond imm c)) = Some (BranchCond imm c)"
  by (simp add: conditional_branch_immediate_def decode_def decode_branch_def read_fields)

lemma decode_branch_register:
  "rn \<noteq> Sp \<Longrightarrow> decode (encode (BranchRegister t rn)) = Some (BranchRegister t rn)"
  by (simp add: unconditional_branch_register_def decode_def decode_branch_def read_fields)

lemma encode_nop: "encode Nop = 0xd503201f"
  by (simp add: nop_pseudo_def hint_pseudo_def system_word_def x_or_zr_def)

lemma decode_nop: "decode (encode Nop) = Some Nop"
  unfolding encode_nop by (simp add: decode_def decode_branch_def field_simps)

lemma decode_fp_move: "decode (encode (FpMove rn rd)) = Some (FpMove rn rd)"
  by (simp add: floating_point_data_processing_1_source_def decode_def decode_fp_def read_fields)

lemma decode_fp_arith: "decode (encode (FpArith op rm rn rd)) = Some (FpArith op rm rn rd)"
  by (simp add: floating_point_data_processing_2_source_def decode_def decode_fp_def read_fields)

lemma decode_fp_transfers:
  "r \<noteq> Sp \<Longrightarrow> decode (encode (FpFromInt32 r v)) = Some (FpFromInt32 r v)"
  "r \<noteq> Sp \<Longrightarrow> decode (encode (FpToGpr v r)) = Some (FpToGpr v r)"
  "r \<noteq> Sp \<Longrightarrow> decode (encode (FpFromGpr r v)) = Some (FpFromGpr r v)"
  by (simp_all add: floating_point_integer_conversions_def decode_def decode_fp_def read_fields
      fp_value_and flip: x_or_zr_def)

lemma decode_move_wide:
  assumes "sf = D32 \<and> hw < 2 \<or> sf = D64" "rd \<noteq> Sp"
  shows "decode (encode (MoveWide sf op hw imm rd)) = Some (MoveWide sf op hw imm rd)"
proof -
  have "\<not> (2 :: u32) \<le> ucast hw" if "hw < 2"
    using that by (simp add: word_less_nat_alt word_le_nat_alt unat_ucast_mod)
  then show ?thesis
    using assms(1)
    by (elim disjE conjE; simp add: move_wide_immediate_def decode_def decode_immediate_def
        read_fields assms)
qed

lemma decode_encode: "legal i \<Longrightarrow> decode (encode i) = Some i"
  by (cases i)
    (simp_all only: legal.simps decode_add_sub_imm decode_add_sub_shifted decode_add_sub_extended
      decode_logical decode_bitfield decode_data_proc2 decode_data_proc3 decode_load_store_unsigned
      decode_load_store_unscaled decode_load_store_register decode_load_store_pair
      decode_encode_branch decode_branch_cond decode_branch_register decode_nop decode_fp_move
      decode_fp_arith decode_fp_transfers decode_move_wide simp_thms)

section \<open>Fetching emitted words\<close>

definition word_at :: "u8 list \<Rightarrow> nat \<Rightarrow> u32" where
  "word_at code k =
     ucast (code ! k) OR push_bit 8 (ucast (code ! (k + 1))) OR push_bit 16 (ucast (code ! (k + 2)))
     OR push_bit 24 (ucast (code ! (k + 3)))"

definition code_of :: "a64 list \<Rightarrow> u8 list" where
  "code_of is = concat (map (\<lambda>i. to_le_bytes_u32 (encode i)) is)"

lemma length_to_le_bytes [simp]: "length (to_le_bytes_u32 w) = 4"
  by (simp add: to_le_bytes_u32_def)

lemma code_of_simps [simp]:
  "code_of [] = []"
  "code_of (i # is) = to_le_bytes_u32 (encode i) @ code_of is"
  "code_of (is @ js) = code_of is @ code_of js"
  by (simp_all add: code_of_def)

lemma length_code_of [simp]: "length (code_of is) = 4 * length is"
  by (induction "is") simp_all

lemma le_bytes_word:
  "ucast (ucast w :: u8) OR push_bit 8 (ucast (ucast (drop_bit 8 w) :: u8))
   OR push_bit 16 (ucast (ucast (drop_bit 16 w) :: u8))
   OR push_bit 24 (ucast (ucast (drop_bit 24 w) :: u8)) = (w :: u32)"
proof (rule bit_word_eqI)
  fix n :: nat
  assume n: "n < LENGTH(32)"
  have "24 \<le> n \<Longrightarrow> 24 + (n - 24) = n" by simp
  then show "bit (ucast (ucast w :: u8) OR push_bit 8 (ucast (ucast (drop_bit 8 w) :: u8))
      OR push_bit 16 (ucast (ucast (drop_bit 16 w) :: u8))
      OR push_bit 24 (ucast (ucast (drop_bit 24 w) :: u8)) :: u32) n = bit w n"
    using n by (cases "24 \<le> n"; cases "16 \<le> n") (auto simp: bit_simps not_le)
qed

lemma word_at_bytes:
  "k = length b \<Longrightarrow> word_at (b @ to_le_bytes_u32 w @ c) k = w"
  using le_bytes_word [of w] by (simp add: word_at_def to_le_bytes_u32_def nth_append)

lemma word_at_code_of:
  assumes "k < length is"
  shows "word_at (b @ code_of is @ c) (length b + 4 * k) = encode (is ! k)"
proof -
  have "is = take k is @ is ! k # drop (Suc k) is" using assms by (rule id_take_nth_drop)
  then have "code_of is = code_of (take k is) @ to_le_bytes_u32 (encode (is ! k)) @
      code_of (drop (Suc k) is)"
    by (metis code_of_simps(2,3))
  then show ?thesis
    using word_at_bytes [of "length b + 4 * k" "b @ code_of (take k is)" "encode (is ! k)"
        "code_of (drop (Suc k) is) @ c"] assms
    by simp
qed

text \<open>C16: The packing functions and the emission of bytes lose nothing: whatever stands before and
after it in the code buffer, the word fetched at the place of the k-th emitted instruction
decodes to exactly that instruction, with all its operands, for every instruction class of the
encoder and all operands the class can have; so different instructions never have the same
code.\<close>

theorem emitted_code_decodes:
  assumes "list_all legal is" and "k < length is"
  shows "decode (word_at (b @ code_of is @ c) (length b + 4 * k)) = Some (is ! k)"
  using assms by (simp add: word_at_code_of decode_encode list_all_length)

theorem emitted_code_decodes_witness:
  "decode (word_at ([1, 2] @
     code_of [AddSubImm D64 AddOp_Sub SetFlags_S True 4095 Sp Zr,
              LoadStorePair PreIndex Pair64 MemOp_Store (- 2) Sp Fp Lr, Nop] @ [7]) (length [1 :: u8, 2] + 4 * 1)) =
   Some (LoadStorePair PreIndex Pair64 MemOp_Store (- 2) Sp Fp Lr)"
  by (subst emitted_code_decodes) (simp_all add: gpr_size_def legal_rd_def)

end
