(* ===== verification/Arm64_Machine.thy ===== *)
theory Arm64_Machine
  imports Arm64_Decode Js_Value
begin

text \<open>
  The machine the emitted code is meant for, as specification: registers, flags, memory and
  program counter; the effect of every instruction of \<open>a64\<close> as the architecture documents it;
  and runs of a piece of code that lies at an address \<open>org\<close>.  The last section shows that the
  words of a list of legal instructions, wherever they stand in a code buffer, run as those
  instructions do one after another.
\<close>

section \<open>State\<close>

record nzcv =
  flag_n :: bool
  flag_z :: bool
  flag_c :: bool
  flag_v :: bool

record cpu =
  gpr :: "register_id \<Rightarrow> u64"
  fpr :: "fp_register_id \<Rightarrow> u64"
  flags :: nzcv
  pc :: u64
  ram :: "u64 \<Rightarrow> u8"
  fp_unit :: "fp_data_op2_source \<Rightarrow> u64 \<Rightarrow> u64 \<Rightarrow> u64"

text \<open>The zero register reads as zero and ignores writes; a 32-bit write clears the upper half.\<close>

definition get_x :: "cpu \<Rightarrow> register_id \<Rightarrow> u64" where
  "get_x s r = (if r = Zr then 0 else gpr s r)"

definition set_x :: "register_id \<Rightarrow> u64 \<Rightarrow> cpu \<Rightarrow> cpu" where
  "set_x r v s = (if r = Zr then s else s\<lparr>gpr := (gpr s)(r := v)\<rparr>)"

abbreviation get_w :: "cpu \<Rightarrow> register_id \<Rightarrow> u32" where
  "get_w s r \<equiv> ucast (get_x s r)"

definition narrow :: "datasize \<Rightarrow> u64 \<Rightarrow> u64" where
  "narrow sf v = (if sf = D32 then ucast (ucast v :: u32) else v)"

definition next_pc :: "cpu \<Rightarrow> cpu" where
  "next_pc s = s\<lparr>pc := pc s + 4\<rparr>"

section \<open>Arithmetic\<close>

text \<open>Addition with a carry, the source of the flags: the sum of the operands is compared with
its unsigned and its signed reading.\<close>

definition add_with_carry :: "'a::len word \<Rightarrow> 'a word \<Rightarrow> bool \<Rightarrow> 'a word \<times> nzcv" where
  "add_with_carry x y c =
     (let r = x + y + of_bool c
      in (r, \<lparr>flag_n = sint r < 0, flag_z = r = 0,
              flag_c = uint r \<noteq> uint x + uint y + of_bool c,
              flag_v = sint r \<noteq> sint x + sint y + of_bool c\<rparr>))"

definition add_sub :: "add_op \<Rightarrow> 'a::len word \<Rightarrow> 'a word \<Rightarrow> 'a word \<times> nzcv" where
  "add_sub op x y = (case op of AddOp_Add \<Rightarrow> add_with_carry x y False
                              | AddOp_Sub \<Rightarrow> add_with_carry x (NOT y) True)"

definition add_sub_sized :: "datasize \<Rightarrow> add_op \<Rightarrow> u64 \<Rightarrow> u64 \<Rightarrow> u64 \<times> nzcv" where
  "add_sub_sized sf op x y =
     (if sf = D32 then (let (r, f) = add_sub op (ucast x :: u32) (ucast y) in (ucast r, f))
      else add_sub op x y)"

definition write_result :: "set_flags \<Rightarrow> register_id \<Rightarrow> u64 \<times> nzcv \<Rightarrow> cpu \<Rightarrow> cpu" where
  "write_result s rd rf st =
     set_x rd (fst rf) (if s = SetFlags_S then st\<lparr>flags := snd rf\<rparr> else st)"

definition shift_value :: "shift_type \<Rightarrow> nat \<Rightarrow> 'a::len word \<Rightarrow> 'a word" where
  "shift_value t n x =
     (case t of ShiftType_Lsl \<Rightarrow> push_bit n x | ShiftType_Lsr \<Rightarrow> drop_bit n x
              | ShiftType_Asr \<Rightarrow> signed_drop_bit n x | ShiftType_Ror \<Rightarrow> word_rotr n x)"

definition shift_sized :: "datasize \<Rightarrow> shift_type \<Rightarrow> nat \<Rightarrow> u64 \<Rightarrow> u64" where
  "shift_sized sf t n x =
     (if sf = D32 then ucast (shift_value t n (ucast x :: u32)) else shift_value t n x)"

definition extend_value :: "extend_type \<Rightarrow> u64 \<Rightarrow> u64" where
  "extend_value t x =
     (case t of
        ExtendType_Uxtb \<Rightarrow> ucast (ucast x :: u8)
      | ExtendType_Uxth \<Rightarrow> ucast (ucast x :: u16)
      | ExtendType_Uxtw \<Rightarrow> ucast (ucast x :: u32)
      | ExtendType_Uxtx \<Rightarrow> x
      | ExtendType_Sxtb \<Rightarrow> scast (ucast x :: u8)
      | ExtendType_Sxth \<Rightarrow> scast (ucast x :: u16)
      | ExtendType_Sxtw \<Rightarrow> scast (ucast x :: u32)
      | ExtendType_Sxtx \<Rightarrow> x)"

definition logical_value :: "logical_op \<Rightarrow> u64 \<Rightarrow> u64 \<Rightarrow> u64" where
  "logical_value op x y =
     (case op of LogicalOp_And \<Rightarrow> x AND y | LogicalOp_Orr \<Rightarrow> x OR y
               | LogicalOp_Eor \<Rightarrow> x XOR y | LogicalOp_Ands \<Rightarrow> x AND y)"

definition logical_flags :: "datasize \<Rightarrow> u64 \<Rightarrow> nzcv" where
  "logical_flags sf r =
     \<lparr>flag_n = (if sf = D32 then sint (ucast r :: u32) < 0 else sint r < 0),
      flag_z = narrow sf r = 0, flag_c = False, flag_v = False\<rparr>"

text \<open>The bit-field moves: bits \<open>imms..immr\<close> of the source to the bottom, or its lowest
\<open>imms + 1\<close> bits up to position \<open>size - immr\<close>, extended with zeros or the sign.\<close>

definition bitfield_value :: "bitfield_op \<Rightarrow> nat \<Rightarrow> nat \<Rightarrow> 'a::len word \<Rightarrow> 'a word" where
  "bitfield_value op immr imms x =
     (let extract = (case op of BitfieldOp_Ubfm \<Rightarrow> take_bit \<circ> Suc
                              | BitfieldOp_Sbfm \<Rightarrow> signed_take_bit)
      in if immr \<le> imms then extract (imms - immr) (drop_bit immr x)
         else push_bit (LENGTH('a) - immr) (extract imms x))"

definition mul_value :: "data_op3_source \<Rightarrow> u64 \<Rightarrow> u64 \<Rightarrow> u64 \<Rightarrow> u64" where
  "mul_value op a x y =
     (let xs = scast (ucast x :: u32) :: u64; ys = scast (ucast y :: u32);
          xu = ucast (ucast x :: u32) :: u64; yu = ucast (ucast y :: u32)
      in case op of
           DataOp3_Madd \<Rightarrow> a + x * y
         | DataOp3_Msub \<Rightarrow> a - x * y
         | DataOp3_Smaddl \<Rightarrow> a + xs * ys
         | DataOp3_Smsubl \<Rightarrow> a - xs * ys
         | DataOp3_Smulh \<Rightarrow> word_of_int (sint x * sint y div 2 ^ 64)
         | DataOp3_Umaddl \<Rightarrow> a + xu * yu
         | DataOp3_Umsubl \<Rightarrow> a - xu * yu
         | DataOp3_Umulh \<Rightarrow> word_of_int (uint x * uint y div 2 ^ 64))"

definition cond_holds :: "arm_condition \<Rightarrow> nzcv \<Rightarrow> bool" where
  "cond_holds c f =
     (case c of
        Cond_Eq \<Rightarrow> flag_z f | Cond_Ne \<Rightarrow> \<not> flag_z f
      | Cond_Hs \<Rightarrow> flag_c f | Cond_Lo \<Rightarrow> \<not> flag_c f
      | Cond_Mi \<Rightarrow> flag_n f | Cond_Pl \<Rightarrow> \<not> flag_n f
      | Cond_Vs \<Rightarrow> flag_v f | Cond_Vc \<Rightarrow> \<not> flag_v f
      | Cond_Hi \<Rightarrow> flag_c f \<and> \<not> flag_z f | Cond_Ls \<Rightarrow> \<not> (flag_c f \<and> \<not> flag_z f)
      | Cond_Ge \<Rightarrow> flag_n f = flag_v f | Cond_Lt \<Rightarrow> flag_n f \<noteq> flag_v f
      | Cond_Gt \<Rightarrow> \<not> flag_z f \<and> flag_n f = flag_v f
      | Cond_Le \<Rightarrow> \<not> (\<not> flag_z f \<and> flag_n f = flag_v f)
      | Cond_Al \<Rightarrow> True | Cond_Invalid \<Rightarrow> True)"

section \<open>Memory\<close>

fun load_le :: "nat \<Rightarrow> (u64 \<Rightarrow> u8) \<Rightarrow> u64 \<Rightarrow> u64" where
  "load_le 0 m a = 0"
| "load_le (Suc n) m a = ucast (m a) OR push_bit 8 (load_le n m (a + 1))"

fun store_le :: "nat \<Rightarrow> u64 \<Rightarrow> u64 \<Rightarrow> (u64 \<Rightarrow> u8) \<Rightarrow> (u64 \<Rightarrow> u8)" where
  "store_le 0 a v m = m"
| "store_le (Suc n) a v m = store_le n (a + 1) (drop_bit 8 v) (m(a := ucast v))"

definition access_bytes :: "mem_op_size \<Rightarrow> nat" where
  "access_bytes z = (case z of Size8Or128 \<Rightarrow> 1 | Size16 \<Rightarrow> 2 | Size32 \<Rightarrow> 4 | Size64 \<Rightarrow> 8)"

definition access :: "nat \<Rightarrow> mem_op \<Rightarrow> register_id \<Rightarrow> u64 \<Rightarrow> cpu \<Rightarrow> cpu" where
  "access n op rt a s =
     (case op of MemOp_Load \<Rightarrow> set_x rt (load_le n (ram s) a) s
               | MemOp_Store \<Rightarrow> s\<lparr>ram := store_le n a (get_x s rt) (ram s)\<rparr>)"

section \<open>Instructions\<close>

fun exec :: "a64 \<Rightarrow> cpu \<Rightarrow> cpu" where
  "exec (AddSubImm sf op fl sh imm rn rd) s =
     next_pc (write_result fl rd
       (add_sub_sized sf op (get_x s rn) (push_bit (if sh then 12 else 0) (ucast imm))) s)"
| "exec (AddSubShifted sf op fl sh rm imm rn rd) s =
     next_pc (write_result fl rd
       (add_sub_sized sf op (get_x s rn) (shift_sized sf sh (unat imm) (get_x s rm))) s)"
| "exec (AddSubExtended sf op fl rm ext imm rn rd) s =
     next_pc (write_result fl rd
       (add_sub_sized sf op (get_x s rn) (push_bit (unat imm) (extend_value ext (get_x s rm)))) s)"
| "exec (LogicalShifted sf op sh n rm imm rn rd) s =
     (let y = shift_sized sf sh (unat imm) (get_x s rm);
          r = narrow sf (logical_value op (get_x s rn) (if n then NOT y else y))
      in next_pc (write_result (if op = LogicalOp_Ands then SetFlags_S else SetFlags_DontSetFlags)
                    rd (r, logical_flags sf r) s))"
| "exec (MoveWide sf op hw imm rd) s =
     (let p = 16 * unat hw; v = push_bit p (ucast imm)
      in next_pc (set_x rd (narrow sf
           (case op of MoveWideOp_N \<Rightarrow> NOT v | MoveWideOp_Z \<Rightarrow> v
                     | MoveWideOp_K \<Rightarrow> get_x s rd AND NOT (push_bit p (mask 16)) OR v)) s))"
| "exec (BitfieldMove sf op immr imms rn rd) s =
     next_pc (set_x rd
       (if sf = D32 then ucast (bitfield_value op (unat immr) (unat imms) (get_w s rn))
        else bitfield_value op (unat immr) (unat imms) (get_x s rn)) s)"
| "exec (DataProc2 sf rm op rn rd) s =
     (let t = (case op of DataOp2_Lslv \<Rightarrow> ShiftType_Lsl | DataOp2_Lsrv \<Rightarrow> ShiftType_Lsr
                        | DataOp2_Asrv \<Rightarrow> ShiftType_Asr);
          n = unat (get_x s rm) mod (if sf = D32 then 32 else 64)
      in next_pc (set_x rd (shift_sized sf t n (get_x s rn)) s))"
| "exec (DataProc3 sf op rm ra rn rd) s =
     next_pc (set_x rd (narrow sf (mul_value op (get_x s ra) (get_x s rn) (get_x s rm))) s)"
| "exec (LoadStoreUnsigned z op imm rn rt) s =
     next_pc (access (access_bytes z) op rt
       (get_x s rn + of_nat (access_bytes z * unat imm)) s)"
| "exec (LoadStoreUnscaled z op imm rn rt) s =
     next_pc (access (access_bytes z) op rt (get_x s rn + scast imm) s)"
| "exec (LoadStoreRegister z op rm ext sc rn rt) s =
     next_pc (access (access_bytes z) op rt
       (get_x s rn + push_bit (if sc then unat (mem_op_size_u32 z) else 0)
                       (extend_value ext (get_x s rm))) s)"
| "exec (LoadStorePair mode z op imm rn rt rt2) s =
     (let n = (if z = Pair64 then 8 else 4); base = get_x s rn; moved = base + of_nat n * scast imm;
          a = (if mode = PostIndex then base else moved)
      in next_pc ((if mode = SignedOffset then id else set_x rn moved)
                  (access n op rt2 (a + of_nat n) (access n op rt a s))))"
| "exec (Branch link imm) s =
     (if link then set_x Lr (pc s + 4) s else s)\<lparr>pc := pc s + 4 * scast imm\<rparr>"
| "exec (BranchCond imm c) s =
     (if cond_holds c (flags s) then s\<lparr>pc := pc s + 4 * scast imm\<rparr> else next_pc s)"
| "exec (BranchRegister t rn) s =
     (if t = BranchType_Call then set_x Lr (pc s + 4) s else s)\<lparr>pc := get_x s rn\<rparr>"
| "exec Nop s = next_pc s"
| "exec (FpMove rn rd) s = next_pc (s\<lparr>fpr := (fpr s)(rd := fpr s rn)\<rparr>)"
| "exec (FpArith op rm rn rd) s =
     next_pc (s\<lparr>fpr := (fpr s)(rd := fp_unit s op (fpr s rn) (fpr s rm))\<rparr>)"
| "exec (FpFromInt32 rn rd) s = next_pc (s\<lparr>fpr := (fpr s)(rd := f_of_i32 (sint (get_w s rn)))\<rparr>)"
| "exec (FpToGpr rn rd) s = next_pc (set_x rd (fpr s rn) s)"
| "exec (FpFromGpr rn rd) s = next_pc (s\<lparr>fpr := (fpr s)(rd := get_x s rn)\<rparr>)"

section \<open>Runs\<close>

text \<open>The instruction at an address, when the code lies at \<open>org\<close>.\<close>

definition fetch :: "u64 \<Rightarrow> u8 list \<Rightarrow> u64 \<Rightarrow> a64 option" where
  "fetch org code a =
     (let k = unat (a - org) in if k + 4 \<le> length code then decode (word_at code k) else None)"

inductive runs :: "u64 \<Rightarrow> u8 list \<Rightarrow> cpu \<Rightarrow> cpu \<Rightarrow> bool" for org code where
  runs_refl: "runs org code s s"
| runs_step: "fetch org code (pc s) = Some i \<Longrightarrow> runs org code (exec i s) s' \<Longrightarrow> runs org code s s'"

lemma runs_trans: "runs org code s s' \<Longrightarrow> runs org code s' s'' \<Longrightarrow> runs org code s s''"
  by (induction rule: runs.induct) (auto intro: runs.intros)

lemma runs_one: "fetch org code (pc s) = Some i \<Longrightarrow> runs org code s (exec i s)"
  by (rule runs_step [OF _ runs_refl])

fun exec_list :: "a64 list \<Rightarrow> cpu \<Rightarrow> cpu" where
  "exec_list [] s = s"
| "exec_list (i # is) s = exec_list is (exec i s)"

lemma exec_list_append [simp]: "exec_list (is @ js) s = exec_list js (exec_list is s)"
  by (induction "is" arbitrary: s) simp_all

text \<open>Instructions after which the machine goes on with the next word.\<close>

fun straight :: "a64 \<Rightarrow> bool" where
  "straight (Branch _ _) = False"
| "straight (BranchCond _ _) = False"
| "straight (BranchRegister _ _) = False"
| "straight _ = True"

lemma cpu_simps [simp]:
  "pc (set_x r v s) = pc s" "flags (set_x r v s) = flags s" "ram (set_x r v s) = ram s"
  "fpr (set_x r v s) = fpr s" "fp_unit (set_x r v s) = fp_unit s"
  "pc (next_pc s) = pc s + 4" "gpr (next_pc s) = gpr s" "flags (next_pc s) = flags s"
  "ram (next_pc s) = ram s" "fpr (next_pc s) = fpr s" "fp_unit (next_pc s) = fp_unit s"
  "get_x (next_pc s) = get_x s"
  by (simp_all add: set_x_def next_pc_def get_x_def fun_eq_iff)

lemma get_x_Zr [simp]: "get_x s Zr = 0"
  by (simp add: get_x_def)

lemma get_x_gpr: "r \<noteq> Zr \<Longrightarrow> get_x s r = gpr s r"
  by (simp add: get_x_def)

lemma get_set_x [simp]: "get_x (set_x r v s) r' = (if r' = r \<and> r \<noteq> Zr then v else get_x s r')"
  by (simp add: get_x_def set_x_def)

lemma write_result_simps [simp]:
  "pc (write_result fl rd rf s) = pc s" "ram (write_result fl rd rf s) = ram s"
  "fpr (write_result fl rd rf s) = fpr s" "fp_unit (write_result fl rd rf s) = fp_unit s"
  "flags (write_result fl rd rf s) = (if fl = SetFlags_S then snd rf else flags s)"
  "get_x (write_result fl rd rf s) r = (if r = rd \<and> rd \<noteq> Zr then fst rf else get_x s r)"
  by (auto simp: write_result_def get_x_def set_x_def)

lemma pc_access [simp]: "pc (access n op rt a s) = pc s"
  by (simp add: access_def split: mem_op.split)

lemma straight_pc: "straight i \<Longrightarrow> pc (exec i s) = pc s + 4"
  by (cases i) (simp_all add: Let_def)

lemma pc_exec_list: "list_all straight is \<Longrightarrow> pc (exec_list is s) = pc s + of_nat (4 * length is)"
  by (induction "is" arbitrary: s) (simp_all add: straight_pc)

lemma fetch_code_of:
  assumes "list_all legal is" "k < length is"
    and "length (b @ code_of is @ c) < 2 ^ 64" and "a = org + of_nat (length b + 4 * k)"
  shows "fetch org (b @ code_of is @ c) a = Some (is ! k)"
proof -
  have "unat (of_nat (length b + 4 * k) :: u64) = length b + 4 * k"
    using assms(2,3) by (subst unat_of_nat, intro mod_less) simp
  then have "unat (a - org) = length b + 4 * k" by (simp add: assms(4))
  then show ?thesis
    using assms(1,2)
    by (simp add: fetch_def Let_def word_at_code_of decode_encode list_all_length)
qed

lemma runs_code_of:
  assumes "list_all legal is" "list_all straight is"
    and "length (b @ code_of is @ c) < 2 ^ 64" and "pc s = org + of_nat (length b)"
  shows "runs org (b @ code_of is @ c) s (exec_list is s)"
  using assms
proof (induction "is" arbitrary: b s)
  case Nil
  show ?case by (simp add: runs_refl)
next
  case (Cons i "is")
  have "fetch org (b @ code_of (i # is) @ c) (pc s) = Some i"
    using fetch_code_of [of "i # is" 0 b c "pc s" org] Cons.prems by simp
  moreover have "runs org ((b @ to_le_bytes_u32 (encode i)) @ code_of is @ c) (exec i s)
      (exec_list is (exec i s))"
    using Cons.prems by (intro Cons.IH) (simp_all add: straight_pc)
  ultimately show ?case by (auto intro: runs_step)
qed

end
