(* ===== verification/Arm64_Emitted.thy ===== *)
theory Arm64_Emitted
  imports Arm64_Machine
begin

text \<open>
  The \<open>emit\<close> methods of \<open>assembler/arm64_encoder.rs\<close> as instructions: each appends one word,
  the encoding of the instruction named here (the 64-bit immediate move: a list of words).
  Then the vocabulary of the correctness statements: code that is appended to a buffer
  \<open>computes\<close> a relation between machine states when it runs from its first byte to its end.
\<close>

section \<open>Emitted words\<close>

named_theorems emit_simps \<open>the instructions an emit method appends\<close>

lemma insn_code_of: "w = encode i \<Longrightarrow> insn w b = b @ code_of [i]"
  by (simp add: insn_def)

lemma ucast_mask_field:
  "LENGTH('a::len) = n \<Longrightarrow> ucast (ucast (x :: u32) :: 'a word) AND mask n = x AND (mask n :: u32)"
  by (rule bit_eqI) (auto simp: bit_simps)

lemma scast_mask_field:
  assumes "LENGTH('a::len) = n"
  shows "scast (ucast (x :: u32) :: 'a word) AND mask n = x AND (mask n :: u32)"
  using scast_and_mask [OF assms, of "ucast x"] ucast_mask_field [OF assms, of x]
    ucast_and_mask [of n "ucast x :: 'a word"] assms by simp

lemma mask_numerals:
  "(7 :: u32) = mask 3" "(63 :: u32) = mask 6" "(127 :: u32) = mask 7" "(511 :: u32) = mask 9"
  "(4095 :: u32) = mask 12" "(524287 :: u32) = mask 19" "(67108863 :: u32) = mask 26"
  by (simp_all add: mask_eq_exp_minus_1)

lemma imm_fields:
  "ucast (ucast (x :: u32) :: 3 word) AND (7 :: u32) = x AND 7"
  "ucast (ucast x :: 6 word) AND (63 :: u32) = x AND 63"
  "ucast (ucast x :: 12 word) AND (4095 :: u32) = x AND 4095"
  "scast (ucast x :: 9 word) AND (511 :: u32) = x AND 511"
  "scast (ucast x :: 19 word) AND (524287 :: u32) = x AND 524287"
  "scast (ucast x :: 26 word) AND (67108863 :: u32) = x AND 67108863"
  unfolding mask_numerals by (simp_all add: ucast_mask_field scast_mask_field)

lemma pair_imm_field:
  "signed_drop_bit 3 (push_bit 3 (scast (ucast (x :: u32) :: 7 word))) AND (127 :: u32) = x AND 127"
proof -
  have "ucast (ucast x :: 7 word) = x AND (mask 7 :: u32)"
    using ucast_mask_field [where 'a = 7, of 7 x] ucast_and_mask [of 7 "ucast x :: 7 word"] by simp
  then show ?thesis unfolding pair_field(2) by (simp only: mask_numerals)
qed

lemma emit_add_sub_imm [emit_simps]:
  "emit_add_sub_imm sf op s rd rn imm sh b = b @ code_of [AddSubImm sf op s sh (ucast imm) rn rd]"
  unfolding emit_add_sub_imm_def
  by (rule insn_code_of) (simp add: add_subtract_immediate_def imm_fields)

lemma emit_add_imm12 [emit_simps]:
  "emit_add_imm12 rd rn imm sh b =
     b @ code_of [AddSubImm D64 AddOp_Add SetFlags_DontSetFlags sh (ucast imm) rn rd]"
  using emit_add_sub_imm [of D64] by (simp add: emit_add_imm12_def emit_add_sub_imm_def)

lemma emit_sub_imm12 [emit_simps]:
  "emit_sub_imm12 rd rn imm sh b =
     b @ code_of [AddSubImm D64 AddOp_Sub SetFlags_DontSetFlags sh (ucast imm) rn rd]"
  using emit_add_sub_imm [of D64] by (simp add: emit_sub_imm12_def emit_add_sub_imm_def)

lemma emit_add_sub_reg [emit_simps]:
  "emit_add_sub_reg sf op s rd rn rm b = b @ code_of
     [if rd = Sp \<or> rn = Sp then AddSubExtended sf op s rm ExtendType_Uxtx 0 rn rd
      else AddSubShifted sf op s ShiftType_Lsl rm 0 rn rd]"
  by (simp add: emit_add_sub_reg_def insn_def)

lemma emit_add_reg: "emit_add_reg = emit_add_sub_reg D64 AddOp_Add SetFlags_DontSetFlags"
  by (intro ext) (simp add: emit_add_reg_def emit_add_sub_reg_def)

lemma emit_sub_reg: "emit_sub_reg = emit_add_sub_reg D64 AddOp_Sub SetFlags_DontSetFlags"
  by (intro ext) (simp add: emit_sub_reg_def emit_add_sub_reg_def)

lemma emit_add_sub_extended_reg [emit_simps]:
  "emit_add_sub_extended_reg sf op s rd rn rm ext amount b =
     b @ code_of [AddSubExtended sf op s rm ext (ucast amount) rn rd]"
  unfolding emit_add_sub_extended_reg_def
  by (rule insn_code_of) (simp add: add_subtract_extended_register_def imm_fields)

lemma emit_mov_reg [emit_simps]:
  "emit_mov_reg sf rd rm b = b @ code_of
     [if rd = Sp \<or> rm = Sp then AddSubImm sf AddOp_Add SetFlags_DontSetFlags False 0 rm rd
      else LogicalShifted sf LogicalOp_Orr ShiftType_Lsl False rm 0 Zr rd]"
  by (simp add: emit_mov_reg_def emit_add_sub_imm_def insn_def)

lemma emit_mov: "emit_mov = emit_mov_reg D64"
  by (intro ext) (simp add: emit_mov_def emit_mov_reg_def emit_add_imm12_def emit_add_sub_imm_def)

lemma emit_logical_reg [emit_simps]:
  "emit_logical_reg sf op rd rn rm b =
     b @ code_of [LogicalShifted sf op ShiftType_Lsl False rm 0 rn rd]"
  by (simp add: emit_logical_reg_def insn_def)

lemma emit_orr_reg: "emit_orr_reg = emit_logical_reg D64 LogicalOp_Orr"
  by (intro ext) (simp add: emit_orr_reg_def emit_logical_reg_def)

lemma emit_move_wide [emit_simps]:
  assumes "drop_bit 4 shift < 4"
  shows "emit_move_wide sf op rd v shift b = b @ code_of [MoveWide sf op (ucast (drop_bit 4 shift)) v rd]"
proof -
  have "ucast (ucast (drop_bit 4 shift) :: 2 word) = drop_bit 4 shift"
    using assms
    by (intro word_unat_eq_iff [THEN iffD2]) (simp add: unat_ucast_mod word_less_nat_alt)
  then show ?thesis
    unfolding emit_move_wide_def by (intro insn_code_of) simp
qed

lemma emit_moves:
  "emit_movz = emit_move_wide D64 MoveWideOp_Z" "emit_movk = emit_move_wide D64 MoveWideOp_K"
  "emit_movn = emit_move_wide D64 MoveWideOp_N"
  by (intro ext; simp add: emit_movz_def emit_movk_def emit_movn_def emit_move_wide_def)+

lemma emit_shift_reg [emit_simps]:
  "emit_shift_reg sf op rd rn rm b = b @ code_of [DataProc2 sf rm op rn rd]"
  by (simp add: emit_shift_reg_def insn_def)

lemma bitfield_insn:
  "insn (bitfield_word sf op immr imms rn rd) b =
     b @ code_of [BitfieldMove sf op (ucast immr) (ucast imms) rn rd]"
  by (rule insn_code_of) (simp add: bitfield_word_def imm_fields)

lemma emit_shift_imm [emit_simps]:
  "emit_lsl_imm sf rd rn sh b = b @ code_of
     [BitfieldMove sf BitfieldOp_Ubfm (ucast ((datasize_bits sf - sh) AND (datasize_bits sf - 1)))
        (ucast (datasize_bits sf - 1 - sh)) rn rd]"
  "emit_lsr_imm sf rd rn sh b = b @ code_of
     [BitfieldMove sf BitfieldOp_Ubfm (ucast sh) (ucast (datasize_bits sf - 1)) rn rd]"
  "emit_asr_imm sf rd rn sh b = b @ code_of
     [BitfieldMove sf BitfieldOp_Sbfm (ucast sh) (ucast (datasize_bits sf - 1)) rn rd]"
  unfolding emit_lsl_imm_def emit_lsr_imm_def emit_asr_imm_def Let_def by (rule bitfield_insn)+

lemma emit_muls [emit_simps]:
  "emit_mul sf rd rn rm b = b @ code_of [DataProc3 sf DataOp3_Madd rm Zr rn rd]"
  "emit_smull rd rn rm b = b @ code_of [DataProc3 D64 DataOp3_Smaddl rm Zr rn rd]"
  by (simp_all add: emit_mul_def emit_smull_def insn_def)

lemma emit_load_store_unscaled [emit_simps]:
  "emit_load_store_unscaled z op rt rn off b = b @ code_of [LoadStoreUnscaled z op (ucast off) rn rt]"
  unfolding emit_load_store_unscaled_def
  by (rule insn_code_of) (simp add: load_store_register_unscaled_immediate_def imm_fields)

lemma emit_load_store_unsigned [emit_simps]:
  "emit_load_store_unsigned z op rt rn off b =
     b @ code_of [LoadStoreUnsigned z op (ucast (off div mem_access_bytes z)) rn rt]"
  unfolding emit_load_store_unsigned_def Let_def
  by (rule insn_code_of) (simp add: load_store_register_unsigned_immediate_def imm_fields)

lemma emit_imm64:
  "emit_ldr_imm64 = emit_load_store_unsigned Size64 MemOp_Load"
  "emit_str_imm64 = emit_load_store_unsigned Size64 MemOp_Store"
  by (intro ext; simp add: emit_ldr_imm64_def emit_str_imm64_def emit_load_store_unsigned_def
      mem_access_bytes_def)+

lemma emit_load_store_register_offset [emit_simps]:
  "emit_load_store_register_offset z op rt rn rm ext s b =
     b @ code_of [LoadStoreRegister z op rm ext s rn rt]"
  by (simp add: emit_load_store_register_offset_def insn_def)

lemma emit_register_offset64:
  "emit_ldr_register_offset64 rt rn rm ext scale =
     emit_load_store_register_offset Size64 MemOp_Load rt rn rm ext (scale_log2 scale \<noteq> 0)"
  "emit_str_register_offset64 rt rn rm ext scale =
     emit_load_store_register_offset Size64 MemOp_Store rt rn rm ext (scale_log2 scale \<noteq> 0)"
  by (simp_all add: emit_ldr_register_offset64_def emit_str_register_offset64_def
      emit_load_store_register_offset_def)

lemma pair_insn:
  "w = pair_word mode Pair64 op off rn rt rt2 \<Longrightarrow>
   insn w b = b @ code_of [LoadStorePair mode Pair64 op (ucast (signed_drop_bit 3 off)) rn rt rt2]"
  by (rule insn_code_of, cases mode)
    (simp_all add: pair_words pair_imm_field Let_def del: push_bit_and)

lemma emit_pairs [emit_simps]:
  "emit_stp_pre_index64 rt rt2 rn off b = b @ code_of
     [LoadStorePair PreIndex Pair64 MemOp_Store (ucast (signed_drop_bit 3 off)) rn rt rt2]"
  "emit_stp_post_index64 rt rt2 rn off b = b @ code_of
     [LoadStorePair PostIndex Pair64 MemOp_Store (ucast (signed_drop_bit 3 off)) rn rt rt2]"
  "emit_stp_offset64 rt rt2 rn off b = b @ code_of
     [LoadStorePair SignedOffset Pair64 MemOp_Store (ucast (signed_drop_bit 3 off)) rn rt rt2]"
  "emit_ldp_pre_index64 rt rt2 rn off b = b @ code_of
     [LoadStorePair PreIndex Pair64 MemOp_Load (ucast (signed_drop_bit 3 off)) rn rt rt2]"
  "emit_ldp_post_index64 rt rt2 rn off b = b @ code_of
     [LoadStorePair PostIndex Pair64 MemOp_Load (ucast (signed_drop_bit 3 off)) rn rt rt2]"
  "emit_ldp_offset64 rt rt2 rn off b = b @ code_of
     [LoadStorePair SignedOffset Pair64 MemOp_Load (ucast (signed_drop_bit 3 off)) rn rt rt2]"
  unfolding emit_stp_pre_index64_def emit_stp_post_index64_def emit_stp_offset64_def
    emit_ldp_pre_index64_def emit_ldp_post_index64_def emit_ldp_offset64_def
  by (rule pair_insn; simp add: pair_word_def)+

lemma emit_branches [emit_simps]:
  "emit_b off b = b @ code_of [Branch False (ucast off)]"
  "emit_bl off b = b @ code_of [Branch True (ucast off)]"
  "emit_b_cond c off b = b @ code_of [BranchCond (ucast off) c]"
  "emit_br rn b = b @ code_of [BranchRegister BranchType_Jmp rn]"
  "emit_blr rn b = b @ code_of [BranchRegister BranchType_Call rn]"
  "emit_ret_reg rn b = b @ code_of [BranchRegister BranchType_Ret rn]"
  "emit_ret b = b @ code_of [BranchRegister BranchType_Ret Lr]"
  "emit_nop b = b @ code_of [Nop]"
  unfolding emit_b_def emit_bl_def emit_b_cond_def emit_br_def emit_blr_def emit_ret_def
    emit_ret_reg_def emit_nop_def
  by (rule insn_code_of;
      simp add: unconditional_branch_immediate_def conditional_branch_immediate_def imm_fields)+

lemma emit_fp [emit_simps]:
  "emit_fmov_double rd rn b = b @ code_of [FpMove rn rd]"
  "emit_fadd_double rd rn rm b = b @ code_of [FpArith FpDataOp2_FAdd rm rn rd]"
  "emit_fsub_double rd rn rm b = b @ code_of [FpArith FpDataOp2_FSub rm rn rd]"
  "emit_fmul_double rd rn rm b = b @ code_of [FpArith FpDataOp2_FMul rm rn rd]"
  "emit_fdiv_double rd rn rm b = b @ code_of [FpArith FpDataOp2_FDiv rm rn rd]"
  "emit_scvtf_int32_to_double rd r b = b @ code_of [FpFromInt32 r rd]"
  "emit_fmov_double_to_gpr r rn b = b @ code_of [FpToGpr rn r]"
  "emit_fmov_gpr_to_double rd r b = b @ code_of [FpFromGpr r rd]"
  by (simp_all add: emit_fmov_double_def emit_fadd_double_def emit_fsub_double_def
      emit_fmul_double_def emit_fdiv_double_def emit_scvtf_int32_to_double_def
      emit_fmov_double_to_gpr_def emit_fmov_gpr_to_double_def insn_def)

section \<open>Code that computes\<close>

text \<open>The code \<open>f\<close> appends to any buffer, followed by any other code, run from its first byte,
reaches its end, and the state it starts in and the state it ends in are related by \<open>R\<close>.\<close>

definition computes :: "(code_buffer \<Rightarrow> code_buffer) \<Rightarrow> (cpu \<Rightarrow> cpu \<Rightarrow> bool) \<Rightarrow> bool" where
  "computes f R \<longleftrightarrow>
     (\<forall>org b c s. length (f b @ c) < 2 ^ 64 \<longrightarrow> pc s = org + of_nat (length b) \<longrightarrow>
        (\<exists>s'. runs org (f b @ c) s s' \<and> pc s' = org + of_nat (length (f b)) \<and> R s s'))"

text \<open>Everything but the registers in \<open>D\<close> and the program counter is as before.\<close>

definition changes_only :: "register_id set \<Rightarrow> cpu \<Rightarrow> cpu \<Rightarrow> bool" where
  "changes_only D s s' \<longleftrightarrow>
     (\<forall>r. r \<notin> D \<longrightarrow> get_x s' r = get_x s r) \<and> flags s' = flags s \<and> ram s' = ram s \<and>
     fpr s' = fpr s \<and> fp_unit s' = fp_unit s"

text \<open>The form all straight-line code has: \<open>f\<close> appends the encodings of \<open>is\<close>.\<close>

definition appends :: "(code_buffer \<Rightarrow> code_buffer) \<Rightarrow> a64 list \<Rightarrow> bool" where
  "appends f is \<longleftrightarrow> (\<forall>b. f b = b @ code_of is) \<and> list_all legal is \<and> list_all straight is"

lemma appendsD: "appends f is \<Longrightarrow> f b = b @ code_of is"
  by (simp add: appends_def)

lemma appends_comp: "appends f is \<Longrightarrow> appends g js \<Longrightarrow> appends (\<lambda>b. g (f b)) (is @ js)"
  by (simp add: appends_def)

lemma appends_computes:
  assumes "appends f is" and "\<And>s :: cpu. R s (exec_list is s)"
  shows "computes f R"
  unfolding computes_def
proof (intro allI impI)
  fix org b c and s :: cpu
  assume "length (f b @ c) < 2 ^ 64" and "pc s = org + of_nat (length b)"
  moreover have "f b = b @ code_of is" "list_all legal is" "list_all straight is"
    using assms(1) by (simp_all add: appends_def)
  ultimately show "\<exists>s'. runs org (f b @ c) s s' \<and> pc s' = org + of_nat (length (f b)) \<and> R s s'"
    using assms(2) by (intro exI [of _ "exec_list is s"]) (simp add: runs_code_of pc_exec_list)
qed

end
