(* ===== verification/Arm64_Link.thy ===== *)
theory Arm64_Link
  imports Arm64_Encoder
begin

text \<open>
  Labels, jumps and calls as tokens (\<open>assembler/labels.rs\<close>), and the link records that patch
  the placeholder branches in the code buffer (\<open>assembler/link_records.rs\<close>).  Offsets are
  \<open>i64\<close>, 64-bit words read with \<open>sint\<close>; a patch returns the new code or an error.
\<close>

section \<open>Jump and link types\<close>

datatype jump_type =
    JumpFixed | JumpNoCondition | JumpCondition | JumpCompareAndBranch | JumpTestBit
  | JumpNoConditionFixedSize | JumpConditionFixedSize | JumpCompareAndBranchFixedSize
  | JumpTestBitFixedSize

text \<open>The discriminant carries the linked size in its high nibble.\<close>

fun jump_type_u8 :: "jump_type \<Rightarrow> u8" where
  "jump_type_u8 JumpFixed = push_bit 4 0 OR 0"
| "jump_type_u8 JumpNoCondition = push_bit 4 4 OR 1"
| "jump_type_u8 JumpCondition = push_bit 4 8 OR 2"
| "jump_type_u8 JumpCompareAndBranch = push_bit 4 8 OR 3"
| "jump_type_u8 JumpTestBit = push_bit 4 8 OR 4"
| "jump_type_u8 JumpNoConditionFixedSize = push_bit 4 4 OR 5"
| "jump_type_u8 JumpConditionFixedSize = push_bit 4 8 OR 6"
| "jump_type_u8 JumpCompareAndBranchFixedSize = push_bit 4 8 OR 7"
| "jump_type_u8 JumpTestBitFixedSize = push_bit 4 8 OR 8"

definition jump_type_size :: "jump_type \<Rightarrow> i32" where
  "jump_type_size t = signed_drop_bit 4 (ucast (jump_type_u8 t))"

datatype jump_link_type =
    LinkInvalid | LinkJumpNoCondition | LinkJumpConditionDirect | LinkJumpCondition
  | LinkJumpCompareAndBranch | LinkJumpCompareAndBranchDirect | LinkJumpTestBit
  | LinkJumpTestBitDirect

fun jump_link_type_u8 :: "jump_link_type \<Rightarrow> u8" where
  "jump_link_type_u8 LinkInvalid = push_bit 4 0 OR 0"
| "jump_link_type_u8 LinkJumpNoCondition = push_bit 4 4 OR 1"
| "jump_link_type_u8 LinkJumpConditionDirect = push_bit 4 4 OR 2"
| "jump_link_type_u8 LinkJumpCondition = push_bit 4 8 OR 3"
| "jump_link_type_u8 LinkJumpCompareAndBranch = push_bit 4 8 OR 4"
| "jump_link_type_u8 LinkJumpCompareAndBranchDirect = push_bit 4 4 OR 5"
| "jump_link_type_u8 LinkJumpTestBit = push_bit 4 8 OR 6"
| "jump_link_type_u8 LinkJumpTestBitDirect = push_bit 4 4 OR 7"

definition jump_link_type_size :: "jump_link_type \<Rightarrow> i32" where
  "jump_link_type_size t = signed_drop_bit 4 (ucast (jump_link_type_u8 t))"

datatype link_branch_type = LinkBranch_Jmp | LinkBranch_Call | LinkBranch_Ret

datatype thunk_or_not = NotThunk | Thunk

datatype arm64_link_error =
    Misaligned u32
  | OutOfBounds u32 nat
  | OutOfRange i64 nat
  | ExpansionUnsupported jump_link_type
  | NotRelocatable

section \<open>Link records\<close>

record link_record =
  lr_from :: i64
  lr_to :: i64
  lr_type :: jump_type
  lr_link_type :: jump_link_type
  lr_condition :: arm_condition
  lr_branch_type :: link_branch_type
  lr_is_64bit :: bool
  lr_bit_number :: u32
  lr_compare_register :: "register_id option"
  lr_is_thunk :: thunk_or_not

definition new_call :: "i64 \<Rightarrow> i64 \<Rightarrow> link_record" where
  "new_call from target =
     \<lparr>lr_from = from, lr_to = target, lr_type = JumpNoCondition, lr_link_type = LinkInvalid,
      lr_condition = Cond_Invalid, lr_branch_type = LinkBranch_Call, lr_is_64bit = False,
      lr_bit_number = 0, lr_compare_register = None, lr_is_thunk = NotThunk\<rparr>"

definition new_jump :: "i64 \<Rightarrow> i64 \<Rightarrow> jump_type \<Rightarrow> arm_condition \<Rightarrow> link_record" where
  "new_jump from target type cond =
     \<lparr>lr_from = from, lr_to = target, lr_type = type, lr_link_type = LinkInvalid,
      lr_condition = cond, lr_branch_type = LinkBranch_Jmp, lr_is_64bit = False,
      lr_bit_number = 0, lr_compare_register = None, lr_is_thunk = NotThunk\<rparr>"

definition as_thunk :: "link_record \<Rightarrow> link_record" where
  "as_thunk r = r\<lparr>lr_is_thunk := Thunk\<rparr>"

definition is_int_bits :: "nat \<Rightarrow> i64 \<Rightarrow> bool" where
  "is_int_bits bits value =
     (let shift = 64 - bits in signed_drop_bit shift (push_bit shift value) = value)"

definition jump_size_delta :: "jump_type \<Rightarrow> jump_link_type \<Rightarrow> i32" where
  "jump_size_delta t l = jump_type_size t - jump_link_type_size l"

text \<open>The distance a conditional form is chosen by; a thunk is biased by the bytes the direct
form saves.\<close>

definition link_distance :: "link_record \<Rightarrow> jump_link_type \<Rightarrow> i64" where
  "link_distance r direct =
     (let relative = lr_to r - lr_from r
      in if lr_is_thunk r = Thunk then relative + scast (jump_size_delta (lr_type r) direct)
         else relative)"

definition chosen_link_type :: "link_record \<Rightarrow> jump_link_type" where
  "chosen_link_type r =
     (case lr_type r of
        JumpFixed \<Rightarrow> LinkInvalid
      | JumpNoConditionFixedSize \<Rightarrow> LinkJumpNoCondition
      | JumpConditionFixedSize \<Rightarrow> LinkJumpCondition
      | JumpCompareAndBranchFixedSize \<Rightarrow> LinkJumpCompareAndBranch
      | JumpTestBitFixedSize \<Rightarrow> LinkJumpTestBit
      | JumpNoCondition \<Rightarrow> LinkJumpNoCondition
      | JumpCondition \<Rightarrow>
          (if is_int_bits 21 (link_distance r LinkJumpConditionDirect)
           then LinkJumpConditionDirect else LinkJumpCondition)
      | JumpCompareAndBranch \<Rightarrow>
          (if is_int_bits 21 (link_distance r LinkJumpCompareAndBranchDirect)
           then LinkJumpCompareAndBranchDirect else LinkJumpCompareAndBranch)
      | JumpTestBit \<Rightarrow>
          (if is_int_bits 14 (link_distance r LinkJumpTestBitDirect)
           then LinkJumpTestBitDirect else LinkJumpTestBit))"

definition compute_jump_type :: "link_record \<Rightarrow> jump_link_type \<times> link_record" where
  "compute_jump_type r = (let l = chosen_link_type r in (l, r\<lparr>lr_link_type := l\<rparr>))"

section \<open>Patching\<close>

definition check_aligned :: "i64 \<Rightarrow> arm64_link_error + unit" where
  "check_aligned byte_offset =
     (if byte_offset AND 3 \<noteq> 0 then Inl (Misaligned (ucast byte_offset)) else Inr ())"

definition out_of_bounds :: "u8 list \<Rightarrow> i64 \<Rightarrow> bool" where
  "out_of_bounds code byte_offset \<longleftrightarrow>
     sint byte_offset < 0 \<or> length code < unat byte_offset + 4"

definition read_word_le :: "u8 list \<Rightarrow> i64 \<Rightarrow> arm64_link_error + u32" where
  "read_word_le code byte_offset =
     (if out_of_bounds code byte_offset then Inl (OutOfBounds (ucast byte_offset) (length code))
      else let i = unat byte_offset
           in Inr (ucast (code ! i) OR push_bit 8 (ucast (code ! (i + 1)))
                   OR push_bit 16 (ucast (code ! (i + 2))) OR push_bit 24 (ucast (code ! (i + 3)))))"

definition write_word_le :: "u8 list \<Rightarrow> i64 \<Rightarrow> u32 \<Rightarrow> arm64_link_error + u8 list" where
  "write_word_le code byte_offset word =
     (if out_of_bounds code byte_offset then Inl (OutOfBounds (ucast byte_offset) (length code))
      else let i = unat byte_offset
           in Inr (take i code @ to_le_bytes_u32 word @ drop (i + 4) code))"

definition link_jump_or_call :: "u8 list \<Rightarrow> i64 \<Rightarrow> i64 \<Rightarrow> bool \<Rightarrow> arm64_link_error + u8 list" where
  "link_jump_or_call code from target is_call =
     (case check_aligned from of
        Inl e \<Rightarrow> Inl e
      | Inr _ \<Rightarrow>
     (case check_aligned target of
        Inl e \<Rightarrow> Inl e
      | Inr _ \<Rightarrow>
          (let offset = signed_drop_bit 2 (target - from)
           in if \<not> is_int_bits 26 offset then Inl (OutOfRange offset 26)
              else let instruction = unconditional_branch_immediate is_call (ucast offset)
                   in write_word_le code from instruction)))"

definition link_conditional_branch_direct ::
  "u8 list \<Rightarrow> i64 \<Rightarrow> i64 \<Rightarrow> arm_condition \<Rightarrow> arm64_link_error + u8 list" where
  "link_conditional_branch_direct code from target cond =
     (case check_aligned from of
        Inl e \<Rightarrow> Inl e
      | Inr _ \<Rightarrow>
     (case check_aligned target of
        Inl e \<Rightarrow> Inl e
      | Inr _ \<Rightarrow>
          (let offset = signed_drop_bit 2 (target - from)
           in if \<not> is_int_bits 19 offset then Inl (OutOfRange offset 19)
              else let instruction = conditional_branch_immediate (ucast offset) cond
                   in write_word_le code from instruction)))"

text \<open>\<open>link\<close> also stores the link type in the record; the new record comes with the result.\<close>

definition link :: "link_record \<Rightarrow> u8 list \<Rightarrow> link_record \<times> (arm64_link_error + u8 list)" where
  "link r code =
     (let (link_type, r) = compute_jump_type r
      in (r, case link_type of
               LinkJumpNoCondition \<Rightarrow>
                 (case lr_branch_type r of
                    LinkBranch_Jmp \<Rightarrow> link_jump_or_call code (lr_from r) (lr_to r) False
                  | LinkBranch_Call \<Rightarrow> link_jump_or_call code (lr_from r) (lr_to r) True
                  | LinkBranch_Ret \<Rightarrow> Inl NotRelocatable)
             | LinkJumpConditionDirect \<Rightarrow>
                 link_conditional_branch_direct code (lr_from r) (lr_to r) (lr_condition r)
             | other \<Rightarrow> Inl (ExpansionUnsupported other)))"

section \<open>Labels, calls and jumps\<close>

record asm_label =
  label_token :: assembler_label

definition label_default :: asm_label where
  "label_default = \<lparr>label_token = UNSET\<rparr>"

definition label_new :: "assembler_label \<Rightarrow> asm_label" where
  "label_new l = \<lparr>label_token = l\<rparr>"

definition asm_label_is_set :: "asm_label \<Rightarrow> bool" where
  "asm_label_is_set l = label_is_set (label_token l)"

type_synonym call_flags = u8

definition CALL_NONE :: call_flags where "CALL_NONE = 0"
definition CALL_LINKABLE :: call_flags where "CALL_LINKABLE = 1"
definition CALL_NEAR :: call_flags where "CALL_NEAR = 2"
definition CALL_TAIL :: call_flags where "CALL_TAIL = 4"
definition CALL_LINKABLE_NEAR :: call_flags where "CALL_LINKABLE_NEAR = 1 OR 2"
definition CALL_LINKABLE_NEAR_TAIL :: call_flags where "CALL_LINKABLE_NEAR_TAIL = 1 OR 2 OR 4"

definition call_flag_is_set :: "call_flags \<Rightarrow> call_flags \<Rightarrow> bool" where
  "call_flag_is_set f flag \<longleftrightarrow> f AND flag \<noteq> 0"

record asm_call =
  call_label :: assembler_label
  call_flags :: call_flags

record asm_jump =
  jump_label :: assembler_label
  jump_type :: jump_type
  jump_condition :: arm_condition
  jump_is_64bit :: bool
  jump_bit_number :: u32
  jump_compare_register :: "register_id option"

definition call_new :: "assembler_label \<Rightarrow> call_flags \<Rightarrow> asm_call" where
  "call_new l f = \<lparr>call_label = l, call_flags = f\<rparr>"

definition from_tail_jump :: "asm_jump \<Rightarrow> asm_call" where
  "from_tail_jump j = \<lparr>call_label = jump_label j, call_flags = CALL_LINKABLE\<rparr>"

definition is_flag_set :: "asm_call \<Rightarrow> call_flags \<Rightarrow> bool" where
  "is_flag_set c flag = call_flag_is_set (call_flags c) flag"

definition call_to_link_record :: "asm_call \<Rightarrow> assembler_label \<Rightarrow> link_record" where
  "call_to_link_record c target = new_call (ucast (call_label c)) (ucast target)"

definition jump_new :: "assembler_label \<Rightarrow> jump_type \<Rightarrow> arm_condition \<Rightarrow> asm_jump" where
  "jump_new l type cond =
     \<lparr>jump_label = l, jump_type = type, jump_condition = cond, jump_is_64bit = False,
      jump_bit_number = 0, jump_compare_register = None\<rparr>"

definition jump_is_set :: "asm_jump \<Rightarrow> bool" where
  "jump_is_set j = label_is_set (jump_label j)"

definition jump_to_link_record :: "asm_jump \<Rightarrow> asm_label \<Rightarrow> link_record" where
  "jump_to_link_record j target =
     new_jump (ucast (jump_label j)) (ucast (label_token target)) (jump_type j) (jump_condition j)"

record patchable_jump =
  patchable_inner :: asm_jump

definition patchable_jump_new :: "asm_jump \<Rightarrow> patchable_jump" where
  "patchable_jump_new j = \<lparr>patchable_inner = j\<rparr>"

type_synonym jump_list = "asm_jump list"

definition jump_list_new :: jump_list where
  "jump_list_new = []"

definition jump_list_append :: "jump_list \<Rightarrow> asm_jump \<Rightarrow> jump_list" where
  "jump_list_append js j = js @ [j]"

definition jump_list_from_jump :: "asm_jump \<Rightarrow> jump_list" where
  "jump_list_from_jump j =
     (if jump_is_set j then jump_list_append jump_list_new j else jump_list_new)"

definition jump_list_append_list :: "jump_list \<Rightarrow> jump_list \<Rightarrow> jump_list" where
  "jump_list_append_list js other = js @ other"

definition jump_list_is_empty :: "jump_list \<Rightarrow> bool" where
  "jump_list_is_empty js \<longleftrightarrow> js = []"

definition jump_list_to_link_records :: "jump_list \<Rightarrow> asm_label \<Rightarrow> link_record list" where
  "jump_list_to_link_records js target = map (\<lambda>j. jump_to_link_record j target) js"

end
