(* ===== verification/Macro_Assembler.thy ===== *)
theory Macro_Assembler
  imports Arm64_Link
begin

text \<open>
  The composite operations of \<open>assembler/macro_assembler_arm64.rs\<close>.  \<open>MacroAssemblerArm64\<close>
  owns one field, the code buffer; an operation takes the buffer and returns the extended one,
  a branch returns the jump token as well.  The two scratch registers are \<open>ip0\<close> and \<open>ip1\<close>.
\<close>

section \<open>Conditions\<close>

datatype relational_condition =
    Rel_Equal | Rel_NotEqual | Rel_Above | Rel_AboveOrEqual | Rel_Below | Rel_BelowOrEqual
  | Rel_GreaterThan | Rel_GreaterThanOrEqual | Rel_LessThan | Rel_LessThanOrEqual

fun relational_arm64_condition :: "relational_condition \<Rightarrow> arm_condition" where
  "relational_arm64_condition Rel_Equal = Cond_Eq"
| "relational_arm64_condition Rel_NotEqual = Cond_Ne"
| "relational_arm64_condition Rel_Above = Cond_Hi"
| "relational_arm64_condition Rel_AboveOrEqual = Cond_Hs"
| "relational_arm64_condition Rel_Below = Cond_Lo"
| "relational_arm64_condition Rel_BelowOrEqual = Cond_Ls"
| "relational_arm64_condition Rel_GreaterThan = Cond_Gt"
| "relational_arm64_condition Rel_GreaterThanOrEqual = Cond_Ge"
| "relational_arm64_condition Rel_LessThan = Cond_Lt"
| "relational_arm64_condition Rel_LessThanOrEqual = Cond_Le"

datatype result_condition =
    Res_Carry | Res_Overflow | Res_Signed | Res_PositiveOrZero | Res_Zero | Res_NonZero

fun result_arm64_condition :: "result_condition \<Rightarrow> arm_condition" where
  "result_arm64_condition Res_Carry = Cond_Hs"
| "result_arm64_condition Res_Overflow = Cond_Vs"
| "result_arm64_condition Res_Signed = Cond_Mi"
| "result_arm64_condition Res_PositiveOrZero = Cond_Pl"
| "result_arm64_condition Res_Zero = Cond_Eq"
| "result_arm64_condition Res_NonZero = Cond_Ne"

section \<open>Immediates and predicates\<close>

definition DATA_TEMP_REGISTER :: register_id where "DATA_TEMP_REGISTER = IP0"
definition MEMORY_TEMP_REGISTER :: register_id where "MEMORY_TEMP_REGISTER = IP1"

definition masm_new :: code_buffer where "masm_new = []"

definition current_label :: "code_buffer \<Rightarrow> assembler_label" where
  "current_label b = of_nat (length b)"

definition masm_label :: "code_buffer \<Rightarrow> asm_label" where
  "masm_label b = label_new (current_label b)"

definition invert_add_op :: "add_op \<Rightarrow> add_op" where
  "invert_add_op op = (case op of AddOp_Add \<Rightarrow> AddOp_Sub | AddOp_Sub \<Rightarrow> AddOp_Add)"

definition is_uint12 :: "i32 \<Rightarrow> bool" where
  "is_uint12 v \<longleftrightarrow> v AND NOT 0xfff = 0"

definition try_extract_shifted_imm32 :: "i32 \<Rightarrow> (u32 \<times> bool \<times> bool) option" where
  "try_extract_shifted_imm32 immediate =
     (if is_uint12 immediate then Some (immediate AND 0xfff, False, False)
      else let negated = - immediate
           in if is_uint12 negated then Some (negated AND 0xfff, False, True)
      else let shifted = signed_drop_bit 12 immediate
           in if push_bit 12 shifted = immediate then
                (if is_uint12 shifted then Some (shifted AND 0xfff, True, False)
                 else let negated_shifted = - shifted
                      in if is_uint12 negated_shifted
                         then Some (negated_shifted AND 0xfff, True, True) else None)
              else None)"

definition is_valid_signed_imm9 :: "i32 \<Rightarrow> bool" where
  "is_valid_signed_imm9 v \<longleftrightarrow> v = signed_drop_bit 23 (push_bit 23 v)"

definition is_valid_scaled_uimm12 :: "mem_op_size \<Rightarrow> i32 \<Rightarrow> bool" where
  "is_valid_scaled_uimm12 sz offset =
     (let access = push_bit (unat (mem_op_size_u32 sz)) 1 :: i32;
          max_pimm = 4095 * access
      in if sint offset < 0 \<or> sint max_pimm < sint offset then False
         else offset AND (access - 1) = 0)"

definition scale_is_valid_for_size :: "mem_op_size \<Rightarrow> scale \<Rightarrow> bool" where
  "scale_is_valid_for_size sz scale =
     (if scale = TimesOne then True else of_nat (scale_log2 scale) = mem_op_size_u32 sz)"

section \<open>Moves\<close>

fun zero_or_negate_vote :: "u16 list \<Rightarrow> int \<Rightarrow> int" where
  "zero_or_negate_vote [] vote = vote"
| "zero_or_negate_vote (h # hs) vote =
     zero_or_negate_vote hs (if h = 0 then vote + 1 else if h = 0xffff then vote - 1 else vote)"

fun movz_loop ::
  "datasize \<Rightarrow> register_id \<Rightarrow> nat \<Rightarrow> u16 list \<Rightarrow> bool \<Rightarrow> code_buffer \<Rightarrow> code_buffer" where
  "movz_loop ds dest i [] need_clear b = b"
| "movz_loop ds dest i (h # hs) need_clear b =
     (if h \<noteq> 0 then
        let shift = 16 * of_nat i
        in if need_clear
           then movz_loop ds dest (i + 1) hs False (emit_move_wide ds MoveWideOp_Z dest h shift b)
           else movz_loop ds dest (i + 1) hs need_clear (emit_move_wide ds MoveWideOp_K dest h shift b)
      else movz_loop ds dest (i + 1) hs need_clear b)"

fun movn_loop ::
  "datasize \<Rightarrow> register_id \<Rightarrow> nat \<Rightarrow> u16 list \<Rightarrow> bool \<Rightarrow> code_buffer \<Rightarrow> code_buffer" where
  "movn_loop ds dest i [] need_clear b = b"
| "movn_loop ds dest i (h # hs) need_clear b =
     (if h \<noteq> 0xffff then
        let shift = 16 * of_nat i
        in if need_clear
           then movn_loop ds dest (i + 1) hs False
                  (emit_move_wide ds MoveWideOp_N dest (NOT h) shift b)
           else movn_loop ds dest (i + 1) hs need_clear (emit_move_wide ds MoveWideOp_K dest h shift b)
      else movn_loop ds dest (i + 1) hs need_clear b)"

definition move_internal :: "u64 \<Rightarrow> datasize \<Rightarrow> register_id \<Rightarrow> code_buffer \<Rightarrow> code_buffer" where
  "move_internal raw ds dest b =
     (let num_half = (case ds of D64 \<Rightarrow> 4 | _ \<Rightarrow> 2);
          msk = (if num_half = 4 then - 1 else 0xffffffff);
          v = raw AND msk
      in if v = 0 then emit_move_wide ds MoveWideOp_Z dest 0 0 b
         else if v = msk then emit_move_wide ds MoveWideOp_N dest 0 0 b
         else let halfwords = [ucast (v AND 0xffff), ucast (drop_bit 16 v AND 0xffff),
                               ucast (drop_bit 32 v AND 0xffff), ucast (drop_bit 48 v AND 0xffff)];
                  used = take num_half halfwords
              in if 0 \<le> zero_or_negate_vote used 0
                 then movz_loop ds dest 0 used True b
                 else movn_loop ds dest 0 used True b)"

definition move_imm32 :: "trusted_imm32 \<Rightarrow> register_id \<Rightarrow> code_buffer \<Rightarrow> code_buffer" where
  "move_imm32 imm dest = move_internal (ucast (imm32_value imm)) D32 dest"

definition move_imm64 :: "trusted_imm64 \<Rightarrow> register_id \<Rightarrow> code_buffer \<Rightarrow> code_buffer" where
  "move_imm64 imm dest = move_internal (imm64_value imm) D64 dest"

definition move_rr :: "register_id \<Rightarrow> register_id \<Rightarrow> code_buffer \<Rightarrow> code_buffer" where
  "move_rr src dest b =
     (if src = dest then b
      else if is_zr src \<and> \<not> is_sp dest then emit_move_wide D64 MoveWideOp_Z dest 0 0 b
      else emit_mov_reg D64 dest src b)"

definition zero_extend_32_to_word :: "register_id \<Rightarrow> register_id \<Rightarrow> code_buffer \<Rightarrow> code_buffer" where
  "zero_extend_32_to_word src dest =
     (if is_zr src \<and> \<not> is_sp dest then emit_move_wide D32 MoveWideOp_Z dest 0 0
      else emit_mov_reg D32 dest src)"

definition swap_regs :: "register_id \<Rightarrow> register_id \<Rightarrow> code_buffer \<Rightarrow> code_buffer" where
  "swap_regs reg1 reg2 b =
     (if reg1 = reg2 then b
      else move_rr DATA_TEMP_REGISTER reg2 (move_rr reg2 reg1 (move_rr reg1 DATA_TEMP_REGISTER b)))"

definition move_into_scratch ::
  "datasize \<Rightarrow> trusted_imm32 \<Rightarrow> register_id \<Rightarrow> code_buffer \<Rightarrow> code_buffer" where
  "move_into_scratch ds imm dest =
     (case ds of D64 \<Rightarrow> move_imm64 (trusted_imm64_new (scast (imm32_value imm))) dest
               | _ \<Rightarrow> move_imm32 imm dest)"

section \<open>Addition and subtraction\<close>

definition add32 ::
  "register_id \<Rightarrow> register_id \<Rightarrow> register_id \<Rightarrow> code_buffer \<Rightarrow> code_buffer" where
  "add32 a b dest =
     (let (a, b) = (if is_sp b then (b, a) else (a, b))
      in emit_add_sub_reg D32 AddOp_Add SetFlags_DontSetFlags dest a b)"

definition add64 ::
  "register_id \<Rightarrow> register_id \<Rightarrow> register_id \<Rightarrow> code_buffer \<Rightarrow> code_buffer" where
  "add64 a b dest =
     (let (a, b) = (if is_sp b then (b, a) else (a, b))
      in emit_add_sub_reg D64 AddOp_Add SetFlags_DontSetFlags dest a b)"

definition add32_rr ::
  "register_id \<Rightarrow> register_id \<Rightarrow> code_buffer \<Rightarrow> code_buffer" where
  "add32_rr src dest =
     (if is_sp src then emit_add_sub_reg D32 AddOp_Add SetFlags_DontSetFlags dest src dest
      else emit_add_sub_reg D32 AddOp_Add SetFlags_DontSetFlags dest dest src)"

definition sub32 ::
  "register_id \<Rightarrow> register_id \<Rightarrow> register_id \<Rightarrow> code_buffer \<Rightarrow> code_buffer" where
  "sub32 left right dest =
     emit_add_sub_reg D32 AddOp_Sub SetFlags_DontSetFlags dest left right"

definition sub64 ::
  "register_id \<Rightarrow> register_id \<Rightarrow> register_id \<Rightarrow> code_buffer \<Rightarrow> code_buffer" where
  "sub64 left right dest =
     emit_add_sub_reg D64 AddOp_Sub SetFlags_DontSetFlags dest left right"

definition sub32_rr ::
  "register_id \<Rightarrow> register_id \<Rightarrow> code_buffer \<Rightarrow> code_buffer" where
  "sub32_rr src dest = sub32 dest src dest"

definition neg32 ::
  "register_id \<Rightarrow> register_id \<Rightarrow> code_buffer \<Rightarrow> code_buffer" where
  "neg32 src dest = emit_add_sub_reg D32 AddOp_Sub SetFlags_DontSetFlags dest Zr src"

definition neg32_in_place ::
  "register_id \<Rightarrow> code_buffer \<Rightarrow> code_buffer" where
  "neg32_in_place dest = neg32 dest dest"

text \<open>The shared lowerings of an immediate operand.\<close>

definition add_sub_imm32 ::
  "add_op \<Rightarrow> set_flags \<Rightarrow> trusted_imm32 \<Rightarrow> register_id \<Rightarrow> register_id \<Rightarrow> code_buffer \<Rightarrow> code_buffer" where
  "add_sub_imm32 op s imm src dest b =
     (case try_extract_shifted_imm32 (imm32_value imm) of
        Some (u12, shift12, inverted) \<Rightarrow>
          (let op = (if inverted then invert_add_op op else op)
           in emit_add_sub_imm D32 op s dest src u12 shift12 b)
      | None \<Rightarrow>
          (if op = AddOp_Add \<and> src \<noteq> dest then add32_rr src dest (move_imm32 imm dest b)
           else emit_add_sub_reg D32 op s dest src DATA_TEMP_REGISTER
                  (move_imm32 imm DATA_TEMP_REGISTER b)))"

definition add_sub_imm64 ::
  "add_op \<Rightarrow> set_flags \<Rightarrow> trusted_imm32 \<Rightarrow> register_id \<Rightarrow> register_id \<Rightarrow> code_buffer \<Rightarrow> code_buffer" where
  "add_sub_imm64 op s imm src dest b =
     (case try_extract_shifted_imm32 (imm32_value imm) of
        Some (u12, shift12, inverted) \<Rightarrow>
          (let op = (if inverted then invert_add_op op else op)
           in emit_add_sub_imm D64 op s dest src u12 shift12 b)
      | None \<Rightarrow>
          emit_add_sub_reg D64 op s dest src DATA_TEMP_REGISTER
            (move_imm64 (trusted_imm64_new (scast (imm32_value imm))) DATA_TEMP_REGISTER b))"

definition add32_imm ::
  "trusted_imm32 \<Rightarrow> register_id \<Rightarrow> register_id \<Rightarrow> code_buffer \<Rightarrow> code_buffer" where
  "add32_imm imm src dest = add_sub_imm32 AddOp_Add SetFlags_DontSetFlags imm src dest"

definition add64_imm ::
  "trusted_imm32 \<Rightarrow> register_id \<Rightarrow> register_id \<Rightarrow> code_buffer \<Rightarrow> code_buffer" where
  "add64_imm imm src dest = add_sub_imm64 AddOp_Add SetFlags_DontSetFlags imm src dest"

definition sub32_imm ::
  "register_id \<Rightarrow> trusted_imm32 \<Rightarrow> register_id \<Rightarrow> code_buffer \<Rightarrow> code_buffer" where
  "sub32_imm left imm dest = add_sub_imm32 AddOp_Sub SetFlags_DontSetFlags imm left dest"

section \<open>Logic, shifts and multiplication\<close>

definition and32 ::
  "register_id \<Rightarrow> register_id \<Rightarrow> register_id \<Rightarrow> code_buffer \<Rightarrow> code_buffer" where
  "and32 op1 op2 dest = emit_logical_reg D32 LogicalOp_And dest op1 op2"

definition and32_rr ::
  "register_id \<Rightarrow> register_id \<Rightarrow> code_buffer \<Rightarrow> code_buffer" where
  "and32_rr src dest = and32 dest src dest"

definition or32 ::
  "register_id \<Rightarrow> register_id \<Rightarrow> register_id \<Rightarrow> code_buffer \<Rightarrow> code_buffer" where
  "or32 op1 op2 dest = emit_logical_reg D32 LogicalOp_Orr dest op1 op2"

definition or32_rr ::
  "register_id \<Rightarrow> register_id \<Rightarrow> code_buffer \<Rightarrow> code_buffer" where
  "or32_rr src dest = or32 dest src dest"

definition xor32 ::
  "register_id \<Rightarrow> register_id \<Rightarrow> register_id \<Rightarrow> code_buffer \<Rightarrow> code_buffer" where
  "xor32 op1 op2 dest = emit_logical_reg D32 LogicalOp_Eor dest op1 op2"

definition xor32_rr ::
  "register_id \<Rightarrow> register_id \<Rightarrow> code_buffer \<Rightarrow> code_buffer" where
  "xor32_rr src dest = xor32 dest src dest"

definition and64 ::
  "register_id \<Rightarrow> register_id \<Rightarrow> register_id \<Rightarrow> code_buffer \<Rightarrow> code_buffer" where
  "and64 op1 op2 dest = emit_logical_reg D64 LogicalOp_And dest op1 op2"

definition or64 ::
  "register_id \<Rightarrow> register_id \<Rightarrow> register_id \<Rightarrow> code_buffer \<Rightarrow> code_buffer" where
  "or64 op1 op2 dest = emit_logical_reg D64 LogicalOp_Orr dest op1 op2"

definition xor64 ::
  "register_id \<Rightarrow> register_id \<Rightarrow> register_id \<Rightarrow> code_buffer \<Rightarrow> code_buffer" where
  "xor64 op1 op2 dest = emit_logical_reg D64 LogicalOp_Eor dest op1 op2"

definition lshift32 ::
  "register_id \<Rightarrow> register_id \<Rightarrow> register_id \<Rightarrow> code_buffer \<Rightarrow> code_buffer" where
  "lshift32 src shift_amount dest =
     emit_shift_reg D32 DataOp2_Lslv dest src shift_amount"

definition lshift32_imm ::
  "register_id \<Rightarrow> trusted_imm32 \<Rightarrow> register_id \<Rightarrow> code_buffer \<Rightarrow> code_buffer" where
  "lshift32_imm src imm dest = emit_lsl_imm D32 dest src (imm32_value imm AND 0x1f)"

definition rshift32 ::
  "register_id \<Rightarrow> register_id \<Rightarrow> register_id \<Rightarrow> code_buffer \<Rightarrow> code_buffer" where
  "rshift32 src shift_amount dest =
     emit_shift_reg D32 DataOp2_Asrv dest src shift_amount"

definition rshift32_imm ::
  "register_id \<Rightarrow> trusted_imm32 \<Rightarrow> register_id \<Rightarrow> code_buffer \<Rightarrow> code_buffer" where
  "rshift32_imm src imm dest = emit_asr_imm D32 dest src (imm32_value imm AND 0x1f)"

definition urshift32 ::
  "register_id \<Rightarrow> register_id \<Rightarrow> register_id \<Rightarrow> code_buffer \<Rightarrow> code_buffer" where
  "urshift32 src shift_amount dest =
     emit_shift_reg D32 DataOp2_Lsrv dest src shift_amount"

definition urshift32_imm ::
  "register_id \<Rightarrow> trusted_imm32 \<Rightarrow> register_id \<Rightarrow> code_buffer \<Rightarrow> code_buffer" where
  "urshift32_imm src imm dest = emit_lsr_imm D32 dest src (imm32_value imm AND 0x1f)"

definition urshift64_imm ::
  "register_id \<Rightarrow> trusted_imm32 \<Rightarrow> register_id \<Rightarrow> code_buffer \<Rightarrow> code_buffer" where
  "urshift64_imm src imm dest = emit_lsr_imm D64 dest src (imm32_value imm AND 0x3f)"

definition mul32 ::
  "register_id \<Rightarrow> register_id \<Rightarrow> register_id \<Rightarrow> code_buffer \<Rightarrow> code_buffer" where
  "mul32 left right dest = emit_mul D32 dest left right"

definition mul32_rr ::
  "register_id \<Rightarrow> register_id \<Rightarrow> code_buffer \<Rightarrow> code_buffer" where
  "mul32_rr src dest = emit_mul D32 dest dest src"

section \<open>Floating point\<close>

definition move_double :: "fp_register_id \<Rightarrow> fp_register_id \<Rightarrow> code_buffer \<Rightarrow> code_buffer" where
  "move_double src dest b = (if src \<noteq> dest then emit_fmov_double dest src b else b)"

definition add_double ::
  "fp_register_id \<Rightarrow> fp_register_id \<Rightarrow> fp_register_id \<Rightarrow> code_buffer \<Rightarrow> code_buffer" where
  "add_double op1 op2 dest = emit_fadd_double dest op1 op2"

definition sub_double ::
  "fp_register_id \<Rightarrow> fp_register_id \<Rightarrow> fp_register_id \<Rightarrow> code_buffer \<Rightarrow> code_buffer" where
  "sub_double op1 op2 dest = emit_fsub_double dest op1 op2"

definition mul_double ::
  "fp_register_id \<Rightarrow> fp_register_id \<Rightarrow> fp_register_id \<Rightarrow> code_buffer \<Rightarrow> code_buffer" where
  "mul_double op1 op2 dest = emit_fmul_double dest op1 op2"

definition div_double ::
  "fp_register_id \<Rightarrow> fp_register_id \<Rightarrow> fp_register_id \<Rightarrow> code_buffer \<Rightarrow> code_buffer" where
  "div_double op1 op2 dest = emit_fdiv_double dest op1 op2"

definition convert_int32_to_double :: "register_id \<Rightarrow> fp_register_id \<Rightarrow> code_buffer \<Rightarrow> code_buffer" where
  "convert_int32_to_double src dest = emit_scvtf_int32_to_double dest src"

definition move_64_to_double :: "register_id \<Rightarrow> fp_register_id \<Rightarrow> code_buffer \<Rightarrow> code_buffer" where
  "move_64_to_double src dest = emit_fmov_gpr_to_double dest src"

definition move_double_to_64 :: "fp_register_id \<Rightarrow> register_id \<Rightarrow> code_buffer \<Rightarrow> code_buffer" where
  "move_double_to_64 src dest = emit_fmov_double_to_gpr dest src"

section \<open>Loads and stores\<close>

definition index_extend_type :: "extend \<Rightarrow> extend_type" where
  "index_extend_type ext =
     (case ext of Extend_ZExt32 \<Rightarrow> ExtendType_Uxtw | Extend_SExt32 \<Rightarrow> ExtendType_Sxtw
                | Extend_None \<Rightarrow> ExtendType_Uxtx)"

definition load_store_address ::
  "mem_op_size \<Rightarrow> mem_op \<Rightarrow> register_id \<Rightarrow> address \<Rightarrow> code_buffer \<Rightarrow> code_buffer" where
  "load_store_address sz op rt address b =
     (let offset = addr_offset address
      in if is_valid_signed_imm9 offset
         then emit_load_store_unscaled sz op rt (addr_base address) offset b
         else if is_valid_scaled_uimm12 sz offset
         then emit_load_store_unsigned sz op rt (addr_base address) offset b
         else emit_load_store_register_offset sz op rt (addr_base address) MEMORY_TEMP_REGISTER
                ExtendType_Uxtx False
                (move_imm64 (trusted_imm64_new (scast offset)) MEMORY_TEMP_REGISTER b))"

definition try_fold_base_and_offset ::
  "base_index \<Rightarrow> code_buffer \<Rightarrow> register_id option \<times> code_buffer" where
  "try_fold_base_and_offset address b =
     (if bx_offset address = 0 then (Some (bx_base address), b)
      else case try_extract_shifted_imm32 (bx_offset address) of
             Some (u12, shift12, inverted) \<Rightarrow>
               (let op = (if inverted then AddOp_Sub else AddOp_Add)
                in (Some MEMORY_TEMP_REGISTER,
                    emit_add_sub_imm D64 op SetFlags_DontSetFlags MEMORY_TEMP_REGISTER
                      (bx_base address) u12 shift12 b))
           | None \<Rightarrow> (None, b))"

text \<open>The path that computes the effective address in the memory scratch register.\<close>

definition load_store_base_index_fallback ::
  "mem_op_size \<Rightarrow> mem_op \<Rightarrow> register_id \<Rightarrow> base_index \<Rightarrow> code_buffer \<Rightarrow> code_buffer" where
  "load_store_base_index_fallback sz op rt address b =
     (let ext = index_extend_type (bx_extend address);
          b = move_imm64 (trusted_imm64_new (scast (bx_offset address))) MEMORY_TEMP_REGISTER b;
          b = emit_add_sub_extended_reg D64 AddOp_Add SetFlags_DontSetFlags MEMORY_TEMP_REGISTER
                MEMORY_TEMP_REGISTER (bx_index address) ext
                (of_nat (scale_log2 (bx_scale address))) b
      in emit_load_store_register_offset sz op rt (bx_base address) MEMORY_TEMP_REGISTER
           ExtendType_Uxtx False b)"

definition load_store_base_index ::
  "mem_op_size \<Rightarrow> mem_op \<Rightarrow> register_id \<Rightarrow> base_index \<Rightarrow> code_buffer \<Rightarrow> code_buffer" where
  "load_store_base_index sz op rt address b =
     (let ext = index_extend_type (bx_extend address);
          scaled = (scale_log2 (bx_scale address) \<noteq> 0)
      in if scale_is_valid_for_size sz (bx_scale address) then
           (case try_fold_base_and_offset address b of
              (Some base, b) \<Rightarrow>
                emit_load_store_register_offset sz op rt base (bx_index address) ext scaled b
            | (None, b) \<Rightarrow> load_store_base_index_fallback sz op rt address b)
         else load_store_base_index_fallback sz op rt address b)"

definition load64 :: "address \<Rightarrow> register_id \<Rightarrow> code_buffer \<Rightarrow> code_buffer" where
  "load64 address dest = load_store_address Size64 MemOp_Load dest address"

definition store64 :: "register_id \<Rightarrow> address \<Rightarrow> code_buffer \<Rightarrow> code_buffer" where
  "store64 src address = load_store_address Size64 MemOp_Store src address"

definition load64_indexed :: "base_index \<Rightarrow> register_id \<Rightarrow> code_buffer \<Rightarrow> code_buffer" where
  "load64_indexed address dest = load_store_base_index Size64 MemOp_Load dest address"

definition store64_indexed :: "register_id \<Rightarrow> base_index \<Rightarrow> code_buffer \<Rightarrow> code_buffer" where
  "store64_indexed src address = load_store_base_index Size64 MemOp_Store src address"

definition load32 :: "address \<Rightarrow> register_id \<Rightarrow> code_buffer \<Rightarrow> code_buffer" where
  "load32 address dest = load_store_address Size32 MemOp_Load dest address"

definition store32 :: "register_id \<Rightarrow> address \<Rightarrow> code_buffer \<Rightarrow> code_buffer" where
  "store32 src address = load_store_address Size32 MemOp_Store src address"

definition load32_indexed :: "base_index \<Rightarrow> register_id \<Rightarrow> code_buffer \<Rightarrow> code_buffer" where
  "load32_indexed address dest = load_store_base_index Size32 MemOp_Load dest address"

definition store32_indexed :: "register_id \<Rightarrow> base_index \<Rightarrow> code_buffer \<Rightarrow> code_buffer" where
  "store32_indexed src address = load_store_base_index Size32 MemOp_Store src address"

definition load8 :: "address \<Rightarrow> register_id \<Rightarrow> code_buffer \<Rightarrow> code_buffer" where
  "load8 address dest = load_store_address Size8Or128 MemOp_Load dest address"

definition store8 :: "register_id \<Rightarrow> address \<Rightarrow> code_buffer \<Rightarrow> code_buffer" where
  "store8 src address = load_store_address Size8Or128 MemOp_Store src address"

definition load8_indexed :: "base_index \<Rightarrow> register_id \<Rightarrow> code_buffer \<Rightarrow> code_buffer" where
  "load8_indexed address dest = load_store_base_index Size8Or128 MemOp_Load dest address"

definition store8_indexed :: "register_id \<Rightarrow> base_index \<Rightarrow> code_buffer \<Rightarrow> code_buffer" where
  "store8_indexed src address = load_store_base_index Size8Or128 MemOp_Store src address"

section \<open>Comparisons and branches\<close>

definition cmp_regs :: "datasize \<Rightarrow> register_id \<Rightarrow> register_id \<Rightarrow> code_buffer \<Rightarrow> code_buffer" where
  "cmp_regs ds rn rm = emit_add_sub_reg ds AddOp_Sub SetFlags_S Zr rn rm"

definition cmp_imm :: "datasize \<Rightarrow> register_id \<Rightarrow> trusted_imm32 \<Rightarrow> code_buffer \<Rightarrow> code_buffer" where
  "cmp_imm ds left imm b =
     (case try_extract_shifted_imm32 (imm32_value imm) of
        Some (u12, shift12, inverted) \<Rightarrow>
          (let op = (if inverted then AddOp_Add else AddOp_Sub)
           in emit_add_sub_imm ds op SetFlags_S Zr left u12 shift12 b)
      | None \<Rightarrow> cmp_regs ds left DATA_TEMP_REGISTER (move_into_scratch ds imm DATA_TEMP_REGISTER b))"

definition make_branch :: "arm_condition \<Rightarrow> code_buffer \<Rightarrow> asm_jump \<times> code_buffer" where
  "make_branch cond b =
     (let label = current_label b; b = emit_b_cond cond 0 b; b = emit_nop b
      in (jump_new label JumpCondition cond, b))"

definition branch32 ::
  "relational_condition \<Rightarrow> register_id \<Rightarrow> register_id \<Rightarrow> code_buffer \<Rightarrow> asm_jump \<times> code_buffer" where
  "branch32 cond left right b =
     make_branch (relational_arm64_condition cond) (cmp_regs D32 left right b)"

definition branch32_imm ::
  "relational_condition \<Rightarrow> register_id \<Rightarrow> trusted_imm32 \<Rightarrow> code_buffer \<Rightarrow> asm_jump \<times> code_buffer" where
  "branch32_imm cond left right b =
     make_branch (relational_arm64_condition cond) (cmp_imm D32 left right b)"

definition branch64 ::
  "relational_condition \<Rightarrow> register_id \<Rightarrow> register_id \<Rightarrow> code_buffer \<Rightarrow> asm_jump \<times> code_buffer" where
  "branch64 cond left right b =
     (let (right, b) = (if is_sp right then (DATA_TEMP_REGISTER, move_rr right DATA_TEMP_REGISTER b)
                        else (right, b))
      in make_branch (relational_arm64_condition cond) (cmp_regs D64 left right b))"

definition branch_ptr ::
  "relational_condition \<Rightarrow> register_id \<Rightarrow> register_id \<Rightarrow> code_buffer \<Rightarrow> asm_jump \<times> code_buffer" where
  "branch_ptr cond left right = branch64 cond left right"

definition branch_test32 ::
  "result_condition \<Rightarrow> register_id \<Rightarrow> register_id \<Rightarrow> code_buffer \<Rightarrow> asm_jump \<times> code_buffer" where
  "branch_test32 cond reg msk b =
     make_branch (result_arm64_condition cond) (emit_logical_reg D32 LogicalOp_Ands Zr reg msk b)"

definition branch_test64 ::
  "result_condition \<Rightarrow> register_id \<Rightarrow> register_id \<Rightarrow> code_buffer \<Rightarrow> asm_jump \<times> code_buffer" where
  "branch_test64 cond reg msk b =
     make_branch (result_arm64_condition cond) (emit_logical_reg D64 LogicalOp_Ands Zr reg msk b)"

definition branch_mul32 ::
  "result_condition \<Rightarrow> register_id \<Rightarrow> register_id \<Rightarrow> register_id \<Rightarrow> code_buffer
   \<Rightarrow> asm_jump \<times> code_buffer" where
  "branch_mul32 cond src1 src2 dest b =
     (if cond \<noteq> Res_Overflow then branch_test32 cond dest dest (mul32 src1 src2 dest b)
      else let b = emit_smull dest src1 src2 b;
               b = emit_add_sub_extended_reg D64 AddOp_Sub SetFlags_S Zr dest dest
                     ExtendType_Sxtw 0 b;
               b = zero_extend_32_to_word dest dest b
           in make_branch (relational_arm64_condition Rel_NotEqual) b)"

definition branch_add32 ::
  "result_condition \<Rightarrow> register_id \<Rightarrow> register_id \<Rightarrow> register_id \<Rightarrow> code_buffer
   \<Rightarrow> asm_jump \<times> code_buffer" where
  "branch_add32 cond op1 op2 dest b =
     make_branch (result_arm64_condition cond) (emit_add_sub_reg D32 AddOp_Add SetFlags_S dest op1 op2 b)"

definition branch_sub32 ::
  "result_condition \<Rightarrow> register_id \<Rightarrow> register_id \<Rightarrow> register_id \<Rightarrow> code_buffer
   \<Rightarrow> asm_jump \<times> code_buffer" where
  "branch_sub32 cond op1 op2 dest b =
     make_branch (result_arm64_condition cond) (emit_add_sub_reg D32 AddOp_Sub SetFlags_S dest op1 op2 b)"

section \<open>Jumps, calls and the stack\<close>

definition masm_jump :: "code_buffer \<Rightarrow> asm_jump \<times> code_buffer" where
  "masm_jump b =
     (let label = current_label b in (jump_new label JumpNoCondition Cond_Invalid, emit_b 0 b))"

definition near_call :: "code_buffer \<Rightarrow> asm_call \<times> code_buffer" where
  "near_call b = (let label = current_label b in (call_new label CALL_LINKABLE_NEAR, emit_bl 0 b))"

definition far_call :: "trusted_imm64 \<Rightarrow> code_buffer \<Rightarrow> asm_call \<times> code_buffer" where
  "far_call target b =
     (let b = move_imm64 target DATA_TEMP_REGISTER b; label = current_label b
      in (call_new label CALL_NONE, emit_blr DATA_TEMP_REGISTER b))"

definition call_register :: "register_id \<Rightarrow> code_buffer \<Rightarrow> asm_call \<times> code_buffer" where
  "call_register target b =
     (let label = current_label b in (call_new label CALL_NONE, emit_blr target b))"

definition masm_ret :: "code_buffer \<Rightarrow> code_buffer" where
  "masm_ret = emit_ret"

definition masm_nop :: "code_buffer \<Rightarrow> code_buffer" where
  "masm_nop = emit_nop"

definition push_pair :: "register_id \<Rightarrow> register_id \<Rightarrow> code_buffer \<Rightarrow> code_buffer" where
  "push_pair src1 src2 = emit_stp_pre_index64 src1 src2 Sp (- 16)"

definition pop_pair :: "register_id \<Rightarrow> register_id \<Rightarrow> code_buffer \<Rightarrow> code_buffer" where
  "pop_pair dest1 dest2 = emit_ldp_post_index64 dest1 dest2 Sp 16"

end
