(* ===== verification/Macro_Moves.thy ===== *)
theory Macro_Moves
  imports Arm64_Emitted Macro_Assembler
begin

text \<open>
  The immediate moves of \<open>assembler/macro_assembler_arm64.rs\<close> and \<open>assembler/arm64_encoder.rs\<close>:
  whatever mixture of \<open>movz\<close>, \<open>movn\<close> and \<open>movk\<close> they choose, the register holds the value.
  The register moves and the exchange of two registers.
\<close>

section \<open>Halfwords\<close>

text \<open>The value whose 16-bit digits from digit \<open>i\<close> on are \<open>hs\<close>.\<close>

fun joined :: "nat \<Rightarrow> u16 list \<Rightarrow> u64" where
  "joined i [] = 0"
| "joined i (h # hs) = push_bit (16 * i) (ucast h) OR joined (i + 1) hs"

definition halfwords :: "u64 \<Rightarrow> u16 list" where
  "halfwords v = [ucast (v AND 0xffff), ucast (drop_bit 16 v AND 0xffff),
                  ucast (drop_bit 32 v AND 0xffff), ucast (drop_bit 48 v AND 0xffff)]"

lemma mask_halfword: "(0xffff :: u64) = mask 16"
  by (simp add: mask_eq_exp_minus_1)

lemma halfwords_alt:
  "halfwords v = [ucast v, ucast (drop_bit 16 v), ucast (drop_bit 32 v), ucast (drop_bit 48 v)]"
  unfolding halfwords_def mask_halfword by (auto intro!: bit_word_eqI simp: bit_simps)

lemma joined_halfwords: "joined 0 (halfwords v) = v"
proof (rule bit_word_eqI)
  fix n :: nat
  assume "n < LENGTH(64)"
  then show "bit (joined 0 (halfwords v)) n = bit v n"
    by (cases "48 \<le> n"; cases "32 \<le> n"; cases "16 \<le> n")
      (auto simp: halfwords_alt bit_simps not_le)
qed

lemma joined_halfwords2: "joined 0 (take 2 (halfwords v)) = take_bit 32 v"
proof (rule bit_word_eqI)
  fix n :: nat
  assume "n < LENGTH(64)"
  then show "bit (joined 0 (take 2 (halfwords v))) n = bit (take_bit 32 v) n"
    by (cases "16 \<le> n") (auto simp: halfwords_alt bit_simps not_le numeral_2_eq_2)
qed

section \<open>The chosen instructions\<close>

definition half_count :: "datasize \<Rightarrow> nat" where
  "half_count ds = (if ds = D64 then 4 else 2)"

fun movz_code :: "datasize \<Rightarrow> register_id \<Rightarrow> nat \<Rightarrow> u16 list \<Rightarrow> bool \<Rightarrow> a64 list" where
  "movz_code ds rd i [] c = []"
| "movz_code ds rd i (h # hs) c =
     (if h \<noteq> 0
      then MoveWide ds (if c then MoveWideOp_Z else MoveWideOp_K) (of_nat i) h rd #
           movz_code ds rd (i + 1) hs False
      else movz_code ds rd (i + 1) hs c)"

fun movn_code :: "datasize \<Rightarrow> register_id \<Rightarrow> nat \<Rightarrow> u16 list \<Rightarrow> bool \<Rightarrow> a64 list" where
  "movn_code ds rd i [] c = []"
| "movn_code ds rd i (h # hs) c =
     (if h \<noteq> 0xffff
      then (if c then MoveWide ds MoveWideOp_N (of_nat i) (NOT h) rd
            else MoveWide ds MoveWideOp_K (of_nat i) h rd) # movn_code ds rd (i + 1) hs False
      else movn_code ds rd (i + 1) hs c)"

lemma emit_wide:
  assumes "i < 4"
  shows "emit_move_wide ds op rd h (16 * of_nat i) b = b @ code_of [MoveWide ds op (of_nat i) h rd]"
proof -
  have "drop_bit 4 (16 * of_nat i :: u32) = of_nat i"
    using assms
    by (intro word_unat_eq_iff [THEN iffD2]) (simp add: unat_drop_bit_div unat_word_ariths unat_of_nat)
  moreover have "ucast (of_nat i :: u32) = (of_nat i :: 2 word)"
    using assms by (intro word_unat_eq_iff [THEN iffD2]) (simp add: unat_ucast_mod unat_of_nat)
  moreover have "(of_nat i :: u32) < 4"
    using assms by (simp add: word_less_nat_alt unat_of_nat)
  ultimately show ?thesis using emit_move_wide [of "16 * of_nat i" ds op rd h b] by simp
qed

lemma movz_loop_code:
  "i + length hs \<le> 4 \<Longrightarrow> movz_loop ds rd i hs c b = b @ code_of (movz_code ds rd i hs c)"
  by (induction hs arbitrary: i c b) (simp_all add: Let_def emit_wide)

lemma movn_loop_code:
  "i + length hs \<le> 4 \<Longrightarrow> movn_loop ds rd i hs c b = b @ code_of (movn_code ds rd i hs c)"
  by (induction hs arbitrary: i c b) (simp_all add: Let_def emit_wide)

definition is_wide :: "datasize \<Rightarrow> register_id \<Rightarrow> a64 \<Rightarrow> bool" where
  "is_wide ds rd ins \<longleftrightarrow> (\<exists>op i h. ins = MoveWide ds op (of_nat i) h rd \<and> i < half_count ds)"

lemma is_wideI: "i < half_count ds \<Longrightarrow> is_wide ds rd (MoveWide ds op (of_nat i) h rd)"
  unfolding is_wide_def by blast

lemma movz_wide: "i + length hs \<le> half_count ds \<Longrightarrow> list_all (is_wide ds rd) (movz_code ds rd i hs c)"
  by (induction hs arbitrary: i c) (simp_all add: is_wideI)

lemma movn_wide: "i + length hs \<le> half_count ds \<Longrightarrow> list_all (is_wide ds rd) (movn_code ds rd i hs c)"
  by (induction hs arbitrary: i c) (simp_all add: is_wideI)

lemma wide_legal:
  assumes "gpr_size ds" "rd \<noteq> Sp" "list_all (is_wide ds rd) is"
  shows "list_all legal is" and "list_all straight is"
proof -
  have "(of_nat i :: 2 word) < 2" if "i < 2" for i
    using that by (simp add: word_less_nat_alt unat_of_nat)
  then have "legal i \<and> straight i" if "is_wide ds rd i" for i
    using that assms(1,2) by (auto simp: is_wide_def half_count_def elim!: gpr_sizeE)
  then show "list_all legal is" and "list_all straight is"
    using assms(3) by (auto simp: list_all_iff)
qed

lemma changes_only_refl [simp]: "changes_only D s s"
  by (simp add: changes_only_def)

lemma changes_only_trans:
  "changes_only D s s' \<Longrightarrow> changes_only E s' s'' \<Longrightarrow> changes_only (D \<union> E) s s''"
  by (simp add: changes_only_def)

lemma changes_only_mono: "changes_only D s s' \<Longrightarrow> D \<subseteq> E \<Longrightarrow> changes_only E s s'"
  by (auto simp: changes_only_def)

lemma wide_changes: "list_all (is_wide ds rd) is \<Longrightarrow> changes_only {rd} s (exec_list is s)"
proof (induction "is" arbitrary: s)
  case (Cons i "is")
  then have "changes_only {rd} s (exec i s)"
    by (auto simp: is_wide_def changes_only_def Let_def)
  with Cons show ?case using changes_only_trans [of "{rd}" s "exec i s" "{rd}"] by simp
qed simp

section \<open>The value in the register\<close>

lemma narrow_id: "take_bit (16 * half_count ds) v = v \<Longrightarrow> gpr_size ds \<Longrightarrow> narrow ds v = v"
proof (elim gpr_sizeE)
  assume v: "take_bit (16 * half_count ds) v = v" and d: "ds = D32"
  have "ucast (ucast v :: u32) = take_bit 32 v"
    by (rule bit_word_eqI) (auto simp: bit_simps)
  with v d show ?thesis by (simp add: narrow_def half_count_def)
qed (simp add: narrow_def)

lemma take_bit_weaken: "take_bit m v = v \<Longrightarrow> m \<le> n \<Longrightarrow> take_bit n v = v" for v :: "'a::len word"
  by (metis min.absorb2 take_bit_take_bit)

lemma take_bit_digit:
  assumes "take_bit (16 * i) v = v"
  shows "take_bit (16 * (i + 1)) (v OR push_bit (16 * i) (ucast (h :: u16))) =
    (v OR push_bit (16 * i) (ucast h) :: u64)"
    and "v AND NOT (push_bit (16 * i) (mask 16)) = v"
proof -
  have v: "bit v n \<Longrightarrow> n < 16 * i" for n
    using assms by (metis bit_take_bit_iff)
  show "take_bit (16 * (i + 1)) (v OR push_bit (16 * i) (ucast h)) = v OR push_bit (16 * i) (ucast h)"
    by (rule bit_word_eqI) (auto simp: bit_simps dest: v bit_imp_le_length)
  show "v AND NOT (push_bit (16 * i) (mask 16)) = v"
    by (rule bit_word_eqI) (auto simp: bit_simps dest: v)
qed

lemma two_bit_index: "i < half_count ds \<Longrightarrow> unat (of_nat i :: 2 word) = i"
  by (auto simp: half_count_def unat_of_nat split: if_splits)

lemma exec_wide_value:
  assumes "i < half_count ds" "rd \<noteq> Zr"
  shows "get_x (exec (MoveWide ds op (of_nat i) h rd) s) rd = narrow ds
    (case op of MoveWideOp_N \<Rightarrow> NOT (push_bit (16 * i) (ucast h))
              | MoveWideOp_Z \<Rightarrow> push_bit (16 * i) (ucast h)
              | MoveWideOp_K \<Rightarrow> get_x s rd AND NOT (push_bit (16 * i) (mask 16))
                                OR push_bit (16 * i) (ucast h))"
  using assms(2) by (simp add: Let_def two_bit_index [OF assms(1)])

lemma movz_value:
  assumes "gpr_size ds" "rd \<noteq> Zr"
  shows "i + length hs \<le> half_count ds \<Longrightarrow> take_bit (16 * i) v = v \<Longrightarrow>
    (if c then v = 0 else get_x s rd = v) \<Longrightarrow>
    get_x (exec_list (movz_code ds rd i hs c) s) rd =
      (if c \<and> set hs \<subseteq> {0} then get_x s rd else v OR joined i hs)"
proof (induction hs arbitrary: i v c s)
  case Nil
  then show ?case by (auto split: if_splits)
next
  case (Cons h hs)
  let ?v = "v OR push_bit (16 * i) (ucast h)"
  have tb: "take_bit (16 * (i + 1)) ?v = ?v" and tb0: "take_bit (16 * (i + 1)) v = v"
    using take_bit_digit(1) [OF Cons.prems(2), of h] take_bit_weaken [OF Cons.prems(2)] by simp_all
  show ?case
  proof (cases "h = 0")
    case True
    then show ?thesis
      using Cons.IH [of "i + 1" v c s] Cons.prems tb0 by simp
  next
    case False
    let ?i = "MoveWide ds (if c then MoveWideOp_Z else MoveWideOp_K) (of_nat i) h rd"
    have le: "i < half_count ds" "16 * (i + 1) \<le> 16 * half_count ds"
      using Cons.prems(1) by simp_all
    have n: "narrow ds ?v = ?v" by (rule narrow_id [OF take_bit_weaken [OF tb le(2)] assms(1)])
    have "get_x (exec ?i s) rd = ?v"
    proof (cases c)
      case True
      with Cons.prems(3) have "v = 0" by simp
      with n True show ?thesis by (simp only: exec_wide_value [OF le(1) assms(2)] if_True
            move_wide_op.case or.left_neutral)
    next
      case c: False
      with Cons.prems(3) have "get_x s rd = v" by simp
      with n c take_bit_digit(2) [OF Cons.prems(2)] show ?thesis
        by (simp only: exec_wide_value [OF le(1) assms(2)] if_False move_wide_op.case)
    qed
    then show ?thesis
      using Cons.IH [of "i + 1" ?v False "exec ?i s"] Cons.prems(1) tb False
      by (simp add: or.assoc)
  qed
qed

lemma bit_narrow:
  "gpr_size ds \<Longrightarrow> bit (narrow ds v) n \<longleftrightarrow> bit v n \<and> n < 16 * half_count ds"
  by (elim gpr_sizeE)
    (auto simp: narrow_def half_count_def bit_simps dest: bit_imp_le_length)

lemma movn_step:
  assumes "gpr_size ds" "take_bit (16 * i) w = w"
  shows "narrow ds (narrow ds (NOT w) AND NOT (push_bit (16 * i) (mask 16)) OR
      push_bit (16 * i) (ucast (h :: u16))) =
    narrow ds (NOT (w OR push_bit (16 * i) (ucast (NOT h))))"
proof (rule bit_word_eqI)
  fix n :: nat
  have "bit w n \<Longrightarrow> n < 16 * i"
    using assms(2) by (metis bit_take_bit_iff)
  then show "bit (narrow ds (narrow ds (NOT w) AND NOT (push_bit (16 * i) (mask 16)) OR
      push_bit (16 * i) (ucast (h :: u16)))) n =
    bit (narrow ds (NOT (w OR push_bit (16 * i) (ucast (NOT h))))) n"
    by (auto simp: bit_narrow [OF assms(1)] bit_simps dest: bit_imp_le_length)
qed

lemma NOT_ones_iff: "NOT h = 0 \<longleftrightarrow> h = (0xffff :: u16)"
proof -
  have "(0xffff :: u16) = NOT 0" by simp
  then show ?thesis by (metis bit.double_compl)
qed

lemma movn_value:
  assumes "gpr_size ds" "rd \<noteq> Zr"
  shows "i + length hs \<le> half_count ds \<Longrightarrow> take_bit (16 * i) w = w \<Longrightarrow>
    (if c then w = 0 else get_x s rd = narrow ds (NOT w)) \<Longrightarrow>
    get_x (exec_list (movn_code ds rd i hs c) s) rd =
      (if c \<and> set hs \<subseteq> {0xffff} then get_x s rd
       else narrow ds (NOT (w OR joined i (map (\<lambda>h. NOT h) hs))))"
proof (induction hs arbitrary: i w c s)
  case Nil
  then show ?case by (auto split: if_splits)
next
  case (Cons h hs)
  let ?w = "w OR push_bit (16 * i) (ucast (NOT h))"
  have tb: "take_bit (16 * (i + 1)) ?w = ?w" and tb0: "take_bit (16 * (i + 1)) w = w"
    using take_bit_digit(1) [OF Cons.prems(2), of "NOT h"] take_bit_weaken [OF Cons.prems(2)]
    by simp_all
  show ?case
  proof (cases "h = 0xffff")
    case True
    then show ?thesis
      using Cons.IH [of "i + 1" w c s] Cons.prems tb0 by simp
  next
    case False
    let ?i = "if c then MoveWide ds MoveWideOp_N (of_nat i) (NOT h) rd
              else MoveWide ds MoveWideOp_K (of_nat i) h rd"
    have le: "i < half_count ds" using Cons.prems(1) by simp
    have "get_x (exec ?i s) rd = narrow ds (NOT ?w)"
    proof (cases c)
      case True
      with Cons.prems(3) have "w = 0" by simp
      with True show ?thesis by (simp only: exec_wide_value [OF le assms(2)] if_True
            move_wide_op.case or.left_neutral)
    next
      case c: False
      with Cons.prems(3) have "get_x s rd = narrow ds (NOT w)" by simp
      with c movn_step [OF assms(1) Cons.prems(2), of h] show ?thesis
        by (simp only: exec_wide_value [OF le assms(2)] if_False move_wide_op.case)
    qed
    then show ?thesis
      using Cons.IH [of "i + 1" ?w False "exec ?i s"] Cons.prems(1) tb False
      by (simp add: or.assoc)
  qed
qed

lemma negated_halfwords:
  assumes "gpr_size ds"
  shows "narrow ds (NOT (joined 0 (map (\<lambda>h. NOT h) (take (half_count ds) (halfwords v))))) =
    narrow ds v"
proof (rule bit_word_eqI)
  fix n :: nat
  assume "n < LENGTH(64)"
  then show "bit (narrow ds (NOT (joined 0 (map (\<lambda>h. NOT h) (take (half_count ds) (halfwords v)))))) n
      = bit (narrow ds v) n"
    using assms
    by (elim gpr_sizeE; cases "48 \<le> n"; cases "32 \<le> n"; cases "16 \<le> n")
      (auto simp: bit_narrow half_count_def halfwords_alt bit_simps not_le numeral_2_eq_2)
qed

lemma joined_narrow:
  assumes "gpr_size ds"
  shows "joined 0 (take (half_count ds) (halfwords v)) = narrow ds v"
  using assms
proof (elim gpr_sizeE)
  assume "ds = D32"
  then show ?thesis
    by (simp add: half_count_def joined_halfwords2 bit_eq_iff bit_narrow gpr_size_def)
       (auto simp: bit_simps bit_narrow gpr_size_def half_count_def)
next
  assume "ds = D64"
  moreover have "take 4 (halfwords v) = halfwords v" by (simp add: halfwords_def)
  ultimately show ?thesis by (simp add: half_count_def joined_halfwords narrow_def)
qed

section \<open>The move operations\<close>

definition move_code :: "u64 \<Rightarrow> datasize \<Rightarrow> register_id \<Rightarrow> a64 list" where
  "move_code raw ds rd =
     (let v = narrow ds raw; hs = take (half_count ds) (halfwords v)
      in if v = 0 then [MoveWide ds MoveWideOp_Z 0 0 rd]
         else if v = narrow ds (- 1) then [MoveWide ds MoveWideOp_N 0 0 rd]
         else if 0 \<le> zero_or_negate_vote hs 0 then movz_code ds rd 0 hs True
         else movn_code ds rd 0 hs True)"

lemma narrow_take_bit: "narrow ds v = (if ds = D32 then take_bit 32 v else v)"
  by (auto simp: narrow_def intro!: bit_word_eqI simp: bit_simps)

lemma narrow_narrow [simp]: "narrow ds (narrow ds v) = narrow ds v"
  by (simp add: narrow_take_bit)

lemma narrow_mask:
  assumes "gpr_size ds"
  shows "(if half_count ds = 4 then - 1 else 0xffffffff) = narrow ds (- 1 :: u64)"
    and "raw AND narrow ds (- 1) = narrow ds raw"
proof -
  have "(0xffffffff :: u64) = mask 32" by (simp add: mask_eq_exp_minus_1)
  then show "(if half_count ds = 4 then - 1 else 0xffffffff) = narrow ds (- 1 :: u64)"
    using assms by (elim gpr_sizeE) (simp_all add: half_count_def narrow_take_bit take_bit_eq_mask)
  show "raw AND narrow ds (- 1) = narrow ds raw"
    by (simp add: narrow_take_bit take_bit_eq_mask)
qed

lemma half_count_case: "gpr_size ds \<Longrightarrow> (case ds of D64 \<Rightarrow> 4 | _ \<Rightarrow> 2) = half_count ds"
  by (elim gpr_sizeE) (simp_all add: half_count_def)

lemma length_used [simp]: "length (take (half_count ds) (halfwords v)) = half_count ds"
  by (simp add: half_count_def halfwords_def)

lemma half_count_le: "half_count ds \<le> 4"
  by (simp add: half_count_def)

lemma move_internal_code:
  assumes "gpr_size ds"
  shows "move_internal raw ds rd b = b @ code_of (move_code raw ds rd)"
proof -
  let ?v = "narrow ds raw"
  have e: "move_internal raw ds rd b =
    (if ?v = 0 then emit_move_wide ds MoveWideOp_Z rd 0 0 b
     else if ?v = narrow ds (- 1) then emit_move_wide ds MoveWideOp_N rd 0 0 b
     else if 0 \<le> zero_or_negate_vote (take (half_count ds) (halfwords ?v)) 0
     then movz_loop ds rd 0 (take (half_count ds) (halfwords ?v)) True b
     else movn_loop ds rd 0 (take (half_count ds) (halfwords ?v)) True b)"
    unfolding move_internal_def half_count_case [OF assms] Let_def narrow_mask [OF assms]
      halfwords_def ..
  show ?thesis
    unfolding e move_code_def Let_def
    using emit_wide [of 0 ds] half_count_le [of ds]
    by (simp add: movz_loop_code movn_loop_code)
qed

lemma move_code_wide:
  "gpr_size ds \<Longrightarrow> list_all (is_wide ds rd) (move_code raw ds rd)"
  using is_wideI [of 0 ds rd]
  by (auto simp: move_code_def Let_def movz_wide movn_wide half_count_def)

lemma used_zero:
  assumes "gpr_size ds" "set (take (half_count ds) (halfwords (narrow ds raw))) \<subseteq> {0}"
  shows "narrow ds raw = 0"
proof -
  have z: "set hs \<subseteq> {0} \<Longrightarrow> joined i hs = 0" for hs i
    by (induction hs arbitrary: i) auto
  have "narrow ds (narrow ds raw) = 0"
    using z [OF assms(2), of 0] by (simp only: joined_narrow [OF assms(1)])
  then show ?thesis by simp
qed

lemma used_ones:
  assumes "gpr_size ds" "set (take (half_count ds) (halfwords (narrow ds raw))) \<subseteq> {0xffff}"
  shows "narrow ds raw = narrow ds (- 1)"
proof -
  have z: "set hs \<subseteq> {0xffff} \<Longrightarrow> joined i (map (\<lambda>h. NOT h) hs) = 0" for hs i
    by (induction hs arbitrary: i) auto
  have "narrow ds (narrow ds raw) = narrow ds (NOT 0)"
    using negated_halfwords [OF assms(1), of "narrow ds raw"] z [OF assms(2), of 0] by simp
  then show ?thesis by simp
qed

lemma move_code_value:
  assumes "gpr_size ds" "rd \<noteq> Zr"
  shows "get_x (exec_list (move_code raw ds rd) s) rd = narrow ds raw"
proof -
  let ?v = "narrow ds raw"
  let ?hs = "take (half_count ds) (halfwords ?v)"
  consider "?v = 0" | "?v \<noteq> 0" "?v = narrow ds (- 1)"
    | "?v \<noteq> 0" "?v \<noteq> narrow ds (- 1)" "0 \<le> zero_or_negate_vote ?hs 0"
    | "?v \<noteq> 0" "?v \<noteq> narrow ds (- 1)" "\<not> 0 \<le> zero_or_negate_vote ?hs 0" by blast
  then show ?thesis
  proof cases
    case 3
    then have "\<not> set ?hs \<subseteq> {0}" using used_zero [OF assms(1)] by blast
    then show ?thesis
      using movz_value [OF assms, of 0 ?hs 0 True s] 3
      by (simp add: move_code_def Let_def joined_narrow [OF assms(1)])
  next
    case 4
    then have "\<not> set ?hs \<subseteq> {0xffff}" using used_ones [OF assms(1)] by blast
    then show ?thesis
      using movn_value [OF assms, of 0 ?hs 0 True s] 4 negated_halfwords [OF assms(1), of ?v]
      by (simp add: move_code_def Let_def)
  qed (use assms in \<open>auto simp: move_code_def Let_def narrow_def\<close>)
qed

lemma move_internal_appends:
  "gpr_size ds \<Longrightarrow> rd \<noteq> Sp \<Longrightarrow> appends (move_internal raw ds rd) (move_code raw ds rd)"
  using move_code_wide [of ds rd raw] wide_legal [of ds rd]
  by (simp add: appends_def move_internal_code)

lemmas move_code_changes = wide_changes [OF move_code_wide]


text \<open>The plain sequence of the encoder: the same loop without the vote.\<close>

declare move_immediate64_loop.simps [simp del]

lemma length_halfwords [simp]: "length (halfwords v) = 4"
  by (simp add: halfwords_def)

lemma halfwords_nth:
  "i < 4 \<Longrightarrow> halfwords v ! i = ucast (drop_bit (16 * i) v AND 0xffff)"
  by (auto simp: halfwords_def less_Suc_eq numeral_eq_Suc)

lemma move_immediate64_loop_code:
  "i \<le> 4 \<Longrightarrow> move_immediate64_loop rd v (16 * i) e b =
     (e \<or> \<not> set (drop i (halfwords v)) \<subseteq> {0},
      b @ code_of (movz_code D64 rd i (drop i (halfwords v)) (\<not> e)))"
proof (induction "4 - i" arbitrary: i e b)
  case 0
  then show ?case by (simp add: move_immediate64_loop.simps)
next
  case (Suc n)
  then have i: "i < 4" by simp
  have d: "drop i (halfwords v) = halfwords v ! i # drop (i + 1) (halfwords v)"
    using Cons_nth_drop_Suc [of i "halfwords v"] i by simp
  have IH: "move_immediate64_loop rd v (16 + 16 * i) e b =
     (e \<or> \<not> set (drop (Suc i) (halfwords v)) \<subseteq> {0},
      b @ code_of (movz_code D64 rd (Suc i) (drop (Suc i) (halfwords v)) (\<not> e)))" for e b
    using Suc.hyps(1) [of "Suc i" e b] Suc.hyps(2) i by simp
  show ?case
    using i unfolding d
    by (subst move_immediate64_loop.simps)
      (simp add: Let_def IH emit_moves emit_wide add.commute flip: halfwords_nth)
qed

definition plain_move_code :: "u64 \<Rightarrow> register_id \<Rightarrow> a64 list" where
  "plain_move_code v rd =
     (if v = 0 then [MoveWide D64 MoveWideOp_Z 0 0 rd] else movz_code D64 rd 0 (halfwords v) True)"

lemma used_zero64: "set (halfwords v) \<subseteq> {0} \<longleftrightarrow> v = 0"
  using used_zero [of D64 v] joined_halfwords [of v]
  by (auto simp: half_count_def halfwords_def narrow_def gpr_size_def)

lemma emit_move_immediate64_code: "emit_move_immediate64 rd v b = b @ code_of (plain_move_code v rd)"
proof -
  have z: "movz_code D64 rd 0 (halfwords 0) True = []"
    by (simp add: halfwords_def)
  show ?thesis
    using move_immediate64_loop_code [of 0 rd v False b] emit_wide [of 0 D64 MoveWideOp_Z rd 0]
    by (simp add: emit_move_immediate64_def used_zero64 plain_move_code_def emit_moves z)
qed

lemma plain_move_code_wide: "list_all (is_wide D64 rd) (plain_move_code v rd)"
  using movz_wide [of 0 "halfwords v" D64 rd True] is_wideI [of 0 D64 rd]
  by (simp add: plain_move_code_def half_count_def halfwords_def)

lemma plain_move_code_value:
  assumes "rd \<noteq> Zr" shows "get_x (exec_list (plain_move_code v rd) s) rd = v"
  using movz_value [of D64 rd 0 "halfwords v" 0 True s] assms
  by (auto simp: plain_move_code_def used_zero64 joined_halfwords half_count_def gpr_size_def
      narrow_def)


section \<open>Register moves\<close>

definition move_rr_code :: "register_id \<Rightarrow> register_id \<Rightarrow> a64 list" where
  "move_rr_code src dest =
     (if src = dest then []
      else if src = Zr \<and> dest \<noteq> Sp then [MoveWide D64 MoveWideOp_Z 0 0 dest]
      else if dest = Sp \<or> src = Sp
      then [AddSubImm D64 AddOp_Add SetFlags_DontSetFlags False 0 src dest]
      else [LogicalShifted D64 LogicalOp_Orr ShiftType_Lsl False src 0 Zr dest])"

lemma move_rr_appends:
  assumes "{src, dest} \<noteq> {Sp, Zr}"
  shows "appends (move_rr src dest) (move_rr_code src dest)"
  using assms emit_wide [of 0 D64 MoveWideOp_Z dest 0]
  by (auto simp: appends_def move_rr_def move_rr_code_def emit_simps gpr_size_def legal_rd_def
      simp del: code_of_simps(2))

lemma exec_copies:
  "exec (AddSubImm D64 AddOp_Add SetFlags_DontSetFlags False 0 src dest) s =
     next_pc (set_x dest (get_x s src) s)"
  "exec (LogicalShifted D64 LogicalOp_Orr ShiftType_Lsl False src 0 Zr dest) s =
     next_pc (set_x dest (get_x s src) s)"
  "exec (MoveWide D64 MoveWideOp_Z 0 0 dest) s = next_pc (set_x dest 0 s)"
  by (simp_all add: write_result_def add_sub_sized_def add_sub_def add_with_carry_def Let_def
      logical_value_def shift_sized_def shift_value_def narrow_def)

lemma move_rr_value:
  "exec_list (move_rr_code src dest) s =
     (if src = dest then s else next_pc (set_x dest (get_x s src) s))"
  by (simp add: move_rr_code_def exec_copies del: exec.simps)

lemma changes_only_set_x: "changes_only {r} s (next_pc (set_x r v s))"
  by (simp add: changes_only_def)


lemma ucast_up_down [simp]: "(ucast (ucast (w :: u32) :: u64) :: u32) = w"
  by (rule bit_word_eqI) (auto simp: bit_simps)

lemma exec_zero_extend:
  "exec (AddSubImm D32 AddOp_Add SetFlags_DontSetFlags False 0 src dest) s =
     next_pc (set_x dest (narrow D32 (get_x s src)) s)"
  "exec (LogicalShifted D32 LogicalOp_Orr ShiftType_Lsl False src 0 Zr dest) s =
     next_pc (set_x dest (narrow D32 (get_x s src)) s)"
  "exec (MoveWide D32 MoveWideOp_Z 0 0 dest) s = next_pc (set_x dest 0 s)"
  by (simp_all add: write_result_def add_sub_sized_def add_sub_def add_with_carry_def Let_def
      logical_value_def shift_sized_def shift_value_def narrow_def)

definition zero_extend_code :: "register_id \<Rightarrow> register_id \<Rightarrow> a64" where
  "zero_extend_code src dest =
     (if src = Zr \<and> dest \<noteq> Sp then MoveWide D32 MoveWideOp_Z 0 0 dest
      else if dest = Sp \<or> src = Sp
      then AddSubImm D32 AddOp_Add SetFlags_DontSetFlags False 0 src dest
      else LogicalShifted D32 LogicalOp_Orr ShiftType_Lsl False src 0 Zr dest)"

lemma zero_extend_appends:
  assumes "{src, dest} \<noteq> {Sp, Zr}"
  shows "appends (zero_extend_32_to_word src dest) [zero_extend_code src dest]"
  using assms emit_wide [of 0 D32 MoveWideOp_Z dest 0]
  by (auto simp: appends_def zero_extend_32_to_word_def zero_extend_code_def emit_simps gpr_size_def
      legal_rd_def simp del: code_of_simps(2))

lemma zero_extend_value:
  "exec_list [zero_extend_code src dest] s = next_pc (set_x dest (narrow D32 (get_x s src)) s)"
  by (simp add: zero_extend_code_def exec_zero_extend narrow_take_bit del: exec.simps)

lemma temps: "DATA_TEMP_REGISTER = X16" "MEMORY_TEMP_REGISTER = X17"
  by (simp_all add: DATA_TEMP_REGISTER_def MEMORY_TEMP_REGISTER_def IP0_def IP1_def)

lemma swap_appends:
  assumes "r1 \<noteq> r2" "Zr \<notin> {r1, r2}"
  shows "appends (swap_regs r1 r2)
    (move_rr_code r1 X16 @ move_rr_code r2 r1 @ move_rr_code X16 r2)"
proof -
  have m: "appends (move_rr src dest) (move_rr_code src dest)" if "Zr \<notin> {src, dest}" for src dest
    using that by (intro move_rr_appends) auto
  have "appends (\<lambda>b. move_rr X16 r2 (move_rr r2 r1 (move_rr r1 X16 b)))
      ((move_rr_code r1 X16 @ move_rr_code r2 r1) @ move_rr_code X16 r2)"
    using assms by (intro appends_comp m) auto
  then show ?thesis using assms(1) by (simp add: appends_def swap_regs_def temps)
qed




end
