(* ===== verification/Macro_Arith.thy ===== *)
theory Macro_Arith
  imports Macro_Moves
begin

text \<open>
  The integer arithmetic of \<open>assembler/macro_assembler_arm64.rs\<close>: when an immediate can be folded
  into an addition, what the flags of a subtraction say about its operands, and what additions,
  subtractions and comparisons with immediates compute.
\<close>

section \<open>Flags of a comparison\<close>

lemma ucast_down_arith:
  "ucast (x + y) = (ucast x + ucast y :: u32)" "ucast (x - y) = (ucast x - ucast y :: u32)"
  "ucast (x * y) = (ucast x * ucast y :: u32)"
  for x y :: u64
proof -
  have u: "uint (ucast z :: u32) = uint z mod 2 ^ 32" for z :: u64
    by (simp add: unsigned_ucast_eq take_bit_eq_mod)
  have m: "k mod 2 ^ 64 mod 2 ^ 32 = k mod 2 ^ 32" for k :: int
    by (rule mod_mod_cancel) simp
  show "ucast (x + y) = (ucast x + ucast y :: u32)" "ucast (x - y) = (ucast x - ucast y :: u32)"
    "ucast (x * y) = (ucast x * ucast y :: u32)"
    using m by (simp_all add: word_uint_eq_iff u uint_word_ariths mod_simps)
qed

lemma fst_add_sub: "fst (add_sub op x y) = (case op of AddOp_Add \<Rightarrow> x + y | AddOp_Sub \<Rightarrow> x - y)"
  by (simp add: add_sub_def add_with_carry_def Let_def not_eq_complement split: add_op.split)

lemma take_bit_uint_self: "take_bit LENGTH('a) (uint y) = uint y" for y :: "'a::len word"
  by (simp add: take_bit_int_eq_self_iff)

lemma uint_NOT: "uint (NOT y) = 2 ^ LENGTH('a) - 1 - uint y" for y :: "'a::len word"
  by (simp add: unsigned_not_eq take_bit_not_eq_mask_diff mask_eq_exp_minus_1 take_bit_uint_self)

lemma two_power_len: "2 ^ LENGTH('a::len) = 2 * (2 ^ (LENGTH('a) - 1) :: int)"
  by (metis One_nat_def Suc_pred' len_gt_0 power_Suc)

lemma sint_NOT: "sint (NOT y) = - sint y - 1" for y :: "'a::len word"
proof -
  have "signed_take_bit LENGTH('a) (- sint y - 1) = - sint y - 1"
    unfolding signed_take_bit_int_eq_self_iff two_power_len
    using sint_ge [of y] sint_lt [of y] by linarith
  then show ?thesis unfolding signed_not_eq by (simp add: not_eq_complement)
qed

lemma mod_shifted:
  assumes "- (2 * m) \<le> d" "d < 2 * m" "0 < (m :: int)"
  shows "(d + m) mod (2 * m) - m = (if d < - m then d + 2 * m else if d < m then d else d - 2 * m)"
proof -
  have "(d + m) mod (2 * m) = (d + m + 2 * m) mod (2 * m)"
    "(d + m) mod (2 * m) = (d + m - 2 * m) mod (2 * m)"
    by (rule mod_add_self2 [symmetric] minus_mod_self2 [symmetric])+
  then show ?thesis
    using assms mod_pos_pos_trivial [of "d + m" "2 * m"]
      mod_pos_pos_trivial [of "d + m + 2 * m" "2 * m"]
      mod_pos_pos_trivial [of "d + m - 2 * m" "2 * m"] by auto
qed

text \<open>The signed difference of two words is the difference of their values or wraps once.\<close>

lemma sint_diff:
  fixes x y :: "'a::len word"
  defines "m \<equiv> 2 ^ (LENGTH('a) - 1)"
  shows "sint (x - y) = (if sint x - sint y < - m then sint x - sint y + 2 * m
    else if sint x - sint y < m then sint x - sint y else sint x - sint y - 2 * m)"
proof -
  have b: "- m \<le> sint x" "sint x < m" "- m \<le> sint y" "sint y < m" "0 < m"
    using sint_ge [of x] sint_lt [of x] sint_ge [of y] sint_lt [of y] by (simp_all add: m_def)
  have "Suc (LENGTH('a) - 1) = LENGTH('a)" by simp
  then have "sint (x - y) = (sint x - sint y + m) mod (2 * m) - m"
    unfolding sint_word_diff signed_take_bit_eq_take_bit_shift take_bit_eq_mod m_def
    by (simp only: two_power_len)
  then show ?thesis using b by (simp add: mod_shifted)
qed

lemma compare_flags:
  fixes x y :: "'a::len word"
  defines "f \<equiv> snd (add_sub AddOp_Sub x y)"
  shows "flag_z f \<longleftrightarrow> x = y" and "flag_c f \<longleftrightarrow> y \<le> x"
    and "(flag_n f \<noteq> flag_v f) \<longleftrightarrow> sint x < sint y"
proof -
  have r: "x + NOT y + 1 = x - y" by (simp add: not_eq_complement)
  note d = f_def add_sub_def add_with_carry_def Let_def
  show "flag_z f \<longleftrightarrow> x = y" by (simp add: d r)
  show "flag_c f \<longleftrightarrow> y \<le> x"
    by (auto simp: d r uint_NOT uint_sub_if' word_le_def)
  have "0 < (2 :: int) ^ (LENGTH('a) - 1)" by simp
  moreover have "sint x < 2 ^ (LENGTH('a) - 1)" "- (2 ^ (LENGTH('a) - 1)) \<le> sint x"
    "sint y < 2 ^ (LENGTH('a) - 1)" "- (2 ^ (LENGTH('a) - 1)) \<le> sint y"
    by (rule sint_lt sint_ge)+
  ultimately show "(flag_n f \<noteq> flag_v f) \<longleftrightarrow> sint x < sint y"
    unfolding d by (simp add: r sint_NOT sint_diff)
qed

text \<open>Adding a negated immediate sets the flags of the subtraction.\<close>

lemma add_sub_negated:
  fixes x y :: "'a::len word"
  assumes "y \<noteq> 0" "sint (y - 1) = sint y - 1"
  shows "add_sub AddOp_Add x y = add_sub AddOp_Sub x (- y)"
proof -
  have "NOT (- y) = y - 1" by (simp add: not_eq_complement)
  moreover have "uint (y - 1) = uint y - 1"
    using assms(1) by (simp add: uint_sub_if' word_neq_0_conv word_less_def uint_1)
  ultimately show ?thesis
    using assms(2) by (simp add: add_sub_def add_with_carry_def Let_def)
qed

section \<open>Immediates that fit an addition\<close>

definition shifted_imm :: "u32 \<Rightarrow> bool \<Rightarrow> u32" where
  "shifted_imm u sh = push_bit (if sh then 12 else 0) u"

lemma is_uint12_iff: "is_uint12 v \<longleftrightarrow> v AND 0xfff = v"
proof -
  have "v AND NOT m = 0 \<longleftrightarrow> v AND m = v" for m :: u32
    by (auto simp: bit_eq_iff bit_simps)
  then show ?thesis unfolding is_uint12_def .
qed

lemma uint12_bound: "v AND 0xfff = v \<Longrightarrow> unat (v :: u32) < 4096"
proof -
  assume "v AND 0xfff = v"
  then have "take_bit 12 v = v" by (simp add: take_bit_eq_mask mask_eq_exp_minus_1)
  then have "unat v = unat v mod 2 ^ 12" by (metis unat_take_bit_mod)
  then show ?thesis using mod_less_divisor [of "2 ^ 12" "unat v"] by simp
qed

lemma try_extract_sound:
  assumes "try_extract_shifted_imm32 imm = Some (u, sh, inverted)"
  shows "imm = (if inverted then - shifted_imm u sh else shifted_imm u sh)"
    and "unat u < 4096" and "inverted \<Longrightarrow> u \<noteq> 0"
proof -
  have "imm = (if inverted then - shifted_imm u sh else shifted_imm u sh) \<and> u AND 0xfff = u \<and>
    (inverted \<longrightarrow> u \<noteq> 0)"
    using assms unfolding try_extract_shifted_imm32_def Let_def is_uint12_iff
    by (auto simp: shifted_imm_def push_bit_minus split: if_splits)
  then show "imm = (if inverted then - shifted_imm u sh else shifted_imm u sh)"
    and "unat u < 4096" and "inverted \<Longrightarrow> u \<noteq> 0"
    using uint12_bound by blast+
qed

section \<open>Additions as instructions\<close>

definition arith :: "add_op \<Rightarrow> 'a::len word \<Rightarrow> 'a word \<Rightarrow> 'a word" where
  "arith op x y = (case op of AddOp_Add \<Rightarrow> x + y | AddOp_Sub \<Rightarrow> x - y)"

lemma add_sub_sized_D32:
  "add_sub_sized D32 op x y =
     (ucast (fst (add_sub op (ucast x :: u32) (ucast y))), snd (add_sub op (ucast x :: u32) (ucast y)))"
  by (simp add: add_sub_sized_def split: prod.split)

lemma add_sub_sized_D64: "add_sub_sized D64 op x y = add_sub op x y"
  by (simp add: add_sub_sized_def)

lemma fst_add_sub_sized:
  "gpr_size sf \<Longrightarrow> fst (add_sub_sized sf op x y) = narrow sf (arith op x y)"
  by (elim gpr_sizeE; cases op)
    (simp_all add: add_sub_sized_D32 add_sub_sized_D64 fst_add_sub arith_def narrow_def
      ucast_down_arith)

lemma add_sub_sized_narrow [simp]:
  "add_sub_sized D32 op x (ucast (ucast y :: u32)) = add_sub_sized D32 op x y"
  by (simp add: add_sub_sized_def)

definition reg_insn ::
  "datasize \<Rightarrow> add_op \<Rightarrow> set_flags \<Rightarrow> register_id \<Rightarrow> register_id \<Rightarrow> register_id \<Rightarrow> a64" where
  "reg_insn sf op fl rd rn rm =
     (if rd = Sp \<or> rn = Sp then AddSubExtended sf op fl rm ExtendType_Uxtx 0 rn rd
      else AddSubShifted sf op fl ShiftType_Lsl rm 0 rn rd)"

lemma exec_reg_insn:
  "gpr_size sf \<Longrightarrow> exec (reg_insn sf op fl rd rn rm) s =
     next_pc (write_result fl rd (add_sub_sized sf op (get_x s rn) (get_x s rm)) s)"
  by (elim gpr_sizeE) (simp_all add: reg_insn_def extend_value_def shift_sized_def shift_value_def)

lemma reg_insn_appends:
  assumes "gpr_size sf" "rm \<noteq> Sp" "rd = Sp \<or> rn = Sp \<Longrightarrow> rn \<noteq> Zr \<and> legal_rd fl rd"
  shows "appends (emit_add_sub_reg sf op fl rd rn rm) [reg_insn sf op fl rd rn rm]"
  using assms by (auto simp: appends_def emit_simps reg_insn_def simp del: code_of_simps(2))

lemma imm_operand:
  assumes "unat u < 4096"
  shows "push_bit (if sh then 12 else 0) (ucast (ucast u :: 12 word)) = (ucast (shifted_imm u sh) :: u64)"
    and "unat (shifted_imm u sh) < 2 ^ 24" and "u \<noteq> 0 \<Longrightarrow> shifted_imm u sh \<noteq> 0"
proof -
  have t: "take_bit 12 u = u" using assms by (intro take_bit_self_word) simp
  then have b: "bit u n \<Longrightarrow> n < 12" for n by (metis bit_take_bit_iff)
  show "push_bit (if sh then 12 else 0) (ucast (ucast u :: 12 word)) = (ucast (shifted_imm u sh) :: u64)"
    by (rule bit_word_eqI) (auto simp: shifted_imm_def bit_simps dest: b)
  have "unat (push_bit 12 u) = unat u * 4096"
    using assms unat_mult_no_overflow [of u 4096] by (simp add: push_bit_eq_mult)
  then have un: "unat (shifted_imm u sh) = (if sh then unat u * 4096 else unat u)"
    by (simp add: shifted_imm_def)
  then show "unat (shifted_imm u sh) < 2 ^ 24" using assms by simp
  show "shifted_imm u sh \<noteq> 0" if "u \<noteq> 0"
    using that un by (auto simp: unat_eq_0 split: if_splits)
qed

text \<open>An immediate that the extraction accepts is added as it is, or its negation subtracted, with
the same result and the same flags.\<close>

lemma half_word:
  fixes w :: "'a::len word"
  assumes "uint w < 2 ^ (LENGTH('a) - 1)" and "1 < LENGTH('a)"
  shows "sint w = uint w" "sint (- w) = - uint w"
    "sint (w - 1) = sint w - 1" "sint (- w - 1) = sint (- w) - 1"
proof -
  define m :: int where "m = 2 ^ (LENGTH('a) - 1)"
  have f: "signed_take_bit (LENGTH('a) - 1) k = k" if "- m \<le> k" "k < m" for k :: int
    using that by (simp add: signed_take_bit_int_eq_self_iff m_def)
  have "1 < m" unfolding m_def using assms(2) by (intro one_less_power) simp_all
  moreover have "0 \<le> uint w" "uint w < m" using assms(1) by (simp_all add: m_def)
  ultimately have r: "- m \<le> uint w" "- m \<le> - uint w" "- uint w < m" "- m \<le> uint w - 1"
    "uint w - 1 < m" "- m \<le> - uint w - 1" "- uint w - 1 < m" "- m \<le> 1" "uint w < m" "1 < m"
    by linarith+
  show w: "sint w = uint w" unfolding sint_uint by (rule f [unfolded One_nat_def]) (rule r)+
  show m: "sint (- w) = - uint w" unfolding sint_word_minus w by (rule f) (rule r)+
  have o: "sint (1 :: 'a word) = 1" unfolding sint_word_01 by (rule f) (rule r)+
  show "sint (w - 1) = sint w - 1" unfolding sint_word_diff o w by (rule f) (rule r)+
  show "sint (- w - 1) = sint (- w) - 1" unfolding sint_word_diff o m by (rule f) (rule r)+
qed

text \<open>An immediate that the extraction accepts is added as it is, or its negation subtracted, with
the same result and the same flags.\<close>

lemma half_word_negated:
  fixes w :: "'a::len word"
  assumes "uint w < 2 ^ (LENGTH('a) - 1)" "1 < LENGTH('a)" "w \<noteq> 0"
  shows "add_sub AddOp_Add y w = add_sub AddOp_Sub y (- w)"
    and "add_sub AddOp_Add y (- w) = add_sub AddOp_Sub y w"
  using add_sub_negated [of w y] add_sub_negated [of "- w" y] half_word(3,4) [OF assms(1,2)] assms(3)
  by simp_all

lemma small_uint:
  assumes "unat (w :: u32) < 2 ^ 24"
  shows "uint w < 2 ^ (LENGTH(32) - 1)" and "uint (ucast w :: u64) < 2 ^ (LENGTH(64) - 1)"
    and "w \<noteq> 0 \<Longrightarrow> (ucast w :: u64) \<noteq> 0"
proof -
  have "int (unat w) < 2 ^ 24" using assms by (metis of_nat_less_iff of_nat_numeral of_nat_power)
  then have u: "uint w < 16777216" by simp
  then show "uint w < 2 ^ (LENGTH(32) - 1)" by simp
  have c: "uint (ucast w :: u64) = uint w"
    using u by (simp add: unsigned_ucast_eq take_bit_int_eq_self_iff)
  with u show "uint (ucast w :: u64) < 2 ^ (LENGTH(64) - 1)" by simp
  show "(ucast w :: u64) \<noteq> 0" if "w \<noteq> 0" using that c by (metis uint_0_iff)
qed

lemma scast_small:
  assumes "unat (w :: u32) < 2 ^ 24"
  shows "scast w = (ucast w :: u64)" "scast (- w) = - (ucast w :: u64)"
  using half_word(1,2) [OF small_uint(1) [OF assms]]
  by (simp_all only: scast_eq ucast_eq of_int_minus len_num0 len_bit0 len_num1)

lemma extracted_operand:
  assumes "try_extract_shifted_imm32 imm = Some (u, sh, inverted)" and "gpr_size sf"
  shows "add_sub_sized sf (if inverted then invert_add_op op else op) x (ucast (shifted_imm u sh)) =
    add_sub_sized sf op x (scast imm)"
proof -
  let ?w = "shifted_imm u sh"
  have i: "imm = (if inverted then - ?w else ?w)" and b: "unat u < 4096"
    and n: "inverted \<Longrightarrow> ?w \<noteq> 0"
    using try_extract_sound [OF assms(1)] imm_operand(3) by blast+
  note w24 = imm_operand(2) [OF b, of sh]
  note s = scast_small [OF w24]
  show ?thesis
  proof (cases inverted)
    case False
    then show ?thesis using i s(1) by simp
  next
    case True
    have nz: "?w \<noteq> 0" using n True by simp
    note h = half_word_negated [OF small_uint(1) [OF w24] _ nz]
      half_word_negated [OF small_uint(2) [OF w24] _ small_uint(3) [OF w24 nz]]
    have "ucast (- (ucast ?w :: u64)) = - ?w"
      using ucast_down_arith(2) [of 0 "ucast ?w"] by simp
    then show ?thesis
      using assms(2) True i s(2) h
      by (elim gpr_sizeE; cases op)
        (simp_all add: add_sub_sized_D32 add_sub_sized_D64 invert_add_op_def)
  qed
qed

section \<open>Additions of immediates\<close>

definition imm_raw :: "datasize \<Rightarrow> i32 \<Rightarrow> u64" where
  "imm_raw sf imm = (if sf = D64 then scast imm else ucast imm)"

definition imm_code ::
  "datasize \<Rightarrow> add_op \<Rightarrow> set_flags \<Rightarrow> i32 \<Rightarrow> register_id \<Rightarrow> register_id \<Rightarrow> a64 list" where
  "imm_code sf op fl imm src dest =
     (case try_extract_shifted_imm32 imm of
        Some (u, sh, inverted) \<Rightarrow>
          [AddSubImm sf (if inverted then invert_add_op op else op) fl sh (ucast u) src dest]
      | None \<Rightarrow> move_code (imm_raw sf imm) sf X16 @ [reg_insn sf op fl dest src X16])"

lemma ucast_scast [simp]: "(ucast (scast (imm :: u32) :: u64) :: u32) = imm"
  by (rule bit_word_eqI) (auto simp: bit_simps)

lemma imm_code_exec:
  assumes "gpr_size sf" "src \<noteq> X16"
  obtains s1 where "changes_only {X16} s s1"
    and "exec_list (imm_code sf op fl imm src dest) s =
      next_pc (write_result fl dest (add_sub_sized sf op (get_x s src) (scast imm)) s1)"
proof (cases "try_extract_shifted_imm32 imm")
  case (Some e)
  obtain u sh inverted where e: "e = (u, sh, inverted)" by (cases e)
  with Some show ?thesis
    using extracted_operand [OF Some [unfolded e] assms(1)] imm_operand(1) try_extract_sound(2)
    by (intro that [of s]) (simp_all add: imm_code_def)
next
  case None
  let ?s1 = "exec_list (move_code (imm_raw sf imm) sf X16) s"
  have "changes_only {X16} s ?s1" using assms(1) by (rule move_code_changes)
  moreover have "get_x ?s1 src = get_x s src"
    using calculation assms(2) by (simp add: changes_only_def)
  moreover have "get_x ?s1 X16 = narrow sf (imm_raw sf imm)"
    using assms(1) by (simp add: move_code_value)
  moreover have "add_sub_sized sf op x (narrow sf (imm_raw sf imm)) = add_sub_sized sf op x (scast imm)" for x
    using assms(1) by (elim gpr_sizeE)
      (simp_all add: add_sub_sized_D32 imm_raw_def narrow_def)
  ultimately show ?thesis
    using None by (intro that [of ?s1])
      (simp_all add: imm_code_def exec_reg_insn [OF assms(1)] del: exec.simps)
qed

lemma reg_insn_code: "emit_add_sub_reg sf op fl rd rn rm b = b @ code_of [reg_insn sf op fl rd rn rm]"
  by (simp add: emit_simps reg_insn_def del: code_of_simps(2))

lemma imm_code_legal:
  assumes "gpr_size sf" "src \<noteq> Zr" "legal_rd fl dest"
  shows "list_all legal (imm_code sf op fl imm src dest)"
    and "list_all straight (imm_code sf op fl imm src dest)"
  using assms wide_legal [OF assms(1) _ move_code_wide [OF assms(1), of X16 "imm_raw sf imm"]]
  by (auto simp: imm_code_def reg_insn_def legal_rd_def split: option.split prod.split if_splits)

lemma code_of_append_bytes: "b @ code_of is @ code_of js = b @ code_of (is @ js)"
  by simp

lemma add_sub_imm64_code:
  "add_sub_imm64 op fl imm src dest b = b @ code_of (imm_code D64 op fl (imm32_value imm) src dest)"
  using move_internal_code [of D64]
  by (auto simp: add_sub_imm64_def imm_code_def emit_add_sub_imm reg_insn_code temps move_imm64_def
      trusted_imm64_new_def imm_raw_def gpr_size_def code_of_append_bytes Let_def
      simp del: code_of_simps split: option.split prod.split)

lemma add_sub_imm32_code:
  "op = AddOp_Sub \<or> src = dest \<or> try_extract_shifted_imm32 (imm32_value imm) \<noteq> None \<Longrightarrow>
   add_sub_imm32 op fl imm src dest b = b @ code_of (imm_code D32 op fl (imm32_value imm) src dest)"
  using move_internal_code [of D32]
  by (auto simp: add_sub_imm32_def imm_code_def emit_add_sub_imm reg_insn_code temps move_imm32_def
      imm_raw_def gpr_size_def code_of_append_bytes Let_def
      simp del: code_of_simps split: option.split prod.split)

lemma cmp_imm_code:
  "gpr_size ds \<Longrightarrow>
   cmp_imm ds left imm b = b @ code_of (imm_code ds AddOp_Sub SetFlags_S (imm32_value imm) left Zr)"
  using move_internal_code [of D32] move_internal_code [of D64]
  by (auto elim!: gpr_sizeE simp: cmp_imm_def imm_code_def emit_add_sub_imm reg_insn_code temps
      move_imm32_def move_imm64_def move_into_scratch_def trusted_imm64_new_def cmp_regs_def
      imm_raw_def gpr_size_def code_of_append_bytes Let_def invert_add_op_def
      simp del: code_of_simps split: option.split prod.split)

text \<open>A 32-bit addition of a large immediate builds it in the destination, not in the scratch.\<close>

definition add32_in_dest :: "i32 \<Rightarrow> register_id \<Rightarrow> register_id \<Rightarrow> a64 list" where
  "add32_in_dest imm src dest = move_code (ucast imm) D32 dest @
     [if src = Sp then reg_insn D32 AddOp_Add SetFlags_DontSetFlags dest src dest
      else reg_insn D32 AddOp_Add SetFlags_DontSetFlags dest dest src]"

lemma add32_in_dest_code:
  "src \<noteq> dest \<Longrightarrow> try_extract_shifted_imm32 (imm32_value imm) = None \<Longrightarrow>
   add32_imm imm src dest b = b @ code_of (add32_in_dest (imm32_value imm) src dest)"
  using move_internal_code [of D32]
  by (auto simp: add32_imm_def add_sub_imm32_def add32_in_dest_def add32_rr_def reg_insn_code
      move_imm32_def gpr_size_def code_of_append_bytes simp del: code_of_simps)

lemma add32_in_dest_exec:
  assumes "src \<noteq> dest" "dest \<noteq> Zr"
  obtains s1 where "changes_only {dest} s s1"
    and "exec_list (add32_in_dest imm src dest) s =
      next_pc (set_x dest (ucast (get_w s src + imm)) s1)"
proof -
  let ?s1 = "exec_list (move_code (ucast imm) D32 dest) s"
  have c: "changes_only {dest} s ?s1" by (rule move_code_changes) (simp add: gpr_size_def)
  have v: "get_x ?s1 src = get_x s src" "get_x ?s1 dest = ucast imm"
    using c assms move_code_value [of D32 dest "ucast imm" s]
    by (simp_all add: changes_only_def gpr_size_def narrow_def)
  have "gpr_size D32" by (simp add: gpr_size_def)
  then show ?thesis
    using c v assms
    by (intro that [of ?s1]; cases "src = Sp")
      (simp_all add: add32_in_dest_def exec_reg_insn write_result_def fst_add_sub_sized arith_def
        narrow_def ucast_down_arith add.commute del: exec.simps)
qed

lemma computes_imm:
  assumes f: "\<And>b. f b = b @ code_of (imm_code sf op SetFlags_DontSetFlags imm src dest)"
    and sf: "gpr_size sf" and r: "src \<noteq> Zr" "src \<noteq> X16" "dest \<noteq> Zr"
    and v: "\<And>x. narrow sf (arith op x (scast imm)) = g x"
  shows "computes f (\<lambda>s s'. get_x s' dest = g (get_x s src) \<and> changes_only {dest, X16} s s')"
proof (rule appends_computes)
  show "appends f (imm_code sf op SetFlags_DontSetFlags imm src dest)"
    using f imm_code_legal [OF sf r(1)] r(3) by (simp add: appends_def legal_rd_def)
next
  fix s
  obtain s1 where "changes_only {X16} s s1"
    and "exec_list (imm_code sf op SetFlags_DontSetFlags imm src dest) s =
      next_pc (write_result SetFlags_DontSetFlags dest (add_sub_sized sf op (get_x s src) (scast imm)) s1)"
    using imm_code_exec [OF sf r(2)] by blast
  then show "get_x (exec_list (imm_code sf op SetFlags_DontSetFlags imm src dest) s) dest =
      g (get_x s src) \<and>
    changes_only {dest, X16} s (exec_list (imm_code sf op SetFlags_DontSetFlags imm src dest) s)"
    using r(3) by (auto simp: write_result_def fst_add_sub_sized [OF sf] v changes_only_def)
qed

text \<open>C15: Adding an immediate, in 32 or 64 bits, and subtracting one give the sum and the difference
modulo the width for every 32-bit immediate: whether it is folded into the instruction, shifted by
twelve, negated with the opposite operation, or too large and built in a scratch register or in the
destination first.  Only the destination and the scratch register change.\<close>

theorem add_sub_immediates_correct:
  assumes "src \<noteq> Zr" "src \<noteq> X16" "dest \<noteq> Zr"
  shows "computes (add64_imm imm src dest)
      (\<lambda>s s'. get_x s' dest = get_x s src + scast (imm32_value imm) \<and> changes_only {dest, X16} s s') \<and>
    computes (sub32_imm src imm dest)
      (\<lambda>s s'. get_x s' dest = ucast (get_w s src - imm32_value imm) \<and> changes_only {dest, X16} s s') \<and>
    (dest \<noteq> Sp \<longrightarrow> computes (add32_imm imm src dest)
      (\<lambda>s s'. get_x s' dest = ucast (get_w s src + imm32_value imm) \<and> changes_only {dest, X16} s s'))"
proof (intro conjI impI)
  have sz: "gpr_size D64" "gpr_size D32" by (simp_all add: gpr_size_def)
  show "computes (add64_imm imm src dest)
      (\<lambda>s s'. get_x s' dest = get_x s src + scast (imm32_value imm) \<and> changes_only {dest, X16} s s')"
    using assms by (intro computes_imm [where op = AddOp_Add, OF _ sz(1)])
      (simp_all add: add64_imm_def add_sub_imm64_code narrow_def arith_def)
  show "computes (sub32_imm src imm dest)
      (\<lambda>s s'. get_x s' dest = ucast (get_w s src - imm32_value imm) \<and> changes_only {dest, X16} s s')"
    using assms by (intro computes_imm [where op = AddOp_Sub, OF _ sz(2)])
      (simp_all add: sub32_imm_def add_sub_imm32_code narrow_def arith_def ucast_down_arith)
  show "computes (add32_imm imm src dest)
      (\<lambda>s s'. get_x s' dest = ucast (get_w s src + imm32_value imm) \<and> changes_only {dest, X16} s s')"
    if "dest \<noteq> Sp"
  proof (cases "src = dest \<or> try_extract_shifted_imm32 (imm32_value imm) \<noteq> None")
    case True
    then show ?thesis
      using assms by (intro computes_imm [where op = AddOp_Add, OF _ sz(2)])
        (simp_all add: add32_imm_def add_sub_imm32_code narrow_def arith_def ucast_down_arith)
  next
    case False
    let ?is = "add32_in_dest (imm32_value imm) src dest"
    have "add32_imm imm src dest b = b @ code_of ?is" for b
      using False by (intro add32_in_dest_code) blast+
    moreover have "list_all legal ?is" "list_all straight ?is"
      using that wide_legal [OF sz(2) that move_code_wide [OF sz(2)]]
      by (auto simp: add32_in_dest_def reg_insn_def legal_rd_def gpr_size_def assms)
    ultimately have "appends (add32_imm imm src dest) ?is" by (simp add: appends_def)
    moreover have "get_x (exec_list ?is s) dest = ucast (get_w s src + imm32_value imm) \<and>
        changes_only {dest, X16} s (exec_list ?is s)" for s
      using False assms(3) by (auto intro: add32_in_dest_exec [of src dest s "imm32_value imm"]
          simp: changes_only_def)
    ultimately show ?thesis by (rule appends_computes)
  qed
qed

theorem add_sub_immediates_correct_witness:
  "computes (add64_imm \<lparr>imm32_value = - 4096\<rparr> Sp Sp)
      (\<lambda>s s'. get_x s' Sp = get_x s Sp + scast (- 4096 :: i32) \<and> changes_only {Sp, X16} s s') \<and>
   computes (add32_imm \<lparr>imm32_value = 0x12345678\<rparr> X1 X2)
      (\<lambda>s s'. get_x s' X2 = ucast (get_w s X1 + 0x12345678) \<and> changes_only {X2, X16} s s')"
  using add_sub_immediates_correct [of Sp Sp "\<lparr>imm32_value = - 4096\<rparr>"]
    add_sub_immediates_correct [of X1 X2 "\<lparr>imm32_value = 0x12345678\<rparr>"] by simp

end
