(* ===== verification/Macro_Registers.thy ===== *)
theory Macro_Registers
  imports Macro_Arith
begin

text \<open>
  What the register operations of \<open>assembler/macro_assembler_arm64.rs\<close> compute: addition,
  subtraction, negation and multiplication, the logical operations, and the shifts, whose
  immediate forms are bit-field moves.
\<close>

section \<open>One instruction that sets a register\<close>

text \<open>The relation of an operation that computes \<open>g\<close> into \<open>dest\<close> and touches nothing else.\<close>

definition sets :: "register_id \<Rightarrow> (cpu \<Rightarrow> u64) \<Rightarrow> cpu \<Rightarrow> cpu \<Rightarrow> bool" where
  "sets dest g s s' \<longleftrightarrow> get_x s' dest = g s \<and> changes_only {dest} s s'"

lemma one_insn_sets:
  assumes "\<And>b. f b = b @ code_of [i]" and "legal i" "straight i" "dest \<noteq> Zr"
    and "\<And>s. exec i s = next_pc (set_x dest (g s) s)"
  shows "computes f (sets dest g)"
proof (rule appends_computes)
  show "appends f [i]" using assms by (simp add: appends_def del: code_of_simps)
  show "sets dest g s (exec_list [i] s)" for s
    using assms(4,5) by (simp add: sets_def changes_only_set_x)
qed

lemma arith_sets:
  assumes "\<And>b. f b = b @ code_of [reg_insn sf op SetFlags_DontSetFlags dest a b']"
    and "gpr_size sf" "b' \<noteq> Sp" "dest \<noteq> Zr" "dest \<noteq> Sp"
    and "\<And>s. narrow sf (arith op (get_x s a) (get_x s b')) = g s"
  shows "computes f (sets dest g)"
  using assms(2-5)
  by (intro one_insn_sets [OF assms(1)])
    (simp_all add: exec_reg_insn write_result_def fst_add_sub_sized assms(6) del: exec.simps,
      auto simp: reg_insn_def legal_rd_def)

section \<open>Bit-field moves as shifts\<close>

lemma word_nat_inverse: "of_nat (unat w) = (w :: 'a::len word)"
  by simp

lemma mod_mask_word: "(imm :: u32) AND 0x1f = of_nat (unat imm mod 32)"
  "imm AND 0x3f = of_nat (unat imm mod 64)"
proof -
  have "imm AND mask 5 = of_nat (unat imm mod 2 ^ 5)" "imm AND mask 6 = of_nat (unat imm mod 2 ^ 6)"
    by (simp_all only: take_bit_eq_mask [symmetric] unat_take_bit_mod [symmetric] word_nat_inverse)
  then show "imm AND 0x1f = of_nat (unat imm mod 32)" "imm AND 0x3f = of_nat (unat imm mod 64)"
    by (simp_all add: mask_eq_exp_minus_1)
qed

lemma field6:
  "k < 32 \<Longrightarrow> unat (ucast ((32 - of_nat k :: u32) AND 31) :: 6 word) = (32 - k) mod 32"
  "k < 32 \<Longrightarrow> unat (ucast (31 - of_nat k :: u32) :: 6 word) = 31 - k"
  "k < 64 \<Longrightarrow> unat (ucast (of_nat k :: u32) :: 6 word) = k"
proof -
  have "\<forall>k \<in> set [0..<32]. unat (ucast ((32 - of_nat k :: u32) AND 31) :: 6 word) = (32 - k) mod 32 \<and>
      unat (ucast (31 - of_nat k :: u32) :: 6 word) = 31 - k"
    by (simp add: upt_rec)
  then show "k < 32 \<Longrightarrow> unat (ucast ((32 - of_nat k :: u32) AND 31) :: 6 word) = (32 - k) mod 32"
    "k < 32 \<Longrightarrow> unat (ucast (31 - of_nat k :: u32) :: 6 word) = 31 - k"
    by simp_all
  show "k < 64 \<Longrightarrow> unat (ucast (of_nat k :: u32) :: 6 word) = k"
    by (simp add: unat_ucast_mod unat_of_nat)
qed

lemma bitfield_lsl:
  "k < 32 \<Longrightarrow> bitfield_value BitfieldOp_Ubfm ((32 - k) mod 32) (31 - k) (x :: u32) = push_bit k x"
proof (cases "k = 0")
  case True
  then show ?thesis by (auto simp: bitfield_value_def intro!: bit_word_eqI simp: bit_simps)
next
  case False
  moreover assume "k < 32"
  ultimately have "(32 - k) mod 32 = 32 - k" "\<not> 32 - k \<le> 31 - k" "32 - (32 - k) = k" by simp_all
  then show ?thesis
    using False by (auto simp: bitfield_value_def intro!: bit_word_eqI simp: bit_simps)
qed

lemma bitfield_lsr:
  "k < LENGTH('a) \<Longrightarrow>
   bitfield_value BitfieldOp_Ubfm k (LENGTH('a) - 1) (x :: 'a::len word) = drop_bit k x"
  by (auto simp: bitfield_value_def bit_eq_iff bit_simps dest: bit_imp_le_length)

lemma bitfield_asr:
  "k < 32 \<Longrightarrow> bitfield_value BitfieldOp_Sbfm k 31 (x :: u32) = signed_drop_bit k x"
proof (rule bit_word_eqI)
  fix n
  assume "k < 32" "n < LENGTH(32)"
  moreover have "k + min (31 - k) n = (if 32 - k \<le> n then 31 else k + n)"
    using \<open>k < 32\<close> by (auto simp: min_def)
  ultimately show "bit (bitfield_value BitfieldOp_Sbfm k 31 x) n = bit (signed_drop_bit k x) n"
    by (simp add: bitfield_value_def bit_signed_drop_bit_iff bit_signed_take_bit_iff bit_drop_bit_eq)
qed

section \<open>Register operations\<close>

lemma logical_sets:
  assumes "\<And>b'. f b' = b' @ code_of [LogicalShifted sf op ShiftType_Lsl False b 0 a dest]"
    and "gpr_size sf" "op \<noteq> LogicalOp_Ands" "a \<noteq> Sp" "b \<noteq> Sp" "dest \<noteq> Zr" "dest \<noteq> Sp"
    and "\<And>s. narrow sf (logical_value op (get_x s a) (get_x s b)) = g s"
  shows "computes f (sets dest g)"
proof -
  have "narrow sf (logical_value op x (shift_sized sf ShiftType_Lsl 0 y)) = narrow sf (logical_value op x y)" for x y
    using assms(2) by (elim gpr_sizeE; cases op)
      (auto simp: shift_sized_def shift_value_def narrow_def logical_value_def intro!: bit_word_eqI simp: bit_simps)
  then show ?thesis
    using assms(2-7) by (intro one_insn_sets [OF assms(1)])
      (simp_all add: write_result_def Let_def assms(8))
qed

lemma shift_imm_sets:
  assumes "\<And>b. f b = b @ code_of [BitfieldMove sf op immr imms src dest]"
    and "gpr_size sf" "src \<noteq> Sp" "dest \<noteq> Zr" "dest \<noteq> Sp"
    and "\<And>s. (if sf = D32 then ucast (bitfield_value op (unat immr) (unat imms) (get_w s src))
        else bitfield_value op (unat immr) (unat imms) (get_x s src)) = g s"
  shows "computes f (sets dest g)"
  using assms(2-5) by (intro one_insn_sets [OF assms(1)]) (simp_all add: assms(6))

lemma shift_reg_sets:
  assumes "\<And>b. f b = b @ code_of [DataProc2 D32 amount op src dest]"
    and "src \<noteq> Sp" "amount \<noteq> Sp" "dest \<noteq> Zr" "dest \<noteq> Sp"
    and "\<And>s. shift_sized D32 (case op of DataOp2_Lslv \<Rightarrow> ShiftType_Lsl | DataOp2_Lsrv \<Rightarrow> ShiftType_Lsr
      | DataOp2_Asrv \<Rightarrow> ShiftType_Asr) (unat (get_x s amount) mod 32) (get_x s src) = g s"
  shows "computes f (sets dest g)"
  using assms(2-5) by (intro one_insn_sets [OF assms(1)]) (simp_all add: Let_def gpr_size_def assms(6))

text \<open>C19: The register forms of addition, subtraction and negation, in 32 and 64 bits, and of
multiplication leave the result modulo the width in the destination, zero-extended, and change no
other register, flag or memory; one operand of an addition may be the stack pointer on either side.\<close>

theorem register_arithmetic_correct:
  assumes "dest \<noteq> Zr" "dest \<noteq> Sp" and "a \<noteq> Sp \<or> b \<noteq> Sp" and "right \<noteq> Sp"
    and "left \<noteq> Sp"
  shows "computes (add32 a b dest) (sets dest (\<lambda>s. ucast (get_w s a + get_w s b))) \<and>
    computes (add32_rr a dest) (sets dest (\<lambda>s. ucast (get_w s dest + get_w s a))) \<and>
    computes (add64 a b dest) (sets dest (\<lambda>s. get_x s a + get_x s b)) \<and>
    computes (sub32 a right dest) (sets dest (\<lambda>s. ucast (get_w s a - get_w s right))) \<and>
    computes (sub32_rr right dest) (sets dest (\<lambda>s. ucast (get_w s dest - get_w s right))) \<and>
    computes (sub64 a right dest) (sets dest (\<lambda>s. get_x s a - get_x s right)) \<and>
    computes (neg32 right dest) (sets dest (\<lambda>s. ucast (- get_w s right))) \<and>
    computes (mul32 left right dest) (sets dest (\<lambda>s. ucast (get_w s left * get_w s right)))"
proof (intro conjI impI)
  have sz: "gpr_size D64" "gpr_size D32" by (simp_all add: gpr_size_def)
  note [simp] = narrow_def arith_def ucast_down_arith
  show "computes (add32 a b dest) (sets dest (\<lambda>s. ucast (get_w s a + get_w s b)))"
    using assms(3) by (intro arith_sets [where op = AddOp_Add and sf = D32
      and a = "if is_sp b then b else a" and b' = "if is_sp b then a else b"])
      (auto simp: add32_def reg_insn_code sz assms is_sp_def add.commute)
  show "computes (add32_rr a dest) (sets dest (\<lambda>s. ucast (get_w s dest + get_w s a)))"
    by (intro arith_sets [where op = AddOp_Add and sf = D32
      and a = "if is_sp a then a else dest" and b' = "if is_sp a then dest else a"])
      (auto simp: add32_rr_def reg_insn_code sz assms is_sp_def add.commute)
  show "computes (add64 a b dest) (sets dest (\<lambda>s. get_x s a + get_x s b))"
    using assms(3) by (intro arith_sets [where op = AddOp_Add and sf = D64
      and a = "if is_sp b then b else a" and b' = "if is_sp b then a else b"])
      (auto simp: add64_def reg_insn_code sz assms is_sp_def add.commute)
  show "computes (sub32 a right dest) (sets dest (\<lambda>s. ucast (get_w s a - get_w s right)))"
    by (intro arith_sets [OF _ sz(2), where op = AddOp_Sub and a = a and b' = right])
      (simp_all add: sub32_def reg_insn_code assms del: code_of_simps)
  show "computes (sub32_rr right dest) (sets dest (\<lambda>s. ucast (get_w s dest - get_w s right)))"
    by (intro arith_sets [OF _ sz(2), where op = AddOp_Sub and a = dest and b' = right])
      (simp_all add: sub32_rr_def sub32_def reg_insn_code assms del: code_of_simps)
  show "computes (sub64 a right dest) (sets dest (\<lambda>s. get_x s a - get_x s right))"
    by (intro arith_sets [OF _ sz(1), where op = AddOp_Sub and a = a and b' = right])
      (simp_all add: sub64_def reg_insn_code assms del: code_of_simps)
  show "computes (neg32 right dest) (sets dest (\<lambda>s. ucast (- get_w s right)))"
    using ucast_down_arith(2) [of 0]
    by (intro arith_sets [OF _ sz(2), where op = AddOp_Sub and a = Zr and b' = right])
      (simp_all add: neg32_def reg_insn_code assms del: code_of_simps)
  show "computes (mul32 left right dest) (sets dest (\<lambda>s. ucast (get_w s left * get_w s right)))"
    by (rule one_insn_sets [where i = "DataProc3 D32 DataOp3_Madd right Zr left dest"])
      (simp_all add: mul32_def emit_muls sz assms mul_value_def Let_def del: code_of_simps)
qed

theorem register_arithmetic_correct_witness:
  "computes (add64 X1 Sp X2) (sets X2 (\<lambda>s. get_x s X1 + get_x s Sp)) \<and>
   computes (mul32 X3 X3 X2) (sets X2 (\<lambda>s. ucast (get_w s X3 * get_w s X3)))"
  using register_arithmetic_correct [of X2 X1 Sp X3 X3] by simp

lemma unat_take_mod: "unat (ucast (x :: u64) :: u32) mod 32 = unat x mod 32"
proof -
  have "unat (ucast x :: u32) = unat x mod 2 ^ 32" by (simp add: unat_ucast_mod)
  moreover have "unat x mod 2 ^ 32 mod 32 = unat x mod 32" by (rule mod_mod_cancel) simp
  ultimately show ?thesis by simp
qed

text \<open>C18: Conjunction, disjunction and exclusive or, in 32 and 64 bits, act bit by bit; a shift by a
register or by an immediate shifts by the amount modulo the width, to the left, to the right with
zeros or with the sign, whatever the immediate is.  The destination is zero-extended, and no other
register, flag or memory changes.\<close>

theorem logic_and_shifts_correct:
  assumes "dest \<noteq> Zr" "dest \<noteq> Sp" "a \<noteq> Sp" "b \<noteq> Sp"
  shows "computes (and32 a b dest) (sets dest (\<lambda>s. ucast (get_w s a AND get_w s b))) \<and>
    computes (or32 a b dest) (sets dest (\<lambda>s. ucast (get_w s a OR get_w s b))) \<and>
    computes (xor32 a b dest) (sets dest (\<lambda>s. ucast (get_w s a XOR get_w s b))) \<and>
    computes (and64 a b dest) (sets dest (\<lambda>s. get_x s a AND get_x s b)) \<and>
    computes (or64 a b dest) (sets dest (\<lambda>s. get_x s a OR get_x s b)) \<and>
    computes (xor64 a b dest) (sets dest (\<lambda>s. get_x s a XOR get_x s b)) \<and>
    computes (lshift32 a b dest) (sets dest (\<lambda>s. ucast (push_bit (unat (get_w s b) mod 32) (get_w s a)))) \<and>
    computes (urshift32 a b dest) (sets dest (\<lambda>s. ucast (drop_bit (unat (get_w s b) mod 32) (get_w s a)))) \<and>
    computes (rshift32 a b dest) (sets dest (\<lambda>s. ucast (signed_drop_bit (unat (get_w s b) mod 32) (get_w s a)))) \<and>
    computes (lshift32_imm a imm dest) (sets dest (\<lambda>s. ucast (push_bit (unat (imm32_value imm) mod 32) (get_w s a)))) \<and>
    computes (urshift32_imm a imm dest) (sets dest (\<lambda>s. ucast (drop_bit (unat (imm32_value imm) mod 32) (get_w s a)))) \<and>
    computes (rshift32_imm a imm dest)
      (sets dest (\<lambda>s. ucast (signed_drop_bit (unat (imm32_value imm) mod 32) (get_w s a)))) \<and>
    computes (urshift64_imm a imm dest) (sets dest (\<lambda>s. drop_bit (unat (imm32_value imm) mod 64) (get_x s a)))"
proof (intro conjI impI)
  have sz: "gpr_size D64" "gpr_size D32" by (simp_all add: gpr_size_def)
  have k: "unat (imm32_value imm) mod 32 < 32" "unat (imm32_value imm) mod 64 < 64" by simp_all
  note [simp] = narrow_def logical_value_def
  note [simp del] = code_of_simps
  have [simp]: "ucast (x AND y :: u64) = (ucast x AND ucast y :: u32)"
    "ucast (x OR y :: u64) = (ucast x OR ucast y :: u32)"
    "ucast (x XOR y :: u64) = (ucast x XOR ucast y :: u32)" for x y
    by (auto intro!: bit_word_eqI simp: bit_simps)
  show "computes (and32 a b dest) (sets dest (\<lambda>s. ucast (get_w s a AND get_w s b)))"
    by (rule logical_sets [OF _ sz(2), where op = LogicalOp_And and a = a and b = b]) (simp_all add: and32_def emit_logical_reg assms)
  show "computes (or32 a b dest) (sets dest (\<lambda>s. ucast (get_w s a OR get_w s b)))"
    by (rule logical_sets [OF _ sz(2), where op = LogicalOp_Orr and a = a and b = b]) (simp_all add: or32_def emit_logical_reg assms)
  show "computes (xor32 a b dest) (sets dest (\<lambda>s. ucast (get_w s a XOR get_w s b)))"
    by (rule logical_sets [OF _ sz(2), where op = LogicalOp_Eor and a = a and b = b]) (simp_all add: xor32_def emit_logical_reg assms)
  show "computes (and64 a b dest) (sets dest (\<lambda>s. get_x s a AND get_x s b))"
    by (rule logical_sets [OF _ sz(1), where op = LogicalOp_And and a = a and b = b]) (simp_all add: and64_def emit_logical_reg assms)
  show "computes (or64 a b dest) (sets dest (\<lambda>s. get_x s a OR get_x s b))"
    by (rule logical_sets [OF _ sz(1), where op = LogicalOp_Orr and a = a and b = b]) (simp_all add: or64_def emit_logical_reg assms)
  show "computes (xor64 a b dest) (sets dest (\<lambda>s. get_x s a XOR get_x s b))"
    by (rule logical_sets [OF _ sz(1), where op = LogicalOp_Eor and a = a and b = b]) (simp_all add: xor64_def emit_logical_reg assms)
  show "computes (lshift32 a b dest) (sets dest (\<lambda>s. ucast (push_bit (unat (get_w s b) mod 32) (get_w s a))))"
    by (rule shift_reg_sets [where op = DataOp2_Lslv and src = a and amount = b])
      (simp_all add: lshift32_def emit_shift_reg assms shift_sized_def shift_value_def unat_take_mod)
  show "computes (urshift32 a b dest) (sets dest (\<lambda>s. ucast (drop_bit (unat (get_w s b) mod 32) (get_w s a))))"
    by (rule shift_reg_sets [where op = DataOp2_Lsrv and src = a and amount = b])
      (simp_all add: urshift32_def emit_shift_reg assms shift_sized_def shift_value_def unat_take_mod)
  show "computes (rshift32 a b dest) (sets dest (\<lambda>s. ucast (signed_drop_bit (unat (get_w s b) mod 32) (get_w s a))))"
    by (rule shift_reg_sets [where op = DataOp2_Asrv and src = a and amount = b])
      (simp_all add: rshift32_def emit_shift_reg assms shift_sized_def shift_value_def unat_take_mod)
  note imm = mod_mask_word [of "imm32_value imm"] emit_shift_imm
  show "computes (lshift32_imm a imm dest) (sets dest (\<lambda>s. ucast (push_bit (unat (imm32_value imm) mod 32) (get_w s a))))"
    using field6(1,2) [OF k(1)] bitfield_lsl [OF k(1)]
    by (intro shift_imm_sets [OF _ sz(2), where src = a and op = BitfieldOp_Ubfm
      and immr = "ucast ((32 - of_nat (unat (imm32_value imm) mod 32) :: u32) AND 31)"
      and imms = "ucast (31 - of_nat (unat (imm32_value imm) mod 32) :: u32)"])
      (simp_all add: lshift32_imm_def imm datasize_bits_def assms)
  show "computes (urshift32_imm a imm dest) (sets dest (\<lambda>s. ucast (drop_bit (unat (imm32_value imm) mod 32) (get_w s a))))"
    using field6(3) [of "unat (imm32_value imm) mod 32"] bitfield_lsr [where 'a = 32, of "unat (imm32_value imm) mod 32"]
    by (intro shift_imm_sets [OF _ sz(2), where src = a and op = BitfieldOp_Ubfm
      and immr = "ucast (of_nat (unat (imm32_value imm) mod 32) :: u32)" and imms = 31])
      (simp_all add: urshift32_imm_def imm datasize_bits_def assms)
  show "computes (rshift32_imm a imm dest)
      (sets dest (\<lambda>s. ucast (signed_drop_bit (unat (imm32_value imm) mod 32) (get_w s a))))"
    using field6(3) [of "unat (imm32_value imm) mod 32"] bitfield_asr [OF k(1)]
    by (intro shift_imm_sets [OF _ sz(2), where src = a and op = BitfieldOp_Sbfm
      and immr = "ucast (of_nat (unat (imm32_value imm) mod 32) :: u32)" and imms = 31])
      (simp_all add: rshift32_imm_def imm datasize_bits_def assms)
  show "computes (urshift64_imm a imm dest)
      (sets dest (\<lambda>s. drop_bit (unat (imm32_value imm) mod 64) (get_x s a)))"
    using field6(3) [of "unat (imm32_value imm) mod 64"] bitfield_lsr [where 'a = 64, of "unat (imm32_value imm) mod 64"]
    by (intro shift_imm_sets [OF _ sz(1), where src = a and op = BitfieldOp_Ubfm
      and immr = "ucast (of_nat (unat (imm32_value imm) mod 64) :: u32)" and imms = 63])
      (simp_all add: urshift64_imm_def imm datasize_bits_def assms)
qed

theorem logic_and_shifts_correct_witness:
  "computes (lshift32_imm X1 \<lparr>imm32_value = 37\<rparr> X2) (sets X2 (\<lambda>s. ucast (push_bit 5 (get_w s X1)))) \<and>
   computes (or64 X1 X3 X2) (sets X2 (\<lambda>s. get_x s X1 OR get_x s X3))"
  using logic_and_shifts_correct [of X2 X1 X3 "\<lparr>imm32_value = 37\<rparr>"] by simp

section \<open>Doubles\<close>

definition sets_double :: "fp_register_id \<Rightarrow> (cpu \<Rightarrow> u64) \<Rightarrow> cpu \<Rightarrow> cpu \<Rightarrow> bool" where
  "sets_double dest g s s' \<longleftrightarrow> fpr s' = (fpr s)(dest := g s) \<and> get_x s' = get_x s \<and>
     flags s' = flags s \<and> ram s' = ram s \<and> fp_unit s' = fp_unit s"

lemma one_insn_sets_double:
  assumes "\<And>b. f b = b @ code_of [i]" and "legal i" "straight i"
    and "\<And>s. exec i s = next_pc (s\<lparr>fpr := (fpr s)(dest := g s)\<rparr>)"
  shows "computes f (sets_double dest g)"
proof (rule appends_computes)
  show "appends f [i]" using assms by (simp add: appends_def del: code_of_simps)
  show "sets_double dest g s (exec_list [i] s)" for s
    using assms(4) by (simp add: sets_double_def get_x_def fun_eq_iff)
qed

lemma double_operations:
  assumes "r \<noteq> Sp"
  shows "computes (add_double a b d) (sets_double d (\<lambda>s. fp_unit s FpDataOp2_FAdd (fpr s a) (fpr s b)))"
    and "computes (sub_double a b d) (sets_double d (\<lambda>s. fp_unit s FpDataOp2_FSub (fpr s a) (fpr s b)))"
    and "computes (mul_double a b d) (sets_double d (\<lambda>s. fp_unit s FpDataOp2_FMul (fpr s a) (fpr s b)))"
    and "computes (div_double a b d) (sets_double d (\<lambda>s. fp_unit s FpDataOp2_FDiv (fpr s a) (fpr s b)))"
    and "computes (convert_int32_to_double r d) (sets_double d (\<lambda>s. f_of_i32 (sint (get_w s r))))"
    and "computes (move_64_to_double r d) (sets_double d (\<lambda>s. get_x s r))"
    and "computes (move_double a d) (sets_double d (\<lambda>s. fpr s a))"
    and "r \<noteq> Zr \<Longrightarrow> computes (move_double_to_64 a r) (sets r (\<lambda>s. fpr s a))"
proof -
  note [simp del] = code_of_simps
  show "computes (add_double a b d) (sets_double d (\<lambda>s. fp_unit s FpDataOp2_FAdd (fpr s a) (fpr s b)))"
    "computes (sub_double a b d) (sets_double d (\<lambda>s. fp_unit s FpDataOp2_FSub (fpr s a) (fpr s b)))"
    "computes (mul_double a b d) (sets_double d (\<lambda>s. fp_unit s FpDataOp2_FMul (fpr s a) (fpr s b)))"
    "computes (div_double a b d) (sets_double d (\<lambda>s. fp_unit s FpDataOp2_FDiv (fpr s a) (fpr s b)))"
    unfolding add_double_def sub_double_def mul_double_def div_double_def
    by (rule one_insn_sets_double, rule emit_fp, simp_all)+
  show "computes (convert_int32_to_double r d) (sets_double d (\<lambda>s. f_of_i32 (sint (get_w s r))))"
    "computes (move_64_to_double r d) (sets_double d (\<lambda>s. get_x s r))"
    unfolding convert_int32_to_double_def move_64_to_double_def
    by (rule one_insn_sets_double, rule emit_fp, simp_all add: assms)+
  show "computes (move_double a d) (sets_double d (\<lambda>s. fpr s a))"
  proof (cases "a = d")
    case True
    then show ?thesis
      by (intro appends_computes [of _ "[]"])
        (simp_all add: appends_def move_double_def sets_double_def code_of_simps)
  next
    case False
    then have "move_double a d buf = buf @ code_of [FpMove a d]" for buf
      by (simp add: move_double_def emit_fp)
    then show ?thesis by (rule one_insn_sets_double) simp_all
  qed
  show "computes (move_double_to_64 a r) (sets r (\<lambda>s. fpr s a))" if "r \<noteq> Zr"
    unfolding move_double_to_64_def
    by (rule one_insn_sets, rule emit_fp) (simp_all add: assms that)
qed

end
