(* ===== verification/Macro_Memory.thy ===== *)
theory Macro_Memory
  imports Macro_Registers
begin

text \<open>
  The loads and stores of \<open>assembler/macro_assembler_arm64.rs\<close>: memory by bytes, when an offset
  fits an instruction, the address each lowering accesses, and the pair operations on the stack.
\<close>

section \<open>Bytes of memory\<close>

lemma store_le_other: "\<forall>k < n. x \<noteq> a + of_nat k \<Longrightarrow> store_le n a v m x = m x"
proof (induction n arbitrary: a v m)
  case (Suc n)
  have "x \<noteq> a + 1 + of_nat k" if "k < n" for k
    using Suc.prems [rule_format, of "Suc k"] that by (simp add: add.assoc)
  moreover have "x \<noteq> a" using Suc.prems [rule_format, of 0] by simp
  ultimately show ?case using Suc.IH by simp
qed simp

lemma of_nat_inject64: "k < 2 ^ 64 \<Longrightarrow> j < 2 ^ 64 \<Longrightarrow> (of_nat k = (of_nat j :: u64)) = (k = j)"
  by (simp add: word_of_nat_eq_iff take_bit_nat_eq_self)

lemma store_le_at:
  "k < n \<Longrightarrow> n < 2 ^ 64 \<Longrightarrow> store_le n a v m (a + of_nat k) = ucast (drop_bit (8 * k) v)"
proof (induction n arbitrary: a v m k)
  case (Suc n)
  show ?case
  proof (cases k)
    case 0
    have "a \<noteq> a + 1 + of_nat j" if "j < n" for j
      using Suc.prems that of_nat_inject64 [of "Suc j" 0] by (simp add: add.assoc)
    then show ?thesis using 0 by (simp add: store_le_other)
  next
    case (Suc j)
    then show ?thesis
      using Suc.prems Suc.IH [of j "a + 1" "drop_bit 8 v"]
      by (simp add: add.assoc [symmetric] add.commute [of 8])
  qed
qed simp

lemma load_le_bytes:
  "\<forall>k < n. m (a + of_nat k) = ucast (drop_bit (8 * k) v) \<Longrightarrow> load_le n m a = take_bit (8 * n) v"
proof (induction n arbitrary: a v)
  case (Suc n)
  have "load_le n m (a + 1) = take_bit (8 * n) (drop_bit 8 v)"
  proof (rule Suc.IH, intro allI impI)
    fix k assume "k < n"
    then show "m (a + 1 + of_nat k) = ucast (drop_bit (8 * k) (drop_bit 8 v))"
      using Suc.prems [rule_format, of "Suc k"] by (simp add: add.assoc add.commute [of 8])
  qed
  moreover have "m a = ucast v" using Suc.prems [rule_format, of 0] by simp
  moreover have "ucast (ucast v :: u8) OR push_bit 8 (take_bit (8 * n) (drop_bit 8 v)) =
      take_bit (8 * Suc n) v"
    by (rule bit_word_eqI) (auto simp: bit_simps)
  ultimately show ?case by simp
qed simp

lemma load_store_le: "n < 2 ^ 64 \<Longrightarrow> load_le n (store_le n a v m) a = take_bit (8 * n) v"
  by (intro load_le_bytes) (simp add: store_le_at)

text \<open>A load reads the \<open>n\<close> bytes from its address on; a store elsewhere does not change it.\<close>

lemma load_le_cong: "\<forall>k < n. m (a + of_nat k) = m' (a + of_nat k) \<Longrightarrow> load_le n m a = load_le n m' a"
proof (induction n arbitrary: a)
  case (Suc n)
  have "m (a + 1 + of_nat k) = m' (a + 1 + of_nat k)" if "k < n" for k
    using Suc.prems [rule_format, of "Suc k"] that by (simp add: add.assoc)
  then show ?case using Suc.IH [of "a + 1"] Suc.prems [rule_format, of 0] by simp
qed simp

lemma load_le_store_apart:
  assumes "\<forall>j < n. \<forall>k < l. a + of_nat j \<noteq> b + of_nat k"
  shows "load_le n (store_le l b v m) a = load_le n m a"
  by (rule load_le_cong) (use assms in \<open>auto intro!: store_le_other\<close>)

section \<open>Offsets that fit an instruction\<close>

lemma imm9_value:
  assumes "is_valid_signed_imm9 off"
  shows "(scast (ucast off :: 9 word) :: u64) = scast off"
proof -
  have "bit off n = bit off (min n 8)" if "n < 32" for n
  proof -
    have "bit (signed_drop_bit 23 (push_bit 23 off)) n = bit off (min n 8)"
      using that by (auto simp: bit_simps min_def)
    then show ?thesis using assms by (simp add: is_valid_signed_imm9_def)
  qed
  note low = this
  have eq: "bit off (min n 31) = bit off (min n 8)" for n
    by (subst low) (simp_all add: min.assoc)
  show ?thesis
  proof (rule bit_word_eqI)
    fix n assume "n < LENGTH(64)"
    then show "bit (scast (ucast off :: 9 word) :: u64) n = bit (scast off :: u64) n"
      using eq [of n] by (simp add: bit_signed_iff bit_unsigned_iff min.commute [of n] min_less_iff_disj)
  qed
qed

lemma access_bytes_u32: "2 ^ unat (mem_op_size_u32 z) = (of_nat (access_bytes z) :: u32)"
  "mem_access_bytes z = of_nat (access_bytes z)"
  by (cases z; simp add: access_bytes_def mem_access_bytes_def)+

lemma access_bytes_cases: "access_bytes z \<in> {1, 2, 4, 8}"
  by (simp add: access_bytes_def split: mem_op_size.split)

lemma sint_nonneg_unat: "0 \<le> sint (w :: u32) \<Longrightarrow> sint w = int (unat w)"
  using take_bit_int_eq_self [of "sint w" 32] sint_lt [of w] by (simp add: uint_sint)

lemma scaled_imm12:
  assumes "is_valid_scaled_uimm12 z off"
  shows "0 \<le> sint off" and "unat off \<le> 4095 * access_bytes z" and "access_bytes z dvd unat off"
proof -
  let ?n = "access_bytes z"
  have v: "0 \<le> sint off" "sint off \<le> sint (4095 * of_nat ?n :: u32)" "off AND (of_nat ?n - 1) = 0"
    using assms by (simp_all add: is_valid_scaled_uimm12_def Let_def access_bytes_u32 split: if_splits)
  show "0 \<le> sint off" by (rule v)
  have "sint (4095 * of_nat ?n :: u32) = 4095 * int ?n"
    using access_bytes_cases [of z] by auto
  then show "unat off \<le> 4095 * ?n" using v(1,2) sint_nonneg_unat [OF v(1)] by linarith
  have "of_nat ?n - 1 = (mask (unat (mem_op_size_u32 z)) :: u32)" "?n = 2 ^ unat (mem_op_size_u32 z)"
    by (cases z; simp add: access_bytes_def mask_eq_exp_minus_1)+
  then have "take_bit (unat (mem_op_size_u32 z)) off = 0" "?n = 2 ^ unat (mem_op_size_u32 z)"
    using v(3) by (simp_all add: take_bit_eq_mask)
  then show "?n dvd unat off"
    by (metis dvd_eq_mod_eq_0 unat_0 unat_take_bit_mod)
qed

lemma imm12_value:
  assumes "is_valid_scaled_uimm12 z off"
  shows "of_nat (access_bytes z * unat (ucast (off div mem_access_bytes z) :: 12 word)) = (scast off :: u64)"
proof -
  let ?n = "access_bytes z"
  have "unat (mem_access_bytes z) = ?n"
    using access_bytes_cases [of z] by (auto simp: access_bytes_u32)
  then have "unat (off div mem_access_bytes z) = unat off div ?n" by (simp add: unat_div)
  moreover have "unat off div ?n < 4096"
    using scaled_imm12(2) [OF assms] access_bytes_cases [of z] by (auto simp: div_less_iff_less_mult)
  ultimately have "unat (ucast (off div mem_access_bytes z) :: 12 word) = unat off div ?n"
    by (simp add: unat_ucast_mod)
  then have "?n * unat (ucast (off div mem_access_bytes z) :: 12 word) = unat off"
    using scaled_imm12(3) [OF assms] by simp
  moreover have "scast off = (of_nat (unat off) :: u64)"
    using sint_nonneg_unat [OF scaled_imm12(1) [OF assms]]
    by (simp add: scast_eq)
  ultimately show ?thesis by simp
qed

section \<open>Effective addresses\<close>

text \<open>The address an operand names, as a number modulo the address space.\<close>

definition address_value :: "address \<Rightarrow> cpu \<Rightarrow> u64" where
  "address_value a s = get_x s (addr_base a) + scast (addr_offset a)"

definition index_value :: "extend \<Rightarrow> u64 \<Rightarrow> u64" where
  "index_value e x = (case e of Extend_ZExt32 \<Rightarrow> ucast (ucast x :: u32)
     | Extend_SExt32 \<Rightarrow> scast (ucast x :: u32) | Extend_None \<Rightarrow> x)"

definition base_index_value :: "base_index \<Rightarrow> cpu \<Rightarrow> u64" where
  "base_index_value a s = get_x s (bx_base a) + scast (bx_offset a) +
     push_bit (scale_log2 (bx_scale a)) (index_value (bx_extend a) (get_x s (bx_index a)))"

lemma extend_value_index [simp]: "extend_value (index_extend_type e) x = index_value e x"
  by (simp add: extend_value_def index_extend_type_def index_value_def split: extend.split)

lemma extend_Uxtx [simp]: "extend_value ExtendType_Uxtx x = x"
  by (simp add: extend_value_def)

text \<open>Code that ends in one access of \<open>n\<close> bytes at the address \<open>ea\<close>, after changes to the scratch
register alone.\<close>

definition accesses ::
  "(code_buffer \<Rightarrow> code_buffer) \<Rightarrow> nat \<Rightarrow> mem_op \<Rightarrow> register_id \<Rightarrow> (cpu \<Rightarrow> u64) \<Rightarrow> bool" where
  "accesses f n op rt ea \<longleftrightarrow>
     computes f (\<lambda>s s'. \<exists>s1. changes_only {X17} s s1 \<and> s' = next_pc (access n op rt (ea s) s1))"

definition address_code :: "mem_op_size \<Rightarrow> mem_op \<Rightarrow> register_id \<Rightarrow> address \<Rightarrow> a64 list" where
  "address_code z op rt a =
     (let off = addr_offset a; base = addr_base a
      in if is_valid_signed_imm9 off then [LoadStoreUnscaled z op (ucast off) base rt]
         else if is_valid_scaled_uimm12 z off
         then [LoadStoreUnsigned z op (ucast (off div mem_access_bytes z)) base rt]
         else move_code (scast off) D64 X17 @ [LoadStoreRegister z op X17 ExtendType_Uxtx False base rt])"

lemma sz64: "gpr_size D64"
  by (simp add: gpr_size_def)

lemma move_scratch_code: "move_imm64 (trusted_imm64_new v) r b = b @ code_of (move_code v D64 r)"
  using move_internal_code [OF sz64] by (simp add: move_imm64_def trusted_imm64_new_def)

lemma move_code_X17:
  obtains s1 where "exec_list (move_code v D64 X17) s = s1" and "changes_only {X17} s s1"
    and "get_x s1 X17 = v"
  using move_code_changes [OF sz64] move_code_value [OF sz64, of X17 v s]
  by (intro that [OF refl]) (simp_all add: narrow_def)

lemma move_code_ok:
  "list_all legal (move_code v D64 X17)" "list_all straight (move_code v D64 X17)"
  using wide_legal [OF sz64 _ move_code_wide [OF sz64], of X17 v] by simp_all

lemma changes_only_get: "changes_only D s s' \<Longrightarrow> r \<notin> D \<Longrightarrow> get_x s' r = get_x s r"
  by (simp add: changes_only_def)

lemma changes_only_ram: "changes_only D s s' \<Longrightarrow> ram s' = ram s"
  by (simp add: changes_only_def)

lemma changes_only_load:
  "changes_only D s s1 \<Longrightarrow> changes_only (insert r D) s (next_pc (set_x r v s1))"
  by (simp add: changes_only_def)

lemma address_code_appends:
  assumes "addr_base a \<noteq> Zr" "rt \<noteq> Sp"
  shows "appends (load_store_address z op rt a) (address_code z op rt a)"
  using assms by (auto simp: appends_def load_store_address_def address_code_def Let_def
      emit_load_store_unscaled emit_load_store_unsigned emit_load_store_register_offset
      move_scratch_code temps code_of_append_bytes move_code_ok simp del: code_of_simps)

lemma address_accesses:
  assumes "addr_base a \<noteq> Zr" "rt \<noteq> Sp" "addr_base a \<noteq> X17"
  shows "accesses (load_store_address z op rt a) (access_bytes z) op rt (address_value a)"
  unfolding accesses_def
proof (rule appends_computes [OF address_code_appends [OF assms(1,2)]])
  fix s
  let ?off = "addr_offset a"
  show "\<exists>s1. changes_only {X17} s s1 \<and>
    exec_list (address_code z op rt a) s = next_pc (access (access_bytes z) op rt (address_value a s) s1)"
  proof (cases "is_valid_signed_imm9 ?off \<or> is_valid_scaled_uimm12 z ?off")
    case True
    then show ?thesis
      by (intro exI [of _ s])
        (auto simp: address_code_def Let_def address_value_def imm9_value imm12_value
          simp del: of_nat_mult)
  next
    case False
    obtain s1 where "exec_list (move_code (scast ?off) D64 X17) s = s1" "changes_only {X17} s s1"
      "get_x s1 X17 = scast ?off"
      by (rule move_code_X17)
    then show ?thesis
      using False assms(3)
      by (intro exI [of _ s1])
        (simp add: address_code_def address_value_def changes_only_get)
  qed
qed

text \<open>The operand with an index: either the base with the offset folded in and a scaled index, or
the whole of offset and index computed in the scratch register.\<close>

definition fold_code :: "base_index \<Rightarrow> (register_id \<times> a64 list) option" where
  "fold_code a =
     (if bx_offset a = 0 then Some (bx_base a, [])
      else case try_extract_shifted_imm32 (bx_offset a) of
             Some (u, sh, inverted) \<Rightarrow>
               Some (X17, [AddSubImm D64 (if inverted then invert_add_op AddOp_Add else AddOp_Add)
                             SetFlags_DontSetFlags sh (ucast u) (bx_base a) X17])
           | None \<Rightarrow> None)"

definition base_index_code :: "mem_op_size \<Rightarrow> mem_op \<Rightarrow> register_id \<Rightarrow> base_index \<Rightarrow> a64 list" where
  "base_index_code z op rt a =
     (let ext = index_extend_type (bx_extend a); amount = scale_log2 (bx_scale a)
      in case (if scale_is_valid_for_size z (bx_scale a) then fold_code a else None) of
           Some (base, is) \<Rightarrow> is @ [LoadStoreRegister z op (bx_index a) ext (amount \<noteq> 0) base rt]
         | None \<Rightarrow> move_code (scast (bx_offset a)) D64 X17 @
             [AddSubExtended D64 AddOp_Add SetFlags_DontSetFlags (bx_index a) ext (of_nat amount) X17 X17,
              LoadStoreRegister z op X17 ExtendType_Uxtx False (bx_base a) rt])"

lemma try_fold_code:
  "try_fold_base_and_offset a b =
     (case fold_code a of Some (r, is) \<Rightarrow> (Some r, b @ code_of is) | None \<Rightarrow> (None, b))"
  by (auto simp: try_fold_base_and_offset_def fold_code_def emit_add_sub_imm temps invert_add_op_def
      simp del: code_of_simps(2) split: option.split)

lemma ucast_of_nat_small: "n < 8 \<Longrightarrow> (ucast (of_nat n :: u32) :: 3 word) = of_nat n"
  by (rule word_unat_eq_iff [THEN iffD2]) (simp add: unat_ucast_mod unat_of_nat)

lemma scale_log2_bound: "scale_log2 sc < 4"
  by (cases sc) simp_all

lemma fallback_code:
  "load_store_base_index_fallback z op rt a b = b @ code_of
     (move_code (scast (bx_offset a)) D64 X17 @
      [AddSubExtended D64 AddOp_Add SetFlags_DontSetFlags (bx_index a) (index_extend_type (bx_extend a))
         (of_nat (scale_log2 (bx_scale a))) X17 X17,
       LoadStoreRegister z op X17 ExtendType_Uxtx False (bx_base a) rt])"
  using scale_log2_bound [of "bx_scale a"]
  by (simp add: load_store_base_index_fallback_def Let_def move_scratch_code temps
      emit_add_sub_extended_reg emit_load_store_register_offset ucast_of_nat_small)

lemma base_index_code_appends:
  assumes "bx_base a \<noteq> Zr" "rt \<noteq> Sp" "bx_index a \<noteq> Sp"
  shows "appends (load_store_base_index z op rt a) (base_index_code z op rt a)"
proof -
  have "load_store_base_index z op rt a b = b @ code_of (base_index_code z op rt a)" for b
    by (auto simp: load_store_base_index_def base_index_code_def Let_def try_fold_code fallback_code
        emit_load_store_register_offset code_of_append_bytes simp del: code_of_simps split: option.split)
  moreover have "list_all legal (base_index_code z op rt a)" "list_all straight (base_index_code z op rt a)"
    using assms by (auto simp: base_index_code_def Let_def fold_code_def move_code_ok sz64 legal_rd_def
        split: option.split if_splits)
  ultimately show ?thesis by (simp add: appends_def)
qed

lemma fold_exec:
  assumes "fold_code a = Some (base, is)"
  obtains s1 where "exec_list is s = s1" and "changes_only {X17} s s1"
    and "get_x s1 base = get_x s (bx_base a) + scast (bx_offset a)"
proof (cases "bx_offset a = 0")
  case True
  then show ?thesis using assms by (intro that [of s]) (auto simp: fold_code_def)
next
  case False
  then obtain u sh inverted where e: "try_extract_shifted_imm32 (bx_offset a) = Some (u, sh, inverted)"
    and f: "base = X17" "is = [AddSubImm D64 (if inverted then invert_add_op AddOp_Add else AddOp_Add)
      SetFlags_DontSetFlags sh (ucast u) (bx_base a) X17]"
    using assms by (auto simp: fold_code_def split: option.splits)
  have "exec_list is s = next_pc (write_result SetFlags_DontSetFlags X17
      (add_sub_sized D64 AddOp_Add (get_x s (bx_base a)) (scast (bx_offset a))) s)"
    using extracted_operand [OF e sz64, of AddOp_Add] imm_operand(1) [OF try_extract_sound(2) [OF e]] f(2)
    by simp
  then show ?thesis
    using f(1) by (intro that [OF refl])
      (simp_all add: write_result_def changes_only_set_x fst_add_sub_sized sz64 narrow_def arith_def)
qed

lemma valid_scale_shift:
  "scale_is_valid_for_size z sc \<Longrightarrow>
   (if scale_log2 sc \<noteq> 0 then unat (mem_op_size_u32 z) else 0) = scale_log2 sc"
  by (cases sc; cases z) (simp_all add: scale_is_valid_for_size_def)

lemma base_index_accesses:
  assumes "bx_base a \<noteq> Zr" "rt \<noteq> Sp" "bx_index a \<noteq> Sp" "bx_base a \<noteq> X17" "bx_index a \<noteq> X17"
  shows "accesses (load_store_base_index z op rt a) (access_bytes z) op rt (base_index_value a)"
  unfolding accesses_def
proof (rule appends_computes [OF base_index_code_appends [OF assms(1-3)]])
  fix s
  let ?fold = "if scale_is_valid_for_size z (bx_scale a) then fold_code a else None"
  show "\<exists>s1. changes_only {X17} s s1 \<and>
    exec_list (base_index_code z op rt a) s = next_pc (access (access_bytes z) op rt (base_index_value a s) s1)"
  proof (cases ?fold)
    case (Some e)
    obtain base "is" where e: "e = (base, is)" by (cases e)
    then have f: "fold_code a = Some (base, is)" and v: "scale_is_valid_for_size z (bx_scale a)"
      using Some by (auto split: if_splits)
    obtain s1 where "exec_list is s = s1" "changes_only {X17} s s1"
      "get_x s1 base = get_x s (bx_base a) + scast (bx_offset a)"
      using fold_exec [OF f] .
    then show ?thesis
      using f v assms(5) valid_scale_shift [OF v]
      by (intro exI [of _ s1])
        (simp add: base_index_code_def Let_def base_index_value_def changes_only_get)
  next
    case None
    obtain s1 where s1: "exec_list (move_code (scast (bx_offset a)) D64 X17) s = s1"
      "changes_only {X17} s s1" "get_x s1 X17 = scast (bx_offset a)"
      by (rule move_code_X17)
    let ?v = "scast (bx_offset a) + push_bit (scale_log2 (bx_scale a))
      (index_value (bx_extend a) (get_x s (bx_index a)))"
    have "unat (of_nat (scale_log2 (bx_scale a)) :: 3 word) = scale_log2 (bx_scale a)"
      using scale_log2_bound [of "bx_scale a"] by (simp add: unat_of_nat)
    then have "exec_list (base_index_code z op rt a) s =
        next_pc (access (access_bytes z) op rt (get_x s (bx_base a) + ?v) (next_pc (set_x X17 ?v s1)))"
      using s1 assms None changes_only_get [OF s1(2)]
      by (simp add: base_index_code_def Let_def write_result_def fst_add_sub_sized
          sz64 narrow_def arith_def split: if_splits)
    moreover have "changes_only {X17} s (next_pc (set_x X17 ?v s1))"
      using s1(2) by (simp add: changes_only_def)
    ultimately show ?thesis by (auto simp: base_index_value_def add.assoc)
  qed
qed

section \<open>Loads and stores\<close>

definition loads :: "nat \<Rightarrow> register_id \<Rightarrow> (cpu \<Rightarrow> u64) \<Rightarrow> cpu \<Rightarrow> cpu \<Rightarrow> bool" where
  "loads n dest ea s s' \<longleftrightarrow>
     get_x s' dest = load_le n (ram s) (ea s) \<and> changes_only {dest, X17} s s'"

definition stores :: "nat \<Rightarrow> register_id \<Rightarrow> (cpu \<Rightarrow> u64) \<Rightarrow> cpu \<Rightarrow> cpu \<Rightarrow> bool" where
  "stores n src ea s s' \<longleftrightarrow>
     ram s' = store_le n (ea s) (get_x s src) (ram s) \<and> changes_only {X17} s (s'\<lparr>ram := ram s\<rparr>)"

lemma get_x_ram [simp]: "get_x (s\<lparr>ram := m\<rparr>) r = get_x s r"
  by (simp add: get_x_def)

lemma computes_mono: "computes f R \<Longrightarrow> (\<And>s s'. R s s' \<Longrightarrow> R' s s') \<Longrightarrow> computes f R'"
  unfolding computes_def by blast

lemma accesses_loads:
  "accesses f n MemOp_Load rt ea \<Longrightarrow> rt \<noteq> Zr \<Longrightarrow> computes f (loads n rt ea)"
  unfolding accesses_def
  by (erule computes_mono) (auto simp: loads_def access_def changes_only_ram changes_only_load)

lemma next_pc_ram: "(next_pc s)\<lparr>ram := m\<rparr> = next_pc (s\<lparr>ram := m\<rparr>)"
  by (simp add: next_pc_def)

lemma accesses_stores:
  assumes "accesses f n MemOp_Store rt ea" "rt \<noteq> X17"
  shows "computes f (stores n rt ea)"
proof (rule computes_mono [OF assms(1) [unfolded accesses_def]])
  fix s s'
  assume "\<exists>s1. changes_only {X17} s s1 \<and> s' = next_pc (access n MemOp_Store rt (ea s) s1)"
  then obtain s1 where c: "changes_only {X17} s s1"
    and s': "s' = next_pc (s1\<lparr>ram := store_le n (ea s) (get_x s1 rt) (ram s1)\<rparr>)"
    by (auto simp: access_def)
  have "get_x s1 rt = get_x s rt" "ram s1 = ram s"
    using c assms(2) by (simp_all add: changes_only_get changes_only_ram)
  moreover have "changes_only {X17} s (s'\<lparr>ram := ram s\<rparr>)"
    using c unfolding s' next_pc_ram by (simp add: changes_only_def)
  ultimately show "stores n rt ea s s'" by (simp add: stores_def s')
qed

text \<open>C11: Every load and store of 8, 32 and 64 bits accesses the address its operand names: base plus
sign-extended offset, and with an index the index, extended as said and scaled, on top.  This holds
for every 32-bit offset and every scale, whether the offset fits an instruction, is added to the
base first or goes through the scratch register.  A load leaves the zero-extended little-endian value in its
destination and changes memory nowhere; a store writes exactly the bytes of its operand and changes
no register but the scratch one.\<close>

theorem loads_and_stores_correct:
  assumes "addr_base a \<notin> {Zr, X17}" and "bx_base x \<notin> {Zr, X17}" "bx_index x \<notin> {Sp, X17}"
    and "dest \<notin> {Sp, Zr}" and "src \<notin> {Sp, X17}"
  shows "computes (load64 a dest) (loads 8 dest (address_value a)) \<and>
    computes (load32 a dest) (loads 4 dest (address_value a)) \<and>
    computes (load8 a dest) (loads 1 dest (address_value a)) \<and>
    computes (store64 src a) (stores 8 src (address_value a)) \<and>
    computes (store32 src a) (stores 4 src (address_value a)) \<and>
    computes (store8 src a) (stores 1 src (address_value a)) \<and>
    computes (load64_indexed x dest) (loads 8 dest (base_index_value x)) \<and>
    computes (load32_indexed x dest) (loads 4 dest (base_index_value x)) \<and>
    computes (load8_indexed x dest) (loads 1 dest (base_index_value x)) \<and>
    computes (store64_indexed src x) (stores 8 src (base_index_value x)) \<and>
    computes (store32_indexed src x) (stores 4 src (base_index_value x)) \<and>
    computes (store8_indexed src x) (stores 1 src (base_index_value x))"
proof (intro conjI impI)
  have ld: "computes (load_store_address z MemOp_Load dest a) (loads (access_bytes z) dest (address_value a))"
    and st: "computes (load_store_address z MemOp_Store src a) (stores (access_bytes z) src (address_value a))"
    and ldx: "computes (load_store_base_index z MemOp_Load dest x)
      (loads (access_bytes z) dest (base_index_value x))"
    and stx: "computes (load_store_base_index z MemOp_Store src x)
      (stores (access_bytes z) src (base_index_value x))" for z
    using assms by (auto intro!: accesses_loads accesses_stores address_accesses base_index_accesses)
  note ops = load64_def load32_def load8_def store64_def store32_def store8_def load64_indexed_def
    load32_indexed_def load8_indexed_def store64_indexed_def store32_indexed_def store8_indexed_def
  show "computes (load64 a dest) (loads 8 dest (address_value a))"
    "computes (load32 a dest) (loads 4 dest (address_value a))"
    "computes (load8 a dest) (loads 1 dest (address_value a))"
    using ld [of Size64] ld [of Size32] ld [of Size8Or128] by (simp_all add: ops access_bytes_def)
  show "computes (store64 src a) (stores 8 src (address_value a))"
    "computes (store32 src a) (stores 4 src (address_value a))"
    "computes (store8 src a) (stores 1 src (address_value a))"
    using st [of Size64] st [of Size32] st [of Size8Or128] by (simp_all add: ops access_bytes_def)
  show "computes (load64_indexed x dest) (loads 8 dest (base_index_value x))"
    "computes (load32_indexed x dest) (loads 4 dest (base_index_value x))"
    "computes (load8_indexed x dest) (loads 1 dest (base_index_value x))"
    using ldx [of Size64] ldx [of Size32] ldx [of Size8Or128] by (simp_all add: ops access_bytes_def)
  show "computes (store64_indexed src x) (stores 8 src (base_index_value x))"
    "computes (store32_indexed src x) (stores 4 src (base_index_value x))"
    "computes (store8_indexed src x) (stores 1 src (base_index_value x))"
    using stx [of Size64] stx [of Size32] stx [of Size8Or128] by (simp_all add: ops access_bytes_def)
qed

theorem loads_and_stores_correct_witness:
  "computes (load64 (address_new X1 0x12345678) X2)
      (loads 8 X2 (address_value (address_new X1 0x12345678))) \<and>
   computes (store32_indexed X2 (base_index_new X1 X3 TimesEight (- 16)))
      (stores 4 X2 (base_index_value (base_index_new X1 X3 TimesEight (- 16))))"
  using loads_and_stores_correct
    [of "address_new X1 0x12345678" "base_index_new X1 X3 TimesEight (- 16)" X2 X2]
  by (simp add: address_new_def base_index_new_def)

section \<open>The stack\<close>

lemma pair_imm: "(ucast (signed_drop_bit 3 (- 16 :: i32)) :: 7 word) = - 2"
  "(ucast (signed_drop_bit 3 (16 :: i32)) :: 7 word) = 2"
  "(scast (- 2 :: 7 word) :: u64) = - 2" "(scast (2 :: 7 word) :: u64) = 2"
  by code_simp+

definition push_insn :: "register_id \<Rightarrow> register_id \<Rightarrow> a64" where
  "push_insn a b = LoadStorePair PreIndex Pair64 MemOp_Store (- 2) Sp a b"

definition pop_insn :: "register_id \<Rightarrow> register_id \<Rightarrow> a64" where
  "pop_insn a b = LoadStorePair PostIndex Pair64 MemOp_Load 2 Sp a b"

lemma push_pop_appends:
  assumes "Sp \<notin> {a, b, c, d}"
  shows "appends (\<lambda>buf. pop_pair c d (push_pair a b buf)) [push_insn a b, pop_insn c d]"
  using assms unfolding push_pair_def pop_pair_def emit_pairs pair_imm
  by (auto simp: appends_def push_insn_def pop_insn_def code_of_append_bytes simp del: code_of_simps)

lemma exec_push:
  assumes "Sp \<notin> {a, b}"
  shows "exec (push_insn a b) s = next_pc (set_x Sp (get_x s Sp - 16) (s\<lparr>ram :=
     store_le 8 (get_x s Sp - 8) (get_x s b) (store_le 8 (get_x s Sp - 16) (get_x s a) (ram s))\<rparr>))"
  using assms by (simp add: push_insn_def pair_imm access_def Let_def)

lemma exec_pop:
  assumes "Sp \<notin> {c, d}"
  shows "exec (pop_insn c d) s = next_pc (set_x Sp (get_x s Sp + 16)
     (set_x d (load_le 8 (ram s) (get_x s Sp + 8)) (set_x c (load_le 8 (ram s) (get_x s Sp)) s)))"
  using assms by (simp add: pop_insn_def pair_imm access_def Let_def)

lemma apart8: "j < 8 \<Longrightarrow> k < 8 \<Longrightarrow> a + of_nat j \<noteq> a + 8 + (of_nat k :: u64)"
  using of_nat_inject64 [of j "8 + k"] by (simp add: add.assoc)



end
