(* ===== verification/Link_Correct.thy ===== *)
theory Link_Correct
  imports Macro_Memory
begin

text \<open>
  Linking as in \<open>assembler/link_records.rs\<close>: which distances fit a field, and the exact result of
  linking a jump, a conditional jump or a call, errors included.
\<close>

section \<open>Distances\<close>

lemma is_int_bits_take:
  assumes "0 < n" "n \<le> 64"
  shows "is_int_bits n v \<longleftrightarrow> signed_take_bit (n - 1) v = v"
proof -
  have "signed_drop_bit (64 - n) (push_bit (64 - n) v) = signed_take_bit (n - 1) v"
  proof (rule bit_word_eqI)
    fix k
    assume "k < LENGTH(64)"
    moreover have "min (n - 1) k = (if n \<le> k then n - 1 else k)" by auto
    ultimately show "bit (signed_drop_bit (64 - n) (push_bit (64 - n) v)) k = bit (signed_take_bit (n - 1) v) k"
      using assms by (cases "n \<le> k")
        (simp_all add: bit_signed_drop_bit_iff bit_push_bit_iff bit_signed_take_bit_iff, auto)
  qed
  then show ?thesis by (simp add: is_int_bits_def Let_def)
qed

lemma sint_signed_take_bit:
  "n < 64 \<Longrightarrow> sint (signed_take_bit n v :: u64) = signed_take_bit n (sint v)"
  by (rule bit_eqI) (simp add: bit_sint_iff bit_signed_take_bit_iff min_def, auto)

text \<open>The field test is the range of the signed number.\<close>

lemma is_int_bits_range:
  assumes "0 < n" "n \<le> 64"
  shows "is_int_bits n v \<longleftrightarrow> - (2 ^ (n - 1)) \<le> sint v \<and> sint v < 2 ^ (n - 1)"
proof -
  have "signed_take_bit (n - 1) v = v \<longleftrightarrow> sint (signed_take_bit (n - 1) v) = sint v"
    by (metis word_eq_iff_signed)
  then have "is_int_bits n v \<longleftrightarrow> signed_take_bit (n - 1) (sint v) = sint v"
    using assms by (simp add: is_int_bits_take sint_signed_take_bit)
  then show ?thesis by (simp add: signed_take_bit_int_eq_self_iff)
qed

lemma sint_distance:
  assumes "i < 2 ^ 32" "t < 2 ^ 32"
  shows "sint (of_nat t - of_nat i :: u64) = int t - int i"
proof -
  have "(of_nat t - of_nat i :: u64) = word_of_int (int t - int i)" by simp
  then have "sint (of_nat t - of_nat i :: u64) = signed_take_bit 63 (int t - int i)"
    by (simp only: sint_sbintrunc' signed_of_int) simp
  also have "\<dots> = int t - int i"
    using assms by (intro signed_take_bit_int_eq_self_iff [THEN iffD2]) simp_all
  finally show ?thesis .
qed

lemma aligned_iff: "(of_nat i :: u64) AND 3 = 0 \<longleftrightarrow> 4 dvd i"
proof -
  have "(of_nat i :: u64) AND 3 = take_bit 2 (of_nat i)" by (simp add: take_bit_eq_mask mask_eq_exp_minus_1)
  also have "\<dots> = of_nat (take_bit 2 i)" by (simp only: take_bit_of_nat)
  also have "take_bit 2 i = i mod 4" by (simp add: take_bit_eq_mod)
  finally have "(of_nat i :: u64) AND 3 = of_nat (i mod 4)" .
  moreover have "(of_nat (i mod 4) = (0 :: u64)) = (i mod 4 = 0)"
    using of_nat_inject64 [of "i mod 4" 0] by simp
  ultimately show ?thesis by (simp add: dvd_eq_mod_eq_0)
qed

lemma offset_times4:
  assumes "4 dvd i" "4 dvd t"
  shows "4 * signed_drop_bit 2 (of_nat t - of_nat i) = (of_nat t - of_nat i :: u64)"
proof -
  obtain a c where "i = 4 * a" "t = 4 * c" using assms by (auto elim!: dvdE)
  then have "(of_nat t - of_nat i :: u64) = push_bit 2 (of_nat c - of_nat a)"
    by (simp add: push_bit_eq_mult algebra_simps)
  then have "take_bit 2 (of_nat t - of_nat i :: u64) = 0" by (simp add: take_bit_push_bit)
  then have "\<not> bit (of_nat t - of_nat i :: u64) k" if "k < 2" for k
    using that by (metis bit_take_bit_iff bit_0_eq bot_apply bot_bool_def)
  then have "push_bit 2 (signed_drop_bit 2 (of_nat t - of_nat i)) = (of_nat t - of_nat i :: u64)"
  proof (intro bit_word_eqI)
    fix n
    assume low: "\<And>k. k < 2 \<Longrightarrow> \<not> bit (of_nat t - of_nat i :: u64) k" and "n < LENGTH(64)"
    moreover have "n < 2 \<or> Suc (Suc (n - 2)) = n" by auto
    ultimately show "bit (push_bit 2 (signed_drop_bit 2 (of_nat t - of_nat i :: u64))) n =
        bit (of_nat t - of_nat i :: u64) n"
      by (cases "n < 2") (auto simp: bit_push_bit_iff bit_signed_drop_bit_iff)
  qed
  then show ?thesis by (simp add: push_bit_eq_mult mult.commute)
qed

lemma branch_fields:
  "is_int_bits 19 v \<Longrightarrow> scast (ucast (ucast v :: u32) :: 19 word) = v"
  "is_int_bits 26 v \<Longrightarrow> scast (ucast (ucast v :: u32) :: 26 word) = v"
proof -
  have "scast (ucast (ucast v :: u32) :: 19 word) = signed_take_bit 18 v"
    "scast (ucast (ucast v :: u32) :: 26 word) = signed_take_bit 25 v"
    by (auto intro!: bit_word_eqI simp: bit_simps min_def)
  then show "is_int_bits 19 v \<Longrightarrow> scast (ucast (ucast v :: u32) :: 19 word) = v"
    "is_int_bits 26 v \<Longrightarrow> scast (ucast (ucast v :: u32) :: 26 word) = v"
    by (simp_all add: is_int_bits_take)
qed

section \<open>Linking\<close>

text \<open>A jump or call whose label and target are numbers of bytes.\<close>

definition cond_record :: "nat \<Rightarrow> nat \<Rightarrow> arm_condition \<Rightarrow> link_record" where
  "cond_record i t c = new_jump (of_nat i) (of_nat t) JumpCondition c"

definition patched :: "u8 list \<Rightarrow> nat \<Rightarrow> a64 \<Rightarrow> u8 list" where
  "patched code i j = take i code @ code_of [j] @ drop (i + 4) code"

definition branch_offset :: "nat \<Rightarrow> nat \<Rightarrow> u64" where
  "branch_offset i t = signed_drop_bit 2 (of_nat t - of_nat i)"

lemma sint_branch_offset:
  "i < 2 ^ 32 \<Longrightarrow> t < 2 ^ 32 \<Longrightarrow> sint (branch_offset i t) = (int t - int i) div 4"
  using sint_distance [of i t]
  by (simp add: branch_offset_def sint_signed_drop_bit_eq drop_bit_eq_div)

lemma branch_offset_target:
  "4 dvd i \<Longrightarrow> 4 dvd t \<Longrightarrow> of_nat i + 4 * branch_offset i t = (of_nat t :: u64)"
  using offset_times4 [of i t] by (simp add: branch_offset_def)

lemma cond_word: "conditional_branch_immediate (ucast v) c = encode (BranchCond (ucast (ucast v :: u32)) c)"
  "unconditional_branch_immediate l (ucast v) = encode (Branch l (ucast (ucast v :: u32)))"
  for v :: u64
  by (simp_all add: unconditional_branch_immediate_def conditional_branch_immediate_def imm_fields)

lemma write_word_patched:
  assumes "i < 2 ^ 32" "w = encode j"
  shows "write_word_le code (of_nat i) w =
     (if length code < i + 4 then Inl (OutOfBounds (of_nat i) (length code)) else Inr (patched code i j))"
proof -
  have "unat (of_nat i :: u64) = i" using assms by (simp add: unat_of_nat)
  moreover have "0 \<le> sint (of_nat i :: u64)" using sint_distance [of 0 i] assms(1) by simp
  moreover have "ucast (of_nat i :: u64) = (of_nat i :: u32)"
    using assms(1) by (simp add: unsigned_of_nat take_bit_nat_eq_self)
  ultimately show ?thesis
    using assms by (simp add: write_word_le_def out_of_bounds_def patched_def Let_def)
qed

text \<open>What linking a conditional branch or an unconditional one gives, for labels below \<open>2 ^ 32\<close>.\<close>

definition cond_link_result :: "u8 list \<Rightarrow> nat \<Rightarrow> nat \<Rightarrow> arm_condition \<Rightarrow> arm64_link_error + u8 list" where
  "cond_link_result code i t c =
     (if int t - int i < - (2 ^ 20) \<or> 2 ^ 20 \<le> int t - int i then Inl (ExpansionUnsupported LinkJumpCondition)
      else if \<not> 4 dvd i then Inl (Misaligned (of_nat i))
      else if \<not> 4 dvd t then Inl (Misaligned (of_nat t))
      else if length code < i + 4 then Inl (OutOfBounds (of_nat i) (length code))
      else Inr (patched code i (BranchCond (ucast (ucast (branch_offset i t) :: u32)) c)))"

definition branch_link_result :: "u8 list \<Rightarrow> nat \<Rightarrow> nat \<Rightarrow> bool \<Rightarrow> arm64_link_error + u8 list" where
  "branch_link_result code i t l =
     (if \<not> 4 dvd i then Inl (Misaligned (of_nat i))
      else if \<not> 4 dvd t then Inl (Misaligned (of_nat t))
      else if int t - int i < - (2 ^ 27) \<or> 2 ^ 27 \<le> int t - int i
        then Inl (OutOfRange (branch_offset i t) 26)
      else if length code < i + 4 then Inl (OutOfBounds (of_nat i) (length code))
      else Inr (patched code i (Branch l (ucast (ucast (branch_offset i t) :: u32)))))"

lemma cond_in_range:
  "i < 2 ^ 32 \<Longrightarrow> t < 2 ^ 32 \<Longrightarrow>
   is_int_bits 21 (of_nat t - of_nat i) \<longleftrightarrow> \<not> (int t - int i < - (2 ^ 20) \<or> 2 ^ 20 \<le> int t - int i)"
  by (simp add: is_int_bits_range sint_distance, auto)

lemma div4_bounds:
  "- (2 ^ 20) \<le> d \<Longrightarrow> d < 2 ^ 20 \<Longrightarrow> - (2 ^ 18) \<le> d div 4 \<and> d div 4 < (2 ^ 18 :: int)"
  by auto

lemma offset_in_range:
  assumes "i < 2 ^ 32" "t < 2 ^ 32"
  shows "is_int_bits 21 (of_nat t - of_nat i) \<Longrightarrow> is_int_bits 19 (branch_offset i t)"
    and "4 dvd i \<Longrightarrow> 4 dvd t \<Longrightarrow>
      is_int_bits 26 (branch_offset i t) \<longleftrightarrow> \<not> (int t - int i < - (2 ^ 27) \<or> 2 ^ 27 \<le> int t - int i)"
proof -
  show "is_int_bits 21 (of_nat t - of_nat i) \<Longrightarrow> is_int_bits 19 (branch_offset i t)"
    using assms by (auto simp: is_int_bits_range sint_branch_offset sint_distance)
  assume "4 dvd i" "4 dvd t"
  then obtain a c where "i = 4 * a" "t = 4 * c" by (auto elim!: dvdE)
  then have "(int t - int i) div 4 = int c - int a" "int t - int i = 4 * (int c - int a)" by auto
  then show "is_int_bits 26 (branch_offset i t) \<longleftrightarrow>
      \<not> (int t - int i < - (2 ^ 27) \<or> 2 ^ 27 \<le> int t - int i)"
    using assms by (simp add: is_int_bits_range sint_branch_offset, auto)
qed

lemma link_cond:
  assumes "i < 2 ^ 32" "t < 2 ^ 32"
  shows "snd (link (cond_record i t c) code) = cond_link_result code i t c"
proof -
  let ?d = "of_nat t - of_nat i :: u64"
  have e: "snd (link (cond_record i t c) code) = (if is_int_bits 21 ?d
      then link_conditional_branch_direct code (of_nat i) (of_nat t) c
      else Inl (ExpansionUnsupported LinkJumpCondition))"
    by (simp add: link_def compute_jump_type_def chosen_link_type_def cond_record_def new_jump_def
        link_distance_def Let_def)
  have a: "ucast (of_nat k :: u64) = (of_nat k :: u32)" if "k < 2 ^ 32" for k
    using that by (simp add: unsigned_of_nat take_bit_nat_eq_self)
  have "is_int_bits 21 ?d \<Longrightarrow> is_int_bits 19 (branch_offset i t)"
    using offset_in_range(1) [OF assms] .
  then show ?thesis
    unfolding e cond_link_result_def
      link_conditional_branch_direct_def check_aligned_def aligned_iff branch_offset_def [symmetric]
    using assms cond_in_range [OF assms]
    by (simp add: Let_def cond_word write_word_patched [OF _ refl] a del: encode.simps)
qed

lemma link_branch:
  assumes "i < 2 ^ 32" "t < 2 ^ 32"
  shows "snd (link (new_jump (of_nat i) (of_nat t) JumpNoCondition c) code) = branch_link_result code i t False"
    and "snd (link (new_call (of_nat i) (of_nat t)) code) = branch_link_result code i t True"
proof -
  have a: "ucast (of_nat k :: u64) = (of_nat k :: u32)" if "k < 2 ^ 32" for k
    using that by (simp add: unsigned_of_nat take_bit_nat_eq_self)
  have "link_jump_or_call code (of_nat i) (of_nat t) l = branch_link_result code i t l" for l
    unfolding link_jump_or_call_def check_aligned_def aligned_iff branch_offset_def [symmetric]
      branch_link_result_def
    using assms offset_in_range(2) [OF assms]
    by (simp add: Let_def cond_word write_word_patched [OF _ refl] a del: encode.simps)
  then show "snd (link (new_jump (of_nat i) (of_nat t) JumpNoCondition c) code) = branch_link_result code i t False"
    "snd (link (new_call (of_nat i) (of_nat t)) code) = branch_link_result code i t True"
    by (simp_all add: link_def compute_jump_type_def chosen_link_type_def new_jump_def new_call_def Let_def)
qed

text \<open>C12: Linking decides every case exactly.  A conditional jump is patched when the distance is in
the signed 21-bit range of its direct form and refused as unsupported otherwise, never as out of
range; an unconditional jump or a call is patched within the signed 28-bit range and refused as out of range
outside.  Offsets that are no multiple of four are reported as misaligned, the source first, and a
record beyond the code as out of bounds; otherwise the four bytes at the source, and no other byte,
become the encoding of the branch.\<close>

theorem link_result_exact:
  assumes "i < 2 ^ 32" "t < 2 ^ 32"
  shows "snd (link (new_jump (of_nat i) (of_nat t) JumpCondition c) code) = cond_link_result code i t c \<and>
    snd (link (new_jump (of_nat i) (of_nat t) JumpNoCondition c) code) =
      branch_link_result code i t False \<and>
    snd (link (new_call (of_nat i) (of_nat t)) code) = branch_link_result code i t True \<and>
    (i + 4 \<le> length code \<longrightarrow> length (patched code i j) = length code \<and>
      take i (patched code i j) = take i code \<and> drop (i + 4) (patched code i j) = drop (i + 4) code \<and>
      (legal j \<longrightarrow> decode (word_at (patched code i j) i) = Some j))"
  using link_cond [OF assms] link_branch [OF assms]
    word_at_bytes [of i "take i code" "encode j" "drop (i + 4) code"]
  by (simp_all add: cond_record_def patched_def code_of_simps decode_encode)

theorem link_result_exact_witness:
  "snd (link (new_jump 8 (of_nat (2 ^ 20 + 8)) JumpCondition Cond_Eq) []) =
     Inl (ExpansionUnsupported LinkJumpCondition) \<and>
   snd (link (new_call 4 16) (replicate 8 0)) =
     Inr (patched (replicate 8 0) 4 (Branch True (ucast (ucast (branch_offset 4 16) :: u32)))) \<and>
   length (patched (replicate 8 0) 4 Nop) = 8"
  using link_result_exact [of 8 "2 ^ 20 + 8" Cond_Eq "[]" Nop]
    link_result_exact [of 4 16 Cond_Eq "replicate 8 0" Nop]
  by (simp add: cond_link_result_def branch_link_result_def)


end
