(* ===== verification/Macro_Branches.thy ===== *)
theory Macro_Branches
  imports Link_Correct
begin

text \<open>
  The comparisons, branches, jumps and calls of \<open>assembler/macro_assembler_arm64.rs\<close> together with
  the linking of the tokens they return: where the linked code goes and what it leaves in registers.
\<close>

section \<open>Linked branches\<close>

text \<open>Everything but the registers in \<open>D\<close>, the flags and the program counter is as before.\<close>

definition keeps :: "register_id set \<Rightarrow> cpu \<Rightarrow> cpu \<Rightarrow> bool" where
  "keeps D s s' \<longleftrightarrow> (\<forall>r. r \<notin> D \<longrightarrow> get_x s' r = get_x s r) \<and> ram s' = ram s \<and>
     fpr s' = fpr s \<and> fp_unit s' = fp_unit s"

text \<open>An operation that emits a jump: after linking the token it returns to a label, the code, run
from where the operation began, ends at the label when \<open>taken\<close> holds and behind the operation's
code otherwise, in a state that \<open>R\<close> relates to the first.\<close>

definition branches ::
  "(code_buffer \<Rightarrow> asm_jump \<times> code_buffer) \<Rightarrow> (cpu \<Rightarrow> bool) \<Rightarrow> (cpu \<Rightarrow> cpu \<Rightarrow> bool) \<Rightarrow> bool" where
  "branches f taken R \<longleftrightarrow>
     (\<forall>org b c j b' lab code s. f b = (j, b') \<longrightarrow> length (b' @ c) < 2 ^ 32 \<longrightarrow>
        snd (link (jump_to_link_record j lab) (b' @ c)) = Inr code \<longrightarrow> pc s = org + of_nat (length b) \<longrightarrow>
        (\<exists>s'. runs org code s s' \<and> R s s' \<and>
           pc s' = org + (if taken s then ucast (label_token lab) else of_nat (length b'))))"

lemma patched_at:
  "i = length b \<Longrightarrow> patched (b @ code_of (k # is) @ c) i j = b @ code_of (j # is) @ c"
  by (simp add: patched_def)

lemma label_nat: "ucast (l :: u32) = (of_nat (unat l) :: u64)"
  by (simp add: of_nat_unat)

lemma unat_label: "unat (w :: u32) < 2 ^ 32"
  by (rule order.strict_trans2 [OF unsigned_less]) simp

lemma jump_record:
  "length b < 2 ^ 32 \<Longrightarrow>
   jump_to_link_record (jump_new (current_label b) ty cond) lab =
     new_jump (of_nat (length b)) (of_nat (unat (label_token lab))) ty cond"
  by (simp add: jump_to_link_record_def jump_new_def current_label_def label_nat [symmetric]
      unsigned_of_nat take_bit_nat_eq_self)

lemma cond_link_inr:
  assumes "cond_link_result code i t c = Inr code'" "i < 2 ^ 32" "t < 2 ^ 32"
  obtains imm where "code' = patched code i (BranchCond imm c)" "of_nat i + 4 * scast imm = (of_nat t :: u64)"
proof -
  have c: "code' = patched code i (BranchCond (ucast (ucast (branch_offset i t) :: u32)) c)"
    and d: "\<not> (int t - int i < - (2 ^ 20) \<or> 2 ^ 20 \<le> int t - int i)" "4 dvd i" "4 dvd t"
    using assms(1) by (auto simp: cond_link_result_def split: if_splits)
  have "is_int_bits 19 (branch_offset i t)"
    using offset_in_range(1) [OF assms(2,3)] cond_in_range [OF assms(2,3)] d(1) by blast
  then show ?thesis using that [OF c] branch_fields(1) branch_offset_target [OF d(2,3)] by simp
qed

lemma branch_link_inr:
  assumes "branch_link_result code i t l = Inr code'" "i < 2 ^ 32" "t < 2 ^ 32"
  obtains imm where "code' = patched code i (Branch l imm)" "of_nat i + 4 * scast imm = (of_nat t :: u64)"
proof -
  have c: "code' = patched code i (Branch l (ucast (ucast (branch_offset i t) :: u32)))"
    and d: "\<not> (int t - int i < - (2 ^ 27) \<or> 2 ^ 27 \<le> int t - int i)" "4 dvd i" "4 dvd t"
    using assms(1) by (auto simp: branch_link_result_def split: if_splits)
  have "is_int_bits 26 (branch_offset i t)"
    using offset_in_range(2) [OF assms(2,3) d(2,3)] d(1) by blast
  then show ?thesis using that [OF c] branch_fields(2) branch_offset_target [OF d(2,3)] by simp
qed

lemma make_branch_code:
  "make_branch c b = (jump_new (current_label b) JumpCondition c, b @ code_of [BranchCond 0 c, Nop])"
  by (simp add: make_branch_def Let_def emit_branches)

text \<open>The patched code: the instructions before the branch, the branch to the label, the filler.\<close>

lemma linked_branch_runs:
  assumes ok: "list_all legal is" "list_all straight is"
    and len: "length (b @ code_of (is @ [BranchCond imm c, Nop]) @ rest) < 2 ^ 64"
    and pc: "pc s = org + of_nat (length b)"
    and tgt: "of_nat (length b + 4 * length is) + 4 * scast imm = (t :: u64)"
  shows "\<exists>p. runs org (b @ code_of (is @ [BranchCond imm c, Nop]) @ rest) s ((exec_list is s)\<lparr>pc := p\<rparr>) \<and>
     p = org + (if cond_holds c (flags (exec_list is s)) then t else of_nat (length b + 4 * length is + 8))"
proof -
  let ?code = "b @ code_of (is @ [BranchCond imm c, Nop]) @ rest"
  let ?s1 = "exec_list is s"
  have r1: "runs org ?code s ?s1"
    using runs_code_of [OF ok, of b "code_of [BranchCond imm c, Nop] @ rest" s org] len pc by simp
  have p1: "pc ?s1 = org + of_nat (length b + 4 * length is)"
    using pc_exec_list [OF ok(2), of s] pc by simp
  have l: "list_all legal (is @ [BranchCond imm c, Nop])" using ok(1) by simp
  have "fetch org ?code (pc ?s1) = Some (BranchCond imm c)"
    using fetch_code_of [OF l, of "length is" b rest "pc ?s1" org] len p1 by simp
  then have r2: "runs org ?code ?s1 (exec (BranchCond imm c) ?s1)" by (rule runs_one)
  show ?thesis
  proof (cases "cond_holds c (flags ?s1)")
    case True
    have "exec (BranchCond imm c) ?s1 = ?s1\<lparr>pc := org + t\<rparr>"
      using True p1 tgt by (simp add: add.assoc)
    then show ?thesis using True runs_trans [OF r1 r2] by auto
  next
    case False
    let ?s2 = "next_pc ?s1"
    have e: "exec (BranchCond imm c) ?s1 = ?s2" using False by simp
    have "pc ?s2 = org + of_nat (length b + 4 * (length is + 1))" using p1 by simp
    then have "fetch org ?code (pc ?s2) = Some Nop"
      using fetch_code_of [OF l, of "length is + 1" b rest "pc ?s2" org] len
      by (simp add: nth_append)
    then have "runs org ?code ?s2 (next_pc ?s2)" using runs_one [of org ?code ?s2 Nop] by simp
    moreover have "next_pc ?s2 = ?s1\<lparr>pc := org + of_nat (length b + 4 * length is + 8)\<rparr>"
      using p1 by (simp add: next_pc_def)
    ultimately show ?thesis using False runs_trans [OF runs_trans [OF r1 r2]] e by auto
  qed
qed

text \<open>The one proof all conditional branches share.\<close>

lemma branches_cond:
  assumes f: "\<And>b. f b = make_branch cond (b @ code_of pre)"
    and ok: "list_all legal pre" "list_all straight pre"
    and taken: "\<And>s. cond_holds cond (flags (exec_list pre s)) = taken s"
    and R: "\<And>s p. R s ((exec_list pre s)\<lparr>pc := p\<rparr>)"
  shows "branches f taken R"
  unfolding branches_def
proof (intro allI impI)
  fix org b c j b' lab code and s :: cpu
  assume fb: "f b = (j, b')" and len: "length (b' @ c) < 2 ^ 32"
    and lk: "snd (link (jump_to_link_record j lab) (b' @ c)) = Inr code"
    and pc: "pc s = org + of_nat (length b)"
  let ?front = "b @ code_of pre" and ?t = "unat (label_token lab)"
  have j: "j = jump_new (current_label ?front) JumpCondition cond"
    and b': "b' = ?front @ code_of [BranchCond 0 cond, Nop]"
    using fb f [of b] make_branch_code [of cond ?front] by simp_all
  have small: "length ?front < 2 ^ 32" "?t < 2 ^ 32" using len b' unat_label by simp_all
  have "cond_link_result (b' @ c) (length ?front) ?t cond = Inr code"
    using lk link_cond [OF small] unfolding j jump_record [OF small(1)] cond_record_def by simp
  then obtain imm where "code = patched (b' @ c) (length ?front) (BranchCond imm cond)"
    and t: "of_nat (length ?front) + 4 * scast imm = (of_nat ?t :: u64)"
    using cond_link_inr [OF _ small] by blast
  then have code: "code = b @ code_of (pre @ [BranchCond imm cond, Nop]) @ c"
    using patched_at [of "length ?front" ?front "BranchCond 0 cond" "[Nop]" c] b' by simp
  have l: "length (b @ code_of (pre @ [BranchCond imm cond, Nop]) @ c) < 2 ^ 64" using len b' by simp
  have t': "of_nat (length b + 4 * length pre) + 4 * scast imm = (of_nat ?t :: u64)" using t by simp
  from linked_branch_runs [OF ok l pc t', unfolded taken]
  obtain p where run: "runs org code s ((exec_list pre s)\<lparr>pc := p\<rparr>)"
    and p: "p = org + (if taken s then of_nat ?t else of_nat (length b + 4 * length pre + 8))"
    unfolding code by (elim exE conjE)
  have "length b' = length b + 4 * length pre + 8" using b' by simp
  then have "p = org + (if taken s then ucast (label_token lab) else of_nat (length b'))"
    unfolding p label_nat by (simp only:)
  then show "\<exists>s'. runs org code s s' \<and> R s s' \<and>
      pc s' = org + (if taken s then ucast (label_token lab) else of_nat (length b'))"
    using run R by (intro exI [of _ "(exec_list pre s)\<lparr>pc := p\<rparr>"]) simp_all
qed

section \<open>Conditions\<close>

text \<open>What the conditions of the operations mean for the numbers in the registers.\<close>

definition relation_holds :: "relational_condition \<Rightarrow> 'a::len word \<Rightarrow> 'a word \<Rightarrow> bool" where
  "relation_holds c x y =
     (case c of
        Rel_Equal \<Rightarrow> x = y | Rel_NotEqual \<Rightarrow> x \<noteq> y
      | Rel_Above \<Rightarrow> y < x | Rel_AboveOrEqual \<Rightarrow> y \<le> x
      | Rel_Below \<Rightarrow> x < y | Rel_BelowOrEqual \<Rightarrow> x \<le> y
      | Rel_GreaterThan \<Rightarrow> sint y < sint x | Rel_GreaterThanOrEqual \<Rightarrow> sint y \<le> sint x
      | Rel_LessThan \<Rightarrow> sint x < sint y | Rel_LessThanOrEqual \<Rightarrow> sint x \<le> sint y)"

definition result_holds :: "result_condition \<Rightarrow> 'a::len word \<Rightarrow> bool \<Rightarrow> bool \<Rightarrow> bool" where
  "result_holds c r carry overflow =
     (case c of
        Res_Carry \<Rightarrow> carry | Res_Overflow \<Rightarrow> overflow
      | Res_Signed \<Rightarrow> sint r < 0 | Res_PositiveOrZero \<Rightarrow> 0 \<le> sint r
      | Res_Zero \<Rightarrow> r = 0 | Res_NonZero \<Rightarrow> r \<noteq> 0)"

definition fits_i32 :: "int \<Rightarrow> bool" where
  "fits_i32 k \<longleftrightarrow> - (2 ^ 31) \<le> k \<and> k < 2 ^ 31"

lemma relation_flags:
  "cond_holds (relational_arm64_condition c) (snd (add_sub AddOp_Sub x y)) = relation_holds c x y"
proof -
  have s: "sint x = sint y \<longleftrightarrow> x = y" by (metis word_eq_iff_signed)
  show ?thesis
    using compare_flags [of x y]
    by (cases c) (simp_all add: cond_holds_def relation_holds_def, use s in \<open>auto simp: less_le not_le\<close>)
qed

lemma ucast_up_eq_0: "(ucast (w :: u32) :: u64) = 0 \<longleftrightarrow> w = 0"
  by (metis ucast_up_down unsigned_0)

lemma logical_flags_holds:
  "cond_holds (result_arm64_condition c) (logical_flags D32 (narrow D32 v)) =
     result_holds c (ucast v :: u32) False False"
  "cond_holds (result_arm64_condition c) (logical_flags D64 v) = result_holds c v False False"
  by (cases c; auto simp: cond_holds_def logical_flags_def result_holds_def narrow_def ucast_up_eq_0)+

lemma signed_wraps: "sint (word_of_int k :: u32) = k \<longleftrightarrow> fits_i32 k"
  by (simp add: sint_sbintrunc' signed_take_bit_int_eq_self_iff fits_i32_def)

lemma word_of_sints:
  "x + y = (word_of_int (sint x + sint y) :: u32)" "x - y = (word_of_int (sint x - sint y) :: u32)"
  "x * y = (word_of_int (sint x * sint y) :: u32)"
  by simp_all

lemma add_flags_holds:
  "cond_holds (result_arm64_condition c) (snd (add_sub AddOp_Add x y)) =
     result_holds c (x + y :: u32) (2 ^ 32 \<le> uint x + uint y) (\<not> fits_i32 (sint x + sint y))"
proof -
  have "uint (x + y) = uint x + uint y \<longleftrightarrow> uint x + uint y < 2 ^ 32"
    by (simp add: uint_plus_if')
  moreover have "sint (x + y) = sint x + sint y \<longleftrightarrow> fits_i32 (sint x + sint y)"
    by (subst word_of_sints(1)) (rule signed_wraps)
  ultimately show ?thesis
    by (cases c) (auto simp: cond_holds_def add_sub_def add_with_carry_def Let_def result_holds_def)
qed

lemma sub_flags_holds:
  "cond_holds (result_arm64_condition c) (snd (add_sub AddOp_Sub x y)) =
     result_holds c (x - y :: u32) (y \<le> x) (\<not> fits_i32 (sint x - sint y))"
proof -
  have r: "x + NOT y + 1 = x - y" by (simp add: not_eq_complement)
  have "sint (x - y) = sint x - sint y \<longleftrightarrow> fits_i32 (sint x - sint y)"
    by (subst word_of_sints(2)) (rule signed_wraps)
  moreover have "flag_v (snd (add_sub AddOp_Sub x y)) \<longleftrightarrow> sint (x - y) \<noteq> sint x - sint y"
    by (simp add: add_sub_def add_with_carry_def Let_def r sint_NOT)
  moreover have "flag_n (snd (add_sub AddOp_Sub x y)) \<longleftrightarrow> sint (x - y) < 0"
    by (simp add: add_sub_def add_with_carry_def Let_def r)
  ultimately show ?thesis
    using compare_flags(1,2) [of x y] by (cases c) (auto simp: cond_holds_def result_holds_def)
qed

section \<open>The branches\<close>

lemma get_x_pc [simp]: "get_x (s\<lparr>pc := p\<rparr>) r = get_x s r"
  by (simp add: get_x_def)

lemma keeps_exec:
  "keeps D s s1 \<Longrightarrow> keeps D s (s1\<lparr>pc := p\<rparr>)"
  "changes_only D s s1 \<Longrightarrow> keeps D s (next_pc (write_result fl Zr v s1))"
  "keeps D s s1 \<Longrightarrow> r \<in> D \<Longrightarrow> keeps D s (next_pc (write_result fl r v s1))"
  "keeps D s s1 \<Longrightarrow> r \<in> D \<Longrightarrow> keeps D s (next_pc (set_x r v' s1))"
  "changes_only D s s1 \<Longrightarrow> keeps D s s1" "keeps D s s"
  by (auto simp: keeps_def changes_only_def)

lemma reg_insn_legal:
  "gpr_size sf \<Longrightarrow> rn \<noteq> Sp \<Longrightarrow> rm \<noteq> Sp \<Longrightarrow> rd \<noteq> Sp \<Longrightarrow> legal (reg_insn sf op fl rd rn rm)"
  "straight (reg_insn sf op fl rd rn rm)"
  by (simp_all add: reg_insn_def)

lemma flags_step: "flags (next_pc (write_result SetFlags_S rd v s)) = snd v"
  by simp

lemma sz32: "gpr_size D32"
  by (simp add: gpr_size_def)

text \<open>C10: A comparison branch, once linked, goes to its label exactly when the relation holds between
the two 32-bit or 64-bit numbers, signed or unsigned as the condition says, and falls through
otherwise, for register operands, for every 32-bit immediate, and for the stack pointer on the right
of a 64-bit comparison.  No memory and at most the scratch register changes.\<close>

theorem compare_branches_correct:
  assumes "left \<notin> {Sp, Zr, X16}" "right \<noteq> Sp"
  shows "branches (branch32 cond left right)
      (\<lambda>s. relation_holds cond (get_w s left) (get_w s right)) (keeps {}) \<and>
    branches (branch32_imm cond left imm)
      (\<lambda>s. relation_holds cond (get_w s left) (imm32_value imm)) (keeps {X16}) \<and>
    branches (branch64 cond left r)
      (\<lambda>s. relation_holds cond (get_x s left) (get_x s r)) (keeps {X16}) \<and>
    branches (branch_ptr cond left r)
      (\<lambda>s. relation_holds cond (get_x s left) (get_x s r)) (keeps {X16})"
proof (intro conjI impI)
  note [simp del] = code_of_simps exec.simps
  show "branches (branch32 cond left right)
      (\<lambda>s. relation_holds cond (get_w s left) (get_w s right)) (keeps {})"
    using assms by (intro branches_cond [where cond = "relational_arm64_condition cond"
        and pre = "[reg_insn D32 AddOp_Sub SetFlags_S Zr left right]"])
      (auto simp: branch32_def cmp_regs_def reg_insn_code reg_insn_legal sz32 exec_reg_insn flags_step
        add_sub_sized_D32 relation_flags intro!: keeps_exec(1,2))
  show "branches (branch32_imm cond left imm)
      (\<lambda>s. relation_holds cond (get_w s left) (imm32_value imm)) (keeps {X16})"
  proof (rule branches_cond [where cond = "relational_arm64_condition cond"
      and pre = "imm_code D32 AddOp_Sub SetFlags_S (imm32_value imm) left Zr"])
    let ?is = "imm_code D32 AddOp_Sub SetFlags_S (imm32_value imm) left Zr"
    show "branch32_imm cond left imm b = make_branch (relational_arm64_condition cond) (b @ code_of ?is)" for b
      by (simp add: branch32_imm_def cmp_imm_code sz32)
    show "list_all legal ?is" "list_all straight ?is"
      using assms by (auto intro!: imm_code_legal simp: sz32 legal_rd_def)
    fix s
    obtain s1 where "changes_only {X16} s s1" and e: "exec_list ?is s = next_pc (write_result SetFlags_S Zr
        (add_sub_sized D32 AddOp_Sub (get_x s left) (scast (imm32_value imm))) s1)"
      using imm_code_exec [OF sz32, of left s AddOp_Sub SetFlags_S "imm32_value imm" Zr] assms by blast
    then show "keeps {X16} s ((exec_list ?is s)\<lparr>pc := p\<rparr>)" for p
      by (auto intro!: keeps_exec(1,2))
    show "cond_holds (relational_arm64_condition cond) (flags (exec_list ?is s)) =
        relation_holds cond (get_w s left) (imm32_value imm)"
      unfolding e flags_step by (simp add: add_sub_sized_D32 relation_flags)
  qed
  show b64: "branches (branch64 cond left r)
      (\<lambda>s. relation_holds cond (get_x s left) (get_x s r)) (keeps {X16})"
  proof (cases "r = Sp")
    case False
    then show ?thesis
      using assms by (intro branches_cond [where cond = "relational_arm64_condition cond"
          and pre = "[reg_insn D64 AddOp_Sub SetFlags_S Zr left r]"])
        (auto simp: branch64_def is_sp_def cmp_regs_def reg_insn_code reg_insn_legal sz64 exec_reg_insn
          flags_step add_sub_sized_D64 relation_flags intro!: keeps_exec(1,2))
  next
    case True
    have m: "move_rr Sp X16 b = b @ code_of (move_rr_code Sp X16)" "list_all legal (move_rr_code Sp X16)"
      "list_all straight (move_rr_code Sp X16)" for b
      using move_rr_appends [of Sp X16] by (auto simp: appends_def)
    show ?thesis
      using assms True move_rr_value [of Sp X16]
      by (intro branches_cond [where cond = "relational_arm64_condition cond"
          and pre = "move_rr_code Sp X16 @ [reg_insn D64 AddOp_Sub SetFlags_S Zr left X16]"])
        (auto simp: branch64_def is_sp_def cmp_regs_def reg_insn_code reg_insn_legal sz64 exec_reg_insn
          flags_step add_sub_sized_D64 relation_flags temps m code_of_append_bytes changes_only_set_x
          intro!: keeps_exec(1,2))
  qed
  then show "branches (branch_ptr cond left r)
      (\<lambda>s. relation_holds cond (get_x s left) (get_x s r)) (keeps {X16})"
    by (simp add: branch_ptr_def)
qed

theorem compare_branches_correct_witness:
  "branches (branch32_imm Rel_LessThan X1 \<lparr>imm32_value = - 5\<rparr>)
     (\<lambda>s. relation_holds Rel_LessThan (get_w s X1) (- 5)) (keeps {X16}) \<and>
   branches (branch64 Rel_Above X1 Sp)
     (\<lambda>s. relation_holds Rel_Above (get_x s X1) (get_x s Sp)) (keeps {X16})"
  using compare_branches_correct [of X1 X2 Rel_LessThan "\<lparr>imm32_value = - 5\<rparr>" Sp]
    compare_branches_correct [of X1 X2 Rel_Above "\<lparr>imm32_value = - 5\<rparr>" Sp] by simp

lemma test_branches:
  assumes "gpr_size sf" "reg \<noteq> Sp" "m \<noteq> Sp" "list_all legal pre" "list_all straight pre"
    and f: "\<And>b. f b = make_branch (result_arm64_condition cond)
      (b @ code_of (pre @ [LogicalShifted sf LogicalOp_Ands ShiftType_Lsl False m 0 reg Zr]))"
    and taken: "\<And>s. cond_holds (result_arm64_condition cond) (logical_flags sf
      (narrow sf (get_x (exec_list pre s) reg AND get_x (exec_list pre s) m))) = taken s"
    and R: "\<And>s s'. keeps {} (exec_list pre s) s' \<Longrightarrow> R s s'"
  shows "branches f taken R"
proof (rule branches_cond [OF f])
  have e: "exec (LogicalShifted sf LogicalOp_Ands ShiftType_Lsl False m 0 reg Zr) s =
      next_pc (write_result SetFlags_S Zr (narrow sf (get_x s reg AND get_x s m),
        logical_flags sf (narrow sf (get_x s reg AND get_x s m))) s)" for s
  proof -
    have "narrow sf (x AND shift_sized sf ShiftType_Lsl 0 y) = narrow sf (x AND y)" for x y
      using assms(1) by (elim gpr_sizeE)
        (auto simp: shift_sized_def shift_value_def narrow_def intro!: bit_word_eqI simp: bit_simps)
    then show ?thesis by (simp add: Let_def logical_value_def)
  qed
  let ?is = "pre @ [LogicalShifted sf LogicalOp_Ands ShiftType_Lsl False m 0 reg Zr]"
  show "list_all legal ?is" "list_all straight ?is" using assms(1-5) by simp_all
  show "cond_holds (result_arm64_condition cond) (flags (exec_list ?is s)) = taken s" for s
    using taken by (simp add: e del: exec.simps)
  show "R s ((exec_list ?is s)\<lparr>pc := p\<rparr>)" for s p
    by (rule R) (auto simp: e simp del: exec.simps intro!: keeps_exec(1,2))
qed

lemma and_narrow: "ucast (x AND y :: u64) = (ucast x AND ucast y :: u32)"
  by (auto intro!: bit_word_eqI simp: bit_simps)

lemma arith_branches:
  assumes "dest \<notin> {Sp, Zr}" "a \<noteq> Sp" "b' \<noteq> Sp"
    and "\<And>b. f b = make_branch (result_arm64_condition cond)
      (b @ code_of [reg_insn D32 op SetFlags_S dest a b'])"
    and "\<And>s. cond_holds (result_arm64_condition cond)
      (snd (add_sub op (get_w s a) (get_w s b'))) = taken s"
    and "\<And>s. arith op (get_w s a) (get_w s b') = v s"
  shows "branches f taken (\<lambda>s s'. get_x s' dest = ucast (v s) \<and> keeps {dest} s s')"
proof (rule branches_cond [OF assms(4)])
  let ?i = "reg_insn D32 op SetFlags_S dest a b'"
  show "list_all legal [?i]" "list_all straight [?i]" using assms by (simp_all add: reg_insn_legal sz32)
  fix s
  have e: "exec_list [?i] s = next_pc (write_result SetFlags_S dest
      (add_sub_sized D32 op (get_x s a) (get_x s b')) s)"
    by (simp add: exec_reg_insn sz32 del: exec.simps)
  show "cond_holds (result_arm64_condition cond) (flags (exec_list [?i] s)) = taken s"
    unfolding e flags_step by (simp add: add_sub_sized_D32 assms(5))
  have "fst (add_sub op (get_w s a) (get_w s b')) = v s"
    using assms(6) [of s] by (simp add: fst_add_sub arith_def)
  then show "get_x ((exec_list [?i] s)\<lparr>pc := p\<rparr>) dest = ucast (v s) \<and>
      keeps {dest} s ((exec_list [?i] s)\<lparr>pc := p\<rparr>)" for p
    unfolding e using assms(1)
    by (simp add: add_sub_sized_D32 keeps_exec(1,3,6))
qed

text \<open>The overflow test of a multiplication: the product equals its sign-extended low half.\<close>

lemma product_fits:
  fixes x y :: u32
  defines "p \<equiv> scast x * scast y :: u64"
  shows "ucast p = x * y" and "p = scast (ucast p :: u32) \<longleftrightarrow> fits_i32 (sint x * sint y)"
proof -
  have p: "p = word_of_int (sint x * sint y)" unfolding p_def by (simp only: scast_eq of_int_mult)
  show u: "ucast p = x * y" by (simp add: p_def ucast_down_arith)
  have "\<bar>sint x\<bar> \<le> 2 ^ 31" "\<bar>sint y\<bar> \<le> 2 ^ 31"
    using sint_ge [of x] sint_lt [of x] sint_ge [of y] sint_lt [of y] by auto
  then have "\<bar>sint x * sint y\<bar> \<le> 2 ^ 31 * 2 ^ 31" unfolding abs_mult by (rule mult_mono) simp_all
  then have "signed_take_bit 63 (sint x * sint y) = sint x * sint y"
    by (intro signed_take_bit_int_eq_self_iff [THEN iffD2]) auto
  then have sp: "sint p = sint x * sint y" unfolding p sint_sbintrunc' by simp
  have "sint (scast (x * y) :: u64) = signed_take_bit 63 (sint (x * y))"
    unfolding scast_eq sint_sbintrunc' by simp
  also have "\<dots> = sint (x * y)"
    using sint_ge [of "x * y"] sint_lt [of "x * y"]
    by (intro signed_take_bit_int_eq_self_iff [THEN iffD2]) simp_all
  finally have sxy: "sint (scast (x * y) :: u64) = sint (x * y)" .
  have "p = scast (x * y) \<longleftrightarrow> sint p = sint (scast (x * y) :: u64)" by (rule word_eq_iff_signed)
  then have "p = scast (ucast p :: u32) \<longleftrightarrow> sint x * sint y = sint (x * y)"
    unfolding u sp sxy .
  also have "\<dots> \<longleftrightarrow> fits_i32 (sint x * sint y)"
    unfolding word_of_sints(3) eq_commute [of "sint x * sint y"] by (rule signed_wraps)
  finally show "p = scast (ucast p :: u32) \<longleftrightarrow> fits_i32 (sint x * sint y)" .
qed

definition mul_overflow_code :: "register_id \<Rightarrow> register_id \<Rightarrow> register_id \<Rightarrow> a64 list" where
  "mul_overflow_code a b dest =
     [DataProc3 D64 DataOp3_Smaddl b Zr a dest,
      AddSubExtended D64 AddOp_Sub SetFlags_S dest ExtendType_Sxtw 0 dest Zr, zero_extend_code dest dest]"

lemma mul_overflow_exec:
  assumes "dest \<noteq> Zr"
  obtains s1 where "exec_list (mul_overflow_code a b dest) s = next_pc (set_x dest
      (ucast (get_w s a * get_w s b)) s1)"
    and "keeps {dest} s s1" and "flag_z (flags s1) = fits_i32 (sint (get_w s a) * sint (get_w s b))"
proof -
  let ?p = "scast (get_w s a) * scast (get_w s b) :: u64"
  let ?s1 = "next_pc (set_x dest ?p s)"
  let ?s2 = "next_pc (write_result SetFlags_S Zr (add_sub AddOp_Sub ?p (scast (ucast ?p :: u32))) ?s1)"
  have "exec (DataProc3 D64 DataOp3_Smaddl b Zr a dest) s = ?s1"
    by (simp add: mul_value_def Let_def narrow_def)
  moreover have "exec (AddSubExtended D64 AddOp_Sub SetFlags_S dest ExtendType_Sxtw 0 dest Zr) ?s1 = ?s2"
    using assms by (simp add: add_sub_sized_D64 extend_value_def)
  moreover have "exec_list [zero_extend_code dest dest] ?s2 =
      next_pc (set_x dest (ucast (get_w s a * get_w s b)) ?s2)"
    using assms product_fits(1) [of "get_w s a" "get_w s b"]
    by (simp add: zero_extend_value narrow_def del: exec_list.simps)
  ultimately have e: "exec_list (mul_overflow_code a b dest) s =
      next_pc (set_x dest (ucast (get_w s a * get_w s b)) ?s2)"
    by (simp add: mul_overflow_code_def del: exec.simps)
  show ?thesis
  proof (rule that [OF e])
    show "keeps {dest} s ?s2" by (simp add: keeps_def)
    show "flag_z (flags ?s2) = fits_i32 (sint (get_w s a) * sint (get_w s b))"
      using product_fits(2) [of "get_w s a" "get_w s b"] by (simp add: compare_flags(1))
  qed
qed

lemma branch_mul32_overflow:
  assumes "dest \<notin> {Sp, Zr}" "a \<noteq> Sp" "b \<noteq> Sp"
  shows "branches (branch_mul32 Res_Overflow a b dest)
      (\<lambda>s. \<not> fits_i32 (sint (get_w s a) * sint (get_w s b)))
      (\<lambda>s s'. get_x s' dest = ucast (get_w s a * get_w s b) \<and> keeps {dest} s s')"
proof (rule branches_cond [where cond = Cond_Ne and pre = "mul_overflow_code a b dest"])
  have z: "zero_extend_32_to_word dest dest buf = buf @ code_of [zero_extend_code dest dest]"
    "legal (zero_extend_code dest dest)" "straight (zero_extend_code dest dest)" for buf
    using zero_extend_appends [of dest dest] assms by (auto simp: appends_def simp del: code_of_simps)
  show "branch_mul32 Res_Overflow a b dest buf = make_branch Cond_Ne (buf @ code_of (mul_overflow_code a b dest))"
    for buf
    by (simp add: branch_mul32_def Let_def emit_muls emit_add_sub_extended_reg z mul_overflow_code_def
        code_of_append_bytes del: code_of_simps)
  show "list_all legal (mul_overflow_code a b dest)" "list_all straight (mul_overflow_code a b dest)"
    using assms z(2,3) by (simp_all add: mul_overflow_code_def sz64 legal_rd_def)
  fix s
  obtain s1 where s1: "exec_list (mul_overflow_code a b dest) s = next_pc (set_x dest
      (ucast (get_w s a * get_w s b)) s1)" "keeps {dest} s s1"
      "flag_z (flags s1) = fits_i32 (sint (get_w s a) * sint (get_w s b))"
    using mul_overflow_exec [of dest a b s] assms by blast
  then show "cond_holds Cond_Ne (flags (exec_list (mul_overflow_code a b dest) s)) =
      (\<not> fits_i32 (sint (get_w s a) * sint (get_w s b)))"
    by (simp add: cond_holds_def)
  show "get_x ((exec_list (mul_overflow_code a b dest) s)\<lparr>pc := p\<rparr>) dest =
      ucast (get_w s a * get_w s b) \<and>
      keeps {dest} s ((exec_list (mul_overflow_code a b dest) s)\<lparr>pc := p\<rparr>)" for p
    using s1 assms(1) by (simp add: keeps_exec(1,4))
qed



section \<open>Jumps, calls and returns\<close>

text \<open>Code that leaves for the address \<open>target\<close>, with the address behind it in the link register
when it is a call.\<close>

definition transfers ::
  "(code_buffer \<Rightarrow> code_buffer) \<Rightarrow> (cpu \<Rightarrow> u64) \<Rightarrow> (u64 \<Rightarrow> cpu \<Rightarrow> cpu \<Rightarrow> bool) \<Rightarrow> bool" where
  "transfers f target R \<longleftrightarrow>
     (\<forall>org b c s. length (f b @ c) < 2 ^ 64 \<longrightarrow> pc s = org + of_nat (length b) \<longrightarrow>
        (\<exists>s'. runs org (f b @ c) s s' \<and> pc s' = target s \<and> R (org + of_nat (length (f b))) s s'))"

lemma transfers_code:
  assumes f: "\<And>b. f b = b @ code_of (pre @ [j])" and ok: "list_all legal pre" "list_all straight pre" "legal j"
    and R: "\<And>s ret. pc s + of_nat (4 * length pre + 4) = ret \<Longrightarrow>
      pc (exec j (exec_list pre s)) = target s \<and> R ret s (exec j (exec_list pre s))"
  shows "transfers f target R"
  unfolding transfers_def
proof (intro allI impI)
  fix org b c and s :: cpu
  assume len: "length (f b @ c) < 2 ^ 64" and pc: "pc s = org + of_nat (length b)"
  have r1: "runs org (f b @ c) s (exec_list pre s)"
    using runs_code_of [OF ok(1,2), of b "code_of [j] @ c" s org] len pc by (simp add: f)
  have "pc (exec_list pre s) = org + of_nat (length b + 4 * length pre)"
    using pc_exec_list [OF ok(2), of s] pc by simp
  then have "fetch org (f b @ c) (pc (exec_list pre s)) = Some j"
    using fetch_code_of [of "pre @ [j]" "length pre" b c "pc (exec_list pre s)" org] ok len by (simp add: f)
  then have "runs org (f b @ c) s (exec j (exec_list pre s))"
    using runs_trans [OF r1 runs_one] by blast
  moreover have "pc s + of_nat (4 * length pre + 4) = org + of_nat (length (f b))"
    using pc by (simp add: f)
  ultimately show "\<exists>s'. runs org (f b @ c) s s' \<and> pc s' = target s \<and> R (org + of_nat (length (f b))) s s'"
    using R by blast
qed

definition linked_calls :: "(code_buffer \<Rightarrow> asm_call \<times> code_buffer) \<Rightarrow> bool" where
  "linked_calls f \<longleftrightarrow>
     (\<forall>org b c call b' lab code s. f b = (call, b') \<longrightarrow> length (b' @ c) < 2 ^ 32 \<longrightarrow>
        snd (link (call_to_link_record call lab) (b' @ c)) = Inr code \<longrightarrow> pc s = org + of_nat (length b) \<longrightarrow>
        (\<exists>s'. runs org code s s' \<and> pc s' = org + ucast lab \<and>
           get_x s' Lr = org + of_nat (length b') \<and> keeps {Lr} s s'))"

lemma linked_branch_insn:
  assumes "branch_link_result ((b @ code_of [Branch l 0]) @ c) (length b) t l = Inr code"
    and len: "length (b @ code_of [Branch l 0] @ c) < 2 ^ 32" "t < 2 ^ 32"
    and pc: "pc s = org + of_nat (length b)"
  shows "runs org code s ((if l then set_x Lr (pc s + 4) s else s)\<lparr>pc := org + of_nat t\<rparr>)"
proof -
  have small: "length b < 2 ^ 32" using len(1) by simp
  obtain imm where "code = patched ((b @ code_of [Branch l 0]) @ c) (length b) (Branch l imm)"
    and t: "of_nat (length b) + 4 * scast imm = (of_nat t :: u64)"
    using branch_link_inr [OF assms(1) small len(2)] by blast
  then have code: "code = b @ code_of [Branch l imm] @ c"
    using patched_at [of "length b" b "Branch l 0" "[]" c] by simp
  have "fetch org code (pc s) = Some (Branch l imm)"
    using fetch_code_of [of "[Branch l imm]" 0 b c "pc s" org] len pc by (simp add: code)
  from runs_one [OF this] show ?thesis using pc t by (simp add: add.assoc)
qed

lemma call_record:
  "length b < 2 ^ 32 \<Longrightarrow>
   call_to_link_record (call_new (current_label b) fl) lab = new_call (of_nat (length b)) (of_nat (unat lab))"
  by (simp add: call_to_link_record_def call_new_def current_label_def label_nat [symmetric]
      unsigned_of_nat take_bit_nat_eq_self)

text \<open>C13: A linked jump goes to its label and changes nothing; a linked call goes to its label with the
address behind the call in the link register.  A far call goes to any 64-bit address, a call through
a register to the address in it, also when that is the link register itself, both with the return address set; a return goes to the address
in the link register.\<close>

theorem jumps_and_calls_correct:
  assumes "r \<noteq> Sp"
  shows "branches masm_jump (\<lambda>_. True) (keeps {}) \<and>
    linked_calls near_call \<and>
    transfers (\<lambda>b. snd (far_call target b)) (\<lambda>_. imm64_value target)
      (\<lambda>ret s s'. get_x s' Lr = ret \<and> keeps {Lr, X16} s s') \<and>
    transfers (\<lambda>b. snd (call_register r b)) (\<lambda>s. get_x s r)
      (\<lambda>ret s s'. get_x s' Lr = ret \<and> keeps {Lr} s s') \<and>
    transfers masm_ret (\<lambda>s. get_x s Lr) (\<lambda>_. keeps {})"
proof (intro conjI impI)
  show "branches masm_jump (\<lambda>_. True) (keeps {})"
    unfolding branches_def
  proof (intro allI impI)
    fix org b c j b' lab code and s :: cpu
    assume fb: "masm_jump b = (j, b')" and len: "length (b' @ c) < 2 ^ 32"
      and lk: "snd (link (jump_to_link_record j lab) (b' @ c)) = Inr code"
      and pc: "pc s = org + of_nat (length b)"
    let ?t = "unat (label_token lab)"
    have j: "j = jump_new (current_label b) JumpNoCondition Cond_Invalid"
      and b': "b' = b @ code_of [Branch False 0]"
      using fb by (simp_all add: masm_jump_def Let_def emit_branches)
    have small: "length b < 2 ^ 32" using len b' by simp
    have "branch_link_result (b' @ c) (length b) ?t False = Inr code"
      using lk link_branch(1) [OF small unat_label] unfolding j jump_record [OF small] by simp
    from linked_branch_insn [OF this [unfolded b'] _ unat_label pc]
    have "runs org code s (s\<lparr>pc := org + of_nat ?t\<rparr>)" using len b' by simp
    then show "\<exists>s'. runs org code s s' \<and> keeps {} s s' \<and>
        pc s' = org + (if True then ucast (label_token lab) else of_nat (length b'))"
      by (intro exI [of _ "s\<lparr>pc := org + of_nat ?t\<rparr>"]) (simp add: keeps_exec)
  qed
  show "linked_calls near_call"
    unfolding linked_calls_def
  proof (intro allI impI)
    fix org b c call b' lab code and s :: cpu
    assume fb: "near_call b = (call, b')" and len: "length (b' @ c) < 2 ^ 32"
      and lk: "snd (link (call_to_link_record call lab) (b' @ c)) = Inr code"
      and pc: "pc s = org + of_nat (length b)"
    have j: "call = call_new (current_label b) CALL_LINKABLE_NEAR" and b': "b' = b @ code_of [Branch True 0]"
      using fb by (simp_all add: near_call_def Let_def emit_branches)
    have small: "length b < 2 ^ 32" using len b' by simp
    have "branch_link_result (b' @ c) (length b) (unat lab) True = Inr code"
      using lk link_branch(2) [OF small unat_label] unfolding j call_record [OF small] by simp
    from linked_branch_insn [OF this [unfolded b'] _ unat_label pc]
    have "runs org code s ((set_x Lr (pc s + 4) s)\<lparr>pc := org + of_nat (unat lab)\<rparr>)" using len b' by simp
    then show "\<exists>s'. runs org code s s' \<and> pc s' = org + ucast lab \<and>
        get_x s' Lr = org + of_nat (length b') \<and> keeps {Lr} s s'"
      using pc b' by (intro exI [of _ "(set_x Lr (pc s + 4) s)\<lparr>pc := org + of_nat (unat lab)\<rparr>"])
        (simp add: keeps_def add.assoc)
  qed
  have m: "list_all legal (move_code v D64 X16)" "list_all straight (move_code v D64 X16)" for v
    using wide_legal [OF sz64 _ move_code_wide [OF sz64], of X16 v] by simp_all
  show "transfers (\<lambda>b. snd (far_call target b)) (\<lambda>_. imm64_value target)
      (\<lambda>ret s s'. get_x s' Lr = ret \<and> keeps {Lr, X16} s s')"
  proof (rule transfers_code [where pre = "move_code (imm64_value target) D64 X16"
      and j = "BranchRegister BranchType_Call X16"])
    show "snd (far_call target b) = b @ code_of (move_code (imm64_value target) D64 X16 @
        [BranchRegister BranchType_Call X16])" for b
      using move_internal_code [OF sz64]
      by (simp add: far_call_def Let_def move_imm64_def temps emit_branches)
    fix s ret
    let ?s1 = "exec_list (move_code (imm64_value target) D64 X16) s"
    assume "pc s + of_nat (4 * length (move_code (imm64_value target) D64 X16) + 4) = ret"
    moreover have "changes_only {X16} s ?s1" "get_x ?s1 X16 = imm64_value target"
      using move_code_changes [OF sz64] move_code_value [OF sz64, of X16] by (simp_all add: narrow_def)
    ultimately show "pc (exec (BranchRegister BranchType_Call X16) ?s1) = imm64_value target \<and>
        get_x (exec (BranchRegister BranchType_Call X16) ?s1) Lr = ret \<and>
        keeps {Lr, X16} s (exec (BranchRegister BranchType_Call X16) ?s1)"
      using pc_exec_list [OF m(2), of "imm64_value target" s]
      by (auto simp: keeps_def changes_only_def add.assoc)
  qed (simp_all add: m)
  show "transfers (\<lambda>b. snd (call_register r b)) (\<lambda>s. get_x s r)
      (\<lambda>ret s s'. get_x s' Lr = ret \<and> keeps {Lr} s s')"
    by (rule transfers_code [where pre = "[]" and j = "BranchRegister BranchType_Call r"])
      (use assms in \<open>simp_all add: call_register_def Let_def emit_branches keeps_def\<close>)
  show "transfers masm_ret (\<lambda>s. get_x s Lr) (\<lambda>_. keeps {})"
    by (rule transfers_code [where pre = "[]" and j = "BranchRegister BranchType_Ret Lr"])
      (simp_all add: masm_ret_def emit_branches keeps_def)
qed

theorem jumps_and_calls_correct_witness:
  "transfers (\<lambda>b. snd (call_register Lr b)) (\<lambda>s. get_x s Lr)
     (\<lambda>ret s s'. get_x s' Lr = ret \<and> keeps {Lr} s s')"
  using jumps_and_calls_correct [of Lr] by simp

end
