(* ===== verification/Structure_Transition.thy ===== *)
theory Structure_Transition
  imports JSC_Prelude
begin

text \<open>
  The transition table of a structure, \<open>object/structure_transition_table.rs\<close>: which structure an
  object moves to when a property is added, removed or changed.  The first transition is stored
  inline; the second promotes the table to a map whose keys pack the name, the attributes and the kind
  of the transition into one word.  A table is a finite map from transitions to structures, and
  every sequence of additions and of finalizations after a marking does to that map what it says.
\<close>

section \<open>Kinds of transitions\<close>

datatype transition_kind =
    TK_Unknown | TK_PropertyAddition | TK_PropertyDeletion | TK_PropertyAttributeChange
  | TK_AllocateUndecided | TK_AllocateInt32 | TK_AllocateDouble | TK_AllocateContiguous
  | TK_AllocateArrayStorage | TK_AllocateSlowPutArrayStorage | TK_SwitchToSlowPutArrayStorage
  | TK_AddIndexedAccessors | TK_PreventExtensions | TK_Seal | TK_Freeze | TK_BecomePrototype
  | TK_ChangePrototype | TK_SetBrand

fun transition_kind_u8 :: "transition_kind \<Rightarrow> u8" where
  "transition_kind_u8 TK_Unknown = 0"
| "transition_kind_u8 TK_PropertyAddition = 1"
| "transition_kind_u8 TK_PropertyDeletion = 2"
| "transition_kind_u8 TK_PropertyAttributeChange = 3"
| "transition_kind_u8 TK_AllocateUndecided = 4"
| "transition_kind_u8 TK_AllocateInt32 = 5"
| "transition_kind_u8 TK_AllocateDouble = 6"
| "transition_kind_u8 TK_AllocateContiguous = 7"
| "transition_kind_u8 TK_AllocateArrayStorage = 8"
| "transition_kind_u8 TK_AllocateSlowPutArrayStorage = 9"
| "transition_kind_u8 TK_SwitchToSlowPutArrayStorage = 10"
| "transition_kind_u8 TK_AddIndexedAccessors = 11"
| "transition_kind_u8 TK_PreventExtensions = 12"
| "transition_kind_u8 TK_Seal = 13"
| "transition_kind_u8 TK_Freeze = 14"
| "transition_kind_u8 TK_BecomePrototype = 15"
| "transition_kind_u8 TK_ChangePrototype = 16"
| "transition_kind_u8 TK_SetBrand = 17"

text \<open>\<open>from_u8\<close> panics on a byte that is no discriminant.\<close>

definition transition_kind_from_u8 :: "u8 \<Rightarrow> transition_kind option" where
  "transition_kind_from_u8 v =
     (if v = 0 then Some TK_Unknown
      else if v = 1 then Some TK_PropertyAddition
      else if v = 2 then Some TK_PropertyDeletion
      else if v = 3 then Some TK_PropertyAttributeChange
      else if v = 4 then Some TK_AllocateUndecided
      else if v = 5 then Some TK_AllocateInt32
      else if v = 6 then Some TK_AllocateDouble
      else if v = 7 then Some TK_AllocateContiguous
      else if v = 8 then Some TK_AllocateArrayStorage
      else if v = 9 then Some TK_AllocateSlowPutArrayStorage
      else if v = 10 then Some TK_SwitchToSlowPutArrayStorage
      else if v = 11 then Some TK_AddIndexedAccessors
      else if v = 12 then Some TK_PreventExtensions
      else if v = 13 then Some TK_Seal
      else if v = 14 then Some TK_Freeze
      else if v = 15 then Some TK_BecomePrototype
      else if v = 16 then Some TK_ChangePrototype
      else if v = 17 then Some TK_SetBrand
      else None)"

definition FIRST_NON_PROPERTY_TRANSITION_KIND :: transition_kind where
  "FIRST_NON_PROPERTY_TRANSITION_KIND = TK_AllocateUndecided"

definition changes_indexing_type :: "transition_kind \<Rightarrow> bool" where
  "changes_indexing_type t \<longleftrightarrow>
     t \<in> {TK_AllocateUndecided, TK_AllocateInt32, TK_AllocateDouble, TK_AllocateContiguous,
          TK_AllocateArrayStorage, TK_AllocateSlowPutArrayStorage,
          TK_SwitchToSlowPutArrayStorage, TK_AddIndexedAccessors}"

definition prevents_extensions :: "transition_kind \<Rightarrow> bool" where
  "prevents_extensions t \<longleftrightarrow> t \<in> {TK_PreventExtensions, TK_Seal, TK_Freeze}"

definition sets_dont_delete_on_all_properties :: "transition_kind \<Rightarrow> bool" where
  "sets_dont_delete_on_all_properties t \<longleftrightarrow> t \<in> {TK_Seal, TK_Freeze}"

definition sets_read_only_on_non_accessor_properties :: "transition_kind \<Rightarrow> bool" where
  "sets_read_only_on_non_accessor_properties t \<longleftrightarrow> t = TK_Freeze"

section \<open>Keys\<close>

text \<open>A pointer to a name or a prototype, or null: its address.\<close>

type_synonym pointer_key = u64

definition pointer_key_null :: pointer_key where
  "pointer_key_null = 0"

type_synonym transition_key = u64

definition ATTRIBUTES_SHIFT :: nat where "ATTRIBUTES_SHIFT = 48"
definition TRANSITION_KIND_SHIFT :: nat where "TRANSITION_KIND_SHIFT = 56"
definition STRING_MASK :: u64 where "STRING_MASK = push_bit ATTRIBUTES_SHIFT 1 - 1"

definition key_new :: "pointer_key \<Rightarrow> u32 \<Rightarrow> transition_kind \<Rightarrow> transition_key" where
  "key_new p attributes kind =
     p OR push_bit ATTRIBUTES_SHIFT (ucast attributes)
       OR push_bit TRANSITION_KIND_SHIFT (ucast (transition_kind_u8 kind))"

definition key_impl :: "transition_key \<Rightarrow> pointer_key" where
  "key_impl k = k AND STRING_MASK"

definition key_attributes :: "transition_key \<Rightarrow> u8" where
  "key_attributes k = ucast (drop_bit ATTRIBUTES_SHIFT k AND 0xff)"

definition key_transition_kind :: "transition_key \<Rightarrow> transition_kind option" where
  "key_transition_kind k = transition_kind_from_u8 (ucast (drop_bit TRANSITION_KIND_SHIFT k))"

definition create_key :: "pointer_key \<Rightarrow> u32 \<Rightarrow> transition_kind \<Rightarrow> transition_key" where
  "create_key p attributes kind = key_new p attributes kind"

section \<open>The table\<close>

record transition_structure =
  ts_structure :: u32
  ts_property :: pointer_key
  ts_attributes :: u8
  ts_kind :: transition_kind

text \<open>The hash map of the code, as a map.\<close>

type_synonym transition_map = "transition_key \<rightharpoonup> transition_structure"

datatype transition_data = SingleSlot "transition_structure option" | TransitionMap transition_map

type_synonym transition_table = transition_data

definition transition_table_new :: transition_table where
  "transition_table_new = SingleSlot None"

definition is_using_single_slot :: "transition_table \<Rightarrow> bool" where
  "is_using_single_slot t = (case t of SingleSlot _ \<Rightarrow> True | TransitionMap _ \<Rightarrow> False)"

definition try_single_transition :: "transition_table \<Rightarrow> transition_structure option" where
  "try_single_transition t = (case t of SingleSlot slot \<Rightarrow> slot | TransitionMap _ \<Rightarrow> None)"

text \<open>\<open>map\<close> and \<open>map_mut\<close> panic on a table that uses the single slot.\<close>

definition table_map :: "transition_table \<Rightarrow> transition_map option" where
  "table_map t = (case t of SingleSlot _ \<Rightarrow> None | TransitionMap m \<Rightarrow> Some m)"

definition set_map :: "transition_map \<Rightarrow> transition_table \<Rightarrow> transition_table" where
  "set_map m t = TransitionMap m"

definition set_single_transition :: "transition_structure \<Rightarrow> transition_table \<Rightarrow> transition_table" where
  "set_single_transition s t = SingleSlot (Some s)"

definition create_key_from_structure :: "transition_structure \<Rightarrow> transition_key" where
  "create_key_from_structure s = create_key (ts_property s) (ucast (ts_attributes s)) (ts_kind s)"

text \<open>The last lines of \<open>add\<close>; and \<open>add\<close>, whose inner call on the promoted table runs only them.\<close>

definition add_to_map :: "transition_structure \<Rightarrow> transition_table \<Rightarrow> transition_table option" where
  "add_to_map s t =
     (case table_map t of None \<Rightarrow> None
      | Some m \<Rightarrow> Some (TransitionMap (m(create_key_from_structure s \<mapsto> s))))"

definition transition_add :: "transition_structure \<Rightarrow> transition_table \<Rightarrow> transition_table option" where
  "transition_add s t =
     (if is_using_single_slot t then
        (case try_single_transition t of
           None \<Rightarrow> Some (set_single_transition s t)
         | Some existing \<Rightarrow>
             (case add_to_map existing (set_map Map.empty t) of
                None \<Rightarrow> None | Some t' \<Rightarrow> add_to_map s t'))
      else add_to_map s t)"

definition transition_contains ::
  "transition_table \<Rightarrow> pointer_key \<Rightarrow> u32 \<Rightarrow> transition_kind \<Rightarrow> bool option" where
  "transition_contains t rep attributes kind =
     (if is_using_single_slot t then
        Some (case try_single_transition t of
                Some s \<Rightarrow> ts_property s = rep \<and> ucast (ts_attributes s) = attributes \<and> ts_kind s = kind
              | None \<Rightarrow> False)
      else case table_map t of None \<Rightarrow> None
           | Some m \<Rightarrow> Some (m (create_key rep attributes kind) \<noteq> None))"

definition transition_get ::
  "transition_table \<Rightarrow> pointer_key \<Rightarrow> u32 \<Rightarrow> transition_kind \<Rightarrow> u32 option option" where
  "transition_get t rep attributes kind =
     (if is_using_single_slot t then
        Some (case try_single_transition t of
                None \<Rightarrow> None
              | Some s \<Rightarrow>
                  (if create_key_from_structure s \<noteq> create_key rep attributes kind then None
                   else Some (ts_structure s)))
      else case table_map t of None \<Rightarrow> None
           | Some m \<Rightarrow> Some (map_option ts_structure (m (create_key rep attributes kind))))"

definition finalize_unconditionally ::
  "(u32 \<Rightarrow> bool) \<Rightarrow> transition_table \<Rightarrow> transition_table" where
  "finalize_unconditionally is_marked t =
     (case t of
        SingleSlot slot \<Rightarrow>
          (case slot of
             Some s \<Rightarrow> if \<not> is_marked (ts_structure s) then SingleSlot None else t
           | None \<Rightarrow> t)
      | TransitionMap m \<Rightarrow>
          TransitionMap (\<lambda>k. case m k of
             Some s \<Rightarrow> if is_marked (ts_structure s) then Some s else None | None \<Rightarrow> None))"

section \<open>Packed keys\<close>

lemma transition_kind_roundtrip [simp]: "transition_kind_from_u8 (transition_kind_u8 k) = Some k"
  by (cases k) (simp_all add: transition_kind_from_u8_def)

definition is_pointer :: "pointer_key \<Rightarrow> bool" where
  "is_pointer p \<longleftrightarrow> unat p < 2 ^ 48"

lemma is_pointer_bit: "is_pointer p \<Longrightarrow> bit p n \<Longrightarrow> n < 48"
  using bit_below [of p 48] by (simp add: is_pointer_def)

lemma small_bit: "unat (a :: u32) < 256 \<Longrightarrow> bit a n \<Longrightarrow> n < 8"
  using bit_below [of a 8] by simp

lemma key_new_fields:
  assumes "is_pointer p" "unat a < 256"
  shows "key_impl (key_new p a k) = p" "key_attributes (key_new p a k) = ucast a"
    "key_transition_kind (key_new p a k) = Some k"
proof -
  have s: "STRING_MASK = mask 48" by (simp add: STRING_MASK_def ATTRIBUTES_SHIFT_def mask_eq_exp_minus_1)
  note b = is_pointer_bit [OF assms(1)] small_bit [OF assms(2)]
  show "key_impl (key_new p a k) = p"
    unfolding key_impl_def key_new_def s ATTRIBUTES_SHIFT_def TRANSITION_KIND_SHIFT_def
    by (rule bit_word_eqI) (auto simp: bit_simps dest: b)
  have ff: "(0xff :: u64) = mask 8" by (simp add: mask_eq_exp_minus_1)
  show "key_attributes (key_new p a k) = ucast a"
    unfolding key_attributes_def key_new_def ff ATTRIBUTES_SHIFT_def TRANSITION_KIND_SHIFT_def
    by (rule bit_word_eqI) (auto simp: bit_simps dest: b)
  have "ucast (drop_bit 56 (key_new p a k)) = transition_kind_u8 k"
    unfolding key_new_def ATTRIBUTES_SHIFT_def TRANSITION_KIND_SHIFT_def
    by (rule bit_word_eqI) (auto simp: bit_simps dest: b)
  then show "key_transition_kind (key_new p a k) = Some k"
    by (simp add: key_transition_kind_def TRANSITION_KIND_SHIFT_def)
qed

lemma create_key_inj:
  assumes "is_pointer p" "unat a < 256" "is_pointer q" "unat c < 256"
  shows "create_key p a k = create_key q c l \<longleftrightarrow> p = q \<and> a = c \<and> k = l"
proof
  assume e: "create_key p a k = create_key q c l"
  then have "p = q" "(ucast a :: u8) = ucast c" "k = l"
    using key_new_fields [OF assms(1,2), of k] key_new_fields [OF assms(3,4), of l]
    by (simp_all add: create_key_def)
  moreover have "a = c" if "(ucast a :: u8) = ucast c"
  proof -
    have "unat (ucast a :: u8) = unat a" "unat (ucast c :: u8) = unat c"
      using assms by (simp_all add: unat_ucast_mod)
    then show ?thesis using that by (simp add: word_unat_eq_iff)
  qed
  ultimately show "p = q \<and> a = c \<and> k = l" by blast
qed simp

section \<open>The table as a finite map\<close>

type_synonym transition_id = "pointer_key \<times> u8 \<times> transition_kind"

definition id_of :: "transition_structure \<Rightarrow> transition_id" where
  "id_of s = (ts_property s, ts_attributes s, ts_kind s)"

definition key_of :: "transition_id \<Rightarrow> transition_key" where
  "key_of = (\<lambda>(p, a, k). create_key p (ucast a) k)"

definition valid_id :: "transition_id \<Rightarrow> bool" where
  "valid_id i \<longleftrightarrow> is_pointer (fst i)"

lemma ucast_ucast_mask8: "(ucast (ucast (a :: u8) :: u32) :: u8) = a"
  by (rule bit_word_eqI) (auto simp: bit_simps)

lemma key_of_inj: "valid_id i \<Longrightarrow> valid_id j \<Longrightarrow> key_of i = key_of j \<longleftrightarrow> i = j"
proof -
  have "unat (ucast (a :: u8) :: u32) < 256" for a
  proof -
    have "unat a < 256" by (rule order.strict_trans2 [OF unsigned_less]) simp
    then show ?thesis by (simp add: unat_ucast_mod)
  qed
  moreover have "(ucast a = (ucast b :: u32)) = (a = b)" for a b :: u8
    by (metis ucast_ucast_mask8)
  ultimately show "valid_id i \<Longrightarrow> valid_id j \<Longrightarrow> key_of i = key_of j \<longleftrightarrow> i = j"
    by (auto simp: key_of_def valid_id_def create_key_inj split: prod.splits)
qed

lemma key_of_structure: "create_key_from_structure s = key_of (id_of s)"
  by (simp add: create_key_from_structure_def key_of_def id_of_def)

definition transition_inv :: "transition_table \<Rightarrow> bool" where
  "transition_inv t =
     (case t of
        SingleSlot slot \<Rightarrow> \<forall>s. slot = Some s \<longrightarrow> valid_id (id_of s)
      | TransitionMap m \<Rightarrow> \<forall>k s. m k = Some s \<longrightarrow> valid_id (id_of s) \<and> k = key_of (id_of s))"

text \<open>The structure an object moves to by each transition.\<close>

definition transitions :: "transition_table \<Rightarrow> transition_id \<rightharpoonup> u32" where
  "transitions t i =
     (case t of
        SingleSlot slot \<Rightarrow>
          (case slot of Some s \<Rightarrow> if id_of s = i then Some (ts_structure s) else None | None \<Rightarrow> None)
      | TransitionMap m \<Rightarrow> if valid_id i then map_option ts_structure (m (key_of i)) else None)"

datatype transition_op = AddTransition transition_structure | FinalizeTransitions "u32 \<Rightarrow> bool"

fun transition_step :: "transition_op \<Rightarrow> transition_table \<Rightarrow> transition_table option" where
  "transition_step (AddTransition s) t = transition_add s t"
| "transition_step (FinalizeTransitions f) t = Some (finalize_unconditionally f t)"

fun transition_spec :: "transition_op \<Rightarrow> (transition_id \<rightharpoonup> u32) \<Rightarrow> (transition_id \<rightharpoonup> u32)" where
  "transition_spec (AddTransition s) m = m(id_of s \<mapsto> ts_structure s)"
| "transition_spec (FinalizeTransitions f) m =
     (\<lambda>i. case m i of Some x \<Rightarrow> if f x then Some x else None | None \<Rightarrow> None)"

fun transition_op_ok :: "transition_op \<Rightarrow> bool" where
  "transition_op_ok (AddTransition s) = valid_id (id_of s)"
| "transition_op_ok (FinalizeTransitions f) = True"

lemma add_to_map_refines:
  assumes "transition_inv (TransitionMap m)" "valid_id (id_of s)"
  obtains m' where "add_to_map s (TransitionMap m) = Some (TransitionMap m')"
    and "transition_inv (TransitionMap m')"
    and "transitions (TransitionMap m') = (transitions (TransitionMap m))(id_of s \<mapsto> ts_structure s)"
proof
  let ?m = "m(key_of (id_of s) \<mapsto> s)"
  show "add_to_map s (TransitionMap m) = Some (TransitionMap ?m)"
    by (simp add: add_to_map_def table_map_def key_of_structure)
  show "transition_inv (TransitionMap ?m)"
    using assms by (auto simp: transition_inv_def)
  show "transitions (TransitionMap ?m) = (transitions (TransitionMap m))(id_of s \<mapsto> ts_structure s)"
    using assms(2) key_of_inj [OF _ assms(2)] by (auto simp: transitions_def fun_eq_iff)
qed

lemma transition_step_refines:
  assumes inv: "transition_inv t" and ok: "transition_op_ok x"
  shows "\<exists>t'. transition_step x t = Some t' \<and> transition_inv t' \<and>
    transitions t' = transition_spec x (transitions t)"
proof (cases x)
  case (FinalizeTransitions f)
  show ?thesis
  proof (cases t)
    case (SingleSlot slot)
    then show ?thesis
      using FinalizeTransitions inv
      by (auto simp: finalize_unconditionally_def transition_inv_def transitions_def fun_eq_iff
          split: option.split)
  next
    case (TransitionMap m)
    then show ?thesis
      using FinalizeTransitions inv
      by (auto simp: finalize_unconditionally_def transition_inv_def transitions_def fun_eq_iff
          split: option.splits if_splits)
  qed
next
  case (AddTransition s)
  then have v: "valid_id (id_of s)" using ok by simp
  show ?thesis
  proof (cases t)
    case (TransitionMap m)
    with inv v obtain m' where "add_to_map s t = Some (TransitionMap m')"
      "transition_inv (TransitionMap m')" "transitions (TransitionMap m') = (transitions t)(id_of s \<mapsto> ts_structure s)"
      using add_to_map_refines [of m s] by auto
    then show ?thesis using AddTransition TransitionMap
      by (simp add: transition_add_def is_using_single_slot_def)
  next
    case (SingleSlot slot)
    show ?thesis
    proof (cases slot)
      case None
      then show ?thesis using AddTransition SingleSlot v
        by (auto simp: transition_add_def is_using_single_slot_def try_single_transition_def
            set_single_transition_def transition_inv_def transitions_def)
    next
      case (Some e)
      have ve: "valid_id (id_of e)" using inv SingleSlot Some by (simp add: transition_inv_def)
      have i0: "transition_inv (TransitionMap Map.empty)" by (simp add: transition_inv_def)
      obtain m1 where m1: "add_to_map e (TransitionMap Map.empty) = Some (TransitionMap m1)"
        "transition_inv (TransitionMap m1)"
        "transitions (TransitionMap m1) = (transitions (TransitionMap Map.empty))(id_of e \<mapsto> ts_structure e)"
        using add_to_map_refines [OF i0 ve] by blast
      obtain m2 where m2: "add_to_map s (TransitionMap m1) = Some (TransitionMap m2)"
        "transition_inv (TransitionMap m2)"
        "transitions (TransitionMap m2) = (transitions (TransitionMap m1))(id_of s \<mapsto> ts_structure s)"
        using add_to_map_refines [OF m1(2) v] by blast
      have "transitions (TransitionMap m1) = transitions t"
        unfolding m1(3) SingleSlot Some by (auto simp: transitions_def fun_eq_iff)
      then show ?thesis using AddTransition SingleSlot Some m1(1) m2
        by (simp add: transition_add_def is_using_single_slot_def try_single_transition_def set_map_def)
    qed
  qed
qed

interpretation tt: data_refinement transition_inv transitions transition_step transition_spec
  "\<lambda>x _. transition_op_ok x"
  by unfold_locales (rule transition_step_refines)

lemma transition_lookup:
  assumes inv: "transition_inv t" and "is_pointer p"
  shows "transition_get t p (ucast a) k = Some (transitions t (p, a, k))"
    and "transition_contains t p (ucast a) k = Some (transitions t (p, a, k) \<noteq> None)"
proof -
  have v: "valid_id (p, a, k)" using assms(2) by (simp add: valid_id_def)
  have e: "create_key p (ucast a) k = key_of (p, a, k)" by (simp add: key_of_def)
  have "(ucast (ts_attributes s) = (ucast a :: u32)) = (ts_attributes s = a)" for s
    by (metis ucast_ucast_mask8)
  then show "transition_get t p (ucast a) k = Some (transitions t (p, a, k))"
    "transition_contains t p (ucast a) k = Some (transitions t (p, a, k) \<noteq> None)"
    using inv v key_of_inj [OF _ v]
    by (auto simp: transition_get_def transition_contains_def is_using_single_slot_def
        try_single_transition_def table_map_def transitions_def transition_inv_def e key_of_structure
        id_of_def split: transition_data.splits option.splits)
qed

text \<open>C7: A transition table behaves as a finite map from transitions, the name, attributes and kind
together, to structures.  After any sequence of additions and finalizations, lookups and membership
tests never panic and answer with the structure added last for exactly that transition, unless a
finalization found it unmarked; the inline slot, the promotion to a map and the packing of keys make
no difference.\<close>

theorem transition_table_refines_map:
  assumes "\<forall>x \<in> set ops. transition_op_ok x"
  shows "\<exists>t. run_steps transition_step ops transition_table_new = Some t \<and>
    (\<forall>p a k. is_pointer p \<longrightarrow>
       transition_get t p (ucast a) k = Some (fold transition_spec ops Map.empty (p, a, k)) \<and>
       transition_contains t p (ucast a) k = Some (fold transition_spec ops Map.empty (p, a, k) \<noteq> None))"
proof -
  have "transition_inv transition_table_new" "transitions transition_table_new = Map.empty"
    by (simp_all add: transition_table_new_def transition_inv_def transitions_def fun_eq_iff)
  moreover have "tt.all_ok ops (transitions transition_table_new)"
    using assms by (intro tt.all_ok_state_independent) blast
  ultimately obtain t where "run_steps transition_step ops transition_table_new = Some t"
    "transition_inv t" "transitions t = fold transition_spec ops Map.empty"
    using tt.run_refines [of transition_table_new ops] by auto
  then show ?thesis using transition_lookup [of t] by (intro exI [of _ t]) simp
qed

theorem transition_table_refines_map_witness:
  "\<exists>t. run_steps transition_step
      [AddTransition \<lparr>ts_structure = 5, ts_property = 8, ts_attributes = 0, ts_kind = TK_PropertyAddition\<rparr>,
       AddTransition \<lparr>ts_structure = 6, ts_property = 16, ts_attributes = 0, ts_kind = TK_PropertyAddition\<rparr>,
       FinalizeTransitions (\<lambda>x. x = 6)] transition_table_new = Some t \<and>
     transition_get t 8 (ucast (0 :: u8)) TK_PropertyAddition = Some None \<and>
     transition_get t 16 (ucast (0 :: u8)) TK_PropertyAddition = Some (Some 6)"
proof -
  let ?ops = "[AddTransition \<lparr>ts_structure = 5, ts_property = 8, ts_attributes = 0, ts_kind = TK_PropertyAddition\<rparr>,
    AddTransition \<lparr>ts_structure = 6, ts_property = 16, ts_attributes = 0, ts_kind = TK_PropertyAddition\<rparr>,
    FinalizeTransitions (\<lambda>x. x = 6)]"
  have "\<forall>x \<in> set ?ops. transition_op_ok x" by (simp add: valid_id_def id_of_def is_pointer_def)
  from transition_table_refines_map [OF this] obtain t where
    "run_steps transition_step ?ops transition_table_new = Some t"
    "\<forall>p a k. is_pointer p \<longrightarrow>
       transition_get t p (ucast a) k = Some (fold transition_spec ?ops Map.empty (p, a, k)) \<and>
       transition_contains t p (ucast a) k = Some (fold transition_spec ?ops Map.empty (p, a, k) \<noteq> None)"
    by blast
  moreover have "is_pointer 8" "is_pointer 16" by (simp_all add: is_pointer_def)
  moreover have "fold transition_spec ?ops Map.empty (8, 0, TK_PropertyAddition) = None"
    "fold transition_spec ?ops Map.empty (16, 0, TK_PropertyAddition) = Some 6"
    by (simp_all add: id_of_def)
  ultimately show ?thesis by metis
qed

end
