(* ===== verification/Speculated_Type.thy ===== *)
theory Speculated_Type
  imports Js_Value
begin

text \<open>
  Speculated types, \<open>bytecode/speculated_type.rs\<close>: the lattice in which the profiles of the program
  describe the values that were seen, one bit per kind of value.  The constants, the tests, the merge
  and the maps from values, cells and classes into the lattice are those of the code; the texts for
  debugging are left out.  A profile that merges the speculations of the values it sees is shown to
  answer each test exactly.
\<close>

section \<open>The lattice\<close>

type_synonym speculated_type = u64

definition SPEC_NONE :: speculated_type where
  "SPEC_NONE = 0"

definition SPEC_FINAL_OBJECT :: speculated_type where
  "SPEC_FINAL_OBJECT = push_bit 0 1"

definition SPEC_ARRAY :: speculated_type where
  "SPEC_ARRAY = push_bit 1 1"

definition SPEC_FUNCTION :: speculated_type where
  "SPEC_FUNCTION = push_bit 2 1"

definition SPEC_INT8_ARRAY :: speculated_type where
  "SPEC_INT8_ARRAY = push_bit 4 1"

definition SPEC_INT16_ARRAY :: speculated_type where
  "SPEC_INT16_ARRAY = push_bit 5 1"

definition SPEC_INT32_ARRAY :: speculated_type where
  "SPEC_INT32_ARRAY = push_bit 6 1"

definition SPEC_UINT8_ARRAY :: speculated_type where
  "SPEC_UINT8_ARRAY = push_bit 7 1"

definition SPEC_UINT8_CLAMPED_ARRAY :: speculated_type where
  "SPEC_UINT8_CLAMPED_ARRAY = push_bit 8 1"

definition SPEC_UINT16_ARRAY :: speculated_type where
  "SPEC_UINT16_ARRAY = push_bit 9 1"

definition SPEC_UINT32_ARRAY :: speculated_type where
  "SPEC_UINT32_ARRAY = push_bit 10 1"

definition SPEC_FLOAT16_ARRAY :: speculated_type where
  "SPEC_FLOAT16_ARRAY = push_bit 11 1"

definition SPEC_FLOAT32_ARRAY :: speculated_type where
  "SPEC_FLOAT32_ARRAY = push_bit 12 1"

definition SPEC_FLOAT64_ARRAY :: speculated_type where
  "SPEC_FLOAT64_ARRAY = push_bit 13 1"

definition SPEC_BIG_INT64_ARRAY :: speculated_type where
  "SPEC_BIG_INT64_ARRAY = push_bit 14 1"

definition SPEC_BIG_UINT64_ARRAY :: speculated_type where
  "SPEC_BIG_UINT64_ARRAY = push_bit 15 1"

definition SPEC_TYPED_ARRAY_VIEW :: speculated_type where
  "SPEC_TYPED_ARRAY_VIEW = SPEC_INT8_ARRAY OR SPEC_INT16_ARRAY OR SPEC_INT32_ARRAY
    OR SPEC_UINT8_ARRAY OR SPEC_UINT8_CLAMPED_ARRAY OR SPEC_UINT16_ARRAY OR SPEC_UINT32_ARRAY
    OR SPEC_FLOAT16_ARRAY OR SPEC_FLOAT32_ARRAY OR SPEC_FLOAT64_ARRAY OR SPEC_BIG_INT64_ARRAY
    OR SPEC_BIG_UINT64_ARRAY"

definition SPEC_DIRECT_ARGUMENTS :: speculated_type where
  "SPEC_DIRECT_ARGUMENTS = push_bit 16 1"

definition SPEC_SCOPED_ARGUMENTS :: speculated_type where
  "SPEC_SCOPED_ARGUMENTS = push_bit 17 1"

definition SPEC_STRING_OBJECT :: speculated_type where
  "SPEC_STRING_OBJECT = push_bit 18 1"

definition SPEC_REG_EXP_OBJECT :: speculated_type where
  "SPEC_REG_EXP_OBJECT = push_bit 19 1"

definition SPEC_DATE_OBJECT :: speculated_type where
  "SPEC_DATE_OBJECT = push_bit 20 1"

definition SPEC_PROMISE_OBJECT :: speculated_type where
  "SPEC_PROMISE_OBJECT = push_bit 21 1"

definition SPEC_MAP_OBJECT :: speculated_type where
  "SPEC_MAP_OBJECT = push_bit 22 1"

definition SPEC_SET_OBJECT :: speculated_type where
  "SPEC_SET_OBJECT = push_bit 23 1"

definition SPEC_MAP_ITERATOR_OBJECT :: speculated_type where
  "SPEC_MAP_ITERATOR_OBJECT = push_bit 24 1"

definition SPEC_SET_ITERATOR_OBJECT :: speculated_type where
  "SPEC_SET_ITERATOR_OBJECT = push_bit 25 1"

definition SPEC_WEAK_MAP_OBJECT :: speculated_type where
  "SPEC_WEAK_MAP_OBJECT = push_bit 26 1"

definition SPEC_WEAK_SET_OBJECT :: speculated_type where
  "SPEC_WEAK_SET_OBJECT = push_bit 27 1"

definition SPEC_PROXY_OBJECT :: speculated_type where
  "SPEC_PROXY_OBJECT = push_bit 28 1"

definition SPEC_GLOBAL_PROXY :: speculated_type where
  "SPEC_GLOBAL_PROXY = push_bit 29 1"

definition SPEC_DERIVED_ARRAY :: speculated_type where
  "SPEC_DERIVED_ARRAY = push_bit 30 1"

definition SPEC_OBJECT_OTHER :: speculated_type where
  "SPEC_OBJECT_OTHER = push_bit 31 1"

definition SPEC_STRING_IDENT :: speculated_type where
  "SPEC_STRING_IDENT = push_bit 32 1"

definition SPEC_STRING_RESOLVED_VAR :: speculated_type where
  "SPEC_STRING_RESOLVED_VAR = push_bit 33 1"

definition SPEC_STRING_UNRESOLVED_VAR :: speculated_type where
  "SPEC_STRING_UNRESOLVED_VAR = push_bit 34 1"

definition SPEC_STRING_VAR :: speculated_type where
  "SPEC_STRING_VAR = SPEC_STRING_UNRESOLVED_VAR OR SPEC_STRING_RESOLVED_VAR"

definition SPEC_STRING_RESOLVED :: speculated_type where
  "SPEC_STRING_RESOLVED = SPEC_STRING_IDENT OR SPEC_STRING_RESOLVED_VAR"

definition SPEC_STRING :: speculated_type where
  "SPEC_STRING = SPEC_STRING_IDENT OR SPEC_STRING_VAR"

definition SPEC_SYMBOL :: speculated_type where
  "SPEC_SYMBOL = push_bit 35 1"

definition SPEC_CELL_OTHER :: speculated_type where
  "SPEC_CELL_OTHER = push_bit 36 1"

definition SPEC_BOOL_INT32 :: speculated_type where
  "SPEC_BOOL_INT32 = push_bit 37 1"

definition SPEC_NON_BOOL_INT32 :: speculated_type where
  "SPEC_NON_BOOL_INT32 = push_bit 38 1"

definition SPEC_INT32_ONLY :: speculated_type where
  "SPEC_INT32_ONLY = SPEC_BOOL_INT32 OR SPEC_NON_BOOL_INT32"

definition SPEC_INT32_AS_INT52 :: speculated_type where
  "SPEC_INT32_AS_INT52 = push_bit 39 1"

definition SPEC_NON_INT32_AS_INT52 :: speculated_type where
  "SPEC_NON_INT32_AS_INT52 = push_bit 40 1"

definition SPEC_INT52_ANY :: speculated_type where
  "SPEC_INT52_ANY = SPEC_INT32_AS_INT52 OR SPEC_NON_INT32_AS_INT52"

definition SPEC_ANY_INT_AS_DOUBLE :: speculated_type where
  "SPEC_ANY_INT_AS_DOUBLE = push_bit 41 1"

definition SPEC_NON_INT_AS_DOUBLE :: speculated_type where
  "SPEC_NON_INT_AS_DOUBLE = push_bit 42 1"

definition SPEC_DOUBLE_REAL :: speculated_type where
  "SPEC_DOUBLE_REAL = SPEC_NON_INT_AS_DOUBLE OR SPEC_ANY_INT_AS_DOUBLE"

definition SPEC_DOUBLE_PURE_NAN :: speculated_type where
  "SPEC_DOUBLE_PURE_NAN = push_bit 43 1"

definition SPEC_DOUBLE_IMPURE_NAN :: speculated_type where
  "SPEC_DOUBLE_IMPURE_NAN = push_bit 44 1"

definition SPEC_DOUBLE_NAN :: speculated_type where
  "SPEC_DOUBLE_NAN = SPEC_DOUBLE_PURE_NAN OR SPEC_DOUBLE_IMPURE_NAN"

definition SPEC_BYTECODE_DOUBLE :: speculated_type where
  "SPEC_BYTECODE_DOUBLE = SPEC_DOUBLE_REAL OR SPEC_DOUBLE_PURE_NAN"

definition SPEC_FULL_DOUBLE :: speculated_type where
  "SPEC_FULL_DOUBLE = SPEC_DOUBLE_REAL OR SPEC_DOUBLE_NAN"

definition SPEC_BYTECODE_REAL_NUMBER :: speculated_type where
  "SPEC_BYTECODE_REAL_NUMBER = SPEC_INT32_ONLY OR SPEC_DOUBLE_REAL"

definition SPEC_FULL_REAL_NUMBER :: speculated_type where
  "SPEC_FULL_REAL_NUMBER = SPEC_INT32_ONLY OR SPEC_INT52_ANY OR SPEC_DOUBLE_REAL"

definition SPEC_BYTECODE_NUMBER :: speculated_type where
  "SPEC_BYTECODE_NUMBER = SPEC_INT32_ONLY OR SPEC_BYTECODE_DOUBLE"

definition SPEC_INT_ANY_FORMAT :: speculated_type where
  "SPEC_INT_ANY_FORMAT = SPEC_INT52_ANY OR SPEC_INT32_ONLY OR SPEC_ANY_INT_AS_DOUBLE"

definition SPEC_FULL_NUMBER :: speculated_type where
  "SPEC_FULL_NUMBER = SPEC_INT_ANY_FORMAT OR SPEC_FULL_DOUBLE"

definition SPEC_BOOLEAN :: speculated_type where
  "SPEC_BOOLEAN = push_bit 45 1"

definition SPEC_OTHER :: speculated_type where
  "SPEC_OTHER = push_bit 46 1"

definition SPEC_MISC :: speculated_type where
  "SPEC_MISC = SPEC_BOOLEAN OR SPEC_OTHER"

definition SPEC_EMPTY :: speculated_type where
  "SPEC_EMPTY = push_bit 47 1"

definition SPEC_HEAP_BIG_INT :: speculated_type where
  "SPEC_HEAP_BIG_INT = push_bit 48 1"

definition SPEC_BIG_INT32 :: speculated_type where
  "SPEC_BIG_INT32 = push_bit 49 1"

definition SPEC_BIG_INT :: speculated_type where
  "SPEC_BIG_INT = SPEC_HEAP_BIG_INT"

definition SPEC_DATA_VIEW_OBJECT :: speculated_type where
  "SPEC_DATA_VIEW_OBJECT = push_bit 50 1"

definition SPEC_PRIMITIVE :: speculated_type where
  "SPEC_PRIMITIVE = SPEC_STRING OR SPEC_SYMBOL OR SPEC_BYTECODE_NUMBER OR SPEC_MISC OR SPEC_BIG_INT"

definition SPEC_OBJECT :: speculated_type where
  "SPEC_OBJECT = SPEC_FINAL_OBJECT OR SPEC_ARRAY OR SPEC_FUNCTION OR SPEC_TYPED_ARRAY_VIEW
    OR SPEC_DIRECT_ARGUMENTS OR SPEC_SCOPED_ARGUMENTS OR SPEC_STRING_OBJECT OR SPEC_REG_EXP_OBJECT
    OR SPEC_DATE_OBJECT OR SPEC_PROMISE_OBJECT OR SPEC_MAP_OBJECT OR SPEC_SET_OBJECT
    OR SPEC_MAP_ITERATOR_OBJECT OR SPEC_SET_ITERATOR_OBJECT OR SPEC_WEAK_MAP_OBJECT
    OR SPEC_WEAK_SET_OBJECT OR SPEC_PROXY_OBJECT OR SPEC_GLOBAL_PROXY OR SPEC_DERIVED_ARRAY
    OR SPEC_OBJECT_OTHER OR SPEC_DATA_VIEW_OBJECT"

definition SPEC_CELL :: speculated_type where
  "SPEC_CELL = SPEC_OBJECT OR SPEC_STRING OR SPEC_SYMBOL OR SPEC_CELL_OTHER OR SPEC_HEAP_BIG_INT"

definition SPEC_HEAP_TOP :: speculated_type where
  "SPEC_HEAP_TOP = SPEC_CELL OR SPEC_BIG_INT32 OR SPEC_BYTECODE_NUMBER OR SPEC_MISC"

definition SPEC_BYTECODE_TOP :: speculated_type where
  "SPEC_BYTECODE_TOP = SPEC_HEAP_TOP OR SPEC_EMPTY"

definition SPEC_FULL_TOP :: speculated_type where
  "SPEC_FULL_TOP = SPEC_BYTECODE_TOP OR SPEC_FULL_NUMBER"

definition SPEC_TYPEOF_MIGHT_BE_FUNCTION :: speculated_type where
  "SPEC_TYPEOF_MIGHT_BE_FUNCTION = SPEC_FUNCTION OR SPEC_OBJECT_OTHER OR SPEC_PROXY_OBJECT"

definition SPEC_CELL_CHECK :: speculated_type where
  "SPEC_CELL_CHECK = SPEC_CELL OR SPEC_EMPTY"

lemmas spec_consts =
  SPEC_NONE_def SPEC_FINAL_OBJECT_def SPEC_ARRAY_def SPEC_FUNCTION_def SPEC_INT8_ARRAY_def
  SPEC_INT16_ARRAY_def SPEC_INT32_ARRAY_def SPEC_UINT8_ARRAY_def SPEC_UINT8_CLAMPED_ARRAY_def
  SPEC_UINT16_ARRAY_def SPEC_UINT32_ARRAY_def SPEC_FLOAT16_ARRAY_def SPEC_FLOAT32_ARRAY_def
  SPEC_FLOAT64_ARRAY_def SPEC_BIG_INT64_ARRAY_def SPEC_BIG_UINT64_ARRAY_def
  SPEC_TYPED_ARRAY_VIEW_def SPEC_DIRECT_ARGUMENTS_def SPEC_SCOPED_ARGUMENTS_def
  SPEC_STRING_OBJECT_def SPEC_REG_EXP_OBJECT_def SPEC_DATE_OBJECT_def SPEC_PROMISE_OBJECT_def
  SPEC_MAP_OBJECT_def SPEC_SET_OBJECT_def SPEC_MAP_ITERATOR_OBJECT_def
  SPEC_SET_ITERATOR_OBJECT_def SPEC_WEAK_MAP_OBJECT_def SPEC_WEAK_SET_OBJECT_def
  SPEC_PROXY_OBJECT_def SPEC_GLOBAL_PROXY_def SPEC_DERIVED_ARRAY_def SPEC_OBJECT_OTHER_def
  SPEC_STRING_IDENT_def SPEC_STRING_RESOLVED_VAR_def SPEC_STRING_UNRESOLVED_VAR_def
  SPEC_STRING_VAR_def SPEC_STRING_RESOLVED_def SPEC_STRING_def SPEC_SYMBOL_def
  SPEC_CELL_OTHER_def SPEC_BOOL_INT32_def SPEC_NON_BOOL_INT32_def SPEC_INT32_ONLY_def
  SPEC_INT32_AS_INT52_def SPEC_NON_INT32_AS_INT52_def SPEC_INT52_ANY_def
  SPEC_ANY_INT_AS_DOUBLE_def SPEC_NON_INT_AS_DOUBLE_def SPEC_DOUBLE_REAL_def
  SPEC_DOUBLE_PURE_NAN_def SPEC_DOUBLE_IMPURE_NAN_def SPEC_DOUBLE_NAN_def
  SPEC_BYTECODE_DOUBLE_def SPEC_FULL_DOUBLE_def SPEC_BYTECODE_REAL_NUMBER_def
  SPEC_FULL_REAL_NUMBER_def SPEC_BYTECODE_NUMBER_def SPEC_INT_ANY_FORMAT_def SPEC_FULL_NUMBER_def
  SPEC_BOOLEAN_def SPEC_OTHER_def SPEC_MISC_def SPEC_EMPTY_def SPEC_HEAP_BIG_INT_def
  SPEC_BIG_INT32_def SPEC_BIG_INT_def SPEC_DATA_VIEW_OBJECT_def SPEC_PRIMITIVE_def
  SPEC_OBJECT_def SPEC_CELL_def SPEC_HEAP_TOP_def SPEC_BYTECODE_TOP_def SPEC_FULL_TOP_def
  SPEC_TYPEOF_MIGHT_BE_FUNCTION_def SPEC_CELL_CHECK_def

section \<open>Tests\<close>

definition is_any_speculation :: "speculated_type \<Rightarrow> bool" where
  "is_any_speculation value \<longleftrightarrow> True"

definition is_subtype_speculation :: "speculated_type \<Rightarrow> speculated_type \<Rightarrow> bool" where
  "is_subtype_speculation value category \<longleftrightarrow>
     (value AND NOT category) = 0 \<and> value \<noteq> 0"

definition speculation_contains :: "speculated_type \<Rightarrow> speculated_type \<Rightarrow> bool" where
  "speculation_contains value category \<longleftrightarrow>
     (value AND category) \<noteq> 0 \<and> value \<noteq> 0"

definition is_cell_speculation :: "speculated_type \<Rightarrow> bool" where
  "is_cell_speculation value \<longleftrightarrow>
     (value AND SPEC_CELL) \<noteq> 0 \<and> (value AND NOT SPEC_CELL) = 0"

definition is_cell_or_other_speculation :: "speculated_type \<Rightarrow> bool" where
  "is_cell_or_other_speculation value \<longleftrightarrow>
     value \<noteq> 0 \<and> (value AND NOT (SPEC_CELL OR SPEC_OTHER)) = 0"

definition is_not_cell_speculation :: "speculated_type \<Rightarrow> bool" where
  "is_not_cell_speculation value \<longleftrightarrow>
     (value AND SPEC_CELL_CHECK) = 0 \<and> value \<noteq> 0"

definition is_not_cell_nor_big_int_speculation :: "speculated_type \<Rightarrow> bool" where
  "is_not_cell_nor_big_int_speculation value \<longleftrightarrow>
     (value AND (SPEC_CELL_CHECK OR SPEC_BIG_INT)) = 0 \<and> value \<noteq> 0"

definition is_object_speculation :: "speculated_type \<Rightarrow> bool" where
  "is_object_speculation value \<longleftrightarrow>
     (value AND SPEC_OBJECT) \<noteq> 0 \<and> (value AND NOT SPEC_OBJECT) = 0"

definition is_object_or_other_speculation :: "speculated_type \<Rightarrow> bool" where
  "is_object_or_other_speculation value \<longleftrightarrow>
     (value AND (SPEC_OBJECT OR SPEC_OTHER)) \<noteq> 0 \<and> (value AND NOT (SPEC_OBJECT OR SPEC_OTHER)) = 0"

definition is_final_object_speculation :: "speculated_type \<Rightarrow> bool" where
  "is_final_object_speculation value \<longleftrightarrow> value = SPEC_FINAL_OBJECT"

definition is_final_object_or_other_speculation :: "speculated_type \<Rightarrow> bool" where
  "is_final_object_or_other_speculation value \<longleftrightarrow>
     (value AND (SPEC_FINAL_OBJECT OR SPEC_OTHER)) \<noteq> 0 \<and> (value AND NOT (SPEC_FINAL_OBJECT OR SPEC_OTHER)) = 0"

definition is_string_ident_speculation :: "speculated_type \<Rightarrow> bool" where
  "is_string_ident_speculation value \<longleftrightarrow> value = SPEC_STRING_IDENT"

definition is_not_string_var_speculation :: "speculated_type \<Rightarrow> bool" where
  "is_not_string_var_speculation value \<longleftrightarrow> (value AND SPEC_STRING_VAR) = 0"

definition is_string_speculation :: "speculated_type \<Rightarrow> bool" where
  "is_string_speculation value \<longleftrightarrow> value \<noteq> 0 \<and> (value AND SPEC_STRING) = value"

definition is_not_string_speculation :: "speculated_type \<Rightarrow> bool" where
  "is_not_string_speculation value \<longleftrightarrow> value \<noteq> 0 \<and> (value AND SPEC_STRING) = 0"

definition is_string_or_other_speculation :: "speculated_type \<Rightarrow> bool" where
  "is_string_or_other_speculation value \<longleftrightarrow>
     value \<noteq> 0 \<and> (value AND (SPEC_STRING OR SPEC_OTHER)) = value"

definition is_symbol_speculation :: "speculated_type \<Rightarrow> bool" where
  "is_symbol_speculation value \<longleftrightarrow> value = SPEC_SYMBOL"

definition is_big_int32_speculation :: "speculated_type \<Rightarrow> bool" where
  "is_big_int32_speculation value \<longleftrightarrow> value = SPEC_BIG_INT32"

definition is_heap_big_int_speculation :: "speculated_type \<Rightarrow> bool" where
  "is_heap_big_int_speculation value \<longleftrightarrow> value = SPEC_HEAP_BIG_INT"

definition is_big_int_speculation :: "speculated_type \<Rightarrow> bool" where
  "is_big_int_speculation value \<longleftrightarrow>
     value \<noteq> 0 \<and> (value AND SPEC_BIG_INT) = value"

definition is_array_speculation :: "speculated_type \<Rightarrow> bool" where
  "is_array_speculation value \<longleftrightarrow> value = SPEC_ARRAY"

definition is_function_speculation :: "speculated_type \<Rightarrow> bool" where
  "is_function_speculation value \<longleftrightarrow> value = SPEC_FUNCTION"

definition is_proxy_object_speculation :: "speculated_type \<Rightarrow> bool" where
  "is_proxy_object_speculation value \<longleftrightarrow> value = SPEC_PROXY_OBJECT"

definition is_set_object_speculation :: "speculated_type \<Rightarrow> bool" where
  "is_set_object_speculation value \<longleftrightarrow> value = SPEC_SET_OBJECT"

definition is_global_proxy_speculation :: "speculated_type \<Rightarrow> bool" where
  "is_global_proxy_speculation value \<longleftrightarrow> value = SPEC_GLOBAL_PROXY"

definition is_derived_array_speculation :: "speculated_type \<Rightarrow> bool" where
  "is_derived_array_speculation value \<longleftrightarrow> value = SPEC_DERIVED_ARRAY"

definition is_int8_array_speculation :: "speculated_type \<Rightarrow> bool" where
  "is_int8_array_speculation value \<longleftrightarrow> value = SPEC_INT8_ARRAY"

definition is_int16_array_speculation :: "speculated_type \<Rightarrow> bool" where
  "is_int16_array_speculation value \<longleftrightarrow> value = SPEC_INT16_ARRAY"

definition is_int32_array_speculation :: "speculated_type \<Rightarrow> bool" where
  "is_int32_array_speculation value \<longleftrightarrow> value = SPEC_INT32_ARRAY"

definition is_uint8_array_speculation :: "speculated_type \<Rightarrow> bool" where
  "is_uint8_array_speculation value \<longleftrightarrow> value = SPEC_UINT8_ARRAY"

definition is_uint8_clamped_array_speculation :: "speculated_type \<Rightarrow> bool" where
  "is_uint8_clamped_array_speculation value \<longleftrightarrow> value = SPEC_UINT8_CLAMPED_ARRAY"

definition is_uint16_array_speculation :: "speculated_type \<Rightarrow> bool" where
  "is_uint16_array_speculation value \<longleftrightarrow> value = SPEC_UINT16_ARRAY"

definition is_uint32_array_speculation :: "speculated_type \<Rightarrow> bool" where
  "is_uint32_array_speculation value \<longleftrightarrow> value = SPEC_UINT32_ARRAY"

definition is_float16_array_speculation :: "speculated_type \<Rightarrow> bool" where
  "is_float16_array_speculation value \<longleftrightarrow> value = SPEC_FLOAT16_ARRAY"

definition is_float32_array_speculation :: "speculated_type \<Rightarrow> bool" where
  "is_float32_array_speculation value \<longleftrightarrow> value = SPEC_FLOAT32_ARRAY"

definition is_float64_array_speculation :: "speculated_type \<Rightarrow> bool" where
  "is_float64_array_speculation value \<longleftrightarrow> value = SPEC_FLOAT64_ARRAY"

definition is_big_int64_array_speculation :: "speculated_type \<Rightarrow> bool" where
  "is_big_int64_array_speculation value \<longleftrightarrow> value = SPEC_BIG_INT64_ARRAY"

definition is_big_uint64_array_speculation :: "speculated_type \<Rightarrow> bool" where
  "is_big_uint64_array_speculation value \<longleftrightarrow> value = SPEC_BIG_UINT64_ARRAY"

definition is_direct_arguments_speculation :: "speculated_type \<Rightarrow> bool" where
  "is_direct_arguments_speculation value \<longleftrightarrow> value = SPEC_DIRECT_ARGUMENTS"

definition is_scoped_arguments_speculation :: "speculated_type \<Rightarrow> bool" where
  "is_scoped_arguments_speculation value \<longleftrightarrow> value = SPEC_SCOPED_ARGUMENTS"

definition is_array_or_other_speculation :: "speculated_type \<Rightarrow> bool" where
  "is_array_or_other_speculation value \<longleftrightarrow>
     (value AND (SPEC_ARRAY OR SPEC_OTHER)) \<noteq> 0 \<and> (value AND NOT (SPEC_ARRAY OR SPEC_OTHER)) = 0"

definition is_string_object_speculation :: "speculated_type \<Rightarrow> bool" where
  "is_string_object_speculation value \<longleftrightarrow> value = SPEC_STRING_OBJECT"

definition is_string_or_string_object_speculation :: "speculated_type \<Rightarrow> bool" where
  "is_string_or_string_object_speculation value \<longleftrightarrow>
     value \<noteq> 0 \<and> (value AND NOT (SPEC_STRING OR SPEC_STRING_OBJECT)) = 0"

definition is_reg_exp_object_speculation :: "speculated_type \<Rightarrow> bool" where
  "is_reg_exp_object_speculation value \<longleftrightarrow> value = SPEC_REG_EXP_OBJECT"

definition is_bool_int32_speculation :: "speculated_type \<Rightarrow> bool" where
  "is_bool_int32_speculation value \<longleftrightarrow> value = SPEC_BOOL_INT32"

definition is_int32_speculation :: "speculated_type \<Rightarrow> bool" where
  "is_int32_speculation value \<longleftrightarrow>
     value \<noteq> 0 \<and> (value AND NOT SPEC_INT32_ONLY) = 0"

definition is_not_int32_speculation :: "speculated_type \<Rightarrow> bool" where
  "is_not_int32_speculation value \<longleftrightarrow>
     value \<noteq> 0 \<and> (value AND SPEC_INT32_ONLY) = 0"

definition is_int32_or_boolean_speculation :: "speculated_type \<Rightarrow> bool" where
  "is_int32_or_boolean_speculation value \<longleftrightarrow>
     value \<noteq> 0 \<and> (value AND NOT (SPEC_BOOLEAN OR SPEC_INT32_ONLY)) = 0"

definition is_int32_speculation_for_arithmetic :: "speculated_type \<Rightarrow> bool" where
  "is_int32_speculation_for_arithmetic value \<longleftrightarrow>
     (value AND (SPEC_FULL_DOUBLE OR SPEC_NON_INT32_AS_INT52 OR SPEC_BIG_INT)) = 0"

definition is_int32_or_boolean_speculation_for_arithmetic :: "speculated_type \<Rightarrow> bool" where
  "is_int32_or_boolean_speculation_for_arithmetic value \<longleftrightarrow>
     (value AND (SPEC_FULL_DOUBLE OR SPEC_NON_INT32_AS_INT52 OR SPEC_BIG_INT)) = 0"

definition is_int32_or_other_speculation :: "speculated_type \<Rightarrow> bool" where
  "is_int32_or_other_speculation value \<longleftrightarrow>
     value \<noteq> 0 \<and> (value AND NOT (SPEC_INT32_ONLY OR SPEC_OTHER)) = 0"

definition is_int32_or_boolean_speculation_expecting_defined :: "speculated_type \<Rightarrow> bool" where
  "is_int32_or_boolean_speculation_expecting_defined value \<longleftrightarrow>
     is_int32_or_boolean_speculation (value AND NOT SPEC_OTHER)"

definition is_any_int52_speculation :: "speculated_type \<Rightarrow> bool" where
  "is_any_int52_speculation value \<longleftrightarrow>
     value \<noteq> 0 \<and> (value AND SPEC_INT52_ANY) = value"

definition is_int32_or_int52_speculation :: "speculated_type \<Rightarrow> bool" where
  "is_int32_or_int52_speculation value \<longleftrightarrow>
     value \<noteq> 0 \<and> (value AND (SPEC_INT32_ONLY OR SPEC_INT52_ANY)) = value"

definition is_int32_or_int52_or_other_speculation :: "speculated_type \<Rightarrow> bool" where
  "is_int32_or_int52_or_other_speculation value \<longleftrightarrow>
     value \<noteq> 0 \<and> (value AND (SPEC_INT32_ONLY OR SPEC_INT52_ANY OR SPEC_OTHER)) = value"

definition is_int_any_format :: "speculated_type \<Rightarrow> bool" where
  "is_int_any_format value \<longleftrightarrow>
     value \<noteq> 0 \<and> (value AND SPEC_INT_ANY_FORMAT) = value"

definition is_any_int_as_double_speculation :: "speculated_type \<Rightarrow> bool" where
  "is_any_int_as_double_speculation value \<longleftrightarrow> value = SPEC_ANY_INT_AS_DOUBLE"

definition is_double_real_speculation :: "speculated_type \<Rightarrow> bool" where
  "is_double_real_speculation value \<longleftrightarrow>
     value \<noteq> 0 \<and> (value AND SPEC_DOUBLE_REAL) = value"

definition is_double_speculation :: "speculated_type \<Rightarrow> bool" where
  "is_double_speculation value \<longleftrightarrow>
     value \<noteq> 0 \<and> (value AND SPEC_FULL_DOUBLE) = value"

definition is_double_speculation_for_arithmetic :: "speculated_type \<Rightarrow> bool" where
  "is_double_speculation_for_arithmetic value \<longleftrightarrow> (value AND SPEC_FULL_DOUBLE) \<noteq> 0"

definition is_bytecode_real_number_speculation :: "speculated_type \<Rightarrow> bool" where
  "is_bytecode_real_number_speculation value \<longleftrightarrow>
     (value AND SPEC_BYTECODE_REAL_NUMBER) \<noteq> 0 \<and> (value AND NOT SPEC_BYTECODE_REAL_NUMBER) = 0"

definition is_full_real_number_speculation :: "speculated_type \<Rightarrow> bool" where
  "is_full_real_number_speculation value \<longleftrightarrow>
     (value AND SPEC_FULL_REAL_NUMBER) \<noteq> 0 \<and> (value AND NOT SPEC_FULL_REAL_NUMBER) = 0"

definition is_bytecode_number_speculation :: "speculated_type \<Rightarrow> bool" where
  "is_bytecode_number_speculation value \<longleftrightarrow>
     (value AND SPEC_BYTECODE_NUMBER) \<noteq> 0 \<and> (value AND NOT SPEC_BYTECODE_NUMBER) = 0"

definition is_full_number_speculation :: "speculated_type \<Rightarrow> bool" where
  "is_full_number_speculation value \<longleftrightarrow>
     (value AND SPEC_FULL_NUMBER) \<noteq> 0 \<and> (value AND NOT SPEC_FULL_NUMBER) = 0"

definition is_full_number_or_boolean_speculation :: "speculated_type \<Rightarrow> bool" where
  "is_full_number_or_boolean_speculation value \<longleftrightarrow>
     value \<noteq> 0 \<and> (value AND NOT (SPEC_FULL_NUMBER OR SPEC_BOOLEAN)) = 0"

definition is_full_number_or_boolean_speculation_expecting_defined :: "speculated_type \<Rightarrow> bool" where
  "is_full_number_or_boolean_speculation_expecting_defined value \<longleftrightarrow>
     is_full_number_or_boolean_speculation (value AND NOT SPEC_OTHER)"

definition is_boolean_speculation :: "speculated_type \<Rightarrow> bool" where
  "is_boolean_speculation value \<longleftrightarrow> value = SPEC_BOOLEAN"

definition is_not_boolean_speculation :: "speculated_type \<Rightarrow> bool" where
  "is_not_boolean_speculation value \<longleftrightarrow>
     value \<noteq> 0 \<and> (value AND SPEC_BOOLEAN) = 0"

definition is_not_double_speculation :: "speculated_type \<Rightarrow> bool" where
  "is_not_double_speculation ty \<longleftrightarrow> (ty AND SPEC_FULL_DOUBLE) = 0"

definition is_neither_double_nor_heap_big_int_nor_string_speculation :: "speculated_type \<Rightarrow> bool" where
  "is_neither_double_nor_heap_big_int_nor_string_speculation ty \<longleftrightarrow>
     (ty AND (SPEC_FULL_DOUBLE OR SPEC_HEAP_BIG_INT OR SPEC_STRING)) = 0"

definition is_neither_double_nor_heap_big_int_speculation :: "speculated_type \<Rightarrow> bool" where
  "is_neither_double_nor_heap_big_int_speculation ty \<longleftrightarrow>
     (ty AND (SPEC_FULL_DOUBLE OR SPEC_HEAP_BIG_INT)) = 0"

definition is_other_speculation :: "speculated_type \<Rightarrow> bool" where
  "is_other_speculation value \<longleftrightarrow> value = SPEC_OTHER"

definition is_misc_speculation :: "speculated_type \<Rightarrow> bool" where
  "is_misc_speculation value \<longleftrightarrow> value \<noteq> 0 \<and> (value AND NOT SPEC_MISC) = 0"

definition is_other_or_empty_speculation :: "speculated_type \<Rightarrow> bool" where
  "is_other_or_empty_speculation value \<longleftrightarrow> value = 0 \<or> value = SPEC_OTHER"

definition is_empty_speculation :: "speculated_type \<Rightarrow> bool" where
  "is_empty_speculation value \<longleftrightarrow> value = SPEC_EMPTY"

definition is_untyped_speculation_for_arithmetic :: "speculated_type \<Rightarrow> bool" where
  "is_untyped_speculation_for_arithmetic value \<longleftrightarrow>
     (value AND NOT (SPEC_FULL_NUMBER OR SPEC_BOOLEAN)) \<noteq> 0"

definition is_untyped_speculation_for_bit_ops :: "speculated_type \<Rightarrow> bool" where
  "is_untyped_speculation_for_bit_ops value \<longleftrightarrow>
     (value AND NOT (SPEC_FULL_NUMBER OR SPEC_BOOLEAN OR SPEC_OTHER)) \<noteq> 0"

definition speculation_checked :: "speculated_type \<Rightarrow> speculated_type \<Rightarrow> bool" where
  "speculation_checked actual desired \<longleftrightarrow> (actual OR desired) = desired"

section \<open>Merging\<close>

definition merge_speculations :: "speculated_type \<Rightarrow> speculated_type \<Rightarrow> speculated_type" where
  "merge_speculations left right = left OR right"

text \<open>The new value of the place, and whether it changed.\<close>

definition merge_speculation :: "speculated_type \<Rightarrow> speculated_type \<Rightarrow> speculated_type \<times> bool" where
  "merge_speculation left right =
     (let new_speculation = merge_speculations left right
      in (new_speculation, new_speculation \<noteq> left))"

section \<open>Cells\<close>

text \<open>The type tag in the header of a cell, \<open>runtime/js_type.rs\<close>.\<close>

datatype js_type = JT_Structure | JT_String | JT_HeapBigInt | JT_Symbol | JT_Object | JT_FinalObject

fun js_type_u8 :: "js_type \<Rightarrow> u8" where
  "js_type_u8 JT_Structure = 1"
| "js_type_u8 JT_String = 2"
| "js_type_u8 JT_HeapBigInt = 3"
| "js_type_u8 JT_Symbol = 4"
| "js_type_u8 JT_Object = 32"
| "js_type_u8 JT_FinalObject = 33"

definition js_type_is_object :: "js_type \<Rightarrow> bool" where
  "js_type_is_object t \<longleftrightarrow> js_type_u8 JT_Object \<le> js_type_u8 t"

fun speculation_from_js_type :: "js_type \<Rightarrow> speculated_type option" where
  "speculation_from_js_type JT_String = Some SPEC_STRING"
| "speculation_from_js_type JT_Symbol = Some SPEC_SYMBOL"
| "speculation_from_js_type JT_HeapBigInt = Some SPEC_HEAP_BIG_INT"
| "speculation_from_js_type JT_Object = None"
| "speculation_from_js_type JT_FinalObject = None"
| "speculation_from_js_type JT_Structure = None"

fun speculated_type_from_js_type_mapping :: "js_type \<Rightarrow> speculated_type" where
  "speculated_type_from_js_type_mapping JT_Structure = SPEC_CELL_OTHER"
| "speculated_type_from_js_type_mapping JT_String = SPEC_STRING"
| "speculated_type_from_js_type_mapping JT_HeapBigInt = SPEC_HEAP_BIG_INT"
| "speculated_type_from_js_type_mapping JT_Symbol = SPEC_SYMBOL"
| "speculated_type_from_js_type_mapping JT_Object = SPEC_OBJECT_OTHER"
| "speculated_type_from_js_type_mapping JT_FinalObject = SPEC_FINAL_OBJECT"

definition speculation_from_structure :: "js_type \<Rightarrow> speculated_type" where
  "speculation_from_structure structure_type = speculated_type_from_js_type_mapping structure_type"

datatype string_speculation_kind = SK_Atom | SK_ResolvedNonAtom | SK_Rope

definition speculation_from_cell ::
  "js_type \<Rightarrow> string_speculation_kind option \<Rightarrow> speculated_type" where
  "speculation_from_cell ty string_kind =
     (if ty = JT_String then
        (case string_kind of
           Some SK_Atom \<Rightarrow> SPEC_STRING_IDENT
         | Some SK_ResolvedNonAtom \<Rightarrow> SPEC_STRING_RESOLVED
         | Some SK_Rope \<Rightarrow> SPEC_STRING
         | None \<Rightarrow> SPEC_STRING)
      else speculated_type_from_js_type_mapping ty)"

section \<open>Values\<close>

text \<open>\<open>value as i64\<close>, towards zero and saturating, and \<open>value as f64\<close> of a 64-bit integer, which rounds
to the nearest double, to the even one of two.\<close>

definition f_to_i64 :: "f64 \<Rightarrow> int" where
  "f_to_i64 b =
     (if f_is_nan b then 0
      else let t = int (f_magnitude b div 2 ^ 1074);
               i = (if f_sign_negative b then - t else t)
           in max (- (2 ^ 63)) (min (2 ^ 63 - 1) i))"

definition round_half_even :: "nat \<Rightarrow> nat \<Rightarrow> nat" where
  "round_half_even n s =
     (let q = n div 2 ^ s; r = n mod 2 ^ s
      in if 2 ^ s < 2 * r \<or> (2 ^ s = 2 * r \<and> odd q) then q + 1 else q)"

definition f_of_i64 :: "int \<Rightarrow> f64" where
  "f_of_i64 i =
     (if i = 0 then 0
      else let n = nat \<bar>i\<bar>; k = bit_len 64 n - 1
           in f_pack (i < 0) (1023 + k)
                (if k \<le> 52 then n * 2 ^ (52 - k) - 2 ^ 52 else round_half_even n (k - 52) - 2 ^ 52))"

definition is_int52 :: "f64 \<Rightarrow> bool" where
  "is_int52 number =
     (if f_is_nan number then False
      else let as_i64 = f_to_i64 number
           in if \<not> f_equal (f_of_i64 as_i64) number then False
              else if as_i64 = 0 \<and> f_sign_negative number then False
              else if as_i64 \<ge> 2 ^ 51 then False
              else if as_i64 < - (2 ^ 51) then False
              else True)"

definition value_is_any_int :: "js_value \<Rightarrow> bool" where
  "value_is_any_int v =
     (if is_int32 v then True
      else case as_number v of
             Some (DoubleBits bits) \<Rightarrow> is_int52 (to_f64 bits)
           | _ \<Rightarrow> False)"

definition value_as_any_int :: "js_value \<Rightarrow> int" where
  "value_as_any_int v =
     (case as_number v of
        Some (Int32 i) \<Rightarrow> i
      | Some (DoubleBits bits) \<Rightarrow> f_to_i64 (to_f64 bits)
      | None \<Rightarrow> 0)"

text \<open>The last branch asserts that the value is undefined or null.\<close>

definition speculation_after_numbers ::
  "js_value \<Rightarrow> (u64 \<Rightarrow> speculated_type) \<Rightarrow> speculated_type option" where
  "speculation_after_numbers v resolve_cell =
     (case as_cell v of
        Some cell \<Rightarrow> Some (resolve_cell cell)
      | None \<Rightarrow>
          (if is_boolean v then Some SPEC_BOOLEAN
           else if is_undefined_or_null v then Some SPEC_OTHER
           else None))"

definition speculation_from_value ::
  "js_value \<Rightarrow> (u64 \<Rightarrow> speculated_type) \<Rightarrow> speculated_type option" where
  "speculation_from_value v resolve_cell =
     (if is_empty_or_deleted_sentinel v then Some SPEC_EMPTY
      else
        case (if is_int32 v then as_number v else None) of
          Some (Int32 i) \<Rightarrow>
            Some (if i AND NOT 1 \<noteq> 0 then SPEC_NON_BOOL_INT32 else SPEC_BOOL_INT32)
        | _ \<Rightarrow>
            (case (if is_double v then as_number v else None) of
               Some (DoubleBits bits) \<Rightarrow>
                 let number = to_f64 bits
                 in if f_is_nan number then Some SPEC_DOUBLE_PURE_NAN
                    else if is_int52 number then Some SPEC_ANY_INT_AS_DOUBLE
                    else Some SPEC_NON_INT_AS_DOUBLE
             | _ \<Rightarrow> speculation_after_numbers v resolve_cell))"

definition int52_aware_speculation_from_value ::
  "js_value \<Rightarrow> (u64 \<Rightarrow> speculated_type) \<Rightarrow> speculated_type option" where
  "int52_aware_speculation_from_value v resolve_cell =
     (if \<not> value_is_any_int v then speculation_from_value v resolve_cell
      else let int_value = value_as_any_int v
           in if signed_take_bit 31 int_value = int_value then Some SPEC_INT32_AS_INT52
              else Some SPEC_NON_INT32_AS_INT52)"

section \<open>Classes\<close>

text \<open>The class of a cell is not part of the program: the two tests of the trait are parameters.\<close>

datatype class_info_leaf =
        CI_JSString | CI_Symbol | CI_JSBigInt | CI_JSFinalObject |
    CI_DirectArguments | CI_ScopedArguments | CI_RegExpObject | CI_DateInstance | CI_JSMap |
    CI_JSMapIterator | CI_JSSet | CI_JSSetIterator | CI_JSWeakMap | CI_JSWeakSet | CI_ProxyObject
    | CI_JSGlobalProxy | CI_JSDataView | CI_StringObject | CI_JSArray | CI_JSFunction |
    CI_JSPromise | CI_Int8Array | CI_Uint8Array | CI_Uint8ClampedArray | CI_Int16Array |
    CI_Uint16Array | CI_Int32Array | CI_Uint32Array | CI_Float16Array | CI_Float32Array |
    CI_Float64Array | CI_BigInt64Array | CI_BigUint64Array | CI_JSObject

definition speculation_from_class_info_inheritance ::
  "(class_info_leaf \<Rightarrow> bool) \<Rightarrow> (class_info_leaf \<Rightarrow> bool) \<Rightarrow> speculated_type" where
  "speculation_from_class_info_inheritance is_info is_sub_class_of =
     (if is_info CI_JSString then SPEC_STRING
      else if is_info CI_Symbol then SPEC_SYMBOL
      else if is_info CI_JSBigInt then SPEC_HEAP_BIG_INT
      else if is_info CI_JSFinalObject then SPEC_FINAL_OBJECT
      else if is_info CI_DirectArguments then SPEC_DIRECT_ARGUMENTS
      else if is_info CI_ScopedArguments then SPEC_SCOPED_ARGUMENTS
      else if is_info CI_RegExpObject then SPEC_REG_EXP_OBJECT
      else if is_info CI_DateInstance then SPEC_DATE_OBJECT
      else if is_info CI_JSMap then SPEC_MAP_OBJECT
      else if is_info CI_JSMapIterator then SPEC_OBJECT_OTHER
      else if is_info CI_JSSet then SPEC_SET_OBJECT
      else if is_info CI_JSSetIterator then SPEC_OBJECT_OTHER
      else if is_info CI_JSWeakMap then SPEC_WEAK_MAP_OBJECT
      else if is_info CI_JSWeakSet then SPEC_WEAK_SET_OBJECT
      else if is_info CI_ProxyObject then SPEC_PROXY_OBJECT
      else if is_sub_class_of CI_JSGlobalProxy then SPEC_GLOBAL_PROXY
      else if is_sub_class_of CI_JSDataView then SPEC_DATA_VIEW_OBJECT
      else if is_sub_class_of CI_StringObject then SPEC_STRING_OBJECT OR SPEC_OBJECT_OTHER
      else if is_sub_class_of CI_JSArray then SPEC_ARRAY OR SPEC_DERIVED_ARRAY
      else if is_sub_class_of CI_JSFunction then SPEC_FUNCTION
      else if is_sub_class_of CI_JSPromise then SPEC_PROMISE_OBJECT
      else if is_sub_class_of CI_Int8Array then SPEC_INT8_ARRAY
      else if is_sub_class_of CI_Uint8Array then SPEC_UINT8_ARRAY
      else if is_sub_class_of CI_Uint8ClampedArray then SPEC_UINT8_CLAMPED_ARRAY
      else if is_sub_class_of CI_Int16Array then SPEC_INT16_ARRAY
      else if is_sub_class_of CI_Uint16Array then SPEC_UINT16_ARRAY
      else if is_sub_class_of CI_Int32Array then SPEC_INT32_ARRAY
      else if is_sub_class_of CI_Uint32Array then SPEC_UINT32_ARRAY
      else if is_sub_class_of CI_Float16Array then SPEC_FLOAT16_ARRAY
      else if is_sub_class_of CI_Float32Array then SPEC_FLOAT32_ARRAY
      else if is_sub_class_of CI_Float64Array then SPEC_FLOAT64_ARRAY
      else if is_sub_class_of CI_BigInt64Array then SPEC_BIG_INT64_ARRAY
      else if is_sub_class_of CI_BigUint64Array then SPEC_BIG_UINT64_ARRAY
      else if is_sub_class_of CI_JSObject then SPEC_OBJECT_OTHER
      else SPEC_CELL_OTHER)"

lemma spec_numerals:
  "SPEC_NONE = 0x0" "SPEC_FINAL_OBJECT = 0x1" "SPEC_ARRAY = 0x2" "SPEC_FUNCTION = 0x4"
  "SPEC_INT8_ARRAY = 0x10" "SPEC_INT16_ARRAY = 0x20" "SPEC_INT32_ARRAY = 0x40"
  "SPEC_UINT8_ARRAY = 0x80" "SPEC_UINT8_CLAMPED_ARRAY = 0x100" "SPEC_UINT16_ARRAY = 0x200"
  "SPEC_UINT32_ARRAY = 0x400" "SPEC_FLOAT16_ARRAY = 0x800" "SPEC_FLOAT32_ARRAY = 0x1000"
  "SPEC_FLOAT64_ARRAY = 0x2000" "SPEC_BIG_INT64_ARRAY = 0x4000" "SPEC_BIG_UINT64_ARRAY = 0x8000"
  "SPEC_TYPED_ARRAY_VIEW = 0xFFF0" "SPEC_DIRECT_ARGUMENTS = 0x10000"
  "SPEC_SCOPED_ARGUMENTS = 0x20000" "SPEC_STRING_OBJECT = 0x40000" "SPEC_REG_EXP_OBJECT = 0x80000"
  "SPEC_DATE_OBJECT = 0x100000" "SPEC_PROMISE_OBJECT = 0x200000" "SPEC_MAP_OBJECT = 0x400000"
  "SPEC_SET_OBJECT = 0x800000" "SPEC_MAP_ITERATOR_OBJECT = 0x1000000"
  "SPEC_SET_ITERATOR_OBJECT = 0x2000000" "SPEC_WEAK_MAP_OBJECT = 0x4000000"
  "SPEC_WEAK_SET_OBJECT = 0x8000000" "SPEC_PROXY_OBJECT = 0x10000000"
  "SPEC_GLOBAL_PROXY = 0x20000000" "SPEC_DERIVED_ARRAY = 0x40000000"
  "SPEC_OBJECT_OTHER = 0x80000000" "SPEC_STRING_IDENT = 0x100000000"
  "SPEC_STRING_RESOLVED_VAR = 0x200000000" "SPEC_STRING_UNRESOLVED_VAR = 0x400000000"
  "SPEC_STRING_VAR = 0x600000000" "SPEC_STRING_RESOLVED = 0x300000000" "SPEC_STRING = 0x700000000"
  "SPEC_SYMBOL = 0x800000000" "SPEC_CELL_OTHER = 0x1000000000" "SPEC_BOOL_INT32 = 0x2000000000"
  "SPEC_NON_BOOL_INT32 = 0x4000000000" "SPEC_INT32_ONLY = 0x6000000000"
  "SPEC_INT32_AS_INT52 = 0x8000000000" "SPEC_NON_INT32_AS_INT52 = 0x10000000000"
  "SPEC_INT52_ANY = 0x18000000000" "SPEC_ANY_INT_AS_DOUBLE = 0x20000000000"
  "SPEC_NON_INT_AS_DOUBLE = 0x40000000000" "SPEC_DOUBLE_REAL = 0x60000000000"
  "SPEC_DOUBLE_PURE_NAN = 0x80000000000" "SPEC_DOUBLE_IMPURE_NAN = 0x100000000000"
  "SPEC_DOUBLE_NAN = 0x180000000000" "SPEC_BYTECODE_DOUBLE = 0xE0000000000"
  "SPEC_FULL_DOUBLE = 0x1E0000000000" "SPEC_BYTECODE_REAL_NUMBER = 0x66000000000"
  "SPEC_FULL_REAL_NUMBER = 0x7E000000000" "SPEC_BYTECODE_NUMBER = 0xE6000000000"
  "SPEC_INT_ANY_FORMAT = 0x3E000000000" "SPEC_FULL_NUMBER = 0x1FE000000000"
  "SPEC_BOOLEAN = 0x200000000000" "SPEC_OTHER = 0x400000000000" "SPEC_MISC = 0x600000000000"
  "SPEC_EMPTY = 0x800000000000" "SPEC_HEAP_BIG_INT = 0x1000000000000"
  "SPEC_BIG_INT32 = 0x2000000000000" "SPEC_BIG_INT = 0x1000000000000"
  "SPEC_DATA_VIEW_OBJECT = 0x4000000000000" "SPEC_PRIMITIVE = 0x16E6F00000000"
  "SPEC_OBJECT = 0x40000FFFFFFF7" "SPEC_CELL = 0x5001FFFFFFFF7" "SPEC_HEAP_TOP = 0x76E7FFFFFFFF7"
  "SPEC_BYTECODE_TOP = 0x7EE7FFFFFFFF7" "SPEC_FULL_TOP = 0x7FFFFFFFFFFF7"
  "SPEC_TYPEOF_MIGHT_BE_FUNCTION = 0x90000004" "SPEC_CELL_CHECK = 0x5801FFFFFFFF7"
  by (simp_all add: spec_consts)

section \<open>Integers in doubles\<close>

lemma f_of_i64_small:
  assumes "\<bar>i\<bar> < 2 ^ 53"
  shows "f_scaled (f_of_i64 i) = i * 2 ^ 1074" and "\<not> f_is_nan (f_of_i64 i)"
proof -
  have "f_scaled (f_of_i64 i) = i * 2 ^ 1074 \<and> \<not> f_is_nan (f_of_i64 i)"
  proof (cases "i = 0")
    case True
    then show ?thesis by (simp add: f_of_i64_def f_zero_parts)
  next
    case False
    define n where "n = nat \<bar>i\<bar>"
    define k where "k = bit_len 64 n - 1"
    have n: "0 < n" "n < 2 ^ 64" "n < 2 ^ 53" using assms False by (auto simp: n_def)
    have b: "2 ^ k \<le> n" "n < 2 ^ Suc k" using bit_len_bounds [OF n(2,1)] by (auto simp: k_def)
    have "(2 :: nat) ^ k < 2 ^ 53" using b(1) n(3) by (rule le_less_trans)
    then have k: "k \<le> 52" using power_less_imp_less_exp [of "2 :: nat" k 53] by simp
    have f: "f_of_i64 i = f_pack (i < 0) (1023 + k) (n * 2 ^ (52 - k) - 2 ^ 52)"
      using False k unfolding f_of_i64_def Let_def n_def [symmetric] k_def [symmetric]
      by (simp only: if_False if_True)
    have "(if i < 0 then - int n else int n) = i" by (simp add: n_def)
    with f_pack_integer [OF k b, of "i < 0"] show ?thesis unfolding f by simp
  qed
  then show "f_scaled (f_of_i64 i) = i * 2 ^ 1074" "\<not> f_is_nan (f_of_i64 i)" by blast+
qed

text \<open>\<open>is_int52\<close> holds for the integers of 52 bits, except minus zero.\<close>

definition double_is_int :: "f64 \<Rightarrow> int \<Rightarrow> bool" where
  "double_is_int b j \<longleftrightarrow> \<not> f_is_nan b \<and> f_scaled b = j * 2 ^ 1074 \<and> (j = 0 \<longrightarrow> \<not> f_sign_negative b)"

lemma f_to_i64_of_int:
  assumes "f_scaled b = j * 2 ^ 1074" and "\<not> f_is_nan b" and "\<bar>j\<bar> < 2 ^ 53"
  shows "f_to_i64 b = j"
proof -
  have "int (f_magnitude b) = \<bar>j\<bar> * 2 ^ 1074"
    using arg_cong [OF assms(1), of abs] by (simp add: f_scaled_def abs_mult split: if_splits)
  then have "int (f_magnitude b) div 2 ^ 1074 = \<bar>j\<bar>" by simp
  then have t: "int (f_magnitude b div 2 ^ 1074) = \<bar>j\<bar>" by (simp only: zdiv_int of_nat_power) simp
  have s: "(if f_sign_negative b then - \<bar>j\<bar> else \<bar>j\<bar>) = j"
  proof (cases "f_sign_negative b")
    case True
    then have "j * 2 ^ 1074 \<le> 0" using assms(1) by (simp add: f_scaled_def)
    then have "j \<le> 0" by (simp add: mult_le_0_iff)
    then show ?thesis using True by simp
  next
    case False
    then have "0 \<le> j * 2 ^ 1074" using assms(1) by (simp add: f_scaled_def)
    then have "0 \<le> j" by (simp add: zero_le_mult_iff)
    then show ?thesis using False by simp
  qed
  show ?thesis unfolding f_to_i64_def Let_def t s using assms(2,3) by simp
qed

lemma is_int52_iff: "is_int52 b \<longleftrightarrow> (\<exists>j. - (2 ^ 51) \<le> j \<and> j < 2 ^ 51 \<and> double_is_int b j)"
proof
  assume l: "is_int52 b"
  define i where "i = f_to_i64 b"
  have i: "f_equal (f_of_i64 i) b" "\<not> (i = 0 \<and> f_sign_negative b)" "i < 2 ^ 51" "- (2 ^ 51) \<le> i"
    "\<not> f_is_nan b"
    using l by (simp_all add: is_int52_def i_def Let_def split: if_splits)
  then have "\<bar>i\<bar> < 2 ^ 53" by simp
  from f_of_i64_small [OF this] i(1) have "f_scaled b = i * 2 ^ 1074" by (simp add: f_equal_def)
  then show "\<exists>j. - (2 ^ 51) \<le> j \<and> j < 2 ^ 51 \<and> double_is_int b j"
    using i by (intro exI [of _ i]) (simp add: double_is_int_def)
next
  assume "\<exists>j. - (2 ^ 51) \<le> j \<and> j < 2 ^ 51 \<and> double_is_int b j"
  then obtain j where j: "- (2 ^ 51) \<le> j" "j < 2 ^ 51" "\<not> f_is_nan b" "f_scaled b = j * 2 ^ 1074"
    "j = 0 \<longrightarrow> \<not> f_sign_negative b" by (auto simp: double_is_int_def)
  have small: "\<bar>j\<bar> < 2 ^ 53" using j(1,2) by simp
  note e = f_to_i64_of_int [OF j(4,3) small]
  have "f_equal (f_of_i64 j) b" using f_of_i64_small [OF small] j(3,4) by (simp add: f_equal_def)
  then show "is_int52 b" using j by (simp add: is_int52_def e Let_def)
qed

section \<open>Profiles\<close>

text \<open>A profile merges the speculation of each value it sees.\<close>

definition observe_value ::
  "(u64 \<Rightarrow> speculated_type) \<Rightarrow> js_value \<Rightarrow> speculated_type \<Rightarrow> speculated_type option" where
  "observe_value resolve_cell v p =
     (case speculation_from_value v resolve_cell of
        None \<Rightarrow> None | Some s \<Rightarrow> Some (fst (merge_speculation p s)))"

text \<open>The encodings of values, and the empty marker; only for others an assertion would fail.\<close>

definition known_value :: "js_value \<Rightarrow> bool" where
  "known_value v \<longleftrightarrow> value_kind_of v \<noteq> VUnknown \<or> v = VALUE_EMPTY"

definition only_saw :: "(js_value \<Rightarrow> bool) \<Rightarrow> js_value list \<Rightarrow> bool" where
  "only_saw P vs \<longleftrightarrow> vs \<noteq> [] \<and> (\<forall>v \<in> set vs. P v)"

lemma fold_or_bit: "bit (fold (\<lambda>s p. p OR s) ss (p :: u64)) n \<longleftrightarrow> bit p n \<or> (\<exists>s \<in> set ss. bit s n)"
  by (induction ss arbitrary: p) (auto simp: bit_simps)

lemma fold_or_within:
  "fold (\<lambda>s p. p OR s) ss (p :: u64) AND C = 0 \<longleftrightarrow> p AND C = 0 \<and> (\<forall>s \<in> set ss. s AND C = 0)"
  by (auto simp: bit_eq_iff bit_simps fold_or_bit)

lemma fold_or_zero: "fold (\<lambda>s p. p OR s) ss (p :: u64) = 0 \<longleftrightarrow> p = 0 \<and> (\<forall>s \<in> set ss. s = 0)"
  by (auto simp: bit_eq_iff fold_or_bit)

lemma single_bit_iff:
  fixes p :: u64
  assumes n: "n < 64"
  shows "p = push_bit n 1 \<longleftrightarrow> p \<noteq> 0 \<and> p AND NOT (push_bit n 1) = 0"
proof
  assume "p = push_bit n 1"
  with n show "p \<noteq> 0 \<and> p AND NOT (push_bit n 1) = 0" by (auto simp: bit_eq_iff bit_simps)
next
  assume a: "p \<noteq> 0 \<and> p AND NOT (push_bit n 1) = 0"
  have b: "m = n" if "bit p m" for m
  proof (rule ccontr)
    assume "m \<noteq> n"
    then have "bit (p AND NOT (push_bit n 1)) m"
      using that by (simp only: bit_and_iff bit_not_iff bit_push_bit_iff bit_1_iff)
        (auto dest: bit_imp_le_length)
    then show False using a by simp
  qed
  from a obtain m where "bit p m" by (auto simp: bit_eq_iff)
  with b have bn: "bit p n" by blast
  show "p = push_bit n 1"
  proof (rule bit_word_eqI)
    fix m
    assume "m < LENGTH(64)"
    show "bit p m = bit (push_bit n (1 :: u64)) m"
    proof (cases "m = n")
      case True
      then show ?thesis using bn n by (simp add: bit_simps)
    next
      case False
      then have "\<not> bit p m" using b by blast
      then show ?thesis using False by (auto simp: bit_simps)
    qed
  qed
qed

lemma int_small_iff: "i AND NOT 1 = 0 \<longleftrightarrow> i = 0 \<or> i = (1 :: int)"
proof
  assume z: "i AND NOT 1 = 0"
  have "i = (i AND NOT 1) OR (i AND 1)" by (auto simp: bit_eq_iff bit_simps)
  then have "i = i mod 2" unfolding z or.left_neutral and_one_eq .
  then show "i = 0 \<or> i = 1" by presburger
qed auto

section \<open>What a value contributes\<close>

abbreviation cell_speculation ::
  "(u64 \<Rightarrow> js_type) \<Rightarrow> (u64 \<Rightarrow> string_speculation_kind option) \<Rightarrow> u64 \<Rightarrow> speculated_type" where
  "cell_speculation ty sk c \<equiv> speculation_from_cell (ty c) (sk c)"

lemma kind_disjoint:
  "is_number v \<longleftrightarrow> value_kind_of v \<in> {VInt32, VDouble}"
  "is_int32 v \<longleftrightarrow> value_kind_of v = VInt32" "is_double v \<longleftrightarrow> value_kind_of v = VDouble"
  "is_cell v \<longleftrightarrow> value_kind_of v = VCell" "is_boolean v \<longleftrightarrow> value_kind_of v = VBoolean"
  "is_undefined_or_null v \<longleftrightarrow> value_kind_of v \<in> {VNull, VUndefined}"
  "value_kind_of VALUE_EMPTY = VUnknown"
proof -
  show "is_number v \<longleftrightarrow> value_kind_of v \<in> {VInt32, VDouble}"
    using is_number_iff [of v] is_int32_iff [of v] by (auto simp: value_kind_number is_double_def)
  show "value_kind_of VALUE_EMPTY = VUnknown"
    by (simp add: value_kind_of_def value_consts)
qed (simp_all add: value_kind_number value_kind_cases undefined_or_null_cases)

text \<open>The kind of value a test is about, for a value that is known.\<close>

definition seen_int :: "js_value \<Rightarrow> int \<Rightarrow> bool" where
  "seen_int v i \<longleftrightarrow> as_number v = Some (Int32 i)"

definition seen_double_int :: "js_value \<Rightarrow> int \<Rightarrow> bool" where
  "seen_double_int v j \<longleftrightarrow> is_double v \<and> double_is_int (to_f64 v) j"

lemma value_speculation:
  fixes ty sk
  defines "rc \<equiv> cell_speculation ty sk"
  assumes "known_value v"
  obtains (empty) "v = VALUE_EMPTY" "value_kind_of v = VUnknown" "speculation_from_value v rc = Some SPEC_EMPTY"
  | (bool_int) i where "value_kind_of v = VInt32" "as_number v = Some (Int32 i)" "i = 0 \<or> i = 1"
      "speculation_from_value v rc = Some SPEC_BOOL_INT32"
  | (int) i where "value_kind_of v = VInt32" "as_number v = Some (Int32 i)" "\<not> (i = 0 \<or> i = 1)"
      "speculation_from_value v rc = Some SPEC_NON_BOOL_INT32"
  | (nan) "value_kind_of v = VDouble" "f_is_nan (to_f64 v)" "\<not> is_int52 (to_f64 v)"
      "speculation_from_value v rc = Some SPEC_DOUBLE_PURE_NAN"
  | (double_int) "value_kind_of v = VDouble" "\<not> f_is_nan (to_f64 v)" "is_int52 (to_f64 v)"
      "speculation_from_value v rc = Some SPEC_ANY_INT_AS_DOUBLE"
  | (double) "value_kind_of v = VDouble" "\<not> f_is_nan (to_f64 v)" "\<not> is_int52 (to_f64 v)"
      "speculation_from_value v rc = Some SPEC_NON_INT_AS_DOUBLE"
  | (cell) "value_kind_of v = VCell" "speculation_from_value v rc = Some (rc v)"
  | (bool) "value_kind_of v = VBoolean" "speculation_from_value v rc = Some SPEC_BOOLEAN"
  | (other) "value_kind_of v \<in> {VNull, VUndefined}" "speculation_from_value v rc = Some SPEC_OTHER"
proof (cases "v = VALUE_EMPTY")
  case True
  then show ?thesis
    by (intro empty) (simp_all add: kind_disjoint speculation_from_value_def is_empty_or_deleted_sentinel_def)
next
  case ne: False
  then have k: "value_kind_of v \<noteq> VUnknown" using assms(2) by (simp add: known_value_def)
  note spec = speculation_from_value_def speculation_after_numbers_def is_empty_or_deleted_sentinel_def
    kind_disjoint as_cell_def as_number_def
  show ?thesis
  proof (cases "value_kind_of v")
    case VInt32
    then obtain i where i: "as_number v = Some (Int32 i)" by (simp add: as_number_def kind_disjoint)
    then show ?thesis using VInt32 ne bool_int [of i] int [of i] int_small_iff [of i]
      by (cases "i = 0 \<or> i = 1")
        (auto simp: speculation_from_value_def is_empty_or_deleted_sentinel_def kind_disjoint)
  next
    case VDouble
    have s: "speculation_from_value v rc = Some (if f_is_nan (to_f64 v) then SPEC_DOUBLE_PURE_NAN
        else if is_int52 (to_f64 v) then SPEC_ANY_INT_AS_DOUBLE else SPEC_NON_INT_AS_DOUBLE)"
      using VDouble ne by (simp add: spec)
    show ?thesis
      using VDouble s nan double_int double by (cases "f_is_nan (to_f64 v)"; cases "is_int52 (to_f64 v)")
        (auto simp: is_int52_def)
  next
    case VCell
    then show ?thesis using ne by (intro cell) (simp_all add: spec)
  next
    case VBoolean
    then show ?thesis using ne by (intro bool) (simp_all add: spec)
  next
    case VNull
    then show ?thesis using ne by (intro other) (simp_all add: spec)
  next
    case VUndefined
    then show ?thesis using ne by (intro other) (simp_all add: spec)
  qed (use k in simp)
qed

lemma js_type_is_object_iff: "js_type_is_object t \<longleftrightarrow> t = JT_Object \<or> t = JT_FinalObject"
  by (cases t) (simp_all add: js_type_is_object_def word_le_nat_alt)

text \<open>The bits a value contributes lie in a set of the lattice exactly when the value is of its kind.\<close>

lemma cell_speculation_within:
  "speculation_from_cell t k \<noteq> 0" "speculation_from_cell t k AND NOT SPEC_CELL = 0"
  "speculation_from_cell t k AND NOT SPEC_OBJECT = 0 \<longleftrightarrow> js_type_is_object t"
  "speculation_from_cell t k AND NOT SPEC_STRING = 0 \<longleftrightarrow> t = JT_String"
  "speculation_from_cell t k AND NOT SPEC_STRING_IDENT = 0 \<longleftrightarrow> t = JT_String \<and> k = Some SK_Atom"
  "speculation_from_cell t k AND NOT SPEC_SYMBOL = 0 \<longleftrightarrow> t = JT_Symbol"
  "speculation_from_cell t k AND NOT SPEC_HEAP_BIG_INT = 0 \<longleftrightarrow> t = JT_HeapBigInt"
  "speculation_from_cell t k AND NOT SPEC_FINAL_OBJECT = 0 \<longleftrightarrow> t = JT_FinalObject"
  by (cases t; simp add: speculation_from_cell_def spec_numerals js_type_is_object_iff
      split: option.split string_speculation_kind.split)+

definition kinds ::
  "(u64 \<Rightarrow> js_type) \<Rightarrow> (u64 \<Rightarrow> string_speculation_kind option) \<Rightarrow>
   (speculated_type \<times> (js_value \<Rightarrow> bool)) set" where
  "kinds ty sk =
     {(SPEC_INT32_ONLY, is_int32),
      (SPEC_BOOL_INT32, \<lambda>v. seen_int v 0 \<or> seen_int v 1),
      (SPEC_FULL_DOUBLE, is_double),
      (SPEC_DOUBLE_REAL, \<lambda>v. is_double v \<and> \<not> f_is_nan (to_f64 v)),
      (SPEC_ANY_INT_AS_DOUBLE, \<lambda>v. \<exists>j. - (2 ^ 51) \<le> j \<and> j < 2 ^ 51 \<and> seen_double_int v j),
      (SPEC_BYTECODE_NUMBER, is_number),
      (SPEC_CELL, is_cell),
      (SPEC_OBJECT, \<lambda>v. is_cell v \<and> js_type_is_object (ty v)),
      (SPEC_STRING, \<lambda>v. is_cell v \<and> ty v = JT_String),
      (SPEC_STRING_IDENT, \<lambda>v. is_cell v \<and> ty v = JT_String \<and> sk v = Some SK_Atom),
      (SPEC_SYMBOL, \<lambda>v. is_cell v \<and> ty v = JT_Symbol),
      (SPEC_HEAP_BIG_INT, \<lambda>v. is_cell v \<and> ty v = JT_HeapBigInt),
      (SPEC_FINAL_OBJECT, \<lambda>v. is_cell v \<and> ty v = JT_FinalObject),
      (SPEC_BOOLEAN, is_boolean), (SPEC_OTHER, is_undefined_or_null),
      (SPEC_MISC, \<lambda>v. is_boolean v \<or> is_undefined_or_null v),
      (SPEC_EMPTY, \<lambda>v. v = VALUE_EMPTY)}"

lemma cell_speculation_outside:
  "C \<in> {SPEC_INT32_ONLY, SPEC_BOOL_INT32, SPEC_FULL_DOUBLE, SPEC_DOUBLE_REAL, SPEC_ANY_INT_AS_DOUBLE,
     SPEC_BYTECODE_NUMBER, SPEC_BOOLEAN, SPEC_OTHER, SPEC_MISC, SPEC_EMPTY} \<Longrightarrow>
   speculation_from_cell t k AND NOT C \<noteq> 0"
  "speculation_from_cell t k AND NOT SPEC_BYTECODE_TOP = 0"
  by (cases t; auto simp: speculation_from_cell_def spec_numerals
      split: option.split string_speculation_kind.split)+

lemma value_within:
  assumes "known_value v"
  shows "\<exists>s. speculation_from_value v (cell_speculation ty sk) = Some s \<and> s \<noteq> 0 \<and>
    s AND NOT SPEC_BYTECODE_TOP = 0 \<and> (\<forall>(C, P) \<in> kinds ty sk. s AND NOT C = 0 \<longleftrightarrow> P v)"
  using assms
proof (cases rule: value_speculation [of v ty sk])
  case cell
  have "v \<noteq> VALUE_EMPTY" using cell kind_disjoint(7) by auto
  then show ?thesis
    using cell by (simp add: kinds_def cell_speculation_within cell_speculation_outside kind_disjoint
        seen_int_def seen_double_int_def as_number_def)
qed (auto simp: kinds_def kind_disjoint spec_numerals seen_int_def seen_double_int_def is_int52_iff as_number_def)

section \<open>Integers of 52 bits, and classes\<close>

lemma double_is_int_unique: "double_is_int b j \<Longrightarrow> double_is_int b k \<Longrightarrow> j = k"
  by (simp add: double_is_int_def)

lemma any_int_value:
  assumes "value_is_any_int v"
  shows "seen_int v (value_as_any_int v) \<and> in_i32 (value_as_any_int v) \<or>
    seen_double_int v (value_as_any_int v) \<and> - (2 ^ 51) \<le> value_as_any_int v \<and> value_as_any_int v < 2 ^ 51"
proof (cases "is_int32 v")
  case True
  then have a: "as_number v = Some (Int32 (sint (ucast v :: u32)))" by (simp add: as_number_def)
  have "in_i32 (sint (ucast v :: u32))"
    using sint_greater_eq [of "ucast v :: u32"] sint_less [of "ucast v :: u32"] by (simp add: in_i32_def)
  with a show ?thesis by (simp add: seen_int_def value_as_any_int_def)
next
  case False
  with assms have v: "is_double v" "as_number v = Some (DoubleBits v)" "is_int52 (to_f64 v)"
    by (auto simp: value_is_any_int_def as_number_def split: if_splits)
  then obtain j where j: "- (2 ^ 51) \<le> j" "j < 2 ^ 51" "double_is_int (to_f64 v) j"
    using is_int52_iff by blast
  then have "\<bar>j\<bar> < 2 ^ 53" by simp
  with j have "f_to_i64 (to_f64 v) = j" using f_to_i64_of_int by (simp add: double_is_int_def)
  with v j show ?thesis by (simp add: value_as_any_int_def seen_double_int_def)
qed

lemma any_int_iff:
  "value_is_any_int v \<longleftrightarrow> (\<exists>j. seen_int v j \<or> - (2 ^ 51) \<le> j \<and> j < 2 ^ 51 \<and> seen_double_int v j)"
proof
  show "value_is_any_int v \<Longrightarrow> \<exists>j. seen_int v j \<or> - (2 ^ 51) \<le> j \<and> j < 2 ^ 51 \<and> seen_double_int v j"
    using any_int_value by blast
  assume "\<exists>j. seen_int v j \<or> - (2 ^ 51) \<le> j \<and> j < 2 ^ 51 \<and> seen_double_int v j"
  then show "value_is_any_int v"
    using is_int52_iff [of "to_f64 v"]
    by (auto simp: value_is_any_int_def as_number_def seen_int_def seen_double_int_def split: if_splits)
qed

text \<open>The speculation that knows integers of 52 bits tells those of 32 bits from the others, whichever
way the integer is represented.\<close>

lemma int52_aware_exact:
  assumes "value_is_any_int v"
  shows "int52_aware_speculation_from_value v rc =
    Some (if in_i32 (value_as_any_int v) then SPEC_INT32_AS_INT52 else SPEC_NON_INT32_AS_INT52)"
  using assms by (simp add: int52_aware_speculation_from_value_def Let_def signed_take_bit_int_eq_self_iff in_i32_def)

lemma class_speculation_is_cell:
  "speculation_from_class_info_inheritance f g \<noteq> 0 \<and>
   speculation_from_class_info_inheritance f g AND NOT SPEC_CELL = 0"
  by (simp add: speculation_from_class_info_inheritance_def spec_numerals)

lemma js_type_speculation_agrees:
  "speculation_from_js_type t = Some s \<Longrightarrow> speculation_from_structure t = s \<and> speculation_from_cell t None = s"
  by (cases t) (auto simp: speculation_from_structure_def speculation_from_cell_def)

definition value_speculation_bits ::
  "(u64 \<Rightarrow> js_type) \<Rightarrow> (u64 \<Rightarrow> string_speculation_kind option) \<Rightarrow> js_value \<Rightarrow> speculated_type" where
  "value_speculation_bits ty sk v = the (speculation_from_value v (cell_speculation ty sk))"

lemma value_bits:
  assumes "known_value v"
  shows "speculation_from_value v (cell_speculation ty sk) = Some (value_speculation_bits ty sk v)"
    and "value_speculation_bits ty sk v \<noteq> 0"
    and "value_speculation_bits ty sk v AND NOT SPEC_BYTECODE_TOP = 0"
    and "(C, P) \<in> kinds ty sk \<Longrightarrow> value_speculation_bits ty sk v AND NOT C = 0 \<longleftrightarrow> P v"
  using value_within [OF assms, of ty sk] by (auto simp: value_speculation_bits_def)

interpretation profiler: data_refinement "\<lambda>_. True" id "observe_value (cell_speculation ty sk)"
  "\<lambda>v p. p OR value_speculation_bits ty sk v" "\<lambda>v _. known_value v" for ty sk
  by unfold_locales
    (simp add: observe_value_def value_bits merge_speculation_def merge_speculations_def Let_def)

lemma profile_run:
  assumes "\<forall>v \<in> set vs. known_value v"
  shows "run_steps (observe_value (cell_speculation ty sk)) vs SPEC_NONE =
    Some (fold (\<lambda>s p. p OR s) (map (value_speculation_bits ty sk) vs) 0)"
proof -
  have "profiler.all_ok ty sk vs (id SPEC_NONE)"
    using assms by (intro profiler.all_ok_state_independent) blast
  from profiler.run_refines [OF TrueI this]
  show ?thesis by (simp add: fold_map comp_def SPEC_NONE_def)
qed

lemma profile_within:
  assumes known: "\<forall>v \<in> set vs. known_value v"
    and run: "run_steps (observe_value (cell_speculation ty sk)) vs SPEC_NONE = Some p"
    and kind: "(C, P) \<in> kinds ty sk"
  shows "p \<noteq> 0 \<and> p AND NOT C = 0 \<longleftrightarrow> only_saw P vs"
proof -
  have p: "p = fold (\<lambda>s p. p OR s) (map (value_speculation_bits ty sk) vs) 0"
    using run unfolding profile_run [OF known] by simp
  have "p \<noteq> 0 \<longleftrightarrow> vs \<noteq> []"
    using known value_bits(2) by (cases vs) (auto simp: p fold_or_zero)
  moreover have "p AND NOT C = 0 \<longleftrightarrow> (\<forall>v \<in> set vs. P v)"
    using known value_bits(4) [OF _ kind] by (simp add: p fold_or_within)
  ultimately show ?thesis by (simp add: only_saw_def)
qed

lemma within_tests:
  "is_int32_speculation p \<longleftrightarrow> p \<noteq> 0 \<and> p AND NOT SPEC_INT32_ONLY = 0"
  "is_bool_int32_speculation p \<longleftrightarrow> p \<noteq> 0 \<and> p AND NOT SPEC_BOOL_INT32 = 0"
  "is_double_speculation p \<longleftrightarrow> p \<noteq> 0 \<and> p AND NOT SPEC_FULL_DOUBLE = 0"
  "is_double_real_speculation p \<longleftrightarrow> p \<noteq> 0 \<and> p AND NOT SPEC_DOUBLE_REAL = 0"
  "is_any_int_as_double_speculation p \<longleftrightarrow> p \<noteq> 0 \<and> p AND NOT SPEC_ANY_INT_AS_DOUBLE = 0"
  "is_bytecode_number_speculation p \<longleftrightarrow> p \<noteq> 0 \<and> p AND NOT SPEC_BYTECODE_NUMBER = 0"
  "is_cell_speculation p \<longleftrightarrow> p \<noteq> 0 \<and> p AND NOT SPEC_CELL = 0"
  "is_object_speculation p \<longleftrightarrow> p \<noteq> 0 \<and> p AND NOT SPEC_OBJECT = 0"
  "is_string_speculation p \<longleftrightarrow> p \<noteq> 0 \<and> p AND NOT SPEC_STRING = 0"
  "is_string_ident_speculation p \<longleftrightarrow> p \<noteq> 0 \<and> p AND NOT SPEC_STRING_IDENT = 0"
  "is_symbol_speculation p \<longleftrightarrow> p \<noteq> 0 \<and> p AND NOT SPEC_SYMBOL = 0"
  "is_heap_big_int_speculation p \<longleftrightarrow> p \<noteq> 0 \<and> p AND NOT SPEC_HEAP_BIG_INT = 0"
  "is_final_object_speculation p \<longleftrightarrow> p \<noteq> 0 \<and> p AND NOT SPEC_FINAL_OBJECT = 0"
  "is_boolean_speculation p \<longleftrightarrow> p \<noteq> 0 \<and> p AND NOT SPEC_BOOLEAN = 0"
  "is_other_speculation p \<longleftrightarrow> p \<noteq> 0 \<and> p AND NOT SPEC_OTHER = 0"
  "is_misc_speculation p \<longleftrightarrow> p \<noteq> 0 \<and> p AND NOT SPEC_MISC = 0"
  "is_empty_speculation p \<longleftrightarrow> p \<noteq> 0 \<and> p AND NOT SPEC_EMPTY = 0"
proof -
  have m: "p AND C = p \<longleftrightarrow> p AND NOT C = 0" "p AND C \<noteq> 0 \<and> p AND NOT C = 0 \<longleftrightarrow> p \<noteq> 0 \<and> p AND NOT C = 0"
    for C
  proof -
    have "p = (p AND C) OR (p AND NOT C)" by (rule bit_word_eqI) (auto simp: bit_simps)
    moreover have "(p AND C) AND NOT C = 0" by (rule bit_word_eqI) (auto simp: bit_simps)
    ultimately show "p AND C = p \<longleftrightarrow> p AND NOT C = 0" by (metis or.right_neutral)
    then show "p AND C \<noteq> 0 \<and> p AND NOT C = 0 \<longleftrightarrow> p \<noteq> 0 \<and> p AND NOT C = 0" by metis
  qed
  note single = SPEC_BOOL_INT32_def SPEC_ANY_INT_AS_DOUBLE_def SPEC_STRING_IDENT_def SPEC_SYMBOL_def
    SPEC_HEAP_BIG_INT_def SPEC_FINAL_OBJECT_def SPEC_BOOLEAN_def SPEC_OTHER_def SPEC_EMPTY_def
  show "is_bool_int32_speculation p \<longleftrightarrow> p \<noteq> 0 \<and> p AND NOT SPEC_BOOL_INT32 = 0"
    "is_any_int_as_double_speculation p \<longleftrightarrow> p \<noteq> 0 \<and> p AND NOT SPEC_ANY_INT_AS_DOUBLE = 0"
    "is_string_ident_speculation p \<longleftrightarrow> p \<noteq> 0 \<and> p AND NOT SPEC_STRING_IDENT = 0"
    "is_symbol_speculation p \<longleftrightarrow> p \<noteq> 0 \<and> p AND NOT SPEC_SYMBOL = 0"
    "is_heap_big_int_speculation p \<longleftrightarrow> p \<noteq> 0 \<and> p AND NOT SPEC_HEAP_BIG_INT = 0"
    "is_final_object_speculation p \<longleftrightarrow> p \<noteq> 0 \<and> p AND NOT SPEC_FINAL_OBJECT = 0"
    "is_boolean_speculation p \<longleftrightarrow> p \<noteq> 0 \<and> p AND NOT SPEC_BOOLEAN = 0"
    "is_other_speculation p \<longleftrightarrow> p \<noteq> 0 \<and> p AND NOT SPEC_OTHER = 0"
    "is_empty_speculation p \<longleftrightarrow> p \<noteq> 0 \<and> p AND NOT SPEC_EMPTY = 0"
    unfolding is_bool_int32_speculation_def is_any_int_as_double_speculation_def
      is_string_ident_speculation_def is_symbol_speculation_def is_heap_big_int_speculation_def
      is_final_object_speculation_def is_boolean_speculation_def is_other_speculation_def
      is_empty_speculation_def single
    by (rule single_bit_iff; simp)+
  show "is_int32_speculation p \<longleftrightarrow> p \<noteq> 0 \<and> p AND NOT SPEC_INT32_ONLY = 0"
    "is_double_speculation p \<longleftrightarrow> p \<noteq> 0 \<and> p AND NOT SPEC_FULL_DOUBLE = 0"
    "is_double_real_speculation p \<longleftrightarrow> p \<noteq> 0 \<and> p AND NOT SPEC_DOUBLE_REAL = 0"
    "is_bytecode_number_speculation p \<longleftrightarrow> p \<noteq> 0 \<and> p AND NOT SPEC_BYTECODE_NUMBER = 0"
    "is_cell_speculation p \<longleftrightarrow> p \<noteq> 0 \<and> p AND NOT SPEC_CELL = 0"
    "is_object_speculation p \<longleftrightarrow> p \<noteq> 0 \<and> p AND NOT SPEC_OBJECT = 0"
    "is_string_speculation p \<longleftrightarrow> p \<noteq> 0 \<and> p AND NOT SPEC_STRING = 0"
    "is_misc_speculation p \<longleftrightarrow> p \<noteq> 0 \<and> p AND NOT SPEC_MISC = 0"
    by (simp_all only: m is_int32_speculation_def is_double_speculation_def is_double_real_speculation_def
        is_bytecode_number_speculation_def is_cell_speculation_def is_object_speculation_def
        is_string_speculation_def is_misc_speculation_def)
qed

text \<open>C0: A profile that merges the speculations of the values it sees never fails an assertion, stays
within what a bytecode local can hold, and answers every test exactly: it claims a kind of value, say
32-bit integers, doubles that are integers of 52 bits, cells, strings or booleans, if and only if it saw
a value and saw only values of that kind.\<close>

theorem profile_tests_exact:
  assumes known: "\<forall>v \<in> set vs. known_value v"
  shows "\<exists>p. run_steps (observe_value (cell_speculation ty sk)) vs SPEC_NONE = Some p \<and>
    speculation_checked p SPEC_BYTECODE_TOP \<and>
    (is_int32_speculation p \<longleftrightarrow> only_saw is_int32 vs) \<and>
    (is_bool_int32_speculation p \<longleftrightarrow> only_saw (\<lambda>v. seen_int v 0 \<or> seen_int v 1) vs) \<and>
    (is_double_speculation p \<longleftrightarrow> only_saw is_double vs) \<and>
    (is_double_real_speculation p \<longleftrightarrow> only_saw (\<lambda>v. is_double v \<and> \<not> f_is_nan (to_f64 v)) vs) \<and>
    (is_any_int_as_double_speculation p \<longleftrightarrow>
       only_saw (\<lambda>v. \<exists>j. - (2 ^ 51) \<le> j \<and> j < 2 ^ 51 \<and> seen_double_int v j) vs) \<and>
    (is_bytecode_number_speculation p \<longleftrightarrow> only_saw is_number vs) \<and>
    (is_cell_speculation p \<longleftrightarrow> only_saw is_cell vs) \<and>
    (is_object_speculation p \<longleftrightarrow> only_saw (\<lambda>v. is_cell v \<and> js_type_is_object (ty v)) vs) \<and>
    (is_string_speculation p \<longleftrightarrow> only_saw (\<lambda>v. is_cell v \<and> ty v = JT_String) vs) \<and>
    (is_string_ident_speculation p \<longleftrightarrow>
       only_saw (\<lambda>v. is_cell v \<and> ty v = JT_String \<and> sk v = Some SK_Atom) vs) \<and>
    (is_symbol_speculation p \<longleftrightarrow> only_saw (\<lambda>v. is_cell v \<and> ty v = JT_Symbol) vs) \<and>
    (is_heap_big_int_speculation p \<longleftrightarrow> only_saw (\<lambda>v. is_cell v \<and> ty v = JT_HeapBigInt) vs) \<and>
    (is_final_object_speculation p \<longleftrightarrow> only_saw (\<lambda>v. is_cell v \<and> ty v = JT_FinalObject) vs) \<and>
    (is_boolean_speculation p \<longleftrightarrow> only_saw is_boolean vs) \<and>
    (is_other_speculation p \<longleftrightarrow> only_saw is_undefined_or_null vs) \<and>
    (is_misc_speculation p \<longleftrightarrow> only_saw (\<lambda>v. is_boolean v \<or> is_undefined_or_null v) vs) \<and>
    (is_empty_speculation p \<longleftrightarrow> only_saw (\<lambda>v. v = VALUE_EMPTY) vs)"
proof -
  obtain p where run: "run_steps (observe_value (cell_speculation ty sk)) vs SPEC_NONE = Some p"
    using profile_run [OF known] by blast
  have "p AND NOT SPEC_BYTECODE_TOP = 0"
    using known value_bits(3) run unfolding profile_run [OF known] by (auto simp: fold_or_within)
  then have top: "speculation_checked p SPEC_BYTECODE_TOP"
    by (auto simp: speculation_checked_def bit_eq_iff bit_simps)
  show ?thesis
    by (intro exI [of _ p] conjI run top;
        unfold within_tests, rule profile_within [OF known run], simp add: kinds_def)
qed

theorem profile_tests_exact_witness:
  "\<exists>p. run_steps (observe_value (cell_speculation (\<lambda>_. JT_String) (\<lambda>_. None)))
      [from_i32 7, from_i32 (-1)] SPEC_NONE = Some p \<and>
    is_int32_speculation p \<and> \<not> is_bool_int32_speculation p \<and> \<not> is_cell_speculation p"
proof -
  have k: "value_kind_of (from_i32 i) = VInt32" "seen_int (from_i32 i) j \<longleftrightarrow> j = i" if "in_i32 i" for i j
    using from_i32_value [OF that] by (auto simp: kind_disjoint seen_int_def)
  have i: "in_i32 7" "in_i32 (-1)" by (simp_all add: in_i32_def)
  have "\<forall>v \<in> set [from_i32 7, from_i32 (-1)]. known_value v"
    by (simp add: known_value_def k i)
  from profile_tests_exact [OF this, of "\<lambda>_. JT_String" "\<lambda>_. None"] show ?thesis
    by (auto simp: only_saw_def kind_disjoint k i)
qed

section \<open>Merging converges\<close>

text \<open>The changes that merging a sequence of speculations reports.\<close>

fun merge_all :: "speculated_type \<Rightarrow> speculated_type list \<Rightarrow> speculated_type \<times> nat" where
  "merge_all p [] = (p, 0)"
| "merge_all p (s # ss) =
     (let (p', changed) = merge_speculation p s; (q, n) = merge_all p' ss
      in (q, of_bool changed + n))"

lemma merge_all_value: "fst (merge_all p ss) = fold (\<lambda>s p. p OR s) ss p"
  by (induction ss arbitrary: p)
    (simp_all add: merge_speculation_def merge_speculations_def case_prod_beta Let_def)

lemma merge_all_changes: "card {n. bit p n} + snd (merge_all p ss) \<le> card {n. bit (fst (merge_all p ss)) n}"
proof (induction ss arbitrary: p)
  case (Cons s ss)
  define p' where "p' = p OR s"
  obtain q n where qn: "merge_all p' ss = (q, n)" by fastforce
  have "card {n. bit p n} + of_bool (p' \<noteq> p) \<le> card {n. bit p' n}"
  proof (cases "p' = p")
    case False
    then obtain m where "bit p' m" "\<not> bit p m" by (auto simp: bit_eq_iff p'_def bit_simps)
    then have "{n. bit p n} \<subset> {n. bit p' n}" by (auto simp: p'_def bit_simps)
    moreover have "finite {n. bit p' n}"
      by (rule finite_subset [of _ "{..< 64}"]) (auto dest: bit_imp_le_length)
    ultimately show ?thesis using psubset_card_mono [of "{n. bit p' n}" "{n. bit p n}"] False by simp
  qed simp
  with Cons.IH [of p'] show ?case
    by (simp add: merge_speculation_def merge_speculations_def Let_def qn p'_def [symmetric])
qed simp

text \<open>C0: Merging any sequence of speculations into a prediction gives their least upper bound, reports a
change exactly when the prediction grew, and so reports at most 64 changes however long the sequence is:
propagation that goes on while predictions change comes to an end.\<close>

theorem merging_converges:
  "merge_all p ss = (q, n) \<Longrightarrow>
     (speculation_checked p q \<and> (\<forall>s \<in> set ss. speculation_checked s q)) \<and>
     (\<forall>u. speculation_checked p u \<longrightarrow> (\<forall>s \<in> set ss. speculation_checked s u) \<longrightarrow> speculation_checked q u) \<and>
     n \<le> 64 - card {i. bit p i} \<and> (n = 0 \<longleftrightarrow> q = p)"
proof (intro conjI allI impI)
  assume m: "merge_all p ss = (q, n)"
  then have q: "q = fold (\<lambda>s p. p OR s) ss p" using merge_all_value [of p ss] by simp
  have checked: "speculation_checked a b \<longleftrightarrow> (\<forall>i. bit a i \<longrightarrow> bit b i)" for a b
    using bit_imp_le_length [of a] by (auto simp: speculation_checked_def bit_eq_iff bit_simps)
  show "speculation_checked p q" "\<forall>s \<in> set ss. speculation_checked s q"
    by (auto simp: checked q fold_or_bit)
  show "speculation_checked q u" if "speculation_checked p u" "\<forall>s \<in> set ss. speculation_checked s u" for u
    using that by (auto simp: checked q fold_or_bit)
  have "{i. bit q i} \<subseteq> {..< 64}" by (auto dest: bit_imp_le_length)
  then have "card {i. bit q i} \<le> 64" using card_mono [of "{..< 64 :: nat}"] by fastforce
  then show "n \<le> 64 - card {i. bit p i}" using merge_all_changes [of p ss] m by simp
  show "n = 0 \<longleftrightarrow> q = p"
  proof
    show "q = p \<Longrightarrow> n = 0" using merge_all_changes [of p ss] m by simp
    show "n = 0 \<Longrightarrow> q = p" using m
    proof (induction ss arbitrary: p)
      case (Cons s ss)
      then show ?case
        by (auto simp: merge_speculation_def merge_speculations_def Let_def split: prod.splits)
    qed simp
  qed
qed

theorem merging_converges_witness:
  "speculation_checked SPEC_ARRAY (SPEC_ARRAY OR SPEC_BOOLEAN) \<and> (2 :: nat) \<le> 64 - card {i. bit SPEC_NONE i}"
  using merging_converges [of SPEC_NONE "[SPEC_ARRAY, SPEC_BOOLEAN]" "SPEC_ARRAY OR SPEC_BOOLEAN" 2]
  by (simp add: merge_speculation_def merge_speculations_def spec_numerals)

end
