(* ===== verification/Spec2Isabelle.thy ===== *)
theory Spec2Isabelle
  imports Property_Table Big_Int_Ops Stream_Roundtrip Heap_Lifecycle Value_Layout Macro_Branches Structure_Transition Speculated_Type
begin

text \<open>
  A verification of core parts of JavaScriptCore-rs, the Rust port of WebKit's JavaScript engine
  (\<open>src/src\<close>): the garbage-collected heap, the representation of values, the property tables of
  objects, arbitrary-precision integers, the packed bytecode stream and the ARM64 assembler of the
  compilers.  Every definition is
  translated from the Rust source it names; the theories compute, so that a model can be run on a
  concrete input by simplification.

  \<^bold>\<open>Conventions\<close> (\<open>JSC_Prelude\<close>).  \<open>u8\<close> \dots \<open>u64\<close> and \<open>i32\<close> are words of the width of the Rust type where
  wrap-around matters; \<open>usize\<close> is \<open>nat\<close> where the code cannot overflow or checks.  A call that may
  panic, an index out of range or a failed assertion of the debug build, is an \<open>option\<close> that is
  \<open>None\<close>; an error the code returns is the left side of a sum.  Hash maps and sets are association
  lists or lists without duplicates.  What is not in the repository, the operating system's memory
  calls, floating-point division and powers, and the method tables of objects, is a parameter of the
  definitions, and what the code relies on of it is a named predicate: \<open>page_local\<close> for the effects of
  recommitting and decommitting a page, \<open>memory_granted\<close> for the addresses that are handed out,
  \<open>progression_ok\<close> for the computed size classes, \<open>stable_classes\<close> for the children that the
  method tables report.

  \<^bold>\<open>The heap\<close> (\<open>gc/heap/\<close>, \<open>interpreter/object_store.rs\<close>).  Memory is one \<open>arena\<close>: bytes by address and
  a header per block of 16 KB.
    \<^item> \<open>Marked_Block\<close> models \<open>marked_block.rs\<close>: headers, the bitmaps of marks and of new
      allocations, the geometry of cells, and when an address is the start of a cell.
    \<^item> \<open>Free_List\<close> and \<open>Sweep\<close> model \<open>free_list.rs\<close>: scrambled links between intervals of free
      cells, allocation, and the sweeps that thread the dead cells of blocks.  The locale
      \<open>cell_supply\<close> states what the allocator promises its clients; \<open>fl_repr\<close> is the abstraction to
      the list of cells in the order of allocation.  One theorem shows what happens when blocks lie
      too far apart for a link.
    \<^item> \<open>Block_Directory\<close> models \<open>block_directory.rs\<close>: acquiring, recommitting, allocating,
      sweeping and returning blocks of one size, with the invariant \<open>dir_inv\<close>.
    \<^item> \<open>Size_Class\<close> models the size classes of \<open>marked_space.rs\<close> and the table of the classes.
    \<^item> \<open>Worklist_Marking\<close> states marking with a worklist as the locale \<open>marker\<close>, with the three-colour
      invariant; \<open>Slot_Visitor\<close> models \<open>slot_visitor.rs\<close> and interprets it.  The drain loop is a
      partial function that is shown to return.
    \<^item> \<open>Marked_Space\<close> models the rest of \<open>marked_space.rs\<close> and \<open>precise_allocation.rs\<close>: the
      directories by size, the set of blocks with its filter, large allocations, the gates that admit
      addresses, and the operations over all blocks, with the invariant \<open>space_ok\<close>.
    \<^item> \<open>Weak_Marking\<close> models the mark phase of \<open>object_store.rs\<close> with weak maps, against the least
      set \<open>live_cells\<close>; \<open>Collection\<close> composes sweep and shrink over all directories; \<open>Force_Collect\<close>
      models \<open>force_collect\<close>: the mark phase, the finalizers of weak collections, the reconcile of
      dead cells, sweep and shrink.
    \<^item> \<open>Space_Allocation\<close> proves allocation in the whole space, and \<open>Heap_Lifecycle\<close> puts allocation,
      writes, weak collections and collections into one step relation, whose reachable states are
      well formed and never stuck.

  \<^bold>\<open>Values\<close> (\<open>value/repr.rs\<close>).  \<open>Js_Value\<close> models the 64-bit encoding with 8-bit tags, the type tests,
  accessors and equalities; doubles are their bits, with IEEE equality defined on them.  \<open>Value_Layout\<close>
  models the described layouts, value stacks and the root sets of \<open>gc/heap.rs\<close> they produce.

  \<^bold>\<open>Property tables\<close> (\<open>object/\<close>).  \<open>Property_Offset\<close> and \<open>Property_Table\<close> model the offset arithmetic and
  the insertion-ordered hash table with deleted entries and reuse of offsets.  The abstract view is
  the list of the live entries in order; the locales \<open>data_refinement\<close> and \<open>ordered_property_map\<close>
  state the contract, and every sequence of operations refines the list specification.

  \<^bold>\<open>BigInts\<close> (\<open>interpreter/bigint_store.rs\<close> and the text parser of \<open>interpreter/mod.rs\<close>).  \<open>Big_Int\<close> models
  sign and limbs, \<open>Big_Int_Arith\<close> and \<open>Big_Int_Ops\<close> prove every operation equal to that of the
  integers; the locale \<open>limbwise_op\<close> covers the three bitwise operations.

  \<^bold>\<open>Bytecode\<close> (\<open>bytecode/\<close>).  \<open>Virtual_Register\<close>, \<open>Opcode_Table\<close> and \<open>Instruction_Stream\<close> model the
  registers, the generated table of opcodes, the encodings of operands in three widths, the writer,
  the decoders and the cursor; \<open>Instruction_Codec\<close> and \<open>Stream_Roundtrip\<close> prove that what is emitted is
  what is read, through the locale \<open>self_delimiting\<close>.

  \<^bold>\<open>The ARM64 assembler\<close> (\<open>assembler/\<close>).  A code buffer is a list of bytes; every method of the encoder and
  of the macro assembler takes the buffer and returns the extended one.
    \<^item> \<open>Arm64_Registers\<close> models \<open>registers.rs\<close> and the operands of \<open>operands.rs\<close>, \<open>Arm64_Encoder\<close> every
      packer and \<open>emit\<close> method of \<open>arm64_encoder.rs\<close>, \<open>Arm64_Link\<close> the labels, jumps and link records of
      \<open>labels.rs\<close> and \<open>link_records.rs\<close>, and \<open>Macro_Assembler\<close> all of \<open>macro_assembler_arm64.rs\<close>.
    \<^item> The specification is the architecture: \<open>Arm64_Isa\<close> has the instructions as data, their decoder,
      written from the instruction formats and not from the encoder, and the operands they can have;
      \<open>Arm64_Machine\<close> has registers, flags, memory, the effect of every instruction, and runs of code
      that lies at an address.  \<open>Arm64_Decode\<close> proves that what the encoder packs is what the decoder reads.
    \<^item> \<open>Arm64_Emitted\<close> states every \<open>emit\<close> method as the instruction it appends and defines \<open>computes\<close>: code
      appended to any buffer, with any code behind it, run from its first byte, reaches its end with a given effect.
      \<open>Macro_Moves\<close>, \<open>Macro_Arith\<close>, \<open>Macro_Registers\<close> and \<open>Macro_Memory\<close> prove the effect of the moves, the
      arithmetic, the logic and shifts, and the loads, stores and stack operations, for all operands and immediates.
    \<^item> \<open>Link_Correct\<close> gives the exact result of linking, errors included, and \<open>Macro_Branches\<close> composes
      code generation and linking: where the linked branches, jumps and calls go and what they leave.
  The preconditions of these theorems are those of the code: the debug assertions, and that operands
  are not the scratch registers the operation itself uses.  A large immediate of a 32-bit addition into
  another register is built in the destination, so that theorem excludes the stack pointer there.

  \<^bold>\<open>Bounds.\<close>  No theorem bounds the size of a heap, table or number beyond what the code does.  Loops
  that walk bounded data recurse over it or over a measure; the loops of the collector that end only
  because marking makes progress are partial functions, and their totality is part of the theorems.
  Free lists link blocks by 32-bit distances; the theorems on sweeping assume that the blocks of a
  directory lie within \<open>2 ^ 31\<close> bytes (\<open>spread_ok\<close>, \<open>in_window\<close>), without which the code is wrong.
  Code buffers are below \<open>2 ^ 64\<close> bytes, and below \<open>2 ^ 32\<close> where labels are stored in 32 bits.

  \<^bold>\<open>Not modelled.\<close>  The parser, the interpreter's dispatch, the compilers, the run-time library, regular
  expressions, WebAssembly, modules, the debugger and the platform layer.  Of the object store, the
  space of structures, which has the same operations as the one of objects, the side tables that hang
  off cells, and everything that is not allocation or collection.  Of \<open>bigint_store.rs\<close>, the two
  conversions with doubles and the table of interned values.  Of the assembler, the descriptors of link
  buffers in \<open>mod.rs\<close>, the wrapper types of operands without behaviour, and the indirect forms of far conditional
  branches, which the code refuses too; the arithmetic of doubles is a parameter of the machine.
\<close>

end
